(* ===== verification/Prelude.thy ===== *)
theory Prelude
  imports Main "HOL-Library.Word"
begin

text \<open>
  Shared vocabulary of the ARCOS development.

  \<^item> Machine types: every C \<^verbatim>\<open>ULONG\<close>, \<^verbatim>\<open>STATUS\<close>, \<^verbatim>\<open>HANDLE\<close> and pointer of
    the MIPS32 target is a 32-bit word, every \<^verbatim>\<open>CHAR\<close> an 8-bit word.
  \<^item> The kernel monad: a C function is a function from the machine state to an optional
    outcome.  \<open>None\<close> means that the code never returns (a loop that runs for ever),
    \<open>Halt\<close> that it ended in a bug check, a failed assertion or an access through a bad
    pointer, \<open>Return\<close> that it returned a value and a new state.
  \<^item> \<open>returns m s Q\<close>: total correctness; started in \<open>s\<close> the code returns, and the
    result and the final state satisfy \<open>Q\<close>.  Its rules, collected in \<open>kern\<close>, execute
    a function symbolically.
  \<^item> \<open>chain nxt p xs\<close>: following the partial link function \<open>nxt\<close> from pointer \<open>p\<close>
    visits exactly the nodes \<open>xs\<close> and ends in NULL.  The locale \<open>linked_store\<close> is the
    interface every linked structure of the kernel (PCB queues, object lists, message
    queues, wait queues) offers.
\<close>

section \<open>Machine types\<close>

type_synonym u32 = "32 word"
type_synonym addr = "32 word"
type_synonym byte = "8 word"

named_theorems kern "symbolic execution rules of the kernel monad"
named_theorems run "exact evaluation rules of the kernel monad"
named_theorems chain_simps "rules about pointer chains"

section \<open>The kernel monad\<close>

datatype halt =
    BugCheck string
  | AssertFailed string nat
  | Fault
  | Exit nat

datatype ('a, 's) outcome = Halt halt | Return 'a 's

type_synonym ('s, 'a) kmonad = "'s \<Rightarrow> ('a, 's) outcome option"

definition kreturn :: "'a \<Rightarrow> ('s, 'a) kmonad" where
  "kreturn a = (\<lambda>s. Some (Return a s))"

definition khalt :: "halt \<Rightarrow> ('s, 'a) kmonad" where
  "khalt h = (\<lambda>s. Some (Halt h))"

definition kbind :: "('s, 'a) kmonad \<Rightarrow> ('a \<Rightarrow> ('s, 'b) kmonad) \<Rightarrow> ('s, 'b) kmonad" where
  "kbind m f = (\<lambda>s. case m s of
       None \<Rightarrow> None
     | Some (Halt h) \<Rightarrow> Some (Halt h)
     | Some (Return a t) \<Rightarrow> f a t)"

definition kthen :: "('s, 'a) kmonad \<Rightarrow> ('s, 'b) kmonad \<Rightarrow> ('s, 'b) kmonad" where
  "kthen m n = kbind m (\<lambda>_. n)"

definition kget :: "('s \<Rightarrow> 'a) \<Rightarrow> ('s, 'a) kmonad" where
  "kget f = (\<lambda>s. Some (Return (f s) s))"

definition kmodify :: "('s \<Rightarrow> 's) \<Rightarrow> ('s, unit) kmonad" where
  "kmodify f = (\<lambda>s. Some (Return () (f s)))"

definition kassert :: "string \<Rightarrow> nat \<Rightarrow> bool \<Rightarrow> ('s, unit) kmonad" where
  "kassert file line b = (if b then kreturn () else khalt (AssertFailed file line))"

definition kwhen :: "bool \<Rightarrow> ('s, unit) kmonad \<Rightarrow> ('s, unit) kmonad" where
  "kwhen b m = (if b then m else kreturn ())"

text \<open>
  A C loop: the body either continues with a new value of the loop variables (\<open>Inl\<close>)
  or leaves the loop with a result (\<open>Inr\<close>).  A loop that never leaves is \<open>None\<close>.
\<close>

partial_function (option) kloop ::
  "('x \<Rightarrow> ('s, 'x + 'r) kmonad) \<Rightarrow> 'x \<Rightarrow> 's \<Rightarrow> ('r, 's) outcome option" where
  "kloop body x s = (case body x s of
       None \<Rightarrow> None
     | Some res \<Rightarrow> (case res of
           Halt h \<Rightarrow> Some (Halt h)
         | Return r t \<Rightarrow> (case r of
               Inl y \<Rightarrow> kloop body y t
             | Inr v \<Rightarrow> Some (Return v t))))"

text \<open>A \<^verbatim>\<open>for\<close> loop over a fixed list of indices.\<close>

primrec kfor :: "'x list \<Rightarrow> ('x \<Rightarrow> ('s, unit) kmonad) \<Rightarrow> ('s, unit) kmonad" where
  "kfor [] body = kreturn ()"
| "kfor (x # xs) body = kthen (body x) (kfor xs body)"

subsection \<open>Total correctness\<close>

definition returns :: "('s, 'a) kmonad \<Rightarrow> 's \<Rightarrow> ('a \<Rightarrow> 's \<Rightarrow> bool) \<Rightarrow> bool" where
  "returns m s Q = (case m s of Some (Return a t) \<Rightarrow> Q a t | _ \<Rightarrow> False)"

definition halts :: "('s, 'a) kmonad \<Rightarrow> 's \<Rightarrow> halt \<Rightarrow> bool" where
  "halts m s h \<longleftrightarrow> m s = Some (Halt h)"

lemma returns_kreturn [kern]: "returns (kreturn a) s Q = Q a s"
  by (simp add: returns_def kreturn_def)

lemma returns_khalt [kern]: "returns (khalt h) s Q = False"
  by (simp add: returns_def khalt_def)

lemma returns_kbind [kern]:
  "returns (kbind m f) s Q = returns m s (\<lambda>a t. returns (f a) t Q)"
  by (auto simp: returns_def kbind_def split: option.splits outcome.splits)

lemma returns_kthen [kern]:
  "returns (kthen m n) s Q = returns m s (\<lambda>_ t. returns n t Q)"
  by (simp add: kthen_def returns_kbind)

lemma returns_kget [kern]: "returns (kget f) s Q = Q (f s) s"
  by (simp add: returns_def kget_def)

lemma returns_kmodify [kern]: "returns (kmodify f) s Q = Q () (f s)"
  by (simp add: returns_def kmodify_def)

lemma returns_kassert [kern]: "returns (kassert fl ln b) s Q = (b \<and> Q () s)"
  by (simp add: returns_def kassert_def kreturn_def khalt_def)

lemma returns_kwhen [kern]:
  "returns (kwhen b m) s Q = (if b then returns m s Q else Q () s)"
  by (simp add: kwhen_def returns_kreturn)

lemma returns_if [kern]:
  "returns (if b then m else n) s Q = (if b then returns m s Q else returns n s Q)"
  by simp

lemma returns_kloop:
  "returns (kloop body x) s Q =
     returns (body x) s (\<lambda>r t. case r of Inl y \<Rightarrow> returns (kloop body y) t Q | Inr v \<Rightarrow> Q v t)"
  unfolding returns_def
  by (subst kloop.simps) (simp split: option.split outcome.split sum.split)

lemma returns_kloop_next:
  "body x s = Some (Return (Inl y) t) \<Longrightarrow> returns (kloop body x) s Q = returns (kloop body y) t Q"
  by (subst returns_kloop) (simp add: returns_def)

lemma returns_kloop_last:
  "body x s = Some (Return (Inr v) t) \<Longrightarrow> returns (kloop body x) s Q = Q v t"
  by (subst returns_kloop) (simp add: returns_def)

lemma returns_mono:
  "returns m s Q \<Longrightarrow> (\<And>a t. Q a t \<Longrightarrow> R a t) \<Longrightarrow> returns m s R"
  by (auto simp: returns_def split: option.splits outcome.splits)

lemma returns_conj:
  "returns m s Q \<Longrightarrow> returns m s R \<Longrightarrow> returns m s (\<lambda>a t. Q a t \<and> R a t)"
  by (auto simp: returns_def split: option.splits outcome.splits)

lemma returns_iff: "returns m s Q \<longleftrightarrow> (\<exists>a t. m s = Some (Return a t) \<and> Q a t)"
  by (auto simp: returns_def split: option.splits outcome.splits)

lemma returns_eq: "m s = n t \<Longrightarrow> returns m s Q = returns n t Q"
  by (simp add: returns_def)

lemma returnsI: "m s = Some (Return a t) \<Longrightarrow> Q a t \<Longrightarrow> returns m s Q"
  by (simp add: returns_def)

lemma returns_exact: "m s = Some (Return a t) \<longleftrightarrow> returns m s (\<lambda>b u. b = a \<and> u = t)"
  by (auto simp: returns_def split: option.splits outcome.splits)

text \<open>The \<^verbatim>\<open>while\<close> rule: an invariant, and a measure that every further round lowers.\<close>

lemma returns_kloop_rule:
  assumes "I x s"
    and "\<And>x s. I x s \<Longrightarrow> returns (body x) s
           (\<lambda>r t. case r of Inl y \<Rightarrow> I y t \<and> (m y t :: nat) < m x s | Inr v \<Rightarrow> Q v t)"
  shows "returns (kloop body x) s Q"
  using assms(1)
proof (induction "m x s" arbitrary: x s rule: less_induct)
  case less
  show ?case
    unfolding returns_kloop [of body x s Q]
    by (rule returns_mono [OF assms(2) [OF less.prems]])
       (auto split: sum.splits intro: less.hyps)
qed

lemma returns_kfor_Nil [kern]: "returns (kfor [] body) s Q = Q () s"
  by (simp add: returns_kreturn)

lemma returns_kfor_Cons [kern]:
  "returns (kfor (x # xs) body) s Q = returns (body x) s (\<lambda>_ t. returns (kfor xs body) t Q)"
  by (simp add: returns_kthen)

text \<open>The \<^verbatim>\<open>for\<close> rule: an invariant indexed by the list of rounds already done.\<close>

lemma returns_kfor_rule:
  assumes "I [] s"
    and "\<And>ds x es t. xs = ds @ x # es \<Longrightarrow> I ds t \<Longrightarrow> returns (body x) t (\<lambda>_ u. I (ds @ [x]) u)"
    and "\<And>t. I xs t \<Longrightarrow> Q () t"
  shows "returns (kfor xs body) s Q"
proof -
  have "\<And>ds. xs = ds @ es \<Longrightarrow> I ds t \<Longrightarrow> returns (kfor es body) t Q" for es t
  proof (induction es arbitrary: t)
    case Nil
    then show ?case using assms(3) by (simp add: returns_kreturn)
  next
    case (Cons e es)
    show ?case
      unfolding returns_kfor_Cons
      by (rule returns_mono [OF assms(2) [OF Cons.prems]]) (use Cons in auto)
  qed
  then show ?thesis using assms(1) by blast
qed

subsection \<open>Halting\<close>

lemma halts_kbind:
  "halts (kbind m f) s h \<longleftrightarrow>
     halts m s h \<or> (\<exists>a t. m s = Some (Return a t) \<and> halts (f a) t h)"
  by (auto simp: halts_def kbind_def split: option.splits outcome.splits)

lemma halts_not_returns: "halts m s h \<Longrightarrow> \<not> returns m s Q"
  by (simp add: halts_def returns_def)

lemma kbind_assoc:
  "kbind (kbind m f) g = kbind m (\<lambda>a. kbind (f a) g)"
  "kbind (kthen m n) g = kthen m (kbind n g)"
  by (auto simp: kbind_def kthen_def fun_eq_iff split: option.split outcome.split)

lemma kbind_return: "kbind (kreturn a) f = f a"
  by (simp add: kbind_def kreturn_def)

lemma kbind_run [run]:
  "m s = Some (Return a t) \<Longrightarrow> kbind m f s = f a t"
  "m s = Some (Halt h) \<Longrightarrow> kbind m f s = Some (Halt h)"
  "m s = None \<Longrightarrow> kbind m f s = None"
  by (simp_all add: kbind_def)

lemma kthen_run [run]:
  "m s = Some (Return a t) \<Longrightarrow> kthen m n s = n t"
  "m s = Some (Halt h) \<Longrightarrow> kthen m n s = Some (Halt h)"
  "m s = None \<Longrightarrow> kthen m n s = None"
  by (simp_all add: kthen_def run)

lemma kprim_run [run]:
  "kreturn a s = Some (Return a s)"
  "khalt h s = Some (Halt h)"
  "kget g s = Some (Return (g s) s)"
  "kmodify u s = Some (Return () (u s))"
  by (simp_all add: kreturn_def khalt_def kget_def kmodify_def)

lemma kassert_run [run]:
  "b \<Longrightarrow> kassert fl ln b s = Some (Return () s)"
  "\<not> b \<Longrightarrow> kassert fl ln b s = Some (Halt (AssertFailed fl ln))"
  by (simp_all add: kassert_def run)

lemma kwhen_run [run]:
  "b \<Longrightarrow> kwhen b m s = m s"
  "\<not> b \<Longrightarrow> kwhen b m s = Some (Return () s)"
  by (simp_all add: kwhen_def run)

section \<open>Pointer chains\<close>

text \<open>
  \<open>seg nxt p xs q\<close>: starting at pointer \<open>p\<close>, the link function visits the non-NULL
  nodes \<open>xs\<close> one after the other and arrives at \<open>q\<close>.  A NULL-terminated list is a
  segment that ends in 0.
\<close>

fun seg :: "(addr \<Rightarrow> addr option) \<Rightarrow> addr \<Rightarrow> addr list \<Rightarrow> addr \<Rightarrow> bool" where
  "seg nxt p [] q \<longleftrightarrow> p = q"
| "seg nxt p (x # xs) q \<longleftrightarrow> p \<noteq> 0 \<and> x = p \<and> (\<exists>r. nxt p = Some r \<and> seg nxt r xs q)"

abbreviation chain :: "(addr \<Rightarrow> addr option) \<Rightarrow> addr \<Rightarrow> addr list \<Rightarrow> bool" where
  "chain nxt p xs \<equiv> seg nxt p xs 0"

text \<open>The pointer to the first node of a list, NULL when it is empty.\<close>

definition hd0 :: "addr list \<Rightarrow> addr" where
  "hd0 xs = (case xs of [] \<Rightarrow> 0 | x # _ \<Rightarrow> x)"

lemma hd0_simps [simp]: "hd0 [] = 0" "hd0 (x # xs) = x"
  by (simp_all add: hd0_def)

lemma seg_append [chain_simps]:
  "seg nxt p (xs @ ys) q \<longleftrightarrow> (\<exists>r. seg nxt p xs r \<and> seg nxt r ys q)"
  by (induction xs arbitrary: p) auto

lemma seg_null: "seg nxt 0 xs q \<longleftrightarrow> xs = [] \<and> q = 0"
  by (cases xs) auto

lemma chain_null [simp]: "chain nxt 0 xs \<longleftrightarrow> xs = []"
  by (simp add: seg_null)

lemma chain_nonnull:
  "p \<noteq> 0 \<Longrightarrow> chain nxt p xs \<longleftrightarrow> (\<exists>r ys. xs = p # ys \<and> nxt p = Some r \<and> chain nxt r ys)"
  by (cases xs) auto

lemma chain_hd0: "chain nxt p xs \<Longrightarrow> p = hd0 xs"
  by (cases xs) auto

lemma seg_hd0: "seg nxt p xs q \<Longrightarrow> xs \<noteq> [] \<Longrightarrow> p = hd0 xs"
  by (cases xs) auto

lemma seg_nonnull: "seg nxt p xs q \<Longrightarrow> x \<in> set xs \<Longrightarrow> x \<noteq> 0"
  by (induction xs arbitrary: p) auto

lemma seg_no_zero: "seg nxt p xs q \<Longrightarrow> 0 \<notin> set xs"
  by (auto dest: seg_nonnull)

lemma seg_in_dom: "seg nxt p xs q \<Longrightarrow> x \<in> set xs \<Longrightarrow> \<exists>r. nxt x = Some r"
  by (induction xs arbitrary: p) auto

lemma chain_unique: "chain nxt p xs \<Longrightarrow> chain nxt p ys \<Longrightarrow> xs = ys"
proof (induction xs arbitrary: p ys)
  case Nil
  then show ?case by (cases ys) auto
next
  case (Cons x xs)
  then show ?case by (cases ys) auto
qed

lemma seg_cong:
  "(\<And>x. x \<in> set xs \<Longrightarrow> nxt x = nxt' x) \<Longrightarrow> seg nxt p xs q \<longleftrightarrow> seg nxt' p xs q"
  by (induction xs arbitrary: p) auto

lemma seg_upd_other [chain_simps]:
  "a \<notin> set xs \<Longrightarrow> seg (nxt(a := v)) p xs q \<longleftrightarrow> seg nxt p xs q"
  by (rule seg_cong) auto

lemma chain_split_at: "chain nxt p (xs @ a # ys) \<Longrightarrow> nxt a = Some (hd0 ys) \<and> chain nxt (hd0 ys) ys"
  by (auto simp: seg_append dest: chain_hd0)

lemma chain_distinct: "chain nxt p xs \<Longrightarrow> distinct xs"
proof (induction xs arbitrary: p)
  case Nil
  then show ?case by simp
next
  case (Cons x xs)
  then obtain r where r: "nxt x = Some r" "chain nxt r xs" by auto
  have "x \<notin> set xs"
  proof
    assume "x \<in> set xs"
    then obtain us vs where xs: "xs = us @ x # vs" by (auto simp: in_set_conv_decomp)
    with r chain_split_at [of nxt r us x vs] have "chain nxt r vs" by auto
    with r(2) have "xs = vs" by (rule chain_unique)
    with xs show False by simp
  qed
  with Cons.IH [OF r(2)] show ?case by simp
qed

lemma chain_push:
  "chain nxt p xs \<Longrightarrow> a \<noteq> 0 \<Longrightarrow> a \<notin> set xs \<Longrightarrow> chain (nxt(a \<mapsto> p)) a (a # xs)"
  by (simp add: seg_upd_other)

lemma chain_append:
  assumes "chain nxt p (xs @ [l])" and "nxt a = Some 0" and "a \<noteq> 0" and "a \<notin> set (xs @ [l])"
  shows "chain (nxt(l \<mapsto> a)) p (xs @ [l, a])"
proof -
  have "distinct (xs @ [l])" using assms(1) by (rule chain_distinct)
  with assms show ?thesis by (auto simp: seg_append seg_upd_other)
qed

lemma chain_unlink:
  assumes "chain nxt p (xs @ a # t # ys)"
  shows "chain (nxt(a \<mapsto> hd0 ys)) p (xs @ a # ys)"
proof -
  have "distinct (xs @ a # t # ys)" using assms by (rule chain_distinct)
  moreover have "chain nxt (hd0 ys) ys"
    using assms chain_split_at [of nxt p "xs @ [a]" t ys] by simp
  ultimately show ?thesis using assms by (auto simp: seg_append seg_upd_other)
qed

lemma chain_last_next: "chain nxt p (xs @ [l]) \<Longrightarrow> nxt l = Some 0"
  by (auto simp: seg_append)

text \<open>
  The interface of a linked structure of the kernel: a link field read by \<open>nxt\<close> and
  written by \<open>link\<close>, with the law that a write to an existing node changes that node's
  link and nothing else.  The list operations of the code then act on the abstract list.
\<close>

locale linked_store =
  fixes nxt :: "'s \<Rightarrow> addr \<Rightarrow> addr option"
    and link :: "addr \<Rightarrow> addr \<Rightarrow> 's \<Rightarrow> 's"
  assumes nxt_link: "nxt s a = Some r \<Longrightarrow> nxt (link a q s) = (nxt s)(a \<mapsto> q)"
begin

lemma link_other:
  "nxt s a = Some r \<Longrightarrow> a \<notin> set xs \<Longrightarrow> seg (nxt (link a q s)) p xs z \<longleftrightarrow> seg (nxt s) p xs z"
  by (simp add: nxt_link seg_upd_other)

lemma link_push:
  "chain (nxt s) p xs \<Longrightarrow> nxt s a = Some r \<Longrightarrow> a \<noteq> 0 \<Longrightarrow> a \<notin> set xs \<Longrightarrow>
     chain (nxt (link a p s)) a (a # xs)"
  by (simp only: nxt_link) (rule chain_push)

lemma link_append:
  assumes "chain (nxt s) p xs" and "xs \<noteq> []" and "nxt s a = Some 0" and "a \<noteq> 0" and "a \<notin> set xs"
  shows "chain (nxt (link (last xs) a s)) p (xs @ [a])"
proof -
  have x: "xs = butlast xs @ [last xs]" using assms(2) by simp
  with assms(1) have c: "chain (nxt s) p (butlast xs @ [last xs])" by simp
  then have "nxt s (last xs) = Some 0" by (rule chain_last_next)
  moreover have "chain ((nxt s)(last xs \<mapsto> a)) p (butlast xs @ [last xs, a])"
    using c assms(3,4) by (rule chain_append) (use assms(5) x in simp)
  moreover have "butlast xs @ [last xs, a] = xs @ [a]" using assms(2) by simp
  ultimately show ?thesis by (simp add: nxt_link)
qed

lemma link_unlink:
  assumes "chain (nxt s) p (xs @ a # t # ys)"
  shows "chain (nxt (link a (hd0 ys) s)) p (xs @ a # ys)"
proof -
  have "nxt s a = Some t"
    using chain_split_at [OF assms] by simp
  then show ?thesis
    using chain_unlink [OF assms] by (simp add: nxt_link)
qed

end

text \<open>Addresses behind an address.\<close>

lemma unat_add_of_nat: "unat a + n < 2 ^ 32 \<Longrightarrow> unat (a + of_nat n :: addr) = unat a + n"
proof -
  assume n: "unat a + n < 2 ^ 32"
  have "n < 2 ^ LENGTH(32)" using n by simp
  then have u: "unat (of_nat n :: addr) = n" by (simp only: unsigned_of_nat take_bit_nat_eq_self of_nat_id)
  then show ?thesis using n by (subst unat_add_lem [THEN iffD1]) simp_all
qed

end
