(* ===== verification/KState.thy ===== *)
theory KState
  imports Prelude
begin

text \<open>
  The data of the kernel: the structs and enums of \<^verbatim>\<open>include/arcos.h\<close>,
  \<^verbatim>\<open>include/ob.h\<close>, \<^verbatim>\<open>include/io.h\<close> and \<^verbatim>\<open>include/ke.h\<close> as records and datatypes, and
  the machine state: the global variables of all modules and the heap.

  The heap is split by struct type: \<open>procs\<close> holds the process control blocks by address,
  \<open>headers\<close> the object headers, and so on; \<open>mem\<close> is the untyped byte memory behind
  character buffers.  An object body is found 32 bytes after its header, as
  \<^verbatim>\<open>OBJECT_BODY_TO_HEADER\<close> computes it.  An access through NULL, or through an address that
  holds no struct of the type the code uses, is \<open>Fault\<close>.  \<^verbatim>\<open>MmFree\<close> does nothing, so a
  struct, once written, stays readable.

  Function pointers are datatypes with one constructor per function the source ever
  stores in them.
\<close>

section \<open>Status values\<close>

definition STATUS_SUCCESS :: u32 where "STATUS_SUCCESS = 0x00000000"
definition STATUS_TIMEOUT :: u32 where "STATUS_TIMEOUT = 0x00000001"
definition STATUS_INSUFFICIENT_RESOURCES :: u32 where "STATUS_INSUFFICIENT_RESOURCES = 0x00000002"
definition STATUS_INVALID_HANDLE :: u32 where "STATUS_INVALID_HANDLE = 0x00000003"
definition STATUS_INVALID_DEVICE_REQUEST :: u32 where "STATUS_INVALID_DEVICE_REQUEST = 0x00000004"
definition STATUS_NO_MEMORY :: u32 where "STATUS_NO_MEMORY = 0x00000005"
definition STATUS_BUFFER_TOO_SMALL :: u32 where "STATUS_BUFFER_TOO_SMALL = 0x00000006"
definition STATUS_INVALID_PARAMETER :: u32 where "STATUS_INVALID_PARAMETER = 0x0000000A"
definition STATUS_OBJECT_TYPE_MISMATCH :: u32 where "STATUS_OBJECT_TYPE_MISMATCH = 0x0000000B"
definition STATUS_HANDLE_LIMIT_REACHED :: u32 where "STATUS_HANDLE_LIMIT_REACHED = 0x0000000C"
definition STATUS_NO_SUCH_PROCESS :: u32 where "STATUS_NO_SUCH_PROCESS = 0x0000000D"
definition STATUS_NO_SUCH_PROGRAM :: u32 where "STATUS_NO_SUCH_PROGRAM = 0x0000000E"
definition STATUS_INVALID_APPLICATION_ADRESS :: u32 where
  "STATUS_INVALID_APPLICATION_ADRESS = 0x0000000F"

lemmas status_defs =
  STATUS_SUCCESS_def STATUS_TIMEOUT_def STATUS_INSUFFICIENT_RESOURCES_def
  STATUS_INVALID_HANDLE_def STATUS_INVALID_DEVICE_REQUEST_def STATUS_NO_MEMORY_def
  STATUS_BUFFER_TOO_SMALL_def STATUS_INVALID_PARAMETER_def STATUS_OBJECT_TYPE_MISMATCH_def
  STATUS_HANDLE_LIMIT_REACHED_def STATUS_NO_SUCH_PROCESS_def STATUS_NO_SUCH_PROGRAM_def
  STATUS_INVALID_APPLICATION_ADRESS_def

section \<open>Processes\<close>

text \<open>The MIPS32 processor context, in the order the assembler sources use.\<close>

record CONTEXT =
  At :: u32
  V0 :: u32
  V1 :: u32
  A0 :: u32
  A1 :: u32
  A2 :: u32
  A3 :: u32
  T0 :: u32
  T1 :: u32
  T2 :: u32
  T3 :: u32
  T4 :: u32
  T5 :: u32
  T6 :: u32
  T7 :: u32
  S0 :: u32
  S1 :: u32
  S2 :: u32
  S3 :: u32
  S4 :: u32
  S5 :: u32
  S6 :: u32
  S7 :: u32
  T8 :: u32
  T9 :: u32
  K0 :: u32
  K1 :: u32
  Gp :: u32
  Sp :: u32
  Fp :: u32
  Ra :: u32
  Hi :: u32
  Lo :: u32
  Pc :: u32

datatype PROCESS_STATE = created | running | ready | blocked | done_state

datatype RESUME_METHOD = NoResumeMethod | MessResumeMethod

record HANDLE_TABLE_ENTRY =
  HtAttributes :: u32
  HtObject :: addr

definition MAX_HANDLE_COUNT :: nat where "MAX_HANDLE_COUNT = 256"

record MESSAGE =
  senderPid :: u32
  receiverPid :: u32
  msgPriority :: u32
  msgType :: u32
  msgBuffer :: addr
  bufferSize :: u32
  msgNext :: addr

record PROCESS =
  Context :: CONTEXT
  HandleTable :: "nat \<Rightarrow> HANDLE_TABLE_ENTRY"
  State :: PROCESS_STATE
  RunningProgram :: addr
  PID :: u32
  Priority :: u32
  ExitStatus :: u32
  AllocatedMemory :: addr
  CPUTime :: u32
  WakeUpTime :: u32
  Quantum :: u32
  Args :: addr
  MessageQueue :: addr
  Supervisor :: u32
  ResumeMethod :: RESUME_METHOD
  NextPCB :: addr

record MESS_PROCESS_NODE =
  mnProcess :: addr
  mnPid :: u32
  mnType :: u32
  mnNext :: addr

record MESS_PROCESS_QUEUE =
  mqFirst :: addr
  mqLast :: addr

definition PROCESS_PRIORITY_LEVELS :: nat where "PROCESS_PRIORITY_LEVELS = 32"

record PROCESS_QUEUE =
  First :: addr
  Last :: addr

section \<open>Objects\<close>

definition OBJ_PERMANENT :: u32 where "OBJ_PERMANENT = 1"
definition OBJ_INHERIT :: u32 where "OBJ_INHERIT = 2"

record OB_WAIT_QUEUE_ENTRY =
  WqProcess :: addr
  WqNext :: addr

record OBJECT_HEADER =
  Magic :: u32
  HandleCount :: u32
  PointerCount :: u32
  ObjAttributes :: u32
  SignalState :: u32
  WaitQueue :: addr
  ObjType :: addr
  NextObjectOfType :: addr

datatype DUMP_METHOD = NoDumpMethod | DumpFooMethod
datatype DELETE_METHOD = NoDeleteMethod | DeleteFooMethod

record OBJECT_TYPE =
  TypeName :: u32
  FirstObjectOfType :: addr
  NextTypeObject :: addr
  TypeDump :: DUMP_METHOD
  TypeDelete :: DELETE_METHOD

record OBJECT_TYPE_INITIALIZER =
  DumpMethod :: DUMP_METHOD
  DeleteMethod :: DELETE_METHOD

section \<open>Files\<close>

definition FIFO_SIZE :: nat where "FIFO_SIZE = 16"

record FIFO =
  fifoBuffer :: "byte list"
  fifoLength :: u32

datatype IO_METHOD = NoIoMethod | IoReadSerialMethod | IoWriteSerialMethod | IoWriteLcdMethod

record FILE =
  fileWrite :: IO_METHOD
  fileRead :: IO_METHOD

record IO_WAITING_NODE =
  wnProcess :: addr
  wnBuffer :: addr
  wnBufferSize :: u32
  wnNext :: addr

record IO_WAITING_QUEUE =
  wqFirst :: addr
  wqLast :: addr

record IO_BUFFER_NODE =
  bnBufferSize :: u32
  bnSizeCounter :: u32
  bnNext :: addr

record IO_BUFFER_QUEUE =
  bqFirst :: addr
  bqLast :: addr

section \<open>Process information\<close>

record PROCESS_INFO =
  piState :: PROCESS_STATE
  piRunningProgram :: addr
  piPID :: u32
  piPriority :: u32
  piCPUTime :: u32

section \<open>The kernel image\<close>

text \<open>
  What the compiler and the linker decide and the code refers to: the address of each string
  literal, of each function whose address is taken, of the arrays among the global
  variables, and of the character arrays on the stack; and what an uninitialised
  \<^verbatim>\<open>PROCESS_INFO\<close> on the stack happens to hold.
\<close>

record image =
  literal :: "string \<Rightarrow> addr"
  code_address :: "string \<Rightarrow> addr"
  commandBuffer :: addr
  stack_buffer :: addr
  stack_info :: PROCESS_INFO

section \<open>The serial controllers\<close>

text \<open>
  The registers of a controller, one byte each; a register that means one thing when it is read and
  another when it is written is one \<^verbatim>\<open>union\<close> of the code and one field here.  The bit fields
  follow: position of the lowest bit and width.
\<close>

record NS16550 =
  uRbr :: byte
  uIer :: byte
  uIir :: byte
  uLcr :: byte
  uMcr :: byte
  uLsr :: byte
  uMsr :: byte
  uScratch :: byte

datatype uart_field =
  IER_erbfi | IER_etbei | IER_elsi | IER_edssi
  | IIR_pending | IIR_id
  | FCR_fe | FCR_rfr | FCR_xfr | FCR_dms
  | LCR_wls | LCR_stb | LCR_pen | LCR_eps
  | MCR_dtr | MCR_rts | MCR_out1 | MCR_out2
  | LSR_dr | LSR_oe | LSR_pe | LSR_fe | LSR_bi | LSR_thre | LSR_temt
  | MSR_dcts | MSR_ddsr | MSR_teri | MSR_ddcd | MSR_cts | MSR_dsr | MSR_ri | MSR_dcd

fun field_at :: "uart_field \<Rightarrow> nat \<times> nat" where
  "field_at IER_erbfi = (0, 1)"
| "field_at IER_etbei = (1, 1)"
| "field_at IER_elsi = (2, 1)"
| "field_at IER_edssi = (3, 1)"
| "field_at IIR_pending = (0, 1)"
| "field_at IIR_id = (1, 3)"
| "field_at FCR_fe = (0, 1)"
| "field_at FCR_rfr = (1, 1)"
| "field_at FCR_xfr = (2, 1)"
| "field_at FCR_dms = (3, 1)"
| "field_at LCR_wls = (0, 2)"
| "field_at LCR_stb = (2, 1)"
| "field_at LCR_pen = (3, 1)"
| "field_at LCR_eps = (4, 1)"
| "field_at MCR_dtr = (0, 1)"
| "field_at MCR_rts = (1, 1)"
| "field_at MCR_out1 = (2, 1)"
| "field_at MCR_out2 = (3, 1)"
| "field_at LSR_dr = (0, 1)"
| "field_at LSR_oe = (1, 1)"
| "field_at LSR_pe = (2, 1)"
| "field_at LSR_fe = (3, 1)"
| "field_at LSR_bi = (4, 1)"
| "field_at LSR_thre = (5, 1)"
| "field_at LSR_temt = (6, 1)"
| "field_at MSR_dcts = (0, 1)"
| "field_at MSR_ddsr = (1, 1)"
| "field_at MSR_teri = (2, 1)"
| "field_at MSR_ddcd = (3, 1)"
| "field_at MSR_cts = (4, 1)"
| "field_at MSR_dsr = (5, 1)"
| "field_at MSR_ri = (6, 1)"
| "field_at MSR_dcd = (7, 1)"

definition get_field :: "uart_field \<Rightarrow> byte \<Rightarrow> byte" where
  "get_field f r = (case field_at f of (pos, width) \<Rightarrow> and (drop_bit pos r) (mask width))"

definition set_field :: "uart_field \<Rightarrow> byte \<Rightarrow> byte \<Rightarrow> byte" where
  "set_field f v r = (case field_at f of (pos, width) \<Rightarrow>
     or (and r (not (push_bit pos (mask width)))) (push_bit pos (and v (mask width))))"

section \<open>The machine state\<close>

record kstate =
  \<comment> \<open>mm.c\<close>
  freeMemPointer :: addr
  \<comment> \<open>the heap, one map per struct type, and the byte memory\<close>
  mem :: "addr \<Rightarrow> byte"
  procs :: "addr \<Rightarrow> PROCESS option"
  headers :: "addr \<Rightarrow> OBJECT_HEADER option"
  otypes :: "addr \<Rightarrow> OBJECT_TYPE option"
  waitents :: "addr \<Rightarrow> OB_WAIT_QUEUE_ENTRY option"
  messages :: "addr \<Rightarrow> MESSAGE option"
  mnodes :: "addr \<Rightarrow> MESS_PROCESS_NODE option"
  files :: "addr \<Rightarrow> FILE option"
  wnodes :: "addr \<Rightarrow> IO_WAITING_NODE option"
  bnodes :: "addr \<Rightarrow> IO_BUFFER_NODE option"
  foos :: "addr \<Rightarrow> u32 option"
  pinfos :: "addr \<Rightarrow> PROCESS_INFO option"
  \<comment> \<open>ob.c\<close>
  ObTypeObjectListHead :: addr
  \<comment> \<open>scheduler.c\<close>
  KepReadyQueues :: "nat \<Rightarrow> PROCESS_QUEUE"
  KepBlockedList :: addr
  KepTimerList :: addr
  KeCurrentProcess :: addr
  KepTickCount :: u32
  \<comment> \<open>ps.c\<close>
  processType :: addr
  \<comment> \<open>mess.c: the queue the pointer processQueue points to\<close>
  processQueue :: "MESS_PROCESS_QUEUE option"
  \<comment> \<open>io.c\<close>
  fileType :: addr
  serialFile :: addr
  lcdFile :: addr
  fifo :: FIFO
  waitingQueue :: "IO_WAITING_QUEUE option"
  bufferQueue :: "IO_BUFFER_QUEUE option"
  outputPointer :: addr
  doneWriting :: bool
  \<comment> \<open>kdio.c\<close>
  commandBufferPosition :: u32
  \<comment> \<open>the devices: the transmitter-ready bit that each coming read of a line-status register
      will return (serial line, debugger line), the last setting of the timer, the characters sent to the serial line, the
      debugger line and the character display, the registers of the two serial controllers that the
      start-up sets, and what the object manager's test program prints\<close>
  interrupts :: bool
  timerTicks :: u32
  ttyReady :: "nat \<Rightarrow> bool"
  tty2Ready :: "nat \<Rightarrow> bool"
  kdOut :: "byte list"
  serialOut :: "byte list"
  lcdMem :: "nat \<Rightarrow> byte"
  ttyRegs :: NS16550
  tty2Regs :: NS16550
  stdout :: "byte list"

type_synonym 'a kern = "(kstate, 'a) kmonad"

section \<open>Heap access\<close>

text \<open>\<open>deref\<close> reads the struct a pointer points to, \<open>store\<close> writes some of its fields.\<close>

definition deref :: "(kstate \<Rightarrow> addr \<Rightarrow> 'x option) \<Rightarrow> addr \<Rightarrow> 'x kern" where
  "deref heap p = (\<lambda>s. if p = 0 then Some (Halt Fault) else
     (case heap s p of None \<Rightarrow> Some (Halt Fault) | Some x \<Rightarrow> Some (Return x s)))"

definition store ::
  "(kstate \<Rightarrow> addr \<Rightarrow> 'x option) \<Rightarrow> (((addr \<Rightarrow> 'x option) \<Rightarrow> (addr \<Rightarrow> 'x option)) \<Rightarrow> kstate \<Rightarrow> kstate)
   \<Rightarrow> addr \<Rightarrow> ('x \<Rightarrow> 'x) \<Rightarrow> unit kern" where
  "store heap upd p f = (\<lambda>s. if p = 0 then Some (Halt Fault) else
     (case heap s p of None \<Rightarrow> Some (Halt Fault)
      | Some x \<Rightarrow> Some (Return () (upd (\<lambda>_. (heap s)(p \<mapsto> f x)) s))))"

abbreviation getP :: "addr \<Rightarrow> PROCESS kern" where "getP \<equiv> deref procs"
abbreviation setP :: "addr \<Rightarrow> (PROCESS \<Rightarrow> PROCESS) \<Rightarrow> unit kern" where
  "setP \<equiv> store procs procs_update"
abbreviation getH :: "addr \<Rightarrow> OBJECT_HEADER kern" where "getH \<equiv> deref headers"
abbreviation setH :: "addr \<Rightarrow> (OBJECT_HEADER \<Rightarrow> OBJECT_HEADER) \<Rightarrow> unit kern" where
  "setH \<equiv> store headers headers_update"
abbreviation getT :: "addr \<Rightarrow> OBJECT_TYPE kern" where "getT \<equiv> deref otypes"
abbreviation setT :: "addr \<Rightarrow> (OBJECT_TYPE \<Rightarrow> OBJECT_TYPE) \<Rightarrow> unit kern" where
  "setT \<equiv> store otypes otypes_update"
abbreviation getW :: "addr \<Rightarrow> OB_WAIT_QUEUE_ENTRY kern" where "getW \<equiv> deref waitents"
abbreviation getMsg :: "addr \<Rightarrow> MESSAGE kern" where "getMsg \<equiv> deref messages"
abbreviation setMsg :: "addr \<Rightarrow> (MESSAGE \<Rightarrow> MESSAGE) \<Rightarrow> unit kern" where
  "setMsg \<equiv> store messages messages_update"
abbreviation getN :: "addr \<Rightarrow> MESS_PROCESS_NODE kern" where "getN \<equiv> deref mnodes"
abbreviation setN :: "addr \<Rightarrow> (MESS_PROCESS_NODE \<Rightarrow> MESS_PROCESS_NODE) \<Rightarrow> unit kern" where
  "setN \<equiv> store mnodes mnodes_update"

lemma returns_deref [kern]:
  "returns (deref heap p) s Q \<longleftrightarrow> p \<noteq> 0 \<and> (\<exists>x. heap s p = Some x \<and> Q x s)"
  by (auto simp: returns_def deref_def split: option.splits)

lemma returns_store [kern]:
  "returns (store heap upd p f) s Q \<longleftrightarrow>
     p \<noteq> 0 \<and> (\<exists>x. heap s p = Some x \<and> Q () (upd (\<lambda>_. (heap s)(p \<mapsto> f x)) s))"
  by (auto simp: returns_def store_def split: option.splits)

lemma deref_run [run]:
  "p \<noteq> 0 \<Longrightarrow> heap s p = Some x \<Longrightarrow> deref heap p s = Some (Return x s)"
  "heap s p = None \<Longrightarrow> deref heap p s = Some (Halt Fault)"
  "deref heap 0 s = Some (Halt Fault)"
  by (simp_all add: deref_def)

lemma store_run [run]:
  "p \<noteq> 0 \<Longrightarrow> heap s p = Some x \<Longrightarrow>
     store heap upd p f s = Some (Return () (upd (\<lambda>_. (heap s)(p \<mapsto> f x)) s))"
  "heap s p = None \<Longrightarrow> store heap upd p f s = Some (Halt Fault)"
  "store heap upd 0 f s = Some (Halt Fault)"
  by (simp_all add: store_def)

text \<open>The links of the linked structures.\<close>

definition nextPCB :: "kstate \<Rightarrow> addr \<Rightarrow> addr option" where
  "nextPCB s a = map_option NextPCB (procs s a)"

definition linkPCB :: "addr \<Rightarrow> addr \<Rightarrow> kstate \<Rightarrow> kstate" where
  "linkPCB a q s = s\<lparr>procs := (procs s)(a := map_option (\<lambda>p. p\<lparr>NextPCB := q\<rparr>) (procs s a))\<rparr>"

definition nextObject :: "kstate \<Rightarrow> addr \<Rightarrow> addr option" where
  "nextObject s a = map_option NextObjectOfType (headers s a)"

definition linkObject :: "addr \<Rightarrow> addr \<Rightarrow> kstate \<Rightarrow> kstate" where
  "linkObject a q s =
     s\<lparr>headers := (headers s)(a := map_option (\<lambda>h. h\<lparr>NextObjectOfType := q\<rparr>) (headers s a))\<rparr>"

definition nextMessage :: "kstate \<Rightarrow> addr \<Rightarrow> addr option" where
  "nextMessage s a = map_option msgNext (messages s a)"

definition linkMessage :: "addr \<Rightarrow> addr \<Rightarrow> kstate \<Rightarrow> kstate" where
  "linkMessage a q s =
     s\<lparr>messages := (messages s)(a := map_option (\<lambda>m. m\<lparr>msgNext := q\<rparr>) (messages s a))\<rparr>"

interpretation pcb: linked_store nextPCB linkPCB
  by unfold_locales (auto simp: nextPCB_def linkPCB_def)

interpretation object: linked_store nextObject linkObject
  by unfold_locales (auto simp: nextObject_def linkObject_def)

interpretation message: linked_store nextMessage linkMessage
  by unfold_locales (auto simp: nextMessage_def linkMessage_def)

end
