(* ===== verification/Mm.thy ===== *)
theory Mm
  imports KState
begin

text \<open>
  The memory manager, \<^verbatim>\<open>base/mm/mm.c\<close>: a bump allocator.  \<^verbatim>\<open>MmAlloc\<close> hands out the
  current free address and moves it up to the next 4-byte boundary behind the block;
  \<^verbatim>\<open>MmFree\<close> does nothing.  The locale \<open>bump_allocator\<close> is the contract the other modules
  rely on: consecutive blocks lie one behind the other and never overlap, as long as the
  address space lasts.
\<close>

section \<open>The code\<close>

definition ALIGN_MEMORY :: "addr \<Rightarrow> addr" where
  "ALIGN_MEMORY X = and (X + 3) (not 3)"

text \<open>The argument is the linker's address of the end of the kernel image, \<^verbatim>\<open>_end\<close>.\<close>

definition MmInitialize :: "addr \<Rightarrow> unit kern" where
  "MmInitialize HalGetFirstUsableMemoryAddress =
     kmodify (\<lambda>s. s\<lparr>freeMemPointer := HalGetFirstUsableMemoryAddress\<rparr>)"

definition MmGetMemPointer :: "addr kern" where
  "MmGetMemPointer = kget freeMemPointer"

definition MmAlloc :: "u32 \<Rightarrow> addr kern" where
  "MmAlloc sz =
     kbind (kget freeMemPointer) (\<lambda>returnPointer.
     kthen (kmodify (\<lambda>s. s\<lparr>freeMemPointer := ALIGN_MEMORY (freeMemPointer s + sz)\<rparr>))
     (kreturn returnPointer))"

definition MmFree :: "addr \<Rightarrow> unit kern" where
  "MmFree objectHeader = kreturn ()"

lemma returns_MmFree [kern]: "returns (MmFree p) s Q = Q () s"
  by (simp add: MmFree_def kern)

lemma MmFree_run [run]: "MmFree p s = Some (Return () s)"
  by (simp add: MmFree_def run)

lemma returns_MmAlloc [kern]:
  "returns (MmAlloc n) s Q =
     Q (freeMemPointer s) (s\<lparr>freeMemPointer := ALIGN_MEMORY (freeMemPointer s + n)\<rparr>)"
  by (simp add: MmAlloc_def kern)

lemma MmAlloc_run [run]:
  "MmAlloc n s = Some (Return (freeMemPointer s)
     (s\<lparr>freeMemPointer := ALIGN_MEMORY (freeMemPointer s + n)\<rparr>))"
  by (simp add: returns_exact kern)

section \<open>Alignment and disjointness\<close>

lemma unat_and_not_3: "unat (and x (not 3) :: addr) = unat x - unat x mod 4"
proof -
  have m: "(3 :: addr) = mask 2" by (simp add: mask_eq_exp_minus_1)
  have e: "and x (not 3) = push_bit 2 (drop_bit 2 x)"
    unfolding m
    by (rule bit_word_eqI)
       (auto simp: bit_and_iff bit_not_iff bit_push_bit_iff bit_drop_bit_eq bit_mask_iff not_less
          dest!: le_Suc_ex)
  have s: "and x (not 3) = x - take_bit 2 x"
    unfolding e eq_diff_eq by (rule bits_ident)
  moreover have "unat (take_bit 2 x) = unat x mod 4" by (simp add: take_bit_eq_mod unat_mod)
  moreover have "unat x mod 4 \<le> unat x" by simp
  ultimately show ?thesis unfolding s by (simp only: unat_sub word_le_nat_alt)
qed

lemma unat_ALIGN_MEMORY:
  assumes "unat X + 3 < 2 ^ 32"
  shows "unat (ALIGN_MEMORY X) = unat X + 3 - (unat X + 3) mod 4"
proof -
  have "unat (X + 3) = unat X + 3" using assms by (simp add: unat_add_lem [THEN iffD1])
  then show ?thesis by (simp only: ALIGN_MEMORY_def unat_and_not_3)
qed

lemma ALIGN_MEMORY_bounds:
  assumes "unat X + 3 < 2 ^ 32"
  shows "unat X \<le> unat (ALIGN_MEMORY X)" and "unat (ALIGN_MEMORY X) \<le> unat X + 3"
    and "unat (ALIGN_MEMORY X) mod 4 = 0"
proof -
  note e = unat_ALIGN_MEMORY [OF assms]
  have "(unat X + 3) mod 4 \<le> 3" by (simp add: less_Suc_eq_le [symmetric])
  then show "unat X \<le> unat (ALIGN_MEMORY X)" and "unat (ALIGN_MEMORY X) \<le> unat X + 3"
    unfolding e by linarith+
  show "unat (ALIGN_MEMORY X) mod 4 = 0"
    unfolding e by (simp add: minus_mod_eq_mult_div)
qed

text \<open>
  The contract of the allocator.  \<open>room s n\<close> says that a block of \<open>n\<close> bytes fits behind
  the free pointer; the block handed out starts at the old free pointer and the new free
  pointer lies behind it.
\<close>

locale bump_allocator =
  fixes free :: "'s \<Rightarrow> nat"
    and room :: "'s \<Rightarrow> u32 \<Rightarrow> bool"
    and alloc :: "u32 \<Rightarrow> ('s, addr) kmonad"
  assumes alloc_block:
    "room s n \<Longrightarrow> returns (alloc n) s (\<lambda>p t. unat p = free s \<and> free s + unat n \<le> free t)"
begin

lemma alloc_disjoint:
  assumes "room s n" and "alloc n s = Some (Return p t)"
    and "room t m" and "alloc m t = Some (Return q u)"
  shows "{unat p ..< unat p + unat n} \<inter> {unat q ..< unat q + unat m} = {}"
proof -
  have "unat p = free s" "free s + unat n \<le> free t"
    using alloc_block [OF assms(1)] assms(2) by (auto simp: returns_iff)
  moreover have "unat q = free t"
    using alloc_block [OF assms(3)] assms(4) by (auto simp: returns_iff)
  ultimately show ?thesis by auto
qed

end

definition mm_room :: "kstate \<Rightarrow> u32 \<Rightarrow> bool" where
  "mm_room s n \<longleftrightarrow> unat (freeMemPointer s) + unat n + 3 < 2 ^ 32"

lemma unat_add_room: "mm_room s n \<Longrightarrow> unat (freeMemPointer s + n) = unat (freeMemPointer s) + unat n"
  by (simp add: mm_room_def unat_add_lem [THEN iffD1])

lemma MmAlloc_room:
  assumes "mm_room s n"
  shows "unat (freeMemPointer s) + unat n \<le> unat (ALIGN_MEMORY (freeMemPointer s + n))"
    and "unat (ALIGN_MEMORY (freeMemPointer s + n)) \<le> unat (freeMemPointer s) + unat n + 3"
    and "unat (ALIGN_MEMORY (freeMemPointer s + n)) mod 4 = 0"
proof -
  have "unat (freeMemPointer s + n) + 3 < 2 ^ 32"
    using assms unat_add_room [OF assms] by (simp add: mm_room_def)
  from ALIGN_MEMORY_bounds [OF this] unat_add_room [OF assms]
  show "unat (freeMemPointer s) + unat n \<le> unat (ALIGN_MEMORY (freeMemPointer s + n))"
    and "unat (ALIGN_MEMORY (freeMemPointer s + n)) \<le> unat (freeMemPointer s) + unat n + 3"
    and "unat (ALIGN_MEMORY (freeMemPointer s + n)) mod 4 = 0" by simp_all
qed

interpretation mm: bump_allocator "\<lambda>s. unat (freeMemPointer s)" mm_room MmAlloc
  by unfold_locales (simp add: kern MmAlloc_room)

text \<open>A sequence of allocations, and the blocks it hands out.\<close>

fun MmAllocs :: "u32 list \<Rightarrow> addr list kern" where
  "MmAllocs [] = kreturn []"
| "MmAllocs (n # ns) = kbind (MmAlloc n) (\<lambda>p. kbind (MmAllocs ns) (\<lambda>ps. kreturn (p # ps)))"

definition block :: "addr \<Rightarrow> u32 \<Rightarrow> nat set" where
  "block p n = {unat p ..< unat p + unat n}"

fun blocks_disjoint :: "addr list \<Rightarrow> u32 list \<Rightarrow> bool" where
  "blocks_disjoint (p # ps) (n # ns) \<longleftrightarrow>
     (\<forall>(q, m) \<in> set (zip ps ns). block p n \<inter> block q m = {}) \<and> blocks_disjoint ps ns"
| "blocks_disjoint _ _ \<longleftrightarrow> True"

lemma MmAllocs_blocks:
  assumes "unat (freeMemPointer s) + (\<Sum>n\<leftarrow>ns. unat n + 3) < 2 ^ 32"
  shows "returns (MmAllocs ns) s (\<lambda>ps t.
           length ps = length ns \<and> blocks_disjoint ps ns
           \<and> (\<forall>p \<in> set ps. unat (freeMemPointer s) \<le> unat p)
           \<and> (unat (freeMemPointer s) mod 4 = 0 \<longrightarrow> (\<forall>p \<in> set ps. unat p mod 4 = 0)))"
  using assms
proof (induction ns arbitrary: s)
  case Nil
  show ?case by (simp only: MmAllocs.simps returns_kreturn) simp
next
  case (Cons n ns)
  let ?t = "s\<lparr>freeMemPointer := ALIGN_MEMORY (freeMemPointer s + n)\<rparr>"
  have room: "mm_room s n" using Cons.prems by (simp add: mm_room_def)
  note b = MmAlloc_room [OF room]
  have "unat (freeMemPointer ?t) + (\<Sum>n\<leftarrow>ns. unat n + 3) < 2 ^ 32"
    using Cons.prems b(2) by simp
  from Cons.IH [OF this] show ?case
    by (auto simp: kern block_def b dest!: set_zip_leftD elim!: returns_mono)
       (use b(1) in \<open>fastforce dest: set_zip_leftD\<close>)+
qed

end
