(* ===== verification/Rtl.thy ===== *)
theory Rtl
  imports KState "HOL-Library.Signed_Division"
begin

text \<open>
  The runtime library, \<^verbatim>\<open>base/rtl/string.c\<close> and \<^verbatim>\<open>base/rtl/memory.c\<close>.  Its functions
  work on the byte memory alone; \<open>on_mem\<close> lifts them to the machine state.  A \<^verbatim>\<open>PCHAR *\<close>
  and \<^verbatim>\<open>PULONG\<close> pair that a printing function advances is passed and returned as a
  cursor (next address, bytes left).  The stack words behind the format of
  \<^verbatim>\<open>RtlFormatString\<close> are a function from the argument's index.
\<close>

section \<open>Byte access\<close>

type_synonym memory = "addr \<Rightarrow> byte"

definition rd :: "addr \<Rightarrow> (memory, byte) kmonad" where
  "rd a = (if a = 0 then khalt Fault else kget (\<lambda>M. M a))"

definition wr :: "addr \<Rightarrow> byte \<Rightarrow> (memory, unit) kmonad" where
  "wr a b = (if a = 0 then khalt Fault else kmodify (\<lambda>M. M(a := b)))"

definition on_mem :: "(memory, 'a) kmonad \<Rightarrow> 'a kern" where
  "on_mem m = (\<lambda>s. case m (mem s) of
       None \<Rightarrow> None
     | Some (Halt h) \<Rightarrow> Some (Halt h)
     | Some (Return a M) \<Rightarrow> Some (Return a (s\<lparr>mem := M\<rparr>)))"

definition store_u32 :: "addr \<Rightarrow> u32 \<Rightarrow> (memory, unit) kmonad" where
  "store_u32 a w =
     kthen (wr a (ucast w)) (kthen (wr (a + 1) (ucast (drop_bit 8 w)))
     (kthen (wr (a + 2) (ucast (drop_bit 16 w))) (wr (a + 3) (ucast (drop_bit 24 w)))))"

definition chr :: "char \<Rightarrow> byte" where
  "chr c = of_char c"

section \<open>Strings\<close>

definition copy_string_step :: "addr \<times> addr \<Rightarrow> (memory, addr \<times> addr + unit) kmonad" where
  "copy_string_step = (\<lambda>(cp, src).
     kbind (rd src) (\<lambda>c.
     kthen (wr cp c)
     (if c \<noteq> 0 then kreturn (Inl (cp + 1, src + 1)) else kreturn (Inr ()))))"

definition RtlCopyString :: "addr \<Rightarrow> addr \<Rightarrow> (memory, addr) kmonad" where
  "RtlCopyString dest src = kthen (kloop copy_string_step (dest, src)) (kreturn dest)"

definition compare_step :: "addr \<times> addr \<Rightarrow> (memory, addr \<times> addr + int) kmonad" where
  "compare_step = (\<lambda>(src, dest).
     kbind (rd dest) (\<lambda>d.
     if d = 0 then kreturn (Inr 0) else
     kbind (rd src) (\<lambda>c.
     if uint c - uint d \<noteq> 0 then kreturn (Inr (uint c - uint d))
     else kreturn (Inl (src + 1, dest + 1)))))"

definition RtlCompareStrings :: "addr \<Rightarrow> addr \<Rightarrow> (memory, int) kmonad" where
  "RtlCompareStrings src dest =
     kbind (kloop compare_step (src, dest)) (\<lambda>result.
     kreturn (if result < 0 then - 1 else if result > 0 then 1 else result))"

definition length_step :: "addr \<Rightarrow> (memory, addr + addr) kmonad" where
  "length_step e = kbind (rd e) (\<lambda>c. if c \<noteq> 0 then kreturn (Inl (e + 1)) else kreturn (Inr (e + 1)))"

definition RtlStringLength :: "addr \<Rightarrow> (memory, u32) kmonad" where
  "RtlStringLength str = kbind (kloop length_step str) (\<lambda>e. kreturn (e - str - 1))"

section \<open>Printing\<close>

text \<open>The decimal and hexadecimal text of a number.\<close>

fun decimal :: "nat \<Rightarrow> byte list" where
  "decimal n = (if n < 10 then [] else decimal (n div 10)) @ [of_nat (n mod 10 + 48)]"

fun hexadecimal :: "nat \<Rightarrow> byte list" where
  "hexadecimal n = (if n < 16 then [] else hexadecimal (n div 16))
     @ [of_nat (if n mod 16 < 10 then n mod 16 + 48 else n mod 16 + 55)]"

declare decimal.simps [simp del] hexadecimal.simps [simp del]

definition signed_decimal :: "int \<Rightarrow> byte list" where
  "signed_decimal n = (if n < 0 then [45] else []) @ decimal (nat \<bar>n\<bar>)"

type_synonym cursor = "addr \<times> u32"

definition snprintchar :: "cursor \<Rightarrow> byte \<Rightarrow> (memory, u32 \<times> cursor) kmonad" where
  "snprintchar cu c = (case cu of (str, sz) \<Rightarrow>
     if sz > 0 then kthen (wr str c) (kreturn (1, (str + 1, sz - 1)))
     else kreturn (1, (str, sz)))"

definition snprintstring_step ::
  "addr \<times> u32 \<times> cursor \<Rightarrow> (memory, (addr \<times> u32 \<times> cursor) + (u32 \<times> cursor)) kmonad" where
  "snprintstring_step = (\<lambda>(p, len, cu).
     kbind (rd p) (\<lambda>c.
     if c = 0 then kreturn (Inr (len, cu)) else
     kbind (snprintchar cu c) (\<lambda>(l, cu). kreturn (Inl (p + 1, len + l, cu)))))"

definition snprintstring :: "cursor \<Rightarrow> addr \<Rightarrow> (memory, u32 \<times> cursor) kmonad" where
  "snprintstring cu p = kloop snprintstring_step (p, 0, cu)"

text \<open>
  \<^verbatim>\<open>n = -n\<close> on a 32-bit \<^verbatim>\<open>LONG\<close>: the most negative value is its own negation.
\<close>

definition neg32 :: "int \<Rightarrow> int" where
  "neg32 n = (if n = - (2 ^ 31) then n else - n)"

lemma sdiv_10_smaller: "n sdiv 10 \<noteq> 0 \<Longrightarrow> \<bar>n sdiv 10\<bar> < \<bar>n :: int\<bar>"
  by (auto simp: signed_divide_int_def sgn_if abs_mult split: if_splits)

function snprintlong :: "cursor \<Rightarrow> int \<Rightarrow> (memory, u32 \<times> cursor) kmonad" where
  "snprintlong cu n =
     kbind (if n < 0 then snprintchar cu (chr CHR ''-'') else kreturn (0, cu)) (\<lambda>(l1, cu).
     let m = (if n < 0 then neg32 n else n) in
     kbind (if m sdiv 10 \<noteq> 0 then snprintlong cu (m sdiv 10) else kreturn (0, cu)) (\<lambda>(l2, cu).
     kbind (snprintchar cu (of_int (m smod 10 + 48))) (\<lambda>(l3, cu).
     kreturn (l1 + l2 + l3, cu))))"
  by pat_completeness auto

termination snprintlong
proof (relation "measure (\<lambda>(cu, n). nat \<bar>n\<bar>)", simp)
  fix n m :: int
  assume m: "m = (if n < 0 then neg32 n else n)" and d: "m sdiv 10 \<noteq> 0"
  have "\<bar>m\<bar> = \<bar>n\<bar>" using m by (simp add: neg32_def)
  then show "((c :: cursor, m sdiv 10), (cu :: cursor, n)) \<in> measure (\<lambda>(cu, n). nat \<bar>n\<bar>)" for c cu
    using sdiv_10_smaller [OF d] by simp
qed

function snprintulong :: "cursor \<Rightarrow> u32 \<Rightarrow> (memory, u32 \<times> cursor) kmonad" where
  "snprintulong cu n =
     kbind (if n div 10 \<noteq> 0 then snprintulong cu (n div 10) else kreturn (0, cu)) (\<lambda>(l1, cu).
     kbind (snprintchar cu (ucast (n mod 10 + 48))) (\<lambda>(l2, cu).
     kreturn (l1 + l2, cu)))"
  by pat_completeness auto

termination snprintulong
  by (relation "measure (\<lambda>(cu, n). unat n)")
     (auto simp: unat_div word_neq_0_conv [symmetric] unat_eq_zero [symmetric] dest: gr0I)

lemma unat_drop_bit_4: "unat (drop_bit 4 n) = unat n div 16" for n :: u32
  using unat_div [of n 16] by (simp add: drop_bit_eq_div)

lemma unat_drop_bit_4_less: "drop_bit 4 n \<noteq> 0 \<Longrightarrow> unat (drop_bit 4 n) < unat n" for n :: u32
  unfolding unat_eq_zero [symmetric] unat_drop_bit_4 by auto

function snprinthex :: "cursor \<Rightarrow> u32 \<Rightarrow> (memory, u32 \<times> cursor) kmonad" where
  "snprinthex cu n =
     kbind (if drop_bit 4 n \<noteq> 0 then snprinthex cu (drop_bit 4 n) else kreturn (0, cu)) (\<lambda>(l1, cu).
     let d = and n 15 in
     kbind (snprintchar cu (if d < 10 then ucast d + 48 else ucast d + 65 - 10)) (\<lambda>(l2, cu).
     kreturn (l1 + l2, cu)))"
  by pat_completeness auto

termination snprinthex
  by (relation "measure (\<lambda>(cu, n). unat n)") (simp_all add: unat_drop_bit_4_less)

declare snprintlong.simps [simp del] snprintulong.simps [simp del] snprinthex.simps [simp del]

definition format_step ::
  "(nat \<Rightarrow> u32) \<Rightarrow> addr \<times> nat \<times> u32 \<times> cursor
     \<Rightarrow> (memory, (addr \<times> nat \<times> u32 \<times> cursor) + (u32 \<times> cursor)) kmonad" where
  "format_step args = (\<lambda>(format, argument, len, cu).
     kbind (rd format) (\<lambda>c.
     if c = 0 then kreturn (Inr (len, cu))
     else if c = chr CHR ''%'' then
       kbind (rd (format + 1)) (\<lambda>f.
       let arg = args argument in
       kbind
         (if f = chr CHR ''d'' then
            kbind (snprintlong cu (sint arg)) (\<lambda>r. kreturn (r, argument + 1))
          else if f = chr CHR ''c'' then
            kbind (snprintchar cu (ucast arg)) (\<lambda>r. kreturn (r, argument + 1))
          else if f = chr CHR ''x'' then
            kbind (snprinthex cu arg) (\<lambda>r. kreturn (r, argument + 1))
          else if f = chr CHR ''u'' then
            kbind (snprintulong cu arg) (\<lambda>r. kreturn (r, argument + 1))
          else if f = chr CHR ''s'' then
            kbind (snprintstring cu arg) (\<lambda>r. kreturn (r, argument + 1))
          else
            kbind (snprintchar cu (chr CHR ''%'')) (\<lambda>(l1, cu).
            kbind (snprintchar cu f) (\<lambda>(l2, cu). kreturn ((l1 + l2, cu), argument))))
         (\<lambda>((l, cu), argument). kreturn (Inl (format + 2, argument, len + l, cu))))
     else
       kbind (snprintchar cu c) (\<lambda>(l, cu). kreturn (Inl (format + 1, argument, len + l, cu)))))"

definition RtlFormatString :: "addr \<Rightarrow> u32 \<Rightarrow> addr \<Rightarrow> (nat \<Rightarrow> u32) \<Rightarrow> (memory, u32) kmonad" where
  "RtlFormatString str sz format args =
     kbind (kloop (format_step args) (format, 0, 0, (str, if sz > 0 then sz - 1 else 0)))
     (\<lambda>(len, cp, availablesize).
     kthen (wr cp 0) (kreturn len))"

section \<open>Reading numbers\<close>

definition skip_space_step :: "addr \<Rightarrow> (memory, addr + addr) kmonad" where
  "skip_space_step str =
     kbind (rd str) (\<lambda>c. if c = chr CHR '' '' then kreturn (Inl (str + 1)) else kreturn (Inr str))"

text \<open>\<^verbatim>\<open>c - '0'\<close> with a \<^verbatim>\<open>CHAR\<close> that is signed, as on the target.\<close>

definition digit_step :: "addr \<times> u32 \<Rightarrow> (memory, addr \<times> u32 + u32) kmonad" where
  "digit_step = (\<lambda>(str, result).
     kbind (rd str) (\<lambda>c.
     if c = 0 then kreturn (Inr result)
     else kreturn (Inl (str + 1, result * 10 + (scast c - 48)))))"

definition RtlAtoUL :: "addr \<Rightarrow> (memory, u32) kmonad" where
  "RtlAtoUL str = kbind (kloop skip_space_step str) (\<lambda>str. kloop digit_step (str, 0))"

definition Rtlappisdigit :: "byte \<Rightarrow> bool" where
  "Rtlappisdigit c \<longleftrightarrow> \<not> (sint c < 48 \<or> sint c > 57)"

section \<open>Memory\<close>

definition copy_memory_step :: "addr \<times> addr \<times> u32 \<Rightarrow> (memory, addr \<times> addr \<times> u32 + unit) kmonad" where
  "copy_memory_step = (\<lambda>(d, s, count).
     if count = 0 then kreturn (Inr ()) else
     kbind (rd s) (\<lambda>c. kthen (wr d c) (kreturn (Inl (d + 1, s + 1, count - 1)))))"

definition RtlCopyMemory :: "addr \<Rightarrow> addr \<Rightarrow> u32 \<Rightarrow> (memory, addr) kmonad" where
  "RtlCopyMemory dest src count = kthen (kloop copy_memory_step (dest, src, count)) (kreturn dest)"

definition fill_memory_step :: "byte \<Rightarrow> addr \<times> u32 \<Rightarrow> (memory, addr \<times> u32 + unit) kmonad" where
  "fill_memory_step val = (\<lambda>(d, count).
     if count = 0 then kreturn (Inr ()) else kthen (wr d val) (kreturn (Inl (d + 1, count - 1))))"

definition RtlFillMemory :: "addr \<Rightarrow> byte \<Rightarrow> u32 \<Rightarrow> (memory, addr) kmonad" where
  "RtlFillMemory dest val count = kthen (kloop (fill_memory_step val) (dest, count)) (kreturn dest)"

end
