(* ===== verification/Ob.thy ===== *)
theory Ob
  imports Mm Rtl
begin

text \<open>
  The object manager without its wait operations, \<^verbatim>\<open>base/ob/ob.c\<close>: object creation, the
  list of objects of a type, reference counts and handle tables.  A function with an
  output pointer returns the status together with what it stores there (the assertions
  that the output pointer itself is not NULL have no counterpart).
\<close>

section \<open>The code\<close>

definition OBJECT_MAGIC :: u32 where "OBJECT_MAGIC = 0x0BEC0BEC"

text \<open>\<^verbatim>\<open>FIELD_OFFSET(OBJECT_HEADER, Body)\<close>: eight words precede the body.\<close>

definition BODY_OFFSET :: u32 where "BODY_OFFSET = 32"

definition OBJECT_BODY_TO_HEADER :: "addr \<Rightarrow> addr" where
  "OBJECT_BODY_TO_HEADER pBody = pBody - BODY_OFFSET"

definition ASSERT_OBJECT :: "nat \<Rightarrow> OBJECT_HEADER \<Rightarrow> unit kern" where
  "ASSERT_OBJECT line h = kassert ''ob.c'' line (Magic h = OBJECT_MAGIC)"

text \<open>
  A word of untyped memory: the value of a field that the code leaves uninitialised.
\<close>

definition raw_u32 :: "kstate \<Rightarrow> addr \<Rightarrow> u32" where
  "raw_u32 s a = ucast (mem s a) + 0x100 * ucast (mem s (a + 1))
     + 0x10000 * ucast (mem s (a + 2)) + 0x1000000 * ucast (mem s (a + 3))"

definition ObCreateObject :: "addr \<Rightarrow> u32 \<Rightarrow> u32 \<Rightarrow> (u32 \<times> addr) kern" where
  "ObCreateObject ObjectType ObjectAttributes ObjectBodySize =
     kbind (MmAlloc (BODY_OFFSET + ObjectBodySize)) (\<lambda>objectHeader.
     if objectHeader = 0 then kreturn (STATUS_INSUFFICIENT_RESOURCES, 0) else
     kthen (kmodify (\<lambda>s. s\<lparr>headers := (headers s)(objectHeader \<mapsto>
              \<lparr>Magic = OBJECT_MAGIC, HandleCount = 0, PointerCount = 1,
               ObjAttributes = ObjectAttributes, SignalState = 0, WaitQueue = 0,
               ObjType = ObjectType, NextObjectOfType = raw_u32 s (objectHeader + 28)\<rparr>)\<rparr>))
     (kthen (kwhen (ObjectType \<noteq> 0)
        (kbind (getT ObjectType) (\<lambda>t.
         kthen (setH objectHeader (\<lambda>h. h\<lparr>NextObjectOfType := FirstObjectOfType t\<rparr>))
         (setT ObjectType (\<lambda>t. t\<lparr>FirstObjectOfType := objectHeader\<rparr>)))))
     (kreturn (STATUS_SUCCESS, objectHeader + BODY_OFFSET))))"

text \<open>
  A type object is an object without a type; its body, an \<^verbatim>\<open>OBJECT_TYPE\<close>, has all five
  fields assigned.
\<close>

definition ObCreateObjectType ::
  "u32 \<Rightarrow> OBJECT_TYPE_INITIALIZER \<Rightarrow> (u32 \<times> addr) kern" where
  "ObCreateObjectType NewTypeName ObjectTypeInitializer =
     kthen (kassert ''ob.c'' 97 (NewTypeName \<noteq> 0))
     (kbind (ObCreateObject 0 OBJ_PERMANENT 20) (\<lambda>(status, objectBody).
      if status \<noteq> 0 then kreturn (status, 0) else
      kthen (kmodify (\<lambda>s. s\<lparr>otypes := (otypes s)(objectBody \<mapsto>
               \<lparr>TypeName = NewTypeName, FirstObjectOfType = 0,
                NextTypeObject = ObTypeObjectListHead s,
                TypeDump = DumpMethod ObjectTypeInitializer,
                TypeDelete = DeleteMethod ObjectTypeInitializer\<rparr>),
               ObTypeObjectListHead := objectBody\<rparr>))
      (kreturn (STATUS_SUCCESS, objectBody))))"

definition unlink_object_step :: "addr \<Rightarrow> addr \<Rightarrow> (addr + bool) kern" where
  "unlink_object_step objectHeader currentObject =
     (if currentObject = 0 then kreturn (Inr False) else
      kbind (getH currentObject) (\<lambda>c.
      if NextObjectOfType c = objectHeader then
        kbind (getH objectHeader) (\<lambda>h.
        kthen (setH currentObject (\<lambda>c. c\<lparr>NextObjectOfType := NextObjectOfType h\<rparr>))
        (kreturn (Inr True)))
      else kreturn (Inl (NextObjectOfType c))))"

definition ObpUnlinkObjectFromTypeList :: "addr \<Rightarrow> unit kern" where
  "ObpUnlinkObjectFromTypeList objectHeader =
     kbind (getH objectHeader) (\<lambda>h.
     kthen (ASSERT_OBJECT 143 h)
     (kthen (kassert ''ob.c'' 148 (ObjType h \<noteq> 0))
     (kbind (getT (ObjType h)) (\<lambda>t.
      if FirstObjectOfType t = objectHeader then
        setT (ObjType h) (\<lambda>t. t\<lparr>FirstObjectOfType := NextObjectOfType h\<rparr>)
      else
        kbind (kloop (unlink_object_step objectHeader) (FirstObjectOfType t)) (\<lambda>found.
        if found then kreturn ()
        else khalt (BugCheck ''ObpUnlinkObjectFromTypeList: object was not in the list'')))))) "

text \<open>The only delete method of the source is the one of the test program.\<close>

definition call_delete :: "DELETE_METHOD \<Rightarrow> addr \<Rightarrow> unit kern" where
  "call_delete m Object = (case m of
       NoDeleteMethod \<Rightarrow> khalt Fault
     | DeleteFooMethod \<Rightarrow>
         kbind (deref foos Object) (\<lambda>v.
         kmodify (\<lambda>s. s\<lparr>stdout := stdout s @ map of_char ''FOO object with value ''
           @ signed_decimal (sint v) @ map of_char '' getting deleted'' @ [10]\<rparr>)))"

definition ObDereferenceObject :: "addr \<Rightarrow> unit kern" where
  "ObDereferenceObject Object =
     kthen (kassert ''ob.c'' 199 (Object \<noteq> 0))
     (let objectHeader = OBJECT_BODY_TO_HEADER Object in
      kbind (getH objectHeader) (\<lambda>h.
      kthen (ASSERT_OBJECT 206 h)
      (kthen (kassert ''ob.c'' 212 (PointerCount h > 0))
      (kthen (kassert ''ob.c'' 213 (HandleCount h < PointerCount h))
      (kthen (setH objectHeader (\<lambda>h. h\<lparr>PointerCount := PointerCount h - 1\<rparr>))
      (kbind (getH objectHeader) (\<lambda>h.
       kwhen (PointerCount h = 0 \<and> and (ObjAttributes h) OBJ_PERMANENT = 0)
         (kthen (ObpUnlinkObjectFromTypeList objectHeader)
         (kthen (kwhen (ObjType h \<noteq> 0)
            (kbind (getT (ObjType h)) (\<lambda>t.
             kwhen (TypeDelete t \<noteq> NoDeleteMethod) (call_delete (TypeDelete t) Object))))
         (MmFree objectHeader))))))))))"

definition init_handle :: "addr \<Rightarrow> addr \<Rightarrow> nat \<Rightarrow> unit kern" where
  "init_handle ParentProcess NewProcess i =
     kbind (if ParentProcess = 0 then kreturn None else
            kbind (getP ParentProcess) (\<lambda>parent.
            let e = HandleTable parent i in
            kreturn (if HtObject e \<noteq> 0 \<and> and (HtAttributes e) OBJ_INHERIT \<noteq> 0
                     then Some e else None))) (\<lambda>inherited.
     case inherited of
       Some e \<Rightarrow>
         kthen (setP NewProcess (\<lambda>p. p\<lparr>HandleTable := (HandleTable p)(i := e)\<rparr>))
         (setH (OBJECT_BODY_TO_HEADER (HtObject e))
            (\<lambda>h. h\<lparr>HandleCount := HandleCount h + 1, PointerCount := PointerCount h + 1\<rparr>))
     | None \<Rightarrow>
         setP NewProcess (\<lambda>p. p\<lparr>HandleTable :=
           (HandleTable p)(i := (HandleTable p i)\<lparr>HtObject := 0\<rparr>)\<rparr>))"

definition ObInitProcess :: "addr \<Rightarrow> addr \<Rightarrow> u32 kern" where
  "ObInitProcess ParentProcess NewProcess =
     kthen (kassert ''ob.c'' 262 (NewProcess \<noteq> 0))
     (kthen (kfor [0 ..< MAX_HANDLE_COUNT] (init_handle ParentProcess NewProcess))
     (kreturn STATUS_SUCCESS))"

definition ObCloseHandle :: "u32 \<Rightarrow> u32 kern" where
  "ObCloseHandle Handle =
     (if unat Handle \<ge> MAX_HANDLE_COUNT then kreturn STATUS_INVALID_HANDLE else
      kbind (kget KeCurrentProcess) (\<lambda>cur.
      kbind (getP cur) (\<lambda>p.
      let Object = HtObject (HandleTable p (unat Handle)) in
      if Object \<noteq> 0 then
        kbind (getH (OBJECT_BODY_TO_HEADER Object)) (\<lambda>h.
        kthen (ASSERT_OBJECT 466 h)
        (kthen (setH (OBJECT_BODY_TO_HEADER Object) (\<lambda>h. h\<lparr>HandleCount := HandleCount h - 1\<rparr>))
        (kthen (ObDereferenceObject Object)
        (kthen (setP cur (\<lambda>p. p\<lparr>HandleTable :=
                 (HandleTable p)(unat Handle := (HandleTable p (unat Handle))\<lparr>HtObject := 0\<rparr>)\<rparr>))
        (kreturn STATUS_SUCCESS)))))
      else kreturn STATUS_INVALID_HANDLE)))"

definition ObKillProcess :: "addr \<Rightarrow> unit kern" where
  "ObKillProcess Process =
     kthen (kassert ''ob.c'' 299 (Process \<noteq> 0))
     (kfor [0 ..< MAX_HANDLE_COUNT] (\<lambda>i.
        kbind (getP Process) (\<lambda>p.
        kwhen (HtObject (HandleTable p i) \<noteq> 0)
          (kthen (ObCloseHandle (of_nat i)) (kreturn ())))))"

definition open_handle_step :: "addr \<Rightarrow> u32 \<Rightarrow> nat \<Rightarrow> (nat + u32 \<times> u32) kern" where
  "open_handle_step Object HandleAttributes i =
     (if i \<ge> MAX_HANDLE_COUNT then kreturn (Inr (STATUS_HANDLE_LIMIT_REACHED, 0)) else
      kbind (kget KeCurrentProcess) (\<lambda>cur.
      kbind (getP cur) (\<lambda>p.
      if HtObject (HandleTable p i) = 0 then
        kthen (setP cur (\<lambda>p. p\<lparr>HandleTable := (HandleTable p)(i :=
                 \<lparr>HtAttributes = HandleAttributes, HtObject = Object\<rparr>)\<rparr>))
        (kthen (setH (OBJECT_BODY_TO_HEADER Object)
           (\<lambda>h. h\<lparr>HandleCount := HandleCount h + 1, PointerCount := PointerCount h + 1\<rparr>))
        (kreturn (Inr (STATUS_SUCCESS, of_nat i))))
      else kreturn (Inl (i + 1)))))"

definition ObOpenObjectByPointer :: "addr \<Rightarrow> u32 \<Rightarrow> addr \<Rightarrow> (u32 \<times> u32) kern" where
  "ObOpenObjectByPointer Object HandleAttributes ObjectType =
     kthen (kassert ''ob.c'' 327 (Object \<noteq> 0))
     (kbind (kget KeCurrentProcess) (\<lambda>cur.
      kthen (kassert ''ob.c'' 329 (cur \<noteq> 0))
      (kbind (getH (OBJECT_BODY_TO_HEADER Object)) (\<lambda>h.
       kthen (ASSERT_OBJECT 331 h)
       (if ObjectType \<noteq> 0 \<and> ObjType h \<noteq> ObjectType
        then kreturn (STATUS_OBJECT_TYPE_MISMATCH, 0)
        else kloop (open_handle_step Object HandleAttributes) 0)))))"

definition ObReferenceObject :: "addr \<Rightarrow> addr \<Rightarrow> u32 kern" where
  "ObReferenceObject Object ObjectType =
     kthen (kassert ''ob.c'' 384 (Object \<noteq> 0))
     (kbind (getH (OBJECT_BODY_TO_HEADER Object)) (\<lambda>h.
      kthen (ASSERT_OBJECT 388 h)
      (if ObjectType \<noteq> 0 \<and> ObjType h \<noteq> ObjectType
       then kreturn STATUS_OBJECT_TYPE_MISMATCH
       else
         kthen (setH (OBJECT_BODY_TO_HEADER Object) (\<lambda>h. h\<lparr>PointerCount := PointerCount h + 1\<rparr>))
         (kreturn STATUS_SUCCESS))))"

definition ObReferenceObjectByHandle :: "u32 \<Rightarrow> addr \<Rightarrow> (u32 \<times> addr) kern" where
  "ObReferenceObjectByHandle Handle ObjectType =
     (if unat Handle \<ge> MAX_HANDLE_COUNT then kreturn (STATUS_INVALID_HANDLE, 0) else
      kbind (kget KeCurrentProcess) (\<lambda>cur.
      kbind (getP cur) (\<lambda>p.
      let Object = HtObject (HandleTable p (unat Handle)) in
      if Object \<noteq> 0 then
        kbind (getH (OBJECT_BODY_TO_HEADER Object)) (\<lambda>h.
        kthen (ASSERT_OBJECT 429 h)
        (if ObjectType \<noteq> 0 \<and> ObjType h \<noteq> ObjectType
         then kreturn (STATUS_OBJECT_TYPE_MISMATCH, 0)
         else
           kthen (setH (OBJECT_BODY_TO_HEADER Object) (\<lambda>h. h\<lparr>PointerCount := PointerCount h + 1\<rparr>))
           (kreturn (STATUS_SUCCESS, Object))))
      else kreturn (STATUS_INVALID_HANDLE, 0))))"

definition ObGetFirstObjectOfType :: "addr \<Rightarrow> addr kern" where
  "ObGetFirstObjectOfType ObjectType =
     kthen (kassert ''ob.c'' 486 (ObjectType \<noteq> 0))
     (kbind (getH (OBJECT_BODY_TO_HEADER ObjectType)) (\<lambda>h.
      kthen (ASSERT_OBJECT 488 h)
      (kbind (getT ObjectType) (\<lambda>t.
       kreturn (if FirstObjectOfType t \<noteq> 0 then FirstObjectOfType t + BODY_OFFSET else 0)))))"

definition ObGetNextObjectOfType :: "addr \<Rightarrow> addr kern" where
  "ObGetNextObjectOfType Object =
     kthen (kassert ''ob.c'' 509 (Object \<noteq> 0))
     (kbind (getH (OBJECT_BODY_TO_HEADER Object)) (\<lambda>h.
      kthen (ASSERT_OBJECT 510 h)
      (kreturn (if NextObjectOfType h \<noteq> 0 then NextObjectOfType h + BODY_OFFSET else 0))))"

end
