(* ===== verification/MessQueue.thy ===== *)
theory MessQueue
  imports Mm
begin

text \<open>
  The queue of processes waiting for a message, from \<^verbatim>\<open>base/mess/mess.c\<close>.  It comes
  before the scheduler, because the scheduler calls \<^verbatim>\<open>ResumeMethod\<close> through the function
  pointer of a suspended process.

  The removal from the queue is careless (removing the last node leaves its predecessor
  linked to it, and a removed node can serve as predecessor of the next one), so the
  chain of nodes and the queue's end can drift apart.  What does hold, and is enough for
  every walk along the nodes to end, is \<open>mq_inv\<close>: each link leads to a node allocated
  later, at a higher address.
\<close>

section \<open>The code\<close>

text \<open>The queue the global pointer refers to; NULL before \<^verbatim>\<open>MessInitialize\<close>.\<close>

definition getQ :: "MESS_PROCESS_QUEUE kern" where
  "getQ = kbind (kget processQueue) (\<lambda>q. case q of None \<Rightarrow> khalt Fault | Some q \<Rightarrow> kreturn q)"

definition setQ :: "(MESS_PROCESS_QUEUE \<Rightarrow> MESS_PROCESS_QUEUE) \<Rightarrow> unit kern" where
  "setQ f = kbind getQ (\<lambda>q. kmodify (\<lambda>s. s\<lparr>processQueue := Some (f q)\<rparr>))"

definition MessInitialize :: "u32 kern" where
  "MessInitialize =
     kbind (MmAlloc 8) (\<lambda>q.
     if q = 0 then kthen (kmodify (\<lambda>s. s\<lparr>processQueue := None\<rparr>)) (kreturn STATUS_NO_MEMORY)
     else kthen (kmodify (\<lambda>s. s\<lparr>processQueue := Some \<lparr>mqFirst = 0, mqLast = 0\<rparr>\<rparr>))
          (kreturn STATUS_SUCCESS))"

definition AddProcessToQueue :: "u32 \<Rightarrow> u32 kern" where
  "AddProcessToQueue type =
     kbind (MmAlloc 16) (\<lambda>newNode.
     if newNode = 0 then kreturn STATUS_NO_MEMORY else
     kbind (kget KeCurrentProcess) (\<lambda>cur.
     kbind (getP cur) (\<lambda>p.
     kthen (kmodify (\<lambda>s. s\<lparr>mnodes := (mnodes s)(newNode \<mapsto>
              \<lparr>mnProcess = cur, mnPid = PID p, mnType = type, mnNext = 0\<rparr>)\<rparr>))
     (kbind getQ (\<lambda>q.
      kthen (if mqFirst q = 0 \<and> mqLast q = 0
             then setQ (\<lambda>q. q\<lparr>mqFirst := newNode, mqLast := newNode\<rparr>)
             else kthen (setN (mqLast q) (\<lambda>n. n\<lparr>mnNext := newNode\<rparr>))
                  (setQ (\<lambda>q. q\<lparr>mqLast := newNode\<rparr>)))
      (kreturn STATUS_SUCCESS))))))"

definition RemoveProcessFromQueue :: "addr \<Rightarrow> addr \<Rightarrow> u32 kern" where
  "RemoveProcessFromQueue iterator iteratorPrev =
     kbind getQ (\<lambda>q.
     kthen
       (if mqFirst q = iterator \<and> mqLast q = iterator then
          kthen (setQ (\<lambda>q. q\<lparr>mqFirst := 0, mqLast := 0\<rparr>)) (MmFree iterator)
        else if mqFirst q = iterator then
          kbind (getN (mqFirst q)) (\<lambda>n.
          kthen (setQ (\<lambda>q. q\<lparr>mqFirst := mnNext n\<rparr>))
          (kthen (kwhen (mqLast q = iterator) (setQ (\<lambda>q. q\<lparr>mqLast := 0\<rparr>)))
          (MmFree iterator)))
        else if mqLast q = iterator then
          kthen (setQ (\<lambda>q. q\<lparr>mqLast := iteratorPrev\<rparr>)) (MmFree iterator)
        else
          kbind (getN iterator) (\<lambda>n.
          kthen (setN iteratorPrev (\<lambda>m. m\<lparr>mnNext := mnNext n\<rparr>)) (MmFree iterator)))
     (kreturn STATUS_SUCCESS))"

definition resume_step :: "addr \<Rightarrow> addr \<times> addr \<Rightarrow> ((addr \<times> addr) + unit) kern" where
  "resume_step process = (\<lambda>(iterator, iteratorPrev).
     if iterator = 0 then kreturn (Inr ()) else
     kbind (getN iterator) (\<lambda>n.
     kbind (getP process) (\<lambda>p.
     kthen (kwhen (mnPid n = PID p)
              (kthen (RemoveProcessFromQueue iterator iteratorPrev) (kreturn ())))
     (kbind (getN iterator) (\<lambda>n. kreturn (Inl (mnNext n, iterator)))))))"

definition ResumeMethod_mess :: "addr \<Rightarrow> unit kern" where
  "ResumeMethod_mess process =
     kbind getQ (\<lambda>q. kloop (resume_step process) (mqFirst q, mqFirst q))"

text \<open>A call through the function pointer of a PCB.\<close>

definition call_resume_method :: "RESUME_METHOD \<Rightarrow> addr \<Rightarrow> unit kern" where
  "call_resume_method m process = (case m of
       NoResumeMethod \<Rightarrow> khalt Fault
     | MessResumeMethod \<Rightarrow> ResumeMethod_mess process)"

section \<open>The walks along the queue end\<close>

lemma returns_getQ [kern]:
  "returns getQ s Q \<longleftrightarrow> (\<exists>q. processQueue s = Some q \<and> Q q s)"
  by (auto simp: getQ_def kern split: option.split)

lemma returns_setQ [kern]:
  "returns (setQ f) s Q \<longleftrightarrow>
     (\<exists>q. processQueue s = Some q \<and> Q () (s\<lparr>processQueue := Some (f q)\<rparr>))"
  by (auto simp: setQ_def kern)

definition nodes_ordered :: "addr \<Rightarrow> (addr \<Rightarrow> MESS_PROCESS_NODE option) \<Rightarrow> bool" where
  "nodes_ordered lim N \<longleftrightarrow> (\<forall>a n. N a = Some n \<longrightarrow> a \<noteq> 0 \<and> a < lim
     \<and> (mnNext n = 0 \<or> a < mnNext n \<and> mnNext n \<in> dom N))"

definition queue_ends :: "MESS_PROCESS_QUEUE \<Rightarrow> addr set \<Rightarrow> bool" where
  "queue_ends q D \<longleftrightarrow> (mqFirst q = 0 \<or> mqFirst q \<in> D)
     \<and> (mqFirst q = 0 \<and> mqLast q = 0 \<or> mqLast q \<in> D)"

definition mq_inv :: "kstate \<Rightarrow> bool" where
  "mq_inv s \<longleftrightarrow> nodes_ordered (freeMemPointer s) (mnodes s)
     \<and> (\<exists>q. processQueue s = Some q \<and> queue_ends q (dom (mnodes s)))"

text \<open>
  The part of the state that these functions leave alone: of the nodes they change nothing
  but links.
\<close>

definition nodes_same :: "(addr \<Rightarrow> MESS_PROCESS_NODE option) \<Rightarrow> (addr \<Rightarrow> MESS_PROCESS_NODE option) \<Rightarrow> bool" where
  "nodes_same N N' \<longleftrightarrow> (\<forall>a. map_option (\<lambda>n. n\<lparr>mnNext := 0\<rparr>) (N' a) = map_option (\<lambda>n. n\<lparr>mnNext := 0\<rparr>) (N a))"

definition mq_frame :: "kstate \<Rightarrow> kstate \<Rightarrow> bool" where
  "mq_frame s t \<longleftrightarrow> t = s\<lparr>mnodes := mnodes t, processQueue := processQueue t\<rparr>
     \<and> nodes_same (mnodes s) (mnodes t)"

lemma nodes_same_refl [simp]: "nodes_same N N"
  by (simp add: nodes_same_def)

lemma nodes_same_trans: "nodes_same N M \<Longrightarrow> nodes_same M K \<Longrightarrow> nodes_same N K"
  by (simp add: nodes_same_def)

lemma nodes_same_link [simp]: "N a = Some n \<Longrightarrow> nodes_same N (N(a \<mapsto> n\<lparr>mnNext := q\<rparr>))"
  by (simp add: nodes_same_def)

lemma nodes_sameD:
  assumes "nodes_same N M" and "N a = Some n"
  shows "\<exists>m. M a = Some m \<and> mnPid m = mnPid n \<and> mnProcess m = mnProcess n \<and> mnType m = mnType n"
proof -
  have "map_option (\<lambda>n. n\<lparr>mnNext := 0\<rparr>) (M a) = Some (n\<lparr>mnNext := 0\<rparr>)"
    using assms by (simp add: nodes_same_def)
  then obtain m where m: "M a = Some m" "m\<lparr>mnNext := 0\<rparr> = n\<lparr>mnNext := 0\<rparr>" by auto
  have "f (m\<lparr>mnNext := 0\<rparr>) = f (n\<lparr>mnNext := 0\<rparr>)" for f :: "MESS_PROCESS_NODE \<Rightarrow> 'b" by (simp only: m)
  from this [of mnPid] this [of mnProcess] this [of mnType] show ?thesis using m(1) by simp
qed

lemma mq_frame_refl [simp]: "mq_frame s s"
  by (simp add: mq_frame_def)

lemma mq_frame_upd [simp]:
  "mq_frame s (s\<lparr>processQueue := Q\<rparr>)"
  "mnodes s a = Some n \<Longrightarrow> mq_frame s (s\<lparr>mnodes := (mnodes s)(a \<mapsto> n\<lparr>mnNext := q\<rparr>)\<rparr>)"
  by (simp_all add: mq_frame_def)

lemma mq_frame_eq: "mq_frame s t \<Longrightarrow> t = s\<lparr>mnodes := mnodes t, processQueue := processQueue t\<rparr>"
  unfolding mq_frame_def by (rule conjunct1)

lemma mq_frame_nodes: "mq_frame s t \<Longrightarrow> nodes_same (mnodes s) (mnodes t)"
  by (simp add: mq_frame_def)

lemma mq_frame_trans: "mq_frame s t \<Longrightarrow> mq_frame t u \<Longrightarrow> mq_frame s u"
proof -
  assume f: "mq_frame s t" "mq_frame t u"
  note t = mq_frame_eq [OF f(1)] and u = mq_frame_eq [OF f(2)]
  from u have "u = (s\<lparr>mnodes := mnodes t, processQueue := processQueue t\<rparr>)
      \<lparr>mnodes := mnodes u, processQueue := processQueue u\<rparr>" using t by simp
  then show ?thesis
    using f [THEN mq_frame_nodes] by (auto simp: mq_frame_def intro: nodes_same_trans)
qed

lemma mq_frame_fields:
  assumes "t = s\<lparr>mnodes := N, processQueue := Q\<rparr>"
  shows "procs t = procs s" "headers t = headers s" "otypes t = otypes s"
    "freeMemPointer t = freeMemPointer s" "KepReadyQueues t = KepReadyQueues s"
    "KepBlockedList t = KepBlockedList s" "KepTimerList t = KepTimerList s"
    "KeCurrentProcess t = KeCurrentProcess s" "KepTickCount t = KepTickCount s"
  by (simp_all add: assms)

lemmas mq_frameD = mq_frame_fields [OF mq_frame_eq]

lemma nodes_ordered_skip:
  assumes ord: "nodes_ordered lim N" and it: "N it = Some n" and pr: "N pr = Some m" and le: "pr \<le> it"
  shows "nodes_ordered lim (N(pr \<mapsto> m\<lparr>mnNext := mnNext n\<rparr>))"
  unfolding nodes_ordered_def
proof (intro allI impI)
  fix a k
  assume k: "(N(pr \<mapsto> m\<lparr>mnNext := mnNext n\<rparr>)) a = Some k"
  have o: "b \<noteq> 0 \<and> b < lim \<and> (mnNext j = 0 \<or> b < mnNext j \<and> mnNext j \<in> dom N)"
    if "N b = Some j" for b j using ord that by (simp add: nodes_ordered_def)
  show "a \<noteq> 0 \<and> a < lim \<and> (mnNext k = 0 \<or> a < mnNext k
          \<and> mnNext k \<in> dom (N(pr \<mapsto> m\<lparr>mnNext := mnNext n\<rparr>)))"
  proof (cases "a = pr")
    case True
    then show ?thesis using k o [OF it] o [OF pr] le by auto
  next
    case False
    then show ?thesis using k o [of a k] by auto
  qed
qed

lemma RemoveProcessFromQueue_inv:
  assumes inv: "mq_inv s" and it: "mnodes s it = Some n" and pr: "mnodes s pr = Some m"
    and le: "pr \<le> it"
  shows "returns (RemoveProcessFromQueue it pr) s
    (\<lambda>r t. r = STATUS_SUCCESS \<and> mq_inv t \<and> mq_frame s t \<and> dom (mnodes t) = dom (mnodes s))"
proof -
  obtain q where q: "processQueue s = Some q" and ends: "queue_ends q (dom (mnodes s))"
    and ord: "nodes_ordered (freeMemPointer s) (mnodes s)"
    using inv by (auto simp: mq_inv_def)
  have nz: "it \<noteq> 0" "pr \<noteq> 0" using ord it pr by (auto simp: nodes_ordered_def)
  have nx: "mnNext n = 0 \<or> mnNext n \<in> dom (mnodes s)" using ord it by (auto simp: nodes_ordered_def)
  have d: "insert pr (dom (mnodes s)) = dom (mnodes s)" using pr by auto
  note skip = nodes_ordered_skip [OF ord it pr le]
  consider "mqFirst q = it" "mqLast q = it" | "mqFirst q = it" "mqLast q \<noteq> it"
    | "mqFirst q \<noteq> it" "mqLast q = it" | "mqFirst q \<noteq> it" "mqLast q \<noteq> it" by blast
  then show ?thesis
    using q ends ord nx nz it pr skip
    by cases (auto simp: RemoveProcessFromQueue_def kern mq_inv_def queue_ends_def d domI)
qed

lemma resume_step_inv:
  assumes inv: "mq_inv s" and it: "mnodes s it = Some n" and pr: "pr \<in> dom (mnodes s)"
    and le: "pr \<le> it" and p: "p \<noteq> 0" "procs s p = Some pcb"
  shows "returns (resume_step p (it, pr)) s
    (\<lambda>r t. mq_inv t \<and> mq_frame s t \<and> dom (mnodes t) = dom (mnodes s)
      \<and> (\<exists>y. r = Inl (y, it) \<and> (y = 0 \<or> it < y \<and> y \<in> dom (mnodes s))))"
proof -
  have nz: "it \<noteq> 0" using inv it by (auto simp: mq_inv_def nodes_ordered_def)
  have last: "returns (kbind (getN it) (\<lambda>n. kreturn (Inl (mnNext n, it)))) t
      (\<lambda>r u. mq_inv u \<and> mq_frame s u \<and> dom (mnodes u) = dom (mnodes s)
        \<and> (\<exists>y. r = Inl (y, it) \<and> (y = 0 \<or> it < y \<and> y \<in> dom (mnodes s))))"
    if "mq_inv t" "mq_frame s t" "dom (mnodes t) = dom (mnodes s)" for t
  proof -
    from that(3) it obtain k where k: "mnodes t it = Some k" by (metis domD domI)
    then have "mnNext k = 0 \<or> it < mnNext k \<and> mnNext k \<in> dom (mnodes t)"
      using that(1) by (simp add: mq_inv_def nodes_ordered_def)
    then show ?thesis using that k nz by (auto simp: kern)
  qed
  obtain m where m: "mnodes s pr = Some m" using pr by auto
  show ?thesis
  proof (cases "mnPid n = PID pcb")
    case True
    have "returns (kthen (RemoveProcessFromQueue it pr) (kreturn ())) s
        (\<lambda>_ t. mq_inv t \<and> mq_frame s t \<and> dom (mnodes t) = dom (mnodes s))"
      unfolding kern by (rule returns_mono [OF RemoveProcessFromQueue_inv [OF inv it m le]]) simp
    then show ?thesis
      using nz it p True by (simp add: resume_step_def kern) (erule returns_mono, use last in \<open>simp add: kern\<close>)
  next
    case False
    then show ?thesis
      using nz it p last [OF inv mq_frame_refl refl] by (simp add: resume_step_def kern)
  qed
qed

text \<open>
  The resume method returns, whatever the state of the queue, and changes nothing outside
  the queue: the iterator only moves up.
\<close>

lemma ResumeMethod_mess_returns:
  assumes inv: "mq_inv s" and p: "p \<noteq> 0" "procs s p = Some pcb"
  shows "returns (ResumeMethod_mess p) s (\<lambda>_ t. mq_inv t \<and> mq_frame s t
           \<and> dom (mnodes t) = dom (mnodes s))"
proof -
  obtain q where q: "processQueue s = Some q" and ends: "queue_ends q (dom (mnodes s))"
    using inv by (auto simp: mq_inv_def)
  let ?I = "\<lambda>(it, pr) t. mq_inv t \<and> mq_frame s t \<and> dom (mnodes t) = dom (mnodes s)
     \<and> (it = 0 \<or> it \<in> dom (mnodes s) \<and> pr \<in> dom (mnodes s) \<and> pr \<le> it)"
  let ?m = "\<lambda>(it, pr) t. if it = 0 then 0 else 2 ^ 32 - unat (it :: addr)"
  have "returns (kloop (resume_step p) (mqFirst q, mqFirst q)) s
      (\<lambda>_ t. mq_inv t \<and> mq_frame s t \<and> dom (mnodes t) = dom (mnodes s))"
  proof (rule returns_kloop_rule [where I = ?I and m = ?m])
    show "?I (mqFirst q, mqFirst q) s" using inv ends by (auto simp: queue_ends_def)
  next
    fix x t
    assume I: "?I x t"
    obtain it pr where x: "x = (it, pr)" by (cases x)
    show "returns (resume_step p x) t (\<lambda>r u. case r of
        Inl y \<Rightarrow> ?I y u \<and> ?m y u < ?m x t
      | Inr v \<Rightarrow> mq_inv u \<and> mq_frame s u \<and> dom (mnodes u) = dom (mnodes s))"
    proof (cases "it = 0")
      case True
      then show ?thesis using I x by (simp add: resume_step_def kern)
    next
      case False
      with I x have t: "mq_inv t" "mq_frame s t" "dom (mnodes t) = dom (mnodes s)"
        and ip: "it \<in> dom (mnodes t)" "pr \<in> dom (mnodes t)" "pr \<le> it" by auto
      obtain n where n: "mnodes t it = Some n" using ip by auto
      have pt: "procs t p = Some pcb" using t(2) p by (simp add: mq_frameD)
      have less: "2 ^ 32 - unat y < 2 ^ 32 - unat it" if "it < y" for y
        using that unsigned_less [of y, where ?'a = nat] by (simp add: word_less_nat_alt)
      show ?thesis
        unfolding x
        by (rule returns_mono [OF resume_step_inv [OF t(1) n ip(2,3) p(1) pt]])
           (use t(3) False less ip(1) unsigned_less [of it, where ?'a = nat] in
             \<open>auto simp: order_less_imp_le mq_frame_trans [OF t(2)] domIff\<close>)
    qed
  qed
  then show ?thesis using q by (simp add: ResumeMethod_mess_def kern)
qed

end
