(* ===== verification/Scheduler.thy ===== *)
theory Scheduler
  imports Ob MessQueue
begin

text \<open>
  The scheduler, \<^verbatim>\<open>base/ke/scheduler.c\<close>: 32 priority queues of ready processes, the
  unordered list of blocked processes, the timer list ordered by wake-up time, and the
  current process.  This theory holds the code; \<open>SchedInv\<close> the invariant and the
  behaviour of every operation.
\<close>

section \<open>The ready queues\<close>

text \<open>An index outside the 32 queues is an access outside the array.\<close>

definition getRQ :: "int \<Rightarrow> PROCESS_QUEUE kern" where
  "getRQ i = (if 0 \<le> i \<and> i < int PROCESS_PRIORITY_LEVELS
              then kget (\<lambda>s. KepReadyQueues s (nat i)) else khalt Fault)"

definition setRQ :: "int \<Rightarrow> (PROCESS_QUEUE \<Rightarrow> PROCESS_QUEUE) \<Rightarrow> unit kern" where
  "setRQ i f = (if 0 \<le> i \<and> i < int PROCESS_PRIORITY_LEVELS
     then kmodify (\<lambda>s. s\<lparr>KepReadyQueues :=
            (KepReadyQueues s)(nat i := f (KepReadyQueues s (nat i)))\<rparr>)
     else khalt Fault)"

definition KepEnqueueProcess :: "addr \<Rightarrow> unit kern" where
  "KepEnqueueProcess Process =
     kbind (getP Process) (\<lambda>p.
     kthen (kassert ''scheduler.c'' 60 (NextPCB p = 0))
     (kthen (kassert ''scheduler.c'' 61 (Priority p < of_nat PROCESS_PRIORITY_LEVELS))
     (kbind (getRQ (uint (Priority p))) (\<lambda>q.
      kthen
        (if First q \<noteq> 0 then
           kbind (getP (Last q)) (\<lambda>l.
           kthen (kassert ''scheduler.c'' 68 (NextPCB l = 0))
           (kthen (setP (Last q) (\<lambda>l. l\<lparr>NextPCB := Process\<rparr>))
           (setRQ (uint (Priority p)) (\<lambda>q. q\<lparr>Last := Process\<rparr>))))
         else
           setRQ (uint (Priority p)) (\<lambda>q. q\<lparr>First := Process, Last := Process\<rparr>))
        (setP Process (\<lambda>p. p\<lparr>State := ready\<rparr>))))))"

definition dequeue_step :: "addr \<Rightarrow> addr \<Rightarrow> (addr + bool) kern" where
  "dequeue_step Process currentProcess =
     kbind (getP currentProcess) (\<lambda>c.
     if NextPCB c = 0 then kreturn (Inr False)
     else if NextPCB c = Process then
       kbind (getP Process) (\<lambda>p.
       kthen (setP currentProcess (\<lambda>c. c\<lparr>NextPCB := NextPCB p\<rparr>))
       (kbind (getRQ (uint (Priority p))) (\<lambda>q.
        kthen (kwhen (Last q = Process)
                 (setRQ (uint (Priority p)) (\<lambda>q. q\<lparr>Last := currentProcess\<rparr>)))
        (kthen (setP Process (\<lambda>p. p\<lparr>NextPCB := 0\<rparr>))
        (kreturn (Inr True))))))
     else kreturn (Inl (NextPCB c)))"

definition KepDequeueProcess :: "addr \<Rightarrow> unit kern" where
  "KepDequeueProcess Process =
     kbind (getP Process) (\<lambda>p.
     kthen (kassert ''scheduler.c'' 99 (Priority p < of_nat PROCESS_PRIORITY_LEVELS))
     (kbind (getRQ (uint (Priority p))) (\<lambda>q.
      if First q = Process then
        kthen (setRQ (uint (Priority p)) (\<lambda>q. q\<lparr>First := NextPCB p\<rparr>))
        (setP Process (\<lambda>p. p\<lparr>NextPCB := 0\<rparr>))
      else
        kbind (kloop (dequeue_step Process) (First q)) (\<lambda>found.
        if found then kreturn ()
        else khalt (BugCheck ''KepDequeueProcess: process is not in the priority queue'')))))"

section \<open>Choosing the next process\<close>

definition run_first :: "int \<Rightarrow> unit kern" where
  "run_first i =
     kbind (getRQ i) (\<lambda>q.
     kthen (kmodify (\<lambda>s. s\<lparr>KeCurrentProcess := First q\<rparr>))
     (KepDequeueProcess (First q)))"

definition switch_to :: "int \<Rightarrow> unit kern" where
  "switch_to i =
     kbind (kget KeCurrentProcess) (\<lambda>cur.
     kbind (getP cur) (\<lambda>c.
     kthen (kwhen (State c \<noteq> blocked) (KepEnqueueProcess cur))
     (run_first i)))"

definition reschedule_step :: "int \<Rightarrow> int \<Rightarrow> (int + unit) kern" where
  "reschedule_step bottomPriority i =
     (if i < bottomPriority then kreturn (Inr ()) else
      kbind (getRQ i) (\<lambda>q.
      if First q = 0 then kreturn (Inl (i - 1))
      else kthen (switch_to i) (kreturn (Inr ()))))"

definition finish_reschedule :: "unit kern" where
  "finish_reschedule =
     kbind (kget KeCurrentProcess) (\<lambda>cur.
     kbind (getP cur) (\<lambda>c.
     if State c = blocked then
       khalt (BugCheck ''Critical system process terminated or blocked unexpectedly'')
     else
       kthen (setP cur (\<lambda>c. c\<lparr>Quantum := 5\<rparr>))
       (setP cur (\<lambda>c. c\<lparr>State := running\<rparr>))))"

definition KepReschedule :: "unit kern" where
  "KepReschedule =
     kbind (kget KeCurrentProcess) (\<lambda>cur.
     kbind (getP cur) (\<lambda>c.
     let bottomPriority = (if State c = blocked then 0 else sint (Priority c)) in
     kthen (kloop (reschedule_step bottomPriority) (int PROCESS_PRIORITY_LEVELS - 1))
     finish_reschedule))"

section \<open>Starting and stopping\<close>

definition KeStartSchedulingProcess :: "addr \<Rightarrow> u32 kern" where
  "KeStartSchedulingProcess Process =
     kthen (kassert ''scheduler.c'' 223 (Process \<noteq> 0))
     (kbind (getP Process) (\<lambda>p.
      kthen (kassert ''scheduler.c'' 224 (NextPCB p = 0))
      (kbind (ObReferenceObject Process 0) (\<lambda>status.
       if status \<noteq> STATUS_SUCCESS then kreturn status
       else kthen (KepEnqueueProcess Process) (kreturn STATUS_SUCCESS)))))"

text \<open>\<^verbatim>\<open>KepRemoveFromProcessList\<close> takes the address of one of two list heads.\<close>

datatype LIST_HEAD = KepTimerListHead | KepBlockedListHead

definition getHead :: "LIST_HEAD \<Rightarrow> addr kern" where
  "getHead lh = kget (case lh of KepTimerListHead \<Rightarrow> KepTimerList | KepBlockedListHead \<Rightarrow> KepBlockedList)"

definition setHead :: "LIST_HEAD \<Rightarrow> addr \<Rightarrow> unit kern" where
  "setHead lh p = kmodify (\<lambda>s. case lh of
       KepTimerListHead \<Rightarrow> s\<lparr>KepTimerList := p\<rparr>
     | KepBlockedListHead \<Rightarrow> s\<lparr>KepBlockedList := p\<rparr>)"

definition remove_step :: "addr \<Rightarrow> addr \<Rightarrow> (addr + bool) kern" where
  "remove_step Process currentProcess =
     kbind (getP currentProcess) (\<lambda>c.
     if NextPCB c = 0 then kreturn (Inr False)
     else if NextPCB c = Process then
       kbind (getP Process) (\<lambda>p.
       kthen (setP currentProcess (\<lambda>c. c\<lparr>NextPCB := NextPCB p\<rparr>))
       (kthen (setP Process (\<lambda>p. p\<lparr>NextPCB := 0\<rparr>))
       (kreturn (Inr True))))
     else kreturn (Inl (NextPCB c)))"

definition KepRemoveFromProcessList :: "LIST_HEAD \<Rightarrow> addr \<Rightarrow> bool kern" where
  "KepRemoveFromProcessList ListHead Process =
     kbind (getHead ListHead) (\<lambda>h.
     if h = 0 then kreturn False
     else if h = Process then
       kbind (getP Process) (\<lambda>p.
       kthen (setHead ListHead (NextPCB p))
       (kthen (setP Process (\<lambda>p. p\<lparr>NextPCB := 0\<rparr>))
       (kreturn True)))
     else kloop (remove_step Process) h)"

text \<open>The test \<^verbatim>\<open>!Remove(&KepTimerList, p) && !Remove(&KepBlockedList, p)\<close> of two callers.\<close>

definition remove_blocked :: "string \<Rightarrow> addr \<Rightarrow> unit kern" where
  "remove_blocked message Process =
     kbind (KepRemoveFromProcessList KepTimerListHead Process) (\<lambda>r.
     if r then kreturn () else
     kbind (KepRemoveFromProcessList KepBlockedListHead Process) (\<lambda>r.
     if r then kreturn () else khalt (BugCheck message)))"

definition KeStopSchedulingProcess :: "addr \<Rightarrow> u32 kern" where
  "KeStopSchedulingProcess Process =
     kthen (kassert ''scheduler.c'' 319 (Process \<noteq> 0))
     (kbind (getP Process) (\<lambda>p.
      kthen
        (case State p of
           running \<Rightarrow> kthen (setP Process (\<lambda>p. p\<lparr>State := blocked\<rparr>)) KepReschedule
         | ready \<Rightarrow> KepDequeueProcess Process
         | blocked \<Rightarrow>
             remove_blocked ''KeStopSchedulingProcess: process blocked, but in no blocked queue''
               Process
         | _ \<Rightarrow> khalt (BugCheck ''KeStopSchedulingProcess: unhandled process state''))
      (kthen (ObDereferenceObject Process)
      (kreturn STATUS_SUCCESS))))"

section \<open>Blocking, resuming, sleeping\<close>

definition KeBlockProcess :: "unit kern" where
  "KeBlockProcess =
     kbind (kget KeCurrentProcess) (\<lambda>cur.
     kthen (setP cur (\<lambda>c. c\<lparr>State := blocked\<rparr>))
     (kthen (setP cur (\<lambda>c. c\<lparr>ResumeMethod := NoResumeMethod\<rparr>))
     (kbind (kget KepBlockedList) (\<lambda>b.
      kthen (setP cur (\<lambda>c. c\<lparr>NextPCB := b\<rparr>))
      (kthen (kmodify (\<lambda>s. s\<lparr>KepBlockedList := cur\<rparr>))
      KepReschedule)))))"

definition finish_resume :: "addr \<Rightarrow> unit kern" where
  "finish_resume Process =
     kthen (remove_blocked ''KeResumeProcess: process blocked, but in no blocked queue'' Process)
     (kthen (KepEnqueueProcess Process)
     (kbind (getP Process) (\<lambda>p.
      kbind (kget KeCurrentProcess) (\<lambda>cur.
      kbind (getP cur) (\<lambda>c.
      kwhen (Priority p > Priority c) KepReschedule)))))"

definition KeResumeProcess :: "addr \<Rightarrow> unit kern" where
  "KeResumeProcess Process =
     kthen (kassert ''scheduler.c'' 405 (Process \<noteq> 0))
     (kbind (getP Process) (\<lambda>p.
      kthen (kassert ''scheduler.c'' 406 (State p = blocked))
      (kthen (kwhen (ResumeMethod p \<noteq> NoResumeMethod) (call_resume_method (ResumeMethod p) Process))
      (finish_resume Process))))"

definition KeChangeProcessPriority :: "addr \<Rightarrow> u32 \<Rightarrow> unit kern" where
  "KeChangeProcessPriority Process NewPriority =
     kthen (kassert ''scheduler.c'' 445 (Process \<noteq> 0))
     (kthen (kassert ''scheduler.c'' 446 (NewPriority < of_nat PROCESS_PRIORITY_LEVELS))
     (kbind (getP Process) (\<lambda>p.
      case State p of
        running \<Rightarrow> setP Process (\<lambda>p. p\<lparr>Priority := NewPriority\<rparr>)
      | blocked \<Rightarrow> setP Process (\<lambda>p. p\<lparr>Priority := NewPriority\<rparr>)
      | ready \<Rightarrow>
          kthen (KepDequeueProcess Process)
          (kthen (setP Process (\<lambda>p. p\<lparr>Priority := NewPriority\<rparr>))
          (KepEnqueueProcess Process))
      | _ \<Rightarrow> khalt (BugCheck ''KeChangeProcessPriority: unhandled process state''))))"

definition wake_up_step :: "unit \<Rightarrow> (unit + unit) kern" where
  "wake_up_step _ =
     kbind (kget KepTimerList) (\<lambda>h.
     if h = 0 then kreturn (Inr ()) else
     kbind (getP h) (\<lambda>p.
     kbind (kget KepTickCount) (\<lambda>tick.
     if WakeUpTime p < tick then kthen (KeResumeProcess h) (kreturn (Inl ()))
     else kreturn (Inr ()))))"

definition KepWakeUpSleepers :: "unit kern" where
  "KepWakeUpSleepers = kloop wake_up_step ()"

definition find_spot_step :: "u32 \<Rightarrow> addr \<Rightarrow> (addr + addr) kern" where
  "find_spot_step wake current =
     kbind (getP current) (\<lambda>c.
     if NextPCB c = 0 then kreturn (Inr current) else
     kbind (getP (NextPCB c)) (\<lambda>n.
     if WakeUpTime n < wake then kreturn (Inl (NextPCB c)) else kreturn (Inr current)))"

definition insert_sleeper :: "u32 \<Rightarrow> addr \<Rightarrow> unit kern" where
  "insert_sleeper wake cur =
     kbind (kget KepTimerList) (\<lambda>h.
     kbind (if h = 0 then kreturn True
            else kbind (getP h) (\<lambda>hp. kreturn (WakeUpTime hp > wake))) (\<lambda>front.
     if front then
       kthen (setP cur (\<lambda>c. c\<lparr>NextPCB := h\<rparr>))
       (kmodify (\<lambda>s. s\<lparr>KepTimerList := cur\<rparr>))
     else
       kbind (kloop (find_spot_step wake) h) (\<lambda>current.
       kbind (getP current) (\<lambda>cp.
       kthen (setP cur (\<lambda>c. c\<lparr>NextPCB := NextPCB cp\<rparr>))
       (setP current (\<lambda>cp. cp\<lparr>NextPCB := cur\<rparr>))))))"

definition KeSuspendProcess :: "u32 \<Rightarrow> RESUME_METHOD \<Rightarrow> unit kern" where
  "KeSuspendProcess Milliseconds Resume =
     kbind (kget KeCurrentProcess) (\<lambda>cur.
     kbind (getP cur) (\<lambda>c.
     kthen (kassert ''scheduler.c'' 496 (NextPCB c = 0))
     (kbind (kget KepTickCount) (\<lambda>tick.
      kthen (setP cur (\<lambda>c. c\<lparr>WakeUpTime := tick + Milliseconds\<rparr>))
      (kthen (setP cur (\<lambda>c. c\<lparr>State := blocked\<rparr>))
      (kthen (setP cur (\<lambda>c. c\<lparr>ResumeMethod := Resume\<rparr>))
      (kthen (insert_sleeper (tick + Milliseconds) cur)
       KepReschedule)))))))"

section \<open>Time and contexts\<close>

definition KeGetTickCount :: "u32 kern" where
  "KeGetTickCount = kget KepTickCount"

definition KeCaptureContext :: "CONTEXT \<Rightarrow> unit kern" where
  "KeCaptureContext context =
     kbind (kget KeCurrentProcess) (\<lambda>cur.
     kthen (kassert ''scheduler.c'' 559 (cur \<noteq> 0))
     (setP cur (\<lambda>c. c\<lparr>Context := context\<rparr>)))"

definition KeRestoreContext :: "CONTEXT kern" where
  "KeRestoreContext =
     kbind (kget KeCurrentProcess) (\<lambda>cur.
     kthen (kassert ''scheduler.c'' 576 (cur \<noteq> 0))
     (kbind (getP cur) (\<lambda>c. kreturn (Context c))))"

definition KeHandleTimer :: "unit kern" where
  "KeHandleTimer =
     kbind (kget KeCurrentProcess) (\<lambda>cur.
     kthen (kassert ''scheduler.c'' 593 (cur \<noteq> 0))
     (kbind (getP cur) (\<lambda>c.
      kthen (kassert ''scheduler.c'' 594 (Quantum c > 0))
      (kthen (kmodify (\<lambda>s. s\<lparr>KepTickCount := KepTickCount s + 10\<rparr>))
      (kthen (setP cur (\<lambda>c. c\<lparr>CPUTime := CPUTime c + 10\<rparr>))
      (kthen (setP cur (\<lambda>c. c\<lparr>Quantum := Quantum c - 1\<rparr>))
      (kthen KepWakeUpSleepers
      (kbind (kget KeCurrentProcess) (\<lambda>cur.
       kbind (getP cur) (\<lambda>c.
       kwhen (Quantum c = 0) KepReschedule))))))))))"

end
