(* ===== verification/SchedInv.thy ===== *)
theory SchedInv
  imports Scheduler
begin

text \<open>
  The scheduler's data as abstract lists, its invariant, and the behaviour of every
  operation of \<open>Scheduler\<close> as an operation on the abstract lists.
\<close>

section \<open>The abstract lists\<close>

datatype qid = ReadyQ nat | BlockedQ | TimerQ

fun valid_q :: "qid \<Rightarrow> bool" where
  "valid_q (ReadyQ i) \<longleftrightarrow> i < PROCESS_PRIORITY_LEVELS"
| "valid_q _ \<longleftrightarrow> True"

fun qhead :: "(nat \<Rightarrow> PROCESS_QUEUE) \<Rightarrow> addr \<Rightarrow> addr \<Rightarrow> qid \<Rightarrow> addr" where
  "qhead RQ B T (ReadyQ i) = First (RQ i)"
| "qhead RQ B T BlockedQ = B"
| "qhead RQ B T TimerQ = T"

lemma qhead_ready_other [simp]: "r \<noteq> ReadyQ i \<Longrightarrow> qhead (RQ(i := x)) B T r = qhead RQ B T r"
  by (cases r) auto

lemma qhead_ready_last [simp]: "qhead (RQ(i := (RQ i)\<lparr>Last := x\<rparr>)) B T r = qhead RQ B T r"
  by (cases r) auto

text \<open>What holds of every PCB in a list.\<close>

fun member_ok :: "qid \<Rightarrow> PROCESS \<Rightarrow> bool" where
  "member_ok (ReadyQ i) p \<longleftrightarrow> State p = ready \<and> unat (Priority p) = i"
| "member_ok _ p \<longleftrightarrow> State p = blocked \<and> unat (Priority p) < PROCESS_PRIORITY_LEVELS"

definition nextp :: "(addr \<Rightarrow> PROCESS option) \<Rightarrow> addr \<Rightarrow> addr option" where
  "nextp P a = map_option NextPCB (P a)"

definition wake :: "(addr \<Rightarrow> PROCESS option) \<Rightarrow> addr \<Rightarrow> u32" where
  "wake P a = (case P a of None \<Rightarrow> 0 | Some p \<Rightarrow> WakeUpTime p)"

definition by_wake :: "(addr \<Rightarrow> PROCESS option) \<Rightarrow> addr list \<Rightarrow> bool" where
  "by_wake P xs \<longleftrightarrow> sorted_wrt (\<lambda>x y. wake P x \<le> wake P y) xs"

definition lists_ok ::
  "(addr \<Rightarrow> PROCESS option) \<Rightarrow> (nat \<Rightarrow> PROCESS_QUEUE) \<Rightarrow> addr \<Rightarrow> addr \<Rightarrow> (qid \<Rightarrow> addr list) \<Rightarrow> bool"
  where
  "lists_ok P RQ B T L \<longleftrightarrow>
     (\<forall>q. valid_q q \<longrightarrow> chain (nextp P) (qhead RQ B T q) (L q)
        \<and> (\<forall>x \<in> set (L q). \<exists>p. P x = Some p \<and> member_ok q p))
   \<and> (\<forall>i < PROCESS_PRIORITY_LEVELS. L (ReadyQ i) \<noteq> [] \<longrightarrow> Last (RQ i) = last (L (ReadyQ i)))
   \<and> set (L BlockedQ) \<inter> set (L TimerQ) = {}
   \<and> by_wake P (L TimerQ)"

definition sched_lists :: "kstate \<Rightarrow> (qid \<Rightarrow> addr list) \<Rightarrow> bool" where
  "sched_lists s L \<longleftrightarrow> lists_ok (procs s) (KepReadyQueues s) (KepBlockedList s) (KepTimerList s) L"

lemma nextp_upd [simp]: "nextp (P(a \<mapsto> p)) = (nextp P)(a \<mapsto> NextPCB p)"
  by (auto simp: nextp_def)

lemma nextp_nextPCB: "nextPCB s = nextp (procs s)"
  by (auto simp: nextPCB_def nextp_def)

lemma nextp_Some: "nextp P a = Some r \<longleftrightarrow> (\<exists>p. P a = Some p \<and> NextPCB p = r)"
  by (auto simp: nextp_def)

lemma lists_chain: "lists_ok P RQ B T L \<Longrightarrow> valid_q q \<Longrightarrow> chain (nextp P) (qhead RQ B T q) (L q)"
  by (simp add: lists_ok_def)

lemma lists_member:
  "lists_ok P RQ B T L \<Longrightarrow> valid_q q \<Longrightarrow> x \<in> set (L q) \<Longrightarrow> \<exists>p. P x = Some p \<and> member_ok q p"
  by (simp add: lists_ok_def)

lemma lists_last:
  "lists_ok P RQ B T L \<Longrightarrow> i < PROCESS_PRIORITY_LEVELS \<Longrightarrow> L (ReadyQ i) \<noteq> [] \<Longrightarrow>
     Last (RQ i) = last (L (ReadyQ i))"
  by (simp add: lists_ok_def)

lemma lists_distinct: "lists_ok P RQ B T L \<Longrightarrow> valid_q q \<Longrightarrow> distinct (L q)"
  by (rule chain_distinct [OF lists_chain])

lemma lists_nonnull: "lists_ok P RQ B T L \<Longrightarrow> valid_q q \<Longrightarrow> x \<in> set (L q) \<Longrightarrow> x \<noteq> 0"
  by (rule seg_nonnull [OF lists_chain])

text \<open>No process is in two lists.\<close>

lemma lists_apart:
  assumes ok: "lists_ok P RQ B T L" and q: "valid_q q" "x \<in> set (L q)"
    and r: "valid_q r" "x \<in> set (L r)"
  shows "q = r"
proof -
  obtain p where "P x = Some p" "member_ok q p" using lists_member [OF ok q] by auto
  moreover obtain p' where "P x = Some p'" "member_ok r p'" using lists_member [OF ok r] by auto
  moreover have "\<not> (x \<in> set (L BlockedQ) \<and> x \<in> set (L TimerQ))"
    using ok by (auto simp: lists_ok_def)
  ultimately show ?thesis using q r by (cases q; cases r) auto
qed

text \<open>Replacing one list, all others untouched.\<close>

lemma lists_ok_change:
  assumes ok: "lists_ok P RQ B T L" and v: "valid_q q"
    and hd: "\<And>r. valid_q r \<Longrightarrow> r \<noteq> q \<Longrightarrow> qhead RQ' B' T' r = qhead RQ B T r"
    and lst: "\<And>i. i < PROCESS_PRIORITY_LEVELS \<Longrightarrow> ReadyQ i \<noteq> q \<Longrightarrow> Last (RQ' i) = Last (RQ i)"
    and same: "\<And>x r. valid_q r \<Longrightarrow> r \<noteq> q \<Longrightarrow> x \<in> set (L r) \<Longrightarrow> P' x = P x"
    and ch: "chain (nextp P') (qhead RQ' B' T' q) ys"
    and mem: "\<And>x. x \<in> set ys \<Longrightarrow> \<exists>p. P' x = Some p \<and> member_ok q p"
    and disj: "\<And>x r. x \<in> set ys \<Longrightarrow> valid_q r \<Longrightarrow> r \<noteq> q \<Longrightarrow> x \<notin> set (L r)"
    and la: "\<And>i. q = ReadyQ i \<Longrightarrow> ys \<noteq> [] \<Longrightarrow> Last (RQ' i) = last ys"
    and so: "q = TimerQ \<Longrightarrow> by_wake P' ys"
  shows "lists_ok P' RQ' B' T' (L(q := ys))"
proof -
  have chains: "chain (nextp P') (qhead RQ' B' T' r) ((L(q := ys)) r)
      \<and> (\<forall>x \<in> set ((L(q := ys)) r). \<exists>p. P' x = Some p \<and> member_ok r p)" if r: "valid_q r" for r
  proof (cases "r = q")
    case True
    then show ?thesis using ch mem by simp
  next
    case False
    have "seg (nextp P') (qhead RQ' B' T' r) (L r) 0 = seg (nextp P) (qhead RQ B T r) (L r) 0"
      unfolding hd [OF r False]
      by (rule seg_cong) (simp add: nextp_def same [OF r False])
    then show ?thesis
      using lists_chain [OF ok r] lists_member [OF ok r] same [OF r False] False by simp
  qed
  have sorted: "by_wake P' ((L(q := ys)) TimerQ)"
  proof (cases "q = TimerQ")
    case True
    then show ?thesis using so by simp
  next
    case False
    then have "\<And>x. x \<in> set (L TimerQ) \<Longrightarrow> wake P' x = wake P x"
      using same [of TimerQ] by (simp add: wake_def)
    moreover have "by_wake P (L TimerQ)" using ok by (simp add: lists_ok_def)
    ultimately show ?thesis
      using False by (auto simp: by_wake_def elim!: sorted_wrt_mono_rel [rotated])
  qed
  have "set (L BlockedQ) \<inter> set (L TimerQ) = {}" using ok by (simp add: lists_ok_def)
  then have apart: "set ((L(q := ys)) BlockedQ) \<inter> set ((L(q := ys)) TimerQ) = {}"
    using disj [where r = BlockedQ] disj [where r = TimerQ] by auto
  have last: "(L(q := ys)) (ReadyQ i) \<noteq> [] \<Longrightarrow> Last (RQ' i) = last ((L(q := ys)) (ReadyQ i))"
    if "i < PROCESS_PRIORITY_LEVELS" for i
    using la [of i] lst [OF that] lists_last [OF ok that] by auto
  show ?thesis
    unfolding lists_ok_def using chains sorted apart last by blast
qed

section \<open>What the operations leave alone\<close>

text \<open>
  \<open>links_only\<close>: nothing but links changed in the PCBs.  \<open>core_only\<close>: nothing but link,
  state and quantum.  \<open>sched_frame\<close>: nothing outside the scheduler changed.
\<close>

definition unlinked :: "PROCESS \<Rightarrow> PROCESS" where
  "unlinked p = p\<lparr>NextPCB := 0\<rparr>"

definition core :: "PROCESS \<Rightarrow> PROCESS" where
  "core p = p\<lparr>NextPCB := 0, State := created, Quantum := 0\<rparr>"

definition links_only :: "(addr \<Rightarrow> PROCESS option) \<Rightarrow> (addr \<Rightarrow> PROCESS option) \<Rightarrow> bool" where
  "links_only P P' \<longleftrightarrow> (\<forall>x. map_option unlinked (P' x) = map_option unlinked (P x))"

definition core_only :: "(addr \<Rightarrow> PROCESS option) \<Rightarrow> (addr \<Rightarrow> PROCESS option) \<Rightarrow> bool" where
  "core_only P P' \<longleftrightarrow> (\<forall>x. map_option core (P' x) = map_option core (P x))"

definition sched_frame :: "kstate \<Rightarrow> kstate \<Rightarrow> bool" where
  "sched_frame s t \<longleftrightarrow> core_only (procs s) (procs t)
     \<and> t = s\<lparr>procs := procs t, KepReadyQueues := KepReadyQueues t,
             KepBlockedList := KepBlockedList t, KepTimerList := KepTimerList t,
             KeCurrentProcess := KeCurrentProcess t\<rparr>"

lemma core_unlinked [simp]: "core (unlinked p) = core p"
  by (simp add: core_def unlinked_def)

lemma links_only_refl [simp]: "links_only P P" and core_only_refl [simp]: "core_only P P"
  by (simp_all add: links_only_def core_only_def)

lemma links_only_trans: "links_only P Q \<Longrightarrow> links_only Q R \<Longrightarrow> links_only P R"
  by (simp add: links_only_def)

lemma core_only_trans: "core_only P Q \<Longrightarrow> core_only Q R \<Longrightarrow> core_only P R"
  by (simp add: core_only_def)

lemma links_core: "links_only P Q \<Longrightarrow> core_only P Q"
  unfolding links_only_def core_only_def
proof (intro allI)
  fix x
  assume "\<forall>x. map_option unlinked (Q x) = map_option unlinked (P x)"
  then have "map_option core (map_option unlinked (Q x)) = map_option core (map_option unlinked (P x))"
    by simp
  then show "map_option core (Q x) = map_option core (P x)"
    by (simp add: option.map_comp comp_def)
qed

lemma links_only_upd:
  "links_only P Q \<Longrightarrow> Q a = Some p \<Longrightarrow> unlinked p' = unlinked p \<Longrightarrow> links_only P (Q(a \<mapsto> p'))"
  by (simp add: links_only_def) (metis option.map(2))

lemma core_only_upd:
  "core_only P Q \<Longrightarrow> Q a = Some p \<Longrightarrow> core p' = core p \<Longrightarrow> core_only P (Q(a \<mapsto> p'))"
  by (simp add: core_only_def) (metis option.map(2))

lemmas core_only_upd1 = core_only_upd [OF core_only_refl]
lemmas links_only_upd1 = links_only_upd [OF links_only_refl]

lemma unlinked_next [simp]: "unlinked (p\<lparr>NextPCB := q\<rparr>) = unlinked p"
  by (simp add: unlinked_def)

lemma core_updates [simp]:
  "core (p\<lparr>NextPCB := q\<rparr>) = core p" "core (p\<lparr>State := st\<rparr>) = core p"
  "core (p\<lparr>Quantum := n\<rparr>) = core p"
  by (simp_all add: core_def)

lemma links_onlyD:
  assumes "links_only P Q" and "P x = Some p"
  shows "\<exists>q. Q x = Some q \<and> unlinked q = unlinked p"
proof -
  have "map_option unlinked (Q x) = Some (unlinked p)"
    using assms by (simp add: links_only_def)
  then show ?thesis by auto
qed

lemma core_onlyD:
  assumes "core_only P Q" and "P x = Some p"
  shows "\<exists>q. Q x = Some q \<and> core q = core p"
proof -
  have "map_option core (Q x) = Some (core p)"
    using assms by (simp add: core_only_def)
  then show ?thesis by auto
qed

lemma unlinked_fields:
  assumes "unlinked q = unlinked p"
  shows "State q = State p" "Priority q = Priority p" "WakeUpTime q = WakeUpTime p"
    "Quantum q = Quantum p" "ResumeMethod q = ResumeMethod p" "PID q = PID p"
proof -
  have "State (unlinked q) = State (unlinked p)" "Priority (unlinked q) = Priority (unlinked p)"
    "WakeUpTime (unlinked q) = WakeUpTime (unlinked p)" "Quantum (unlinked q) = Quantum (unlinked p)"
    "ResumeMethod (unlinked q) = ResumeMethod (unlinked p)" "PID (unlinked q) = PID (unlinked p)"
    by (simp_all only: assms)
  then show "State q = State p" "Priority q = Priority p" "WakeUpTime q = WakeUpTime p"
    "Quantum q = Quantum p" "ResumeMethod q = ResumeMethod p" "PID q = PID p"
    by (simp_all add: unlinked_def)
qed

lemma core_fields:
  assumes "core q = core p"
  shows "Priority q = Priority p" "WakeUpTime q = WakeUpTime p"
    "ResumeMethod q = ResumeMethod p" "PID q = PID p" "HandleTable q = HandleTable p"
proof -
  have "Priority (core q) = Priority (core p)"
    "WakeUpTime (core q) = WakeUpTime (core p)" "PID (core q) = PID (core p)"
    "ResumeMethod (core q) = ResumeMethod (core p)" "HandleTable (core q) = HandleTable (core p)"
    by (simp_all only: assms)
  then show "Priority q = Priority p" "WakeUpTime q = WakeUpTime p"
    "ResumeMethod q = ResumeMethod p" "PID q = PID p" "HandleTable q = HandleTable p"
    by (simp_all add: core_def)
qed

lemma sched_frame_refl [simp]: "sched_frame s s"
  by (simp add: sched_frame_def)

lemma sched_frame_trans:
  assumes "sched_frame s t" and "sched_frame t u"
  shows "sched_frame s u"
proof -
  have t: "t = s\<lparr>procs := procs t, KepReadyQueues := KepReadyQueues t,
             KepBlockedList := KepBlockedList t, KepTimerList := KepTimerList t,
             KeCurrentProcess := KeCurrentProcess t\<rparr>"
    and u: "u = t\<lparr>procs := procs u, KepReadyQueues := KepReadyQueues u,
             KepBlockedList := KepBlockedList u, KepTimerList := KepTimerList u,
             KeCurrentProcess := KeCurrentProcess u\<rparr>"
    using assms by (simp_all add: sched_frame_def)
  have "u = (s\<lparr>procs := procs t, KepReadyQueues := KepReadyQueues t,
             KepBlockedList := KepBlockedList t, KepTimerList := KepTimerList t,
             KeCurrentProcess := KeCurrentProcess t\<rparr>)\<lparr>procs := procs u,
             KepReadyQueues := KepReadyQueues u,
             KepBlockedList := KepBlockedList u, KepTimerList := KepTimerList u,
             KeCurrentProcess := KeCurrentProcess u\<rparr>"
    using t u by simp
  moreover have "core_only (procs s) (procs u)"
    using assms by (auto simp: sched_frame_def intro: core_only_trans)
  ultimately show ?thesis by (simp add: sched_frame_def)
qed

section \<open>Ready queues\<close>

lemma uint_range [simp]:
  "0 \<le> uint (w :: u32)" "nat (uint w) = unat w" "uint w < int n \<longleftrightarrow> unat w < n"
  using nat_less_iff [of "uint w" n] by simp_all

lemma returns_getRQ [kern]:
  "returns (getRQ i) s Q \<longleftrightarrow> 0 \<le> i \<and> i < int PROCESS_PRIORITY_LEVELS \<and> Q (KepReadyQueues s (nat i)) s"
  by (auto simp: getRQ_def kern)

lemma returns_setRQ [kern]:
  "returns (setRQ i f) s Q \<longleftrightarrow> 0 \<le> i \<and> i < int PROCESS_PRIORITY_LEVELS
     \<and> Q () (s\<lparr>KepReadyQueues := (KepReadyQueues s)(nat i := f (KepReadyQueues s (nat i)))\<rparr>)"
  by (auto simp: setRQ_def kern)

lemma priority_less: "p < of_nat PROCESS_PRIORITY_LEVELS \<longleftrightarrow> unat (p :: u32) < PROCESS_PRIORITY_LEVELS"
  by (simp add: word_less_nat_alt PROCESS_PRIORITY_LEVELS_def)

lemma sint_priority:
  assumes "unat (p :: u32) < PROCESS_PRIORITY_LEVELS"
  shows "sint p = int (unat p)"
proof -
  have "unat p < 32" using assms by (simp add: PROCESS_PRIORITY_LEVELS_def)
  then have "int (unat p) < 32" by linarith
  then have "uint p < 2 ^ 31" by simp
  then have "sint p = uint p"
    unfolding sint_uint
    by (intro signed_take_bit_int_eq_self) (simp_all add: order_trans [OF _ uint_ge_0])
  then show ?thesis by simp
qed

definition fresh :: "(qid \<Rightarrow> addr list) \<Rightarrow> addr \<Rightarrow> bool" where
  "fresh L p \<longleftrightarrow> (\<forall>q. valid_q q \<longrightarrow> p \<notin> set (L q))"

lemma not_fresh: "valid_q q \<Longrightarrow> x \<in> set (L q) \<Longrightarrow> \<not> fresh L x"
  by (auto simp: fresh_def)

text \<open>Only members of the lists and the process \<open>p\<close> itself are written to.\<close>

definition untouched ::
  "(qid \<Rightarrow> addr list) \<Rightarrow> addr \<Rightarrow> (addr \<Rightarrow> PROCESS option) \<Rightarrow> (addr \<Rightarrow> PROCESS option) \<Rightarrow> bool" where
  "untouched L p P P' \<longleftrightarrow> (\<forall>x. fresh L x \<and> x \<noteq> p \<longrightarrow> P' x = P x)"

lemma untouched_upd1 [simp]: "untouched L p P (P(p \<mapsto> a))"
  by (simp add: untouched_def)

lemma untouched_upd2: "\<not> fresh L l \<Longrightarrow> untouched L p P (P(l \<mapsto> b, p \<mapsto> a))"
  by (auto simp: untouched_def)

lemma lists_ok_append:
  assumes ok: "lists_ok P RQ B T L" and v: "valid_q (ReadyQ i)" and fresh: "fresh L p"
    and p: "p \<noteq> 0" "P p = Some pr" "NextPCB pr = 0" "unat (Priority pr) = i"
    and L: "L (ReadyQ i) = as @ [l]" and l: "P l = Some lp"
  shows "lists_ok (P(l \<mapsto> lp\<lparr>NextPCB := p\<rparr>, p \<mapsto> pr\<lparr>State := ready\<rparr>)) (RQ(i := (RQ i)\<lparr>Last := p\<rparr>)) B T
    (L(ReadyQ i := L (ReadyQ i) @ [p]))"
proof (rule lists_ok_change [OF ok v])
  let ?q = "ReadyQ i" and ?P' = "P(l \<mapsto> lp\<lparr>NextPCB := p\<rparr>, p \<mapsto> pr\<lparr>State := ready\<rparr>)"
  have m: "l \<in> set (L ?q)" by (simp add: L)
  have notin: "p \<notin> set (L q)" if "valid_q q" for q using fresh that by (simp add: fresh_def)
  have pl: "p \<noteq> l" using notin [OF v] m by auto
  have "chain ((nextp P)(p \<mapsto> 0, l \<mapsto> p)) (First (RQ i)) (as @ [l, p])"
    by (rule chain_append) (use lists_chain [OF ok v] notin [OF v] p in \<open>simp_all add: L seg_upd_other\<close>)
  then show "chain (nextp ?P') (qhead (RQ(i := (RQ i)\<lparr>Last := p\<rparr>)) B T ?q) (L ?q @ [p])"
    using pl p by (simp add: L fun_upd_twist)
  show "?P' x = P x" if "valid_q r" "r \<noteq> ?q" "x \<in> set (L r)" for x r
    using notin lists_apart [OF ok v m that(1)] that by auto
  show "\<exists>y. ?P' x = Some y \<and> member_ok ?q y" if "x \<in> set (L ?q @ [p])" for x
    using lists_member [OF ok v, of x] lists_member [OF ok v m] l p that by auto
  show "x \<notin> set (L r)" if "x \<in> set (L ?q @ [p])" "valid_q r" "r \<noteq> ?q" for x r
    using notin lists_apart [OF ok v] that by auto
qed auto

lemma KepEnqueueProcess_lists:
  assumes ok: "sched_lists s L" and p: "p \<noteq> 0" "procs s p = Some pr" "NextPCB pr = 0"
    and i: "unat (Priority pr) < PROCESS_PRIORITY_LEVELS" and fresh: "fresh L p"
  shows "returns (KepEnqueueProcess p) s (\<lambda>_ t.
     sched_lists t (L(ReadyQ (unat (Priority pr)) := L (ReadyQ (unat (Priority pr))) @ [p]))
   \<and> sched_frame s t \<and> KeCurrentProcess t = KeCurrentProcess s
   \<and> procs t p = Some (pr\<lparr>State := ready\<rparr>)
   \<and> links_only ((procs s)(p \<mapsto> pr\<lparr>State := ready\<rparr>)) (procs t)
   \<and> untouched L p (procs s) (procs t))"
proof -
  let ?i = "unat (Priority pr)" and ?P = "procs s" and ?RQ = "KepReadyQueues s"
  let ?q = "ReadyQ ?i"
  have ok': "lists_ok ?P ?RQ (KepBlockedList s) (KepTimerList s) L" using ok by (simp add: sched_lists_def)
  have v: "valid_q ?q" using i by simp
  have notin: "p \<notin> set (L q)" if "valid_q q" for q using fresh that by (simp add: fresh_def)
  note ch = lists_chain [OF ok' v]
  show ?thesis
  proof (cases "L ?q = []")
    case True
    let ?P' = "?P(p \<mapsto> pr\<lparr>State := ready\<rparr>)" and ?RQ' = "?RQ(?i := (?RQ ?i)\<lparr>First := p, Last := p\<rparr>)"
    have "lists_ok ?P' ?RQ' (KepBlockedList s) (KepTimerList s) (L(?q := [p]))"
      by (rule lists_ok_change [OF ok' v]) (use p notin in auto)
    moreover have "First (?RQ ?i) = 0" using True ch by simp
    moreover have "core_only ?P ?P'" by (rule core_only_upd1 [where p = pr]) (use p in simp_all)
    ultimately show ?thesis
      using p i True by (simp add: KepEnqueueProcess_def kern sched_lists_def sched_frame_def
          priority_less)
  next
    case False
    then obtain as l where L: "L ?q = as @ [l]" by (cases "L ?q" rule: rev_cases) auto
    then have l: "l \<in> set (L ?q)" by simp
    obtain lp where lp: "?P l = Some lp" using lists_member [OF ok' v l] by auto
    have "nextp ?P l = Some 0" using ch unfolding L by (rule chain_last_next)
    with lp have lpn: "NextPCB lp = 0" by (simp add: nextp_def)
    have lnz: "l \<noteq> 0" using lists_nonnull [OF ok' v l] .
    have Last: "Last (?RQ ?i) = l" using lists_last [OF ok' i False] by (simp add: L)
    have F: "First (?RQ ?i) \<noteq> 0" using ch False by (cases "L ?q") auto
    have pl: "p \<noteq> l" using notin [OF v] l by auto
    let ?P' = "?P(l \<mapsto> lp\<lparr>NextPCB := p\<rparr>, p \<mapsto> pr\<lparr>State := ready\<rparr>)"
    note lists_ok_append [OF ok' v fresh p refl L lp]
    moreover have "untouched L p ?P ?P'" by (rule untouched_upd2 [OF not_fresh [OF v]]) (rule l)
    moreover have "links_only (?P(p \<mapsto> pr\<lparr>State := ready\<rparr>)) ?P'"
      by (subst fun_upd_twist [OF pl [symmetric]])
         (rule links_only_upd1 [where p = lp], use pl lp in auto)
    moreover have "core_only ?P ?P'"
      by (rule core_only_upd [OF core_only_upd1 [where p = lp], where p = pr])
         (use pl p lp in auto)
    ultimately show ?thesis
      using p i F Last lp lpn lnz pl by (simp add: KepEnqueueProcess_def kern sched_lists_def
          sched_frame_def priority_less)
  qed
qed

lemma returns_dequeue_step:
  "returns (dequeue_step p a) s Q \<longleftrightarrow> a \<noteq> 0 \<and> (\<exists>c. procs s a = Some c \<and>
     (if NextPCB c = 0 then Q (Inr False) s
      else if NextPCB c = p then
        returns (kbind (getP p) (\<lambda>pr.
          kthen (setP a (\<lambda>c. c\<lparr>NextPCB := NextPCB pr\<rparr>))
          (kbind (getRQ (uint (Priority pr))) (\<lambda>q.
           kthen (kwhen (Last q = p) (setRQ (uint (Priority pr)) (\<lambda>q. q\<lparr>Last := a\<rparr>)))
           (kthen (setP p (\<lambda>p. p\<lparr>NextPCB := 0\<rparr>)) (kreturn (Inr True))))))) s Q
      else Q (Inl (NextPCB c)) s))"
  by (auto simp: dequeue_step_def kern)

lemma dequeue_loop_found:
  assumes "chain (nextp (procs s)) a (as @ b # p # bs)"
    and "procs s b = Some bp" and "procs s p = Some pr"
    and "unat (Priority pr) < PROCESS_PRIORITY_LEVELS"
  shows "returns (kloop (dequeue_step p) a) s (\<lambda>r t. r
     \<and> procs t = (procs s)(b \<mapsto> bp\<lparr>NextPCB := hd0 bs\<rparr>, p \<mapsto> pr\<lparr>NextPCB := 0\<rparr>)
     \<and> KepReadyQueues t = (let i = unat (Priority pr); q = KepReadyQueues s i in
         if Last q = p then (KepReadyQueues s)(i := q\<lparr>Last := b\<rparr>) else KepReadyQueues s)
     \<and> t = s\<lparr>procs := procs t, KepReadyQueues := KepReadyQueues t\<rparr>)"
  using assms(1)
proof (induction as arbitrary: a)
  case Nil
  have "nextp (procs s) p = Some (hd0 bs)"
    using chain_split_at [where xs = "[b]"] Nil by simp
  moreover have "b \<noteq> p" using chain_distinct [OF Nil] by simp
  ultimately show ?case
    using Nil assms(2-4) by (subst returns_kloop)
      (auto simp: returns_dequeue_step kern nextp_def Let_def)
next
  case (Cons x as)
  let ?y = "hd0 (as @ [b])"
  have y: "nextp (procs s) x = Some ?y" "chain (nextp (procs s)) ?y (as @ b # p # bs)"
    using chain_split_at [where xs = "[]" and a = x and ys = "as @ b # p # bs"] Cons.prems
    by (cases as; simp)+
  then obtain xp where xp: "procs s x = Some xp" "NextPCB xp = ?y" by (auto simp: nextp_Some)
  have "x = a" "a \<noteq> 0" using Cons.prems by simp_all
  moreover have "?y \<noteq> 0" using seg_nonnull [OF y(2)] by (cases as) auto
  moreover have "?y \<noteq> p" using chain_distinct [OF y(2)] by (cases as) auto
  ultimately have "dequeue_step p a s = Some (Return (Inl ?y) s)"
    using xp by (simp add: dequeue_step_def run)
  then show ?case using Cons.IH [OF y(2)] by (simp only: returns_kloop_next)
qed

lemma dequeue_loop_missing:
  assumes "chain (nextp (procs s)) a (x # xs)" and "p \<notin> set xs"
  shows "returns (kloop (dequeue_step p) a) s (\<lambda>r t. \<not> r \<and> t = s)"
  using assms
proof (induction xs arbitrary: a x)
  case Nil
  then show ?case by (subst returns_kloop) (auto simp: returns_dequeue_step nextp_def)
next
  case (Cons y ys)
  then have "nextp (procs s) x = Some y" "chain (nextp (procs s)) y (y # ys)" "y \<noteq> 0" "a = x" "x \<noteq> 0"
    by auto
  then show ?case
    using Cons.IH [of y y] Cons.prems(2)
    by (subst returns_kloop) (auto simp: returns_dequeue_step nextp_Some)
qed

text \<open>Removing a process from the middle of a list.\<close>

lemma chain_remove:
  assumes ch: "chain (nextp P) h (as @ b # p # bs)" and b: "P b = Some bp" and p: "P p = Some pr"
  shows "chain (nextp (P(b \<mapsto> bp\<lparr>NextPCB := hd0 bs\<rparr>, p \<mapsto> pr\<lparr>NextPCB := 0\<rparr>))) h (as @ b # bs)"
proof -
  have "p \<notin> set (as @ b # bs)" using chain_distinct [OF ch] by auto
  then show ?thesis using chain_unlink [OF ch] by (simp add: seg_upd_other)
qed

lemma remove1_split: "distinct (as @ b # p # bs) \<Longrightarrow> remove1 p (as @ b # p # bs) = as @ b # bs"
  by (auto simp: remove1_append)

lemma split_not_first:
  assumes "p \<in> set xs" and "xs = x # ys" and "x \<noteq> p"
  obtains as b bs where "xs = as @ b # p # bs"
proof -
  obtain us vs where xs: "xs = us @ p # vs" using assms(1) by (auto simp: in_set_conv_decomp)
  with assms have "us \<noteq> []" by auto
  then have "us = butlast us @ [last us]" by simp
  with xs have "xs = butlast us @ last us # p # vs" by (metis append.assoc append_Cons append_Nil)
  then show thesis by (rule that)
qed

lemma wake_links:
  assumes "links_only P P'"
  shows "wake P' x = wake P x"
proof (cases "P x")
  case None
  then have "P' x = None" using assms by (auto simp: links_only_def dest: spec [where x = x])
  then show ?thesis using None by (simp add: wake_def)
next
  case (Some p)
  then obtain q where "P' x = Some q" "unlinked q = unlinked p" using links_onlyD [OF assms] by blast
  then show ?thesis using Some unlinked_fields(3) [of q p] by (simp add: wake_def)
qed

lemma by_wake_links: "links_only P P' \<Longrightarrow> by_wake P' xs = by_wake P xs"
  unfolding by_wake_def by (simp only: wake_links [of P P'])

lemma by_wake_tl: "by_wake P (x # xs) \<Longrightarrow> by_wake P xs"
  by (simp add: by_wake_def)

lemma by_wake_drop: "by_wake P (as @ b # p # bs) \<Longrightarrow> by_wake P (as @ b # bs)"
  by (auto simp: by_wake_def sorted_wrt_append)

text \<open>A process leaves a list, as its first element or from behind another.\<close>

lemma lists_ok_pop:
  assumes ok: "lists_ok P RQ B T L" and v: "valid_q q" and L: "L q = p # ys" and p: "P p = Some pr"
    and hd: "qhead RQ' B' T' q = NextPCB pr"
    and others: "\<And>r. valid_q r \<Longrightarrow> r \<noteq> q \<Longrightarrow> qhead RQ' B' T' r = qhead RQ B T r"
    and last: "\<And>j. Last (RQ' j) = Last (RQ j)"
  shows "lists_ok (P(p \<mapsto> pr\<lparr>NextPCB := 0\<rparr>)) RQ' B' T' (L(q := ys))"
proof (rule lists_ok_change [OF ok v others last])
  have m: "p \<in> set (L q)" and dist: "distinct (p # ys)" using L lists_distinct [OF ok v] by simp_all
  have "chain (nextp P) (NextPCB pr) ys" using lists_chain [OF ok v] p by (auto simp: L nextp_def)
  then show "chain (nextp (P(p \<mapsto> pr\<lparr>NextPCB := 0\<rparr>))) (qhead RQ' B' T' q) ys"
    using dist by (simp add: hd seg_upd_other)
  show "(P(p \<mapsto> pr\<lparr>NextPCB := 0\<rparr>)) x = P x" if "valid_q r" "r \<noteq> q" "x \<in> set (L r)" for x r
    using lists_apart [OF ok v m that(1)] that by auto
  show "\<exists>y. (P(p \<mapsto> pr\<lparr>NextPCB := 0\<rparr>)) x = Some y \<and> member_ok q y" if "x \<in> set ys" for x
    using lists_member [OF ok v, of x] dist that by (auto simp: L)
  show "x \<notin> set (L r)" if "x \<in> set ys" "valid_q r" "r \<noteq> q" for x r
    using lists_apart [OF ok v] that by (auto simp: L)
  show "Last (RQ' i) = List.last ys" if "q = ReadyQ i" "ys \<noteq> []" for i
    using lists_last [OF ok, of i] v that L by (simp add: last)
  have l: "links_only P (P(p \<mapsto> pr\<lparr>NextPCB := 0\<rparr>))" by (rule links_only_upd1 [where p = pr]) (use p in simp_all)
  show "by_wake (P(p \<mapsto> pr\<lparr>NextPCB := 0\<rparr>)) ys" if "q = TimerQ"
    using ok that L unfolding by_wake_links [OF l] by (auto simp: lists_ok_def dest: by_wake_tl)
qed

lemma links_only_unlink:
  "P b = Some bp \<Longrightarrow> P p = Some pr \<Longrightarrow> b \<noteq> p
    \<Longrightarrow> links_only P (P(b \<mapsto> bp\<lparr>NextPCB := x\<rparr>, p \<mapsto> pr\<lparr>NextPCB := y\<rparr>))"
  by (rule links_only_upd [OF links_only_upd1 [where p = bp], where p = pr]) auto

lemma lists_ok_unlink:
  assumes ok: "lists_ok P RQ B T L" and v: "valid_q q" and L: "L q = as @ b # p # bs"
    and b: "P b = Some bp" and p: "P p = Some pr"
    and hd: "\<And>r. valid_q r \<Longrightarrow> qhead RQ' B T r = qhead RQ B T r"
    and others: "\<And>j. ReadyQ j \<noteq> q \<Longrightarrow> Last (RQ' j) = Last (RQ j)"
    and last: "\<And>j. ReadyQ j = q \<Longrightarrow> Last (RQ' j) = (if Last (RQ j) = p then b else Last (RQ j))"
  shows "lists_ok (P(b \<mapsto> bp\<lparr>NextPCB := hd0 bs\<rparr>, p \<mapsto> pr\<lparr>NextPCB := 0\<rparr>)) RQ' B T (L(q := as @ b # bs))"
proof -
  let ?P' = "P(b \<mapsto> bp\<lparr>NextPCB := hd0 bs\<rparr>, p \<mapsto> pr\<lparr>NextPCB := 0\<rparr>)"
  have m: "p \<in> set (L q)" "b \<in> set (L q)" and dist: "distinct (as @ b # p # bs)"
    using L lists_distinct [OF ok v] by simp_all
  have l: "links_only P ?P'" using b p dist by (intro links_only_unlink) auto
  have bm: "member_ok q bp" using lists_member [OF ok v m(2)] b by simp
  show "lists_ok ?P' RQ' B T (L(q := as @ b # bs))"
  proof (rule lists_ok_change [OF ok v hd others])
    have "chain (nextp P) (qhead RQ B T q) (as @ b # p # bs)" using lists_chain [OF ok v] by (simp add: L)
    then show "chain (nextp ?P') (qhead RQ' B T q) (as @ b # bs)"
      unfolding hd [OF v] by (rule chain_remove) (rule b, rule p)
    show "?P' x = P x" if "valid_q r" "r \<noteq> q" "x \<in> set (L r)" for x r
      using lists_apart [OF ok v m(1) that(1)] lists_apart [OF ok v m(2) that(1)] that by auto
    show "\<exists>y. ?P' x = Some y \<and> member_ok q y" if "x \<in> set (as @ b # bs)" for x
    proof -
      have "x \<in> set (L q)" "x \<noteq> p" using that dist by (auto simp: L)
      moreover have "member_ok q (bp\<lparr>NextPCB := hd0 bs\<rparr>)" using bm by (cases q) simp_all
      ultimately show ?thesis using lists_member [OF ok v] by simp
    qed
    show "x \<notin> set (L r)" if "x \<in> set (as @ b # bs)" "valid_q r" "r \<noteq> q" for x r
      using lists_apart [OF ok v] that by (auto simp: L)
    show "Last (RQ' j) = List.last (as @ b # bs)" if "q = ReadyQ j" for j
    proof -
      have "Last (RQ j) = List.last (p # bs)" using lists_last [OF ok, of j] v that L by simp
      moreover have "List.last (p # bs) = p \<longleftrightarrow> bs = []" using dist by auto
      ultimately show ?thesis using last [of j] that by auto
    qed
    show "by_wake ?P' (as @ b # bs)" if "q = TimerQ"
      using ok that L unfolding by_wake_links [OF l] by (auto simp: lists_ok_def intro: by_wake_drop)
  qed
qed

lemma KepDequeueProcess_lists:
  assumes ok: "sched_lists s L" and p: "procs s p = Some pr"
    and i: "unat (Priority pr) = i" "i < PROCESS_PRIORITY_LEVELS" and m: "p \<in> set (L (ReadyQ i))"
  shows "returns (KepDequeueProcess p) s (\<lambda>_ t.
     sched_lists t (L(ReadyQ i := remove1 p (L (ReadyQ i))))
   \<and> sched_frame s t \<and> KeCurrentProcess t = KeCurrentProcess s
   \<and> procs t p = Some (pr\<lparr>NextPCB := 0\<rparr>) \<and> links_only (procs s) (procs t)
   \<and> untouched L p (procs s) (procs t))"
proof -
  let ?P = "procs s" and ?RQ = "KepReadyQueues s" and ?q = "ReadyQ i"
  have ok': "lists_ok ?P ?RQ (KepBlockedList s) (KepTimerList s) L" using ok by (simp add: sched_lists_def)
  have v: "valid_q ?q" using i by simp
  note ch = lists_chain [OF ok' v]
  have pnz: "p \<noteq> 0" using lists_nonnull [OF ok' v m] .
  show ?thesis
  proof (cases "First (?RQ i) = p")
    case True
    then obtain ys where L: "L ?q = p # ys" using ch m by (cases "L ?q") auto
    have "lists_ok (?P(p \<mapsto> pr\<lparr>NextPCB := 0\<rparr>)) (?RQ(i := (?RQ i)\<lparr>First := NextPCB pr\<rparr>)) (KepBlockedList s)
        (KepTimerList s) (L(?q := ys))"
      by (rule lists_ok_pop [OF ok' v L p]) auto
    moreover have "links_only ?P (?P(p \<mapsto> pr\<lparr>NextPCB := 0\<rparr>))" by (rule links_only_upd1 [where p = pr]) (use p in simp_all)
    ultimately show ?thesis
      using p i pnz True by (simp add: KepDequeueProcess_def kern sched_lists_def sched_frame_def
          priority_less links_core L)
  next
    case False
    then obtain x xs where x: "L ?q = x # xs" "x \<noteq> p" using ch m by (cases "L ?q") auto
    obtain as b bs where L: "L ?q = as @ b # p # bs" by (rule split_not_first [OF m x])
    have bm: "b \<in> set (L ?q)" by (simp add: L)
    obtain bp where b: "?P b = Some bp" using lists_member [OF ok' v bm] by auto
    have ch': "chain (nextp ?P) (First (?RQ i)) (as @ b # p # bs)" using ch by (simp add: L)
    have rm: "remove1 p (L ?q) = as @ b # bs" using lists_distinct [OF ok' v] unfolding L by (rule remove1_split)
    have lists: "lists_ok (?P(b \<mapsto> bp\<lparr>NextPCB := hd0 bs\<rparr>, p \<mapsto> pr\<lparr>NextPCB := 0\<rparr>))
        (if Last (?RQ i) = p then ?RQ(i := (?RQ i)\<lparr>Last := b\<rparr>) else ?RQ) (KepBlockedList s) (KepTimerList s) (L(?q := as @ b # bs))"
      by (rule lists_ok_unlink [OF ok' v L b p]) auto
    have "b \<noteq> p" using lists_distinct [OF ok' v] by (auto simp: L)
    note links = links_only_unlink [OF b p this, of "hd0 bs" 0]
    show ?thesis
      using p i pnz False
      apply (simp add: KepDequeueProcess_def kern priority_less)
      apply (rule returns_mono [OF dequeue_loop_found [OF ch' b p]])
       apply (use i in simp)
      apply (clarsimp simp: kern rm)
      apply (use lists links untouched_upd2 [OF not_fresh [where L = L, OF v bm]] in
          \<open>auto simp: sched_lists_def sched_frame_def links_core Let_def\<close>)
      done
  qed
qed

text \<open>
  A process that is not in its ready queue: a bug check when other processes are, an
  access through NULL when the queue is empty.
\<close>

lemma KepDequeueProcess_missing:
  assumes ok: "sched_lists s L" and p: "p \<noteq> 0" "procs s p = Some pr"
    and i: "unat (Priority pr) = i" "i < PROCESS_PRIORITY_LEVELS" and m: "p \<notin> set (L (ReadyQ i))"
  shows "halts (KepDequeueProcess p) s (if L (ReadyQ i) = [] then Fault
           else BugCheck ''KepDequeueProcess: process is not in the priority queue'')"
proof -
  have ok': "lists_ok (procs s) (KepReadyQueues s) (KepBlockedList s) (KepTimerList s) L"
    using ok by (simp add: sched_lists_def)
  have ch: "chain (nextp (procs s)) (First (KepReadyQueues s i)) (L (ReadyQ i))"
    using lists_chain [OF ok', of "ReadyQ i"] i by simp
  have rq: "getRQ (uint (Priority pr)) s = Some (Return (KepReadyQueues s i) s)"
    using i by (simp add: getRQ_def run)
  have as: "kassert ''scheduler.c'' 99 (Priority pr < of_nat PROCESS_PRIORITY_LEVELS) s
      = Some (Return () s)"
    using i by (simp add: kassert_run priority_less)
  show ?thesis
  proof (cases "L (ReadyQ i)")
    case Nil
    then have F: "First (KepReadyQueues s i) = 0" using ch by simp
    have "kloop (dequeue_step p) 0 s = Some (Halt Fault)"
      by (subst kloop.simps) (simp add: dequeue_step_def run)
    then show ?thesis
      using p Nil F rq as by (simp add: halts_def KepDequeueProcess_def run)
  next
    case (Cons x xs)
    then have F: "First (KepReadyQueues s i) = x" "x \<noteq> p" "p \<notin> set xs" using ch m by auto
    have "kloop (dequeue_step p) x s = Some (Return False s)"
      unfolding returns_exact
      by (rule returns_mono [OF dequeue_loop_missing]) (use ch Cons F in auto)
    then show ?thesis
      using p Cons F rq as by (simp add: halts_def KepDequeueProcess_def run)
  qed
qed

section \<open>Choosing the next process\<close>

text \<open>The highest non-empty ready queue below \<open>n\<close>, but not below \<open>b\<close>.\<close>

fun pick :: "(qid \<Rightarrow> addr list) \<Rightarrow> nat \<Rightarrow> nat \<Rightarrow> nat option" where
  "pick L b 0 = None"
| "pick L b (Suc i) = (if i < b then None else if L (ReadyQ i) \<noteq> [] then Some i else pick L b i)"

lemma pick_Some:
  "pick L b n = Some i \<Longrightarrow> b \<le> i \<and> i < n \<and> L (ReadyQ i) \<noteq> [] \<and> (\<forall>j. i < j \<and> j < n \<longrightarrow> L (ReadyQ j) = [])"
  by (induction n) (auto split: if_splits simp: less_Suc_eq)

lemma pick_None: "pick L b n = None \<Longrightarrow> b \<le> i \<Longrightarrow> i < n \<Longrightarrow> L (ReadyQ i) = []"
  by (induction n) (auto split: if_splits simp: less_Suc_eq)

lemma reschedule_scan:
  assumes ok: "sched_lists s L" and n: "n \<le> PROCESS_PRIORITY_LEVELS"
  shows "returns (kloop (reschedule_step (int b)) (int n - 1)) s Q \<longleftrightarrow>
     (case pick L b n of None \<Rightarrow> Q () s | Some i \<Rightarrow> returns (switch_to (int i)) s Q)"
  using n
proof (induction n)
  case 0
  then show ?case by (subst returns_kloop) (simp add: reschedule_step_def kern)
next
  case (Suc i)
  have ok': "lists_ok (procs s) (KepReadyQueues s) (KepBlockedList s) (KepTimerList s) L"
    using ok by (simp add: sched_lists_def)
  have i: "i < PROCESS_PRIORITY_LEVELS" using Suc.prems by simp
  have F: "First (KepReadyQueues s i) = 0 \<longleftrightarrow> L (ReadyQ i) = []"
    using lists_chain [OF ok', of "ReadyQ i"] i by (cases "L (ReadyQ i)") auto
  show ?case
  proof (cases "\<not> i < b \<and> L (ReadyQ i) = []")
    case True
    then have "reschedule_step (int b) (int (Suc i) - 1) s = Some (Return (Inl (int i - 1)) s)"
      using F i by (simp add: reschedule_step_def getRQ_def run)
    then show ?thesis using True Suc by (simp add: returns_kloop_next)
  next
    case False
    then show ?thesis
      using F i by (subst returns_kloop) (auto simp: reschedule_step_def kern)
  qed
qed

definition current_ok :: "kstate \<Rightarrow> bool" where
  "current_ok s \<longleftrightarrow> KeCurrentProcess s \<noteq> 0 \<and> (\<exists>c. procs s (KeCurrentProcess s) = Some c
     \<and> State c = running \<and> NextPCB c = 0 \<and> unat (Priority c) < PROCESS_PRIORITY_LEVELS)"

text \<open>The current process has time left; \<^verbatim>\<open>KeHandleTimer\<close> asserts it.\<close>

definition quantum_ok :: "kstate \<Rightarrow> bool" where
  "quantum_ok s \<longleftrightarrow> (\<exists>c. procs s (KeCurrentProcess s) = Some c \<and> Quantum c > 0)"

text \<open>The scheduler's invariant between two kernel entries.\<close>

definition sched_inv :: "kstate \<Rightarrow> (qid \<Rightarrow> addr list) \<Rightarrow> bool" where
  "sched_inv s L \<longleftrightarrow> sched_lists s L \<and> current_ok s"

text \<open>What a rescheduling does to the lists; \<open>None\<close> when nothing is left to run.\<close>

definition abs_reschedule ::
  "(qid \<Rightarrow> addr list) \<Rightarrow> addr \<Rightarrow> nat \<Rightarrow> bool \<Rightarrow> (addr \<times> (qid \<Rightarrow> addr list)) option" where
  "abs_reschedule L cur prio isblocked =
     (case pick L (if isblocked then 0 else prio) PROCESS_PRIORITY_LEVELS of
        None \<Rightarrow> if isblocked then None else Some (cur, L)
      | Some i \<Rightarrow>
          let L1 = (if isblocked then L else L(ReadyQ prio := L (ReadyQ prio) @ [cur])) in
          Some (hd (L1 (ReadyQ i)), L1(ReadyQ i := tl (L1 (ReadyQ i)))))"

lemma fresh_state:
  assumes "sched_lists s L" and "procs s p = Some pr" and "State pr \<noteq> ready" and "State pr \<noteq> blocked"
  shows "fresh L p"
  unfolding fresh_def
proof (intro allI impI notI)
  fix q
  assume "valid_q q" "p \<in> set (L q)"
  then have "member_ok q pr"
    using lists_member assms(1,2) unfolding sched_lists_def by fastforce
  then show False using assms(3,4) by (cases q) auto
qed

lemma sched_lists_upd_fresh:
  assumes ok: "sched_lists s L" and fresh: "fresh L p"
  shows "sched_lists (s\<lparr>procs := (procs s)(p \<mapsto> x)\<rparr>) L"
proof -
  have ok': "lists_ok (procs s) (KepReadyQueues s) (KepBlockedList s) (KepTimerList s) L"
    using ok by (simp add: sched_lists_def)
  have "lists_ok ((procs s)(p \<mapsto> x)) (KepReadyQueues s) (KepBlockedList s) (KepTimerList s)
      (L(BlockedQ := L BlockedQ))"
  proof (rule lists_ok_change [OF ok'])
    have "p \<notin> set (L BlockedQ)" using fresh by (simp add: fresh_def)
    then show "chain (nextp ((procs s)(p \<mapsto> x)))
        (qhead (KepReadyQueues s) (KepBlockedList s) (KepTimerList s) BlockedQ) (L BlockedQ)"
      using lists_chain [OF ok', of BlockedQ] by (simp add: seg_upd_other)
  next
    fix x' assume x': "x' \<in> set (L BlockedQ)"
    moreover have "x' \<noteq> p" using fresh x' by (auto simp: fresh_def)
    ultimately show "\<exists>y. ((procs s)(p \<mapsto> x)) x' = Some y \<and> member_ok BlockedQ y"
      using lists_member [OF ok', of BlockedQ x'] by simp
  next
    fix x' r assume "x' \<in> set (L BlockedQ)" "valid_q r" "r \<noteq> BlockedQ"
    then show "x' \<notin> set (L r)" using lists_apart [OF ok', of BlockedQ x' r] by auto
  qed (use fresh in \<open>auto simp: fresh_def\<close>)
  then show ?thesis by (simp add: sched_lists_def)
qed

lemma sched_lists_current [simp]:
  "sched_lists (s\<lparr>KeCurrentProcess := c\<rparr>) L = sched_lists s L"
  "sched_lists (s\<lparr>KepTickCount := t\<rparr>) L = sched_lists s L"
  by (simp_all add: sched_lists_def)

end
