(* ===== verification/SchedList.thy ===== *)
theory SchedList
  imports SchedOps
begin

text \<open>
  The two unordered lists of the scheduler: removal from the timer list and the list of
  blocked processes, blocking, resuming and stopping.
\<close>

section \<open>Removal\<close>

fun head_qid :: "LIST_HEAD \<Rightarrow> qid" where
  "head_qid KepTimerListHead = TimerQ"
| "head_qid KepBlockedListHead = BlockedQ"

lemma head_qid_valid [simp]: "valid_q (head_qid lh)"
  by (cases lh) simp_all

lemma head_qid_not_ready [simp]: "head_qid lh \<noteq> ReadyQ i" "ReadyQ i \<noteq> head_qid lh"
  by (cases lh; simp)+

lemma returns_getHead [kern]:
  "returns (getHead lh) s Q \<longleftrightarrow>
     Q (qhead (KepReadyQueues s) (KepBlockedList s) (KepTimerList s) (head_qid lh)) s"
  by (cases lh) (simp_all add: getHead_def kern)

lemma returns_setHead [kern]:
  "returns (setHead lh p) s Q \<longleftrightarrow>
     Q () (case lh of KepTimerListHead \<Rightarrow> s\<lparr>KepTimerList := p\<rparr>
                    | KepBlockedListHead \<Rightarrow> s\<lparr>KepBlockedList := p\<rparr>)"
  by (cases lh) (simp_all add: setHead_def kern)

lemma returns_remove_step:
  "returns (remove_step p a) s Q \<longleftrightarrow> a \<noteq> 0 \<and> (\<exists>c. procs s a = Some c \<and>
     (if NextPCB c = 0 then Q (Inr False) s
      else if NextPCB c = p then
        returns (kbind (getP p) (\<lambda>pr.
          kthen (setP a (\<lambda>c. c\<lparr>NextPCB := NextPCB pr\<rparr>))
          (kthen (setP p (\<lambda>p. p\<lparr>NextPCB := 0\<rparr>)) (kreturn (Inr True))))) s Q
      else Q (Inl (NextPCB c)) s))"
  by (auto simp: remove_step_def kern)

lemma remove_loop_found:
  assumes "chain (nextp (procs s)) a (as @ b # p # bs)"
    and "procs s b = Some bp" and "procs s p = Some pr"
  shows "returns (kloop (remove_step p) a) s (\<lambda>r t. r \<and>
     t = s\<lparr>procs := (procs s)(b \<mapsto> bp\<lparr>NextPCB := hd0 bs\<rparr>, p \<mapsto> pr\<lparr>NextPCB := 0\<rparr>)\<rparr>)"
  using assms(1)
proof (induction as arbitrary: a)
  case Nil
  have "nextp (procs s) p = Some (hd0 bs)"
    using chain_split_at [where xs = "[b]"] Nil by simp
  moreover have "b \<noteq> p" using chain_distinct [OF Nil] by simp
  ultimately show ?case
    using Nil assms(2,3) by (subst returns_kloop) (auto simp: returns_remove_step kern nextp_def)
next
  case (Cons x as)
  let ?y = "hd0 (as @ [b])"
  have y: "nextp (procs s) x = Some ?y" "chain (nextp (procs s)) ?y (as @ b # p # bs)"
    using chain_split_at [where xs = "[]" and a = x and ys = "as @ b # p # bs"] Cons.prems
    by (cases as; simp)+
  then obtain xp where xp: "procs s x = Some xp" "NextPCB xp = ?y" by (auto simp: nextp_Some)
  have "x = a" "a \<noteq> 0" using Cons.prems by simp_all
  moreover have "?y \<noteq> 0" using seg_nonnull [OF y(2)] by (cases as) auto
  moreover have "?y \<noteq> p" using chain_distinct [OF y(2)] by (cases as) auto
  ultimately have "remove_step p a s = Some (Return (Inl ?y) s)"
    using xp by (simp add: remove_step_def run)
  then show ?case using Cons.IH [OF y(2)] by (simp only: returns_kloop_next)
qed

lemma remove_loop_missing:
  assumes "chain (nextp (procs s)) a (x # xs)" and "p \<notin> set xs"
  shows "returns (kloop (remove_step p) a) s (\<lambda>r t. \<not> r \<and> t = s)"
  using assms
proof (induction xs arbitrary: a x)
  case Nil
  then show ?case by (subst returns_kloop) (auto simp: returns_remove_step nextp_def)
next
  case (Cons y ys)
  then have "nextp (procs s) x = Some y" "chain (nextp (procs s)) y (y # ys)" "y \<noteq> 0" "a = x" "x \<noteq> 0"
    by auto
  then show ?case
    using Cons.IH [of y y] Cons.prems(2)
    by (subst returns_kloop) (auto simp: returns_remove_step nextp_Some)
qed

lemma KepRemoveFromProcessList_missing:
  assumes ok: "sched_lists s L" and m: "p \<notin> set (L (head_qid lh))" and p: "p \<noteq> 0"
  shows "returns (KepRemoveFromProcessList lh p) s (\<lambda>r t. \<not> r \<and> t = s)"
proof -
  let ?h = "qhead (KepReadyQueues s) (KepBlockedList s) (KepTimerList s) (head_qid lh)"
  have ch: "chain (nextp (procs s)) ?h (L (head_qid lh))"
    by (rule lists_chain [OF sched_listsD [OF ok]]) simp
  show ?thesis
  proof (cases "L (head_qid lh)")
    case Nil
    then show ?thesis using ch by (simp add: KepRemoveFromProcessList_def kern)
  next
    case (Cons x xs)
    then have "?h = x" "x \<noteq> 0" "x \<noteq> p" "p \<notin> set xs" using ch m by auto
    then show ?thesis
      using remove_loop_missing [of s x x xs p] ch Cons
      by (simp add: KepRemoveFromProcessList_def kern)
  qed
qed

lemma KepRemoveFromProcessList_lists:
  assumes ok: "sched_lists s L" and p: "procs s p = Some pr" and m: "p \<in> set (L (head_qid lh))"
  shows "returns (KepRemoveFromProcessList lh p) s (\<lambda>r t. r \<and>
     sched_lists t (L(head_qid lh := remove1 p (L (head_qid lh))))
   \<and> sched_frame s t \<and> KeCurrentProcess t = KeCurrentProcess s
   \<and> procs t p = Some (pr\<lparr>NextPCB := 0\<rparr>) \<and> links_only (procs s) (procs t)
   \<and> untouched L p (procs s) (procs t))"
proof -
  let ?P = "procs s" and ?RQ = "KepReadyQueues s" and ?q = "head_qid lh"
  let ?B = "KepBlockedList s" and ?T = "KepTimerList s"
  note ok' = sched_listsD [OF ok]
  have v: "valid_q ?q" by simp
  note ch = lists_chain [OF ok' v]
  have pnz: "p \<noteq> 0" using lists_nonnull [OF ok' v m] .
  let ?h = "qhead ?RQ ?B ?T ?q"
  show ?thesis
  proof (cases "?h = p")
    case True
    then obtain ys where L: "L ?q = p # ys" using ch m by (cases "L ?q") auto
    have links: "links_only ?P (?P(p \<mapsto> pr\<lparr>NextPCB := 0\<rparr>))" by (rule links_only_upd1 [where p = pr]) (use p in simp_all)
    have "lists_ok (?P(p \<mapsto> pr\<lparr>NextPCB := 0\<rparr>)) ?RQ (if lh = KepBlockedListHead then NextPCB pr else ?B)
        (if lh = KepTimerListHead then NextPCB pr else ?T) (L(?q := ys))"
    proof (rule lists_ok_pop [OF ok' v L p])
      fix r assume "valid_q r" "r \<noteq> ?q"
      then show "qhead ?RQ (if lh = KepBlockedListHead then NextPCB pr else ?B)
          (if lh = KepTimerListHead then NextPCB pr else ?T) r = qhead ?RQ ?B ?T r"
        by (cases r; cases lh) auto
    qed (cases lh; simp)+
    moreover have "remove1 p (L ?q) = ys" by (simp add: L)
    ultimately show ?thesis
      using p pnz True links by (cases lh) (simp_all add: KepRemoveFromProcessList_def kern
          sched_lists_def sched_frame_def links_core)
  next
    case False
    then obtain x xs where x: "L ?q = x # xs" "x \<noteq> p" using ch m by (cases "L ?q") auto
    obtain as b bs where L: "L ?q = as @ b # p # bs" by (rule split_not_first [OF m x])
    have bm: "b \<in> set (L ?q)" by (simp add: L)
    obtain bp where b: "?P b = Some bp" using lists_member [OF ok' v bm] by auto
    have ch': "chain (nextp ?P) ?h (as @ b # p # bs)" using ch by (simp add: L)
    have rm: "remove1 p (L ?q) = as @ b # bs" using lists_distinct [OF ok' v] unfolding L by (rule remove1_split)
    have lists: "lists_ok (?P(b \<mapsto> bp\<lparr>NextPCB := hd0 bs\<rparr>, p \<mapsto> pr\<lparr>NextPCB := 0\<rparr>)) ?RQ ?B ?T (L(?q := as @ b # bs))"
      by (rule lists_ok_unlink [OF ok' v L b p]) (cases lh; simp)+
    have "b \<noteq> p" using lists_distinct [OF ok' v] by (auto simp: L)
    note links = links_only_unlink [OF b p this, of "hd0 bs" 0]
    have h: "?h \<noteq> 0" using ch x(1) by simp
    have "returns (kloop (remove_step p) ?h) s (\<lambda>r t. r \<and>
     sched_lists t (L(head_qid lh := remove1 p (L (head_qid lh))))
   \<and> sched_frame s t \<and> KeCurrentProcess t = KeCurrentProcess s
   \<and> procs t p = Some (pr\<lparr>NextPCB := 0\<rparr>) \<and> links_only (procs s) (procs t)
   \<and> untouched L p (procs s) (procs t))"
      by (rule returns_mono [OF remove_loop_found [OF ch' b p]])
         (use lists links untouched_upd2 [OF not_fresh [where L = L, OF v bm]] in
             \<open>auto simp: rm sched_lists_def sched_frame_def links_core\<close>)
    then show ?thesis using False h by (simp add: KepRemoveFromProcessList_def kern)
  qed
qed

end
