(* ===== verification/SchedBlock.thy ===== *)
theory SchedBlock
  imports SchedList
begin

text \<open>
  Blocking, resuming and sleeping as operations on the abstract lists, and the timer tick.
\<close>

section \<open>What these operations leave alone\<close>

text \<open>
  \<open>outer\<close> is a PCB without the five fields the scheduler writes.  \<open>ke_frame\<close>: nothing
  changed but these fields, the scheduler's variables, the tick count with the CPU time,
  and the links of the queue of processes waiting for a message.
\<close>

definition outer :: "PROCESS \<Rightarrow> PROCESS" where
  "outer p = p\<lparr>NextPCB := 0, State := created, Quantum := 0,
      ResumeMethod := NoResumeMethod, WakeUpTime := 0, CPUTime := 0\<rparr>"

definition outer_only :: "(addr \<Rightarrow> PROCESS option) \<Rightarrow> (addr \<Rightarrow> PROCESS option) \<Rightarrow> bool" where
  "outer_only P P' \<longleftrightarrow> (\<forall>x. map_option outer (P' x) = map_option outer (P x))"

definition ke_frame :: "kstate \<Rightarrow> kstate \<Rightarrow> bool" where
  "ke_frame s t \<longleftrightarrow> outer_only (procs s) (procs t) \<and> nodes_same (mnodes s) (mnodes t)
     \<and> t = s\<lparr>procs := procs t, KepReadyQueues := KepReadyQueues t,
             KepBlockedList := KepBlockedList t, KepTimerList := KepTimerList t,
             KeCurrentProcess := KeCurrentProcess t, KepTickCount := KepTickCount t,
             mnodes := mnodes t, processQueue := processQueue t\<rparr>"

lemma outer_updates [simp]:
  "outer (p\<lparr>NextPCB := q\<rparr>) = outer p" "outer (p\<lparr>State := st\<rparr>) = outer p"
  "outer (p\<lparr>Quantum := n\<rparr>) = outer p" "outer (p\<lparr>ResumeMethod := m\<rparr>) = outer p"
  "outer (p\<lparr>WakeUpTime := n\<rparr>) = outer p" "outer (p\<lparr>CPUTime := n\<rparr>) = outer p"
  "outer (core p) = outer p"
  by (simp_all add: outer_def core_def)

lemma outer_only_refl [simp]: "outer_only P P"
  by (simp add: outer_only_def)

lemma outer_only_trans: "outer_only P Q \<Longrightarrow> outer_only Q R \<Longrightarrow> outer_only P R"
  by (simp add: outer_only_def)

lemma outer_only_upd:
  "outer_only P Q \<Longrightarrow> Q a = Some p \<Longrightarrow> outer p' = outer p \<Longrightarrow> outer_only P (Q(a \<mapsto> p'))"
  by (simp add: outer_only_def) (metis option.map(2))

lemmas outer_only_upd1 = outer_only_upd [OF outer_only_refl]

lemma core_outer: "core_only P Q \<Longrightarrow> outer_only P Q"
  unfolding core_only_def outer_only_def
proof (intro allI)
  fix x
  assume "\<forall>x. map_option core (Q x) = map_option core (P x)"
  then have "map_option outer (map_option core (Q x)) = map_option outer (map_option core (P x))"
    by simp
  then show "map_option outer (Q x) = map_option outer (P x)"
    by (simp add: option.map_comp comp_def)
qed

lemma ke_frame_refl [simp]: "ke_frame s s"
  by (simp add: ke_frame_def)

lemma ke_frame_trans:
  assumes "ke_frame s t" and "ke_frame t u"
  shows "ke_frame s u"
proof -
  let ?f = "\<lambda>s t. s\<lparr>procs := procs t, KepReadyQueues := KepReadyQueues t,
             KepBlockedList := KepBlockedList t, KepTimerList := KepTimerList t,
             KeCurrentProcess := KeCurrentProcess t, KepTickCount := KepTickCount t,
             mnodes := mnodes t, processQueue := processQueue t\<rparr>"
  have "t = ?f s t" "u = ?f t u" using assms by (simp_all only: ke_frame_def)
  then have "u = ?f (?f s t) u" by simp
  then have "u = ?f s u" by simp
  moreover have "outer_only (procs s) (procs u)" "nodes_same (mnodes s) (mnodes u)"
    using assms by (auto simp: ke_frame_def intro: outer_only_trans nodes_same_trans)
  ultimately show ?thesis by (simp add: ke_frame_def)
qed

lemma sched_frame_rest:
  assumes "sched_frame s t"
  shows sched_frame_mnodes: "mnodes t = mnodes s" and sched_frame_queue: "processQueue t = processQueue s"
    and sched_frame_tick: "KepTickCount t = KepTickCount s"
    and sched_frame_free: "freeMemPointer t = freeMemPointer s"
    and sched_frame_headers: "headers t = headers s"
proof -
  have t: "t = s\<lparr>procs := procs t, KepReadyQueues := KepReadyQueues t,
             KepBlockedList := KepBlockedList t, KepTimerList := KepTimerList t,
             KeCurrentProcess := KeCurrentProcess t\<rparr>"
    using assms by (simp only: sched_frame_def)
  show "mnodes t = mnodes s" "processQueue t = processQueue s" "KepTickCount t = KepTickCount s"
    "freeMemPointer t = freeMemPointer s" "headers t = headers s"
    by (subst t, simp)+
qed

lemma sched_ke_frame:
  assumes "sched_frame s t"
  shows "ke_frame s t"
proof -
  have t: "t = s\<lparr>procs := procs t, KepReadyQueues := KepReadyQueues t,
             KepBlockedList := KepBlockedList t, KepTimerList := KepTimerList t,
             KeCurrentProcess := KeCurrentProcess t\<rparr>" "core_only (procs s) (procs t)"
    using assms by (simp_all only: sched_frame_def)
  show ?thesis unfolding ke_frame_def
    using t core_outer [OF t(2)] sched_frame_rest [OF assms] by simp
qed

lemma ke_frame_rest:
  assumes "ke_frame s t"
  shows ke_frame_free: "freeMemPointer t = freeMemPointer s" and ke_frame_headers: "headers t = headers s"
    and ke_frame_otypes: "otypes t = otypes s" and ke_frame_waitents: "waitents t = waitents s"
    and ke_frame_outer: "outer_only (procs s) (procs t)" and ke_frame_nodes: "nodes_same (mnodes s) (mnodes t)"
proof -
  have t: "t = s\<lparr>procs := procs t, KepReadyQueues := KepReadyQueues t,
             KepBlockedList := KepBlockedList t, KepTimerList := KepTimerList t,
             KeCurrentProcess := KeCurrentProcess t, KepTickCount := KepTickCount t,
             mnodes := mnodes t, processQueue := processQueue t\<rparr>"
    using assms by (simp only: ke_frame_def)
  show "freeMemPointer t = freeMemPointer s" "headers t = headers s" "otypes t = otypes s"
    "waitents t = waitents s" by (subst t, simp)+
  show "outer_only (procs s) (procs t)" "nodes_same (mnodes s) (mnodes t)"
    using assms by (simp_all add: ke_frame_def)
qed

lemma mq_ke_frame:
  assumes "mq_frame s t"
  shows "ke_frame s t"
proof -
  note t = mq_frame_eq [OF assms] and f = mq_frameD [OF assms]
  show ?thesis unfolding ke_frame_def using t f mq_frame_nodes [OF assms] by simp
qed

section \<open>Blocking\<close>

lemma pick_cong: "(\<And>i. L (ReadyQ i) = L' (ReadyQ i)) \<Longrightarrow> pick L b n = pick L' b n"
  by (induction n) auto

lemma abs_reschedule_None:
  "abs_reschedule L cur prio b = None \<longleftrightarrow> b \<and> (\<forall>i < PROCESS_PRIORITY_LEVELS. L (ReadyQ i) = [])"
proof (cases "pick L (if b then 0 else prio) PROCESS_PRIORITY_LEVELS")
  case None
  then have "b \<Longrightarrow> i < PROCESS_PRIORITY_LEVELS \<Longrightarrow> L (ReadyQ i) = []" for i
    using pick_None [OF None, of i] by simp
  then show ?thesis using None by (auto simp: abs_reschedule_def)
next
  case (Some i)
  then show ?thesis using pick_Some [OF Some] by (auto simp: abs_reschedule_def Let_def)
qed

text \<open>
  The process that runs after a rescheduling has the highest priority of all processes
  that could run.
\<close>

lemma abs_reschedule_highest:
  assumes "abs_reschedule L cur prio b = Some (n, L')"
  shows "b \<and> (\<exists>i < PROCESS_PRIORITY_LEVELS. n = hd (L (ReadyQ i)) \<and> L (ReadyQ i) \<noteq> []
            \<and> (\<forall>j. i < j \<and> j < PROCESS_PRIORITY_LEVELS \<longrightarrow> L (ReadyQ j) = []))
    \<or> \<not> b \<and> n = cur \<and> L' = L \<and> (\<forall>j. prio \<le> j \<and> j < PROCESS_PRIORITY_LEVELS \<longrightarrow> L (ReadyQ j) = [])
    \<or> \<not> b \<and> (\<exists>i < PROCESS_PRIORITY_LEVELS. prio \<le> i \<and> n = hd (L (ReadyQ i)) \<and> L (ReadyQ i) \<noteq> []
            \<and> (\<forall>j. i < j \<and> j < PROCESS_PRIORITY_LEVELS \<longrightarrow> L (ReadyQ j) = []))"
proof (cases "pick L (if b then 0 else prio) PROCESS_PRIORITY_LEVELS")
  case None
  then show ?thesis
    using assms pick_None [OF None] by (auto simp: abs_reschedule_def split: if_splits)
next
  case (Some i)
  note p = pick_Some [OF Some]
  have "n = hd (L (ReadyQ i))"
    using assms Some p by (auto simp: abs_reschedule_def Let_def split: if_splits)
  then show ?thesis using p by auto
qed

lemma sched_lists_block:
  assumes ok: "sched_lists s L" and fresh: "fresh L p" and p: "p \<noteq> 0"
    and pr: "State pr = blocked" "unat (Priority pr) < PROCESS_PRIORITY_LEVELS"
      "NextPCB pr = KepBlockedList s"
  shows "sched_lists (s\<lparr>procs := (procs s)(p \<mapsto> pr), KepBlockedList := p\<rparr>)
           (L(BlockedQ := p # L BlockedQ))"
proof -
  note ok' = sched_listsD [OF ok]
  have notin: "p \<notin> set (L q)" if "valid_q q" for q using fresh that by (simp add: fresh_def)
  have v: "valid_q BlockedQ" by simp
  have "lists_ok ((procs s)(p \<mapsto> pr)) (KepReadyQueues s) p (KepTimerList s)
      (L(BlockedQ := p # L BlockedQ))"
  proof (rule lists_ok_change [OF ok' v])
    show "chain (nextp ((procs s)(p \<mapsto> pr))) (qhead (KepReadyQueues s) p (KepTimerList s) BlockedQ)
        (p # L BlockedQ)"
      using chain_push [OF lists_chain [OF ok' v] p notin [OF v]] pr(3) by simp
  next
    fix r assume "valid_q r" "r \<noteq> BlockedQ"
    then show "qhead (KepReadyQueues s) p (KepTimerList s) r
        = qhead (KepReadyQueues s) (KepBlockedList s) (KepTimerList s) r" by (cases r) auto
  next
    fix x assume "x \<in> set (p # L BlockedQ)"
    then show "\<exists>y. ((procs s)(p \<mapsto> pr)) x = Some y \<and> member_ok BlockedQ y"
      using lists_member [OF ok' v, of x] pr by auto
  next
    fix x r assume "x \<in> set (p # L BlockedQ)" "valid_q r" "r \<noteq> BlockedQ"
    then show "x \<notin> set (L r)" using notin lists_apart [OF ok' v] by auto
  qed (use notin in auto)
  then show ?thesis by (simp add: sched_lists_def)
qed

lemma current_fresh: "sched_inv s L \<Longrightarrow> fresh L (KeCurrentProcess s)"
  unfolding sched_inv_def current_ok_def by (auto intro: fresh_state)

lemma sched_invD:
  assumes "sched_inv s L"
  obtains c where "sched_lists s L" "KeCurrentProcess s \<noteq> 0" "procs s (KeCurrentProcess s) = Some c"
    "State c = running" "NextPCB c = 0" "unat (Priority c) < PROCESS_PRIORITY_LEVELS"
    "fresh L (KeCurrentProcess s)"
  using assms current_fresh [OF assms] by (auto simp: sched_inv_def current_ok_def)

definition abs_block :: "(qid \<Rightarrow> addr list) \<Rightarrow> addr \<Rightarrow> (addr \<times> (qid \<Rightarrow> addr list)) option" where
  "abs_block L cur = abs_reschedule (L(BlockedQ := cur # L BlockedQ)) cur 0 True"

lemma abs_reschedule_blocked_prio: "abs_reschedule L cur prio True = abs_reschedule L cur 0 True"
  by (simp add: abs_reschedule_def)

lemma KepReschedule_blocked:
  assumes ok: "sched_lists s L"
    and cur: "KeCurrentProcess s \<noteq> 0" "procs s (KeCurrentProcess s) = Some c"
      "unat (Priority c) < PROCESS_PRIORITY_LEVELS" "State c = blocked"
  shows "case abs_reschedule L (KeCurrentProcess s) 0 True of
      Some (n, L') \<Rightarrow> returns KepReschedule s (\<lambda>_ t. sched_inv t L' \<and> KeCurrentProcess t = n
        \<and> sched_frame s t \<and> (\<exists>p. procs t n = Some p \<and> Quantum p = 5))
    | None \<Rightarrow> halts KepReschedule s
        (BugCheck ''Critical system process terminated or blocked unexpectedly'')"
proof (cases "abs_reschedule L (KeCurrentProcess s) 0 True")
  case None
  then have e: "pick L 0 PROCESS_PRIORITY_LEVELS = None"
    by (auto simp: abs_reschedule_def split: option.splits)
  have loop: "kloop (reschedule_step 0) (int PROCESS_PRIORITY_LEVELS - 1) s = Some (Return () s)"
    using reschedule_scan [OF ok order_refl, of 0 "\<lambda>_ t. t = s"] e by (simp add: returns_exact)
  show ?thesis
    using None loop cur by (simp add: KepReschedule_def finish_reschedule_def halts_def run)
next
  case (Some y)
  then show ?thesis
    using KepReschedule_lists [OF ok cur(1-3), of "fst y" "snd y"] cur(4)
      abs_reschedule_blocked_prio [of L "KeCurrentProcess s" "unat (Priority c)"]
    by auto
qed

lemma KeBlockProcess_run:
  assumes inv: "sched_inv s L"
  shows "case abs_block L (KeCurrentProcess s) of
      Some (n, L') \<Rightarrow> returns KeBlockProcess s (\<lambda>_ t. sched_inv t L' \<and> KeCurrentProcess t = n
        \<and> (\<exists>p. procs t n = Some p \<and> Quantum p = 5)
        \<and> ke_frame s t \<and> mnodes t = mnodes s \<and> processQueue t = processQueue s)
    | None \<Rightarrow> halts KeBlockProcess s
        (BugCheck ''Critical system process terminated or blocked unexpectedly'')"
proof -
  obtain c where ok: "sched_lists s L"
    and cur: "KeCurrentProcess s \<noteq> 0" "procs s (KeCurrentProcess s) = Some c"
    and c: "State c = running" "NextPCB c = 0" "unat (Priority c) < PROCESS_PRIORITY_LEVELS"
    and fresh: "fresh L (KeCurrentProcess s)"
    by (rule sched_invD [OF inv])
  let ?cur = "KeCurrentProcess s"
  let ?c = "c\<lparr>State := blocked, ResumeMethod := NoResumeMethod, NextPCB := KepBlockedList s\<rparr>"
  let ?s = "s\<lparr>procs := (procs s)(?cur \<mapsto> ?c), KepBlockedList := ?cur\<rparr>"
  have ok1: "sched_lists ?s (L(BlockedQ := ?cur # L BlockedQ))"
    by (rule sched_lists_block [OF ok fresh cur(1)]) (use c in simp_all)
  have eq: "KeBlockProcess s = KepReschedule ?s"
    using cur by (simp add: KeBlockProcess_def run)
  have fr: "ke_frame s ?s"
    unfolding ke_frame_def using cur by (auto intro: outer_only_upd1)
  show ?thesis
  proof (cases "abs_block L ?cur")
    case None
    then show ?thesis
      using KepReschedule_blocked [OF ok1, of ?c] cur c by (simp add: abs_block_def halts_def eq)
  next
    case (Some y)
    obtain n L' where y: "y = (n, L')" by (cases y)
    have "returns KepReschedule ?s (\<lambda>_ t. sched_inv t L' \<and> KeCurrentProcess t = n
        \<and> sched_frame ?s t \<and> (\<exists>p. procs t n = Some p \<and> Quantum p = 5))"
      using KepReschedule_blocked [OF ok1, of ?c] cur c Some by (simp add: abs_block_def y)
    then have "returns KeBlockProcess s (\<lambda>_ t. sched_inv t L' \<and> KeCurrentProcess t = n
        \<and> sched_frame ?s t \<and> (\<exists>p. procs t n = Some p \<and> Quantum p = 5))"
      by (simp only: returns_def eq)
    then have "returns KeBlockProcess s (\<lambda>_ t. sched_inv t L' \<and> KeCurrentProcess t = n
        \<and> (\<exists>p. procs t n = Some p \<and> Quantum p = 5)
        \<and> ke_frame s t \<and> mnodes t = mnodes s \<and> processQueue t = processQueue s)"
      by (rule returns_mono)
         (auto intro: ke_frame_trans [OF fr] sched_ke_frame dest: sched_frame_mnodes sched_frame_queue)
    then show ?thesis using Some y by simp
  qed
qed

lemma KeBlockProcess_lists:
  assumes "sched_inv s L"
  shows "case abs_block L (KeCurrentProcess s) of
      Some (n, L') \<Rightarrow> returns KeBlockProcess s (\<lambda>_ t. sched_inv t L' \<and> KeCurrentProcess t = n
        \<and> quantum_ok t \<and> ke_frame s t \<and> mnodes t = mnodes s \<and> processQueue t = processQueue s)
    | None \<Rightarrow> halts KeBlockProcess s
        (BugCheck ''Critical system process terminated or blocked unexpectedly'')"
  using KeBlockProcess_run [OF assms]
  by (auto simp: quantum_ok_def split: option.splits elim!: returns_mono)

end
