(* ===== verification/SchedResume.thy ===== *)
theory SchedResume
  imports SchedBlock
begin

text \<open>
  Resuming a blocked process, sleeping for a time, waking the sleepers whose time has
  passed, and the timer tick.
\<close>

section \<open>Resuming\<close>

definition abs_unblock :: "addr \<Rightarrow> (qid \<Rightarrow> addr list) \<Rightarrow> (qid \<Rightarrow> addr list)" where
  "abs_unblock p L = L(TimerQ := remove1 p (L TimerQ), BlockedQ := remove1 p (L BlockedQ))"

definition abs_ready :: "addr \<Rightarrow> nat \<Rightarrow> (qid \<Rightarrow> addr list) \<Rightarrow> (qid \<Rightarrow> addr list)" where
  "abs_ready p i L = L(ReadyQ i := L (ReadyQ i) @ [p])"

definition abs_preempt :: "(qid \<Rightarrow> addr list) \<Rightarrow> addr \<Rightarrow> nat \<Rightarrow> addr \<times> (qid \<Rightarrow> addr list)" where
  "abs_preempt L cur cp = (case pick L cp PROCESS_PRIORITY_LEVELS of
       None \<Rightarrow> (cur, L)
     | Some i \<Rightarrow> let L1 = abs_ready cur cp L in
         (hd (L1 (ReadyQ i)), L1(ReadyQ i := tl (L1 (ReadyQ i)))))"

definition abs_resume ::
  "(qid \<Rightarrow> addr list) \<Rightarrow> addr \<Rightarrow> nat \<Rightarrow> addr \<Rightarrow> nat \<Rightarrow> addr \<times> (qid \<Rightarrow> addr list)" where
  "abs_resume L cur cp p pp =
     (let L1 = abs_ready p pp (abs_unblock p L) in if pp > cp then abs_preempt L1 cur cp else (cur, L1))"

lemma abs_reschedule_running:
  "abs_reschedule L cur cp False = Some (abs_preempt L cur cp)"
  by (simp add: abs_reschedule_def abs_preempt_def abs_ready_def Let_def split: option.split)

lemma fresh_remove:
  assumes ok: "sched_lists s L" and q: "valid_q q" "p \<in> set (L q)"
  shows "fresh (L(q := remove1 p (L q))) p"
  unfolding fresh_def
proof (intro allI impI)
  fix r
  assume r: "valid_q r"
  note ok' = sched_listsD [OF ok]
  have "distinct (L q)" using lists_distinct [OF ok' q(1)] .
  then show "p \<notin> set ((L(q := remove1 p (L q))) r)"
    using lists_apart [OF ok' q r] by auto
qed

lemma fresh_shrink: "fresh L x \<Longrightarrow> fresh (L(q := remove1 p (L q))) x"
  by (auto simp: fresh_def dest: notin_set_remove1)

lemma untouchedD: "untouched L p P P' \<Longrightarrow> fresh L x \<Longrightarrow> x \<noteq> p \<Longrightarrow> P' x = P x"
  by (simp add: untouched_def)

lemma remove_blocked_lists:
  assumes ok: "sched_lists s L" and p: "procs s p = Some pr"
    and m: "p \<in> set (L BlockedQ) \<union> set (L TimerQ)"
  shows "returns (remove_blocked msg p) s (\<lambda>_ t. sched_lists t (abs_unblock p L)
     \<and> fresh (abs_unblock p L) p \<and> sched_frame s t \<and> KeCurrentProcess t = KeCurrentProcess s
     \<and> procs t p = Some (pr\<lparr>NextPCB := 0\<rparr>) \<and> untouched L p (procs s) (procs t))"
proof -
  note ok' = sched_listsD [OF ok]
  have v: "valid_q BlockedQ" "valid_q TimerQ" by simp_all
  have pnz: "p \<noteq> 0" using m lists_nonnull [OF ok'] v by blast
  show ?thesis
  proof (cases "p \<in> set (L TimerQ)")
    case True
    then have "p \<notin> set (L BlockedQ)" using lists_apart [OF ok' v(2) True v(1)] by auto
    then have L: "abs_unblock p L = L(TimerQ := remove1 p (L TimerQ))"
      by (auto simp: abs_unblock_def remove1_idem)
    have h: "head_qid KepTimerListHead = TimerQ" by simp
    show ?thesis
      unfolding remove_blocked_def returns_kbind
      by (rule returns_mono [OF KepRemoveFromProcessList_lists [OF ok p, of KepTimerListHead]])
         (use True L fresh_remove [OF ok v(2) True] in \<open>simp_all add: returns_kreturn\<close>)
  next
    case False
    with m have mb: "p \<in> set (L BlockedQ)" by simp
    have L: "abs_unblock p L = L(BlockedQ := remove1 p (L BlockedQ))"
      using False by (auto simp: abs_unblock_def remove1_idem)
    have b: "returns (KepRemoveFromProcessList KepBlockedListHead p) s
      (\<lambda>r t. r \<and> sched_lists t (L(BlockedQ := remove1 p (L BlockedQ)))
         \<and> sched_frame s t \<and> KeCurrentProcess t = KeCurrentProcess s
         \<and> procs t p = Some (pr\<lparr>NextPCB := 0\<rparr>) \<and> links_only (procs s) (procs t)
         \<and> untouched L p (procs s) (procs t))"
      using KepRemoveFromProcessList_lists [OF ok p, of KepBlockedListHead] mb by simp
    show ?thesis
      unfolding remove_blocked_def returns_kbind
      apply (rule returns_mono [OF KepRemoveFromProcessList_missing [OF ok, of p KepTimerListHead]])
        apply (use False pnz in \<open>simp_all add: returns_kbind\<close>)
      apply (rule returns_mono [OF b])
      apply (use L fresh_remove [OF ok v(1) mb] in \<open>simp add: returns_kreturn\<close>)
      done
  qed
qed

lemma remove_blocked_missing:
  assumes ok: "sched_lists s L" and p: "p \<noteq> 0"
    and m: "p \<notin> set (L BlockedQ) \<union> set (L TimerQ)"
  shows "halts (remove_blocked msg p) s (BugCheck msg)"
proof -
  have e: "KepRemoveFromProcessList lh p s = Some (Return False s)" for lh
    unfolding returns_exact
    by (rule returns_mono [OF KepRemoveFromProcessList_missing [OF ok _ p, of lh]])
       (use m in \<open>cases lh; simp\<close>)+
  show ?thesis by (simp add: remove_blocked_def halts_def kprim_run
        kbind_run(1) [where m = "KepRemoveFromProcessList lh p" for lh, OF e])
qed

lemma sched_lists_mq: "mq_frame s t \<Longrightarrow> sched_lists t L = sched_lists s L"
  by (simp add: sched_lists_def mq_frameD)

lemma sched_frame_core: "sched_frame s t \<Longrightarrow> core_only (procs s) (procs t)"
  by (simp add: sched_frame_def)

lemma mq_inv_frame: "sched_frame s t \<Longrightarrow> mq_inv t = mq_inv s"
  by (simp add: mq_inv_def sched_frame_rest)

text \<open>A process in the blocked or the timer list.\<close>

definition sleeping :: "(qid \<Rightarrow> addr list) \<Rightarrow> addr \<Rightarrow> bool" where
  "sleeping L p \<longleftrightarrow> p \<in> set (L BlockedQ) \<or> p \<in> set (L TimerQ)"

lemma sleeping_member:
  assumes ok: "sched_lists s L" and m: "sleeping L p"
  obtains pr where "p \<noteq> 0" "procs s p = Some pr" "State pr = blocked"
    "unat (Priority pr) < PROCESS_PRIORITY_LEVELS"
proof -
  note ok' = sched_listsD [OF ok]
  show thesis
    using m lists_member [OF ok', of BlockedQ p] lists_member [OF ok', of TimerQ p]
      lists_nonnull [OF ok', of BlockedQ p] lists_nonnull [OF ok', of TimerQ p]
    by (auto simp: sleeping_def intro: that)
qed

text \<open>A resumed process of higher priority runs at once.\<close>

lemma preempt_if_higher:
  assumes u: "sched_lists u L" "KeCurrentProcess u \<noteq> 0" "procs u (KeCurrentProcess u) = Some c"
      "State c = running" "NextPCB c = 0" "unat (Priority c) < PROCESS_PRIORITY_LEVELS"
    and p: "p \<noteq> 0" "procs u p = Some q"
    and ab: "(if Priority q > Priority c then abs_reschedule L (KeCurrentProcess u) (unat (Priority c)) False
        else Some (KeCurrentProcess u, L)) = Some (n, L')"
  shows "returns (kbind (getP p) (\<lambda>q. kbind (kget KeCurrentProcess) (\<lambda>cur.
      kbind (getP cur) (\<lambda>c. kwhen (Priority q > Priority c) KepReschedule)))) u
      (\<lambda>_ t. sched_inv t L' \<and> KeCurrentProcess t = n \<and> sched_frame u t \<and> (quantum_ok u \<longrightarrow> quantum_ok t))"
proof (cases "Priority q > Priority c")
  case True
  then have "returns KepReschedule u (\<lambda>_ t. sched_inv t L' \<and> KeCurrentProcess t = n
      \<and> sched_frame u t \<and> (\<exists>p. procs t n = Some p \<and> Quantum p = 5))"
    using KepReschedule_lists [OF u(1), of c n L'] u ab by simp
  then show ?thesis
    using u p True
    by (simp add: returns_kbind returns_deref returns_kget returns_kwhen)
       (erule returns_mono, auto simp: quantum_ok_def)
next
  case False
  then show ?thesis using u p ab
    by (simp add: returns_kbind returns_deref returns_kget returns_kwhen sched_inv_def current_ok_def)
qed

lemma finish_resume_lists:
  assumes ok: "sched_lists s L" and p: "procs s p = Some pr" "sleeping L p"
    and cur: "KeCurrentProcess s \<noteq> 0" "procs s (KeCurrentProcess s) = Some c" "State c = running"
      "NextPCB c = 0" "unat (Priority c) < PROCESS_PRIORITY_LEVELS"
    and ab: "abs_resume L (KeCurrentProcess s) (unat (Priority c)) p (unat (Priority pr)) = (n, L')"
  shows "returns (finish_resume p) s (\<lambda>_ t. sched_inv t L' \<and> KeCurrentProcess t = n \<and> sched_frame s t
       \<and> (quantum_ok s \<longrightarrow> quantum_ok t))"
proof -
  let ?cur = "KeCurrentProcess s" and ?L1 = "abs_unblock p L" and ?i = "unat (Priority pr)"
  let ?L2 = "abs_ready p ?i ?L1"
  have m: "p \<in> set (L BlockedQ) \<union> set (L TimerQ)" using p(2) by (simp add: sleeping_def)
  have pnz: "p \<noteq> 0" and i: "?i < PROCESS_PRIORITY_LEVELS"
    and st: "State pr = blocked"
    using sleeping_member [OF ok p(2)] p(1) by auto
  have fc: "fresh L ?cur" by (rule fresh_state [OF ok cur(2)]) (use cur(3) in simp_all)
  then have fc1: "fresh ?L1 ?cur" unfolding abs_unblock_def
    by (auto simp: fresh_def dest: notin_set_remove1)
  have neq: "?cur \<noteq> p" using cur(2,3) p(1) st by auto
  have pre: "returns (kbind (getP p) (\<lambda>q. kbind (kget KeCurrentProcess) (\<lambda>cur.
      kbind (getP cur) (\<lambda>c. kwhen (Priority q > Priority c) KepReschedule)))) u
      (\<lambda>_ t. sched_inv t L' \<and> KeCurrentProcess t = n \<and> sched_frame s t
       \<and> (quantum_ok s \<longrightarrow> quantum_ok t))"
    if u: "sched_lists u ?L2" "sched_frame s u" "KeCurrentProcess u = ?cur" "procs u ?cur = Some c"
      "procs u p = Some (pr\<lparr>NextPCB := 0, State := ready\<rparr>)" for u
  proof -
    have "quantum_ok s \<longrightarrow> quantum_ok u" using u(3,4) cur(2) by (simp add: quantum_ok_def)
    then show ?thesis
      using u cur ab sched_frame_trans [OF u(2)]
      by (intro returns_mono [OF preempt_if_higher [OF u(1) _ _ _ _ _ pnz u(5), of c n L']])
         (auto simp: abs_resume_def abs_reschedule_running word_less_nat_alt split: if_splits)
  qed
  show ?thesis
    unfolding finish_resume_def returns_kthen
  proof (rule returns_mono [OF remove_blocked_lists [OF ok p(1) m]])
    fix a :: unit and t
    assume t: "sched_lists t ?L1 \<and> fresh ?L1 p \<and> sched_frame s t \<and> KeCurrentProcess t = ?cur
      \<and> procs t p = Some (pr\<lparr>NextPCB := 0\<rparr>) \<and> untouched L p (procs s) (procs t)"
    then have tc: "procs t ?cur = Some c"
      using untouchedD [of L p "procs s" "procs t" ?cur] fc neq cur by simp
    show "returns (KepEnqueueProcess p) t (\<lambda>_ t. returns (kbind (getP p) (\<lambda>q.
        kbind (kget KeCurrentProcess) (\<lambda>cur. kbind (getP cur) (\<lambda>c.
        kwhen (Priority q > Priority c) KepReschedule)))) t
        (\<lambda>_ t. sched_inv t L' \<and> KeCurrentProcess t = n \<and> sched_frame s t
       \<and> (quantum_ok s \<longrightarrow> quantum_ok t)))"
      apply (rule returns_mono [OF KepEnqueueProcess_lists [of t ?L1 p "pr\<lparr>NextPCB := 0\<rparr>"]])
           apply (use t pnz i in simp_all)
      apply (rule pre)
          apply (use t tc fc1 neq untouchedD [of ?L1 p "procs t" _ ?cur] sched_frame_trans [of s t] in
            \<open>auto simp: abs_ready_def\<close>)
      done
  qed
qed

theorem KeResumeProcess_lists:
  assumes inv: "sched_inv s L" and mq: "mq_inv s" and p: "procs s p = Some pr" "sleeping L p"
    and cur: "procs s (KeCurrentProcess s) = Some c"
    and ab: "abs_resume L (KeCurrentProcess s) (unat (Priority c)) p (unat (Priority pr)) = (n, L')"
  shows "returns (KeResumeProcess p) s (\<lambda>_ t. sched_inv t L' \<and> KeCurrentProcess t = n \<and> mq_inv t
     \<and> (quantum_ok s \<longrightarrow> quantum_ok t)
     \<and> ke_frame s t \<and> KepTickCount t = KepTickCount s \<and> core_only (procs s) (procs t))"
proof -
  have ok: "sched_lists s L" and c: "KeCurrentProcess s \<noteq> 0" "State c = running"
      "NextPCB c = 0" "unat (Priority c) < PROCESS_PRIORITY_LEVELS"
    using sched_invD [OF inv] cur by auto
  have pnz: "p \<noteq> 0" and st: "State pr = blocked" using sleeping_member [OF ok p(2)] p(1) by auto
  have fin: "returns (finish_resume p) t (\<lambda>_ u. sched_inv u L' \<and> KeCurrentProcess u = n \<and> mq_inv u
     \<and> (quantum_ok s \<longrightarrow> quantum_ok u)
     \<and> ke_frame s u \<and> KepTickCount u = KepTickCount s \<and> core_only (procs s) (procs u))" if t: "mq_frame s t" "mq_inv t" for t
  proof -
    note f = mq_frameD [OF t(1)]
    have "returns (finish_resume p) t
        (\<lambda>_ u. sched_inv u L' \<and> KeCurrentProcess u = n \<and> sched_frame t u
          \<and> (quantum_ok t \<longrightarrow> quantum_ok u))"
      by (rule finish_resume_lists [of t L p pr c])
         (use ok p cur c ab f sched_lists_mq [OF t(1)] in simp_all)
    then show ?thesis
    proof (rule returns_mono)
      fix a u
      assume u: "sched_inv u L' \<and> KeCurrentProcess u = n \<and> sched_frame t u
          \<and> (quantum_ok t \<longrightarrow> quantum_ok u)"
      then have fr: "sched_frame t u" by simp
      have "quantum_ok t = quantum_ok s" using f by (simp add: quantum_ok_def)
      then show "sched_inv u L' \<and> KeCurrentProcess u = n \<and> mq_inv u
          \<and> (quantum_ok s \<longrightarrow> quantum_ok u) \<and> ke_frame s u \<and> KepTickCount u = KepTickCount s
          \<and> core_only (procs s) (procs u)"
        using u t f mq_inv_frame [OF fr] sched_frame_tick [OF fr] sched_frame_core [OF fr]
          ke_frame_trans [OF mq_ke_frame [OF t(1)] sched_ke_frame [OF fr]] by simp
    qed
  qed
  show ?thesis
  proof (cases "ResumeMethod pr")
    case NoResumeMethod
    then show ?thesis using pnz st p fin [OF mq_frame_refl mq]
      by (simp add: KeResumeProcess_def kern)
  next
    case MessResumeMethod
    have "returns (ResumeMethod_mess p) s (\<lambda>_ t. returns (finish_resume p) t
        (\<lambda>_ u. sched_inv u L' \<and> KeCurrentProcess u = n \<and> mq_inv u
     \<and> (quantum_ok s \<longrightarrow> quantum_ok u)
         \<and> ke_frame s u \<and> KepTickCount u = KepTickCount s \<and> core_only (procs s) (procs u)))"
      by (rule returns_mono [OF ResumeMethod_mess_returns [OF mq pnz p(1)]]) (use fin in blast)
    then show ?thesis using pnz st p MessResumeMethod
      by (simp add: KeResumeProcess_def kern call_resume_method_def)
  qed
qed

end
