(* ===== verification/SchedTimer.thy ===== *)
theory SchedTimer
  imports SchedResume
begin

text \<open>
  Sleeping: the timer list stays sorted by wake-up time; the timer tick wakes exactly the
  processes whose time has passed, and ends.
\<close>

section \<open>Inserting into the sorted timer list\<close>

fun insert_after :: "(addr \<Rightarrow> u32) \<Rightarrow> u32 \<Rightarrow> addr \<Rightarrow> addr list \<Rightarrow> addr list" where
  "insert_after W w p [] = [p]"
| "insert_after W w p (y # ys) = (if W y < w then y # insert_after W w p ys else p # y # ys)"

fun abs_insert :: "(addr \<Rightarrow> u32) \<Rightarrow> u32 \<Rightarrow> addr \<Rightarrow> addr list \<Rightarrow> addr list" where
  "abs_insert W w p [] = [p]"
| "abs_insert W w p (h # ys) = (if W h > w then p # h # ys else h # insert_after W w p ys)"

lemma set_insert_after [simp]: "set (insert_after W w p ys) = insert p (set ys)"
  by (induction ys) auto

lemma set_abs_insert [simp]: "set (abs_insert W w p ys) = insert p (set ys)"
  by (cases ys) auto

lemma insert_after_cong:
  "(\<And>y. y \<in> set ys \<Longrightarrow> W y = W' y) \<Longrightarrow> insert_after W w p ys = insert_after W' w p ys"
  by (induction ys) auto

lemma insert_after_sorted:
  "sorted_wrt (\<lambda>x y. W x \<le> W y) ys \<Longrightarrow> sorted_wrt (\<lambda>x y. W x \<le> W y) (insert_after W (W p) p ys)"
  by (induction ys) (auto intro: order_trans)

lemma abs_insert_sorted:
  "sorted_wrt (\<lambda>x y. W x \<le> W y) ys \<Longrightarrow> sorted_wrt (\<lambda>x y. W x \<le> W y) (abs_insert W (W p) p ys)"
  by (cases ys) (auto intro: insert_after_sorted order_trans)

lemma abs_insert_cong:
  "(\<And>y. y \<in> set ys \<Longrightarrow> W y = W' y) \<Longrightarrow> abs_insert W w p ys = abs_insert W' w p ys"
  by (cases ys) (auto intro: insert_after_cong)

lemma chain_insert:
  assumes ch: "chain nxt p (us @ r # vs)" and a: "a \<noteq> 0" "a \<notin> set (us @ r # vs)"
  shows "chain (nxt(a \<mapsto> hd0 vs, r \<mapsto> a)) p (us @ r # a # vs)"
proof -
  have "distinct (us @ r # vs)" using ch by (rule chain_distinct)
  moreover have "chain nxt (hd0 vs) vs" using chain_split_at [OF ch] by simp
  ultimately show ?thesis using ch a by (auto simp: seg_append seg_upd_other)
qed

lemma find_spot_loop:
  assumes "chain (nextp (procs s)) a (x # ys)"
  shows "returns (kloop (find_spot_step w) a) s (\<lambda>r t. t = s \<and>
     (\<exists>us vs. x # ys = us @ r # vs \<and> x # insert_after (wake (procs s)) w p ys = us @ r # p # vs))"
  using assms
proof (induction ys arbitrary: a x)
  case Nil
  then have "a = x" "a \<noteq> 0" "nextp (procs s) x = Some 0" by auto
  then obtain xp where "procs s a = Some xp" "NextPCB xp = 0" by (auto simp: nextp_Some)
  then have "find_spot_step w a s = Some (Return (Inr a) s)"
    using \<open>a \<noteq> 0\<close> by (simp add: find_spot_step_def run)
  then show ?case using \<open>a = x\<close>
    by (auto simp: returns_kloop_last intro!: exI [where x = "[]"])
next
  case (Cons y ys)
  then have y: "a = x" "a \<noteq> 0" "nextp (procs s) x = Some y" "chain (nextp (procs s)) y (y # ys)" "y \<noteq> 0"
    by auto
  then obtain xp where xp: "procs s a = Some xp" "NextPCB xp = y" by (auto simp: nextp_Some)
  obtain yp where yp: "procs s y = Some yp" using seg_in_dom [OF y(4), of y] by (auto simp: nextp_Some)
  have W: "wake (procs s) y = WakeUpTime yp" by (simp add: wake_def yp)
  show ?case
  proof (cases "WakeUpTime yp < w")
    case True
    then have "find_spot_step w a s = Some (Return (Inl y) s)"
      using y xp yp by (simp add: find_spot_step_def run)
    moreover have "returns (kloop (find_spot_step w) y) s (\<lambda>r t. t = s \<and>
        (\<exists>us vs. x # y # ys = us @ r # vs
           \<and> x # insert_after (wake (procs s)) w p (y # ys) = us @ r # p # vs))"
    proof (rule returns_mono [OF Cons.IH [OF y(4)]])
      fix r t
      assume "t = s \<and> (\<exists>us vs. y # ys = us @ r # vs
        \<and> y # insert_after (wake (procs s)) w p ys = us @ r # p # vs)"
      then obtain us vs where us: "t = s" "y # ys = us @ r # vs"
        "y # insert_after (wake (procs s)) w p ys = us @ r # p # vs" by auto
      have i: "insert_after (wake (procs s)) w p (y # ys) = y # insert_after (wake (procs s)) w p ys"
        using True W by simp
      have "x # insert_after (wake (procs s)) w p (y # ys) = (x # us) @ r # p # vs"
        by (simp only: i us(3) append_Cons)
      moreover have "x # y # ys = (x # us) @ r # vs" by (simp only: us(2) append_Cons)
      ultimately show "t = s \<and> (\<exists>us vs. x # y # ys = us @ r # vs
           \<and> x # insert_after (wake (procs s)) w p (y # ys) = us @ r # p # vs)"
        using us(1) by blast
    qed
    ultimately show ?thesis by (simp only: returns_kloop_next)
  next
    case False
    then have "find_spot_step w a s = Some (Return (Inr a) s)"
      using y xp yp by (simp add: find_spot_step_def run)
    then show ?thesis using False W y(1)
      by (simp add: returns_kloop_last)
         (rule exI [where x = "[]"], rule exI [where x = "y # ys"], simp)
  qed
qed

lemma lists_ok_insert:
  assumes ok: "lists_ok P RQ B T L" and fresh: "fresh L p" and p: "P p = Some pr"
    and pr: "State pr = blocked" "unat (Priority pr) < PROCESS_PRIORITY_LEVELS" "WakeUpTime pr = w"
    and c: "chain (nextp P') T' (abs_insert (wake P) w p (L TimerQ))" and l: "links_only P P'"
    and same: "\<And>x. x \<noteq> p \<Longrightarrow> x \<notin> set (L TimerQ) \<Longrightarrow> P' x = P x"
  shows "lists_ok P' RQ B T' (L(TimerQ := abs_insert (wake P) w p (L TimerQ)))"
proof (rule lists_ok_change [OF ok, of TimerQ])
  let ?ys = "abs_insert (wake P) w p (L TimerQ)"
  have v: "valid_q TimerQ" by simp
  have notin: "p \<notin> set (L q)" if "valid_q q" for q using fresh that by (simp add: fresh_def)
  show "chain (nextp P') (qhead RQ B T' TimerQ) ?ys" using c by simp
  show "qhead RQ B T' r = qhead RQ B T r" if "valid_q r" "r \<noteq> TimerQ" for r using that by (cases r) auto
  show "P' x = P x" if r: "valid_q r" "r \<noteq> TimerQ" "x \<in> set (L r)" for x r
  proof (rule same)
    show "x \<notin> set (L TimerQ)" using lists_apart [OF ok r(1) r(3) v] r(2) by auto
    show "x \<noteq> p" using notin [OF r(1)] r(3) by auto
  qed
  show "\<exists>y. P' x = Some y \<and> member_ok TimerQ y" if x: "x \<in> set ?ys" for x
  proof -
    obtain xp where "P x = Some xp" "member_ok TimerQ xp"
      using x lists_member [OF ok v, of x] p pr by auto
    then show ?thesis using links_onlyD [OF l, of x xp] by (metis member_ok.simps(3) unlinked_fields(1,2))
  qed
  show "x \<notin> set (L r)" if "x \<in> set ?ys" "valid_q r" "r \<noteq> TimerQ" for x r
    using that notin lists_apart [OF ok v] by auto
  have "w = wake P p" using p pr by (simp add: wake_def)
  moreover have "by_wake P (L TimerQ)" using ok by (simp add: lists_ok_def)
  ultimately show "by_wake P' ?ys" unfolding by_wake_links [OF l] by (simp add: by_wake_def abs_insert_sorted)
qed auto

text \<open>The new sleeper becomes the first of the list.\<close>

lemma insert_first:
  assumes ok: "sched_lists s L" and fresh: "fresh L p" and p: "p \<noteq> 0" "procs s p = Some pr"
    and pr: "State pr = blocked" "unat (Priority pr) < PROCESS_PRIORITY_LEVELS" "WakeUpTime pr = w"
    and first: "L TimerQ = [] \<or> wake (procs s) (hd (L TimerQ)) > w"
  shows "returns (insert_sleeper w p) s (\<lambda>_ t.
     sched_lists t (L(TimerQ := abs_insert (wake (procs s)) w p (L TimerQ)))
   \<and> sched_frame s t \<and> KeCurrentProcess t = KeCurrentProcess s
   \<and> (\<exists>q. procs t p = Some q \<and> unlinked q = unlinked pr))"
proof -
  let ?P = "procs s" and ?T = "KepTimerList s" and ?ys = "abs_insert (wake (procs s)) w p (L TimerQ)"
  note ok' = sched_listsD [OF ok]
  have v: "valid_q TimerQ" by simp
  have notin: "p \<notin> set (L TimerQ)" using fresh by (simp add: fresh_def)
  have ch: "chain (nextp ?P) ?T (L TimerQ)" using lists_chain [OF ok' v] by simp
  have ys: "?ys = p # L TimerQ" using first by (cases "L TimerQ") auto
  let ?P' = "?P(p \<mapsto> pr\<lparr>NextPCB := ?T\<rparr>)"
  have l: "links_only ?P ?P'" by (rule links_only_upd1 [where p = pr]) (use p in simp_all)
  have "chain (nextp ?P') p ?ys" using chain_push [OF ch p(1) notin] by (simp add: ys)
  then have ok1: "lists_ok ?P' (KepReadyQueues s) (KepBlockedList s) p (L(TimerQ := ?ys))"
    by (rule lists_ok_insert [OF ok' fresh p(2) pr _ l]) simp
  have fr: "sched_frame s (s\<lparr>procs := ?P', KepTimerList := p\<rparr>)"
    using links_core [OF l] by (simp add: sched_frame_def)
  show ?thesis
  proof (cases "L TimerQ")
    case Nil
    then have "?T = 0" using ch by simp
    then show ?thesis using ok1 fr p by (simp add: insert_sleeper_def kern sched_lists_def)
  next
    case (Cons h hs)
    then have h: "?T = h" "h \<noteq> 0" using ch by auto
    obtain hp where hp: "?P h = Some hp" using lists_member [OF ok' v, of h] Cons by auto
    then have "WakeUpTime hp > w" using first Cons by (simp add: wake_def)
    then show ?thesis using ok1 fr p h hp by (simp add: insert_sleeper_def kern sched_lists_def)
  qed
qed

text \<open>The new sleeper is linked in after \<open>r\<close>.\<close>

abbreviation link_after :: "addr \<Rightarrow> addr \<Rightarrow> unit kern" where
  "link_after r p \<equiv> kbind (getP r) (\<lambda>cp. kthen (setP p (\<lambda>c. c\<lparr>NextPCB := NextPCB cp\<rparr>))
     (setP r (\<lambda>cp. cp\<lparr>NextPCB := p\<rparr>)))"

lemma link_after_lists:
  assumes ok: "sched_lists s L" and fresh: "fresh L p" and p: "p \<noteq> 0" "procs s p = Some pr"
    and pr: "State pr = blocked" "unat (Priority pr) < PROCESS_PRIORITY_LEVELS" "WakeUpTime pr = w"
    and r: "L TimerQ = us @ r # vs" "abs_insert (wake (procs s)) w p (L TimerQ) = us @ r # p # vs"
  shows "returns (link_after r p) s (\<lambda>_ t.
     sched_lists t (L(TimerQ := abs_insert (wake (procs s)) w p (L TimerQ)))
   \<and> sched_frame s t \<and> KeCurrentProcess t = KeCurrentProcess s
   \<and> (\<exists>q. procs t p = Some q \<and> unlinked q = unlinked pr))"
proof -
  let ?P = "procs s" and ?T = "KepTimerList s"
  note ok' = sched_listsD [OF ok]
  have v: "valid_q TimerQ" by simp
  have notin: "p \<notin> set (L TimerQ)" using fresh by (simp add: fresh_def)
  have rm: "r \<in> set (L TimerQ)" by (simp add: r)
  obtain rp where rp: "?P r = Some rp" using lists_member [OF ok' v rm] by auto
  have rnz: "r \<noteq> 0" and rnp: "r \<noteq> p" using lists_nonnull [OF ok' v rm] notin rm by auto
  have cr: "chain (nextp ?P) ?T (us @ r # vs)" using lists_chain [OF ok' v] by (simp add: r)
  have nr: "NextPCB rp = hd0 vs" using chain_split_at [OF cr] rp by (simp add: nextp_def)
  let ?P' = "?P(p \<mapsto> pr\<lparr>NextPCB := hd0 vs\<rparr>, r \<mapsto> rp\<lparr>NextPCB := p\<rparr>)"
  have l: "links_only ?P ?P'" using p rp rnp by (intro links_only_unlink) auto
  have "chain (nextp ?P') ?T (us @ r # p # vs)"
    using chain_insert [OF cr p(1)] notin r by simp
  then have "lists_ok ?P' (KepReadyQueues s) (KepBlockedList s) ?T
      (L(TimerQ := abs_insert (wake ?P) w p (L TimerQ)))"
    by (intro lists_ok_insert [OF ok' fresh p(2) pr _ l]) (use r rm in auto)
  then show ?thesis
    using p rp rnz rnp nr links_core [OF l] by (auto simp: kern sched_lists_def sched_frame_def)
qed

lemma insert_sleeper_lists:
  assumes ok: "sched_lists s L" and fresh: "fresh L p" and p: "p \<noteq> 0" "procs s p = Some pr"
    and pr: "State pr = blocked" "unat (Priority pr) < PROCESS_PRIORITY_LEVELS" "WakeUpTime pr = w"
  shows "returns (insert_sleeper w p) s (\<lambda>_ t.
     sched_lists t (L(TimerQ := abs_insert (wake (procs s)) w p (L TimerQ)))
   \<and> sched_frame s t \<and> KeCurrentProcess t = KeCurrentProcess s
   \<and> (\<exists>q. procs t p = Some q \<and> unlinked q = unlinked pr))"
proof (cases "L TimerQ = [] \<or> wake (procs s) (hd (L TimerQ)) > w")
  case True
  then show ?thesis by (rule insert_first [OF assms])
next
  case False
  let ?P = "procs s" and ?T = "KepTimerList s"
  let ?ys = "abs_insert (wake ?P) w p (L TimerQ)"
  note ok' = sched_listsD [OF ok]
  have v: "valid_q TimerQ" by simp
  have ch: "chain (nextp ?P) ?T (L TimerQ)" using lists_chain [OF ok' v] by simp
  obtain h hs where L: "L TimerQ = h # hs" using False by (cases "L TimerQ") auto
  then have h: "?T = h" "h \<noteq> 0" using ch by auto
  obtain hp where hp: "?P h = Some hp" using lists_member [OF ok' v, of h] L by auto
  have nw: "\<not> WakeUpTime hp > w" using False L hp by (simp add: wake_def)
  have ys: "?ys = h # insert_after (wake ?P) w p hs" using False by (simp add: L)
  have ch': "chain (nextp ?P) h (h # hs)" using ch L h by simp
  have "returns (kloop (find_spot_step w) h) s (\<lambda>r t. returns (link_after r p) t (\<lambda>_ t.
       sched_lists t (L(TimerQ := ?ys))
     \<and> sched_frame s t \<and> KeCurrentProcess t = KeCurrentProcess s
     \<and> (\<exists>q. procs t p = Some q \<and> unlinked q = unlinked pr)))"
    by (rule returns_mono [OF find_spot_loop [OF ch', of w p]])
      (use link_after_lists [OF assms] L ys in \<open>force\<close>)
  then show ?thesis
    using h hp nw by (simp add: insert_sleeper_def returns_kbind returns_deref returns_kget
        returns_kreturn)
qed

section \<open>Going to sleep\<close>

definition abs_suspend ::
  "(qid \<Rightarrow> addr list) \<Rightarrow> (addr \<Rightarrow> u32) \<Rightarrow> u32 \<Rightarrow> addr \<Rightarrow> (addr \<times> (qid \<Rightarrow> addr list)) option" where
  "abs_suspend L W w cur =
     abs_reschedule (L(TimerQ := abs_insert W w cur (L TimerQ))) cur 0 True"

text \<open>The first half: the current process goes into the timer queue, asleep.\<close>

lemma KeSuspendProcess_queued:
  assumes inv: "sched_inv s L"
  obtains t q where "KeSuspendProcess ms R s = KepReschedule t"
    and "sched_lists t (L(TimerQ := abs_insert (wake (procs s)) (KepTickCount s + ms) (KeCurrentProcess s) (L TimerQ)))"
    and "ke_frame s t" and "mq_inv s \<longrightarrow> mq_inv t" and "KepTickCount t = KepTickCount s"
    and "KeCurrentProcess t = KeCurrentProcess s" and "procs t (KeCurrentProcess s) = Some q"
    and "State q = blocked" and "unat (Priority q) < PROCESS_PRIORITY_LEVELS"
    and "ResumeMethod q = R" and "WakeUpTime q = KepTickCount s + ms"
    and "mnodes t = mnodes s" and "processQueue t = processQueue s"
proof -
  obtain c where ok: "sched_lists s L"
    and cur: "KeCurrentProcess s \<noteq> 0" "procs s (KeCurrentProcess s) = Some c"
    and c: "State c = running" "NextPCB c = 0" "unat (Priority c) < PROCESS_PRIORITY_LEVELS"
    and fresh: "fresh L (KeCurrentProcess s)"
    by (rule sched_invD [OF inv])
  let ?cur = "KeCurrentProcess s" and ?w = "KepTickCount s + ms"
  let ?c = "c\<lparr>WakeUpTime := ?w, State := blocked, ResumeMethod := R\<rparr>"
  let ?s = "s\<lparr>procs := (procs s)(?cur \<mapsto> ?c)\<rparr>"
  let ?L = "L(TimerQ := abs_insert (wake (procs s)) ?w ?cur (L TimerQ))"
  have ok1: "sched_lists ?s L" by (rule sched_lists_upd_fresh [OF ok fresh])
  have "?cur \<notin> set (L TimerQ)" using fresh by (simp add: fresh_def)
  then have W: "abs_insert (wake ((procs s)(?cur \<mapsto> ?c))) ?w ?cur (L TimerQ)
      = abs_insert (wake (procs s)) ?w ?cur (L TimerQ)"
    by (intro abs_insert_cong) (auto simp: wake_def)
  have fr: "ke_frame s ?s"
    unfolding ke_frame_def using cur by (auto intro: outer_only_upd1)
  have eq: "KeSuspendProcess ms R s = kthen (insert_sleeper ?w ?cur) KepReschedule ?s"
    using cur c by (simp add: KeSuspendProcess_def run)
  have "returns (insert_sleeper ?w ?cur) ?s (\<lambda>_ t. sched_lists t ?L
     \<and> sched_frame ?s t \<and> KeCurrentProcess t = ?cur
     \<and> (\<exists>q. procs t ?cur = Some q \<and> unlinked q = unlinked ?c))"
    using insert_sleeper_lists [OF ok1 fresh cur(1), of ?c ?w] c by (simp add: W)
  then obtain t q where t: "insert_sleeper ?w ?cur ?s = Some (Return () t)" "sched_lists t ?L"
    "sched_frame ?s t" "KeCurrentProcess t = ?cur" "procs t ?cur = Some q" "unlinked q = unlinked ?c"
    by (auto simp: returns_iff)
  show thesis
  proof (rule that [OF _ t(2) ke_frame_trans [OF fr sched_ke_frame [OF t(3)]] _ _ t(4,5)])
    show "KeSuspendProcess ms R s = KepReschedule t" unfolding eq by (rule kthen_run(1)) (rule t(1))
    show "mq_inv s \<longrightarrow> mq_inv t" using mq_inv_frame [OF t(3)] by (simp add: mq_inv_def)
    show "KepTickCount t = KepTickCount s" using sched_frame_tick [OF t(3)] by simp
    show "State q = blocked" "unat (Priority q) < PROCESS_PRIORITY_LEVELS"
      using unlinked_fields(1,2) [OF t(6)] c by simp_all
    have "f (unlinked q) = f (unlinked ?c)" for f :: "PROCESS \<Rightarrow> 'b" by (simp only: t(6))
    from this [of ResumeMethod] this [of WakeUpTime]
    show "ResumeMethod q = R" "WakeUpTime q = ?w" by (simp_all add: unlinked_def)
    show "mnodes t = mnodes s" "processQueue t = processQueue s"
      using sched_frame_mnodes [OF t(3)] sched_frame_queue [OF t(3)] by simp_all
  qed
qed

text \<open>The sleeper keeps its wake-up time and its resume method while another process is chosen.\<close>

definition sleeps_until :: "kstate \<Rightarrow> addr \<Rightarrow> u32 \<Rightarrow> RESUME_METHOD \<Rightarrow> bool" where
  "sleeps_until s p w R \<longleftrightarrow> (\<exists>c. procs s p = Some c \<and> WakeUpTime c = w \<and> ResumeMethod c = R)"

lemma sleeps_until_frame:
  assumes "sched_frame s t" and "sleeps_until s p w R"
  shows "sleeps_until t p w R"
proof -
  obtain c where c: "procs s p = Some c" "WakeUpTime c = w" "ResumeMethod c = R"
    using assms(2) by (auto simp: sleeps_until_def)
  obtain d where d: "procs t p = Some d" "core d = core c"
    using core_onlyD [OF sched_frame_core [OF assms(1)] c(1)] by auto
  have "f (core d) = f (core c)" for f :: "PROCESS \<Rightarrow> 'b" by (simp only: d(2))
  from this [of WakeUpTime] this [of ResumeMethod] show ?thesis
    using c d(1) by (simp add: sleeps_until_def core_def)
qed

lemma KeSuspendProcess_run:
  assumes inv: "sched_inv s L" and mq: "mq_inv s"
  shows "case abs_suspend L (wake (procs s)) (KepTickCount s + ms) (KeCurrentProcess s) of
      Some (n, L') \<Rightarrow> returns (KeSuspendProcess ms R) s (\<lambda>_ t. sched_inv t L'
        \<and> KeCurrentProcess t = n \<and> mq_inv t \<and> quantum_ok t \<and> ke_frame s t
        \<and> KepTickCount t = KepTickCount s \<and> mnodes t = mnodes s \<and> processQueue t = processQueue s
        \<and> sleeps_until t (KeCurrentProcess s) (KepTickCount s + ms) R)
    | None \<Rightarrow> halts (KeSuspendProcess ms R) s
        (BugCheck ''Critical system process terminated or blocked unexpectedly'')"
proof -
  have cur: "KeCurrentProcess s \<noteq> 0" by (rule sched_invD [OF inv])
  let ?w = "KepTickCount s + ms"
  obtain t q where eq: "KeSuspendProcess ms R s = KepReschedule t"
    and ok: "sched_lists t (L(TimerQ := abs_insert (wake (procs s)) ?w (KeCurrentProcess s) (L TimerQ)))"
    and t: "ke_frame s t" "mq_inv s \<longrightarrow> mq_inv t" "KepTickCount t = KepTickCount s"
    and curt: "KeCurrentProcess t = KeCurrentProcess s" "procs t (KeCurrentProcess s) = Some q"
    and q: "State q = blocked" "unat (Priority q) < PROCESS_PRIORITY_LEVELS"
    and keep: "ResumeMethod q = R" "WakeUpTime q = ?w" "mnodes t = mnodes s" "processQueue t = processQueue s"
    by (rule KeSuspendProcess_queued [OF inv, where ms = ms and R = R])
  have R: "case abs_suspend L (wake (procs s)) ?w (KeCurrentProcess s) of
      Some (n, L') \<Rightarrow> returns KepReschedule t (\<lambda>_ u. sched_inv u L' \<and> KeCurrentProcess u = n
        \<and> sched_frame t u \<and> (\<exists>p. procs u n = Some p \<and> Quantum p = 5))
    | None \<Rightarrow> halts KepReschedule t
        (BugCheck ''Critical system process terminated or blocked unexpectedly'')"
    using KepReschedule_blocked [OF ok, of q] curt q cur by (simp add: abs_suspend_def)
  have until: "sleeps_until t (KeCurrentProcess s) ?w R" using curt keep by (simp add: sleeps_until_def)
  show ?thesis
  proof (cases "abs_suspend L (wake (procs s)) ?w (KeCurrentProcess s)")
    case None
    then show ?thesis using R by (simp add: halts_def eq)
  next
    case (Some y)
    obtain n L' where y: "y = (n, L')" by (cases y)
    have "returns KepReschedule t (\<lambda>_ u. sched_inv u L' \<and> KeCurrentProcess u = n
        \<and> mq_inv u \<and> quantum_ok u \<and> ke_frame s u \<and> KepTickCount u = KepTickCount s
        \<and> mnodes u = mnodes s \<and> processQueue u = processQueue s \<and> sleeps_until u (KeCurrentProcess s) ?w R)"
      by (rule returns_mono [where Q = "\<lambda>_ u. sched_inv u L' \<and> KeCurrentProcess u = n
        \<and> sched_frame t u \<and> (\<exists>p. procs u n = Some p \<and> Quantum p = 5)"])
         (use R Some y t(2,3) mq keep ke_frame_trans [OF t(1)] sched_ke_frame mq_inv_frame
           sched_frame_tick sched_frame_mnodes sched_frame_queue sleeps_until_frame [OF _ until]
           in \<open>auto simp: quantum_ok_def\<close>)
    then show ?thesis using Some y by (simp add: returns_def eq)
  qed
qed

lemma KeSuspendProcess_lists:
  assumes "sched_inv s L" and "mq_inv s"
  shows "case abs_suspend L (wake (procs s)) (KepTickCount s + ms) (KeCurrentProcess s) of
      Some (n, L') \<Rightarrow> returns (KeSuspendProcess ms R) s (\<lambda>_ t. sched_inv t L'
        \<and> KeCurrentProcess t = n \<and> mq_inv t \<and> quantum_ok t \<and> ke_frame s t
        \<and> KepTickCount t = KepTickCount s)
    | None \<Rightarrow> halts (KeSuspendProcess ms R) s
        (BugCheck ''Critical system process terminated or blocked unexpectedly'')"
  using KeSuspendProcess_run [OF assms, of ms R] by (auto split: option.splits elim!: returns_mono)

section \<open>Waking the sleepers\<close>

definition ready_set :: "(qid \<Rightarrow> addr list) \<Rightarrow> addr set" where
  "ready_set L = (\<Union>i \<in> {..<PROCESS_PRIORITY_LEVELS}. set (L (ReadyQ i)))"

lemma ready_set_abs_ready:
  "i < PROCESS_PRIORITY_LEVELS \<Longrightarrow> ready_set (abs_ready p i L) = insert p (ready_set L)"
  by (auto simp: ready_set_def abs_ready_def split: if_splits)

lemma ready_set_pop:
  assumes "i < PROCESS_PRIORITY_LEVELS" and "L (ReadyQ i) \<noteq> []"
  shows "insert (hd (L (ReadyQ i))) (ready_set (L(ReadyQ i := tl (L (ReadyQ i))))) = ready_set L"
proof -
  obtain x xs where x: "L (ReadyQ i) = x # xs" using assms(2) by (cases "L (ReadyQ i)") auto
  show ?thesis
    unfolding ready_set_def using assms(1) x
    by (auto split: if_splits) (metis list.set_intros lessThan_iff set_ConsD)+
qed

lemma abs_preempt_runnable:
  assumes "abs_preempt L cur cp = (n, L')" and "cp < PROCESS_PRIORITY_LEVELS"
  shows "insert n (ready_set L') = insert cur (ready_set L)"
    and "L' TimerQ = L TimerQ" and "L' BlockedQ = L BlockedQ"
proof -
  have "insert n (ready_set L') = insert cur (ready_set L) \<and> L' TimerQ = L TimerQ
      \<and> L' BlockedQ = L BlockedQ"
  proof (cases "pick L cp PROCESS_PRIORITY_LEVELS")
    case None
    then show ?thesis using assms by (auto simp: abs_preempt_def)
  next
    case (Some i)
    have i: "i < PROCESS_PRIORITY_LEVELS" "L (ReadyQ i) \<noteq> []" using pick_Some [OF Some] by auto
    then have "abs_ready cur cp L (ReadyQ i) \<noteq> []" by (auto simp: abs_ready_def)
    then show ?thesis
      using assms Some ready_set_pop [of i "abs_ready cur cp L"] i
      by (auto simp: abs_preempt_def Let_def ready_set_abs_ready) (auto simp: abs_ready_def)
  qed
  then show "insert n (ready_set L') = insert cur (ready_set L)" "L' TimerQ = L TimerQ"
    "L' BlockedQ = L BlockedQ" by simp_all
qed

lemma abs_resume_runnable:
  assumes "abs_resume L cur cp p pp = (n, L')" and "cp < PROCESS_PRIORITY_LEVELS"
    and pp: "pp < PROCESS_PRIORITY_LEVELS"
  shows "insert n (ready_set L') = insert cur (insert p (ready_set L))
    \<and> L' TimerQ = remove1 p (L TimerQ) \<and> L' BlockedQ = remove1 p (L BlockedQ)"
proof -
  let ?L1 = "abs_ready p pp (abs_unblock p L)"
  have L1: "ready_set ?L1 = insert p (ready_set L)" "?L1 TimerQ = remove1 p (L TimerQ)"
    "?L1 BlockedQ = remove1 p (L BlockedQ)"
    by (simp add: ready_set_abs_ready [OF pp]) (simp_all add: ready_set_def abs_unblock_def abs_ready_def)
  show ?thesis
  proof (cases "pp > cp")
    case True
    then have "abs_preempt ?L1 cur cp = (n, L')" using assms by (simp add: abs_resume_def Let_def)
    from abs_preempt_runnable [OF this assms(2)] show ?thesis by (simp add: L1)
  next
    case False
    then show ?thesis using assms L1 by (auto simp: abs_resume_def Let_def)
  qed
qed

lemma core_wake:
  assumes "core_only P P'"
  shows "wake P' x = wake P x"
proof (cases "P x")
  case None
  then have "P' x = None" using assms by (auto simp: core_only_def dest: spec [where x = x])
  then show ?thesis using None by (simp add: wake_def)
next
  case (Some p)
  then obtain q where "P' x = Some q" "core q = core p" using core_onlyD [OF assms] by blast
  then show ?thesis using Some core_fields(2) [of q p] by (simp add: wake_def)
qed

lemma by_wake_filter:
  assumes "by_wake P (x # xs)" and "\<not> wake P x < t"
  shows "filter (\<lambda>x. \<not> wake P x < t) (x # xs) = x # xs" and "filter (\<lambda>x. wake P x < t) (x # xs) = []"
proof -
  have "\<not> wake P y < t" if "y \<in> set (x # xs)" for y
    using assms that by (auto simp: by_wake_def not_less intro: order_trans)
  then show "filter (\<lambda>x. \<not> wake P x < t) (x # xs) = x # xs" "filter (\<lambda>x. wake P x < t) (x # xs) = []"
    by (auto simp: filter_id_conv filter_empty_conv)
qed

text \<open>
  Exactly the processes whose wake-up time has passed left the timer list, and all of
  them can run now.
\<close>

definition sleepers_woken :: "kstate \<Rightarrow> (qid \<Rightarrow> addr list) \<Rightarrow> kstate \<Rightarrow> (qid \<Rightarrow> addr list) \<Rightarrow> bool" where
  "sleepers_woken s L t L' \<longleftrightarrow>
     L' TimerQ = filter (\<lambda>x. \<not> wake (procs s) x < KepTickCount s) (L TimerQ)
   \<and> L' BlockedQ = L BlockedQ
   \<and> insert (KeCurrentProcess t) (ready_set L') = insert (KeCurrentProcess s) (ready_set L)
       \<union> set (filter (\<lambda>x. wake (procs s) x < KepTickCount s) (L TimerQ))"

lemma sleepers_woken_none:
  assumes "L TimerQ = [] \<or> (\<exists>h hs. L TimerQ = h # hs \<and> by_wake (procs s) (h # hs)
             \<and> \<not> wake (procs s) h < KepTickCount s)"
  shows "sleepers_woken s L s L"
  using assms
proof (elim disjE exE conjE)
  fix h hs
  assume L: "L TimerQ = h # hs" and w: "by_wake (procs s) (h # hs)" "\<not> wake (procs s) h < KepTickCount s"
  show ?thesis
    unfolding sleepers_woken_def L by_wake_filter [OF w] by simp
qed (simp add: sleepers_woken_def)

lemma sleepers_woken_step:
  assumes "sleepers_woken t L1 u L'" and "KepTickCount t = KepTickCount s"
    and "\<And>x. wake (procs t) x = wake (procs s) x" and "wake (procs s) h < KepTickCount s"
    and "L TimerQ = h # L1 TimerQ" and "L1 BlockedQ = L BlockedQ"
    and "insert (KeCurrentProcess t) (ready_set L1) = insert (KeCurrentProcess s) (insert h (ready_set L))"
  shows "sleepers_woken s L u L'"
  using assms by (auto simp: sleepers_woken_def)

definition wake_result :: "kstate \<Rightarrow> (qid \<Rightarrow> addr list) \<Rightarrow> unit \<Rightarrow> kstate \<Rightarrow> bool" where
  "wake_result s L _ t \<longleftrightarrow> (\<exists>L'. sched_inv t L' \<and> mq_inv t \<and> ke_frame s t
     \<and> KepTickCount t = KepTickCount s \<and> sleepers_woken s L t L')"

text \<open>The first sleeper is woken; the loop goes on in a state where the others sleep.\<close>

lemma wake_first:
  assumes inv: "sched_inv s L" and mq: "mq_inv s" and L: "L TimerQ = h # hs" and hp: "procs s h = Some hp"
    and due: "WakeUpTime hp < KepTickCount s"
    and IH: "\<And>t L1. hs = L1 TimerQ \<Longrightarrow> sched_inv t L1 \<Longrightarrow> mq_inv t
      \<Longrightarrow> returns (kloop wake_up_step ()) t (wake_result t L1)"
  shows "returns (KeResumeProcess h) s (\<lambda>_ t. returns (kloop wake_up_step ()) t (wake_result s L))"
proof -
  obtain c where ok: "sched_lists s L" and cur: "procs s (KeCurrentProcess s) = Some c"
    "unat (Priority c) < PROCESS_PRIORITY_LEVELS"
    by (rule sched_invD [OF inv])
  note ok' = sched_listsD [OF ok]
  have sl: "sleeping L h" by (simp add: sleeping_def L)
  have pr: "unat (Priority hp) < PROCESS_PRIORITY_LEVELS" by (rule sleeping_member [OF ok sl]) (use hp in simp)
  have W: "wake (procs s) h = WakeUpTime hp" by (simp add: wake_def hp)
  obtain n L1 where ab: "abs_resume L (KeCurrentProcess s) (unat (Priority c)) h (unat (Priority hp)) = (n, L1)"
    by fastforce
  note runnable = abs_resume_runnable [OF ab cur(2) pr]
  have "h \<notin> set (L BlockedQ)" using L lists_apart [OF ok', of TimerQ h BlockedQ] by auto
  then have L1: "L1 TimerQ = hs" "L1 BlockedQ = L BlockedQ"
    using runnable L by (simp_all add: remove1_idem)
  show ?thesis
  proof (rule returns_mono [OF KeResumeProcess_lists [OF inv mq hp sl cur(1) ab]])
    fix u :: unit and t
    assume t: "sched_inv t L1 \<and> KeCurrentProcess t = n \<and> mq_inv t
      \<and> (quantum_ok s \<longrightarrow> quantum_ok t)
      \<and> ke_frame s t \<and> KepTickCount t = KepTickCount s \<and> core_only (procs s) (procs t)"
    have ih: "returns (kloop wake_up_step ()) t (wake_result t L1)" using t L1 by (intro IH) simp_all
    show "returns (kloop wake_up_step ()) t (wake_result s L)"
    proof (rule returns_mono [OF ih])
      fix a :: unit and v
      assume "wake_result t L1 a v"
      then obtain L' where v: "sched_inv v L'" "mq_inv v" "ke_frame t v"
        "KepTickCount v = KepTickCount t" "sleepers_woken t L1 v L'"
        unfolding wake_result_def by blast
      have "sleepers_woken s L v L'"
        by (rule sleepers_woken_step [OF v(5), where h = h])
           (use t core_wake [of "procs s" "procs t"] due W L L1 runnable in simp_all)
      then show "wake_result s L a v"
        unfolding wake_result_def using v t ke_frame_trans [of s t v] by auto
    qed
  qed
qed

lemma wake_loop:
  assumes "sched_inv s L" and "mq_inv s"
  shows "returns (kloop wake_up_step ()) s (wake_result s L)"
  using assms
proof (induction "L TimerQ" arbitrary: s L)
  case Nil
  have "qhead (KepReadyQueues s) (KepBlockedList s) (KepTimerList s) TimerQ = 0"
    using lists_chain [OF sched_listsD, of s L TimerQ] Nil by (auto simp: sched_inv_def)
  then have "wake_up_step () s = Some (Return (Inr ()) s)" by (simp add: wake_up_step_def run)
  moreover have "sleepers_woken s L s L" by (rule sleepers_woken_none) (simp flip: Nil.hyps)
  ultimately show ?case
    using Nil.prems by (auto simp: returns_kloop_last wake_result_def)
next
  case (Cons h hs)
  have ok: "sched_lists s L" by (rule sched_invD [OF Cons.prems(1)])
  note ok' = sched_listsD [OF ok]
  have L: "L TimerQ = h # hs" using Cons.hyps(2) by simp
  have sl: "sleeping L h" by (simp add: sleeping_def L)
  obtain hp where h: "h \<noteq> 0" "procs s h = Some hp" by (rule sleeping_member [OF ok sl])
  have T: "KepTimerList s = h" using lists_chain [OF ok', of TimerQ] L by simp
  have W: "wake (procs s) h = WakeUpTime hp" by (simp add: wake_def h)
  have sorted: "by_wake (procs s) (h # hs)" using ok' L by (simp add: lists_ok_def)
  show ?case
  proof (cases "WakeUpTime hp < KepTickCount s")
    case False
    then have "wake_up_step () s = Some (Return (Inr ()) s)"
      using h T by (simp add: wake_up_step_def run)
    moreover have "sleepers_woken s L s L"
      by (rule sleepers_woken_none) (use L sorted False W in auto)
    ultimately show ?thesis
      using Cons.prems by (auto simp: returns_kloop_last wake_result_def)
  next
    case True
    then show ?thesis
      using h T wake_first [OF Cons.prems L h(2) True Cons.hyps(1)]
      by (subst returns_kloop) (simp add: wake_up_step_def kern)
  qed
qed

theorem KepWakeUpSleepers_lists:
  assumes "sched_inv s L" and "mq_inv s"
  shows "returns KepWakeUpSleepers s (\<lambda>_ t. \<exists>L'. sched_inv t L' \<and> mq_inv t \<and> ke_frame s t
     \<and> KepTickCount t = KepTickCount s \<and> sleepers_woken s L t L')"
  unfolding KepWakeUpSleepers_def
  by (rule returns_mono [OF wake_loop [OF assms]]) (simp add: wake_result_def)

section \<open>The timer tick\<close>

text \<open>The end of the timer interrupt: a process without quantum is preempted.\<close>

lemma charge_quantum:
  assumes inv: "sched_inv t L" and mq: "mq_inv t"
  shows "returns (kbind (kget KeCurrentProcess) (\<lambda>cur. kbind (getP cur) (\<lambda>c. kwhen (Quantum c = 0) KepReschedule))) t
     (\<lambda>_ u. \<exists>L'. sched_inv u L' \<and> mq_inv u \<and> quantum_ok u \<and> ke_frame t u \<and> KepTickCount u = KepTickCount t
       \<and> L' TimerQ = L TimerQ \<and> L' BlockedQ = L BlockedQ
       \<and> insert (KeCurrentProcess u) (ready_set L') = insert (KeCurrentProcess t) (ready_set L))"
    (is "returns _ t (\<lambda>_ u. ?Q u)")
proof -
  obtain d where ok: "sched_lists t L" and d: "KeCurrentProcess t \<noteq> 0" "procs t (KeCurrentProcess t) = Some d"
    "State d = running" "NextPCB d = 0" "unat (Priority d) < PROCESS_PRIORITY_LEVELS"
    by (rule sched_invD [OF inv])
  show ?thesis
  proof (cases "Quantum d = 0")
    case False
    then have "quantum_ok t" using d by (simp add: quantum_ok_def word_gt_0)
    then have "?Q t" using inv mq by (intro exI [where x = L]) simp
    then show ?thesis using d False by (simp add: kern)
  next
    case True
    obtain n L2 where ab: "abs_preempt L (KeCurrentProcess t) (unat (Priority d)) = (n, L2)" by fastforce
    have "returns KepReschedule t (\<lambda>_ u. sched_inv u L2 \<and> KeCurrentProcess u = n
        \<and> sched_frame t u \<and> (\<exists>p. procs u n = Some p \<and> Quantum p = 5))"
      by (rule KepReschedule_lists [OF ok d(1,2,5)]) (use d ab in \<open>simp_all add: abs_reschedule_running\<close>)
    then have "returns KepReschedule t (\<lambda>_ u. ?Q u)"
    proof (rule returns_mono)
      fix a u
      assume u: "sched_inv u L2 \<and> KeCurrentProcess u = n
        \<and> sched_frame t u \<and> (\<exists>p. procs u n = Some p \<and> Quantum p = 5)"
      then have fu: "sched_frame t u" by simp
      show "?Q u"
        by (intro exI [where x = L2]) (use u mq abs_preempt_runnable [OF ab d(5)] mq_inv_frame [OF fu]
          sched_frame_tick [OF fu] sched_ke_frame [OF fu] in \<open>auto simp: quantum_ok_def\<close>)
    qed
    then show ?thesis using d True by (simp add: kern)
  qed
qed

theorem KeHandleTimer_lists:
  assumes inv: "sched_inv s L" and mq: "mq_inv s" and q: "quantum_ok s"
  shows "returns KeHandleTimer s (\<lambda>_ t. \<exists>L'. sched_inv t L' \<and> mq_inv t \<and> quantum_ok t \<and> ke_frame s t
     \<and> KepTickCount t = KepTickCount s + 10
     \<and> L' TimerQ = filter (\<lambda>x. \<not> wake (procs s) x < KepTickCount s + 10) (L TimerQ)
     \<and> L' BlockedQ = L BlockedQ
     \<and> insert (KeCurrentProcess t) (ready_set L') = insert (KeCurrentProcess s) (ready_set L)
       \<union> set (filter (\<lambda>x. wake (procs s) x < KepTickCount s + 10) (L TimerQ)))"
    (is "returns _ s (\<lambda>_ t. ?Q t)")
proof -
  obtain c where ok: "sched_lists s L"
    and cur: "KeCurrentProcess s \<noteq> 0" "procs s (KeCurrentProcess s) = Some c"
    and c: "State c = running" "NextPCB c = 0" "unat (Priority c) < PROCESS_PRIORITY_LEVELS"
    and fresh: "fresh L (KeCurrentProcess s)"
    by (rule sched_invD [OF inv])
  let ?cur = "KeCurrentProcess s" and ?c = "c\<lparr>CPUTime := CPUTime c + 10, Quantum := Quantum c - 1\<rparr>"
  let ?s = "s\<lparr>KepTickCount := KepTickCount s + 10, procs := (procs s)(?cur \<mapsto> ?c)\<rparr>"
  let ?rest = "kbind (kget KeCurrentProcess) (\<lambda>cur. kbind (getP cur) (\<lambda>c.
       kwhen (Quantum c = 0) KepReschedule))"
  have "sched_lists (s\<lparr>procs := (procs s)(?cur \<mapsto> ?c)\<rparr>) L" by (rule sched_lists_upd_fresh [OF ok fresh])
  then have inv1: "sched_inv ?s L" using cur c by (simp add: sched_inv_def sched_lists_def current_ok_def)
  have mq1: "mq_inv ?s" using mq by (simp add: mq_inv_def)
  have fr: "ke_frame s ?s" unfolding ke_frame_def using cur by (auto intro: outer_only_upd1)
  have W: "wake ((procs s)(?cur \<mapsto> ?c)) x = wake (procs s) x" for x
    using cur by (simp add: wake_def)
  have fin: "returns ?rest t (\<lambda>_ u. ?Q u)" if t: "sched_inv t L1" "mq_inv t" "ke_frame ?s t"
    "KepTickCount t = KepTickCount ?s" "sleepers_woken ?s L t L1" for t L1
  proof (rule returns_mono [OF charge_quantum [OF t(1,2)]], elim exE conjE)
    fix a :: unit and u L'
    assume u: "sched_inv u L'" "mq_inv u" "quantum_ok u" "ke_frame t u" "KepTickCount u = KepTickCount t"
      "L' TimerQ = L1 TimerQ" "L' BlockedQ = L1 BlockedQ"
      "insert (KeCurrentProcess u) (ready_set L') = insert (KeCurrentProcess t) (ready_set L1)"
    show "?Q u"
      using u t(4,5) ke_frame_trans [OF ke_frame_trans [OF fr t(3)] u(4)]
      by (intro exI [where x = L']) (simp add: sleepers_woken_def W)
  qed
  have "returns KepWakeUpSleepers ?s (\<lambda>_ t. returns ?rest t (\<lambda>_ u. ?Q u))"
    by (rule returns_mono [OF KepWakeUpSleepers_lists [OF inv1 mq1]]) (use fin in blast)
  moreover have "KeHandleTimer s = kthen KepWakeUpSleepers ?rest ?s"
    using cur q by (simp add: KeHandleTimer_def quantum_ok_def run)
  ultimately show ?thesis by (simp only: returns_eq [of KeHandleTimer] returns_kthen)
qed

end
