(* ===== verification/ObLists.thy ===== *)
theory ObLists
  imports Ob
begin

text \<open>
  The object manager's lists and reference counts: every type object heads a list of the
  objects of that type, \<^verbatim>\<open>ObpUnlinkObjectFromTypeList\<close> removes one of them, and
  \<^verbatim>\<open>ObDereferenceObject\<close> deletes an object exactly when its last reference goes and it is
  not permanent.
\<close>

section \<open>The lists of objects\<close>

definition object_ok :: "kstate \<Rightarrow> addr \<Rightarrow> addr \<Rightarrow> bool" where
  "object_ok s T x \<longleftrightarrow> (\<exists>h. headers s x = Some h \<and> Magic h = OBJECT_MAGIC \<and> ObjType h = T)"

definition ob_lists :: "kstate \<Rightarrow> (addr \<Rightarrow> addr list) \<Rightarrow> bool" where
  "ob_lists s Os \<longleftrightarrow> (\<forall>T t. T \<noteq> 0 \<and> otypes s T = Some t \<longrightarrow>
     chain (nextObject s) (FirstObjectOfType t) (Os T) \<and> (\<forall>x \<in> set (Os T). object_ok s T x))"

lemma ob_listsD:
  assumes "ob_lists s Os" and "T \<noteq> 0" and "otypes s T = Some t"
  shows "chain (nextObject s) (FirstObjectOfType t) (Os T)" and "x \<in> set (Os T) \<Longrightarrow> object_ok s T x"
  using assms by (auto simp: ob_lists_def)

lemma nextObject_upd [simp]:
  "nextObject (s\<lparr>headers := (headers s)(a \<mapsto> h)\<rparr>) = (nextObject s)(a \<mapsto> NextObjectOfType h)"
  by (auto simp: nextObject_def)

lemma nextObject_otypes [simp]:
  "nextObject (s\<lparr>otypes := Y\<rparr>) = nextObject s" "nextObject (s\<lparr>procs := Z\<rparr>) = nextObject s"
  "nextObject (s\<lparr>stdout := out\<rparr>) = nextObject s"
  by (auto simp: nextObject_def)

lemma nextObject_Some: "nextObject s a = Some r \<longleftrightarrow> (\<exists>h. headers s a = Some h \<and> NextObjectOfType h = r)"
  by (auto simp: nextObject_def)

text \<open>A change to a header that keeps magic, type and link keeps all lists.\<close>

lemma ob_lists_header:
  assumes "ob_lists s Os" and "headers s x = Some h"
    and "Magic h' = Magic h" and "ObjType h' = ObjType h" and "NextObjectOfType h' = NextObjectOfType h"
  shows "ob_lists (s\<lparr>headers := (headers s)(x \<mapsto> h')\<rparr>) Os"
proof -
  have "(nextObject s)(x \<mapsto> NextObjectOfType h) = nextObject s"
    using assms(2) by (auto simp: nextObject_def)
  moreover have "object_ok (s\<lparr>headers := (headers s)(x \<mapsto> h')\<rparr>) T y = object_ok s T y" for T y
    using assms(2-4) by (simp add: object_ok_def)
  ultimately show ?thesis using assms(1,5) by (simp add: ob_lists_def)
qed

text \<open>Replacing the list of one type.\<close>

lemma ob_lists_change:
  assumes ok: "ob_lists s Os" and T: "T \<noteq> 0" "otypes s T = Some t"
    and same: "\<And>x. \<not> object_ok s T x \<Longrightarrow> headers s' x = headers s x"
    and types: "otypes s' = (otypes s)(T \<mapsto> t')"
    and ch: "chain (nextObject s') (FirstObjectOfType t') xs"
    and mem: "\<And>x. x \<in> set xs \<Longrightarrow> object_ok s' T x"
  shows "ob_lists s' (Os(T := xs))"
  unfolding ob_lists_def
proof (intro allI impI)
  fix U u
  assume U: "U \<noteq> 0 \<and> otypes s' U = Some u"
  show "chain (nextObject s') (FirstObjectOfType u) ((Os(T := xs)) U)
      \<and> (\<forall>x \<in> set ((Os(T := xs)) U). object_ok s' U x)"
  proof (cases "U = T")
    case True
    then show ?thesis using U types ch mem by simp
  next
    case False
    then have u: "otypes s U = Some u" using U types by simp
    have nT: "\<not> object_ok s T x" if "x \<in> set (Os U)" for x
      using ob_listsD(2) [OF ok _ u that] U False by (auto simp: object_ok_def)
    then have "headers s' x = headers s x" if "x \<in> set (Os U)" for x using same that by blast
    moreover then have "seg (nextObject s') (FirstObjectOfType u) (Os U) 0
        = seg (nextObject s) (FirstObjectOfType u) (Os U) 0"
      by (intro seg_cong) (simp add: nextObject_def)
    ultimately show ?thesis using ob_listsD [OF ok _ u] U False by (simp add: object_ok_def)
  qed
qed

section \<open>Unlinking\<close>

definition links_header :: "OBJECT_HEADER option \<Rightarrow> OBJECT_HEADER option" where
  "links_header = map_option (\<lambda>h. h\<lparr>NextObjectOfType := 0\<rparr>)"

definition ob_frame :: "kstate \<Rightarrow> kstate \<Rightarrow> bool" where
  "ob_frame s t \<longleftrightarrow> t = s\<lparr>headers := headers t, otypes := otypes t, stdout := stdout t\<rparr>
     \<and> (\<forall>T. map_option (\<lambda>y. y\<lparr>FirstObjectOfType := 0\<rparr>) (otypes t T)
          = map_option (\<lambda>y. y\<lparr>FirstObjectOfType := 0\<rparr>) (otypes s T))"

lemma unlink_loop:
  assumes "chain (nextObject s) a (as @ b # x # bs)" and "headers s x = Some h"
  shows "returns (kloop (unlink_object_step x) a) s
           (\<lambda>r t. r \<and> t = linkObject b (NextObjectOfType h) s)"
  using assms(1)
proof (induction as arbitrary: a)
  case Nil
  then have "a = b" "a \<noteq> 0" "nextObject s b = Some x" "x \<noteq> 0" by auto
  then show ?case
    using assms(2)
    by (subst returns_kloop) (auto simp: unlink_object_step_def kern nextObject_Some linkObject_def)
next
  case (Cons y as)
  let ?y = "hd0 (as @ [b])"
  have y: "nextObject s y = Some ?y" "chain (nextObject s) ?y (as @ b # x # bs)"
    using chain_split_at [where xs = "[]" and a = y and ys = "as @ b # x # bs"] Cons.prems
    by (cases as; simp)+
  then obtain yh where yh: "headers s y = Some yh" "NextObjectOfType yh = ?y"
    by (auto simp: nextObject_Some)
  have "y = a" "a \<noteq> 0" using Cons.prems by simp_all
  moreover have "?y \<noteq> x" using chain_distinct [OF y(2)] by (cases as) auto
  ultimately have "unlink_object_step x a s = Some (Return (Inl ?y) s)"
    using yh by (simp add: unlink_object_step_def run)
  then show ?case using Cons.IH [OF y(2)] by (simp only: returns_kloop_next)
qed

lemma unlink_loop_missing:
  assumes "chain (nextObject s) a xs" and "x \<notin> set xs" and "x \<noteq> 0"
  shows "returns (kloop (unlink_object_step x) a) s (\<lambda>r t. \<not> r \<and> t = s)"
  using assms(1,2)
proof (induction xs arbitrary: a)
  case Nil
  then show ?case by (subst returns_kloop) (simp add: unlink_object_step_def kern)
next
  case (Cons y ys)
  then obtain r where r: "y = a" "a \<noteq> 0" "nextObject s y = Some r" "chain (nextObject s) r ys" by auto
  then obtain h where h: "headers s a = Some h" "NextObjectOfType h = r" by (auto simp: nextObject_Some)
  have "r \<noteq> x" using r(4) Cons.prems(2) assms(3) by (cases ys) auto
  then have "unlink_object_step x a s = Some (Return (Inl r) s)"
    using r h by (simp add: unlink_object_step_def run)
  then show ?case using Cons.IH [OF r(4)] Cons.prems(2) by (simp add: returns_kloop_next)
qed

lemma ob_lists_split:
  assumes "x \<in> set xs" and "hd0 xs \<noteq> x"
  obtains as b bs where "xs = as @ b # x # bs"
proof -
  obtain us vs where xs: "xs = us @ x # vs" using assms(1) by (auto simp: in_set_conv_decomp)
  with assms(2) have "us \<noteq> []" by auto
  then have "us = butlast us @ [last us]" by simp
  with xs have "xs = butlast us @ last us # x # vs" by (metis append.assoc append_Cons append_Nil)
  then show thesis by (rule that)
qed

lemma ob_lists_pop:
  assumes ok: "ob_lists s Os" and T: "T \<noteq> 0" "otypes s T = Some t" and h: "headers s x = Some h" and xs: "Os T = x # ys"
  shows "ob_lists (s\<lparr>otypes := (otypes s)(T \<mapsto> t\<lparr>FirstObjectOfType := NextObjectOfType h\<rparr>)\<rparr>) (Os(T := ys))"
proof (rule ob_lists_change [OF ok T])
  let ?s = "s\<lparr>otypes := (otypes s)(T \<mapsto> t\<lparr>FirstObjectOfType := NextObjectOfType h\<rparr>)\<rparr>"
  show "chain (nextObject ?s) (FirstObjectOfType (t\<lparr>FirstObjectOfType := NextObjectOfType h\<rparr>)) ys"
    using ob_listsD(1) [OF ok T] xs h by (auto simp: nextObject_def)
  show "object_ok ?s T z" if "z \<in> set ys" for z
    using ob_listsD(2) [OF ok T, of z] that by (simp add: xs object_ok_def)
qed simp_all

lemma ob_lists_unlink:
  assumes ok: "ob_lists s Os" and T: "T \<noteq> 0" "otypes s T = Some t" and h: "headers s x = Some h"
    and xs: "Os T = as @ b # x # bs" and b: "headers s b = Some bh" "Magic bh = OBJECT_MAGIC" "ObjType bh = T"
  shows "ob_lists (linkObject b (NextObjectOfType h) s) (Os(T := as @ b # bs))"
proof (rule ob_lists_change [OF ok T])
  let ?s = "linkObject b (NextObjectOfType h) s"
  have hs: "headers ?s = (headers s)(b \<mapsto> bh\<lparr>NextObjectOfType := NextObjectOfType h\<rparr>)"
    by (simp add: linkObject_def b)
  have ch: "chain (nextObject s) (FirstObjectOfType t) (as @ b # x # bs)" using ob_listsD(1) [OF ok T] xs by simp
  have nx: "NextObjectOfType h = hd0 bs"
    using chain_split_at [of "nextObject s" _ "as @ [b]" x bs] ch h by (simp add: nextObject_def)
  show "headers ?s y = headers s y" if "\<not> object_ok s T y" for y using b that by (auto simp: hs object_ok_def)
  show "otypes ?s = (otypes s)(T \<mapsto> t)" using T by (auto simp: linkObject_def)
  show "chain (nextObject ?s) (FirstObjectOfType t) (as @ b # bs)"
    unfolding nx by (rule object.link_unlink [OF ch])
  show "object_ok ?s T z" if "z \<in> set (as @ b # bs)" for z
    using ob_listsD(2) [OF ok T, of z] b that by (auto simp: hs object_ok_def xs)
qed

lemma ObpUnlinkObjectFromTypeList_lists:
  assumes ok: "ob_lists s Os" and h: "headers s x = Some h" "Magic h = OBJECT_MAGIC" "ObjType h = T"
    and T: "T \<noteq> 0" "otypes s T = Some t" and x: "x \<in> set (Os T)"
  shows "returns (ObpUnlinkObjectFromTypeList x) s (\<lambda>_ u. ob_lists u (Os(T := remove1 x (Os T)))
     \<and> ob_frame s u \<and> headers u x = Some h
     \<and> (\<forall>y. links_header (headers u y) = links_header (headers s y)))"
proof -
  note ch = ob_listsD(1) [OF ok T]
  note mem = ob_listsD(2) [OF ok T]
  have xnz: "x \<noteq> 0" using seg_nonnull [OF ch x] .
  have dist: "distinct (Os T)" using chain_distinct [OF ch] .
  show ?thesis
  proof (cases "FirstObjectOfType t = x")
    case True
    then obtain ys where xs: "Os T = x # ys" using ch x by (cases "Os T") auto
    let ?t = "t\<lparr>FirstObjectOfType := NextObjectOfType h\<rparr>"
    let ?s = "s\<lparr>otypes := (otypes s)(T \<mapsto> ?t)\<rparr>"
    have "ob_lists ?s (Os(T := ys))" by (rule ob_lists_pop [OF ok T h(1) xs])
    then show ?thesis
      using h T xnz True by (simp add: ObpUnlinkObjectFromTypeList_def ASSERT_OBJECT_def kern xs ob_frame_def)
  next
    case False
    then have "hd0 (Os T) \<noteq> x" using chain_hd0 [OF ch] by simp
    then obtain as b bs where xs: "Os T = as @ b # x # bs" using ob_lists_split [OF x] by blast
    obtain bh where b: "headers s b = Some bh" "Magic bh = OBJECT_MAGIC" "ObjType bh = T"
      using mem [of b] by (auto simp: xs object_ok_def)
    have bx: "b \<noteq> x" using dist by (auto simp: xs)
    have ch': "chain (nextObject s) (FirstObjectOfType t) (as @ b # x # bs)" using ch xs by simp
    let ?s = "linkObject b (NextObjectOfType h) s"
    have hs: "headers ?s = (headers s)(b \<mapsto> bh\<lparr>NextObjectOfType := NextObjectOfType h\<rparr>)"
      by (simp add: linkObject_def b)
    have rm: "remove1 x (Os T) = as @ b # bs" using dist by (auto simp: xs remove1_append)
    note lists = ob_lists_unlink [OF ok T h(1) xs b]
    have fr: "ob_frame s ?s" "\<forall>y. links_header (headers ?s y) = links_header (headers s y)"
      using b by (simp_all add: ob_frame_def linkObject_def links_header_def)
    have "returns (kloop (unlink_object_step x) (FirstObjectOfType t)) s (\<lambda>found u.
        returns (if found then kreturn ()
          else khalt (BugCheck ''ObpUnlinkObjectFromTypeList: object was not in the list'')) u
        (\<lambda>_ u. ob_lists u (Os(T := remove1 x (Os T))) \<and> ob_frame s u \<and> headers u x = Some h
          \<and> (\<forall>y. links_header (headers u y) = links_header (headers s y))))"
      by (rule returns_mono [OF unlink_loop [OF ch' h(1)]])
         (use lists fr h bx in \<open>simp add: kern rm hs\<close>)
    then show ?thesis
      using h T xnz False
      by (simp add: ObpUnlinkObjectFromTypeList_def ASSERT_OBJECT_def returns_kthen returns_kbind
          returns_deref returns_kassert)
  qed
qed

lemma ObpUnlinkObjectFromTypeList_missing:
  assumes ok: "ob_lists s Os" and h: "headers s x = Some h" "Magic h = OBJECT_MAGIC" "ObjType h = T"
    and T: "T \<noteq> 0" "otypes s T = Some t" and x: "x \<notin> set (Os T)" "x \<noteq> 0"
  shows "halts (ObpUnlinkObjectFromTypeList x) s
     (BugCheck ''ObpUnlinkObjectFromTypeList: object was not in the list'')"
proof -
  note ch = ob_listsD(1) [OF ok T]
  have F: "FirstObjectOfType t \<noteq> x" using ch x by (cases "Os T") auto
  have "kloop (unlink_object_step x) (FirstObjectOfType t) s = Some (Return False s)"
    unfolding returns_exact
    by (rule returns_mono [OF unlink_loop_missing [OF ch x]]) simp
  then show ?thesis
    using h T x F by (simp add: halts_def ObpUnlinkObjectFromTypeList_def ASSERT_OBJECT_def run)
qed

end
