(* ===== verification/ObCounts.thy ===== *)
theory ObCounts
  imports ObLists
begin

text \<open>
  The object manager's invariant \<open>ob_inv\<close>: the handle count of every object is the number
  of handle table slots of all processes that refer to it, no object has fewer references
  than handles, every open slot refers to a live object, and every object that can be
  deleted is in the list of its type.  Every operation of the module keeps it.
\<close>

section \<open>The invariant\<close>

definition slots :: "(addr \<Rightarrow> PROCESS option) \<Rightarrow> addr \<Rightarrow> (addr \<times> nat) set" where
  "slots P obj = {(p, i). i < MAX_HANDLE_COUNT \<and> (\<exists>pr. P p = Some pr \<and> HtObject (HandleTable pr i) = obj)}"

definition handle_count :: "(addr \<Rightarrow> PROCESS option) \<Rightarrow> addr \<Rightarrow> nat" where
  "handle_count P obj = card (slots P obj)"

definition permanent :: "OBJECT_HEADER \<Rightarrow> bool" where
  "permanent h \<longleftrightarrow> and (ObjAttributes h) OBJ_PERMANENT \<noteq> 0"

definition deletable :: "kstate \<Rightarrow> (addr \<Rightarrow> addr list) \<Rightarrow> addr \<Rightarrow> OBJECT_HEADER \<Rightarrow> bool" where
  "deletable s Os x h \<longleftrightarrow> ObjType h \<noteq> 0 \<and> (\<exists>t. otypes s (ObjType h) = Some t
     \<and> x \<in> set (Os (ObjType h))
     \<and> (TypeDelete t = NoDeleteMethod \<or> (\<exists>v. foos s (x + BODY_OFFSET) = Some v)))"

definition header_ok :: "kstate \<Rightarrow> (addr \<Rightarrow> addr list) \<Rightarrow> addr \<Rightarrow> OBJECT_HEADER \<Rightarrow> bool" where
  "header_ok s Os x h \<longleftrightarrow> x \<noteq> 0 \<and> x + BODY_OFFSET \<noteq> 0 \<and> Magic h = OBJECT_MAGIC
     \<and> HandleCount h \<le> PointerCount h
     \<and> (PointerCount h > 0 \<and> \<not> permanent h \<longrightarrow> deletable s Os x h)"

definition counts_ok :: "(addr \<Rightarrow> PROCESS option) \<Rightarrow> (addr \<Rightarrow> OBJECT_HEADER option) \<Rightarrow> bool" where
  "counts_ok P H \<longleftrightarrow>
     (\<forall>x h. H x = Some h \<longrightarrow> unat (HandleCount h) = handle_count P (x + BODY_OFFSET))"

definition slots_live :: "(addr \<Rightarrow> PROCESS option) \<Rightarrow> (addr \<Rightarrow> OBJECT_HEADER option) \<Rightarrow> bool" where
  "slots_live P H \<longleftrightarrow>
     (\<forall>obj. obj \<noteq> 0 \<and> slots P obj \<noteq> {} \<longrightarrow> (\<exists>h. H (OBJECT_BODY_TO_HEADER obj) = Some h))"

definition ob_inv :: "kstate \<Rightarrow> (addr \<Rightarrow> addr list) \<Rightarrow> bool" where
  "ob_inv s Os \<longleftrightarrow> ob_lists s Os \<and> (\<forall>x h. headers s x = Some h \<longrightarrow> header_ok s Os x h)
     \<and> counts_ok (procs s) (headers s) \<and> slots_live (procs s) (headers s)"

lemma body_header [simp]:
  "OBJECT_BODY_TO_HEADER (x + BODY_OFFSET) = x" "OBJECT_BODY_TO_HEADER obj + BODY_OFFSET = obj"
  by (simp_all add: OBJECT_BODY_TO_HEADER_def)

lemma body_inject [simp]: "x + BODY_OFFSET = y + BODY_OFFSET \<longleftrightarrow> x = (y :: addr)"
  by simp

lemma finite_slots [simp]: "finite (slots P obj)"
  by (rule finite_subset [of _ "UNIV \<times> {..<MAX_HANDLE_COUNT}"]) (auto simp: slots_def)

text \<open>One slot changes from \<open>a\<close> to \<open>b\<close>.\<close>

lemma slots_upd:
  assumes "P p = Some pr" and "i < MAX_HANDLE_COUNT"
    and "HandleTable pr' = (HandleTable pr)(i := e)"
  shows "slots (P(p \<mapsto> pr')) obj
    = (if HtObject e = obj then insert (p, i) (slots P obj) else slots P obj - {(p, i)})"
  using assms by (auto simp: slots_def split: if_splits)

lemma handle_count_upd:
  assumes "P p = Some pr" and "i < MAX_HANDLE_COUNT"
    and "HandleTable pr' = (HandleTable pr)(i := e)"
  shows "handle_count (P(p \<mapsto> pr')) obj =
    handle_count P obj + (if HtObject e = obj then 1 else 0)
      - (if HtObject (HandleTable pr i) = obj then 1 else 0)"
proof -
  have "(p, i) \<in> slots P obj \<longleftrightarrow> HtObject (HandleTable pr i) = obj"
    using assms by (auto simp: slots_def)
  then show ?thesis
    unfolding handle_count_def slots_upd [where P = P, OF assms] by (auto simp: card_Diff_singleton insert_absorb)
qed

lemma slots_same:
  assumes "P p = Some pr" and "HandleTable pr' = HandleTable pr"
  shows "slots (P(p \<mapsto> pr')) obj = slots P obj"
  using assms by (auto simp: slots_def split: if_splits)

lemma handle_count_pos:
  "P p = Some pr \<Longrightarrow> i < MAX_HANDLE_COUNT \<Longrightarrow> HtObject (HandleTable pr i) = obj \<Longrightarrow> handle_count P obj > 0"
proof -
  assume "P p = Some pr" "i < MAX_HANDLE_COUNT" "HtObject (HandleTable pr i) = obj"
  then have "(p, i) \<in> slots P obj" by (simp add: slots_def)
  then show ?thesis unfolding handle_count_def card_gt_0_iff using finite_slots by blast
qed

lemma ob_invD:
  assumes "ob_inv s Os"
  shows "ob_lists s Os" and "headers s x = Some h \<Longrightarrow> header_ok s Os x h"
    and "headers s x = Some h \<Longrightarrow> unat (HandleCount h) = handle_count (procs s) (x + BODY_OFFSET)"
    and "slots_live (procs s) (headers s)"
  using assms by (auto simp: ob_inv_def counts_ok_def)

text \<open>An open slot refers to an object with at least one handle.\<close>

lemma ob_inv_slot:
  assumes inv: "ob_inv s Os" and p: "procs s p = Some pr" and i: "i < MAX_HANDLE_COUNT"
    and obj: "HtObject (HandleTable pr i) = obj" "obj \<noteq> 0"
  obtains h where "headers s (OBJECT_BODY_TO_HEADER obj) = Some h"
    "header_ok s Os (OBJECT_BODY_TO_HEADER obj) h" "HandleCount h > 0"
    "unat (HandleCount h) = handle_count (procs s) obj"
proof -
  have "slots (procs s) obj \<noteq> {}" using p i obj by (auto simp: slots_def)
  then obtain h where h: "headers s (OBJECT_BODY_TO_HEADER obj) = Some h"
    using ob_invD(4) [OF inv] obj by (auto simp: slots_live_def)
  have c: "unat (HandleCount h) = handle_count (procs s) obj" using ob_invD(3) [OF inv h] by simp
  have "handle_count (procs s) obj > 0" using handle_count_pos [where P = "procs s", OF p i obj(1)] .
  then have "HandleCount h > 0" using c by (cases "HandleCount h = 0") (simp_all add: word_gt_0)
  then show thesis using h ob_invD(2) [OF inv h] c by (intro that)
qed

section \<open>Dereferencing\<close>

definition last_reference :: "OBJECT_HEADER \<Rightarrow> bool" where
  "last_reference h \<longleftrightarrow> PointerCount h = 1 \<and> \<not> permanent h"

text \<open>The lists after one dereference.\<close>

definition abs_deref :: "(addr \<Rightarrow> addr list) \<Rightarrow> addr \<Rightarrow> OBJECT_HEADER \<Rightarrow> (addr \<Rightarrow> addr list)" where
  "abs_deref Os x h =
     (if last_reference h then Os(ObjType h := remove1 x (Os (ObjType h))) else Os)"

lemma call_delete_frame:
  assumes "m \<noteq> NoDeleteMethod" and "obj \<noteq> 0" and "foos s obj = Some v"
  shows "returns (call_delete m obj) s (\<lambda>_ t. \<exists>out. t = s\<lparr>stdout := out\<rparr>)"
proof -
  have m: "m = DeleteFooMethod" using assms(1) by (cases m) simp_all
  show ?thesis
    unfolding m call_delete_def using assms(2,3) by (simp add: kern) (rule exI, rule refl)
qed

lemma ob_frame_trans:
  assumes "ob_frame s t" and "ob_frame t u"
  shows "ob_frame s u"
proof -
  let ?f = "\<lambda>s t. s\<lparr>headers := headers t, otypes := otypes t, stdout := stdout t\<rparr>"
  have "t = ?f s t" "u = ?f t u" using assms by (simp_all only: ob_frame_def)
  then have "u = ?f (?f s t) u" by simp
  then have "u = ?f s u" by simp
  then show ?thesis using assms by (simp add: ob_frame_def)
qed

lemma ob_frame_refl [simp]: "ob_frame s s"
  by (simp add: ob_frame_def)

lemma ob_frame_upd [simp]:
  "ob_frame s (s\<lparr>headers := Z\<rparr>)" "ob_frame s (s\<lparr>stdout := out\<rparr>)"
  by (simp_all add: ob_frame_def)

lemma ob_frame_fields:
  assumes "ob_frame s t"
  shows ob_frame_procs: "procs t = procs s" and ob_frame_foos: "foos t = foos s"
    and ob_frame_current: "KeCurrentProcess t = KeCurrentProcess s"
    and ob_frame_free: "freeMemPointer t = freeMemPointer s"
proof -
  have t: "t = s\<lparr>headers := headers t, otypes := otypes t, stdout := stdout t\<rparr>"
    using assms by (simp only: ob_frame_def)
  show "procs t = procs s" "foos t = foos s" "KeCurrentProcess t = KeCurrentProcess s"
    "freeMemPointer t = freeMemPointer s" by (subst t, simp)+
qed

lemma ob_frame_type:
  assumes "ob_frame s t" and "otypes s T = Some y"
  shows "\<exists>z. otypes t T = Some z \<and> TypeDelete z = TypeDelete y \<and> TypeName z = TypeName y"
proof -
  have "map_option (\<lambda>y. y\<lparr>FirstObjectOfType := 0\<rparr>) (otypes t T) = Some (y\<lparr>FirstObjectOfType := 0\<rparr>)"
    using assms by (simp add: ob_frame_def)
  then obtain z where z: "otypes t T = Some z" "z\<lparr>FirstObjectOfType := 0\<rparr> = y\<lparr>FirstObjectOfType := 0\<rparr>"
    by auto
  from z(2) have "TypeDelete (z\<lparr>FirstObjectOfType := 0\<rparr>) = TypeDelete (y\<lparr>FirstObjectOfType := 0\<rparr>)"
    "TypeName (z\<lparr>FirstObjectOfType := 0\<rparr>) = TypeName (y\<lparr>FirstObjectOfType := 0\<rparr>)" by simp_all
  with z(1) show ?thesis by simp
qed

lemma ob_lists_stdout [simp]: "ob_lists (s\<lparr>stdout := out\<rparr>) Os = ob_lists s Os"
  by (simp add: ob_lists_def object_ok_def)

lemma links_header_Some:
  "links_header y = links_header (Some h) \<Longrightarrow> \<exists>h'. y = Some h' \<and> Magic h' = Magic h
     \<and> HandleCount h' = HandleCount h \<and> PointerCount h' = PointerCount h
     \<and> ObjAttributes h' = ObjAttributes h \<and> ObjType h' = ObjType h
     \<and> SignalState h' = SignalState h \<and> WaitQueue h' = WaitQueue h"
proof -
  assume "links_header y = links_header (Some h)"
  then obtain h' where y: "y = Some h'" and e: "h'\<lparr>NextObjectOfType := 0\<rparr> = h\<lparr>NextObjectOfType := 0\<rparr>"
    by (auto simp: links_header_def)
  have "f (h'\<lparr>NextObjectOfType := 0\<rparr>) = f (h\<lparr>NextObjectOfType := 0\<rparr>)" for f :: "OBJECT_HEADER \<Rightarrow> 'b"
    by (simp only: e)
  from this [of Magic] this [of HandleCount] this [of PointerCount] this [of ObjAttributes]
    this [of ObjType] this [of SignalState] this [of WaitQueue]
  show ?thesis using y by simp
qed

text \<open>The type's delete method, where it has one, runs on the unlinked object and changes no list.\<close>

lemma delete_method_lists:
  assumes x: "x + BODY_OFFSET \<noteq> 0" and t: "T \<noteq> 0" "otypes s T = Some t"
    and del: "TypeDelete t = NoDeleteMethod \<or> (\<exists>v. foos s (x + BODY_OFFSET) = Some v)"
    and fr: "ob_frame s u" and ok: "ob_lists u Os'" and H: "\<forall>y. links_header (headers u y) = F y"
  shows "returns (kwhen (T \<noteq> 0) (kbind (getT T) (\<lambda>t.
      kwhen (TypeDelete t \<noteq> NoDeleteMethod) (call_delete (TypeDelete t) (x + BODY_OFFSET))))) u
    (\<lambda>_ v. ob_lists v Os' \<and> ob_frame s v \<and> (\<forall>y. links_header (headers v y) = F y))"
proof -
  obtain t' where t': "otypes u T = Some t'" "TypeDelete t' = TypeDelete t"
    using ob_frame_type [OF fr, of T t] t(2) by auto
  show ?thesis
  proof (cases "TypeDelete t = NoDeleteMethod")
    case True
    then show ?thesis using ok fr H t(1) t' by (simp add: kern)
  next
    case False
    then obtain v where "foos u (x + BODY_OFFSET) = Some v" using del ob_frame_foos [OF fr] by auto
    then have "returns (call_delete (TypeDelete t) (x + BODY_OFFSET)) u
      (\<lambda>_ v. ob_lists v Os' \<and> ob_frame s v \<and> (\<forall>y. links_header (headers v y) = F y))"
      by (rule returns_mono [OF call_delete_frame [OF False x]])
         (use ok H ob_frame_trans [OF fr ob_frame_upd(2)] in auto)
    then show ?thesis using t(1) t' False by (simp add: kern)
  qed
qed

lemma ObDereferenceObject_lists:
  assumes ok: "ob_lists s Os" and x: "x \<noteq> 0" "x + BODY_OFFSET \<noteq> 0"
    and h: "headers s x = Some h" "Magic h = OBJECT_MAGIC" "HandleCount h < PointerCount h"
    and del: "last_reference h \<Longrightarrow> deletable s Os x h"
  shows "returns (ObDereferenceObject (x + BODY_OFFSET)) s (\<lambda>_ u. ob_lists u (abs_deref Os x h)
     \<and> ob_frame s u
     \<and> (\<forall>y. links_header (headers u y) = links_header
          (((headers s)(x \<mapsto> h\<lparr>PointerCount := PointerCount h - 1\<rparr>)) y)))"
proof -
  let ?h = "h\<lparr>PointerCount := PointerCount h - 1\<rparr>"
  let ?s = "s\<lparr>headers := (headers s)(x \<mapsto> ?h)\<rparr>"
  have ok1: "ob_lists ?s Os" by (rule ob_lists_header [OF ok h(1)]) simp_all
  have pos: "PointerCount h > 0" using h(3) by (simp add: word_gt_0) auto
  have z: "PointerCount h - 1 = 0 \<longleftrightarrow> PointerCount h = 1" by (simp add: diff_eq_eq)
  show ?thesis
  proof (cases "last_reference h")
    case False
    then have "\<not> (PointerCount h = 1 \<and> and (ObjAttributes h) OBJ_PERMANENT = 0)"
      by (simp add: last_reference_def permanent_def)
    then show ?thesis
      using x h pos ok1 False z
      by (auto simp: ObDereferenceObject_def ASSERT_OBJECT_def kern Let_def abs_deref_def)
  next
    case True
    then have lr: "PointerCount h = 1" "and (ObjAttributes h) OBJ_PERMANENT = 0"
      by (simp_all add: last_reference_def permanent_def)
    obtain t where t: "ObjType h \<noteq> 0" "otypes s (ObjType h) = Some t" "x \<in> set (Os (ObjType h))"
      "TypeDelete t = NoDeleteMethod \<or> (\<exists>v. foos s (x + BODY_OFFSET) = Some v)"
      using del [OF True] by (auto simp: deletable_def)
    let ?Q = "\<lambda>u. ob_lists u (Os(ObjType h := remove1 x (Os (ObjType h)))) \<and> ob_frame s u
     \<and> (\<forall>y. links_header (headers u y) = links_header (((headers s)(x \<mapsto> ?h)) y))"
    have "returns (ObpUnlinkObjectFromTypeList x) ?s (\<lambda>_ u. returns
       (kwhen (ObjType h \<noteq> 0) (kbind (getT (ObjType h)) (\<lambda>t.
          kwhen (TypeDelete t \<noteq> NoDeleteMethod) (call_delete (TypeDelete t) (x + BODY_OFFSET))))) u
       (\<lambda>_ u. ?Q u))"
    proof (rule returns_mono [OF ObpUnlinkObjectFromTypeList_lists [OF ok1, of x ?h "ObjType h" t]])
      fix a :: unit and u
      assume u: "ob_lists u (Os(ObjType h := remove1 x (Os (ObjType h)))) \<and> ob_frame ?s u
        \<and> headers u x = Some ?h \<and> (\<forall>y. links_header (headers u y) = links_header (headers ?s y))"
      then have "ob_frame s u" using ob_frame_trans [OF ob_frame_upd(1)] by blast
      from delete_method_lists [OF x(2) t(1,2,4) this] u
      show "returns (kwhen (ObjType h \<noteq> 0) (kbind (getT (ObjType h)) (\<lambda>t.
          kwhen (TypeDelete t \<noteq> NoDeleteMethod) (call_delete (TypeDelete t) (x + BODY_OFFSET))))) u
       (\<lambda>_ u. ?Q u)" by simp
    qed (use h t in simp_all)
    then show ?thesis
      using x h pos lr z True
      by (simp add: ObDereferenceObject_def ASSERT_OBJECT_def returns_kthen returns_kbind returns_kassert
          returns_deref returns_store returns_kwhen returns_MmFree Let_def abs_deref_def)
  qed
qed

end
