(* ===== verification/ObOps.thy ===== *)
theory ObOps
  imports ObCounts
begin

text \<open>
  The handle operations of the object manager: opening, closing and referencing, each
  with its exact result, and the proof that it keeps \<open>ob_inv\<close>.
\<close>

section \<open>Word arithmetic on reference counts\<close>

lemma unat_plus_one: "w \<noteq> - 1 \<Longrightarrow> unat (w + 1 :: u32) = unat w + 1"
proof -
  assume "w \<noteq> - 1"
  then have "1 + w \<noteq> 0" by (metis add_eq_0_iff)
  then show ?thesis using unatSuc [of w] by (simp add: add.commute)
qed

lemma unat_minus_one_pos: "w > 0 \<Longrightarrow> unat (w - 1 :: u32) = unat w - 1"
  by (simp add: unat_minus_one word_gt_0)

lemma count_plus:
  "a \<le> b \<Longrightarrow> b \<noteq> - 1 \<Longrightarrow> a + 1 \<le> (b + 1 :: u32)"
  by (cases "a = - 1") (auto simp: word_le_nat_alt unat_plus_one)

lemma count_minus:
  "a \<le> b \<Longrightarrow> a > 0 \<Longrightarrow> a - 1 \<le> (b - 1 :: u32)"
  by (auto simp: word_le_nat_alt unat_minus_one_pos word_less_nat_alt)

lemma slot_index: "i < MAX_HANDLE_COUNT \<Longrightarrow> unat (of_nat i :: u32) = i"
  by (simp add: unsigned_of_nat take_bit_nat_eq_self MAX_HANDLE_COUNT_def)

lemma ob_frame_procs_current:
  "ob_frame s (t\<lparr>procs := P\<rparr>) \<Longrightarrow> KeCurrentProcess t = KeCurrentProcess s"
  using ob_frame_current [of s "t\<lparr>procs := P\<rparr>"] by simp

section \<open>Opening\<close>

definition free_slot :: "PROCESS \<Rightarrow> nat option" where
  "free_slot p = find (\<lambda>i. HtObject (HandleTable p i) = 0) [0 ..< MAX_HANDLE_COUNT]"

definition set_slot :: "nat \<Rightarrow> HANDLE_TABLE_ENTRY \<Rightarrow> PROCESS \<Rightarrow> PROCESS" where
  "set_slot i e p = p\<lparr>HandleTable := (HandleTable p)(i := e)\<rparr>"

definition add_handle :: "OBJECT_HEADER \<Rightarrow> OBJECT_HEADER" where
  "add_handle h = h\<lparr>HandleCount := HandleCount h + 1, PointerCount := PointerCount h + 1\<rparr>"

text \<open>The state after process \<open>p\<close> opened object \<open>obj\<close> in slot \<open>i\<close>.\<close>

definition opened :: "kstate \<Rightarrow> addr \<Rightarrow> PROCESS \<Rightarrow> nat \<Rightarrow> u32 \<Rightarrow> addr \<Rightarrow> OBJECT_HEADER \<Rightarrow> kstate" where
  "opened s p pr i a obj h =
     s\<lparr>procs := (procs s)(p \<mapsto> set_slot i \<lparr>HtAttributes = a, HtObject = obj\<rparr> pr),
       headers := (headers s)(OBJECT_BODY_TO_HEADER obj \<mapsto> add_handle h)\<rparr>"

lemma upt_from: "k < n \<Longrightarrow> [k ..< n] = k # [Suc k ..< n]"
  by (rule upt_conv_Cons)

lemma open_loop:
  assumes cur: "KeCurrentProcess s \<noteq> 0" "procs s (KeCurrentProcess s) = Some pr"
    and x: "OBJECT_BODY_TO_HEADER obj \<noteq> 0" "headers s (OBJECT_BODY_TO_HEADER obj) = Some h"
  shows "kloop (open_handle_step obj a) k s = Some
     (case find (\<lambda>i. HtObject (HandleTable pr i) = 0) [k ..< MAX_HANDLE_COUNT] of
        None \<Rightarrow> Return (STATUS_HANDLE_LIMIT_REACHED, 0) s
      | Some i \<Rightarrow> Return (STATUS_SUCCESS, of_nat i) (opened s (KeCurrentProcess s) pr i a obj h))"
proof (induction "MAX_HANDLE_COUNT - k" arbitrary: k)
  case 0
  then have "MAX_HANDLE_COUNT \<le> k" by simp
  then show ?case by (subst kloop.simps) (simp add: open_handle_step_def run)
next
  case (Suc n)
  then have k: "k < MAX_HANDLE_COUNT" "n = MAX_HANDLE_COUNT - Suc k" by simp_all
  show ?case
  proof (cases "HtObject (HandleTable pr k) = 0")
    case True
    then show ?thesis
      using k cur x by (subst kloop.simps)
        (simp add: open_handle_step_def run upt_from opened_def set_slot_def add_handle_def)
  next
    case False
    then have "open_handle_step obj a k s = Some (Return (Inl (k + 1)) s)"
      using k cur by (simp add: open_handle_step_def run)
    then show ?thesis
      using Suc.hyps(1) [OF k(2)] False k(1) by (subst kloop.simps) (simp add: upt_from)
  qed
qed

theorem ObOpenObjectByPointer_result:
  assumes cur: "KeCurrentProcess s \<noteq> 0" "procs s (KeCurrentProcess s) = Some pr"
    and x: "obj \<noteq> 0" "OBJECT_BODY_TO_HEADER obj \<noteq> 0" "headers s (OBJECT_BODY_TO_HEADER obj) = Some h"
      "Magic h = OBJECT_MAGIC"
  shows "ObOpenObjectByPointer obj a T s = Some
     (if T \<noteq> 0 \<and> ObjType h \<noteq> T then Return (STATUS_OBJECT_TYPE_MISMATCH, 0) s
      else case free_slot pr of
        None \<Rightarrow> Return (STATUS_HANDLE_LIMIT_REACHED, 0) s
      | Some i \<Rightarrow> Return (STATUS_SUCCESS, of_nat i) (opened s (KeCurrentProcess s) pr i a obj h))"
  using cur x open_loop [OF cur x(2,3), of a 0]
  by (auto simp: ObOpenObjectByPointer_def ASSERT_OBJECT_def free_slot_def run)

lemma free_slot_Some:
  "free_slot pr = Some i \<Longrightarrow> i < MAX_HANDLE_COUNT \<and> HtObject (HandleTable pr i) = 0
     \<and> (\<forall>j < i. HtObject (HandleTable pr j) \<noteq> 0)"
  by (auto simp: free_slot_def find_Some_iff)

lemma free_slot_None:
  "free_slot pr = None \<longleftrightarrow> (\<forall>i < MAX_HANDLE_COUNT. HtObject (HandleTable pr i) \<noteq> 0)"
  by (auto simp: free_slot_def find_None_iff)

lemma header_ok_same:
  assumes "header_ok s Os y h" and "Magic h' = Magic h" and "HandleCount h' \<le> PointerCount h'"
    and "ObjAttributes h' = ObjAttributes h" and "ObjType h' = ObjType h"
    and "PointerCount h' > 0 \<and> \<not> permanent h \<longrightarrow> PointerCount h > 0"
    and "otypes t = otypes s" and "foos t = foos s"
  shows "header_ok t Os y h'"
  using assms by (auto simp: header_ok_def deletable_def permanent_def)

lemma ob_lists_cong:
  assumes "headers t = headers s" and "otypes t = otypes s"
  shows "ob_lists t Os = ob_lists s Os"
proof -
  have "nextObject t = nextObject s" using assms(1) by (simp add: nextObject_def fun_eq_iff)
  then show ?thesis using assms by (simp add: ob_lists_def object_ok_def)
qed

lemma slots_live_upd:
  assumes "slots_live P H" and "P p = Some pr" and "i < MAX_HANDLE_COUNT"
    and "HtObject e \<noteq> 0 \<longrightarrow> (\<exists>h. H (OBJECT_BODY_TO_HEADER (HtObject e)) = Some h)"
    and "dom H \<subseteq> dom H'"
  shows "slots_live (P(p \<mapsto> set_slot i e pr)) H'"
  unfolding slots_live_def
proof (intro allI impI)
  fix obj
  assume obj: "obj \<noteq> 0 \<and> slots (P(p \<mapsto> set_slot i e pr)) obj \<noteq> {}"
  have "slots (P(p \<mapsto> set_slot i e pr)) obj
    = (if HtObject e = obj then insert (p, i) (slots P obj) else slots P obj - {(p, i)})"
    by (rule slots_upd [where P = P, OF assms(2,3)]) (simp add: set_slot_def)
  then have "HtObject e = obj \<or> slots P obj \<noteq> {}" using obj by (auto split: if_splits)
  then have "\<exists>h. H (OBJECT_BODY_TO_HEADER obj) = Some h"
    using assms(1,4) obj by (auto simp: slots_live_def)
  then show "\<exists>h. H' (OBJECT_BODY_TO_HEADER obj) = Some h" using assms(5) by blast
qed

lemma handle_count_set_slot:
  assumes "P p = Some pr" and "i < MAX_HANDLE_COUNT"
  shows "handle_count (P(p \<mapsto> set_slot i e pr)) obj =
    handle_count P obj + (if HtObject e = obj then 1 else 0)
      - (if HtObject (HandleTable pr i) = obj then 1 else 0)"
  by (rule handle_count_upd [where P = P, OF assms]) (simp add: set_slot_def)

lemma ob_inv_opened:
  assumes inv: "ob_inv s Os" and pr: "procs s p = Some pr"
    and i: "i < MAX_HANDLE_COUNT" "HtObject (HandleTable pr i) = 0"
    and obj: "obj \<noteq> 0" "headers s (OBJECT_BODY_TO_HEADER obj) = Some h"
    and live: "PointerCount h > 0 \<or> permanent h" and room: "PointerCount h \<noteq> - 1"
  shows "ob_inv (opened s p pr i a obj h) Os"
proof -
  let ?x = "OBJECT_BODY_TO_HEADER obj" and ?e = "\<lparr>HtAttributes = a, HtObject = obj\<rparr>"
  let ?H = "(headers s)(?x \<mapsto> add_handle h)" and ?P = "(procs s)(p \<mapsto> set_slot i ?e pr)"
  let ?s = "s\<lparr>procs := ?P, headers := ?H\<rparr>"
  note D = ob_invD [OF inv]
  have le: "HandleCount h \<le> PointerCount h" using D(2) [OF obj(2)] by (simp add: header_ok_def)
  have "ob_lists (s\<lparr>headers := ?H\<rparr>) Os"
    by (rule ob_lists_header [OF D(1) obj(2)]) (simp_all add: add_handle_def)
  then have lists: "ob_lists ?s Os" by (simp add: ob_lists_cong [of ?s "s\<lparr>headers := ?H\<rparr>"])
  have hdr: "header_ok ?s Os y h'" if y: "?H y = Some h'" for y h'
  proof (cases "y = ?x")
    case True
    then have h': "h' = add_handle h" using y by simp
    show ?thesis
      by (rule header_ok_same [OF D(2) [OF obj(2)], folded True])
         (use h' live count_plus [OF le room] in \<open>auto simp: add_handle_def\<close>)
  next
    case False
    then have "headers s y = Some h'" using y by simp
    note ok = D(2) [OF this]
    show ?thesis by (rule header_ok_same [OF ok]) (use ok in \<open>simp_all add: header_ok_def\<close>)
  qed
  have cnt: "counts_ok ?P ?H"
    unfolding counts_ok_def
  proof (intro allI impI)
    fix y h'
    assume y: "?H y = Some h'"
    have c: "handle_count ?P (y + BODY_OFFSET) = handle_count (procs s) (y + BODY_OFFSET)
        + (if obj = y + BODY_OFFSET then 1 else 0) - (if 0 = y + BODY_OFFSET then 1 else 0)"
      using handle_count_set_slot [where P = "procs s", OF pr i(1), of ?e "y + BODY_OFFSET"] i(2) by simp
    show "unat (HandleCount h') = handle_count ?P (y + BODY_OFFSET)"
    proof (cases "y = ?x")
      case True
      have "HandleCount h \<noteq> - 1" using le room by (auto simp: word_order.extremum_unique)
      moreover have "h' = add_handle h" using y True by simp
      ultimately show ?thesis
        using c True D(3) [OF obj(2)] obj(1) by (simp add: add_handle_def unat_plus_one)
    next
      case False
      then have hy: "headers s y = Some h'" and "obj \<noteq> y + BODY_OFFSET" using y by auto
      moreover have "y + BODY_OFFSET \<noteq> 0" using D(2) [OF hy] by (simp add: header_ok_def)
      ultimately show ?thesis using c D(3) [OF hy] by simp
    qed
  qed
  have "slots_live ?P ?H"
    by (rule slots_live_upd [OF D(4) pr i(1)]) (use obj in auto)
  then show ?thesis
    unfolding opened_def ob_inv_def using lists hdr cnt by simp
qed

section \<open>Referencing and dereferencing\<close>

definition referenced :: "kstate \<Rightarrow> addr \<Rightarrow> OBJECT_HEADER \<Rightarrow> kstate" where
  "referenced s x h = s\<lparr>headers := (headers s)(x \<mapsto> h\<lparr>PointerCount := PointerCount h + 1\<rparr>)\<rparr>"

lemma ObReferenceObject_result:
  assumes "obj \<noteq> 0" and "OBJECT_BODY_TO_HEADER obj \<noteq> 0"
    and "headers s (OBJECT_BODY_TO_HEADER obj) = Some h" and "Magic h = OBJECT_MAGIC"
  shows "ObReferenceObject obj T s = Some
     (if T \<noteq> 0 \<and> ObjType h \<noteq> T then Return STATUS_OBJECT_TYPE_MISMATCH s
      else Return STATUS_SUCCESS (referenced s (OBJECT_BODY_TO_HEADER obj) h))"
  using assms by (auto simp: ObReferenceObject_def ASSERT_OBJECT_def referenced_def run)

lemma ob_inv_referenced:
  assumes inv: "ob_inv s Os" and h: "headers s x = Some h"
    and live: "PointerCount h > 0 \<or> permanent h" and room: "PointerCount h \<noteq> - 1"
  shows "ob_inv (referenced s x h) Os"
proof -
  let ?h = "h\<lparr>PointerCount := PointerCount h + 1\<rparr>"
  let ?H = "(headers s)(x \<mapsto> ?h)"
  note D = ob_invD [OF inv]
  have le: "HandleCount h \<le> PointerCount h" using D(2) [OF h] by (simp add: header_ok_def)
  then have le': "HandleCount h \<le> PointerCount h + 1"
    using room by (simp add: word_le_nat_alt unat_plus_one)
  have lists: "ob_lists (s\<lparr>headers := ?H\<rparr>) Os" by (rule ob_lists_header [OF D(1) h]) simp_all
  have hdr: "header_ok (s\<lparr>headers := ?H\<rparr>) Os y h'" if y: "?H y = Some h'" for y h'
  proof (cases "y = x")
    case True
    then show ?thesis
      using y le' live by (intro header_ok_same [OF D(2) [OF h], folded True]) auto
  next
    case False
    then have "headers s y = Some h'" using y by simp
    note ok = D(2) [OF this]
    show ?thesis by (rule header_ok_same [OF ok]) (use ok in \<open>simp_all add: header_ok_def\<close>)
  qed
  have "counts_ok (procs s) ?H" using D(3) h by (auto simp: counts_ok_def)
  moreover have "slots_live (procs s) ?H" using D(4) by (auto simp: slots_live_def)
  ultimately show ?thesis unfolding referenced_def ob_inv_def using lists hdr by simp
qed

text \<open>Changes that the rest of a header does not see.\<close>

lemma header_ok_derefed:
  assumes ok: "header_ok s Os y h" and fr: "ob_frame s u"
    and e: "Magic h' = Magic h" "ObjAttributes h' = ObjAttributes h" "ObjType h' = ObjType h"
    and le: "HandleCount h' \<le> PointerCount h'"
    and pos: "PointerCount h' > 0 \<and> \<not> permanent h \<longrightarrow> PointerCount h > 0"
    and mem: "PointerCount h' > 0 \<and> \<not> permanent h \<Longrightarrow> y \<in> set (Os (ObjType h)) \<Longrightarrow> y \<in> set (Os' (ObjType h))"
  shows "header_ok (u\<lparr>procs := P\<rparr>) Os' y h'"
proof -
  have "deletable (u\<lparr>procs := P\<rparr>) Os' y h'" if "PointerCount h' > 0" "\<not> permanent h"
  proof -
    have "deletable s Os y h" using ok pos that by (simp add: header_ok_def)
    then obtain t where t: "ObjType h \<noteq> 0" "otypes s (ObjType h) = Some t" "y \<in> set (Os (ObjType h))"
      "TypeDelete t = NoDeleteMethod \<or> (\<exists>v. foos s (y + BODY_OFFSET) = Some v)"
      by (auto simp: deletable_def)
    then show ?thesis
      using ob_frame_type [OF fr t(2)] mem that ob_frame_foos [OF fr] e by (auto simp: deletable_def)
  qed
  moreover have "permanent h' = permanent h" using e by (simp add: permanent_def)
  ultimately show ?thesis using ok e le by (simp add: header_ok_def)
qed

lemma ob_inv_derefed:
  assumes inv: "ob_inv s Os" and h: "headers s x = Some h"
    and pc: "PointerCount h > 0" and hc: "HandleCount h' \<le> PointerCount h - 1"
    and h': "h' = h\<lparr>HandleCount := k, PointerCount := PointerCount h - 1\<rparr>"
    and lists: "ob_lists u (abs_deref Os x h)" and fr: "ob_frame s u"
    and hd: "\<And>y. links_header (headers u y) = links_header (((headers s)(x \<mapsto> h')) y)"
    and cnt: "counts_ok P ((headers s)(x \<mapsto> h'))" and live: "slots_live P (headers s)"
  shows "ob_inv (u\<lparr>procs := P\<rparr>) (abs_deref Os x h)"
proof -
  note D = ob_invD [OF inv]
  have hdr: "header_ok (u\<lparr>procs := P\<rparr>) (abs_deref Os x h) y g'" if g': "headers u y = Some g'" for y g'
  proof (cases "y = x")
    case True
    then have "links_header (Some g') = links_header (Some h')" using hd [of x] g' by simp
    from links_header_Some [OF this] have e: "Magic g' = Magic h'" "HandleCount g' = HandleCount h'"
      "PointerCount g' = PointerCount h'" "ObjAttributes g' = ObjAttributes h'" "ObjType g' = ObjType h'"
      by auto
    show ?thesis
      by (rule header_ok_derefed [OF D(2) [OF h, folded True] fr])
         (use e h' hc pc in \<open>auto simp: abs_deref_def last_reference_def\<close>)
  next
    case False
    then have "links_header (Some g') = links_header (headers s y)" using hd [of y] g' by simp
    then obtain g where g: "headers s y = Some g" by (cases "headers s y") (auto simp: links_header_def)
    then have "links_header (Some g') = links_header (Some g)" using hd [of y] g' False by simp
    from links_header_Some [OF this] have e: "Magic g' = Magic g" "HandleCount g' = HandleCount g"
      "PointerCount g' = PointerCount g" "ObjAttributes g' = ObjAttributes g" "ObjType g' = ObjType g"
      by auto
    show ?thesis
      by (rule header_ok_derefed [OF D(2) [OF g] fr])
         (use e False D(2) [OF g] in \<open>auto simp: abs_deref_def header_ok_def\<close>)
  qed
  have hc': "counts_ok P (headers u)"
    unfolding counts_ok_def
  proof (intro allI impI)
    fix y g'
    assume g': "headers u y = Some g'"
    then have l: "links_header (((headers s)(x \<mapsto> h')) y) = links_header (Some g')" using hd [of y] by simp
    then obtain g where g: "((headers s)(x \<mapsto> h')) y = Some g" "HandleCount g = HandleCount g'"
      using links_header_Some [OF l] by auto
    show "unat (HandleCount g') = handle_count P (y + BODY_OFFSET)"
      using cnt g unfolding counts_ok_def by metis
  qed
  have "slots_live P (headers u)"
    unfolding slots_live_def
  proof (intro allI impI)
    fix obj
    assume "obj \<noteq> 0 \<and> slots P obj \<noteq> {}"
    then obtain g where g: "headers s (OBJECT_BODY_TO_HEADER obj) = Some g"
      using live by (auto simp: slots_live_def)
    have "links_header (headers u (OBJECT_BODY_TO_HEADER obj)) \<noteq> None"
      using hd [of "OBJECT_BODY_TO_HEADER obj"] g by (simp add: links_header_def)
    then show "\<exists>h. headers u (OBJECT_BODY_TO_HEADER obj) = Some h" by (auto simp: links_header_def)
  qed
  then show ?thesis
    unfolding ob_inv_def using lists hdr hc' ob_lists_cong [of "u\<lparr>procs := P\<rparr>" u] by simp
qed

text \<open>Dropping one of several references, or the last one.\<close>

theorem ObDereferenceObject_inv:
  assumes inv: "ob_inv s Os" and h: "headers s x = Some h" "HandleCount h < PointerCount h"
  shows "returns (ObDereferenceObject (x + BODY_OFFSET)) s (\<lambda>_ u.
     ob_inv u (abs_deref Os x h) \<and> ob_frame s u
   \<and> (\<forall>y. links_header (headers u y) = links_header
          (((headers s)(x \<mapsto> h\<lparr>PointerCount := PointerCount h - 1\<rparr>)) y)))"
proof -
  note D = ob_invD [OF inv]
  have ok: "header_ok s Os x h" using D(2) [OF h(1)] .
  have pc: "PointerCount h > 0" using h(2) by (metis word_gt_0 word_not_simps(1))
  have hc: "HandleCount h \<le> PointerCount h - 1"
    using h(2) pc by (simp add: word_le_nat_alt word_less_nat_alt unat_minus_one_pos)
  let ?h = "h\<lparr>PointerCount := PointerCount h - 1\<rparr>"
  have cnt: "counts_ok (procs s) ((headers s)(x \<mapsto> ?h))" using D(3) h(1) by (auto simp: counts_ok_def)
  show ?thesis
  proof (rule returns_mono [OF ObDereferenceObject_lists [OF D(1), of x h]])
    show "last_reference h \<Longrightarrow> deletable s Os x h"
      using ok by (simp add: header_ok_def last_reference_def)
  next
    fix a :: unit and u
    assume u: "ob_lists u (abs_deref Os x h) \<and> ob_frame s u
      \<and> (\<forall>y. links_header (headers u y) = links_header (((headers s)(x \<mapsto> ?h)) y))"
    then have fr: "ob_frame s u" by simp
    have "ob_inv (u\<lparr>procs := procs s\<rparr>) (abs_deref Os x h)"
      by (rule ob_inv_derefed [OF inv h(1) pc _ _ _ fr _ cnt D(4), where k = "HandleCount h"])
         (use hc u in simp_all)
    then show "ob_inv u (abs_deref Os x h) \<and> ob_frame s u
      \<and> (\<forall>y. links_header (headers u y) = links_header (((headers s)(x \<mapsto> ?h)) y))"
      using u ob_frame_procs [OF fr] by (metis kstate.surjective kstate.update_convs(3))
  qed (use ok h in \<open>simp_all add: header_ok_def\<close>)
qed

section \<open>Closing\<close>

definition drop_handle :: "OBJECT_HEADER \<Rightarrow> OBJECT_HEADER" where
  "drop_handle h = h\<lparr>HandleCount := HandleCount h - 1, PointerCount := PointerCount h - 1\<rparr>"

definition closed_slot :: "nat \<Rightarrow> PROCESS \<Rightarrow> PROCESS" where
  "closed_slot i pr = set_slot i ((HandleTable pr i)\<lparr>HtObject := 0\<rparr>) pr"

lemma counts_ok_closed:
  assumes inv: "ob_inv s Os" and cur: "procs s c = Some pr"
    and i: "i < MAX_HANDLE_COUNT" "HtObject (HandleTable pr i) = obj" "obj \<noteq> 0"
    and h: "headers s (OBJECT_BODY_TO_HEADER obj) = Some h" "HandleCount h > 0"
  shows "counts_ok ((procs s)(c \<mapsto> closed_slot i pr)) ((headers s)(OBJECT_BODY_TO_HEADER obj \<mapsto> drop_handle h))"
  unfolding counts_ok_def
proof (intro allI impI)
  let ?x = "OBJECT_BODY_TO_HEADER obj" and ?P = "(procs s)(c \<mapsto> closed_slot i pr)"
  note D = ob_invD [OF inv]
  fix y h'
  assume y: "((headers s)(?x \<mapsto> drop_handle h)) y = Some h'"
  have n: "handle_count ?P (y + BODY_OFFSET) = handle_count (procs s) (y + BODY_OFFSET)
      + (if 0 = y + BODY_OFFSET then 1 else 0) - (if obj = y + BODY_OFFSET then 1 else 0)"
    using handle_count_set_slot [where P = "procs s", OF cur i(1),
        of "(HandleTable pr i)\<lparr>HtObject := 0\<rparr>" "y + BODY_OFFSET"] i(2)
    by (simp add: closed_slot_def)
  show "unat (HandleCount h') = handle_count ?P (y + BODY_OFFSET)"
  proof (cases "y = ?x")
    case True
    moreover have "h' = drop_handle h" using y True by simp
    ultimately show ?thesis
      using n D(3) [OF h(1)] i(3) h(2) by (simp add: drop_handle_def unat_minus_one_pos)
  next
    case False
    then have hy: "headers s y = Some h'" and "obj \<noteq> y + BODY_OFFSET" using y by auto
    moreover have "y + BODY_OFFSET \<noteq> 0" using D(2) [OF hy] by (simp add: header_ok_def)
    ultimately show ?thesis using n D(3) [OF hy] by simp
  qed
qed

text \<open>The reference that goes with the handle is dropped; the slot is emptied afterwards.\<close>

lemma close_dereferences:
  assumes inv: "ob_inv s Os" and cur: "procs s (KeCurrentProcess s) = Some pr"
    and i: "i < MAX_HANDLE_COUNT" "HtObject (HandleTable pr i) = obj" "obj \<noteq> 0"
    and h: "headers s (OBJECT_BODY_TO_HEADER obj) = Some h"
  shows "returns (ObDereferenceObject obj)
      (s\<lparr>headers := (headers s)(OBJECT_BODY_TO_HEADER obj \<mapsto> h\<lparr>HandleCount := HandleCount h - 1\<rparr>)\<rparr>) (\<lambda>_ u.
      procs u = procs s \<and> KeCurrentProcess u = KeCurrentProcess s \<and> ob_frame s u
      \<and> ob_inv (u\<lparr>procs := (procs s)(KeCurrentProcess s \<mapsto> closed_slot i pr)\<rparr>) (abs_deref Os (OBJECT_BODY_TO_HEADER obj) h)
      \<and> (\<forall>y. links_header (headers u y) = links_header
          (((headers s)(OBJECT_BODY_TO_HEADER obj \<mapsto> drop_handle h)) y)))"
proof -
  note D = ob_invD [OF inv]
  let ?x = "OBJECT_BODY_TO_HEADER obj" and ?cur = "KeCurrentProcess s"
  let ?h1 = "h\<lparr>HandleCount := HandleCount h - 1\<rparr>" and ?P = "(procs s)(KeCurrentProcess s \<mapsto> closed_slot i pr)"
  let ?s = "s\<lparr>headers := (headers s)(?x \<mapsto> ?h1)\<rparr>"
  have ok: "header_ok s Os ?x h" using D(2) [OF h] .
  have pos: "HandleCount h > 0" using ob_inv_slot [OF inv cur i(1) i(2) i(3)] h by auto
  have le: "HandleCount h \<le> PointerCount h" using ok by (simp add: header_ok_def)
  have pc: "PointerCount h > 0" using pos le by (rule less_le_trans)
  have hc: "HandleCount h - 1 \<le> PointerCount h - 1" by (rule count_minus [OF le pos])
  have ab: "abs_deref Os ?x ?h1 = abs_deref Os ?x h"
    by (simp add: abs_deref_def last_reference_def permanent_def)
  have lists: "ob_lists ?s Os" by (rule ob_lists_header [OF D(1) h]) simp_all
  have less: "HandleCount ?h1 < PointerCount ?h1"
    using le pos pc by (simp add: word_le_nat_alt word_less_nat_alt unat_minus_one_pos)
  note cnt = counts_ok_closed [OF inv cur i h pos]
  have live: "slots_live ?P (headers s)"
    unfolding closed_slot_def by (rule slots_live_upd [OF D(4) cur i(1)]) simp_all
  note deref = ObDereferenceObject_lists [OF lists, of ?x ?h1, unfolded body_header(2)]
  show ?thesis
  proof (rule returns_mono [OF deref], goal_cases)
    case (7 a u)
    then have fr: "ob_frame s u" using ob_frame_trans [OF ob_frame_upd(1)] by blast
    have hd: "\<forall>y. links_header (headers u y) = links_header
          (((headers s)(?x \<mapsto> drop_handle h)) y)" using 7 by (simp add: drop_handle_def)
    have "ob_inv (u\<lparr>procs := ?P\<rparr>) (abs_deref Os ?x h)"
      by (rule ob_inv_derefed [OF inv h pc _ drop_handle_def _ fr _ cnt live])
         (use hc hd 7 ab in \<open>simp_all add: drop_handle_def\<close>)
    then show ?case using fr hd ob_frame_procs [OF fr] ob_frame_current [OF fr] by simp
  qed (use ok h less in \<open>auto simp: header_ok_def last_reference_def permanent_def deletable_def\<close>)
qed

theorem ObCloseHandle_inv:
  assumes inv: "ob_inv s Os" and cur: "KeCurrentProcess s \<noteq> 0"
      "procs s (KeCurrentProcess s) = Some pr"
    and i: "unat hnd < MAX_HANDLE_COUNT" "HtObject (HandleTable pr (unat hnd)) = obj" "obj \<noteq> 0"
    and h: "headers s (OBJECT_BODY_TO_HEADER obj) = Some h"
  shows "returns (ObCloseHandle hnd) s (\<lambda>r u. r = STATUS_SUCCESS
   \<and> ob_inv u (abs_deref Os (OBJECT_BODY_TO_HEADER obj) h)
   \<and> procs u = (procs s)(KeCurrentProcess s \<mapsto> closed_slot (unat hnd) pr)
   \<and> ob_frame s (u\<lparr>procs := procs s\<rparr>)
   \<and> (\<forall>y. links_header (headers u y) = links_header
          (((headers s)(OBJECT_BODY_TO_HEADER obj \<mapsto> drop_handle h)) y)))"
proof -
  let ?x = "OBJECT_BODY_TO_HEADER obj" and ?cur = "KeCurrentProcess s" and ?i = "unat hnd"
  have ok: "header_ok s Os ?x h" using ob_invD(2) [OF inv h] .
  have clear: "returns (setP ?cur (\<lambda>p. p\<lparr>HandleTable :=
                 (HandleTable p)(?i := (HandleTable p ?i)\<lparr>HtObject := 0\<rparr>)\<rparr>)) u (\<lambda>_ v.
       ob_inv v (abs_deref Os ?x h) \<and> procs v = (procs s)(?cur \<mapsto> closed_slot ?i pr) \<and> ob_frame s (v\<lparr>procs := procs s\<rparr>)
       \<and> (\<forall>y. links_header (headers v y) = links_header (((headers s)(?x \<mapsto> drop_handle h)) y)))"
    if u: "procs u = procs s" "KeCurrentProcess u = ?cur" "ob_frame s u"
      "ob_inv (u\<lparr>procs := (procs s)(?cur \<mapsto> closed_slot ?i pr)\<rparr>) (abs_deref Os ?x h)"
      "\<forall>y. links_header (headers u y) = links_header (((headers s)(?x \<mapsto> drop_handle h)) y)" for u
  proof -
    have "u\<lparr>procs := procs s\<rparr> = u" using u(1) by (metis kstate.surjective kstate.update_convs(3))
    then have fr: "ob_frame s (u\<lparr>procs := procs s\<rparr>)" using u(3) by simp
    show ?thesis using u cur fr by (simp add: returns_store closed_slot_def set_slot_def)
  qed
  have "returns (ObDereferenceObject obj) (s\<lparr>headers := (headers s)(?x \<mapsto> h\<lparr>HandleCount := HandleCount h - 1\<rparr>)\<rparr>) (\<lambda>_ u.
      returns (setP ?cur (\<lambda>p. p\<lparr>HandleTable := (HandleTable p)(?i := (HandleTable p ?i)\<lparr>HtObject := 0\<rparr>)\<rparr>)) u (\<lambda>_ v.
       ob_inv v (abs_deref Os ?x h) \<and> procs v = (procs s)(?cur \<mapsto> closed_slot ?i pr) \<and> ob_frame s (v\<lparr>procs := procs s\<rparr>)
       \<and> (\<forall>y. links_header (headers v y) = links_header (((headers s)(?x \<mapsto> drop_handle h)) y))))"
    by (rule returns_mono [OF close_dereferences [OF inv cur(2) i h]], elim conjE, rule clear)
  then show ?thesis
    using cur i h ok
    by (simp add: ObCloseHandle_def ASSERT_OBJECT_def returns_kbind returns_kthen returns_kget returns_deref
        returns_store returns_kassert returns_kreturn Let_def header_ok_def)
qed

theorem ObCloseHandle_invalid:
  assumes "MAX_HANDLE_COUNT \<le> unat hnd
     \<or> KeCurrentProcess s \<noteq> 0 \<and> procs s (KeCurrentProcess s) = Some pr
       \<and> HtObject (HandleTable pr (unat hnd)) = 0"
  shows "ObCloseHandle hnd s = Some (Return STATUS_INVALID_HANDLE s)"
  using assms by (auto simp: ObCloseHandle_def run Let_def)

theorem ObReferenceObjectByHandle_result:
  assumes "KeCurrentProcess s \<noteq> 0" and "procs s (KeCurrentProcess s) = Some pr"
    and "unat hnd < MAX_HANDLE_COUNT \<Longrightarrow> HtObject (HandleTable pr (unat hnd)) \<noteq> 0 \<Longrightarrow>
      OBJECT_BODY_TO_HEADER (HtObject (HandleTable pr (unat hnd))) \<noteq> 0
      \<and> headers s (OBJECT_BODY_TO_HEADER (HtObject (HandleTable pr (unat hnd)))) = Some h
      \<and> Magic h = OBJECT_MAGIC"
  shows "ObReferenceObjectByHandle hnd T s = Some
     (if MAX_HANDLE_COUNT \<le> unat hnd \<or> HtObject (HandleTable pr (unat hnd)) = 0
      then Return (STATUS_INVALID_HANDLE, 0) s
      else if T \<noteq> 0 \<and> ObjType h \<noteq> T then Return (STATUS_OBJECT_TYPE_MISMATCH, 0) s
      else Return (STATUS_SUCCESS, HtObject (HandleTable pr (unat hnd)))
        (referenced s (OBJECT_BODY_TO_HEADER (HtObject (HandleTable pr (unat hnd)))) h))"
  using assms
  by (auto simp: ObReferenceObjectByHandle_def ASSERT_OBJECT_def referenced_def run Let_def not_le)

end
