(* ===== verification/Demo.thy ===== *)
theory Demo
  imports SchedTimer ObOps
begin

text \<open>
  Concrete machine states.  \<open>boot_state\<close> is the kernel's memory before any initialisation:
  the globals at their initial values, an empty heap.  \<open>sched_demo\<close> has four processes: process 0 runs, one is
  ready, one blocked, one asleep until tick 100.  \<open>ob_demo\<close> has one type with two objects,
  the first of them open in the running process's handle slot 0.
\<close>

definition zero_context :: CONTEXT where
  "zero_context = \<lparr>At = 0, V0 = 0, V1 = 0, A0 = 0, A1 = 0, A2 = 0, A3 = 0,
     T0 = 0, T1 = 0, T2 = 0, T3 = 0, T4 = 0, T5 = 0, T6 = 0, T7 = 0,
     S0 = 0, S1 = 0, S2 = 0, S3 = 0, S4 = 0, S5 = 0, S6 = 0, S7 = 0,
     T8 = 0, T9 = 0, K0 = 0, K1 = 0, Gp = 0, Sp = 0, Fp = 0, Ra = 0, Hi = 0, Lo = 0, Pc = 0\<rparr>"

definition zero_uart :: NS16550 where
  "zero_uart = \<lparr>uRbr = 0, uIer = 0, uIir = 0, uLcr = 0, uMcr = 0, uLsr = 0, uMsr = 0, uScratch = 0\<rparr>"

definition boot_state :: kstate where
  "boot_state = \<lparr>
     freeMemPointer = 0,
     mem = (\<lambda>_. 0), procs = Map.empty, headers = Map.empty, otypes = Map.empty,
     waitents = Map.empty, messages = Map.empty, mnodes = Map.empty, files = Map.empty,
     wnodes = Map.empty, bnodes = Map.empty, foos = Map.empty, pinfos = Map.empty,
     ObTypeObjectListHead = 0,
     KepReadyQueues = (\<lambda>_. \<lparr>First = 0, Last = 0\<rparr>), KepBlockedList = 0, KepTimerList = 0,
     KeCurrentProcess = 0, KepTickCount = 0,
     processType = 0, processQueue = None,
     fileType = 0, serialFile = 0, lcdFile = 0,
     fifo = \<lparr>fifoBuffer = replicate FIFO_SIZE 0, fifoLength = 0\<rparr>,
     waitingQueue = None, bufferQueue = None, outputPointer = 0, doneWriting = True,
     commandBufferPosition = 0, interrupts = False, timerTicks = 0, ttyReady = (\<lambda>_. True), tty2Ready = (\<lambda>_. True), kdOut = [],
     serialOut = [], lcdMem = (\<lambda>_. 0), ttyRegs = zero_uart, tty2Regs = zero_uart, stdout = []\<rparr>"

definition demo_process :: "u32 \<Rightarrow> PROCESS_STATE \<Rightarrow> u32 \<Rightarrow> PROCESS" where
  "demo_process pid st prio = \<lparr>Context = zero_context,
     HandleTable = (\<lambda>_. \<lparr>HtAttributes = 0, HtObject = 0\<rparr>), State = st, RunningProgram = 0,
     PID = pid, Priority = prio, ExitStatus = 0, AllocatedMemory = 0, CPUTime = 0, WakeUpTime = 0,
     Quantum = 5, Args = 0, MessageQueue = 0, Supervisor = 0, ResumeMethod = NoResumeMethod,
     NextPCB = 0\<rparr>"

section \<open>Four processes\<close>

definition sched_demo :: kstate where
  "sched_demo = boot_state\<lparr>
     freeMemPointer := 0x9000,
     procs := [0x1000 \<mapsto> demo_process 1 running 3, 0x2000 \<mapsto> demo_process 2 ready 1,
               0x3000 \<mapsto> demo_process 3 blocked 7,
               0x4000 \<mapsto> (demo_process 4 blocked 5)\<lparr>WakeUpTime := 100, ResumeMethod := MessResumeMethod\<rparr>],
     KepReadyQueues := (KepReadyQueues boot_state)(1 := \<lparr>First = 0x2000, Last = 0x2000\<rparr>),
     KepBlockedList := 0x3000, KepTimerList := 0x4000, KeCurrentProcess := 0x1000,
     KepTickCount := 95, processQueue := Some \<lparr>mqFirst = 0, mqLast = 0\<rparr>\<rparr>"

definition sched_demo_lists :: "qid \<Rightarrow> addr list" where
  "sched_demo_lists = (\<lambda>_. [])(ReadyQ 1 := [0x2000], BlockedQ := [0x3000], TimerQ := [0x4000])"

lemma sched_demo_inv: "sched_inv sched_demo sched_demo_lists"
proof -
  have c: "chain (nextp (procs sched_demo)) (qhead (KepReadyQueues sched_demo)
      (KepBlockedList sched_demo) (KepTimerList sched_demo) q) (sched_demo_lists q)
    \<and> (\<forall>x \<in> set (sched_demo_lists q). \<exists>p. procs sched_demo x = Some p \<and> member_ok q p)"
    if "valid_q q" for q
    by (cases q) (simp_all add: sched_demo_def boot_state_def sched_demo_lists_def nextp_def
        demo_process_def PROCESS_PRIORITY_LEVELS_def)
  moreover have "sched_demo_lists (ReadyQ i) \<noteq> [] \<longrightarrow>
      Last (KepReadyQueues sched_demo i) = last (sched_demo_lists (ReadyQ i))" for i
    by (simp add: sched_demo_def boot_state_def sched_demo_lists_def)
  moreover have "set (sched_demo_lists BlockedQ) \<inter> set (sched_demo_lists TimerQ) = {}"
    "by_wake (procs sched_demo) (sched_demo_lists TimerQ)"
    by (simp_all add: sched_demo_lists_def by_wake_def)
  ultimately have "sched_lists sched_demo sched_demo_lists"
    unfolding sched_lists_def lists_ok_def by blast
  then show ?thesis
    by (simp add: sched_inv_def current_ok_def)
       (simp add: sched_demo_def boot_state_def demo_process_def PROCESS_PRIORITY_LEVELS_def)
qed

lemma sched_demo_mq: "mq_inv sched_demo"
  by (simp add: mq_inv_def nodes_ordered_def queue_ends_def sched_demo_def boot_state_def)

lemma sched_demo_quantum: "quantum_ok sched_demo"
  by (simp add: quantum_ok_def sched_demo_def boot_state_def demo_process_def)

lemma sched_demo_current: "KeCurrentProcess sched_demo = 0x1000" "KepTickCount sched_demo = 95"
  by (simp_all add: sched_demo_def)

lemma sched_demo_procs:
  "procs sched_demo 0x1000 = Some (demo_process 1 running 3)"
  "procs sched_demo 0x2000 = Some (demo_process 2 ready 1)"
  "procs sched_demo 0x3000 = Some (demo_process 3 blocked 7)"
  "procs sched_demo 0x4000 = Some ((demo_process 4 blocked 5)\<lparr>WakeUpTime := 100, ResumeMethod := MessResumeMethod\<rparr>)"
  by (simp_all add: sched_demo_def)

lemma demo_process_sel [simp]:
  "Priority (demo_process pid st prio) = prio" "State (demo_process pid st prio) = st"
  "HandleTable (demo_process pid st prio) i = \<lparr>HtAttributes = 0, HtObject = 0\<rparr>"
  "Quantum (demo_process pid st prio) = 5" "NextPCB (demo_process pid st prio) = 0"
  by (simp_all add: demo_process_def)

section \<open>A type with two objects\<close>

definition demo_header :: "u32 \<Rightarrow> u32 \<Rightarrow> addr \<Rightarrow> OBJECT_HEADER" where
  "demo_header hc pc nx = \<lparr>Magic = OBJECT_MAGIC, HandleCount = hc, PointerCount = pc,
     ObjAttributes = 0, SignalState = 0, WaitQueue = 0, ObjType = 0x100, NextObjectOfType = nx\<rparr>"

definition ob_demo :: kstate where
  "ob_demo = boot_state\<lparr>
     freeMemPointer := 0x9000, KeCurrentProcess := 0x1000,
     procs := [0x1000 \<mapsto> set_slot 0 \<lparr>HtAttributes = OBJ_INHERIT, HtObject = 0x520\<rparr>
                 (demo_process 1 running 3)],
     headers := [0x500 \<mapsto> demo_header 1 1 0x600, 0x600 \<mapsto> demo_header 0 2 0],
     otypes := [0x100 \<mapsto> \<lparr>TypeName = 0x464F4F20, FirstObjectOfType = 0x500, NextTypeObject = 0,
                  TypeDump = NoDumpMethod, TypeDelete = DeleteFooMethod\<rparr>],
     foos := [0x520 \<mapsto> 1, 0x620 \<mapsto> 2]\<rparr>"

definition ob_demo_lists :: "addr \<Rightarrow> addr list" where
  "ob_demo_lists = (\<lambda>_. [])(0x100 := [0x500, 0x600])"

lemma ob_demo_slots: "slots (procs ob_demo) obj =
    (if obj = 0x520 then {(0x1000, 0)} else if obj = 0 then {0x1000} \<times> {1 ..< MAX_HANDLE_COUNT} else {})"
  by (auto simp: slots_def ob_demo_def set_slot_def MAX_HANDLE_COUNT_def split: if_splits)

lemma ob_demo_inv: "ob_inv ob_demo ob_demo_lists"
proof -
  have l: "ob_lists ob_demo ob_demo_lists"
    by (simp add: ob_lists_def object_ok_def ob_demo_def ob_demo_lists_def nextObject_def
        demo_header_def boot_state_def)
  have d: "headers ob_demo x = Some h \<Longrightarrow> x = 0x500 \<and> h = demo_header 1 1 0x600
      \<or> x = 0x600 \<and> h = demo_header 0 2 0" for x h
    by (simp add: ob_demo_def split: if_splits)
  have c: "counts_ok (procs ob_demo) (headers ob_demo)"
    unfolding counts_ok_def handle_count_def ob_demo_slots
    by (auto dest!: d simp: demo_header_def BODY_OFFSET_def)
  have h: "header_ok ob_demo ob_demo_lists x h" if "headers ob_demo x = Some h" for x h
    using d [OF that] by (auto simp: header_ok_def deletable_def demo_header_def BODY_OFFSET_def
        ob_demo_def ob_demo_lists_def boot_state_def)
  have "slots_live (procs ob_demo) (headers ob_demo)"
    unfolding slots_live_def ob_demo_slots
    by (simp add: ob_demo_def OBJECT_BODY_TO_HEADER_def BODY_OFFSET_def)
  then show ?thesis unfolding ob_inv_def using l c h by simp
qed

lemma ob_demo_sel:
  "KeCurrentProcess ob_demo = 0x1000"
  "procs ob_demo 0x1000 = Some (set_slot 0 \<lparr>HtAttributes = OBJ_INHERIT, HtObject = 0x520\<rparr>
     (demo_process 1 running 3))"
  "headers ob_demo 0x500 = Some (demo_header 1 1 0x600)"
  "headers ob_demo 0x600 = Some (demo_header 0 2 0)"
  by (simp_all add: ob_demo_def)

end
