(* ===== verification/SchedSpec.thy ===== *)
theory SchedSpec
  imports Demo
begin

text \<open>
  The properties of the scheduler: the contract its clients rely on (locale
  \<open>scheduler_service\<close>, interpreted on the model), the refinement of every operation by an
  operation on the abstract lists, and the safety of every sequence of scheduling events.
\<close>

section \<open>The contract\<close>

definition good :: "kstate \<Rightarrow> bool" where
  "good s \<longleftrightarrow> (\<exists>L. sched_inv s L) \<and> mq_inv s \<and> quantum_ok s"

definition sleeps :: "kstate \<Rightarrow> addr \<Rightarrow> bool" where
  "sleeps s p \<longleftrightarrow> (\<exists>L. sched_inv s L \<and> sleeping L p)"

definition no_process_left :: halt where
  "no_process_left = BugCheck ''Critical system process terminated or blocked unexpectedly''"

text \<open>
  Blocking and sleeping return in a good state or find no process left to run; resuming a
  sleeping process returns in a good state and leaves all other sleeping processes asleep.
\<close>

locale scheduler_service =
  fixes good :: "'s \<Rightarrow> bool" and sleeps :: "'s \<Rightarrow> addr \<Rightarrow> bool" and frame :: "'s \<Rightarrow> 's \<Rightarrow> bool"
    and block :: "('s, unit) kmonad" and suspend :: "u32 \<Rightarrow> RESUME_METHOD \<Rightarrow> ('s, unit) kmonad"
    and resume :: "addr \<Rightarrow> ('s, unit) kmonad" and stuck :: halt
  assumes frame_refl: "frame s s"
    and frame_trans: "frame s t \<Longrightarrow> frame t u \<Longrightarrow> frame s u"
    and block_good: "good s \<Longrightarrow> returns block s (\<lambda>_ t. good t \<and> frame s t) \<or> halts block s stuck"
    and suspend_good: "good s \<Longrightarrow>
      returns (suspend n m) s (\<lambda>_ t. good t \<and> frame s t) \<or> halts (suspend n m) s stuck"
    and resume_good: "good s \<Longrightarrow> sleeps s p \<Longrightarrow>
      returns (resume p) s (\<lambda>_ t. good t \<and> frame s t \<and> (\<forall>q. q \<noteq> p \<and> sleeps s q \<longrightarrow> sleeps t q))"
begin

text \<open>Waking every process of a list, as \<^verbatim>\<open>ObSignalObject\<close> does.\<close>

lemma resume_all:
  assumes "good s" and "distinct ps" and "\<forall>p \<in> set ps. sleeps s p"
  shows "returns (kfor ps resume) s (\<lambda>_ t. good t \<and> frame s t)"
  using assms
proof (induction ps arbitrary: s)
  case Nil
  then show ?case by (simp add: returns_kreturn frame_refl)
next
  case (Cons p ps)
  have "returns (resume p) s (\<lambda>_ t. good t \<and> frame s t \<and> (\<forall>q. q \<noteq> p \<and> sleeps s q \<longrightarrow> sleeps t q))"
    using Cons.prems by (intro resume_good) simp_all
  then show ?case
    unfolding returns_kfor_Cons
  proof (rule returns_mono)
    fix a :: unit and t
    assume t: "good t \<and> frame s t \<and> (\<forall>q. q \<noteq> p \<and> sleeps s q \<longrightarrow> sleeps t q)"
    have "returns (kfor ps resume) t (\<lambda>_ u. good u \<and> frame t u)"
      using t Cons.prems by (intro Cons.IH) auto
    then show "returns (kfor ps resume) t (\<lambda>_ u. good u \<and> frame s u)"
      by (rule returns_mono) (use t frame_trans in blast)
  qed
qed

end

section \<open>The model provides it\<close>

lemma KeBlockProcess_good:
  assumes "good s"
  shows "returns KeBlockProcess s (\<lambda>_ t. good t \<and> ke_frame s t)
    \<or> halts KeBlockProcess s no_process_left"
proof -
  obtain L where L: "sched_inv s L" "mq_inv s" using assms by (auto simp: good_def)
  have mq: "mq_inv t" if "ke_frame s t" "mnodes t = mnodes s" "processQueue t = processQueue s" for t
    using that(2,3) ke_frame_free [OF that(1)] L(2) by (simp add: mq_inv_def)
  show ?thesis
  proof (cases "abs_block L (KeCurrentProcess s)")
    case None
    then show ?thesis using KeBlockProcess_lists [OF L(1)] by (simp add: no_process_left_def)
  next
    case (Some y)
    then have "returns KeBlockProcess s (\<lambda>_ t. sched_inv t (snd y) \<and> KeCurrentProcess t = fst y
        \<and> quantum_ok t \<and> ke_frame s t \<and> mnodes t = mnodes s \<and> processQueue t = processQueue s)"
      using KeBlockProcess_lists [OF L(1)] by (simp add: case_prod_unfold)
    then have "returns KeBlockProcess s (\<lambda>_ t. good t \<and> ke_frame s t)"
      by (rule returns_mono) (auto simp: good_def intro: mq)
    then show ?thesis by simp
  qed
qed

lemma KeSuspendProcess_good:
  assumes "good s"
  shows "returns (KeSuspendProcess ms R) s (\<lambda>_ t. good t \<and> ke_frame s t)
    \<or> halts (KeSuspendProcess ms R) s no_process_left"
proof -
  obtain L where L: "sched_inv s L" "mq_inv s" using assms by (auto simp: good_def)
  show ?thesis
  proof (cases "abs_suspend L (wake (procs s)) (KepTickCount s + ms) (KeCurrentProcess s)")
    case None
    then show ?thesis using KeSuspendProcess_lists [OF L, of ms R] by (simp add: no_process_left_def)
  next
    case (Some y)
    then have "returns (KeSuspendProcess ms R) s (\<lambda>_ t. sched_inv t (snd y)
        \<and> KeCurrentProcess t = fst y \<and> mq_inv t \<and> quantum_ok t \<and> ke_frame s t
        \<and> KepTickCount t = KepTickCount s)"
      using KeSuspendProcess_lists [OF L, of ms R] by (simp add: case_prod_unfold)
    then have "returns (KeSuspendProcess ms R) s (\<lambda>_ t. good t \<and> ke_frame s t)"
      by (rule returns_mono) (auto simp: good_def)
    then show ?thesis by simp
  qed
qed

text \<open>The abstract lists are determined by the state.\<close>

lemma sched_lists_unique:
  assumes "sched_inv s L" and "sched_inv s M" and "valid_q q"
  shows "L q = M q"
  using lists_chain [OF sched_listsD assms(3)] assms(1,2) chain_unique
  by (metis sched_inv_def)

lemma sleeping_unique:
  assumes L: "sched_inv s L"
  shows "sleeps s p \<longleftrightarrow> sleeping L p"
proof -
  have "M BlockedQ = L BlockedQ" "M TimerQ = L TimerQ" if "sched_inv s M" for M
    using sched_lists_unique [OF that L, of BlockedQ] sched_lists_unique [OF that L, of TimerQ] by simp_all
  then have "sleeping M p = sleeping L p" if "sched_inv s M" for M using that by (simp add: sleeping_def)
  then show ?thesis using L unfolding sleeps_def by blast
qed

lemma KeResumeProcess_good:
  assumes g: "good s" and p: "sleeps s p"
  shows "returns (KeResumeProcess p) s (\<lambda>_ t. good t \<and> ke_frame s t
    \<and> (\<forall>q. q \<noteq> p \<and> sleeps s q \<longrightarrow> sleeps t q))"
proof -
  obtain L where L: "sched_inv s L" "mq_inv s" "quantum_ok s" using g by (auto simp: good_def)
  have sl: "sleeping L p" using p sleeping_unique [OF L(1)] by simp
  obtain c where ok: "sched_lists s L" and c: "procs s (KeCurrentProcess s) = Some c"
    "unat (Priority c) < PROCESS_PRIORITY_LEVELS" by (rule sched_invD [OF L(1)])
  obtain pr where pr: "procs s p = Some pr" "unat (Priority pr) < PROCESS_PRIORITY_LEVELS"
    by (rule sleeping_member [OF ok sl])
  obtain n L' where ab: "abs_resume L (KeCurrentProcess s) (unat (Priority c)) p (unat (Priority pr)) = (n, L')"
    by fastforce
  note r = abs_resume_runnable [OF ab c(2) pr(2)]
  show ?thesis
  proof (rule returns_mono [OF KeResumeProcess_lists [OF L(1,2) pr(1) sl c(1) ab]])
    fix a :: unit and t
    assume t: "sched_inv t L' \<and> KeCurrentProcess t = n \<and> mq_inv t \<and> (quantum_ok s \<longrightarrow> quantum_ok t)
      \<and> ke_frame s t \<and> KepTickCount t = KepTickCount s \<and> core_only (procs s) (procs t)"
    have "sleeps t q" if "q \<noteq> p" "sleeps s q" for q
    proof -
      have "sleeping L q" using that(2) sleeping_unique [OF L(1)] by simp
      then have "sleeping L' q" using r that(1) by (auto simp: sleeping_def)
      then show ?thesis using t by (auto simp: sleeps_def)
    qed
    then show "good t \<and> ke_frame s t \<and> (\<forall>q. q \<noteq> p \<and> sleeps s q \<longrightarrow> sleeps t q)"
      using t L(3) by (auto simp: good_def)
  qed
qed

interpretation ke: scheduler_service good sleeps ke_frame KeBlockProcess KeSuspendProcess
  KeResumeProcess no_process_left
  by unfold_locales
    (simp, erule (1) ke_frame_trans, erule KeBlockProcess_good, erule KeSuspendProcess_good,
     erule (1) KeResumeProcess_good)

section \<open>Refinement of the operations\<close>

text \<open>C1: resuming a blocked or sleeping process runs to completion, whatever the process
  waits for, and does on the kernel's linked lists what \<open>abs_resume\<close> does on the abstract
  lists: the process leaves the list it sleeps in, is appended to the ready queue of its
  priority, and preempts the current process exactly when its priority is higher.  The
  invariants of the scheduler and of the message wait queue are kept.\<close>

theorem KeResumeProcess_refines:
  assumes "sched_inv s L" and "mq_inv s" and "procs s p = Some pr" and "sleeping L p"
    and "procs s (KeCurrentProcess s) = Some c"
    and "abs_resume L (KeCurrentProcess s) (unat (Priority c)) p (unat (Priority pr)) = (n, L')"
  shows "returns (KeResumeProcess p) s (\<lambda>_ t. sched_inv t L' \<and> KeCurrentProcess t = n \<and> mq_inv t
     \<and> ke_frame s t \<and> KepTickCount t = KepTickCount s)"
  by (rule returns_mono [OF KeResumeProcess_lists [OF assms]]) simp

lemma sched_demo_resume: "fst (abs_resume sched_demo_lists 0x1000 3 0x3000 7) = 0x3000"
  unfolding sched_demo_lists_def by code_simp

lemma KeResumeProcess_refines_witness:
  "returns (KeResumeProcess 0x3000) sched_demo (\<lambda>_ t. KeCurrentProcess t = 0x3000
     \<and> sched_inv t (snd (abs_resume sched_demo_lists 0x1000 3 0x3000 7)))"
proof -
  let ?L = "snd (abs_resume sched_demo_lists 0x1000 3 0x3000 7)"
  have ab: "abs_resume sched_demo_lists 0x1000 3 0x3000 7 = (0x3000, ?L)"
    using sched_demo_resume by (simp add: prod_eq_iff)
  have "returns (KeResumeProcess 0x3000) sched_demo (\<lambda>_ t. sched_inv t ?L \<and> KeCurrentProcess t = 0x3000
      \<and> mq_inv t \<and> ke_frame sched_demo t \<and> KepTickCount t = KepTickCount sched_demo)"
    by (rule KeResumeProcess_refines [where c = "demo_process 1 running 3",
          OF sched_demo_inv sched_demo_mq sched_demo_procs(3)])
       (use ab in \<open>simp_all add: sched_demo_current sched_demo_procs sleeping_def sched_demo_lists_def\<close>)
  then show ?thesis by (rule returns_mono) simp
qed

text \<open>C2: the current process blocks: it becomes the head of the blocked list and the first
  process of the highest non-empty ready queue runs with a full quantum of five ticks; when no process is
  ready the kernel stops with the bug check meant for that.\<close>

theorem KeBlockProcess_refines:
  assumes "sched_inv s L"
  shows "case abs_block L (KeCurrentProcess s) of
      Some (n, L') \<Rightarrow> returns KeBlockProcess s (\<lambda>_ t. sched_inv t L' \<and> KeCurrentProcess t = n
        \<and> (\<exists>p. procs t n = Some p \<and> Quantum p = 5) \<and> quantum_ok t
        \<and> ke_frame s t \<and> mnodes t = mnodes s \<and> processQueue t = processQueue s)
    | None \<Rightarrow> halts KeBlockProcess s no_process_left"
  using KeBlockProcess_run [OF assms] unfolding no_process_left_def
  by (auto simp: quantum_ok_def split: option.splits elim!: returns_mono)

lemma sched_demo_block: "map_option fst (abs_block sched_demo_lists 0x1000) = Some 0x2000"
  unfolding sched_demo_lists_def by code_simp

lemma KeBlockProcess_refines_witness:
  "returns KeBlockProcess sched_demo (\<lambda>_ t. KeCurrentProcess t = 0x2000)"
proof -
  obtain L' where "abs_block sched_demo_lists 0x1000 = Some (0x2000, L')"
    using sched_demo_block by auto
  then show ?thesis
    using KeBlockProcess_refines [OF sched_demo_inv] by (simp add: sched_demo_current) (erule returns_mono, simp)
qed

text \<open>C3: a process that sleeps for some milliseconds is inserted into the timer list at the
  place that keeps it sorted by wake-up time, with its wake-up time and its resume method stored
  in its PCB, and another
  process runs; when none is ready the kernel stops with the bug check meant for that.\<close>

theorem KeSuspendProcess_refines:
  assumes "sched_inv s L" and "mq_inv s"
  shows "case abs_suspend L (wake (procs s)) (KepTickCount s + ms) (KeCurrentProcess s) of
      Some (n, L') \<Rightarrow> returns (KeSuspendProcess ms R) s (\<lambda>_ t. sched_inv t L'
        \<and> KeCurrentProcess t = n \<and> mq_inv t \<and> quantum_ok t \<and> ke_frame s t
        \<and> KepTickCount t = KepTickCount s \<and> mnodes t = mnodes s \<and> processQueue t = processQueue s
        \<and> (\<exists>c. procs t (KeCurrentProcess s) = Some c \<and> WakeUpTime c = KepTickCount s + ms \<and> ResumeMethod c = R))
    | None \<Rightarrow> halts (KeSuspendProcess ms R) s no_process_left"
  using KeSuspendProcess_run [OF assms] unfolding no_process_left_def sleeps_until_def .

lemma sched_demo_suspend:
  "map_option (\<lambda>(n, L). (n, L TimerQ)) (abs_suspend sched_demo_lists (\<lambda>_. 100) 125 0x1000)
     = Some (0x2000, [0x4000, 0x1000])"
  unfolding sched_demo_lists_def by code_simp

lemma KeSuspendProcess_refines_witness:
  "returns (KeSuspendProcess 30 NoResumeMethod) sched_demo (\<lambda>_ t. KeCurrentProcess t = 0x2000
     \<and> (\<exists>L'. sched_inv t L' \<and> L' TimerQ = [0x4000, 0x1000]))"
proof -
  have W: "abs_insert (wake (procs sched_demo)) 125 0x1000 (sched_demo_lists TimerQ)
      = abs_insert (\<lambda>_. 100) 125 0x1000 (sched_demo_lists TimerQ)"
    by (rule abs_insert_cong) (simp add: sched_demo_lists_def wake_def sched_demo_procs)
  obtain L' where L': "abs_suspend sched_demo_lists (wake (procs sched_demo)) 125 0x1000 = Some (0x2000, L')"
    "L' TimerQ = [0x4000, 0x1000]"
    using sched_demo_suspend by (auto simp: abs_suspend_def W)
  show ?thesis
    using KeSuspendProcess_refines [OF sched_demo_inv sched_demo_mq, of 30 NoResumeMethod] L'
    by (simp add: sched_demo_current) (erule returns_mono, auto)
qed

text \<open>C4: the timer interrupt: time moves on by 10 ms, exactly the sleeping processes whose
  wake-up time has passed leave the timer list and become ready or current, all other
  runnable processes stay runnable, the blocked list is untouched, and the process that
  runs afterwards has time left (so the assertion at the next interrupt holds).\<close>

theorem KeHandleTimer_wakes:
  assumes "sched_inv s L" and "mq_inv s" and "quantum_ok s"
  shows "returns KeHandleTimer s (\<lambda>_ t. \<exists>L'. sched_inv t L' \<and> mq_inv t \<and> quantum_ok t \<and> ke_frame s t
     \<and> KepTickCount t = KepTickCount s + 10
     \<and> L' TimerQ = filter (\<lambda>x. \<not> wake (procs s) x < KepTickCount s + 10) (L TimerQ)
     \<and> L' BlockedQ = L BlockedQ
     \<and> insert (KeCurrentProcess t) (ready_set L') = insert (KeCurrentProcess s) (ready_set L)
       \<union> set (filter (\<lambda>x. wake (procs s) x < KepTickCount s + 10) (L TimerQ)))"
  by (rule KeHandleTimer_lists [OF assms])

lemma KeHandleTimer_wakes_witness:
  "returns KeHandleTimer sched_demo (\<lambda>_ t. \<exists>L'. sched_inv t L' \<and> KepTickCount t = 105
     \<and> L' TimerQ = [] \<and> L' BlockedQ = [0x3000] \<and> 0x4000 \<in> insert (KeCurrentProcess t) (ready_set L'))"
proof (rule returns_mono [OF KeHandleTimer_wakes [OF sched_demo_inv sched_demo_mq sched_demo_quantum]])
  have W: "wake (procs sched_demo) 0x4000 = 100" by (simp add: wake_def sched_demo_procs)
  fix a :: unit and t
  assume "\<exists>L'. sched_inv t L' \<and> mq_inv t \<and> quantum_ok t \<and> ke_frame sched_demo t
     \<and> KepTickCount t = KepTickCount sched_demo + 10
     \<and> L' TimerQ = filter (\<lambda>x. \<not> wake (procs sched_demo) x < KepTickCount sched_demo + 10) (sched_demo_lists TimerQ)
     \<and> L' BlockedQ = sched_demo_lists BlockedQ
     \<and> insert (KeCurrentProcess t) (ready_set L') = insert (KeCurrentProcess sched_demo) (ready_set sched_demo_lists)
       \<union> set (filter (\<lambda>x. wake (procs sched_demo) x < KepTickCount sched_demo + 10) (sched_demo_lists TimerQ))"
  then obtain L' where L': "sched_inv t L'" "KepTickCount t = 105" "L' TimerQ = []" "L' BlockedQ = [0x3000]"
    "insert (KeCurrentProcess t) (ready_set L') = insert 0x1000 (ready_set sched_demo_lists) \<union> {0x4000}"
    by (auto simp: sched_demo_current sched_demo_lists_def W)
  then have "0x4000 \<in> insert (KeCurrentProcess t) (ready_set L')" by (simp only:) simp
  with L' show "\<exists>L'. sched_inv t L' \<and> KepTickCount t = 105
     \<and> L' TimerQ = [] \<and> L' BlockedQ = [0x3000] \<and> 0x4000 \<in> insert (KeCurrentProcess t) (ready_set L')"
    by blast
qed

lemma abs_preempt_highest:
  assumes ok: "sched_lists s L" and cur: "procs s x = Some c" and ab: "abs_preempt L x (unat (Priority c)) = (n, L')"
  shows "\<exists>q. procs s n = Some q \<and> Priority c \<le> Priority q
     \<and> (\<forall>j. unat (Priority q) < j \<and> j < PROCESS_PRIORITY_LEVELS \<longrightarrow> L' (ReadyQ j) = [])"
proof (cases "pick L (unat (Priority c)) PROCESS_PRIORITY_LEVELS")
  case None
  then have "n = x" "L' = L" using ab by (simp_all add: abs_preempt_def)
  then show ?thesis using cur pick_None [OF None] by auto
next
  case (Some i)
  note i = pick_Some [OF Some]
  have n: "n = hd (L (ReadyQ i))" using ab Some i by (auto simp: abs_preempt_def Let_def abs_ready_def)
  obtain q where q: "procs s (hd (L (ReadyQ i))) = Some q" "unat (Priority q) = i"
    using ready_head [OF ok] i by metis
  have "L' (ReadyQ j) = []" if "i < j" "j < PROCESS_PRIORITY_LEVELS" for j
    using ab Some i that by (auto simp: abs_preempt_def Let_def abs_ready_def)
  then show ?thesis using i n q by (auto simp: word_le_nat_alt)
qed

lemma sched_frame_priority:
  assumes "sched_frame s t" and "procs s n = Some q" and "procs t n = Some p"
  shows "Priority p = Priority q"
proof -
  have "core_only (procs s) (procs t)" using assms(1) sched_frame_core by blast
  from core_onlyD [OF this assms(2)] obtain q' where "procs t n = Some q'" "core q' = core q" by auto
  then show ?thesis using assms(3) core_fields(1) [of q' q] by simp
qed

text \<open>C5: a running process is rescheduled to the process of highest priority: after
  \<^verbatim>\<open>KepReschedule\<close> no ready queue above the new current process holds a process, and the new
  one has at least the priority of the old one.\<close>

theorem KepReschedule_highest:
  assumes inv: "sched_inv s L" and cur: "procs s (KeCurrentProcess s) = Some c"
  shows "returns KepReschedule s (\<lambda>_ t. \<exists>L' p. sched_inv t L'
     \<and> procs t (KeCurrentProcess t) = Some p \<and> Priority c \<le> Priority p \<and> Quantum p = 5
     \<and> (\<forall>j. unat (Priority p) < j \<and> j < PROCESS_PRIORITY_LEVELS \<longrightarrow> L' (ReadyQ j) = []))"
proof -
  have ok: "sched_lists s L" and c: "KeCurrentProcess s \<noteq> 0" "State c = running"
      "NextPCB c = 0" "unat (Priority c) < PROCESS_PRIORITY_LEVELS"
    using sched_invD [OF inv] cur by auto
  obtain n L' where ab: "abs_preempt L (KeCurrentProcess s) (unat (Priority c)) = (n, L')" by fastforce
  obtain q where q: "procs s n = Some q" "Priority c \<le> Priority q"
      "\<forall>j. unat (Priority q) < j \<and> j < PROCESS_PRIORITY_LEVELS \<longrightarrow> L' (ReadyQ j) = []"
    using abs_preempt_highest [OF ok cur ab] by auto
  have R: "returns KepReschedule s (\<lambda>_ t. sched_inv t L' \<and> KeCurrentProcess t = n
      \<and> sched_frame s t \<and> (\<exists>p. procs t n = Some p \<and> Quantum p = 5))"
    by (rule KepReschedule_lists [OF ok c(1) cur c(4)]) (use c ab in \<open>simp_all add: abs_reschedule_running\<close>)
  show ?thesis
  proof (rule returns_mono [OF R], elim conjE exE)
    fix a :: unit and t p
    assume t: "sched_inv t L'" "KeCurrentProcess t = n" "sched_frame s t" "procs t n = Some p" "Quantum p = 5"
    show "\<exists>L' p. sched_inv t L' \<and> procs t (KeCurrentProcess t) = Some p \<and> Priority c \<le> Priority p \<and> Quantum p = 5
      \<and> (\<forall>j. unat (Priority p) < j \<and> j < PROCESS_PRIORITY_LEVELS \<longrightarrow> L' (ReadyQ j) = [])"
      using t q(2,3) sched_frame_priority [OF t(3) q(1) t(4)] by auto
  qed
qed

lemma KepReschedule_highest_witness:
  "returns KepReschedule sched_demo (\<lambda>_ t. \<exists>p. procs t (KeCurrentProcess t) = Some p \<and> 3 \<le> Priority p)"
  by (rule returns_mono [OF KepReschedule_highest [where c = "demo_process 1 running 3", OF sched_demo_inv]])
     (auto simp: sched_demo_current sched_demo_procs)

text \<open>dequeuing a process that is not in the ready queue of its priority stops the
  kernel: with the intended bug check when the queue holds other processes, but with an
  access through NULL when the queue is empty.\<close>

theorem KepDequeueProcess_not_queued:
  assumes "sched_lists s L" and "p \<noteq> 0" and "procs s p = Some pr"
    and "unat (Priority pr) = i" and "i < PROCESS_PRIORITY_LEVELS" and "p \<notin> set (L (ReadyQ i))"
  shows "halts (KepDequeueProcess p) s (if L (ReadyQ i) = [] then Fault
           else BugCheck ''KepDequeueProcess: process is not in the priority queue'')"
  by (rule KepDequeueProcess_missing [OF assms])

lemma KepDequeueProcess_not_queued_witness: "halts (KepDequeueProcess 0x3000) sched_demo Fault"
  using KepDequeueProcess_not_queued [where s = sched_demo and L = sched_demo_lists and p = "0x3000"
      and pr = "demo_process 3 blocked 7" and i = 7] sched_demo_inv
  by (simp add: sched_inv_def sched_demo_procs PROCESS_PRIORITY_LEVELS_def sched_demo_lists_def)

section \<open>Sequences of events\<close>

datatype sched_event = BlockEvent | SuspendEvent u32 RESUME_METHOD | ResumeEvent addr | TimerEvent

fun run_event :: "sched_event \<Rightarrow> unit kern" where
  "run_event BlockEvent = KeBlockProcess"
| "run_event (SuspendEvent ms R) = KeSuspendProcess ms R"
| "run_event (ResumeEvent p) = KeResumeProcess p"
| "run_event TimerEvent = KeHandleTimer"

fun enabled :: "kstate \<Rightarrow> sched_event \<Rightarrow> bool" where
  "enabled s (ResumeEvent p) \<longleftrightarrow> sleeps s p"
| "enabled s _ \<longleftrightarrow> True"

inductive sched_step :: "kstate \<Rightarrow> kstate \<Rightarrow> bool" where
  event: "enabled s e \<Longrightarrow> run_event e s = Some (Return () t) \<Longrightarrow> sched_step s t"

inductive sched_reach :: "kstate \<Rightarrow> kstate \<Rightarrow> bool" for s0 where
  start: "sched_reach s0 s0"
| step: "sched_reach s0 s \<Longrightarrow> sched_step s t \<Longrightarrow> sched_reach s0 t"

inductive_cases sched_stepE: "sched_step s t"

lemma run_event_good:
  assumes "good s" and "enabled s e"
  shows "returns (run_event e) s (\<lambda>_ t. good t) \<or> halts (run_event e) s no_process_left"
proof (cases e)
  case BlockEvent
  then show ?thesis using ke.block_good [OF assms(1)] by (auto elim: returns_mono)
next
  case (SuspendEvent ms R)
  then show ?thesis using ke.suspend_good [OF assms(1), of ms R] by (auto elim: returns_mono)
next
  case (ResumeEvent p)
  then show ?thesis using ke.resume_good [OF assms(1), of p] assms(2) by (auto elim: returns_mono)
next
  case TimerEvent
  obtain L where "sched_inv s L" "mq_inv s" "quantum_ok s" using assms(1) by (auto simp: good_def)
  from KeHandleTimer_lists [OF this] have "returns KeHandleTimer s (\<lambda>_ t. good t)"
    by (rule returns_mono) (auto simp: good_def)
  then show ?thesis using TimerEvent by simp
qed

text \<open>C8: whatever sequence of blocking, sleeping, resuming and timer events happens, the
  scheduler's data stay consistent (every process in at most one list, queues and states in
  agreement, the timer list sorted), and every further event either returns or stops the
  kernel with the one bug check that says no process is left to run: no assertion fails, no
  bad pointer is followed, and no loop runs for ever.\<close>

theorem sched_reach_safe:
  assumes "sched_reach s0 s" and "good s0" and "enabled s e"
  shows "good s \<and> ((\<exists>t. run_event e s = Some (Return () t) \<and> good t)
     \<or> run_event e s = Some (Halt no_process_left))"
proof -
  have "good s" using assms(1,2)
  proof (induction rule: sched_reach.induct)
    case (step s t)
    then obtain e where "enabled s e" "run_event e s = Some (Return () t)" by (auto elim: sched_stepE)
    then show ?case using run_event_good [of s e] step by (auto simp: returns_def halts_def)
  qed simp
  then show ?thesis
    using run_event_good [OF _ assms(3)] by (auto simp: returns_iff halts_def)
qed

lemma sched_demo_good: "good sched_demo"
  using sched_demo_inv sched_demo_mq sched_demo_quantum by (auto simp: good_def)

lemma sched_reach_safe_witness:
  "good sched_demo \<and> ((\<exists>t. run_event TimerEvent sched_demo = Some (Return () t) \<and> good t)
     \<or> run_event TimerEvent sched_demo = Some (Halt no_process_left))"
  by (rule sched_reach_safe [OF sched_reach.start sched_demo_good]) simp

end
