(* ===== verification/ObSpec.thy ===== *)
theory ObSpec
  imports Demo
begin

text \<open>
  The properties of the object manager: handles are opened in the lowest free slot and
  closed again without a trace, every operation keeps the reference counts exact, and an
  object is deleted exactly when its last reference goes.
\<close>

section \<open>Handles\<close>

text \<open>C26: opening a handle takes the lowest free slot of the current process, and fails with
  the right status, changing nothing, when the type does not match or all 256 slots are
  taken; in every case the handle and reference counts of all objects stay exact.\<close>

theorem ObOpenObjectByPointer_correct:
  assumes "ob_inv s Os" and "KeCurrentProcess s \<noteq> 0" and "procs s (KeCurrentProcess s) = Some pr"
    and "obj \<noteq> 0" and "headers s (OBJECT_BODY_TO_HEADER obj) = Some h"
    and "PointerCount h > 0 \<or> permanent h" and "PointerCount h \<noteq> - 1"
  shows "returns (ObOpenObjectByPointer obj a T) s (\<lambda>(status, hnd) t. ob_inv t Os \<and>
     (if T \<noteq> 0 \<and> ObjType h \<noteq> T then status = STATUS_OBJECT_TYPE_MISMATCH \<and> t = s
      else if \<forall>i < MAX_HANDLE_COUNT. HtObject (HandleTable pr i) \<noteq> 0
      then status = STATUS_HANDLE_LIMIT_REACHED \<and> t = s
      else status = STATUS_SUCCESS \<and> unat hnd < MAX_HANDLE_COUNT
        \<and> HtObject (HandleTable pr (unat hnd)) = 0
        \<and> (\<forall>j < unat hnd. HtObject (HandleTable pr j) \<noteq> 0)
        \<and> t = opened s (KeCurrentProcess s) pr (unat hnd) a obj h))"
proof -
  have ok: "header_ok s Os (OBJECT_BODY_TO_HEADER obj) h" using ob_invD(2) [OF assms(1,5)] .
  then have x: "OBJECT_BODY_TO_HEADER obj \<noteq> 0" "Magic h = OBJECT_MAGIC" by (simp_all add: header_ok_def)
  note res = ObOpenObjectByPointer_result [OF assms(2,3,4) x(1) assms(5) x(2), of a T]
  show ?thesis
  proof (cases "free_slot pr")
    case None
    then show ?thesis using assms(1) free_slot_None [of pr] by (simp add: returns_def res)
  next
    case (Some i)
    note i = free_slot_Some [OF Some]
    have "unat (of_nat i :: u32) = i" using i slot_index by simp
    then show ?thesis
      using assms(1) Some i ob_inv_opened [OF assms(1,3) _ _ assms(4,5,6,7), of i a]
      by (auto simp: returns_def res)
  qed
qed

lemma ob_demo_live: "PointerCount (demo_header 0 2 0) > 0 \<or> permanent (demo_header 0 2 0)"
  by (simp add: demo_header_def)

lemma ObOpenObjectByPointer_correct_witness:
  "returns (ObOpenObjectByPointer 0x620 0 0x100) ob_demo
     (\<lambda>(status, hnd) t. status = STATUS_SUCCESS \<and> unat hnd \<noteq> 0 \<and> ob_inv t ob_demo_lists)"
proof -
  let ?pr = "set_slot 0 \<lparr>HtAttributes = OBJ_INHERIT, HtObject = 0x520\<rparr> (demo_process 1 running 3)"
  have n: "\<not> (\<forall>i < MAX_HANDLE_COUNT. HtObject (HandleTable ?pr i) \<noteq> 0)"
    by (auto simp: MAX_HANDLE_COUNT_def set_slot_def intro!: exI [of _ 1])
  have z: "HtObject (HandleTable ?pr 0) \<noteq> 0" by (simp add: set_slot_def)
  show ?thesis
    by (rule returns_mono [OF ObOpenObjectByPointer_correct [where pr = ?pr and h = "demo_header 0 2 0",
          OF ob_demo_inv]])
      (use n in \<open>auto simp: ob_demo_sel demo_header_def OBJECT_BODY_TO_HEADER_def BODY_OFFSET_def
        split: if_splits\<close>, metis z gr0I)
qed

text \<open>C27: closing an open handle empties exactly that slot, takes one handle and one reference
  from the object, deletes the object if that was its last reference and it is not
  permanent, and keeps all counts and object lists exact.\<close>

theorem ObCloseHandle_correct:
  assumes "ob_inv s Os" and "KeCurrentProcess s \<noteq> 0" and "procs s (KeCurrentProcess s) = Some pr"
    and "unat hnd < MAX_HANDLE_COUNT" and "HtObject (HandleTable pr (unat hnd)) = obj" and "obj \<noteq> 0"
    and "headers s (OBJECT_BODY_TO_HEADER obj) = Some h"
  shows "returns (ObCloseHandle hnd) s (\<lambda>r u. r = STATUS_SUCCESS
   \<and> ob_inv u (abs_deref Os (OBJECT_BODY_TO_HEADER obj) h)
   \<and> procs u = (procs s)(KeCurrentProcess s \<mapsto> closed_slot (unat hnd) pr)
   \<and> (\<forall>y. links_header (headers u y) = links_header
          (((headers s)(OBJECT_BODY_TO_HEADER obj \<mapsto> drop_handle h)) y)))"
  by (rule returns_mono [OF ObCloseHandle_inv [OF assms]]) simp

lemma ObCloseHandle_correct_witness:
  "returns (ObCloseHandle 0) ob_demo (\<lambda>r u. r = STATUS_SUCCESS \<and> ob_inv u ((\<lambda>_. [])(0x100 := [0x600])))"
proof -
  have e: "abs_deref ob_demo_lists 0x500 (demo_header 1 1 0x600) = (\<lambda>_. [])(0x100 := [0x600])"
    by (simp add: abs_deref_def last_reference_def permanent_def demo_header_def ob_demo_lists_def)
  have x: "OBJECT_BODY_TO_HEADER 0x520 = 0x500" by (simp add: OBJECT_BODY_TO_HEADER_def BODY_OFFSET_def)
  show ?thesis
    by (rule returns_mono [OF ObCloseHandle_correct [where obj = "0x520" and h = "demo_header 1 1 0x600",
          OF ob_demo_inv _ _ _ _ _ _]])
      (auto simp: ob_demo_sel x e set_slot_def MAX_HANDLE_COUNT_def)
qed

text \<open>C28: opening a handle to an object somebody references and closing it again leaves every
  object's counts and the list of objects as they were, and the slot free again.\<close>

theorem open_close_roundtrip:
  assumes inv: "ob_inv s Os" and cur: "KeCurrentProcess s \<noteq> 0" "procs s (KeCurrentProcess s) = Some pr"
    and obj: "obj \<noteq> 0" "headers s (OBJECT_BODY_TO_HEADER obj) = Some h"
    and live: "PointerCount h > 0" "PointerCount h \<noteq> - 1" and T: "T = 0 \<or> T = ObjType h"
    and free: "free_slot pr = Some i"
  shows "returns (kbind (ObOpenObjectByPointer obj a T) (\<lambda>(status, hnd). ObCloseHandle hnd)) s
     (\<lambda>r u. r = STATUS_SUCCESS \<and> ob_inv u Os
        \<and> (\<forall>y. links_header (headers u y) = links_header (headers s y))
        \<and> (\<exists>pr'. procs u (KeCurrentProcess s) = Some pr'
             \<and> (\<forall>j. HtObject (HandleTable pr' j) = HtObject (HandleTable pr j))))"
proof -
  let ?cur = "KeCurrentProcess s" and ?x = "OBJECT_BODY_TO_HEADER obj"
  have ok: "header_ok s Os ?x h" using ob_invD(2) [OF inv obj(2)] .
  note i = free_slot_Some [OF free]
  have u: "unat (of_nat i :: u32) = i" using i slot_index by simp
  let ?t = "opened s ?cur pr i a obj h"
  let ?pr = "set_slot i \<lparr>HtAttributes = a, HtObject = obj\<rparr> pr"
  have open_res: "ObOpenObjectByPointer obj a T s = Some (Return (STATUS_SUCCESS, of_nat i) ?t)"
    using ObOpenObjectByPointer_result [OF cur obj(1) _ obj(2), of a T] ok T free
    by (auto simp: header_ok_def)
  have inv_t: "ob_inv ?t Os" using ob_inv_opened [OF inv cur(2) _ _ obj] i live by blast
  have t: "KeCurrentProcess ?t = ?cur" "procs ?t ?cur = Some ?pr" "headers ?t ?x = Some (add_handle h)"
    by (simp_all add: opened_def)
  have keep: "abs_deref Os ?x (add_handle h) = Os"
    using live(1) by (auto simp: abs_deref_def last_reference_def add_handle_def)
  have undo: "drop_handle (add_handle h) = h" by (simp add: drop_handle_def add_handle_def)
  have "returns (ObCloseHandle (of_nat i)) ?t (\<lambda>r u. r = STATUS_SUCCESS
   \<and> ob_inv u (abs_deref Os ?x (add_handle h))
   \<and> procs u = (procs ?t)(KeCurrentProcess ?t \<mapsto> closed_slot (unat (of_nat i :: u32)) ?pr)
   \<and> ob_frame ?t (u\<lparr>procs := procs ?t\<rparr>)
   \<and> (\<forall>y. links_header (headers u y) = links_header
          (((headers ?t)(?x \<mapsto> drop_handle (add_handle h))) y)))"
    by (rule ObCloseHandle_inv [OF inv_t]) (use t cur i obj in \<open>simp_all add: u set_slot_def\<close>)
  then have "returns (ObCloseHandle (of_nat i)) ?t (\<lambda>r u. r = STATUS_SUCCESS \<and> ob_inv u Os
        \<and> (\<forall>y. links_header (headers u y) = links_header (headers s y))
        \<and> (\<exists>pr'. procs u ?cur = Some pr'
             \<and> (\<forall>j. HtObject (HandleTable pr' j) = HtObject (HandleTable pr j))))"
    by (rule returns_mono)
       (use i obj in \<open>auto simp: keep undo t(1) u closed_slot_def set_slot_def opened_def\<close>)
  then show ?thesis using open_res by (simp add: returns_kbind) (simp add: returns_def)
qed

lemma open_close_roundtrip_witness:
  "returns (kbind (ObOpenObjectByPointer 0x620 0 0) (\<lambda>(status, hnd). ObCloseHandle hnd)) ob_demo
     (\<lambda>r u. r = STATUS_SUCCESS \<and> ob_inv u ob_demo_lists)"
proof -
  let ?pr = "set_slot 0 \<lparr>HtAttributes = OBJ_INHERIT, HtObject = 0x520\<rparr> (demo_process 1 running 3)"
  have f: "free_slot ?pr = Some 1"
    by (simp add: free_slot_def set_slot_def MAX_HANDLE_COUNT_def upt_conv_Cons)
  show ?thesis
    by (rule returns_mono [OF open_close_roundtrip [where pr = ?pr and h = "demo_header 0 2 0" and i = 1,
          OF ob_demo_inv _ _ _ _ _ _ _ f]])
      (auto simp: ob_demo_sel demo_header_def OBJECT_BODY_TO_HEADER_def BODY_OFFSET_def)
qed

section \<open>References\<close>

text \<open>Dropping a reference decrements exactly that object's count; the object is unlinked
  from the list of its type and its delete method called exactly when the count reaches
  zero and it is not permanent; counts and lists stay exact.\<close>

theorem ObDereferenceObject_correct:
  assumes "ob_inv s Os" and "headers s x = Some h" and "HandleCount h < PointerCount h"
  shows "returns (ObDereferenceObject (x + BODY_OFFSET)) s (\<lambda>_ u.
     ob_inv u (abs_deref Os x h) \<and> ob_frame s u
   \<and> (\<forall>y. links_header (headers u y) = links_header
          (((headers s)(x \<mapsto> h\<lparr>PointerCount := PointerCount h - 1\<rparr>)) y)))"
  by (rule ObDereferenceObject_inv [OF assms])

lemma ObDereferenceObject_correct_witness:
  "returns (ObDereferenceObject 0x620) ob_demo (\<lambda>_ u. ob_inv u ob_demo_lists)"
proof -
  have e: "abs_deref ob_demo_lists 0x600 (demo_header 0 2 0) = ob_demo_lists"
    by (simp add: abs_deref_def last_reference_def demo_header_def)
  have "returns (ObDereferenceObject (0x600 + BODY_OFFSET)) ob_demo (\<lambda>_ u. ob_inv u ob_demo_lists)"
    by (rule returns_mono [OF ObDereferenceObject_correct [OF ob_demo_inv ob_demo_sel(4)]])
       (simp_all add: e, simp add: demo_header_def)
  then show ?thesis by (simp add: BODY_OFFSET_def)
qed

text \<open>looking a handle up: an index outside the table or an empty slot is an invalid
  handle, an object of another type a type mismatch, both without any change; otherwise the
  object in the slot is returned with one more reference.\<close>

theorem ObReferenceObjectByHandle_correct:
  assumes "ob_inv s Os" and "KeCurrentProcess s \<noteq> 0" and "procs s (KeCurrentProcess s) = Some pr"
  shows "\<exists>h. ObReferenceObjectByHandle hnd T s = Some
     (if MAX_HANDLE_COUNT \<le> unat hnd \<or> HtObject (HandleTable pr (unat hnd)) = 0
      then Return (STATUS_INVALID_HANDLE, 0) s
      else if T \<noteq> 0 \<and> ObjType h \<noteq> T then Return (STATUS_OBJECT_TYPE_MISMATCH, 0) s
      else Return (STATUS_SUCCESS, HtObject (HandleTable pr (unat hnd)))
        (referenced s (OBJECT_BODY_TO_HEADER (HtObject (HandleTable pr (unat hnd)))) h))
    \<and> (unat hnd < MAX_HANDLE_COUNT \<and> HtObject (HandleTable pr (unat hnd)) \<noteq> 0 \<longrightarrow>
        headers s (OBJECT_BODY_TO_HEADER (HtObject (HandleTable pr (unat hnd)))) = Some h)"
proof (cases "unat hnd < MAX_HANDLE_COUNT \<and> HtObject (HandleTable pr (unat hnd)) \<noteq> 0")
  case True
  then obtain h where "headers s (OBJECT_BODY_TO_HEADER (HtObject (HandleTable pr (unat hnd)))) = Some h"
    "header_ok s Os (OBJECT_BODY_TO_HEADER (HtObject (HandleTable pr (unat hnd)))) h"
    using ob_inv_slot [OF assms(1,3), of "unat hnd"] by metis
  then show ?thesis
    using ObReferenceObjectByHandle_result [OF assms(2,3), of hnd h T] by (auto simp: header_ok_def)
next
  case False
  then show ?thesis using ObReferenceObjectByHandle_result [OF assms(2,3), of hnd _ T] by auto
qed

lemma ObReferenceObjectByHandle_correct_witness:
  "\<exists>h. ObReferenceObjectByHandle 0 0x100 ob_demo =
     Some (Return (STATUS_SUCCESS, 0x520) (referenced ob_demo 0x500 h))"
  using ObReferenceObjectByHandle_correct [OF ob_demo_inv, of _ 0 "0x100"]
  by (auto simp: ob_demo_sel set_slot_def OBJECT_BODY_TO_HEADER_def BODY_OFFSET_def
      MAX_HANDLE_COUNT_def demo_header_def)

section \<open>Sequences of operations\<close>

datatype ob_event = OpenEvent addr u32 addr | CloseEvent u32 | ReferenceEvent addr addr
  | DereferenceEvent addr | ByHandleEvent u32 addr

fun run_ob :: "ob_event \<Rightarrow> unit kern" where
  "run_ob (OpenEvent obj a T) = kthen (ObOpenObjectByPointer obj a T) (kreturn ())"
| "run_ob (CloseEvent hnd) = kthen (ObCloseHandle hnd) (kreturn ())"
| "run_ob (ReferenceEvent obj T) = kthen (ObReferenceObject obj T) (kreturn ())"
| "run_ob (DereferenceEvent obj) = ObDereferenceObject obj"
| "run_ob (ByHandleEvent hnd T) = kthen (ObReferenceObjectByHandle hnd T) (kreturn ())"

text \<open>
  What a caller owes: an object opened or referenced by pointer is alive, a reference
  dropped is one beyond the handles, and no count is at the limit of its 32 bits.
\<close>

definition alive :: "kstate \<Rightarrow> addr \<Rightarrow> bool" where
  "alive s obj \<longleftrightarrow> obj \<noteq> 0 \<and> (\<exists>h. headers s (OBJECT_BODY_TO_HEADER obj) = Some h
     \<and> (PointerCount h > 0 \<or> permanent h))"

definition no_overflow :: "kstate \<Rightarrow> bool" where
  "no_overflow s \<longleftrightarrow> (\<forall>x h. headers s x = Some h \<longrightarrow> PointerCount h \<noteq> - 1)"

fun ob_enabled :: "kstate \<Rightarrow> ob_event \<Rightarrow> bool" where
  "ob_enabled s (OpenEvent obj a T) \<longleftrightarrow> alive s obj"
| "ob_enabled s (ReferenceEvent obj T) \<longleftrightarrow> alive s obj"
| "ob_enabled s (DereferenceEvent obj) \<longleftrightarrow>
     (\<exists>h. headers s (OBJECT_BODY_TO_HEADER obj) = Some h \<and> HandleCount h < PointerCount h)"
| "ob_enabled s _ \<longleftrightarrow> True"

definition ob_good :: "kstate \<Rightarrow> bool" where
  "ob_good s \<longleftrightarrow> (\<exists>Os. ob_inv s Os) \<and> KeCurrentProcess s \<noteq> 0 \<and> procs s (KeCurrentProcess s) \<noteq> None"

inductive ob_reach :: "kstate \<Rightarrow> kstate \<Rightarrow> bool" for s0 where
  ob_start: "ob_reach s0 s0"
| ob_step: "ob_reach s0 s \<Longrightarrow> ob_enabled s e \<Longrightarrow> no_overflow s \<Longrightarrow> run_ob e s = Some (Return () t)
    \<Longrightarrow> ob_reach s0 t"

lemma ob_goodI: "ob_inv t Os \<Longrightarrow> KeCurrentProcess t = KeCurrentProcess s \<Longrightarrow> dom (procs t) = dom (procs s)
    \<Longrightarrow> ob_good s \<Longrightarrow> ob_good t"
  by (auto simp: ob_good_def)

lemma alive_object:
  assumes inv: "ob_inv s Os" and "alive s obj" and "no_overflow s"
  obtains h where "obj \<noteq> 0" "headers s (OBJECT_BODY_TO_HEADER obj) = Some h" "PointerCount h > 0 \<or> permanent h"
    "PointerCount h \<noteq> - 1" "OBJECT_BODY_TO_HEADER obj \<noteq> 0" "Magic h = OBJECT_MAGIC"
proof -
  obtain h where h: "obj \<noteq> 0" "headers s (OBJECT_BODY_TO_HEADER obj) = Some h" "PointerCount h > 0 \<or> permanent h"
    using assms(2) by (auto simp: alive_def)
  moreover have "PointerCount h \<noteq> - 1" using assms(3) h(2) by (auto simp: no_overflow_def)
  moreover have "OBJECT_BODY_TO_HEADER obj \<noteq> 0" "Magic h = OBJECT_MAGIC"
    using ob_invD(2) [OF inv h(2)] by (simp_all add: header_ok_def)
  ultimately show ?thesis using that by blast
qed

lemma open_good:
  assumes good: "ob_good s" and "alive s obj" and "no_overflow s"
  shows "returns (run_ob (OpenEvent obj a T)) s (\<lambda>_ t. ob_good t)"
proof -
  obtain Os pr where inv: "ob_inv s Os" and cur: "KeCurrentProcess s \<noteq> 0"
    "procs s (KeCurrentProcess s) = Some pr" using good by (auto simp: ob_good_def)
  obtain h where h: "obj \<noteq> 0" "headers s (OBJECT_BODY_TO_HEADER obj) = Some h" "PointerCount h > 0 \<or> permanent h"
    "PointerCount h \<noteq> - 1" "OBJECT_BODY_TO_HEADER obj \<noteq> 0" "Magic h = OBJECT_MAGIC"
    by (rule alive_object [OF inv assms(2,3)])
  have "ob_good (opened s (KeCurrentProcess s) pr i a obj h)" if "free_slot pr = Some i" for i
    by (rule ob_goodI [OF ob_inv_opened [OF inv cur(2) _ _ h(1-4)] _ _ good])
       (use free_slot_Some [OF that] cur in \<open>auto simp: opened_def\<close>)
  then show ?thesis
    using good ObOpenObjectByPointer_result [OF cur h(1,5,2,6), of a T]
    by (simp add: returns_kthen returns_kreturn) (auto simp: returns_def split: option.split)
qed

lemma close_good:
  assumes good: "ob_good s"
  shows "returns (run_ob (CloseEvent hnd)) s (\<lambda>_ t. ob_good t)"
proof -
  obtain Os pr where inv: "ob_inv s Os" and cur: "KeCurrentProcess s \<noteq> 0"
    "procs s (KeCurrentProcess s) = Some pr" using good by (auto simp: ob_good_def)
  show ?thesis
  proof (cases "unat hnd < MAX_HANDLE_COUNT \<and> HtObject (HandleTable pr (unat hnd)) \<noteq> 0")
    case True
    then obtain h where h: "headers s (OBJECT_BODY_TO_HEADER (HtObject (HandleTable pr (unat hnd)))) = Some h"
      using ob_inv_slot [OF inv cur(2), of "unat hnd"] by metis
    show ?thesis
      unfolding run_ob.simps returns_kthen returns_kreturn
      by (rule returns_mono [OF ObCloseHandle_inv [OF inv cur _ refl _ h]])
         (use True good cur in \<open>auto simp: ob_good_def dest: ob_frame_procs_current\<close>)
  next
    case False
    show ?thesis
      unfolding run_ob.simps returns_kthen returns_kreturn
      by (rule returnsI [where m = "ObCloseHandle hnd", OF ObCloseHandle_invalid [of hnd s pr]]) (use False cur good in auto)
  qed
qed

lemma referenced_good:
  assumes good: "ob_good s" and "headers s x = Some h" and "PointerCount h > 0 \<or> permanent h" and "PointerCount h \<noteq> - 1"
  shows "ob_good (referenced s x h)"
proof -
  obtain Os where inv: "ob_inv s Os" using good by (auto simp: ob_good_def)
  show ?thesis
    by (rule ob_goodI [OF ob_inv_referenced [OF inv assms(2-4)] _ _ good]) (simp_all add: referenced_def)
qed

lemma reference_good:
  assumes good: "ob_good s" and "alive s obj" and "no_overflow s"
  shows "returns (run_ob (ReferenceEvent obj T)) s (\<lambda>_ t. ob_good t)"
proof -
  obtain Os where inv: "ob_inv s Os" using good by (auto simp: ob_good_def)
  obtain h where h: "obj \<noteq> 0" "headers s (OBJECT_BODY_TO_HEADER obj) = Some h" "PointerCount h > 0 \<or> permanent h"
    "PointerCount h \<noteq> - 1" "OBJECT_BODY_TO_HEADER obj \<noteq> 0" "Magic h = OBJECT_MAGIC"
    by (rule alive_object [OF inv assms(2,3)])
  show ?thesis
    unfolding run_ob.simps returns_kthen returns_kreturn
    using good referenced_good [OF good h(2-4)] ObReferenceObject_result [OF h(1,5,2,6), of T] by (auto simp: returns_def)
qed

lemma by_handle_good:
  assumes good: "ob_good s" and no: "no_overflow s"
  shows "returns (run_ob (ByHandleEvent hnd T)) s (\<lambda>_ t. ob_good t)"
proof -
  obtain Os pr where inv: "ob_inv s Os" and cur: "KeCurrentProcess s \<noteq> 0"
    "procs s (KeCurrentProcess s) = Some pr" using good by (auto simp: ob_good_def)
  let ?valid = "unat hnd < MAX_HANDLE_COUNT \<and> HtObject (HandleTable pr (unat hnd)) \<noteq> 0"
  let ?x = "OBJECT_BODY_TO_HEADER (HtObject (HandleTable pr (unat hnd)))"
  obtain h where h: "?valid \<longrightarrow> headers s ?x = Some h \<and> HandleCount h > 0"
    using ob_inv_slot [OF inv cur(2), of "unat hnd"] by metis
  have "ob_good (referenced s ?x h) \<and> Magic h = OBJECT_MAGIC \<and> ?x \<noteq> 0" if ?valid
  proof -
    have hh: "headers s ?x = Some h" "HandleCount h > 0" using h that by auto
    have ok: "header_ok s Os ?x h" using ob_invD(2) [OF inv hh(1)] .
    then have "PointerCount h > 0" using hh(2) by (auto simp: header_ok_def intro: less_le_trans)
    moreover have "PointerCount h \<noteq> - 1" using no hh(1) by (auto simp: no_overflow_def)
    ultimately show ?thesis using referenced_good [OF good hh(1)] ok by (simp add: header_ok_def)
  qed
  then show ?thesis
    unfolding run_ob.simps returns_kthen returns_kreturn
    using good ObReferenceObjectByHandle_result [OF cur, of hnd h T] h by (auto simp: returns_def)
qed

lemma run_ob_good:
  assumes good: "ob_good s" and en: "ob_enabled s e" and no: "no_overflow s"
  shows "returns (run_ob e) s (\<lambda>_ t. ob_good t)"
proof (cases e)
  case (OpenEvent obj a T)
  then show ?thesis using open_good [OF good _ no] en by simp
next
  case (CloseEvent hnd)
  then show ?thesis using close_good [OF good] by simp
next
  case (ReferenceEvent obj T)
  then show ?thesis using reference_good [OF good _ no] en by simp
next
  case (DereferenceEvent obj)
  then obtain h where h: "headers s (OBJECT_BODY_TO_HEADER obj) = Some h" "HandleCount h < PointerCount h"
    using en by auto
  obtain Os where inv: "ob_inv s Os" using good by (auto simp: ob_good_def)
  have "returns (ObDereferenceObject (OBJECT_BODY_TO_HEADER obj + BODY_OFFSET)) s (\<lambda>_ t. ob_good t)"
    by (rule returns_mono [OF ObDereferenceObject_inv [OF inv h]])
       (use good ob_frame_current ob_frame_procs in \<open>auto simp: ob_good_def\<close>)
  then show ?thesis using DereferenceEvent by simp
next
  case (ByHandleEvent hnd T)
  then show ?thesis using by_handle_good [OF good no] by simp
qed

text \<open>C29: after any sequence of handle and reference operations whose callers keep their side
  (objects passed by pointer are alive, no more references are dropped than taken, no count
  is at its 32-bit limit), the handle count of every object equals the number of open slots
  that refer to it, and no further operation fails an assertion or follows a bad pointer.\<close>

theorem ob_reach_safe:
  assumes "ob_reach s0 s" and "ob_good s0" and "ob_enabled s e" and "no_overflow s"
  shows "ob_good s \<and> returns (run_ob e) s (\<lambda>_ t. ob_good t)"
proof -
  have "ob_good s" using assms(1,2)
  proof (induction rule: ob_reach.induct)
    case (ob_step s e t)
    then show ?case using run_ob_good [of s e] by (simp add: returns_def)
  qed
  then show ?thesis using run_ob_good assms(3,4) by blast
qed

lemma ob_reach_safe_witness:
  "ob_good ob_demo \<and> returns (run_ob (CloseEvent 0)) ob_demo (\<lambda>_ t. ob_good t)"
proof (rule ob_reach_safe [OF ob_reach.ob_start])
  show "ob_good ob_demo" using ob_demo_inv by (auto simp: ob_good_def ob_demo_sel)
  show "no_overflow ob_demo"
    by (auto simp: no_overflow_def ob_demo_def demo_header_def split: if_splits)
qed simp

end
