(* ===== verification/ObWait.thy ===== *)
theory ObWait
  imports Scheduler Rtl
begin

text \<open>
  The operations of the object manager that need the scheduler or the runtime library,
  \<^verbatim>\<open>base/ob/ob.c\<close>: dumping an object, waiting for it and signalling it; and the dump
  method of the test program \<^verbatim>\<open>base/ob/test.c\<close>.
\<close>

section \<open>Dumping\<close>

primrec write_list :: "addr \<Rightarrow> byte list \<Rightarrow> (memory, unit) kmonad" where
  "write_list a [] = kreturn ()"
| "write_list a (b # bs) = kthen (wr a b) (write_list (a + 1) bs)"

text \<open>
  The host's \<^verbatim>\<open>_snprintf\<close> stores at most \<open>n\<close> characters, and the terminator only when there
  is room left for it.
\<close>

definition host_snprintf :: "addr \<Rightarrow> u32 \<Rightarrow> byte list \<Rightarrow> (memory, unit) kmonad" where
  "host_snprintf buffer n ys = write_list buffer (take (unat n) (ys @ [0]))"

definition DumpFoo :: "addr \<Rightarrow> addr \<Rightarrow> u32 \<Rightarrow> unit kern" where
  "DumpFoo foo buffer n =
     kbind (deref foos foo) (\<lambda>v.
     on_mem (host_snprintf buffer n
       (map of_char ''FOO, value: '' @ signed_decimal (sint v))))"

definition call_dump :: "DUMP_METHOD \<Rightarrow> addr \<Rightarrow> addr \<Rightarrow> u32 \<Rightarrow> unit kern" where
  "call_dump m Object Buffer BufferSize = (case m of
       NoDumpMethod \<Rightarrow> khalt Fault
     | DumpFooMethod \<Rightarrow> DumpFoo Object Buffer BufferSize)"

definition ObDumpObject :: "image \<Rightarrow> addr \<Rightarrow> addr \<Rightarrow> u32 \<Rightarrow> unit kern" where
  "ObDumpObject img Object Buffer BufferSize =
     kthen (kassert ''ob.c'' 534 (Object \<noteq> 0))
     (kthen (kassert ''ob.c'' 535 (Buffer \<noteq> 0))
     (kbind (getH (OBJECT_BODY_TO_HEADER Object)) (\<lambda>h.
      kthen (ASSERT_OBJECT 536 h)
      (kbind (on_mem (RtlFormatString Buffer BufferSize (literal img ''Refs: %d Handles: %d '')
                (\<lambda>i. if i = 0 then PointerCount h else HandleCount h))) (\<lambda>_.
       kbind (on_mem (RtlStringLength Buffer)) (\<lambda>len.
       kwhen (ObjType h \<noteq> 0)
         (kbind (getT (ObjType h)) (\<lambda>t.
          kwhen (TypeDump t \<noteq> NoDumpMethod)
            (call_dump (TypeDump t) Object (Buffer + len) (BufferSize - len))))))))))"

section \<open>Waiting and signalling\<close>

definition ObWaitForSingleObject :: "u32 \<Rightarrow> u32 kern" where
  "ObWaitForSingleObject Handle =
     kbind (ObReferenceObjectByHandle Handle 0) (\<lambda>(status, object).
     if status \<noteq> STATUS_SUCCESS then kreturn status else
     let header = OBJECT_BODY_TO_HEADER object in
     kbind (getH header) (\<lambda>h.
     kthen (ASSERT_OBJECT 567 h)
     (if SignalState h = 0 then
        kbind (MmAlloc 8) (\<lambda>entry.
        if entry \<noteq> 0 then
          kbind (kget KeCurrentProcess) (\<lambda>cur.
          kthen (kmodify (\<lambda>s. s\<lparr>waitents := (waitents s)(entry \<mapsto>
                   \<lparr>WqProcess = cur, WqNext = WaitQueue h\<rparr>)\<rparr>))
          (kthen (setH header (\<lambda>h. h\<lparr>WaitQueue := entry\<rparr>))
          (kthen KeBlockProcess
          (kthen (ObDereferenceObject object)
          (kreturn STATUS_SUCCESS)))))
        else kthen (ObDereferenceObject object) (kreturn STATUS_NO_MEMORY))
      else kthen (ObDereferenceObject object) (kreturn STATUS_SUCCESS))))"

definition signal_step :: "addr \<Rightarrow> (addr + unit) kern" where
  "signal_step entry =
     (if entry = 0 then kreturn (Inr ()) else
      kbind (getW entry) (\<lambda>e.
      kthen (KeResumeProcess (WqProcess e))
      (kbind (getW entry) (\<lambda>e.
       kthen (MmFree entry) (kreturn (Inl (WqNext e)))))))"

definition ObSignalObject :: "addr \<Rightarrow> unit kern" where
  "ObSignalObject Object =
     (let header = OBJECT_BODY_TO_HEADER Object in
      kbind (getH header) (\<lambda>h.
      kthen (ASSERT_OBJECT 601 h)
      (kthen (setH header (\<lambda>h. h\<lparr>SignalState := 1\<rparr>))
      (kbind (getH header) (\<lambda>h.
       kthen (kloop signal_step (WaitQueue h))
       (setH header (\<lambda>h. h\<lparr>WaitQueue := 0\<rparr>)))))))"

end
