(* ===== verification/Hal.thy ===== *)
theory Hal
  imports Rtl
begin

text \<open>
  The display functions of the hardware layer, \<^verbatim>\<open>base/hal/mipsel32/display.c\<close>, and the bug
  check screen, \<^verbatim>\<open>base/ke/bugcheck.c\<close>.  The serial controller is the device: each read of
  its line-status register yields the next ready bit of the stream \<open>ttyReady\<close>, a write to
  its transmitter register appends to \<open>serialOut\<close>.

  Elsewhere in the development a call of \<^verbatim>\<open>KeBugCheck\<close> is the outcome \<open>Halt (BugCheck _)\<close>;
  \<open>KeBugCheck\<close> here is the function itself, which prints and then spins.
\<close>

section \<open>The serial line\<close>

definition poll_tty_step :: "unit \<Rightarrow> (unit + unit) kern" where
  "poll_tty_step _ =
     kbind (kget (\<lambda>s. ttyReady s 0)) (\<lambda>thre.
     kthen (kmodify (\<lambda>s. s\<lparr>ttyReady := (\<lambda>n. ttyReady s (Suc n))\<rparr>))
     (kreturn (if thre then Inr () else Inl ())))"

definition tty_wait :: "unit kern" where
  "tty_wait = kloop poll_tty_step ()"

definition tty_send :: "byte \<Rightarrow> unit kern" where
  "tty_send c = kmodify (\<lambda>s. s\<lparr>serialOut := serialOut s @ [c]\<rparr>)"

definition display_step :: "addr \<Rightarrow> (addr + unit) kern" where
  "display_step string =
     kbind (on_mem (rd string)) (\<lambda>c.
     if c = 0 then kreturn (Inr ()) else
     kthen tty_wait
     (kthen (tty_send c)
     (kthen (kwhen (c = 10) (kthen tty_wait (tty_send 13)))
     (kreturn (Inl (string + 1))))))"

definition HalDisplayString :: "addr \<Rightarrow> unit kern" where
  "HalDisplayString string = kloop display_step string"

definition HalDisplayChar :: "byte \<Rightarrow> u32 kern" where
  "HalDisplayChar c = kthen (tty_send c) (kreturn STATUS_SUCCESS)"

section \<open>Colours\<close>

definition ESC :: char where "ESC = CHR 0x1B"

text \<open>The words behind the format on the stack, from the list of arguments.\<close>

definition arguments :: "u32 list \<Rightarrow> nat \<Rightarrow> u32" where
  "arguments ws i = (if i < length ws then ws ! i else 0)"

definition HalSetForegroundColor :: "image \<Rightarrow> byte \<Rightarrow> unit kern" where
  "HalSetForegroundColor img color =
     kthen (kbind (on_mem (RtlFormatString (stack_buffer img) 16 (literal img (ESC # ''[%d;%dm''))
              (arguments [if color > 7 then 1 else 0,
                          (if color > 7 then ucast color - 8 else ucast color) + 30])))
            (\<lambda>_. kreturn ()))
     (HalDisplayString (stack_buffer img))"

definition HalSetBackgroundColor :: "image \<Rightarrow> byte \<Rightarrow> unit kern" where
  "HalSetBackgroundColor img color =
     kthen (kbind (on_mem (RtlFormatString (stack_buffer img) 16 (literal img (ESC # ''[%dm''))
              (arguments [ucast color + 40])))
            (\<lambda>_. kreturn ()))
     (HalDisplayString (stack_buffer img))"

definition HalClearDisplay :: "image \<Rightarrow> unit kern" where
  "HalClearDisplay img = HalDisplayString (literal img (ESC # ''[2J'' @ ESC # ''[H''))"

section \<open>The bug check\<close>

definition KeDisableInterrupts :: "bool kern" where
  "KeDisableInterrupts =
     kbind (kget interrupts) (\<lambda>enabled.
     kthen (kmodify (\<lambda>s. s\<lparr>interrupts := False\<rparr>)) (kreturn enabled))"

definition NL :: char where "NL = CHR 0x0A"

definition KeBugCheck :: "image \<Rightarrow> addr \<Rightarrow> unit kern" where
  "KeBugCheck img messageText =
     kthen (kthen KeDisableInterrupts (kreturn ()))
     (kthen (HalSetBackgroundColor img 4)
     (kthen (HalDisplayString (literal img (NL # '' *** STOP 0x80000001'' @ [NL])))
     (kthen (HalDisplayString (literal img
        (NL # ''A problem has been detected and ARCOS has been shut down to prevent damage'' @ [NL])))
     (kthen (HalDisplayString (literal img (''to your computer:'' @ [NL, NL])))
     (kthen (HalDisplayString messageText)
     (kloop (\<lambda>_. kreturn (Inl ())) ()))))))"

end
