(* ===== verification/KdIo.thy ===== *)
theory KdIo
  imports Hal
begin

text \<open>
  The output side of the kernel debugger, \<^verbatim>\<open>base/kd/kdio.c\<close>, \<^verbatim>\<open>base/kd/kdinit.c\<close> and
  \<^verbatim>\<open>base/kd/mipsel32/printchar.c\<close>: printing to the second serial line.  A \<^verbatim>\<open>va_list\<close> is
  the function of its words and the index of the next one.
\<close>

section \<open>The debugger line\<close>

definition poll_tty2_step :: "unit \<Rightarrow> (unit + unit) kern" where
  "poll_tty2_step _ =
     kbind (kget (\<lambda>s. tty2Ready s 0)) (\<lambda>thre.
     kthen (kmodify (\<lambda>s. s\<lparr>tty2Ready := (\<lambda>n. tty2Ready s (Suc n))\<rparr>))
     (kreturn (if thre then Inr () else Inl ())))"

definition KdpPrintChar :: "byte \<Rightarrow> unit kern" where
  "KdpPrintChar c =
     kthen (kloop poll_tty2_step ())
     (kthen (kmodify (\<lambda>s. s\<lparr>kdOut := kdOut s @ [c]\<rparr>))
     (kwhen (c = 10)
        (kthen (kloop poll_tty2_step ()) (kmodify (\<lambda>s. s\<lparr>kdOut := kdOut s @ [13]\<rparr>)))))"

definition print_string_step :: "addr \<Rightarrow> (addr + unit) kern" where
  "print_string_step s =
     kbind (on_mem (rd s)) (\<lambda>c.
     if c = 0 then kreturn (Inr ()) else kthen (KdpPrintChar c) (kreturn (Inl (s + 1))))"

definition KdpPrintString :: "addr \<Rightarrow> unit kern" where
  "KdpPrintString s = kloop print_string_step s"

section \<open>Numbers\<close>

function KdpPrintLong :: "int \<Rightarrow> unit kern" where
  "KdpPrintLong n =
     (let m = (if n < 0 then neg32 n else n) in
      kthen (kwhen (n < 0) (KdpPrintChar (chr CHR ''-'')))
      (kthen (if m sdiv 10 \<noteq> 0 then KdpPrintLong (m sdiv 10) else kreturn ())
      (KdpPrintChar (of_int (m smod 10 + 48)))))"
  by pat_completeness auto

termination KdpPrintLong
proof (relation "measure (\<lambda>n. nat \<bar>n\<bar>)", simp)
  fix n m :: int
  assume m: "m = (if n < 0 then neg32 n else n)" and d: "m sdiv 10 \<noteq> 0"
  have "\<bar>m\<bar> = \<bar>n\<bar>" using m by (simp add: neg32_def)
  then show "(m sdiv 10, n) \<in> measure (\<lambda>n. nat \<bar>n\<bar>)"
    using sdiv_10_smaller [OF d] by simp
qed

function KdpPrintUlong :: "u32 \<Rightarrow> unit kern" where
  "KdpPrintUlong n =
     kthen (if n div 10 \<noteq> 0 then KdpPrintUlong (n div 10) else kreturn ())
     (KdpPrintChar (ucast (n mod 10 + 48)))"
  by pat_completeness auto

termination KdpPrintUlong
  by (relation "measure unat")
     (auto simp: unat_div word_neq_0_conv [symmetric] unat_eq_zero [symmetric] dest: gr0I)

function KdpPrintHex :: "u32 \<Rightarrow> unit kern" where
  "KdpPrintHex n =
     (let d = and n 15 in
      kthen (if drop_bit 4 n \<noteq> 0 then KdpPrintHex (drop_bit 4 n) else kreturn ())
      (KdpPrintChar (if d < 10 then ucast d + 48 else ucast d + 65 - 10)))"
  by pat_completeness auto

termination KdpPrintHex
proof (relation "measure unat", simp)
  fix n d :: u32
  assume "drop_bit 4 n \<noteq> 0"
  then show "(drop_bit 4 n, n) \<in> measure unat" by (simp add: unat_drop_bit_4_less)
qed

declare KdpPrintLong.simps [simp del] KdpPrintUlong.simps [simp del] KdpPrintHex.simps [simp del]

section \<open>Formatted output\<close>

definition print_ex_step :: "(nat \<Rightarrow> u32) \<Rightarrow> addr \<times> nat \<Rightarrow> (addr \<times> nat + unit) kern" where
  "print_ex_step args = (\<lambda>(format, i).
     kbind (on_mem (rd format)) (\<lambda>c.
     if c = 0 then kreturn (Inr ())
     else if c = chr CHR ''%'' then
       kbind (on_mem (rd (format + 1))) (\<lambda>f.
       if f = chr CHR ''d'' then
         kthen (KdpPrintLong (sint (args i))) (kreturn (Inl (format + 2, i + 1)))
       else if f = chr CHR ''c'' then
         kthen (KdpPrintChar (ucast (args i))) (kreturn (Inl (format + 2, i + 1)))
       else if f = chr CHR ''x'' then
         kthen (KdpPrintHex (args i)) (kreturn (Inl (format + 2, i + 1)))
       else if f = chr CHR ''u'' then
         kthen (KdpPrintUlong (args i)) (kreturn (Inl (format + 2, i + 1)))
       else if f = chr CHR ''s'' then
         kthen (KdpPrintString (args i)) (kreturn (Inl (format + 2, i + 1)))
       else
         kthen (KdpPrintChar (chr CHR ''%''))
         (kthen (KdpPrintChar f) (kreturn (Inl (format + 2, i)))))
     else kthen (KdpPrintChar c) (kreturn (Inl (format + 1, i)))))"

definition KdpPrintEx :: "addr \<Rightarrow> (nat \<Rightarrow> u32) \<Rightarrow> unit kern" where
  "KdpPrintEx format args = kloop (print_ex_step args) (format, 0)"

definition KdpPrint :: "addr \<Rightarrow> (nat \<Rightarrow> u32) \<Rightarrow> unit kern" where
  "KdpPrint format args = KdpPrintEx format args"

definition KdpPrintDebuggerPrompt :: "image \<Rightarrow> unit kern" where
  "KdpPrintDebuggerPrompt img = KdpPrintString (literal img ''kd> '')"

definition KdPrint :: "image \<Rightarrow> addr \<Rightarrow> (nat \<Rightarrow> u32) \<Rightarrow> unit kern" where
  "KdPrint img format args =
     kthen (KdpPrintChar 10)
     (kthen (KdpPrintEx format args)
     (kthen (KdpPrintChar 10)
     (kthen (KdpPrintDebuggerPrompt img)
     (kbind (kget commandBufferPosition) (\<lambda>i.
      kthen (on_mem (wr (commandBuffer img + i) 0))
      (KdpPrintString (commandBuffer img)))))))"

definition KdInitialize :: "image \<Rightarrow> unit kern" where
  "KdInitialize img =
     kthen (KdpPrintString (literal img (''ARCOS kernel debugger'' @ [NL, NL])))
     (KdpPrintDebuggerPrompt img)"

end
