(* ===== verification/PsLookup.thy ===== *)
theory PsLookup
  imports ObWait KdIo
begin

text \<open>
  The part of the process manager that looks processes up, \<^verbatim>\<open>base/ps/ps.c\<close>: by PID along
  the list of all process objects, or by handle.  Message passing is built on it.  A
  function with an output pointer returns the status and what it stores there (\<open>None\<close>
  when it stores nothing).
\<close>

section \<open>Searching the list of processes\<close>

definition pid_in_use_step :: "u32 \<Rightarrow> addr \<Rightarrow> (addr + bool) kern" where
  "pid_in_use_step pid process =
     (if process = 0 then kreturn (Inr False) else
      kbind (getP process) (\<lambda>p.
      if PID p = pid then kreturn (Inr True)
      else kbind (ObGetNextObjectOfType process) (\<lambda>process. kreturn (Inl process))))"

definition PIDInUse :: "u32 \<Rightarrow> bool kern" where
  "PIDInUse pid =
     kbind (kget processType) (\<lambda>T.
     kbind (ObGetFirstObjectOfType T) (\<lambda>process.
     kloop (pid_in_use_step pid) process))"

definition new_pid_step :: "u32 \<Rightarrow> (u32 + u32) kern" where
  "new_pid_step pid =
     kbind (PIDInUse pid) (\<lambda>used. kreturn (if used then Inl (pid + 1) else Inr pid))"

definition GetNewPID :: "u32 kern" where
  "GetNewPID = kloop new_pid_step 1"

definition open_process_step :: "u32 \<Rightarrow> addr \<Rightarrow> (addr + u32 \<times> u32 option) kern" where
  "open_process_step pid pprocess =
     (if pprocess = 0 then kreturn (Inr (STATUS_NO_SUCH_PROCESS, None)) else
      kbind (getP pprocess) (\<lambda>p.
      if PID p = pid then
        kbind (kget processType) (\<lambda>T.
        kbind (ObOpenObjectByPointer pprocess 0 T) (\<lambda>(status, handle).
        kreturn (Inr (status, Some handle))))
      else kbind (ObGetNextObjectOfType pprocess) (\<lambda>pprocess. kreturn (Inl pprocess))))"

definition PsOpenProcess :: "u32 \<Rightarrow> (u32 \<times> u32 option) kern" where
  "PsOpenProcess pid =
     kbind (kget processType) (\<lambda>T.
     kbind (ObGetFirstObjectOfType T) (\<lambda>pprocess.
     kloop (open_process_step pid) pprocess))"

definition reference_process_step :: "u32 \<Rightarrow> addr \<Rightarrow> (addr + u32 \<times> addr) kern" where
  "reference_process_step pid pprocess =
     (if pprocess = 0 then kreturn (Inr (STATUS_NO_SUCH_PROCESS, 0)) else
      kbind (getP pprocess) (\<lambda>p.
      if PID p = pid then
        kbind (kget processType) (\<lambda>T.
        kbind (ObReferenceObject pprocess T) (\<lambda>_.
        kreturn (Inr (STATUS_SUCCESS, pprocess))))
      else
        kthen (kassert ''ps.c'' 521 (pprocess \<noteq> 0))
        (kbind (ObGetNextObjectOfType pprocess) (\<lambda>pprocess. kreturn (Inl pprocess)))))"

definition PsReferenceProcess :: "u32 \<Rightarrow> (u32 \<times> addr) kern" where
  "PsReferenceProcess pid =
     kbind (kget processType) (\<lambda>T.
     kbind (ObGetFirstObjectOfType T) (\<lambda>pprocess.
     kloop (reference_process_step pid) pprocess))"

section \<open>Queries through a handle\<close>

definition PsGetExitStatus :: "u32 \<Rightarrow> (u32 \<times> u32 option) kern" where
  "PsGetExitStatus ProcessHandle =
     kbind (kget processType) (\<lambda>T.
     kbind (ObReferenceObjectByHandle ProcessHandle T) (\<lambda>(status, process).
     if status \<noteq> 0 then kreturn (status, None) else
     kbind (getP process) (\<lambda>p.
     kthen (kassert ''ps.c'' 424 (process \<noteq> 0))
     (kthen (ObDereferenceObject process)
     (kreturn (STATUS_SUCCESS, Some (ExitStatus p)))))))"

definition PsGetPriority :: "u32 \<Rightarrow> (u32 \<times> u32 option) kern" where
  "PsGetPriority ProcessHandle =
     kbind (kget processType) (\<lambda>T.
     kbind (ObReferenceObjectByHandle ProcessHandle T) (\<lambda>(status, process).
     if status \<noteq> 0 then kreturn (status, None) else
     kbind (getP process) (\<lambda>p.
     kthen (kassert ''ps.c'' 443 (process \<noteq> 0))
     (kthen (ObDereferenceObject process)
     (kreturn (STATUS_SUCCESS, Some (Priority p)))))))"

definition PsGetState :: "u32 \<Rightarrow> (u32 \<times> PROCESS_STATE option) kern" where
  "PsGetState ProcessHandle =
     kbind (kget processType) (\<lambda>T.
     kbind (ObReferenceObjectByHandle ProcessHandle T) (\<lambda>(status, pprocess).
     if status \<noteq> 0 then kreturn (status, None) else
     kbind (getP pprocess) (\<lambda>p.
     kthen (kassert ''ps.c'' 462 (pprocess \<noteq> 0))
     (kthen (ObDereferenceObject pprocess)
     (kreturn (STATUS_SUCCESS, Some (State p)))))))"

definition PsGetPid :: "u32 \<Rightarrow> (u32 \<times> u32 option) kern" where
  "PsGetPid Handle =
     kbind (kget processType) (\<lambda>T.
     kbind (ObReferenceObjectByHandle Handle T) (\<lambda>(status, pprocess).
     if status \<noteq> 0 then kreturn (status, None) else
     kbind (getP pprocess) (\<lambda>p.
     kthen (kassert ''ps.c'' 480 (pprocess \<noteq> 0))
     (kthen (ObDereferenceObject pprocess)
     (kreturn (STATUS_SUCCESS, Some (PID p)))))))"

section \<open>Listing all processes\<close>

definition CopyPInfo :: "addr \<Rightarrow> PROCESS_INFO \<Rightarrow> (u32 \<times> PROCESS_INFO) kern" where
  "CopyPInfo PProcess Info =
     (if PProcess = 0 then kreturn (STATUS_INVALID_PARAMETER, Info) else
      kbind (getP PProcess) (\<lambda>p.
      kreturn (STATUS_SUCCESS, Info\<lparr>piCPUTime := CPUTime p, piPriority := Priority p,
        piState := State p, piRunningProgram := RunningProgram p, piPID := PID p\<rparr>)))"

text \<open>\<^verbatim>\<open>Buffer[i] = pinfo\<close>: an element has five words.\<close>

definition store_info :: "addr \<Rightarrow> PROCESS_INFO \<Rightarrow> unit kern" where
  "store_info a info =
     (if a = 0 then khalt Fault else kmodify (\<lambda>s. s\<lparr>pinfos := (pinfos s)(a \<mapsto> info)\<rparr>))"

definition processes_info_step ::
  "addr \<Rightarrow> u32 \<Rightarrow> addr \<times> PROCESS_INFO \<times> u32
     \<Rightarrow> (addr \<times> PROCESS_INFO \<times> u32 + u32 \<times> u32 option) kern" where
  "processes_info_step Buffer BufferSize = (\<lambda>(pprocess, pinfo, foundProc).
     if pprocess = 0 then kreturn (Inr (STATUS_SUCCESS, Some foundProc)) else
     kbind (if BufferSize > foundProc then CopyPInfo pprocess pinfo
            else kreturn (STATUS_SUCCESS, pinfo)) (\<lambda>(status, pinfo).
     if status \<noteq> 0 then kreturn (Inr (status, None)) else
     kthen (store_info (Buffer + 20 * foundProc) pinfo)
     (kbind (ObGetNextObjectOfType pprocess) (\<lambda>pprocess.
      kreturn (Inl (pprocess, pinfo, foundProc + 1))))))"

definition PsGetProcessesInfo :: "image \<Rightarrow> addr \<Rightarrow> u32 \<Rightarrow> (u32 \<times> u32 option) kern" where
  "PsGetProcessesInfo img Buffer BufferSize =
     kbind (kget processType) (\<lambda>T.
     kbind (ObGetFirstObjectOfType T) (\<lambda>pprocess.
     kloop (processes_info_step Buffer BufferSize) (pprocess, stack_info img, 0)))"

section \<open>Supervision\<close>

definition PsSupervise :: "image \<Rightarrow> u32 \<Rightarrow> u32 \<Rightarrow> u32 kern" where
  "PsSupervise img SupervisorPid pid =
     kbind (PsReferenceProcess pid) (\<lambda>(status, pprocess).
     if status \<noteq> 0 then kreturn status else
     kthen (setP pprocess (\<lambda>p. p\<lparr>Supervisor := SupervisorPid\<rparr>))
     (kbind (getP pprocess) (\<lambda>p.
      kthen (KdPrint img (literal img ''PsSuper PID:%d is supervised by %d'')
               (arguments [PID p, Supervisor p]))
      (kthen (kassert ''ps.c'' 590 (pprocess \<noteq> 0))
      (kthen (ObDereferenceObject pprocess)
      (kreturn STATUS_SUCCESS))))))"

end
