(* ===== verification/Mess.thy ===== *)
theory Mess
  imports PsLookup
begin

text \<open>
  Message passing, \<^verbatim>\<open>base/mess/mess.c\<close>, on top of the queue of waiting processes of theory
  \<open>MessQueue\<close>; and \<^verbatim>\<open>KeSetSyscallResult\<close> of \<^verbatim>\<open>base/ke/syscall.c\<close>, which it calls.  A message
  is a \<open>MESSAGE\<close> of seven words followed by its text.
\<close>

definition KeSetSyscallResult :: "addr \<Rightarrow> u32 \<Rightarrow> unit kern" where
  "KeSetSyscallResult Process Result =
     kthen (kassert ''syscall.c'' 13 (Process \<noteq> 0))
     (setP Process (\<lambda>p. p\<lparr>Context := (Context p)\<lparr>V0 := Result\<rparr>\<rparr>))"

definition MESSAGE_TYPE_FIRST :: u32 where "MESSAGE_TYPE_FIRST = 0"

definition sizeof_MESSAGE :: u32 where "sizeof_MESSAGE = 28"

text \<open>\<^verbatim>\<open>LengthOfQueue\<close> recurses along the links; on a cyclic queue it does not return.\<close>

partial_function (option) LengthOfQueue :: "addr \<Rightarrow> kstate \<Rightarrow> (u32, kstate) outcome option" where
  "LengthOfQueue node s =
     (if node = 0 then Some (Return 0 s) else
      (case mnodes s node of
         None \<Rightarrow> Some (Halt Fault)
       | Some n \<Rightarrow> Option.bind (LengthOfQueue (mnNext n) s) (\<lambda>res. (case res of
             Halt h \<Rightarrow> Some (Halt h)
           | Return k t \<Rightarrow> Some (Return (1 + k) t)))))"

section \<open>Sending\<close>

definition send_waiter_step :: "u32 \<Rightarrow> addr \<Rightarrow> addr \<Rightarrow> addr \<times> addr \<Rightarrow> (addr \<times> addr + unit) kern" where
  "send_waiter_step pid pprocess message = (\<lambda>(iterator, iteratorPrev).
     if iterator = 0 then kreturn (Inr ()) else
     kbind (getN iterator) (\<lambda>n.
     kthen
       (if mnPid n = pid then
          kbind (getP (mnProcess n)) (\<lambda>w.
          if State w \<noteq> blocked then
            kbind (RemoveProcessFromQueue iterator iteratorPrev) (\<lambda>_. kreturn ())
          else
            kbind (getMsg message) (\<lambda>m.
            kwhen (mnType n = MESSAGE_TYPE_FIRST \<or> mnType n = msgType m)
              (kthen (KeSetSyscallResult pprocess message)
              (kthen (KeResumeProcess pprocess)
              (kbind (RemoveProcessFromQueue iterator iteratorPrev) (\<lambda>_. kreturn ()))))))
        else kreturn ())
     (kbind (getN iterator) (\<lambda>n. kreturn (Inl (mnNext n, iterator))))))"

definition append_message_step :: "addr \<Rightarrow> addr \<Rightarrow> (addr + unit) kern" where
  "append_message_step message mq =
     (if mq = 0 then kreturn (Inr ()) else
      kbind (getMsg mq) (\<lambda>m.
      if msgNext m = 0 then
        kthen (setMsg mq (\<lambda>m. m\<lparr>msgNext := message\<rparr>)) (kreturn (Inr ()))
      else kreturn (Inl (msgNext m))))"

definition append_message :: "addr \<Rightarrow> addr \<Rightarrow> unit kern" where
  "append_message pprocess message =
     kbind (getP pprocess) (\<lambda>p.
     if MessageQueue p = 0 then setP pprocess (\<lambda>p. p\<lparr>MessageQueue := message\<rparr>)
     else kloop (append_message_step message) (MessageQueue p))"

definition new_message :: "addr \<Rightarrow> u32 \<Rightarrow> u32 \<Rightarrow> addr \<Rightarrow> u32 \<Rightarrow> unit kern" where
  "new_message message pid type buffer n =
     kbind (kget KeCurrentProcess) (\<lambda>cur.
     kbind (getP cur) (\<lambda>c.
     kthen (kmodify (\<lambda>s. s\<lparr>messages := (messages s)(message \<mapsto>
              \<lparr>senderPid = PID c, receiverPid = pid, msgPriority = 1, msgType = type,
               msgBuffer = message + sizeof_MESSAGE, bufferSize = n, msgNext = 0\<rparr>)\<rparr>))
     (kbind (on_mem (RtlCopyMemory (message + sizeof_MESSAGE) buffer n)) (\<lambda>_. kreturn ()))))"

definition MessSendMessage :: "u32 \<Rightarrow> u32 \<Rightarrow> addr \<Rightarrow> u32 \<Rightarrow> u32 kern" where
  "MessSendMessage pid type buffer n =
     kbind getQ (\<lambda>_.
     kthen (kassert ''mess.c'' 126 (buffer \<noteq> 0))
     (kbind (MmAlloc (sizeof_MESSAGE + n)) (\<lambda>message.
      if message = 0 then kreturn STATUS_NO_MEMORY else
      kthen (new_message message pid type buffer n)
      (kbind (PsReferenceProcess pid) (\<lambda>(status, pprocess).
       if status \<noteq> 0 then kreturn status else
       kbind getQ (\<lambda>q.
       kthen (kloop (send_waiter_step pid pprocess message) (mqFirst q, mqFirst q))
       (kthen (kassert ''mess.c'' 180 (pprocess \<noteq> 0))
       (kthen (append_message pprocess message)
       (kthen (ObDereferenceObject pprocess)
       (kreturn STATUS_SUCCESS))))))))))"

section \<open>Receiving\<close>

definition wait_for_message :: "u32 \<Rightarrow> u32 \<Rightarrow> unit kern" where
  "wait_for_message timeout type =
     kthen (kbind (AddProcessToQueue type) (\<lambda>_. kreturn ()))
     (KeSuspendProcess timeout MessResumeMethod)"

definition MessReceiveFirst :: "u32 \<Rightarrow> addr kern" where
  "MessReceiveFirst timeout =
     kbind (kget KeCurrentProcess) (\<lambda>cur.
     kbind (getP cur) (\<lambda>c.
     if MessageQueue c \<noteq> 0 then
       let newMessage = MessageQueue c in
       kbind (getMsg newMessage) (\<lambda>m.
       kthen (setP cur (\<lambda>c. c\<lparr>MessageQueue := msgNext m\<rparr>))
       (kthen (setMsg newMessage (\<lambda>m. m\<lparr>msgNext := 0\<rparr>))
       (kreturn newMessage)))
     else kthen (wait_for_message timeout MESSAGE_TYPE_FIRST) (kreturn 0)))"

definition receive_type_step :: "u32 \<Rightarrow> addr \<times> addr \<Rightarrow> (addr \<times> addr + addr) kern" where
  "receive_type_step type = (\<lambda>(mq, mqPrev).
     if mq = 0 then kreturn (Inr 0) else
     kbind (getMsg mq) (\<lambda>m.
     if msgType m = type then
       kthen (setMsg mq (\<lambda>m. m\<lparr>msgNext := 0\<rparr>))
       (kbind (getMsg mq) (\<lambda>m.
        kthen (setMsg mqPrev (\<lambda>p. p\<lparr>msgNext := msgNext m\<rparr>))
        (kreturn (Inr mq))))
     else kreturn (Inl (msgNext m, mq))))"

definition MessReceiveType :: "u32 \<Rightarrow> u32 \<Rightarrow> addr kern" where
  "MessReceiveType timeout type =
     kbind (kget KeCurrentProcess) (\<lambda>cur.
     kbind (getP cur) (\<lambda>c.
     if MessageQueue c \<noteq> 0 then
       let newMessage = MessageQueue c in
       kbind (getMsg newMessage) (\<lambda>m.
       if msgType m = type then
         kthen (setMsg newMessage (\<lambda>m. m\<lparr>msgNext := 0\<rparr>))
         (kbind (getMsg (MessageQueue c)) (\<lambda>m.
          kthen (setP cur (\<lambda>c. c\<lparr>MessageQueue := msgNext m\<rparr>))
          (kreturn newMessage)))
       else
         kbind (kloop (receive_type_step type) (MessageQueue c, MessageQueue c)) (\<lambda>found.
         if found \<noteq> 0 then kreturn found
         else kthen (wait_for_message timeout type) (kreturn 0)))
     else kthen (wait_for_message timeout type) (kreturn 0)))"

section \<open>Handling received messages\<close>

definition MessGetMessageSize :: "addr \<Rightarrow> u32 kern" where
  "MessGetMessageSize mess = kbind (getMsg mess) (\<lambda>m. kreturn (bufferSize m + sizeof_MESSAGE))"

text \<open>
  \<^verbatim>\<open>RtlCopyMemory\<close> over a message: its header is a struct of the split heap, its text lies
  in the byte memory behind it.
\<close>

definition copy_message_bytes :: "addr \<Rightarrow> addr \<Rightarrow> u32 \<Rightarrow> unit kern" where
  "copy_message_bytes messDest messSource n =
     kthen (kmodify (\<lambda>s. s\<lparr>messages := (messages s)(messDest := messages s messSource)\<rparr>))
     (kbind (on_mem (RtlCopyMemory (messDest + sizeof_MESSAGE) (messSource + sizeof_MESSAGE) n))
        (\<lambda>_. kreturn ()))"

definition MessCopyMessage :: "addr \<Rightarrow> addr \<Rightarrow> u32 \<Rightarrow> u32 kern" where
  "MessCopyMessage messDest messSource sizeOfMessage =
     kthen (kassert ''mess.c'' 307 (messDest \<noteq> 0))
     (kthen (kassert ''mess.c'' 308 (messSource \<noteq> 0))
     (kbind (getMsg messSource) (\<lambda>m.
      if sizeOfMessage < bufferSize m + sizeof_MESSAGE then kreturn STATUS_BUFFER_TOO_SMALL
      else kthen (copy_message_bytes messDest messSource (bufferSize m)) (kreturn STATUS_SUCCESS))))"

definition delete_message_step :: "addr \<Rightarrow> addr \<Rightarrow> (addr + u32) kern" where
  "delete_message_step message iterator =
     (if iterator = 0 then kreturn (Inr STATUS_INVALID_HANDLE) else
      kbind (getMsg iterator) (\<lambda>i.
      if msgNext i = message then
        kbind (getMsg message) (\<lambda>m.
        kthen (setMsg iterator (\<lambda>i. i\<lparr>msgNext := msgNext m\<rparr>))
        (kthen (MmFree message)
        (kreturn (Inr STATUS_SUCCESS))))
      else kreturn (Inl (msgNext i))))"

definition MessDeleteMessage :: "addr \<Rightarrow> u32 kern" where
  "MessDeleteMessage mess =
     kthen (kassert ''mess.c'' 324 (mess \<noteq> 0))
     (kbind (kget KeCurrentProcess) (\<lambda>cur.
      kthen (kassert ''mess.c'' 325 (cur \<noteq> 0))
      (kbind (getP cur) (\<lambda>c.
       let mq = MessageQueue c in
       if mq = 0 then kreturn STATUS_SUCCESS
       else if mq = mess then
         kbind (getMsg mess) (\<lambda>m.
         kthen (setP cur (\<lambda>c. c\<lparr>MessageQueue := msgNext m\<rparr>))
         (kthen (MmFree mess)
         (kreturn STATUS_INVALID_HANDLE)))
       else kloop (delete_message_step mess) mq))))"

definition delete_queue_step :: "addr \<Rightarrow> (addr + u32) kern" where
  "delete_queue_step mq =
     (if mq = 0 then kreturn (Inr STATUS_SUCCESS) else
      kbind (getMsg mq) (\<lambda>m.
      kthen (MmFree mq) (kreturn (Inl (msgNext m)))))"

definition MessDeleteMessageQueue :: "addr \<Rightarrow> u32 kern" where
  "MessDeleteMessageQueue messageQueue = kloop delete_queue_step messageQueue"

end
