(* ===== verification/Ps.thy ===== *)
theory Ps
  imports Mess
begin

text \<open>
  The process manager, \<^verbatim>\<open>base/ps/ps.c\<close>: the table of programs, creating and killing
  processes, priorities and arguments.

  \<^verbatim>\<open>PsKillProcess\<close> tells the supervisor through \<^verbatim>\<open>SendMessage\<close>, an assembler stub that
  executes the \<^verbatim>\<open>syscall\<close> instruction; it is a parameter.
\<close>

section \<open>The programs\<close>

definition program_names :: "(string \<times> string) list" where
  "program_names =
     [(''tm'', ''AppTaskManager''), (''TaskManager'', ''AppTaskManager''),
      (''Kill'', ''AppKill''), (''ChangePrio'', ''AppChangePrio''),
      (''taskmanager'', ''AppTaskManager''), (''kill'', ''AppKill''),
      (''changeprio'', ''AppChangePrio''), (''philosopher'', ''AppPhilosopher''),
      (''waiter'', ''AppWaiter''), (''shell'', ''AppShell''), (''ring'', ''AppRing''),
      (''ringnode'', ''AppRingNode''), (''startwaiter'', ''AppStartWaiter''),
      (''drone'', ''AppDrone''), (''keepalive'', ''AppKeepAlive''),
      (''startkeepalive'', ''AppStartKeepAlive'')]"

text \<open>The pairs (name, entry point) of addresses that the table holds.\<close>

definition PsAvailApps :: "image \<Rightarrow> (addr \<times> addr) list" where
  "PsAvailApps img = map (\<lambda>(name, execute). (literal img name, code_address img execute)) program_names"

definition program_adress_step :: "image \<Rightarrow> addr \<Rightarrow> nat \<Rightarrow> (nat + addr) kern" where
  "program_adress_step img ProgramName index =
     (if index < length (PsAvailApps img) then
        let (name, execute) = PsAvailApps img ! index in
        kbind (on_mem (RtlStringLength name)) (\<lambda>l1.
        kbind (on_mem (RtlStringLength ProgramName)) (\<lambda>l2.
        if l1 = l2 then
          kbind (on_mem (RtlCompareStrings name ProgramName)) (\<lambda>r.
          kreturn (if r = 0 then Inr execute else Inl (index + 1)))
        else kreturn (Inl (index + 1))))
      else kreturn (Inr 0))"

definition GetProgramAdress :: "image \<Rightarrow> addr \<Rightarrow> addr kern" where
  "GetProgramAdress img ProgramName =
     (if ProgramName = 0 then kreturn 0 else kloop (program_adress_step img ProgramName) 0)"

definition GetProgramName :: "image \<Rightarrow> addr \<Rightarrow> addr" where
  "GetProgramName img Execute =
     (if Execute = 0 then 0 else
      case find (\<lambda>(name, execute). execute = Execute) (PsAvailApps img) of
        None \<Rightarrow> 0 | Some (name, _) \<Rightarrow> name)"

section \<open>Initialisation\<close>

definition sizeof_PROCESS :: u32 where "sizeof_PROCESS = 2240"

definition PROCESS_MEMORY_SIZE :: u32 where "PROCESS_MEMORY_SIZE = 32768"

definition zero_process :: PROCESS where
  "zero_process = \<lparr>
     Context = \<lparr>At = 0, V0 = 0, V1 = 0, A0 = 0, A1 = 0, A2 = 0, A3 = 0,
       T0 = 0, T1 = 0, T2 = 0, T3 = 0, T4 = 0, T5 = 0, T6 = 0, T7 = 0,
       S0 = 0, S1 = 0, S2 = 0, S3 = 0, S4 = 0, S5 = 0, S6 = 0, S7 = 0,
       T8 = 0, T9 = 0, K0 = 0, K1 = 0, Gp = 0, Sp = 0, Fp = 0, Ra = 0, Hi = 0, Lo = 0, Pc = 0\<rparr>,
     HandleTable = (\<lambda>_. \<lparr>HtAttributes = 0, HtObject = 0\<rparr>), State = created,
     RunningProgram = 0, PID = 0, Priority = 0, ExitStatus = 0, AllocatedMemory = 0,
     CPUTime = 0, WakeUpTime = 0, Quantum = 0, Args = 0, MessageQueue = 0, Supervisor = 0,
     ResumeMethod = NoResumeMethod, NextPCB = 0\<rparr>"

definition CreateProcessObjectType :: "u32 kern" where
  "CreateProcessObjectType =
     kbind (ObCreateObjectType 0x0CE55 \<lparr>DumpMethod = NoDumpMethod, DeleteMethod = NoDeleteMethod\<rparr>)
       (\<lambda>(status, T). kthen (kmodify (\<lambda>s. s\<lparr>processType := T\<rparr>)) (kreturn status))"

text \<open>\<^verbatim>\<open>RtlZeroMemory\<close> over a process object.\<close>

definition zero_process_at :: "addr \<Rightarrow> unit kern" where
  "zero_process_at process = kmodify (\<lambda>s. s\<lparr>procs := (procs s)(process \<mapsto> zero_process)\<rparr>)"

definition PsInitialize :: "image \<Rightarrow> unit kern" where
  "PsInitialize img =
     kthen (kbind (ObCreateObjectType 0x0CE55
              \<lparr>DumpMethod = NoDumpMethod, DeleteMethod = NoDeleteMethod\<rparr>)
              (\<lambda>(status, T). kmodify (\<lambda>s. s\<lparr>processType := T\<rparr>)))
     (kbind (kget processType) (\<lambda>T.
      kbind (ObCreateObject T 0 sizeof_PROCESS) (\<lambda>(status, process).
      kthen (kassert ''ps.c'' 82 (process \<noteq> 0))
      (kthen (kassert ''ps.c'' 86 (process \<noteq> 0))
      (kthen (zero_process_at process)
      (kthen (setP process (\<lambda>p. p\<lparr>Quantum := 1, RunningProgram := literal img ''IDLE Process''\<rparr>))
      (kbind (ObInitProcess 0 process) (\<lambda>_.
       kthen (kmodify (\<lambda>s. s\<lparr>KeCurrentProcess := process\<rparr>))
       (kassert ''ps.c'' 99 (process \<noteq> 0))))))))))"

section \<open>Creating a process\<close>

definition copy_args :: "addr \<Rightarrow> addr \<Rightarrow> unit kern" where
  "copy_args process ArgStr =
     kwhen (ArgStr \<noteq> 0)
       (kbind (on_mem (RtlStringLength ArgStr)) (\<lambda>argsLength.
        kwhen (argsLength > 0)
          (kbind (MmAlloc argsLength) (\<lambda>argtmp.
           kthen (kbind (on_mem (RtlCopyString argtmp ArgStr)) (\<lambda>_. kreturn ()))
           (setP process (\<lambda>p. p\<lparr>Args := argtmp, Context := (Context p)\<lparr>A0 := argtmp\<rparr>\<rparr>))))))"

definition init_new_process :: "image \<Rightarrow> addr \<Rightarrow> addr \<Rightarrow> u32 \<Rightarrow> addr \<Rightarrow> addr \<Rightarrow> unit kern" where
  "init_new_process img process start prio ArgStr memPointer =
     kthen (setP process (\<lambda>p. p\<lparr>RunningProgram := GetProgramName img start,
              AllocatedMemory := memPointer\<rparr>))
     (kbind GetNewPID (\<lambda>pid.
      setP process (\<lambda>p. p\<lparr>PID := pid, Priority := prio, CPUTime := 0, Args := ArgStr,
        ExitStatus := 654321,
        Context := (Context p)\<lparr>Pc := start, Sp := memPointer + PROCESS_MEMORY_SIZE\<rparr>\<rparr>)))"

text \<open>\<^verbatim>\<open>ObOpenObjectByPointer\<close> with the pointer through which it stores the handle.\<close>

definition open_object_at :: "addr \<Rightarrow> addr \<Rightarrow> addr \<Rightarrow> u32 kern" where
  "open_object_at object T Handle =
     kthen (kassert ''ob.c'' 328 (Handle \<noteq> 0))
     (kbind (ObOpenObjectByPointer object 0 T) (\<lambda>(status, h).
      kthen (on_mem (store_u32 Handle h)) (kreturn status)))"

text \<open>The three error exits of \<^verbatim>\<open>PsCreateProcess\<close>.\<close>

definition abandon_process :: "nat \<Rightarrow> addr \<Rightarrow> addr \<Rightarrow> u32 \<Rightarrow> u32 kern" where
  "abandon_process line process memPointer status =
     kthen (kassert ''ps.c'' line (process \<noteq> 0))
     (kthen (ObDereferenceObject process)
     (kthen (MmFree memPointer)
     (kreturn status)))"

definition start_new_process :: "addr \<Rightarrow> addr \<Rightarrow> addr \<Rightarrow> u32 kern" where
  "start_new_process process memPointer ProcessHandle =
     kbind (kget processType) (\<lambda>T.
     kbind (open_object_at process T ProcessHandle) (\<lambda>status.
     if status \<noteq> 0 then abandon_process 256 process memPointer status else
     kthen (setP process (\<lambda>p. p\<lparr>State := ready\<rparr>))
     (kbind (KeStartSchedulingProcess process) (\<lambda>status.
      if status \<noteq> 0 then abandon_process 267 process memPointer status else
      kthen (kassert ''ps.c'' 272 (process \<noteq> 0))
      (kthen (ObDereferenceObject process)
      (kreturn STATUS_SUCCESS))))))"

definition PsCreateProcess :: "image \<Rightarrow> addr \<Rightarrow> u32 \<Rightarrow> addr \<Rightarrow> addr \<Rightarrow> u32 kern" where
  "PsCreateProcess img PStartingAddress prio ProcessHandle ArgStr =
     (if PStartingAddress = 0 then kreturn STATUS_INVALID_APPLICATION_ADRESS else
      kbind (kget processType) (\<lambda>T.
      kbind (ObCreateObject T 0 sizeof_PROCESS) (\<lambda>(status, process).
      if status \<noteq> 0 then kreturn status else
      kthen (kassert ''ps.c'' 200 (process \<noteq> 0))
      (kthen (kassert ''ps.c'' 204 (process \<noteq> 0))
      (kthen (zero_process_at process)
      (kthen (setP process (\<lambda>p. p\<lparr>State := created\<rparr>))
      (kbind (MmAlloc PROCESS_MEMORY_SIZE) (\<lambda>memPointer.
       if memPointer = 0 then
         kthen (kassert ''ps.c'' 215 (process \<noteq> 0))
         (kthen (ObDereferenceObject process) (kreturn STATUS_NO_MEMORY))
       else
         kthen (init_new_process img process PStartingAddress prio ArgStr memPointer)
         (kbind (kget KeCurrentProcess) (\<lambda>cur.
          kbind (ObInitProcess cur process) (\<lambda>status.
          if status \<noteq> 0 then abandon_process 235 process memPointer status else
          kthen (copy_args process ArgStr)
          (start_new_process process memPointer ProcessHandle))))))))))))"

definition PsCreateProcessByName :: "image \<Rightarrow> addr \<Rightarrow> u32 \<Rightarrow> addr \<Rightarrow> addr \<Rightarrow> u32 kern" where
  "PsCreateProcessByName img ProgramName prio ProcessHandle ArgStr =
     kbind (GetProgramAdress img ProgramName) (\<lambda>programAdress.
     if programAdress = 0 then kreturn STATUS_NO_SUCH_PROGRAM
     else PsCreateProcess img programAdress prio ProcessHandle ArgStr)"

section \<open>Killing a process\<close>

definition tell_supervisor ::
  "image \<Rightarrow> (u32 \<Rightarrow> u32 \<Rightarrow> addr \<Rightarrow> u32 \<Rightarrow> unit kern) \<Rightarrow> addr \<Rightarrow> unit kern" where
  "tell_supervisor img SendMessage PProcess =
     kbind (getP PProcess) (\<lambda>p.
     kwhen (Supervisor p \<noteq> 0)
       (kthen (KdPrint img (literal img ''telling supervisor'') (arguments []))
       (kbind (on_mem (RtlFormatString (stack_buffer img) 10 (literal img ''%d'') (arguments [PID p]))) (\<lambda>_.
        kbind (on_mem (RtlStringLength (stack_buffer img))) (\<lambda>l.
        SendMessage (Supervisor p) 0 (stack_buffer img) (l + 1))))))"

definition PsKillProcess ::
  "image \<Rightarrow> (u32 \<Rightarrow> u32 \<Rightarrow> addr \<Rightarrow> u32 \<Rightarrow> unit kern) \<Rightarrow> addr \<Rightarrow> u32 \<Rightarrow> u32 kern" where
  "PsKillProcess img SendMessage PProcess status_at_exit =
     kbind (kget processType) (\<lambda>T.
     kbind (ObReferenceObject PProcess T) (\<lambda>status.
     if status \<noteq> 0 then kreturn status else
     kbind (KeStopSchedulingProcess PProcess) (\<lambda>status.
     if status \<noteq> 0 then
       kthen (KdPrint img (literal img ''stop scheduling failed in kill process'') (arguments []))
       (kreturn status)
     else
       kthen (tell_supervisor img SendMessage PProcess)
       (kbind (getP PProcess) (\<lambda>p.
        kbind (MessDeleteMessageQueue (MessageQueue p)) (\<lambda>_.
        kthen (ObKillProcess PProcess)
        (kbind (getP PProcess) (\<lambda>p.
         kthen (MmFree (AllocatedMemory p))
         (kthen (kwhen (Args p \<noteq> 0) (MmFree (Args p)))
         (kthen (setP PProcess (\<lambda>p. p\<lparr>ExitStatus := status_at_exit\<rparr>))
         (kthen (ObSignalObject PProcess)
         (kthen (kassert ''ps.c'' 358 (PProcess \<noteq> 0))
         (kthen (ObDereferenceObject PProcess)
         (kreturn STATUS_SUCCESS))))))))))))))"

definition PsKillMe :: "image \<Rightarrow> (u32 \<Rightarrow> u32 \<Rightarrow> addr \<Rightarrow> u32 \<Rightarrow> unit kern) \<Rightarrow> unit kern" where
  "PsKillMe img SendMessage =
     kbind (kget KeCurrentProcess) (\<lambda>cur.
     kbind (PsKillProcess img SendMessage cur 0) (\<lambda>status.
     kwhen (status \<noteq> 0) (KdPrint img (literal img ''KillMe failed'') (arguments []))))"

definition PsKillByPID ::
  "image \<Rightarrow> (u32 \<Rightarrow> u32 \<Rightarrow> addr \<Rightarrow> u32 \<Rightarrow> unit kern) \<Rightarrow> u32 \<Rightarrow> u32 \<Rightarrow> u32 kern" where
  "PsKillByPID img SendMessage pid status_at_exit =
     kbind (PsReferenceProcess pid) (\<lambda>(status, pprocess).
     if status \<noteq> 0 then kreturn status else
     kthen (kassert ''ps.c'' 299 (pprocess \<noteq> 0))
     (kbind (PsKillProcess img SendMessage pprocess status_at_exit) (\<lambda>status.
      if status \<noteq> 0 then
        kthen (kassert ''ps.c'' 303 (pprocess \<noteq> 0))
        (kthen (ObDereferenceObject pprocess) (kreturn status))
      else kthen (ObDereferenceObject pprocess) (kreturn status))))"

section \<open>Arguments and priorities\<close>

definition copy_args_step :: "addr \<Rightarrow> u32 \<Rightarrow> addr \<Rightarrow> u32 \<Rightarrow> (u32 + u32) kern" where
  "copy_args_step Buffer Buffersize args count =
     kbind (on_mem (rd (args + count))) (\<lambda>c.
     if c \<noteq> 0 \<and> Buffersize > count + 1 then
       kthen (on_mem (wr (Buffer + count) c)) (kreturn (Inl (count + 1)))
     else kreturn (Inr count))"

definition PsCopyArgs :: "addr \<Rightarrow> u32 \<Rightarrow> u32 kern" where
  "PsCopyArgs Buffer Buffersize =
     kbind (kget KeCurrentProcess) (\<lambda>cur.
     kbind (getP cur) (\<lambda>c.
     if Args c = 0 then kthen (on_mem (wr Buffer 0)) (kreturn 0) else
     kbind (kloop (copy_args_step Buffer Buffersize (Args c)) 0) (\<lambda>count.
     kthen (on_mem (wr (Buffer + count) 0)) (kreturn count))))"

definition PsChangePriority :: "u32 \<Rightarrow> u32 \<Rightarrow> u32 kern" where
  "PsChangePriority pid NewPriority =
     (if pid < 1 \<or> NewPriority > 31 then kreturn STATUS_INVALID_PARAMETER else
      kbind (PsReferenceProcess pid) (\<lambda>(status, pprocess).
      if status \<noteq> 0 then kreturn status else
      kthen (kassert ''ps.c'' 404 (pprocess \<noteq> 0))
      (kthen (KeChangeProcessPriority pprocess NewPriority)
      (kreturn STATUS_SUCCESS))))"

end
