(* ===== verification/Io.thy ===== *)
theory Io
  imports ObWait KdIo
begin

text \<open>
  Input and output, \<^verbatim>\<open>base/io/io.c\<close> and \<^verbatim>\<open>base/io/getline.c\<close>: the keyboard buffer, the
  file objects of the serial line and the character display, the queue of processes
  waiting for input, and the queue of strings waiting to be sent.  The 512 characters of an
  \<^verbatim>\<open>IO_BUFFER_NODE\<close> lie in the byte memory at the node's address, its other fields in
  \<open>bnodes\<close>.  The eight cells of the display, eight bytes apart, are \<open>lcdMem\<close>.
\<close>

section \<open>The keyboard buffer\<close>

definition AddCharToBuffer :: "byte \<Rightarrow> unit kern" where
  "AddCharToBuffer c =
     kbind (kget fifo) (\<lambda>f.
     kwhen (unat (fifoLength f + 1) < FIFO_SIZE)
       (kthen (kmodify (\<lambda>s. s\<lparr>fifo := f\<lparr>fifoBuffer := (fifoBuffer f)[unat (fifoLength f) := c]\<rparr>\<rparr>))
       (kmodify (\<lambda>s. s\<lparr>fifo := (fifo s)\<lparr>fifoLength := fifoLength (fifo s) + 1\<rparr>\<rparr>))))"

definition shift_step :: "u32 \<Rightarrow> (u32 + unit) kern" where
  "shift_step i =
     kbind (kget fifo) (\<lambda>f.
     if i = fifoLength f then kreturn (Inr ())
     else if unat i + 1 < FIFO_SIZE then
       kthen (kmodify (\<lambda>s. s\<lparr>fifo :=
                f\<lparr>fifoBuffer := (fifoBuffer f)[unat i := fifoBuffer f ! (unat i + 1)]\<rparr>\<rparr>))
       (kreturn (Inl (i + 1)))
     else khalt Fault)"

definition GetFirstCharFromBuffer :: "byte kern" where
  "GetFirstCharFromBuffer =
     kbind (kget (\<lambda>s. fifoBuffer (fifo s) ! 0)) (\<lambda>c.
     kthen (kloop shift_step 0)
     (kbind (kget fifo) (\<lambda>f.
      kthen (kwhen (fifoLength f > 0)
               (kmodify (\<lambda>s. s\<lparr>fifo := f\<lparr>fifoLength := fifoLength f - 1\<rparr>\<rparr>)))
      (kreturn c))))"

section \<open>Files\<close>

definition getWQ :: "IO_WAITING_QUEUE kern" where
  "getWQ = kbind (kget waitingQueue) (\<lambda>q. case q of None \<Rightarrow> khalt Fault | Some q \<Rightarrow> kreturn q)"

definition setWQ :: "(IO_WAITING_QUEUE \<Rightarrow> IO_WAITING_QUEUE) \<Rightarrow> unit kern" where
  "setWQ f = kbind getWQ (\<lambda>q. kmodify (\<lambda>s. s\<lparr>waitingQueue := Some (f q)\<rparr>))"

definition getBQ :: "IO_BUFFER_QUEUE kern" where
  "getBQ = kbind (kget bufferQueue) (\<lambda>q. case q of None \<Rightarrow> khalt Fault | Some q \<Rightarrow> kreturn q)"

definition setBQ :: "(IO_BUFFER_QUEUE \<Rightarrow> IO_BUFFER_QUEUE) \<Rightarrow> unit kern" where
  "setBQ f = kbind getBQ (\<lambda>q. kmodify (\<lambda>s. s\<lparr>bufferQueue := Some (f q)\<rparr>))"

abbreviation setBN :: "addr \<Rightarrow> (IO_BUFFER_NODE \<Rightarrow> IO_BUFFER_NODE) \<Rightarrow> unit kern" where
  "setBN \<equiv> store bnodes bnodes_update"

abbreviation setWN :: "addr \<Rightarrow> (IO_WAITING_NODE \<Rightarrow> IO_WAITING_NODE) \<Rightarrow> unit kern" where
  "setWN \<equiv> store wnodes wnodes_update"

definition new_queues :: "unit kern" where
  "new_queues =
     kbind (MmAlloc 8) (\<lambda>q.
     if q = 0 then khalt Fault else
     kthen (kmodify (\<lambda>s. s\<lparr>waitingQueue := Some \<lparr>wqFirst = 0, wqLast = 0\<rparr>\<rparr>))
     (kbind (MmAlloc 8) (\<lambda>q.
      if q = 0 then khalt Fault else
      kthen (kmodify (\<lambda>s. s\<lparr>bufferQueue := Some \<lparr>bqFirst = 0, bqLast = 0\<rparr>\<rparr>))
      (kmodify (\<lambda>s. s\<lparr>outputPointer := 0, doneWriting := True\<rparr>)))))"

definition IoInitialize :: "image \<Rightarrow> u32 kern" where
  "IoInitialize img =
     kthen (kmodify (\<lambda>s. s\<lparr>fifo := (fifo s)\<lparr>fifoLength := 0\<rparr>\<rparr>))
     (kbind (ObCreateObjectType 102 \<lparr>DumpMethod = NoDumpMethod, DeleteMethod = NoDeleteMethod\<rparr>)
        (\<lambda>(status, T).
      kthen (kmodify (\<lambda>s. s\<lparr>fileType := T\<rparr>))
      (kthen (HalDisplayString (literal img (''Create fileType done'' @ [NL])))
      (if status \<noteq> STATUS_SUCCESS then
         kthen (HalDisplayString (literal img (''Error: Create fileType'' @ [NL]))) (kreturn status)
       else
         kbind (ObCreateObject T 0 8) (\<lambda>(status, file).
         kthen (kmodify (\<lambda>s. s\<lparr>serialFile := file\<rparr>))
         (if status \<noteq> STATUS_SUCCESS then kreturn status else
          kthen (HalDisplayString (literal img (''Create serialFile done'' @ [NL])))
          (kthen (kmodify (\<lambda>s. s\<lparr>files := (files s)(file \<mapsto>
                    \<lparr>fileWrite = IoWriteSerialMethod, fileRead = IoReadSerialMethod\<rparr>)\<rparr>))
          (kbind (ObCreateObject T 0 8) (\<lambda>(status, file).
           kthen (kmodify (\<lambda>s. s\<lparr>lcdFile := file\<rparr>))
           (kthen
              (kwhen (status = STATUS_SUCCESS)
                 (kthen (HalDisplayString (literal img (''Create lcdFile done'' @ [NL])))
                 (kmodify (\<lambda>s. s\<lparr>files := (files s)(file \<mapsto>
                    \<lparr>fileWrite = IoWriteLcdMethod, fileRead = NoIoMethod\<rparr>)\<rparr>))))
           (kthen new_queues
           (kreturn status))))))))))))"

definition IoCreateFile :: "u32 \<Rightarrow> u32 kern" where
  "IoCreateFile filename =
     kbind (kget fileType) (\<lambda>T.
     if filename = 115 then
       kbind (kget serialFile) (\<lambda>f.
       kbind (ObOpenObjectByPointer f 0 T) (\<lambda>(status, handle). kreturn handle))
     else if filename = 108 then
       kbind (kget lcdFile) (\<lambda>f.
       kbind (ObOpenObjectByPointer f 0 T) (\<lambda>(status, handle). kreturn handle))
     else kreturn 0)"

section \<open>The devices\<close>

definition enqueue_buffer :: "addr \<Rightarrow> unit kern" where
  "enqueue_buffer newNode =
     kbind getBQ (\<lambda>q.
     if bqFirst q = 0 then
       kthen (setBQ (\<lambda>q. q\<lparr>bqFirst := newNode, bqLast := newNode\<rparr>))
       (kmodify (\<lambda>s. s\<lparr>outputPointer := newNode\<rparr>))
     else
       kthen (setBN (bqLast q) (\<lambda>n. n\<lparr>bnNext := newNode\<rparr>))
       (setBQ (\<lambda>q. q\<lparr>bqLast := newNode\<rparr>)))"

definition IoWriteSerial :: "addr \<Rightarrow> u32 \<Rightarrow> unit kern" where
  "IoWriteSerial buffer n =
     kbind (MmAlloc 524) (\<lambda>newNode.
     kthen (kbind (on_mem (RtlCopyString newNode buffer)) (\<lambda>_. kreturn ()))
     (kthen (if newNode = 0 then khalt Fault else
             kmodify (\<lambda>s. s\<lparr>bnodes := (bnodes s)(newNode \<mapsto>
               \<lparr>bnBufferSize = n, bnSizeCounter = raw_u32 s (newNode + 516), bnNext = 0\<rparr>)\<rparr>))
     (enqueue_buffer newNode)))"

definition block_reader :: "unit kern" where
  "block_reader =
     kbind (kget KeCurrentProcess) (\<lambda>cur.
     kthen (kbind (ObReferenceObject cur 0) (\<lambda>_. kreturn ()))
     KeBlockProcess)"

definition IoReadSerial :: "addr \<Rightarrow> u32 \<Rightarrow> unit kern" where
  "IoReadSerial buffer n =
     kbind getWQ (\<lambda>q.
     kbind (kget fifo) (\<lambda>f.
     kthen (kwhen (wqFirst q = 0 \<and> fifoBuffer f ! 0 \<noteq> 0)
              (kbind GetFirstCharFromBuffer (\<lambda>c. on_mem (wr buffer c))))
     (kbind (MmAlloc 16) (\<lambda>newNode.
      if newNode = 0 then khalt Fault else
      kbind (kget KeCurrentProcess) (\<lambda>cur.
      kthen (kmodify (\<lambda>s. s\<lparr>wnodes := (wnodes s)(newNode \<mapsto>
               \<lparr>wnProcess = cur, wnBuffer = buffer, wnBufferSize = n, wnNext = 0\<rparr>)\<rparr>))
      (kbind getWQ (\<lambda>q.
       if wqFirst q = 0 then
         kthen (setWQ (\<lambda>q. q\<lparr>wqFirst := newNode, wqLast := newNode\<rparr>)) block_reader
       else
         kthen (kassert ''io.c'' 223 (wqLast q \<noteq> 0))
         (kthen (setWN (wqLast q) (\<lambda>w. w\<lparr>wnNext := newNode\<rparr>))
         (kthen (setWQ (\<lambda>q. q\<lparr>wqLast := newNode\<rparr>)) block_reader)))))))))"

definition lcd_step :: "addr \<Rightarrow> u32 \<Rightarrow> u32 \<Rightarrow> (u32 + unit) kern" where
  "lcd_step string n i =
     (if i < n \<and> i < 8 then
        kbind (on_mem (rd (string + i))) (\<lambda>c.
        kthen (kmodify (\<lambda>s. s\<lparr>lcdMem := (lcdMem s)(unat i := c)\<rparr>))
        (kreturn (Inl (i + 1))))
      else kreturn (Inr ()))"

definition IoWriteLcd :: "addr \<Rightarrow> u32 \<Rightarrow> unit kern" where
  "IoWriteLcd buffer n = kloop (lcd_step buffer n) 0"

definition call_io_method :: "IO_METHOD \<Rightarrow> addr \<Rightarrow> u32 \<Rightarrow> unit kern" where
  "call_io_method m buffer n = (case m of
       NoIoMethod \<Rightarrow> khalt Fault
     | IoReadSerialMethod \<Rightarrow> IoReadSerial buffer n
     | IoWriteSerialMethod \<Rightarrow> IoWriteSerial buffer n
     | IoWriteLcdMethod \<Rightarrow> IoWriteLcd buffer n)"

definition IoWriteFile :: "u32 \<Rightarrow> addr \<Rightarrow> u32 \<Rightarrow> u32 kern" where
  "IoWriteFile handle buffer n =
     kbind (kget fileType) (\<lambda>T.
     kbind (ObReferenceObjectByHandle handle T) (\<lambda>(status, file).
     kbind (deref files file) (\<lambda>f.
     kthen (call_io_method (fileWrite f) buffer n)
     (kthen (kassert ''io.c'' 144 (file \<noteq> 0))
     (kthen (ObDereferenceObject file)
     (kreturn 0))))))"

definition IoReadFile :: "u32 \<Rightarrow> addr \<Rightarrow> u32 \<Rightarrow> u32 kern" where
  "IoReadFile handle buffer n =
     kbind (kget fileType) (\<lambda>T.
     kbind (ObReferenceObjectByHandle handle T) (\<lambda>(status, file).
     kbind (deref files file) (\<lambda>f.
     kthen (kwhen (fileRead f \<noteq> NoIoMethod) (call_io_method (fileRead f) buffer n))
     (kthen (kassert ''io.c'' 162 (file \<noteq> 0))
     (kthen (ObDereferenceObject file)
     (kreturn 0))))))"

section \<open>Interrupts\<close>

definition IoInterruptHandler :: "byte \<Rightarrow> unit kern" where
  "IoInterruptHandler c =
     kthen (AddCharToBuffer c)
     (kbind getWQ (\<lambda>q.
      kwhen (wqFirst q \<noteq> 0)
        (kbind (deref wnodes (wqFirst q)) (\<lambda>w.
         kthen (kbind GetFirstCharFromBuffer (\<lambda>ch. on_mem (wr (wnBuffer w) ch)))
         (kthen (setWQ (\<lambda>q. q\<lparr>wqFirst := wnNext w\<rparr>))
         (kthen (kassert ''io.c'' 264 (wnProcess w \<noteq> 0))
         (kthen (KeResumeProcess (wnProcess w))
         (kthen (ObDereferenceObject (wnProcess w))
         (MmFree (wqFirst q))))))))))"

definition next_buffer :: "unit kern" where
  "next_buffer =
     kbind getBQ (\<lambda>q.
     if bqFirst q = bqLast q \<and> bqFirst q \<noteq> 0 then
       kthen (MmFree (bqFirst q))
       (kthen (setBQ (\<lambda>q. q\<lparr>bqFirst := 0, bqLast := 0\<rparr>))
       (kmodify (\<lambda>s. s\<lparr>outputPointer := 0\<rparr>)))
     else
       kbind (deref bnodes (bqFirst q)) (\<lambda>n.
       kthen (setBQ (\<lambda>q. q\<lparr>bqFirst := bnNext n\<rparr>))
       (kthen (kmodify (\<lambda>s. s\<lparr>outputPointer := bnNext n\<rparr>))
       (MmFree (bqFirst q)))))"

definition IoTransmitterInterruptHandler :: "unit kern" where
  "IoTransmitterInterruptHandler =
     kbind (kget outputPointer) (\<lambda>p.
     kwhen (p \<noteq> 0)
       (kbind (on_mem (rd p)) (\<lambda>c.
        if c \<noteq> 0 then
          kthen (kmodify (\<lambda>s. s\<lparr>outputPointer := p + 1\<rparr>))
          (kbind (HalDisplayChar c) (\<lambda>_. kreturn ()))
        else next_buffer)))"

section \<open>Reading a line\<close>

text \<open>
  \<^verbatim>\<open>GetLine\<close> runs in user mode; the system calls it makes, assembler stubs, are parameters.
\<close>

definition get_line_step ::
  "image \<Rightarrow> (u32 \<Rightarrow> addr \<Rightarrow> u32 \<Rightarrow> unit kern) \<Rightarrow> (u32 \<Rightarrow> addr \<Rightarrow> u32 \<Rightarrow> unit kern) \<Rightarrow> u32
     \<Rightarrow> addr \<Rightarrow> (addr + unit) kern" where
  "get_line_step img ReadFile WriteFile handle iterator =
     kthen (ReadFile handle iterator 1)
     (kthen (KdPrint img (literal img ''Not waiting as it should?'') (arguments []))
     (kthen (WriteFile handle iterator 1)
     (kbind (on_mem (rd iterator)) (\<lambda>c.
      kreturn (if c \<noteq> 13 then Inl (iterator + 1) else Inr ())))))"

definition GetLine ::
  "image \<Rightarrow> (u32 \<Rightarrow> addr \<Rightarrow> u32 \<Rightarrow> unit kern) \<Rightarrow> (u32 \<Rightarrow> addr \<Rightarrow> u32 \<Rightarrow> unit kern) \<Rightarrow> addr kern" where
  "GetLine img ReadFile WriteFile =
     kbind (IoCreateFile 115) (\<lambda>handle.
     kbind (MmAlloc 100) (\<lambda>s.
     if s = 0 then
       kthen (KdPrint img (literal img ''Memory out in GetLine'') (arguments [])) (kreturn 0)
     else
       kthen (kassert ''getline.c'' 27 (s \<noteq> 0))
       (kthen (kfor [0 ..< 99] (\<lambda>_. on_mem (wr s 0)))
       (kthen (kloop (get_line_step img ReadFile WriteFile handle) s)
       (kreturn s)))))"

end
