(* ===== verification/KdCommand.thy ===== *)
theory KdCommand
  imports ObWait KdIo
begin

text \<open>
  The command processor of the kernel debugger, \<^verbatim>\<open>base/kd/kdcommand.c\<close>, and its line editor
  \<^verbatim>\<open>KdCharacterReceived\<close> from \<^verbatim>\<open>base/kd/kdio.c\<close>.
\<close>

definition split_parameter_step :: "addr \<Rightarrow> (memory, addr + addr) kmonad" where
  "split_parameter_step command =
     kbind (rd command) (\<lambda>c.
     if c = 0 then kreturn (Inr command)
     else if c = chr CHR '' '' then kthen (wr command 0) (kreturn (Inr (command + 1)))
     else kreturn (Inl (command + 1)))"

definition KdpSplitParameter :: "addr \<Rightarrow> (memory, addr) kmonad" where
  "KdpSplitParameter command = kloop split_parameter_step command"

section \<open>The commands\<close>

definition KdpCmdTicks :: "image \<Rightarrow> unit kern" where
  "KdpCmdTicks img =
     kbind KeGetTickCount (\<lambda>t. KdpPrint (literal img (''%d milliseconds'' @ [NL])) (arguments [t]))"

definition dump_object :: "image \<Rightarrow> addr \<Rightarrow> unit kern" where
  "dump_object img object =
     kthen (ObDumpObject img object (stack_buffer img) 320)
     (KdpPrint (literal img (''0x%x %s'' @ [NL])) (arguments [object, stack_buffer img]))"

definition cmd_objects_step :: "image \<Rightarrow> addr \<Rightarrow> (addr + unit) kern" where
  "cmd_objects_step img currentObject =
     (if currentObject = 0 then kreturn (Inr ()) else
      kthen (dump_object img currentObject)
      (kbind (ObGetNextObjectOfType currentObject) (\<lambda>next. kreturn (Inl next))))"

definition cmd_types_step :: "image \<Rightarrow> addr \<Rightarrow> (addr + unit) kern" where
  "cmd_types_step img currentType =
     (if currentType = 0 then kreturn (Inr ()) else
      kbind (ObGetFirstObjectOfType currentType) (\<lambda>currentObject.
      kbind (getT currentType) (\<lambda>t.
      kthen (KdpPrint (literal img (''OBJECT_TYPE 0x%x Name: 0x%x'' @ [NL]))
               (arguments [currentType, TypeName t]))
      (kthen (kloop (cmd_objects_step img) currentObject)
      (kbind (getT currentType) (\<lambda>t.
       kthen (kwhen (NextTypeObject t \<noteq> 0) (KdpPrintChar 10))
       (kreturn (Inl (NextTypeObject t)))))))))"

definition KdpCmdObjects :: "image \<Rightarrow> unit kern" where
  "KdpCmdObjects img = kbind (kget ObTypeObjectListHead) (kloop (cmd_types_step img))"

definition cmd_list_step :: "image \<Rightarrow> addr \<Rightarrow> (addr + unit) kern" where
  "cmd_list_step img current =
     (if current = 0 then kreturn (Inr ()) else
      kthen (dump_object img current)
      (kbind (getP current) (\<lambda>p. kreturn (Inl (NextPCB p)))))"

definition KdpCmdBlockedList :: "image \<Rightarrow> unit kern" where
  "KdpCmdBlockedList img =
     kthen (KdpPrint (literal img (''Blocked processes:'' @ [NL])) (arguments []))
     (kthen (kbind (kget KepBlockedList) (kloop (cmd_list_step img)))
     (kthen (KdpPrint (literal img (''Timer processes:'' @ [NL])) (arguments []))
     (kbind (kget KepTimerList) (kloop (cmd_list_step img)))))"

datatype KD_EXECUTE = ExecHelp | ExecTicks | ExecObjects | ExecBlockedList

definition KdpCommands :: "(string \<times> string \<times> KD_EXECUTE) list" where
  "KdpCommands =
     [(''help'', ''Prints this help'', ExecHelp),
      (''ticks'', ''Gets number of milliseconds that elapsed since the system started'', ExecTicks),
      (''objects'', ''Prints a list of objects present in the system'', ExecObjects),
      (''bl'', ''Prints the state of blocked process queues'', ExecBlockedList)]"

definition KdpCmdHelp :: "image \<Rightarrow> unit kern" where
  "KdpCmdHelp img =
     kfor KdpCommands (\<lambda>(name, help, _).
       KdpPrint (literal img (''%s - %s'' @ [NL])) (arguments [literal img name, literal img help]))"

definition call_command :: "image \<Rightarrow> KD_EXECUTE \<Rightarrow> unit kern" where
  "call_command img x = (case x of
       ExecHelp \<Rightarrow> KdpCmdHelp img
     | ExecTicks \<Rightarrow> KdpCmdTicks img
     | ExecObjects \<Rightarrow> KdpCmdObjects img
     | ExecBlockedList \<Rightarrow> KdpCmdBlockedList img)"

definition execute_command_step :: "image \<Rightarrow> addr \<Rightarrow> nat \<Rightarrow> (nat + unit) kern" where
  "execute_command_step img command i =
     (if i < length KdpCommands then
        let (name, _, execute) = KdpCommands ! i in
        kbind (on_mem (RtlCompareStrings (literal img name) command)) (\<lambda>r.
        if r = 0 then kthen (call_command img execute) (kreturn (Inr ()))
        else kreturn (Inl (i + 1)))
      else
        kthen (KdpPrint (literal img (''%s: command not recognized'' @ [NL])) (arguments [command]))
        (kreturn (Inr ())))"

definition KdpExecuteCommand :: "image \<Rightarrow> addr \<Rightarrow> unit kern" where
  "KdpExecuteCommand img command =
     kbind (on_mem (KdpSplitParameter command)) (\<lambda>parameter.
     kloop (execute_command_step img command) 0)"

section \<open>The line editor\<close>

definition KdCharacterReceived :: "image \<Rightarrow> byte \<Rightarrow> unit kern" where
  "KdCharacterReceived img c =
     kbind (kget commandBufferPosition) (\<lambda>i.
     if c = 13 then
       kthen (on_mem (wr (commandBuffer img + i) 0))
       (kthen (kmodify (\<lambda>s. s\<lparr>commandBufferPosition := 0\<rparr>))
       (kthen (KdpPrintChar 10)
       (kthen (KdpExecuteCommand img (commandBuffer img))
       (KdpPrintDebuggerPrompt img))))
     else if c = 8 \<or> c = 127 then
       kwhen (i > 0)
         (kthen (kmodify (\<lambda>s. s\<lparr>commandBufferPosition := i - 1\<rparr>))
         (KdpPrintString (literal img (ESC # ''[D '' @ ESC # ''[D''))))
     else
       kwhen (sint c > 31 \<and> sint c < 127 \<and> i < 160 - 1)
         (kthen (KdpPrintChar c)
         (kthen (on_mem (wr (commandBuffer img + i) c))
         (kmodify (\<lambda>s. s\<lparr>commandBufferPosition := commandBufferPosition s + 1\<rparr>)))))"

end
