(* ===== verification/Kernel.thy ===== *)
theory Kernel
  imports Ps Io KdCommand
begin

text \<open>
  The kernel's entry points: the system call dispatcher \<^verbatim>\<open>base/ke/syscall.c\<close>, the exception
  handler \<^verbatim>\<open>base/hal/mipsel32/init.c\<close> and the start-up code \<^verbatim>\<open>base/ke/init.c\<close>.

  C leaves open in which order the two arguments of
  \<^verbatim>\<open>KeSetSyscallResult(KeCurrentProcess, service(...))\<close> are evaluated, and a service can
  change the current process; the flag \<open>late\<close> says whether the compiler reads
  \<^verbatim>\<open>KeCurrentProcess\<close> after the call.
\<close>

section \<open>System calls\<close>

definition set_result :: "bool \<Rightarrow> u32 kern \<Rightarrow> unit kern" where
  "set_result late service =
     (if late then
        kbind service (\<lambda>r. kbind (kget KeCurrentProcess) (\<lambda>cur. KeSetSyscallResult cur r))
      else
        kbind (kget KeCurrentProcess) (\<lambda>cur. kbind service (\<lambda>r. KeSetSyscallResult cur r)))"

definition store_out :: "addr \<Rightarrow> u32 \<times> u32 option \<Rightarrow> u32 kern" where
  "store_out p = (\<lambda>(status, v).
     kthen (case v of None \<Rightarrow> kreturn () | Some v \<Rightarrow> on_mem (store_u32 p v)) (kreturn status))"

definition current_field :: "(PROCESS \<Rightarrow> u32) \<Rightarrow> u32 kern" where
  "current_field f = kbind (kget KeCurrentProcess) (\<lambda>cur. kbind (getP cur) (\<lambda>c. kreturn (f c)))"

definition KeSystemService ::
  "image \<Rightarrow> (u32 \<Rightarrow> u32 \<Rightarrow> addr \<Rightarrow> u32 \<Rightarrow> unit kern) \<Rightarrow> bool
     \<Rightarrow> u32 \<Rightarrow> u32 \<Rightarrow> u32 \<Rightarrow> u32 \<Rightarrow> u32 \<Rightarrow> unit kern" where
  "KeSystemService img SendMessage late ServiceNumber Arg0 Arg1 Arg2 Arg3 =
     (if ServiceNumber = 0 then KeSuspendProcess Arg0 NoResumeMethod
      else if ServiceNumber = 1 then set_result late (current_field PID)
      else if ServiceNumber = 2 then PsKillMe img SendMessage
      else if ServiceNumber = 3 then set_result late (PsCreateProcessByName img Arg0 Arg1 Arg2 Arg3)
      else if ServiceNumber = 4 then set_result late (current_field Priority)
      else if ServiceNumber = 5 then set_result late (IoCreateFile Arg0)
      else if ServiceNumber = 6 then set_result late (IoWriteFile Arg0 Arg1 Arg2)
      else if ServiceNumber = 7 then set_result late (IoReadFile Arg0 Arg1 Arg2)
      else if ServiceNumber = 8 then set_result late (PsKillByPID img SendMessage Arg0 Arg1)
      else if ServiceNumber = 9 then set_result late (PsChangePriority Arg0 Arg1)
      else if ServiceNumber = 10 then set_result late (MessSendMessage Arg0 Arg1 Arg2 Arg3)
      else if ServiceNumber = 11 then set_result late (MessReceiveFirst Arg0)
      else if ServiceNumber = 13 then set_result late (MessReceiveType Arg0 Arg1)
      else if ServiceNumber = 14 then set_result late (MessGetMessageSize Arg0)
      else if ServiceNumber = 15 then set_result late (MessCopyMessage Arg0 Arg1 Arg2)
      else if ServiceNumber = 16 then set_result late (MessDeleteMessage Arg0)
      else if ServiceNumber = 17 then
        set_result late (kbind (PsGetProcessesInfo img Arg0 Arg1) (store_out Arg2))
      else if ServiceNumber = 18 then set_result late (PsSupervise img Arg0 Arg1)
      else if ServiceNumber = 23 then kbind (ObWaitForSingleObject Arg0) (\<lambda>_. kreturn ())
      else if ServiceNumber = 25 then set_result late (PsCopyArgs Arg0 Arg1)
      else if ServiceNumber = 26 then set_result late (ObCloseHandle Arg0)
      else if ServiceNumber = 27 then set_result late (kbind (PsGetPid Arg0) (store_out Arg1))
      else khalt (BugCheck ''Bad syscall. I think I will just die now.''))"

section \<open>Exceptions\<close>

definition CP0_CAUSE_EXCEPTION_CODE_MASK :: u32 where "CP0_CAUSE_EXCEPTION_CODE_MASK = 0x7C"
definition CP0_CAUSE_EXCEPTION_CODE_SHIFT :: nat where "CP0_CAUSE_EXCEPTION_CODE_SHIFT = 2"
definition CP0_CAUSE_TIMER :: u32 where "CP0_CAUSE_TIMER = 0x8000"
definition CP0_CAUSE_UART :: u32 where "CP0_CAUSE_UART = 0x0400"
definition CP0_CAUSE_SYSCALL :: u32 where "CP0_CAUSE_SYSCALL = 8"

record EXCEPTION_FRAME =
  frContext :: CONTEXT
  frCause :: u32
  frStatus :: u32

definition HalTrapCodeNames :: "string list" where
  "HalTrapCodeNames =
     [''Interrupt'', ''TLB modify trap'', ''TLB miss on load'', ''TLB miss on store'',
      ''Address error on load'', ''Address error on store'', ''Bus error on code'',
      ''Bus error on data'', ''System call'', ''Break instruction'', ''Illegal instruction'',
      ''Coprocessor unusable'', ''Arithmetic overflow'', ''Trap exception'']"

text \<open>
  What the handler reads from the serial controllers: data ready and the received character
  of both lines, and the transmitter-idle bit of the serial line.
\<close>

record UART =
  dr :: bool
  rbr :: byte
  thre :: bool
  dr2 :: bool
  rbr2 :: byte

definition HalResetTimer :: "u32 \<Rightarrow> unit kern" where
  "HalResetTimer ticks = kmodify (\<lambda>s. s\<lparr>timerTicks := ticks\<rparr>)"

definition handle_trap ::
  "image \<Rightarrow> (u32 \<Rightarrow> u32 \<Rightarrow> addr \<Rightarrow> u32 \<Rightarrow> unit kern) \<Rightarrow> bool \<Rightarrow> u32 \<Rightarrow> unit kern" where
  "handle_trap img SendMessage late exceptionCode =
     (if exceptionCode = CP0_CAUSE_SYSCALL then
        kbind (kget KeCurrentProcess) (\<lambda>cur.
        kthen (setP cur (\<lambda>p. p\<lparr>Context := (Context p)\<lparr>Pc := Pc (Context p) + 4\<rparr>\<rparr>))
        (kbind (getP cur) (\<lambda>p.
         let x = Context p in
         KeSystemService img SendMessage late (V0 x) (A0 x) (A1 x) (A2 x) (A3 x))))
      else if unat exceptionCode < length HalTrapCodeNames then
        khalt (BugCheck (HalTrapCodeNames ! unat exceptionCode))
      else khalt (BugCheck ''Unknown exception.''))"

definition handle_interrupt :: "image \<Rightarrow> UART \<Rightarrow> u32 \<Rightarrow> u32 kern" where
  "handle_interrupt img uart Cause =
     kthen (kwhen (and Cause CP0_CAUSE_TIMER \<noteq> 0)
              (kthen KeHandleTimer (HalResetTimer (67000 * 10))))
     (kbind
        (if and Cause CP0_CAUSE_UART \<noteq> 0 then
           kthen (kwhen (dr2 uart) (KdCharacterReceived img (rbr2 uart)))
           (if dr uart then
              kthen (IoInterruptHandler (rbr uart)) (kreturn (and Cause (not 0x1000)))
            else kreturn Cause)
         else kreturn Cause) (\<lambda>Cause.
      if thre uart then
        kthen IoTransmitterInterruptHandler (kreturn (and Cause (not 0x1000)))
      else kreturn Cause))"

definition HalHandleException ::
  "image \<Rightarrow> (u32 \<Rightarrow> u32 \<Rightarrow> addr \<Rightarrow> u32 \<Rightarrow> unit kern) \<Rightarrow> bool \<Rightarrow> UART
     \<Rightarrow> EXCEPTION_FRAME \<Rightarrow> EXCEPTION_FRAME kern" where
  "HalHandleException img SendMessage late uart frame =
     (let exceptionCode = drop_bit CP0_CAUSE_EXCEPTION_CODE_SHIFT
            (and (frCause frame) CP0_CAUSE_EXCEPTION_CODE_MASK) in
      kthen (KeCaptureContext (frContext frame))
      (kbind
         (if exceptionCode \<noteq> 0 then
            kthen (handle_trap img SendMessage late exceptionCode) (kreturn (frCause frame))
          else handle_interrupt img uart (frCause frame)) (\<lambda>Cause.
       kbind KeRestoreContext (\<lambda>context.
       kreturn (frame\<lparr>frContext := context, frCause := Cause\<rparr>)))))"

section \<open>Start-up\<close>

text \<open>
  \<^verbatim>\<open>HalInitialize\<close> programs the serial controllers and copies the exception vector, which lies
  between two labels of \<^verbatim>\<open>exception.S\<close>.
\<close>

definition program_uart :: "NS16550 \<Rightarrow> NS16550" where
  "program_uart u = (let u = u\<lparr>uLcr := set_field LCR_wls 3 (uLcr u)\<rparr>;
     u = u\<lparr>uIer := set_field IER_erbfi 1 (uIer u)\<rparr> in
     u\<lparr>uMcr := set_field MCR_out2 1 (uMcr u)\<rparr>)"

definition HalInitialize :: "addr \<Rightarrow> addr \<Rightarrow> unit kern" where
  "HalInitialize HalExceptionHandlerVector HalExceptionHandlerVectorEnd =
     kthen (kmodify (\<lambda>s. s\<lparr>tty2Regs := program_uart (tty2Regs s)\<rparr>))
     (kthen (kmodify (\<lambda>s. s\<lparr>ttyRegs := program_uart (ttyRegs s)\<rparr>))
     (kthen (kbind (on_mem (RtlCopyMemory 0xa0000180 HalExceptionHandlerVector
              (HalExceptionHandlerVectorEnd - HalExceptionHandlerVector))) (\<lambda>_. kreturn ()))
     (HalResetTimer (67000 * 10))))"

definition KeRestoreInterrupts :: "bool \<Rightarrow> unit kern" where
  "KeRestoreInterrupts enable = kmodify (\<lambda>s. s\<lparr>interrupts := interrupts s \<or> enable\<rparr>)"

text \<open>The services that \<^verbatim>\<open>KeInitialize\<close> brings up, one after the other.\<close>

definition start_services :: "image \<Rightarrow> addr \<Rightarrow> unit kern" where
  "start_services img image_limit =
     kthen (MmInitialize image_limit)
     (kthen (kbind (IoInitialize img) (\<lambda>_. kreturn ()))
     (kthen (PsInitialize img)
     (kbind (kget KeCurrentProcess) (\<lambda>cur.
      kthen (kassert ''init.c'' 42 (cur \<noteq> 0))
      (kbind MessInitialize (\<lambda>_. kreturn ()))))))"

text \<open>
  \<^verbatim>\<open>KeInitialize\<close> up to its idle loop.  \<open>first_handle\<close> and \<open>second_handle\<close> are the addresses of
  its two handle variables; \<open>CreateProcess\<close> is the assembler stub of the system call.
\<close>

definition KeInitialize ::
  "image \<Rightarrow> addr \<Rightarrow> addr \<Rightarrow> addr \<Rightarrow> addr \<Rightarrow> addr
     \<Rightarrow> (addr \<Rightarrow> u32 \<Rightarrow> addr \<Rightarrow> addr \<Rightarrow> unit kern) \<Rightarrow> unit kern" where
  "KeInitialize img image_limit vector vector_limit first_handle second_handle CreateProcess =
     kthen (HalInitialize vector vector_limit)
     (kthen (KdInitialize img)
     (kthen (start_services img image_limit)
     (kthen (KdPrint img (literal img ''Say %s to %s!'')
               (arguments [literal img ''hello'', literal img ''ARCOS kernel debugger'']))
     (kthen (kbind (PsCreateProcess img (code_address img ''TestScrollerProcess'') 10 first_handle 0)
               (\<lambda>_. kreturn ()))
     (kbind (kget (\<lambda>s. raw_u32 s first_handle)) (\<lambda>h1.
      kthen (kbind (ObCloseHandle h1) (\<lambda>_. kreturn ()))
      (kthen (CreateProcess (literal img ''shell'') 31 second_handle 0)
      (kbind (kget (\<lambda>s. raw_u32 s second_handle)) (\<lambda>h2.
       kthen (kbind (ObCloseHandle h2) (\<lambda>_. kreturn ()))
       (KeRestoreInterrupts True))))))))))"

end
