(* ===== verification/RtlMem.thy ===== *)
theory RtlMem
  imports Rtl
begin

text \<open>
  Reasoning about the byte memory: address ranges, byte strings in memory, and the loops of
  \<^verbatim>\<open>string.c\<close> and \<^verbatim>\<open>memory.c\<close> that copy, compare and measure them.
\<close>

section \<open>Address ranges\<close>

fun span :: "addr \<Rightarrow> nat \<Rightarrow> addr set" where
  "span a 0 = {}"
| "span a (Suc n) = insert a (span (a + 1) n)"

lemma span_eq: "span a n = (\<lambda>i. a + of_nat i) ` {..< n}"
proof (induction n arbitrary: a)
  case (Suc n)
  have "{..< Suc n} = insert 0 (Suc ` {..< n})" by (auto simp: image_iff less_Suc_eq_0_disj)
  then show ?case by (simp add: Suc.IH image_image add.assoc)
qed simp

lemma in_span: "i < n \<Longrightarrow> a + of_nat i \<in> span a n"
  by (auto simp: span_eq)

lemma span_mono: "m \<le> n \<Longrightarrow> span a m \<subseteq> span a n"
  by (auto simp: span_eq)

lemma span_shift: "k + m \<le> n \<Longrightarrow> span (a + of_nat k) m \<subseteq> span a n"
  by (force simp: span_eq image_iff add.assoc of_nat_add [symmetric] simp del: of_nat_add)

lemma span_add: "span a (m + n) = span a m \<union> span (a + of_nat m) n"
  by (induction m arbitrary: a) (simp_all add: add.assoc)

lemma not_in_span: "n < 2 ^ 32 \<Longrightarrow> a \<notin> span (a + 1) n"
proof
  assume n: "n < 2 ^ 32" and "a \<in> span (a + 1) n"
  then obtain i where i: "i < n" "a = a + 1 + of_nat i" by (auto simp: span_eq)
  then have z: "of_nat (Suc i) = (0 :: addr)" by (simp add: add.assoc)
  have "Suc i < 2 ^ LENGTH(32)" using i n by simp
  then have "unat (of_nat (Suc i) :: addr) = Suc i" by (simp only: unsigned_of_nat take_bit_nat_eq_self of_nat_id)
  then show False unfolding z by simp
qed

lemma end_not_in_span: "n < 2 ^ 32 \<Longrightarrow> a + of_nat n \<notin> span a n"
proof
  assume n: "n < 2 ^ 32" and "a + of_nat n \<in> span a n"
  then obtain i where i: "i < n" "a + of_nat n = a + of_nat i" by (auto simp: span_eq)
  then have "unat (of_nat n :: addr) = unat (of_nat i :: addr)" by simp
  moreover have "n < 2 ^ LENGTH(32)" "i < 2 ^ LENGTH(32)" using i n by simp_all
  ultimately have "n = i" by (simp only: unsigned_of_nat take_bit_nat_eq_self of_nat_id)
  then show False using i(1) by simp
qed

text \<open>Ranges that do not wrap around, compared by their bounds.\<close>

lemma unat_in_span: "x \<in> span a n \<Longrightarrow> unat a + n \<le> 2 ^ 32 \<Longrightarrow> unat a \<le> unat x \<and> unat x < unat a + n"
proof -
  assume "x \<in> span a n" and n: "unat a + n \<le> 2 ^ 32"
  then obtain i where i: "i < n" "x = a + of_nat i" by (auto simp: span_eq)
  have "i < 2 ^ LENGTH(32)" using i(1) n by simp
  then have u: "unat (of_nat i :: addr) = i" by (simp only: unsigned_of_nat take_bit_nat_eq_self of_nat_id)
  have "unat x = unat a + i" using i n by (simp add: unat_word_ariths u)
  then show ?thesis using i(1) by simp
qed

lemma span_apart:
  "unat a + n \<le> unat b \<or> unat b + m \<le> unat a \<Longrightarrow> unat a + n \<le> 2 ^ 32 \<Longrightarrow> unat b + m \<le> 2 ^ 32 \<Longrightarrow>
     span a n \<inter> span b m = {}"
  by (force dest: unat_in_span)

lemma span_nonnull: "a \<noteq> 0 \<Longrightarrow> unat a + n \<le> 2 ^ 32 \<Longrightarrow> 0 \<notin> span a n"
  by (auto dest!: unat_in_span simp: unat_eq_0)

section \<open>Strings in memory\<close>

fun bytes_at :: "memory \<Rightarrow> addr \<Rightarrow> byte list \<Rightarrow> bool" where
  "bytes_at M a [] \<longleftrightarrow> True"
| "bytes_at M a (b # bs) \<longleftrightarrow> a \<noteq> 0 \<and> M a = b \<and> bytes_at M (a + 1) bs"

definition str_at :: "memory \<Rightarrow> addr \<Rightarrow> byte list \<Rightarrow> bool" where
  "str_at M a xs \<longleftrightarrow> bytes_at M a (xs @ [0]) \<and> 0 \<notin> set xs"

lemma str_at_Nil [simp]: "str_at M a [] \<longleftrightarrow> a \<noteq> 0 \<and> M a = 0"
  by (simp add: str_at_def)

lemma str_at_Cons [simp]: "str_at M a (x # xs) \<longleftrightarrow> a \<noteq> 0 \<and> x \<noteq> 0 \<and> M a = x \<and> str_at M (a + 1) xs"
  by (auto simp: str_at_def)

lemma bytes_at_append:
  "bytes_at M a (xs @ ys) \<longleftrightarrow> bytes_at M a xs \<and> bytes_at M (a + of_nat (length xs)) ys"
  by (induction xs arbitrary: a) (auto simp: add.assoc)

lemma bytes_at_cong:
  "(\<And>x. x \<in> span a (length xs) \<Longrightarrow> M x = N x) \<Longrightarrow> bytes_at M a xs = bytes_at N a xs"
  by (induction xs arbitrary: a) auto

lemma bytes_at_nonnull: "bytes_at M a xs \<Longrightarrow> 0 \<notin> span a (length xs)"
  by (induction xs arbitrary: a) auto

lemma str_at_unique: "str_at M a xs \<Longrightarrow> str_at M a ys \<Longrightarrow> xs = ys"
proof (induction xs arbitrary: a ys)
  case Nil
  then show ?case by (cases ys) auto
next
  case (Cons x xs)
  then show ?case by (cases ys) auto
qed

fun poke :: "memory \<Rightarrow> addr \<Rightarrow> byte list \<Rightarrow> memory" where
  "poke M a [] = M"
| "poke M a (b # bs) = poke (M(a := b)) (a + 1) bs"

lemma poke_other: "x \<notin> span a (length xs) \<Longrightarrow> poke M a xs x = M x"
  by (induction xs arbitrary: M a) auto

lemma poke_append: "poke M a (xs @ ys) = poke (poke M a xs) (a + of_nat (length xs)) ys"
  by (induction xs arbitrary: M a) (auto simp: add.assoc)

lemma bytes_at_poke:
  "0 \<notin> span a (length xs) \<Longrightarrow> length xs \<le> 2 ^ 32 \<Longrightarrow> bytes_at (poke M a xs) a xs"
proof (induction xs arbitrary: M a)
  case (Cons x xs)
  have "poke (M(a := x)) (a + 1) xs a = x"
    using Cons.prems(2) by (subst poke_other) (auto simp: not_in_span)
  then show ?case using Cons by auto
qed simp

lemma bytes_at_poke_other:
  "span a (length xs) \<inter> span b (length ys) = {} \<Longrightarrow> bytes_at (poke M b ys) a xs = bytes_at M a xs"
  by (rule bytes_at_cong) (rule poke_other, blast)

lemma str_at_poke:
  assumes "0 \<notin> span a (Suc (length xs))" and "length xs < 2 ^ 32" and "0 \<notin> set xs"
  shows "str_at (poke M a (xs @ [0])) a xs"
  using assms bytes_at_poke [of a "xs @ [0]" M] by (simp add: str_at_def)

lemma str_at_poke_other:
  "span a (Suc (length xs)) \<inter> span b (length ys) = {} \<Longrightarrow> str_at (poke M b ys) a xs = str_at M a xs"
  using bytes_at_poke_other [of a "xs @ [0]" b ys M] by (simp add: str_at_def)

lemma str_at_upd:
  "b \<notin> span a (Suc (length xs)) \<Longrightarrow> str_at (M(b := v)) a xs = str_at M a xs"
  using str_at_poke_other [of a xs b "[v]" M] by simp

section \<open>The primitives\<close>

lemma returns_rd [kern]: "returns (rd a) M Q \<longleftrightarrow> a \<noteq> 0 \<and> Q (M a) M"
  by (simp add: rd_def kern)

lemma returns_wr [kern]: "returns (wr a b) M Q \<longleftrightarrow> a \<noteq> 0 \<and> Q () (M(a := b))"
  by (simp add: wr_def kern)

lemma returns_on_mem [kern]:
  "returns (on_mem m) s Q = returns m (mem s) (\<lambda>a M. Q a (s\<lparr>mem := M\<rparr>))"
  by (auto simp: on_mem_def returns_def split: option.splits outcome.splits)

lemma returns_let [kern]: "returns (Let x f) s Q = returns (f x) s Q"
  by simp

section \<open>Copying\<close>

lemma copy_string_loop:
  assumes "str_at M src xs" and "0 \<notin> span dest (Suc (length xs))"
    and "span dest (Suc (length xs)) \<inter> span src (Suc (length xs)) = {}"
  shows "returns (kloop copy_string_step (dest, src)) M (\<lambda>_ N. N = poke M dest (xs @ [0]))"
  using assms
proof (induction xs arbitrary: M dest src)
  case Nil
  then show ?case by (subst returns_kloop) (simp add: copy_string_step_def kern)
next
  case (Cons x xs)
  have s: "str_at (M(dest := x)) (src + 1) xs"
    using Cons.prems by (subst str_at_upd) auto
  have "returns (kloop copy_string_step (dest + 1, src + 1)) (M(dest := x))
      (\<lambda>_ N. N = poke (M(dest := x)) (dest + 1) (xs @ [0]))"
    using Cons.prems by (intro Cons.IH [OF s]) auto
  then show ?case
    using Cons.prems by (subst returns_kloop) (simp add: copy_string_step_def kern)
qed

lemma RtlCopyString_poke:
  assumes "str_at M src xs" and "0 \<notin> span dest (Suc (length xs))"
    and "span dest (Suc (length xs)) \<inter> span src (Suc (length xs)) = {}"
  shows "returns (RtlCopyString dest src) M (\<lambda>r N. r = dest \<and> N = poke M dest (xs @ [0]))"
  unfolding RtlCopyString_def returns_kthen
  by (rule returns_mono [OF copy_string_loop [OF assms]]) (simp add: kern)

lemma copy_memory_loop:
  assumes "bytes_at M src xs" and "length xs = unat n" and "0 \<notin> span dest (length xs)"
    and "span dest (length xs) \<inter> span src (length xs) = {}"
  shows "returns (kloop copy_memory_step (dest, src, n)) M (\<lambda>_ N. N = poke M dest xs)"
  using assms
proof (induction xs arbitrary: M dest src n)
  case Nil
  then have "n = 0" by (simp add: unat_eq_zero)
  then show ?case by (subst returns_kloop) (simp add: copy_memory_step_def kern)
next
  case (Cons x xs)
  then have n: "n \<noteq> 0" by auto
  then have l: "length xs = unat (n - 1)" using Cons.prems(2) by (simp add: unat_minus_one)
  have "dest \<notin> span (src + 1) (length xs)" using Cons.prems(4) by auto
  then have "bytes_at (M(dest := x)) (src + 1) xs = bytes_at M (src + 1) xs"
    by (intro bytes_at_cong) auto
  then have s: "bytes_at (M(dest := x)) (src + 1) xs" using Cons.prems by simp
  have d: "dest \<noteq> 0" "0 \<notin> span (dest + 1) (length xs)"
    "span (dest + 1) (length xs) \<inter> span (src + 1) (length xs) = {}"
    using Cons.prems(3,4) by auto
  have "returns (kloop copy_memory_step (dest + 1, src + 1, n - 1)) (M(dest := x))
      (\<lambda>_ N. N = poke (M(dest := x)) (dest + 1) xs)"
    by (rule Cons.IH [OF s l d(2,3)])
  then show ?case
    using Cons.prems n d(1) by (subst returns_kloop) (simp add: copy_memory_step_def kern)
qed

lemma RtlCopyMemory_poke:
  assumes "bytes_at M src xs" and "length xs = unat n" and "0 \<notin> span dest (length xs)"
    and "span dest (length xs) \<inter> span src (length xs) = {}"
  shows "returns (RtlCopyMemory dest src n) M (\<lambda>r N. r = dest \<and> N = poke M dest xs)"
  unfolding RtlCopyMemory_def returns_kthen
  by (rule returns_mono [OF copy_memory_loop [OF assms]]) (simp add: kern)

lemma fill_memory_loop:
  assumes "0 \<notin> span dest (unat n)"
  shows "returns (kloop (fill_memory_step v) (dest, n)) M (\<lambda>_ N. N = poke M dest (replicate (unat n) v))"
  using assms
proof (induction "unat n" arbitrary: M dest n)
  case 0
  then have "n = 0" by (simp add: unat_eq_zero)
  then show ?case by (subst returns_kloop) (simp add: fill_memory_step_def kern)
next
  case (Suc k)
  then have n: "n \<noteq> 0" by auto
  have u: "unat n = Suc (unat (n - 1))" using Suc(2) by (simp add: unat_minus_one [OF n])
  have "returns (kloop (fill_memory_step v) (dest + 1, n - 1)) (M(dest := v))
      (\<lambda>_ N. N = poke (M(dest := v)) (dest + 1) (replicate (unat (n - 1)) v))"
    by (rule Suc.hyps(1)) (use Suc u in auto)
  then show ?case
    using Suc.prems n u by (subst returns_kloop) (simp add: fill_memory_step_def kern)
qed

lemma RtlFillMemory_poke:
  assumes "0 \<notin> span dest (unat n)"
  shows "returns (RtlFillMemory dest v n) M (\<lambda>r N. r = dest \<and> N = poke M dest (replicate (unat n) v))"
  unfolding RtlFillMemory_def returns_kthen
  by (rule returns_mono [OF fill_memory_loop [OF assms]]) (simp add: kern)

section \<open>Measuring and comparing\<close>

lemma length_loop:
  "str_at M e xs \<Longrightarrow>
     returns (kloop length_step e) M (\<lambda>r N. r = e + of_nat (length xs) + 1 \<and> N = M)"
proof (induction xs arbitrary: e)
  case Nil
  then show ?case by (subst returns_kloop) (simp add: length_step_def kern)
next
  case (Cons x xs)
  then have "returns (kloop length_step (e + 1)) M (\<lambda>r N. r = e + 1 + of_nat (length xs) + 1 \<and> N = M)"
    using Cons.IH [of "e + 1"] by simp
  then show ?case
    using Cons.prems by (subst returns_kloop) (simp add: length_step_def kern add_ac)
qed

lemma RtlStringLength_str:
  "str_at M a xs \<Longrightarrow> returns (RtlStringLength a) M (\<lambda>r N. r = of_nat (length xs) \<and> N = M)"
  unfolding RtlStringLength_def returns_kbind
  by (rule returns_mono [OF length_loop]) (simp_all add: kern algebra_simps)

text \<open>The code's comparison: it stops at the end of \<^verbatim>\<open>dest\<close>, the second string.\<close>

fun compare_bytes :: "byte list \<Rightarrow> byte list \<Rightarrow> int" where
  "compare_bytes src [] = 0"
| "compare_bytes [] (d # dest) = - uint d"
| "compare_bytes (c # src) (d # dest) = (if c = d then compare_bytes src dest else uint c - uint d)"

lemma compare_loop:
  "str_at M src xs \<Longrightarrow> str_at M dest ys \<Longrightarrow>
     returns (kloop compare_step (src, dest)) M (\<lambda>r N. r = compare_bytes xs ys \<and> N = M)"
proof (induction xs ys arbitrary: src dest rule: compare_bytes.induct)
  case (1 xs)
  then show ?case by (subst returns_kloop) (simp add: compare_step_def kern)
next
  case (2 d ys)
  then show ?case by (subst returns_kloop) (simp add: compare_step_def kern unsigned_eq_0_iff)
next
  case (3 c xs d ys)
  show ?case
  proof (cases "c = d")
    case True
    with 3 have "returns (kloop compare_step (src + 1, dest + 1)) M
        (\<lambda>r N. r = compare_bytes xs ys \<and> N = M)" by simp
    then show ?thesis
      using 3 True by (subst returns_kloop) (simp add: compare_step_def kern)
  next
    case False
    then have "uint c \<noteq> uint d" by (simp flip: word_uint_eq_iff)
    then show ?thesis
      using 3 False by (subst returns_kloop) (simp add: compare_step_def kern)
  qed
qed

lemma compare_bytes_0: "0 \<notin> set ys \<Longrightarrow> compare_bytes xs ys = 0 \<longleftrightarrow> (\<exists>zs. xs = ys @ zs)"
  by (induction xs ys rule: compare_bytes.induct) (auto simp: unsigned_eq_0_iff simp flip: word_uint_eq_iff)

lemma RtlCompareStrings_sign:
  assumes "str_at M src xs" and "str_at M dest ys"
  shows "returns (RtlCompareStrings src dest) M (\<lambda>r N. r = sgn (compare_bytes xs ys) \<and> N = M)"
  unfolding RtlCompareStrings_def returns_kbind
  by (rule returns_mono [OF compare_loop [OF assms]]) (auto simp: kern)

end
