(* ===== verification/RtlPrint.thy ===== *)
theory RtlPrint
  imports RtlMem
begin

text \<open>
  The printing functions of \<^verbatim>\<open>string.c\<close>.  \<open>emits M m cu xs\<close>: started in memory \<open>M\<close> with
  the cursor \<open>cu\<close>, the function \<open>m\<close> prints the text \<open>xs\<close>; it returns the length of all of
  \<open>xs\<close>, but stores only as many of its characters as the cursor has room for.
\<close>

section \<open>Cursors\<close>

definition room :: "cursor \<Rightarrow> addr set" where
  "room cu = span (fst cu) (unat (snd cu))"

definition advance :: "cursor \<Rightarrow> nat \<Rightarrow> cursor" where
  "advance cu n = (fst cu + of_nat (min n (unat (snd cu))), snd cu - of_nat (min n (unat (snd cu))))"

definition put :: "memory \<Rightarrow> cursor \<Rightarrow> byte list \<Rightarrow> memory" where
  "put M cu xs = poke M (fst cu) (take (unat (snd cu)) xs)"

lemma unat_snd_advance: "unat (snd (advance cu n)) = unat (snd cu) - n"
proof -
  let ?k = "min n (unat (snd cu))"
  have k: "unat (of_nat ?k :: u32) = ?k" by (rule le_unat_uoi [OF min.cobounded2])
  then have "of_nat ?k \<le> snd cu" by (simp only: word_le_nat_alt min.cobounded2)
  then have "unat (snd cu - of_nat ?k) = unat (snd cu) - unat (of_nat ?k :: u32)"
    by (rule unat_sub)
  then show ?thesis unfolding k by (simp add: advance_def)
qed

lemma fst_advance: "fst (advance cu n) = fst cu + of_nat (min n (unat (snd cu)))"
  by (simp add: advance_def)

lemma advance_0 [simp]: "advance cu 0 = cu"
  by (simp add: advance_def)

lemma advance_add: "advance (advance cu m) n = advance cu (m + n)"
proof (rule prod_eqI)
  have m: "min m (unat (snd cu)) + min n (unat (snd cu) - m) = min (m + n) (unat (snd cu))"
    by (auto simp: min_def)
  show "fst (advance (advance cu m) n) = fst (advance cu (m + n))"
    by (simp only: fst_advance unat_snd_advance add.assoc of_nat_add [symmetric] m)
  show "snd (advance (advance cu m) n) = snd (advance cu (m + n))"
    by (simp add: word_unat_eq_iff unat_snd_advance)
qed

lemma put_append: "put (put M cu xs) (advance cu (length xs)) ys = put M cu (xs @ ys)"
  by (simp add: put_def fst_advance unat_snd_advance poke_append)

lemma put_Nil [simp]: "put M cu [] = M"
  by (simp add: put_def)

lemma room_advance: "room (advance cu n) \<subseteq> room cu"
proof (cases "n \<le> unat (snd cu)")
  case True
  then show ?thesis
    using span_shift [of n "unat (snd cu) - n" "unat (snd cu)" "fst cu"]
    by (simp add: room_def fst_advance unat_snd_advance min_absorb1)
qed (simp add: room_def unat_snd_advance)

lemma span_take_room: "span (fst cu) (length (take (unat (snd cu)) xs)) \<subseteq> room cu"
  unfolding room_def by (rule span_mono) simp

lemma str_at_put: "span a (Suc (length ys)) \<inter> room cu = {} \<Longrightarrow> str_at (put M cu xs) a ys = str_at M a ys"
  unfolding put_def using span_take_room [of cu xs] by (intro str_at_poke_other) blast

section \<open>Characters and numbers\<close>

lemma kloop_next: "body x s = Some (Return (Inl y) t) \<Longrightarrow> kloop body x s = kloop body y t"
  by (subst kloop.simps) simp

lemma kloop_last: "body x s = Some (Return (Inr v) t) \<Longrightarrow> kloop body x s = Some (Return v t)"
  by (subst kloop.simps) simp

definition emits :: "memory \<Rightarrow> (memory, u32 \<times> cursor) kmonad \<Rightarrow> cursor \<Rightarrow> byte list \<Rightarrow> bool" where
  "emits M m cu xs \<longleftrightarrow>
     m M = Some (Return (of_nat (length xs), advance cu (length xs)) (put M cu xs))"

lemma emits_run: "emits M m cu xs \<Longrightarrow>
    kbind m f M = f (of_nat (length xs), advance cu (length xs)) (put M cu xs)"
  by (simp add: emits_def run)

lemma emits_nothing: "emits M (kreturn (0, cu)) cu []"
  by (simp add: emits_def run)

lemma emits_seq:
  assumes "emits M m cu xs" and "0 \<notin> room (advance cu (length xs))"
    and "\<And>N cu'. 0 \<notin> room cu' \<Longrightarrow> emits N (g cu') cu' ys"
  shows "emits M (kbind m (\<lambda>(l1, cu). kbind (g cu) (\<lambda>(l2, cu). kreturn (l1 + l2, cu)))) cu (xs @ ys)"
  using assms(1) assms(3) [OF assms(2), of "put M cu xs"]
  by (simp add: emits_def [of M "kbind m _"] emits_run put_append advance_add run)

lemma emits_snprintchar: "0 \<notin> room cu \<Longrightarrow> emits M (snprintchar cu c) cu [c]"
proof (cases cu)
  case (Pair a z)
  assume z0: "0 \<notin> room cu"
  show ?thesis
  proof (cases "z = 0")
    case True
    then show ?thesis by (simp add: Pair emits_def snprintchar_def run advance_def put_def)
  next
    case False
    then have u: "0 < unat z" by (simp add: unat_gt_0)
    then obtain k where k: "unat z = Suc k" by (cases "unat z") auto
    have "0 < z" using u by (simp add: word_less_nat_alt)
    moreover have "a \<noteq> 0" using z0 k by (auto simp: Pair room_def)
    ultimately show ?thesis
      using k by (simp add: Pair emits_def snprintchar_def wr_def run advance_def put_def)
  qed
qed

lemma not_in_room_advance: "0 \<notin> room cu \<Longrightarrow> 0 \<notin> room (advance cu n)"
  using room_advance by blast

lemma digit_byte: "ucast (n mod 10 + 48) = (of_nat (unat n mod 10 + 48) :: byte)" for n :: u32
proof -
  have "unat (n mod 10 + 48) = unat n mod 10 + 48"
    by (simp add: unat_word_ariths(1) unat_mod)
  then show ?thesis by (metis of_nat_unat)
qed

lemma div_10_zero: "n div 10 = 0 \<longleftrightarrow> unat n < 10" for n :: u32
  by (simp add: unat_eq_zero [symmetric] unat_div div_eq_0_iff)

lemma emits_snprintulong: "0 \<notin> room cu \<Longrightarrow> emits M (snprintulong cu n) cu (decimal (unat n))"
proof (induction cu n arbitrary: M rule: snprintulong.induct)
  case (1 cu n)
  let ?pre = "if n div 10 \<noteq> 0 then snprintulong cu (n div 10) else kreturn (0, cu)"
  let ?xs = "if unat n < 10 then [] else decimal (unat n div 10)"
  have pre: "emits M ?pre cu ?xs"
    using 1 by (auto simp: div_10_zero unat_div emits_nothing)
  have "emits M (kbind ?pre (\<lambda>(l1, cu). kbind (snprintchar cu (ucast (n mod 10 + 48)))
      (\<lambda>(l2, cu). kreturn (l1 + l2, cu)))) cu (?xs @ [ucast (n mod 10 + 48)])"
    by (rule emits_seq [OF pre not_in_room_advance [OF 1(2)] emits_snprintchar])
  then show ?case
    by (subst snprintulong.simps) (simp add: decimal.simps [of "unat n"] digit_byte)
qed

lemma hex_digit_byte:
  "(if and n 15 < 10 then ucast (and n 15) + 48 else ucast (and n 15) + 65 - 10) =
     (of_nat (if unat n mod 16 < 10 then unat n mod 16 + 48 else unat n mod 16 + 55) :: byte)"
  for n :: u32
proof -
  have a: "and n 15 = n mod 16"
    using take_bit_eq_mask [of 4 n] by (simp add: take_bit_eq_mod mask_eq_exp_minus_1)
  have u: "unat (and n 15) = unat n mod 16" by (simp add: a unat_mod)
  then have "ucast (and n 15) = (of_nat (unat n mod 16) :: byte)" by (metis of_nat_unat)
  then show ?thesis by (simp add: word_less_nat_alt u)
qed

lemma emits_snprinthex: "0 \<notin> room cu \<Longrightarrow> emits M (snprinthex cu n) cu (hexadecimal (unat n))"
proof (induction cu n arbitrary: M rule: snprinthex.induct)
  case (1 cu n)
  let ?pre = "if drop_bit 4 n \<noteq> 0 then snprinthex cu (drop_bit 4 n) else kreturn (0, cu)"
  let ?xs = "if unat n < 16 then [] else hexadecimal (unat n div 16)"
  let ?d = "if and n 15 < 10 then ucast (and n 15) + 48 else ucast (and n 15) + 65 - 10 :: byte"
  have z: "drop_bit 4 n = 0 \<longleftrightarrow> unat n < 16"
    by (simp add: unat_eq_zero [symmetric] unat_drop_bit_4 div_eq_0_iff)
  have pre: "emits M ?pre cu ?xs"
    using 1 by (auto simp: z unat_drop_bit_4 emits_nothing)
  have "emits M (kbind ?pre (\<lambda>(l1, cu). kbind (snprintchar cu ?d)
      (\<lambda>(l2, cu). kreturn (l1 + l2, cu)))) cu (?xs @ [?d])"
    by (rule emits_seq [OF pre not_in_room_advance [OF 1(2)] emits_snprintchar])
  then show ?case
    by (subst snprinthex.simps) (simp add: hexadecimal.simps [of "unat n"] hex_digit_byte)
qed

text \<open>Signed division of numbers that are not negative, and the digit it leaves.\<close>

lemma sdiv_nonneg: "0 \<le> n \<Longrightarrow> n sdiv 10 = n div 10" "0 \<le> n \<Longrightarrow> n smod 10 = n mod 10" for n :: int
  by (simp_all add: signed_divide_int_def signed_modulo_int_def sgn_if minus_div_mult_eq_mod)

lemma digit_int: "0 \<le> n \<Longrightarrow> of_int (n mod 10 + 48) = (of_nat (nat n mod 10 + 48) :: byte)"
  using of_nat_nat [of "n mod 10", where 'a = byte] by (simp add: nat_mod_distrib)

lemma emits_nonneg_long:
  "0 \<le> n \<Longrightarrow> 0 \<notin> room cu \<Longrightarrow> emits M (snprintlong cu n) cu (decimal (nat n))"
proof (induction cu n arbitrary: M rule: snprintlong.induct)
  case (1 cu n)
  note d = sdiv_nonneg [OF 1(2)]
  let ?pre = "if n div 10 \<noteq> 0 then snprintlong cu (n div 10) else kreturn (0, cu)"
  let ?xs = "if nat n < 10 then [] else decimal (nat n div 10)"
  have z: "n div 10 = 0 \<longleftrightarrow> nat n < 10" using 1(2) by (auto simp: zdiv_eq_0_iff)
  have m: "n = (if n < 0 then neg32 n else n)" using 1(2) by simp
  have "emits M (snprintlong cu (n sdiv 10)) cu (decimal (nat (n sdiv 10)))" if "n div 10 \<noteq> 0"
    by (rule 1(1) [OF m]) (use that 1(2,3) d in simp_all)
  then have pre: "emits M ?pre cu ?xs"
    using 1(2) by (simp add: d z nat_div_distrib emits_nothing)
  note b = digit_int [OF 1(2)]
  have "emits M (kbind ?pre (\<lambda>(l1, cu). kbind (snprintchar cu (of_int (n mod 10 + 48)))
      (\<lambda>(l2, cu). kreturn (l1 + l2, cu)))) cu (?xs @ [of_int (n mod 10 + 48)])"
    by (rule emits_seq [OF pre not_in_room_advance [OF 1(3)] emits_snprintchar])
  moreover have "snprintlong cu n = kbind ?pre (\<lambda>(l1, cu). kbind (snprintchar cu (of_int (n mod 10 + 48)))
      (\<lambda>(l2, cu). kreturn (l1 + l2, cu)))"
    using 1(2) by (subst snprintlong.simps) (simp add: d not_less kbind_return)
  ultimately show ?case
    by (simp only: b decimal.simps [of "nat n"])
qed

text \<open>
  The minus sign comes first; the negation of \<^verbatim>\<open>LONG\<close>'s least value overflows, and is
  excluded here.
\<close>

lemma emits_snprintlong:
  assumes r: "0 \<notin> room cu" and n: "n \<noteq> - (2 ^ 31)"
  shows "emits M (snprintlong cu n) cu (signed_decimal n)"
proof (cases "n < 0")
  case False
  then show ?thesis using emits_nonneg_long [OF _ r, of n] by (simp add: signed_decimal_def)
next
  case True
  let ?m = "- n"
  note c = emits_snprintchar [OF r, of M "chr CHR ''-''"]
  let ?N = "put M cu [chr CHR ''-'']" and ?cu = "advance cu (Suc 0)"
  have e: "emits ?N (snprintlong ?cu ?m) ?cu (decimal (nat ?m))"
    using True by (intro emits_nonneg_long not_in_room_advance [OF r]) simp
  have "snprintlong cu n M = kbind (snprintlong ?cu ?m)
      (\<lambda>(l, cu). kreturn (1 + l, cu)) ?N"
  proof -
    have "snprintlong cu n M = kbind (snprintchar cu (chr CHR ''-'')) (\<lambda>(l1, cu).
        kbind (if ?m sdiv 10 \<noteq> 0 then snprintlong cu (?m sdiv 10) else kreturn (0, cu)) (\<lambda>(l2, cu).
        kbind (snprintchar cu (of_int (?m smod 10 + 48))) (\<lambda>(l3, cu).
        kreturn (l1 + l2 + l3, cu)))) M"
      using True n by (subst snprintlong.simps) (simp add: neg32_def)
    also have "\<dots> = kbind (if ?m sdiv 10 \<noteq> 0 then snprintlong ?cu (?m sdiv 10) else kreturn (0, ?cu)) (\<lambda>(l2, cu).
        kbind (snprintchar cu (of_int (?m smod 10 + 48))) (\<lambda>(l3, cu).
        kreturn (1 + l2 + l3, cu))) ?N"
      by (simp add: emits_run [OF c])
    also have "\<dots> = kbind (kbind (if ?m sdiv 10 \<noteq> 0 then snprintlong ?cu (?m sdiv 10) else kreturn (0, ?cu)) (\<lambda>(l2, cu).
        kbind (snprintchar cu (of_int (?m smod 10 + 48))) (\<lambda>(l3, cu).
        kreturn (l2 + l3, cu)))) (\<lambda>(l, cu). kreturn (1 + l, cu)) ?N"
      by (simp add: kbind_assoc case_prod_unfold kbind_return add.assoc)
    also have "kbind (if ?m sdiv 10 \<noteq> 0 then snprintlong ?cu (?m sdiv 10) else kreturn (0, ?cu)) (\<lambda>(l2, cu).
        kbind (snprintchar cu (of_int (?m smod 10 + 48))) (\<lambda>(l3, cu).
        kreturn (l2 + l3, cu))) = snprintlong ?cu ?m"
      using True by (subst (2) snprintlong.simps) (simp add: kbind_return)
    finally show ?thesis .
  qed
  then have "snprintlong cu n M = Some (Return
      (1 + of_nat (length (decimal (nat ?m))), advance ?cu (length (decimal (nat ?m))))
      (put ?N ?cu (decimal (nat ?m))))"
    by (simp add: emits_run [OF e] run)
  moreover have "signed_decimal n = [chr CHR ''-''] @ decimal (nat ?m)"
    using True by (simp add: signed_decimal_def chr_def)
  moreover have "put ?N ?cu (decimal (nat ?m)) = put M cu ([chr CHR ''-''] @ decimal (nat ?m))"
    using put_append [of M cu "[chr CHR ''-'']" "decimal (nat ?m)"] by simp
  ultimately show ?thesis by (simp add: emits_def advance_add)
qed

text \<open>A string is printed from memory the cursor cannot reach.\<close>

lemma snprintstring_loop:
  assumes "str_at M p xs" and "0 \<notin> room cu" and "span p (Suc (length xs)) \<inter> room cu = {}"
  shows "kloop snprintstring_step (p, len, cu) M =
    Some (Return (len + of_nat (length xs), advance cu (length xs)) (put M cu xs))"
  using assms
proof (induction xs arbitrary: M p len cu)
  case Nil
  then show ?case by (subst kloop.simps) (simp add: snprintstring_step_def rd_def run)
next
  case (Cons x xs)
  note c = emits_snprintchar [OF Cons.prems(2), of M x]
  have s: "str_at (put M cu [x]) (p + 1) xs"
    using Cons.prems by (subst str_at_put) auto
  have "kloop snprintstring_step (p + 1, len + 1, advance cu 1) (put M cu [x]) =
      Some (Return (len + 1 + of_nat (length xs), advance (advance cu 1) (length xs))
        (put (put M cu [x]) (advance cu 1) xs))"
    using Cons.prems(3) room_advance [of cu 1]
    by (intro Cons.IH [OF s not_in_room_advance [OF Cons.prems(2)]]) auto
  moreover have "kloop snprintstring_step (p, len, cu) M =
      kloop snprintstring_step (p + 1, len + 1, advance cu 1) (put M cu [x])"
    by (rule kloop_next) (use Cons.prems(1) in \<open>simp add: snprintstring_step_def rd_def run emits_run [OF c]\<close>)
  moreover have "put (put M cu [x]) (advance cu 1) xs = put M cu (x # xs)"
    using put_append [of M cu "[x]" xs] by simp
  ultimately show ?case by (simp add: advance_add add.assoc)
qed

lemma emits_snprintstring:
  "str_at M p xs \<Longrightarrow> 0 \<notin> room cu \<Longrightarrow> span p (Suc (length xs)) \<inter> room cu = {} \<Longrightarrow>
     emits M (snprintstring cu p) cu xs"
  by (simp add: emits_def snprintstring_def snprintstring_loop)

end
