(* ===== verification/RtlFormat.thy ===== *)
theory RtlFormat
  imports RtlPrint
begin

text \<open>
  \<^verbatim>\<open>RtlFormatString\<close> against the text its format describes, and \<^verbatim>\<open>RtlAtoUL\<close>.  \<open>expand\<close> is the
  reference: the whole text, whatever the size of the buffer.
\<close>

section \<open>The text of a format\<close>

text \<open>\<open>conversion S f a\<close>: the text of the conversion \<open>f\<close> of the word \<open>a\<close>, if there is one.\<close>

definition conversion :: "(addr \<Rightarrow> byte list) \<Rightarrow> byte \<Rightarrow> u32 \<Rightarrow> byte list option" where
  "conversion S f a =
     (if f = chr CHR ''d'' then Some (signed_decimal (sint a))
      else if f = chr CHR ''c'' then Some [ucast a]
      else if f = chr CHR ''x'' then Some (hexadecimal (unat a))
      else if f = chr CHR ''u'' then Some (decimal (unat a))
      else if f = chr CHR ''s'' then Some (S a)
      else None)"

fun expand :: "(addr \<Rightarrow> byte list) \<Rightarrow> (nat \<Rightarrow> u32) \<Rightarrow> nat \<Rightarrow> byte list \<Rightarrow> byte list" where
  "expand S args i [] = []"
| "expand S args i [c] = [c]"
| "expand S args i (c # f # fs) =
     (if c = chr CHR ''%'' then
        (case conversion S f (args i) of
           Some ys \<Rightarrow> ys @ expand S args (i + 1) fs
         | None \<Rightarrow> [c, f] @ expand S args i fs)
      else c # expand S args i (f # fs))"

text \<open>
  What the code needs of the format and its arguments: no lone percent sign at the end, no
  decimal conversion of the least \<^verbatim>\<open>LONG\<close>, and strings that are there and lie outside the
  buffer.
\<close>

definition argument_ok :: "(addr \<Rightarrow> byte list) \<Rightarrow> memory \<Rightarrow> addr set \<Rightarrow> byte \<Rightarrow> u32 \<Rightarrow> bool" where
  "argument_ok S M B f a \<longleftrightarrow>
     (f = chr CHR ''d'' \<longrightarrow> sint a \<noteq> - (2 ^ 31))
     \<and> (f = chr CHR ''s'' \<longrightarrow> str_at M a (S a) \<and> span a (Suc (length (S a))) \<inter> B = {})"

fun format_ok ::
  "(addr \<Rightarrow> byte list) \<Rightarrow> memory \<Rightarrow> addr set \<Rightarrow> (nat \<Rightarrow> u32) \<Rightarrow> nat \<Rightarrow> byte list \<Rightarrow> bool" where
  "format_ok S M B args i [] \<longleftrightarrow> True"
| "format_ok S M B args i [c] \<longleftrightarrow> c \<noteq> chr CHR ''%''"
| "format_ok S M B args i (c # f # fs) \<longleftrightarrow>
     (if c = chr CHR ''%'' then
        argument_ok S M B f (args i)
        \<and> format_ok S M B args (if conversion S f (args i) = None then i else i + 1) fs
      else format_ok S M B args i (f # fs))"

lemma chr_simps [simp]:
  "chr CHR ''%'' = 37" "chr CHR ''d'' = 100" "chr CHR ''c'' = 99" "chr CHR ''x'' = 120"
  "chr CHR ''u'' = 117" "chr CHR ''s'' = 115" "chr CHR '' '' = 32" "chr CHR ''-'' = 45"
  by (simp_all add: chr_def)

lemma argument_ok_put:
  "argument_ok S M B f a \<Longrightarrow> room cu \<subseteq> B \<Longrightarrow> argument_ok S (put M cu xs) B f a"
  unfolding argument_ok_def using str_at_put [of a "S a" cu M xs] by blast

lemma format_ok_put:
  "format_ok S M B args i fs \<Longrightarrow> room cu \<subseteq> B \<Longrightarrow> format_ok S (put M cu xs) B args i fs"
  by (induction S M B args i fs rule: format_ok.induct) (auto simp: argument_ok_put split: if_splits)

text \<open>One conversion.\<close>

definition print_argument :: "byte \<Rightarrow> u32 \<Rightarrow> cursor \<Rightarrow> (memory, u32 \<times> cursor) kmonad" where
  "print_argument f a cu =
     (if f = chr CHR ''d'' then snprintlong cu (sint a)
      else if f = chr CHR ''c'' then snprintchar cu (ucast a)
      else if f = chr CHR ''x'' then snprinthex cu a
      else if f = chr CHR ''u'' then snprintulong cu a
      else snprintstring cu a)"

lemma emits_print_argument:
  assumes "conversion S f a = Some ys" and "argument_ok S M B f a"
    and "0 \<notin> room cu" and "room cu \<subseteq> B"
  shows "emits M (print_argument f a cu) cu ys"
proof -
  have s: "emits M (snprintstring cu a) cu (S a)" if "f = 115"
    using assms(2-4) that by (intro emits_snprintstring) (auto simp: argument_ok_def)
  have d: "emits M (snprintlong cu (sint a)) cu (signed_decimal (sint a))" if "f = 100"
    using assms(2,3) that by (intro emits_snprintlong) (auto simp: argument_ok_def)
  note e = s d emits_snprintchar [OF assms(3)] emits_snprinthex [OF assms(3)]
    emits_snprintulong [OF assms(3)]
  show ?thesis
    using assms(1) by (auto simp: print_argument_def conversion_def e split: if_splits)
qed

section \<open>The loop\<close>

lemma format_step_end:
  "str_at M format [] \<Longrightarrow>
     format_step args (format, i, len, cu) M = Some (Return (Inr (len, cu)) M)"
  by (simp add: format_step_def rd_def run)

lemma format_step_plain:
  assumes "format \<noteq> 0" and "M format = c" and "c \<noteq> 0" and "c \<noteq> chr CHR ''%''" and "0 \<notin> room cu"
  shows "format_step args (format, i, len, cu) M =
    Some (Return (Inl (format + 1, i, len + of_nat (length [c]), advance cu (length [c]))) (put M cu [c]))"
  using assms(1-4)
  by (simp add: format_step_def rd_def run emits_run [OF emits_snprintchar [OF assms(5), of M c]])

lemma format_step_argument:
  assumes "format \<noteq> 0" and "M format = chr CHR ''%''" and "format + 1 \<noteq> 0" and "M (format + 1) = f"
    and "conversion S f (args i) = Some ys" and "emits M (print_argument f (args i) cu) cu ys"
  shows "format_step args (format, i, len, cu) M =
    Some (Return (Inl (format + 2, i + 1, len + of_nat (length ys), advance cu (length ys))) (put M cu ys))"
proof -
  note e = assms(6) [unfolded emits_def print_argument_def]
  have "f = 100 \<or> f = 99 \<or> f = 120 \<or> f = 117 \<or> f = 115"
    using assms(5) by (auto simp: conversion_def split: if_splits)
  then show ?thesis
    using assms(1-4)
    by (elim disjE) (use e in \<open>simp_all add: format_step_def rd_def run kbind_assoc\<close>)
qed

lemma format_step_other:
  assumes "format \<noteq> 0" and "M format = chr CHR ''%''" and "format + 1 \<noteq> 0" and "M (format + 1) = f"
    and "conversion S f (args i) = None" and r: "0 \<notin> room cu"
  shows "format_step args (format, i, len, cu) M =
    Some (Return (Inl (format + 2, i, len + of_nat (length [37, f]), advance cu (length [37, f])))
      (put M cu [37, f]))"
proof -
  let ?cu = "advance cu (length [37 :: byte])" and ?N = "put M cu [37]"
  have "kbind (snprintchar cu 37) (\<lambda>(l1, cu).
          kbind (snprintchar cu f) (\<lambda>(l2, cu). kreturn ((l1 + l2, cu), i))) M
      = Some (Return ((2, advance cu (Suc (Suc 0))), i) (put M cu [37, f]))"
    using put_append [of M cu "[37]" "[f]"]
    by (simp add: emits_run [OF emits_snprintchar [OF r, of M 37]]
        emits_run [OF emits_snprintchar [OF not_in_room_advance [OF r, of "Suc 0"], of ?N f], simplified]
        run advance_add)
  moreover have "f \<noteq> 100" "f \<noteq> 99" "f \<noteq> 120" "f \<noteq> 117" "f \<noteq> 115"
    using assms(5) by (auto simp: conversion_def split: if_splits)
  ultimately show ?thesis
    using assms(1-4) by (simp add: format_step_def rd_def run)
qed

lemma format_loop:
  assumes "str_at M format fs" and "format_ok S M B args i fs" and "0 \<notin> room cu" and "room cu \<subseteq> B"
    and "span format (Suc (length fs)) \<inter> B = {}"
  shows "kloop (format_step args) (format, i, len, cu) M =
    Some (Return (len + of_nat (length (expand S args i fs)), advance cu (length (expand S args i fs)))
      (put M cu (expand S args i fs)))"
  using assms
proof (induction S args i fs arbitrary: M format len cu rule: expand.induct)
  case (1 S args i)
  then show ?case using kloop_last [where body = "format_step args", OF format_step_end] by simp
next
  case (2 S args i c)
  then have c: "format \<noteq> 0" "M format = c" "c \<noteq> 0" "c \<noteq> chr CHR ''%''" "str_at M (format + 1) []"
    by auto
  have "str_at (put M cu [c]) (format + 1) []"
    using 2 c(5) by (subst str_at_put) auto
  then show ?case
    using kloop_next [where body = "format_step args", OF format_step_plain [where M = M, OF c(1-4) 2(3)]]
      kloop_last [where body = "format_step args", OF format_step_end] by simp
next
  case (3 S args i c f fs)
  have c: "format \<noteq> 0" "M format = c" "c \<noteq> 0" "str_at M (format + 1) (f # fs)"
    and f: "format + 1 \<noteq> 0" "M (format + 1) = f" "str_at M (format + 1 + 1) fs"
    using 3(4) by auto
  have sp: "span (format + 1) (Suc (length (f # fs))) \<inter> B = {}"
    "span (format + 1 + 1) (Suc (length fs)) \<inter> B = {}" using 3(8) by auto
  have keep: "str_at (put M cu xs) q ys" if "str_at M q ys" "span q (Suc (length ys)) \<inter> B = {}" for xs q ys
    using that 3(7) by (subst str_at_put) auto
  have adv: "0 \<notin> room (advance cu n)" "room (advance cu n) \<subseteq> B" for n
    using 3(6,7) room_advance [of cu n] by auto
  show ?case
  proof (cases "c = chr CHR ''%''")
    case False
    then have ok: "format_ok S (put M cu [c]) B args i (f # fs)"
      using 3(5,7) by (intro format_ok_put) auto
    note IH = 3(3) [OF False keep [OF c(4) sp(1)] ok adv sp(1)]
    show ?thesis
      using False put_append [of M cu "[c]"]
      unfolding kloop_next [where body = "format_step args", OF format_step_plain [where M = M, OF c(1-3) False 3(6)]] IH
      by (simp add: advance_add)
  next
    case True
    show ?thesis
    proof (cases "conversion S f (args i)")
      case None
      then have ok: "format_ok S (put M cu [37, f]) B args i fs"
        using 3(5,7) True by (intro format_ok_put) auto
      note IH = 3(1) [OF True None keep [OF f(3) sp(2)] ok adv sp(2)]
      have "format + 2 = format + 1 + 1" by simp
      then show ?thesis
        using True None put_append [of M cu "[37, f]"]
        unfolding kloop_next [where body = "format_step args", OF format_step_other [where M = M and args = args and i = i, OF c(1) c(2) [unfolded True] f(1,2) None 3(6)]]
        by (simp only: IH) (simp add: advance_add)
    next
      case (Some ys)
      have a: "argument_ok S M B f (args i)" using 3(5) True by simp
      have ok: "format_ok S (put M cu ys) B args (i + 1) fs"
        using 3(5,7) True Some by (intro format_ok_put) auto
      note IH = 3(2) [OF True Some keep [OF f(3) sp(2)] ok adv sp(2)]
      have "format + 2 = format + 1 + 1" by simp
      then show ?thesis
        using True Some put_append [of M cu ys]
        unfolding kloop_next [where body = "format_step args", OF format_step_argument [where M = M and args = args and i = i, OF c(1) c(2) [unfolded True] f(1,2) Some
            emits_print_argument [OF Some a 3(6,7)]]]
        by (simp only: IH) (simp add: advance_add add.assoc)
    qed
  qed
qed

text \<open>
  The whole function: the text cut to \<open>size - 1\<close> characters, the terminator, and the length
  of the uncut text.
\<close>

lemma RtlFormatString_expand:
  assumes fmt: "str_at M format fs" and ok: "format_ok S M (span str (unat sz)) args 0 fs"
    and sz: "sz > 0" and nn: "0 \<notin> span str (unat sz)"
    and sep: "span format (Suc (length fs)) \<inter> span str (unat sz) = {}"
  shows "RtlFormatString str sz format args M =
    Some (Return (of_nat (length (expand S args 0 fs)))
      (poke M str (take (unat sz - 1) (expand S args 0 fs) @ [0])))"
proof -
  let ?cu = "(str, sz - 1)" and ?xs = "expand S args 0 fs"
  have u: "unat (sz - 1) = unat sz - 1" "unat sz > 0"
    using sz by (simp_all add: unat_minus_one word_gt_0 unat_gt_0)
  have r: "room ?cu \<subseteq> span str (unat sz)" unfolding room_def u fst_conv snd_conv
    by (rule span_mono) simp
  with nn have r0: "0 \<notin> room ?cu" by blast
  note loop = format_loop [OF fmt ok r0 r sep, of 0]
  let ?k = "min (length ?xs) (unat sz - 1)"
  have cp: "advance ?cu (length ?xs) = (str + of_nat ?k, sz - 1 - of_nat ?k)"
    by (simp add: advance_def u)
  have "?k < unat sz" using u(2) by linarith
  then have "str + of_nat ?k \<in> span str (unat sz)" by (rule in_span)
  with nn have n0: "str + of_nat ?k \<noteq> 0" by metis
  have p: "poke M str (take (unat sz - 1) ?xs @ [0])
      = (poke M str (take (unat sz - 1) ?xs))(str + of_nat ?k := 0)"
    by (simp add: poke_append min.commute)
  have "RtlFormatString str sz format args M =
      kthen (wr (str + of_nat ?k) 0) (kreturn (of_nat (length ?xs))) (put M ?cu ?xs)"
    using loop sz by (simp add: RtlFormatString_def run cp)
  then show ?thesis
    using n0 by (simp add: wr_def run put_def u p [unfolded One_nat_def])
qed

end
