(* ===== verification/RtlSpec.thy ===== *)
theory RtlSpec
  imports RtlFormat
begin

text \<open>
  The properties of the runtime library.  Every one says what a function leaves in memory
  and that it changes nothing else; strings are lists of bytes, without the terminator.
\<close>

section \<open>Reading numbers\<close>

definition digit_value :: "u32 \<Rightarrow> byte \<Rightarrow> u32" where
  "digit_value r c = r * 10 + (scast c - 48)"

lemma digit_loop:
  "str_at M a ds \<Longrightarrow> returns (kloop digit_step (a, r)) M (\<lambda>v N. v = foldl digit_value r ds \<and> N = M)"
proof (induction ds arbitrary: a r)
  case Nil
  then show ?case by (subst returns_kloop) (simp add: digit_step_def kern)
next
  case (Cons d ds)
  have "returns (kloop digit_step (a + 1, digit_value r d)) M
      (\<lambda>v N. v = foldl digit_value (digit_value r d) ds \<and> N = M)"
    using Cons by simp
  then show ?case
    using Cons.prems by (subst returns_kloop) (simp add: digit_step_def kern digit_value_def)
qed

lemma skip_space_loop:
  assumes "str_at M a (replicate k 32 @ ds)" and "ds = [] \<or> hd ds \<noteq> 32"
  shows "returns (kloop skip_space_step a) M (\<lambda>b N. b = a + of_nat k \<and> N = M)"
  using assms
proof (induction k arbitrary: a)
  case 0
  then have "a \<noteq> 0" "M a \<noteq> 32" by (cases ds; auto)+
  then show ?case by (subst returns_kloop) (simp add: skip_space_step_def kern)
next
  case (Suc k)
  have "returns (kloop skip_space_step (a + 1)) M (\<lambda>b N. b = a + 1 + of_nat k \<and> N = M)"
    using Suc by (intro Suc.IH) auto
  then show ?case
    using Suc.prems by (subst returns_kloop) (simp add: skip_space_step_def kern add_ac)
qed

lemma str_at_drop: "str_at M a (xs @ ys) \<Longrightarrow> str_at M (a + of_nat (length xs)) ys"
  by (induction xs arbitrary: a) (auto simp: add.assoc [symmetric])

lemma RtlAtoUL_value:
  assumes "str_at M a (replicate k 32 @ ds)" and "ds = [] \<or> hd ds \<noteq> 32"
  shows "returns (RtlAtoUL a) M (\<lambda>v N. v = foldl digit_value 0 ds \<and> N = M)"
proof -
  have "str_at M (a + of_nat k) ds" using str_at_drop [OF assms(1)] by simp
  note loop = digit_loop [OF this, of 0]
  show ?thesis
    unfolding RtlAtoUL_def returns_kbind
    by (rule returns_mono [OF skip_space_loop [OF assms]]) (use loop in simp)
qed

lemma scast_digit: "d < 10 \<Longrightarrow> scast (of_nat (d + 48) :: byte) - 48 = (of_nat d :: u32)"
proof -
  assume "d < 10"
  then have "d \<in> {0, 1, 2, 3, 4, 5, 6, 7, 8, 9}" by auto
  then show ?thesis by auto
qed

lemma foldl_decimal: "foldl digit_value 0 (decimal n) = of_nat n"
proof (induction n rule: decimal.induct)
  case (1 n)
  have "n = n div 10 * 10 + n mod 10" by simp
  then have "(of_nat n :: u32) = of_nat (n div 10) * 10 + of_nat (n mod 10)"
    by (metis of_nat_add of_nat_mult of_nat_numeral)
  moreover have "scast (of_nat (n mod 10 + 48) :: byte) - 48 = (of_nat (n mod 10) :: u32)"
    by (rule scast_digit) simp
  moreover have "foldl digit_value 0 (if n < 10 then [] else decimal (n div 10)) = of_nat (n div 10)"
    using 1 by simp
  ultimately show ?case
    by (simp only: decimal.simps [of n] foldl_append foldl.simps) (simp only: digit_value_def)
qed

lemma decimal_digits: "c \<in> set (decimal n) \<Longrightarrow> c \<noteq> 0 \<and> c \<noteq> 32"
proof (induction n rule: decimal.induct)
  case (1 n)
  have "(of_nat (d + 48) :: byte) \<noteq> 0 \<and> (of_nat (d + 48) :: byte) \<noteq> 32" if "d < 10" for d
  proof -
    have "d \<in> {0, 1, 2, 3, 4, 5, 6, 7, 8, 9}" using that by auto
    then show ?thesis by auto
  qed
  from this [of "n mod 10"] 1 show ?case
    by (subst (asm) decimal.simps) (auto split: if_splits)
qed

lemma decimal_nonempty: "decimal n \<noteq> []"
  by (subst decimal.simps) simp

lemma length_decimal: "n < 10 ^ k \<Longrightarrow> 0 < k \<Longrightarrow> length (decimal n) \<le> k"
proof (induction n arbitrary: k rule: decimal.induct)
  case (1 n)
  show ?case
  proof (cases "n < 10")
    case True
    then show ?thesis using 1 by (subst decimal.simps) simp
  next
    case False
    then obtain j where k: "k = Suc j" "0 < j" using 1(2) by (cases k; cases "k - 1") auto
    then have "n div 10 < 10 ^ j" using 1(2) by (simp add: less_mult_imp_div_less mult.commute)
    from 1(1) [OF False this k(2)] show ?thesis using False k by (subst decimal.simps) simp
  qed
qed

section \<open>Properties\<close>

lemma RtlCopyString_result:
  assumes "str_at M src xs" and "length xs < 2 ^ 32" and "0 \<notin> span dest (Suc (length xs))"
    and "span dest (Suc (length xs)) \<inter> span src (Suc (length xs)) = {}"
  shows "returns (RtlCopyString dest src) M (\<lambda>r N. r = dest \<and> str_at N dest xs \<and> str_at N src xs
           \<and> (\<forall>a. a \<notin> span dest (Suc (length xs)) \<longrightarrow> N a = M a))"
proof (rule returns_mono [OF RtlCopyString_poke [OF assms(1,3,4)]])
  fix r N
  assume N: "r = dest \<and> N = poke M dest (xs @ [0])"
  have "0 \<notin> set xs" using assms(1) by (simp add: str_at_def)
  then have "str_at N dest xs" using N assms(2,3) by (simp add: str_at_poke)
  moreover have "str_at N src xs"
    using N assms(1,4) str_at_poke_other [of src xs dest "xs @ [0]" M] by (simp add: Int_commute)
  moreover have "N a = M a" if "a \<notin> span dest (Suc (length xs))" for a
    using N that by (simp add: poke_other)
  ultimately show "r = dest \<and> str_at N dest xs \<and> str_at N src xs
      \<and> (\<forall>a. a \<notin> span dest (Suc (length xs)) \<longrightarrow> N a = M a)" using N by blast
qed

text \<open>\<^verbatim>\<open>RtlCopyString\<close> copies a string, terminator included, to a disjoint range and
  returns that range's address; nothing else changes.\<close>

theorem RtlCopyString_correct:
  assumes "str_at M src xs" and "length xs < 2 ^ 32" and "0 \<notin> span dest (Suc (length xs))"
    and "span dest (Suc (length xs)) \<inter> span src (Suc (length xs)) = {}"
  shows "returns (RtlCopyString dest src) M (\<lambda>r N. r = dest \<and> str_at N dest xs \<and> str_at N src xs
           \<and> (\<forall>a. a \<notin> span dest (Suc (length xs)) \<longrightarrow> N a = M a))"
  by (rule RtlCopyString_result [OF assms])

definition demo_memory :: memory where
  "demo_memory = poke (poke (\<lambda>_. 0) 0x100 [37, 117, 0]) 0x120 [104, 105, 0]"

lemma demo_memory_bytes [simp]:
  "demo_memory 256 = 37" "demo_memory 257 = 117" "demo_memory 258 = 0"
  "demo_memory 288 = 104" "demo_memory 289 = 105" "demo_memory 290 = 0"
  by (simp_all add: demo_memory_def)

lemma demo_memory_strings: "str_at demo_memory 0x100 [37, 117]" "str_at demo_memory 0x120 [104, 105]"
  by simp_all

lemma span_numeral: "span a (numeral k) = insert a (span (a + 1) (pred_numeral k))"
  by (simp add: numeral_eq_Suc)

theorem RtlCopyString_correct_witness:
  "returns (RtlCopyString 0x200 0x120) demo_memory (\<lambda>r N. r = 0x200 \<and> str_at N 0x200 [104, 105]
     \<and> str_at N 0x120 [104, 105] \<and> (\<forall>a. a \<notin> span 0x200 (Suc (length [104, 105 :: byte])) \<longrightarrow> N a = demo_memory a))"
  by (rule RtlCopyString_correct) (simp_all add: demo_memory_strings)

text \<open>\<^verbatim>\<open>RtlCopyMemory\<close> copies \<open>count\<close> bytes to a disjoint range; nothing else changes.\<close>

theorem RtlCopyMemory_correct:
  assumes "0 \<notin> span dest (unat count)" and "0 \<notin> span src (unat count)"
    and "span dest (unat count) \<inter> span src (unat count) = {}"
  shows "returns (RtlCopyMemory dest src count) M (\<lambda>r N. r = dest
           \<and> (\<forall>i < unat count. N (dest + of_nat i) = M (src + of_nat i))
           \<and> (\<forall>a. a \<notin> span dest (unat count) \<longrightarrow> N a = M a))"
proof -
  let ?xs = "map (\<lambda>i. M (src + of_nat i)) [0 ..< unat count]"
  have b: "bytes_at M a (map (\<lambda>i. M (a + of_nat i)) [0 ..< n])" if "0 \<notin> span a n" for a n
    using that
  proof (induction n arbitrary: a)
    case (Suc n)
    have "map (\<lambda>i. M (a + of_nat i)) [0 ..< Suc n] = M a # map (\<lambda>i. M (a + 1 + of_nat i)) [0 ..< n]"
      by (subst upt_conv_Cons) (simp_all add: map_Suc_upt [symmetric] add_ac del: upt_Suc)
    then show ?case using Suc by (simp del: upt_Suc)
  qed simp
  have at: "bytes_at N a xs \<Longrightarrow> i < length xs \<Longrightarrow> N (a + of_nat i) = xs ! i" for N a xs i
    by (induction xs arbitrary: a i) (auto simp: nth_Cons add.assoc [symmetric] split: nat.split)
  have l: "length ?xs = unat count" by simp
  have l32: "unat count < 2 ^ 32" using unsigned_less [of count, where ?'a = nat] by simp
  show ?thesis
  proof (rule returns_mono [OF RtlCopyMemory_poke [OF b [OF assms(2)] l]])
    show "0 \<notin> span dest (length ?xs)" "span dest (length ?xs) \<inter> span src (length ?xs) = {}"
      using assms by simp_all
    fix r N
    assume N: "r = dest \<and> N = poke M dest ?xs"
    have "bytes_at N dest ?xs" using N assms(1) l32 by (simp add: bytes_at_poke)
    then show "r = dest \<and> (\<forall>i < unat count. N (dest + of_nat i) = M (src + of_nat i))
        \<and> (\<forall>a. a \<notin> span dest (unat count) \<longrightarrow> N a = M a)"
      using N at [of N dest ?xs] by (simp add: poke_other)
  qed
qed

theorem RtlCopyMemory_correct_witness:
  "returns (RtlCopyMemory 0x200 0x120 3) demo_memory (\<lambda>r N. r = 0x200
     \<and> (\<forall>i < unat (3 :: u32). N (0x200 + of_nat i) = demo_memory (0x120 + of_nat i))
     \<and> (\<forall>a. a \<notin> span 0x200 (unat (3 :: u32)) \<longrightarrow> N a = demo_memory a))"
  by (rule RtlCopyMemory_correct) (simp_all add: span_numeral)

text \<open>\<^verbatim>\<open>RtlCompareStrings\<close> returns 0, -1 or 1 and changes nothing.  The result is 0
  exactly when the second string is a prefix of the first one, which is more than equality.\<close>

theorem RtlCompareStrings_correct:
  assumes "str_at M src xs" and "str_at M dest ys"
  shows "returns (RtlCompareStrings src dest) M (\<lambda>r N. r = sgn (compare_bytes xs ys) \<and> N = M
           \<and> (r = 0 \<longleftrightarrow> (\<exists>zs. xs = ys @ zs)) \<and> (length xs = length ys \<longrightarrow> (r = 0 \<longleftrightarrow> xs = ys)))"
proof (rule returns_mono [OF RtlCompareStrings_sign [OF assms]])
  fix r N
  assume r: "r = sgn (compare_bytes xs ys) \<and> N = M"
  have "0 \<notin> set ys" using assms(2) by (simp add: str_at_def)
  then have "r = 0 \<longleftrightarrow> (\<exists>zs. xs = ys @ zs)" using r compare_bytes_0 [of ys xs] by (simp add: sgn_0_0)
  then show "r = sgn (compare_bytes xs ys) \<and> N = M \<and> (r = 0 \<longleftrightarrow> (\<exists>zs. xs = ys @ zs))
      \<and> (length xs = length ys \<longrightarrow> (r = 0 \<longleftrightarrow> xs = ys))" using r by auto
qed

theorem RtlCompareStrings_correct_witness:
  "returns (RtlCompareStrings 0x120 0x100) demo_memory (\<lambda>r N. r = sgn (compare_bytes [104, 105] [37, 117])
     \<and> N = demo_memory \<and> (r = 0 \<longleftrightarrow> (\<exists>zs. [104, 105] = [37, 117 :: byte] @ zs))
     \<and> (length [104, 105 :: byte] = length [37, 117 :: byte] \<longrightarrow> (r = 0 \<longleftrightarrow> [104, 105 :: byte] = [37, 117])))"
  by (rule RtlCompareStrings_correct [OF demo_memory_strings(2,1)])

text \<open>C32: with a buffer of at least one byte, \<^verbatim>\<open>RtlFormatString\<close> stores the text of the format
  cut to \<open>size - 1\<close> characters and its terminator, writes nothing outside the buffer, and
  returns the length of the uncut text.\<close>

theorem RtlFormatString_correct:
  assumes "str_at M format fs" and "format_ok S M (span str (unat sz)) args 0 fs"
    and "sz > 0" and "0 \<notin> span str (unat sz)"
    and "span format (Suc (length fs)) \<inter> span str (unat sz) = {}"
  shows "returns (RtlFormatString str sz format args) M (\<lambda>r N.
           r = of_nat (length (expand S args 0 fs))
           \<and> bytes_at N str (take (unat sz - 1) (expand S args 0 fs) @ [0])
           \<and> (\<forall>a. a \<notin> span str (unat sz) \<longrightarrow> N a = M a))"
proof -
  let ?xs = "take (unat sz - 1) (expand S args 0 fs) @ [0]"
  have "0 < unat sz" using assms(3) by (simp add: word_gt_0 unat_gt_0)
  then have l: "length ?xs \<le> unat sz" by simp
  have l32: "unat sz < 2 ^ 32" using unsigned_less [of sz, where ?'a = nat] by simp
  have sub: "span str (length ?xs) \<subseteq> span str (unat sz)" by (rule span_mono [OF l])
  have "bytes_at (poke M str ?xs) str ?xs"
    using l l32 sub assms(4) by (intro bytes_at_poke) auto
  moreover have "poke M str ?xs a = M a" if "a \<notin> span str (unat sz)" for a
    using that sub by (intro poke_other) blast
  ultimately show ?thesis
    by (intro returnsI [where m = "RtlFormatString str sz format args", OF RtlFormatString_expand [OF assms]])
       blast
qed

theorem RtlFormatString_correct_witness:
  "returns (RtlFormatString 0x200 4 0x100 (\<lambda>_. 31415)) demo_memory (\<lambda>r N.
     r = of_nat (length (expand (\<lambda>_. []) (\<lambda>_. 31415) 0 [37, 117]))
     \<and> bytes_at N 0x200 (take (unat (4 :: u32) - 1) (expand (\<lambda>_. []) (\<lambda>_. 31415) 0 [37, 117]) @ [0])
     \<and> (\<forall>a. a \<notin> span 0x200 (unat (4 :: u32)) \<longrightarrow> N a = demo_memory a))"
  by (rule RtlFormatString_correct)
     (simp_all add: demo_memory_strings span_numeral argument_ok_def)

text \<open>with a buffer size of 0 \<^verbatim>\<open>RtlFormatString\<close> still stores the terminator.\<close>

theorem RtlFormatString_size_0:
  assumes "str_at M format fs" and "format_ok S M {} args 0 fs" and "str \<noteq> 0"
  shows "returns (RtlFormatString str 0 format args) M (\<lambda>r N.
           r = of_nat (length (expand S args 0 fs)) \<and> N = M(str := 0))"
proof -
  have r: "room (str, 0) = {}" by (simp add: room_def)
  have "kloop (format_step args) (format, 0, 0, (str, 0)) M =
      Some (Return (of_nat (length (expand S args 0 fs)), (str, 0)) M)"
    using format_loop [OF assms(1,2), of "(str, 0)" 0] by (simp add: r advance_def put_def)
  then show ?thesis
    using assms(3) by (simp add: RtlFormatString_def returns_def run wr_def)
qed

theorem RtlFormatString_size_0_witness:
  "returns (RtlFormatString 0x200 0 0x100 (\<lambda>_. 7)) demo_memory (\<lambda>r N.
     r = of_nat (length (expand (\<lambda>_. []) (\<lambda>_. 7) 0 [37, 117])) \<and> N = demo_memory(0x200 := 0))"
  by (rule RtlFormatString_size_0) (simp_all add: demo_memory_strings argument_ok_def)

text \<open>C33: what \<^verbatim>\<open>RtlFormatString\<close> prints with \<^verbatim>\<open>%u\<close> into a buffer of 11 bytes,
  \<^verbatim>\<open>RtlAtoUL\<close> reads back, for every unsigned long.\<close>

theorem print_read_roundtrip:
  assumes "str_at M format [37, 117]" and "0 \<notin> span str 11" and "span format 3 \<inter> span str 11 = {}"
  shows "returns (kbind (RtlFormatString str 11 format (\<lambda>_. n)) (\<lambda>_. RtlAtoUL str)) M
    (\<lambda>v N. v = n \<and> (\<forall>a. a \<notin> span str 11 \<longrightarrow> N a = M a))"
proof -
  let ?ds = "decimal (unat n)"
  let ?N = "poke M str (?ds @ [0])"
  have e: "expand (\<lambda>_. []) (\<lambda>_. n) 0 [37, 117] = ?ds" by (simp add: conversion_def)
  have "unat n < 10 ^ 10" using unsigned_less [of n, where ?'a = nat] by simp
  then have l: "length ?ds \<le> 10" by (rule length_decimal) simp
  have u: "unat (11 :: u32) = 11" and three: "Suc (length [37, 117 :: byte]) = 3" by simp_all
  have ok: "format_ok (\<lambda>_. []) M (span str (unat (11 :: u32))) (\<lambda>_. n) 0 [37, 117]"
    by (simp add: argument_ok_def)
  have nn: "0 \<notin> span str (unat (11 :: u32))" using assms(2) by (simp only: u not_False_eq_True)
  have sep: "span format (Suc (length [37, 117 :: byte])) \<inter> span str (unat (11 :: u32)) = {}"
    using assms(3) by (simp only: u three)
  have "RtlFormatString str 11 format (\<lambda>_. n) M = Some (Return (of_nat (length ?ds)) ?N)"
    using RtlFormatString_expand [OF assms(1) ok _ nn sep, unfolded e] l by simp
  moreover have z: "0 \<notin> set ?ds" and h: "hd ?ds \<noteq> 32"
    using decimal_digits [of _ "unat n"] decimal_nonempty [of "unat n"] hd_in_set by blast+
  moreover have "span str (Suc (length ?ds)) \<subseteq> span str 11" using l by (intro span_mono) simp
  moreover from this assms(2) z l have "str_at ?N str ?ds" by (intro str_at_poke) auto
  moreover from this h have "returns (RtlAtoUL str) ?N (\<lambda>v N. v = foldl digit_value 0 ?ds \<and> N = ?N)"
    using RtlAtoUL_value [of ?N str 0 ?ds] by simp
  ultimately show ?thesis
    by (simp add: returns_kbind)
       (auto simp: returns_iff foldl_decimal intro!: poke_other)
qed

theorem print_read_roundtrip_witness:
  "returns (kbind (RtlFormatString 0x200 11 0x100 (\<lambda>_. 4294967295)) (\<lambda>_. RtlAtoUL 0x200)) demo_memory
    (\<lambda>v N. v = 4294967295 \<and> (\<forall>a. a \<notin> span 0x200 11 \<longrightarrow> N a = demo_memory a))"
  by (rule print_read_roundtrip) (simp_all add: demo_memory_strings span_numeral)

text \<open>\<^verbatim>\<open>RtlAtoUL\<close> skips leading spaces and then folds every character up to the
  terminator into its result, digit or not; on the decimal text of a number that is the
  number modulo \<open>2 ^ 32\<close>.\<close>

theorem RtlAtoUL_correct:
  assumes "str_at M a (replicate k 32 @ ds)" and "ds = [] \<or> hd ds \<noteq> 32"
  shows "returns (RtlAtoUL a) M (\<lambda>v N. v = foldl (\<lambda>r c. r * 10 + (scast c - 48)) 0 ds \<and> N = M
           \<and> (\<forall>n. ds = decimal n \<longrightarrow> v = of_nat n))"
proof (rule returns_mono [OF RtlAtoUL_value [OF assms]])
  fix v N
  have "foldl digit_value 0 ds = foldl (\<lambda>r c. r * 10 + (scast c - 48)) 0 ds"
    by (rule foldl_cong) (simp_all add: digit_value_def)
  moreover assume "v = foldl digit_value 0 ds \<and> N = M"
  ultimately show "v = foldl (\<lambda>r c. r * 10 + (scast c - 48)) 0 ds \<and> N = M
      \<and> (\<forall>n. ds = decimal n \<longrightarrow> v = of_nat n)"
    using foldl_decimal by auto
qed

theorem RtlAtoUL_correct_witness:
  "returns (RtlAtoUL 0x120) demo_memory (\<lambda>v N. v = foldl (\<lambda>r c. r * 10 + (scast c - 48)) 0 [104, 105 :: byte]
     \<and> N = demo_memory \<and> (\<forall>n. [104, 105] = decimal n \<longrightarrow> v = of_nat n))"
  by (rule RtlAtoUL_correct [where k = 0]) (simp_all add: demo_memory_strings)

text \<open>the least \<^verbatim>\<open>LONG\<close> overflows when \<^verbatim>\<open>_snprintlong\<close> negates it, and comes out as
  \<open>--214748364(\<close>.\<close>

theorem snprintlong_least:
  assumes "0 \<notin> span str (unat sz)"
  shows "returns (snprintlong (str, sz) (- (2 ^ 31))) M (\<lambda>(len, _) N. len = 12
           \<and> N = poke M str (take (unat sz) (map of_char ''--214748364('')))"
proof -
  let ?cu = "(str, sz)"
  have r: "0 \<notin> room ?cu" using assms by (simp add: room_def)
  let ?xs = "[45] @ signed_decimal (- 214748364)"
  note r1 = not_in_room_advance [OF r]
  have "emits M (kbind (snprintchar ?cu 45) (\<lambda>(l1, cu). kbind (snprintlong cu (- 214748364))
      (\<lambda>(l2, cu). kreturn (l1 + l2, cu)))) ?cu ?xs"
    by (rule emits_seq [OF emits_snprintchar [OF r] r1 emits_snprintlong]) simp_all
  then have "emits M (kbind (kbind (snprintchar ?cu 45) (\<lambda>(l1, cu). kbind (snprintlong cu (- 214748364))
      (\<lambda>(l2, cu). kreturn (l1 + l2, cu)))) (\<lambda>(l1, cu). kbind (snprintchar cu 40)
      (\<lambda>(l2, cu). kreturn (l1 + l2, cu)))) ?cu (?xs @ [40])"
    by (rule emits_seq [OF _ r1 emits_snprintchar])
  moreover have "snprintlong ?cu (- (2 ^ 31)) = kbind (kbind (snprintchar ?cu 45) (\<lambda>(l1, cu).
      kbind (snprintlong cu (- 214748364)) (\<lambda>(l2, cu). kreturn (l1 + l2, cu))))
      (\<lambda>(l1, cu). kbind (snprintchar cu 40) (\<lambda>(l2, cu). kreturn (l1 + l2, cu)))"
    by (subst snprintlong.simps)
       (simp add: neg32_def kbind_assoc case_prod_unfold kbind_return signed_divide_int_def
          signed_modulo_int_def)
  moreover have "?xs @ [40] = map of_char ''--214748364(''"
    by (simp add: signed_decimal_def decimal.simps)
  ultimately show ?thesis
    by (simp add: emits_def returns_def put_def)
qed

theorem snprintlong_least_witness:
  "returns (snprintlong (0x200, 20) (- (2 ^ 31))) demo_memory (\<lambda>(len, _) N. len = 12
     \<and> N = poke demo_memory 0x200 (take (unat (20 :: u32)) (map of_char ''--214748364('')))"
  by (rule snprintlong_least) (simp add: span_numeral)

end
