(* ===== verification/IoSpec.thy ===== *)
theory IoSpec
  imports Io RtlSpec Demo
begin

text \<open>
  The properties of input and output: the keyboard buffer is a queue of at most 15
  characters, and the queue of output strings sends every string completely and in order.
\<close>

section \<open>The keyboard buffer\<close>

definition fifo_ok :: "FIFO \<Rightarrow> bool" where
  "fifo_ok f \<longleftrightarrow> length (fifoBuffer f) = FIFO_SIZE \<and> unat (fifoLength f) < FIFO_SIZE
     \<and> (\<forall>i. unat (fifoLength f) \<le> i \<and> i < FIFO_SIZE \<longrightarrow> fifoBuffer f ! i = 0)"

definition fifo_chars :: "FIFO \<Rightarrow> byte list" where
  "fifo_chars f = take (unat (fifoLength f)) (fifoBuffer f)"

lemma unat_suc_small: "unat w < FIFO_SIZE \<Longrightarrow> unat (w + 1 :: u32) = Suc (unat w)"
  by (simp add: FIFO_SIZE_def unat_word_ariths(1))

lemma length_fifo_chars: "fifo_ok f \<Longrightarrow> length (fifo_chars f) = unat (fifoLength f)"
  by (simp add: fifo_ok_def fifo_chars_def)

lemma AddCharToBuffer_queue:
  assumes ok: "fifo_ok (fifo s)"
  shows "returns (AddCharToBuffer c) s (\<lambda>_ t. t = s\<lparr>fifo := fifo t\<rparr> \<and> fifo_ok (fifo t)
     \<and> fifo_chars (fifo t) = (if length (fifo_chars (fifo s)) < FIFO_SIZE - 1
          then fifo_chars (fifo s) @ [c] else fifo_chars (fifo s)))"
proof -
  let ?f = "fifo s" and ?n = "unat (fifoLength (fifo s))"
  have n: "?n < FIFO_SIZE" "length (fifoBuffer ?f) = FIFO_SIZE" using ok by (simp_all add: fifo_ok_def)
  note u = unat_suc_small [OF n(1)]
  show ?thesis
  proof (cases "Suc ?n < FIFO_SIZE")
    case True
    let ?g = "?f\<lparr>fifoBuffer := (fifoBuffer ?f)[?n := c], fifoLength := fifoLength ?f + 1\<rparr>"
    have "fifo_ok ?g"
      using ok True u by (auto simp: fifo_ok_def nth_list_update)
    moreover have "fifo_chars ?g = fifo_chars ?f @ [c]"
      using n u by (simp add: fifo_chars_def take_Suc_conv_app_nth)
    ultimately show ?thesis
      using True u n(1) length_fifo_chars [OF ok]
      by (simp add: AddCharToBuffer_def kern)
  next
    case False
    then show ?thesis
      using ok u length_fifo_chars [OF ok]
      by (simp add: AddCharToBuffer_def kern)
  qed
qed

text \<open>Round \<open>i\<close> of the shift: the first \<open>i\<close> cells hold what their right neighbours held.\<close>

definition shifted :: "byte list \<Rightarrow> nat \<Rightarrow> byte list" where
  "shifted b i = map (\<lambda>j. if j < i then b ! (j + 1) else b ! j) [0 ..< length b]"

lemma length_shifted [simp]: "length (shifted b i) = length b"
  by (simp add: shifted_def)

lemma shifted_0 [simp]: "shifted b 0 = b"
  by (simp add: shifted_def map_nth)

lemma shifted_Suc:
  "Suc i < length b \<Longrightarrow> (shifted b i)[i := shifted b i ! Suc i] = shifted b (Suc i)"
  by (rule nth_equalityI) (auto simp: shifted_def nth_list_update)

lemma shift_loop:
  assumes "fifo s = f\<lparr>fifoBuffer := shifted b (unat i)\<rparr>" and "length b = FIFO_SIZE"
    and "unat (fifoLength f) < FIFO_SIZE" and "i \<le> fifoLength f"
  shows "returns (kloop shift_step i) s
    (\<lambda>_ t. t = s\<lparr>fifo := f\<lparr>fifoBuffer := shifted b (unat (fifoLength f))\<rparr>\<rparr>)"
  using assms
proof (induction "unat (fifoLength f) - unat i" arbitrary: i s)
  case 0
  then have "i = fifoLength f" by (simp add: word_le_nat_alt word_unat_eq_iff)
  then show ?case
    using 0 by (subst returns_kloop) (simp add: shift_step_def kern)
next
  case (Suc k)
  then have lt: "unat i < unat (fifoLength f)" by linarith
  have i: "unat i < FIFO_SIZE" "i \<noteq> fifoLength f" "Suc (unat i) < FIFO_SIZE" using lt Suc.prems(3) by auto
  note u = unat_suc_small [OF i(1)]
  let ?t = "s\<lparr>fifo := f\<lparr>fifoBuffer := shifted b (unat (i + 1))\<rparr>\<rparr>"
  have "returns (kloop shift_step (i + 1)) ?t
      (\<lambda>_ t. t = ?t\<lparr>fifo := f\<lparr>fifoBuffer := shifted b (unat (fifoLength f))\<rparr>\<rparr>)"
    by (rule Suc.hyps(1)) (use Suc lt u in \<open>simp_all add: word_le_nat_alt\<close>)
  then show ?case
    using i u Suc.prems shifted_Suc [of "unat i" b]
    by (subst returns_kloop) (simp add: shift_step_def kern)
qed

lemma GetFirstCharFromBuffer_queue:
  assumes ok: "fifo_ok (fifo s)"
  shows "returns GetFirstCharFromBuffer s (\<lambda>c t. t = s\<lparr>fifo := fifo t\<rparr> \<and> fifo_ok (fifo t)
     \<and> fifo_chars (fifo t) = tl (fifo_chars (fifo s))
     \<and> c = (case fifo_chars (fifo s) of [] \<Rightarrow> 0 | x # _ \<Rightarrow> x))"
proof -
  let ?f = "fifo s" and ?n = "unat (fifoLength (fifo s))" and ?b = "fifoBuffer (fifo s)"
  have n: "?n < FIFO_SIZE" "length ?b = FIFO_SIZE" using ok by (simp_all add: fifo_ok_def)
  let ?g = "?f\<lparr>fifoBuffer := shifted ?b ?n\<rparr>"
  let ?h = "if fifoLength ?f > 0 then ?g\<lparr>fifoLength := fifoLength ?f - 1\<rparr> else ?g"
  have loop: "returns (kloop shift_step 0) s (\<lambda>_ t. t = s\<lparr>fifo := ?g\<rparr>)"
    by (rule shift_loop) (use n in \<open>simp_all add: shifted_0\<close>)
  have m: "unat (fifoLength ?f - 1) = ?n - 1" if "fifoLength ?f > 0"
    using that by (simp add: unat_minus_one word_gt_0)
  have p: "fifoLength ?f > 0 \<longleftrightarrow> 0 < ?n" by (simp add: word_gt_0 unat_gt_0)
  have z: "shifted ?b ?n ! i = 0" if "?n - 1 \<le> i" "i < FIFO_SIZE" for i
    using ok that n by (auto simp: shifted_def fifo_ok_def)
  have "fifo_ok ?h" using ok n z m p by (auto simp: fifo_ok_def)
  moreover have "fifo_chars ?h = tl (fifo_chars ?f)"
    using m p n by (intro nth_equalityI) (auto simp: fifo_chars_def shifted_def nth_tl)
  moreover have "?b ! 0 = (case fifo_chars ?f of [] \<Rightarrow> 0 | x # _ \<Rightarrow> x)"
  proof (cases "?n = 0")
    case True
    then show ?thesis using ok by (simp add: fifo_ok_def fifo_chars_def FIFO_SIZE_def)
  next
    case False
    then show ?thesis using n by (cases ?b) (auto simp: fifo_chars_def take_Cons' FIFO_SIZE_def)
  qed
  moreover have "returns GetFirstCharFromBuffer s (\<lambda>c t. t = s\<lparr>fifo := ?h\<rparr> \<and> c = ?b ! 0)"
    unfolding GetFirstCharFromBuffer_def kern
    by (rule returns_mono [OF loop]) auto
  ultimately show ?thesis by (auto elim!: returns_mono)
qed

section \<open>The output queue\<close>

lemma span_disjoint:
  "unat a + m \<le> unat b \<Longrightarrow> unat b + n \<le> 2 ^ 32 \<Longrightarrow> span a m \<inter> span b n = {}"
  using unat_in_span [where a = a and n = m] unat_in_span [where a = b and n = n] by fastforce

definition nextBuffer :: "kstate \<Rightarrow> addr \<Rightarrow> addr option" where
  "nextBuffer s a = map_option bnNext (bnodes s a)"

definition linkBuffer :: "addr \<Rightarrow> addr \<Rightarrow> kstate \<Rightarrow> kstate" where
  "linkBuffer a q s =
     s\<lparr>bnodes := (bnodes s)(a := map_option (\<lambda>n. n\<lparr>bnNext := q\<rparr>) (bnodes s a))\<rparr>"

interpretation buffer: linked_store nextBuffer linkBuffer
  by unfold_locales (auto simp: nextBuffer_def linkBuffer_def)

text \<open>The nodes that wait behind the first one, each with its whole string.\<close>

definition node_at :: "memory \<Rightarrow> addr \<Rightarrow> addr \<Rightarrow> addr \<Rightarrow> byte list \<Rightarrow> bool" where
  "node_at M lim n p xs \<longleftrightarrow> (\<exists>k. p = n + of_nat k \<and> k + length xs < 512)
     \<and> unat n + 524 \<le> unat lim \<and> str_at M p xs"

definition waiting :: "memory \<Rightarrow> addr \<Rightarrow> addr list \<Rightarrow> byte list list \<Rightarrow> bool" where
  "waiting M lim ns strs \<longleftrightarrow> list_all2 (\<lambda>n xs. node_at M lim n n xs) ns strs"

text \<open>
  \<open>tx_inv s ns strs\<close>: the nodes \<open>ns\<close> are queued, and \<open>strs\<close> are the characters that are
  still to be sent, one list for each node.
\<close>

definition tx_inv :: "kstate \<Rightarrow> addr list \<Rightarrow> byte list list \<Rightarrow> bool" where
  "tx_inv s ns strs \<longleftrightarrow> (\<exists>q. bufferQueue s = Some q \<and> chain (nextBuffer s) (bqFirst q) ns
     \<and> (ns \<noteq> [] \<longrightarrow> bqLast q = last ns) \<and> (ns = [] \<longrightarrow> bqLast q = 0))
   \<and> (case ns of
        [] \<Rightarrow> strs = [] \<and> outputPointer s = 0
      | n # ns' \<Rightarrow> \<exists>xs strs'. strs = xs # strs' \<and> node_at (mem s) (freeMemPointer s) n (outputPointer s) xs
          \<and> waiting (mem s) (freeMemPointer s) ns' strs')"

lemma node_at_span: "node_at M lim n p xs \<Longrightarrow> span p (Suc (length xs)) \<subseteq> span n 512"
  unfolding node_at_def by (elim conjE exE, simp only:) (rule span_shift, simp)

lemma node_at_poke:
  assumes "node_at M lim n p xs" and "unat lim + length ys \<le> 2 ^ 32" and "lim \<le> lim'"
  shows "node_at (poke M lim ys) lim' n p xs"
proof -
  have "span n 512 \<inter> span lim (length ys) = {}"
    using assms by (intro span_disjoint) (simp_all add: node_at_def)
  then have "span p (Suc (length xs)) \<inter> span lim (length ys) = {}"
    using node_at_span [OF assms(1)] by blast
  then show ?thesis
    using assms by (simp add: node_at_def str_at_poke_other word_le_nat_alt)
qed

lemma waiting_poke:
  "waiting M lim ns strs \<Longrightarrow> unat lim + length ys \<le> 2 ^ 32 \<Longrightarrow> lim \<le> lim' \<Longrightarrow>
     waiting (poke M lim ys) lim' ns strs"
  unfolding waiting_def by (erule list_all2_mono) (rule node_at_poke)

lemma output_ne0: "node_at M lim n p xs \<Longrightarrow> p \<noteq> 0"
  by (cases xs) (auto simp: node_at_def)

text \<open>One character, or the end of one string.\<close>

lemma next_char:
  assumes "tx_inv s (n # ns) ((c # xs) # strs)"
  shows "returns IoTransmitterInterruptHandler s (\<lambda>_ t. tx_inv t (n # ns) (xs # strs)
     \<and> t = s\<lparr>outputPointer := outputPointer s + 1, serialOut := serialOut s @ [c]\<rparr>)"
proof -
  let ?p = "outputPointer s"
  have n: "node_at (mem s) (freeMemPointer s) n ?p (c # xs)" using assms by (simp add: tx_inv_def)
  then obtain k where k: "?p = n + of_nat k" "k + length (c # xs) < 512" by (auto simp: node_at_def)
  have "\<exists>k. ?p + 1 = n + of_nat k \<and> k + length xs < 512"
    using k by (intro exI [of _ "Suc k"]) simp
  then have n': "node_at (mem s) (freeMemPointer s) n (?p + 1) xs" using n by (simp add: node_at_def)
  let ?t = "s\<lparr>outputPointer := ?p + 1, serialOut := serialOut s @ [c]\<rparr>"
  have "nextBuffer ?t = nextBuffer s" by (simp add: nextBuffer_def fun_eq_iff)
  then have "tx_inv ?t (n # ns) (xs # strs)" using assms n' by (simp add: tx_inv_def)
  moreover have "?p \<noteq> 0" "mem s ?p = c" "c \<noteq> 0" using n by (simp_all add: node_at_def)
  ultimately show ?thesis
    by (simp add: IoTransmitterInterruptHandler_def HalDisplayChar_def tty_send_def kern)
qed

lemma next_string:
  assumes "tx_inv s (n # ns) ([] # strs)"
  shows "returns IoTransmitterInterruptHandler s (\<lambda>_ t. tx_inv t ns strs
     \<and> t = s\<lparr>outputPointer := outputPointer t, bufferQueue := bufferQueue t\<rparr>)"
proof -
  let ?p = "outputPointer s"
  obtain q where q: "bufferQueue s = Some q" "chain (nextBuffer s) (bqFirst q) (n # ns)"
      "bqLast q = last (n # ns)"
    and w: "node_at (mem s) (freeMemPointer s) n ?p []" "waiting (mem s) (freeMemPointer s) ns strs"
    using assms by (auto simp: tx_inv_def)
  have p: "?p \<noteq> 0" "mem s ?p = 0" using w(1) by (simp_all add: node_at_def)
  obtain b where b: "bqFirst q = n" "n \<noteq> 0" "bnodes s n = Some b" "chain (nextBuffer s) (bnNext b) ns"
    using q(2) by (auto simp: nextBuffer_def)
  have "distinct (n # ns)" using q(2) by (rule chain_distinct)
  then have one: "bqFirst q = bqLast q \<longleftrightarrow> ns = []" using b(1) q(3) by (cases ns rule: rev_cases) auto
  show ?thesis
  proof (cases ns)
    case Nil
    then have "strs = []" using w(2) by (simp add: waiting_def)
    moreover have "nextBuffer (s\<lparr>outputPointer := 0, bufferQueue := Some \<lparr>bqFirst = 0, bqLast = 0\<rparr>\<rparr>)
        = nextBuffer s" by (simp add: nextBuffer_def fun_eq_iff)
    ultimately show ?thesis
      using p q(1) b(1,2) one Nil
      by (simp add: IoTransmitterInterruptHandler_def next_buffer_def getBQ_def setBQ_def kern
          MmFree_def tx_inv_def)
  next
    case (Cons m ms)
    have m: "bnNext b = m" using b(4) Cons by simp
    let ?t = "s\<lparr>bufferQueue := Some (q\<lparr>bqFirst := m\<rparr>), outputPointer := m\<rparr>"
    have "nextBuffer ?t = nextBuffer s" by (simp add: nextBuffer_def fun_eq_iff)
    moreover obtain xs strs' where "strs = xs # strs'" "node_at (mem s) (freeMemPointer s) m m xs"
        "waiting (mem s) (freeMemPointer s) ms strs'"
      using w(2) Cons by (auto simp: waiting_def list_all2_Cons1)
    ultimately have "tx_inv ?t ns strs" using b(4) m q(3) Cons by (simp add: tx_inv_def)
    then show ?thesis
      using p q(1) b(1,2,3) one Cons m
      by (simp add: IoTransmitterInterruptHandler_def next_buffer_def getBQ_def setBQ_def kern
          MmFree_def)
  qed
qed

text \<open>Appending a string.\<close>

lemma waiting_append:
  "waiting M lim ns strs \<Longrightarrow> node_at M lim n n xs \<Longrightarrow> waiting M lim (ns @ [n]) (strs @ [xs])"
  by (simp add: waiting_def list_all2_appendI)

lemma tx_inv_Cons:
  "bufferQueue t = Some q \<Longrightarrow> chain (nextBuffer t) (bqFirst q) (m # ms) \<Longrightarrow> bqLast q = last (m # ms) \<Longrightarrow>
     node_at (mem t) (freeMemPointer t) m (outputPointer t) xs \<Longrightarrow>
     waiting (mem t) (freeMemPointer t) ms strs \<Longrightarrow> tx_inv t (m # ms) (xs # strs)"
  by (simp add: tx_inv_def)

lemma enqueue_buffer_tx:
  assumes q: "bufferQueue s = Some q" "chain (nextBuffer s) (bqFirst q) ns"
      "ns \<noteq> [] \<longrightarrow> bqLast q = last ns" "ns = [] \<longrightarrow> bqLast q = 0"
    and w: "case ns of [] \<Rightarrow> strs = [] \<and> outputPointer s = 0
      | n # ns' \<Rightarrow> \<exists>xs strs'. strs = xs # strs' \<and> node_at (mem s) (freeMemPointer s) n (outputPointer s) xs
          \<and> waiting (mem s) (freeMemPointer s) ns' strs'"
    and new: "bnodes s n = Some b" "bnNext b = 0" "n \<noteq> 0" "n \<notin> set ns"
      "node_at (mem s) (freeMemPointer s) n n xs"
  shows "returns (enqueue_buffer n) s (\<lambda>_ t. tx_inv t (ns @ [n]) (strs @ [xs])
     \<and> t = s\<lparr>bnodes := bnodes t, bufferQueue := bufferQueue t, outputPointer := outputPointer t\<rparr>)"
proof (cases ns)
  case Nil
  let ?t = "s\<lparr>bufferQueue := Some (q\<lparr>bqFirst := n, bqLast := n\<rparr>), outputPointer := n\<rparr>"
  have "nextBuffer ?t = nextBuffer s" by (simp add: nextBuffer_def fun_eq_iff)
  then have "tx_inv ?t [n] [xs]"
    using new by (simp add: tx_inv_def nextBuffer_def waiting_def)
  moreover have "bqFirst q = 0" "strs = []" using q(2) w Nil by simp_all
  ultimately show ?thesis
    using q(1) Nil by (simp add: enqueue_buffer_def getBQ_def setBQ_def kern)
next
  case (Cons m ms)
  then have ne: "bqFirst q \<noteq> 0" "ns \<noteq> []" using q(2) by auto
  have lastm: "last ns \<in> set ns" using ne by simp
  then obtain l where l: "bnodes s (last ns) = Some l" "last ns \<noteq> 0"
    using seg_in_dom [OF q(2) lastm] seg_nonnull [OF q(2) lastm] by (auto simp: nextBuffer_def)
  let ?s = "linkBuffer (last ns) n s"
  have ls: "?s = s\<lparr>bnodes := (bnodes s)(last ns \<mapsto> l\<lparr>bnNext := n\<rparr>)\<rparr>"
    using l by (simp add: linkBuffer_def)
  have c: "chain (nextBuffer ?s) (bqFirst q) (ns @ [n])"
    using q(2) ne(2) new by (intro buffer.link_append) (simp_all add: nextBuffer_def)
  let ?t = "?s\<lparr>bufferQueue := Some (q\<lparr>bqLast := n\<rparr>)\<rparr>"
  have nb: "nextBuffer ?t = nextBuffer ?s" by (simp add: nextBuffer_def fun_eq_iff)
  have e: "mem ?t = mem s" "freeMemPointer ?t = freeMemPointer s" "outputPointer ?t = outputPointer s"
    by (simp_all add: ls)
  obtain ys strs' where strs: "strs = ys # strs'"
      "node_at (mem s) (freeMemPointer s) m (outputPointer s) ys" "waiting (mem s) (freeMemPointer s) ms strs'"
    using w Cons by auto
  have "tx_inv ?t (m # (ms @ [n])) (ys # (strs' @ [xs]))"
  proof (rule tx_inv_Cons [where q = "q\<lparr>bqLast := n\<rparr>"])
    have m: "m # (ms @ [n]) = ns @ [n]" using Cons by simp
    show "chain (nextBuffer ?t) (bqFirst (q\<lparr>bqLast := n\<rparr>)) (m # (ms @ [n]))"
      unfolding nb m using c by simp
  qed (use strs(2) waiting_append [OF strs(3) new(5)] in \<open>simp_all only: e\<close>, simp_all)
  then have "tx_inv ?t (ns @ [n]) (strs @ [xs])" using Cons strs(1) by simp
  then show ?thesis
    using q(1,3) ne l by (simp add: enqueue_buffer_def getBQ_def setBQ_def kern ls)
qed

text \<open>
  The buffer a node takes from the bump allocator lies above every queued one, and writing the
  text into it keeps the queued texts.
\<close>

lemma tx_queue_below:
  assumes inv: "tx_inv s ns strs" and m: "m \<in> set ns"
  shows "unat m + 524 \<le> unat (freeMemPointer s)"
proof -
  have "\<forall>m \<in> set ns'. unat m + 524 \<le> unat n" if "waiting (mem s) n ns' strs'" for n ns' strs'
    using that by (auto simp: waiting_def node_at_def list_all2_conv_all_nth in_set_conv_nth)
  then show ?thesis using inv m by (auto simp: tx_inv_def node_at_def split: list.splits)
qed

lemma tx_queue_poke:
  assumes "tx_inv s ns strs" and "unat (freeMemPointer s) + 524 \<le> unat lim"
    and "unat (freeMemPointer s) + 527 < 2 ^ 32" and "length xs < 512"
  shows "case ns of [] \<Rightarrow> strs = [] \<and> outputPointer s = 0
      | n # ns' \<Rightarrow> \<exists>ys strs'. strs = ys # strs'
          \<and> node_at (poke (mem s) (freeMemPointer s) (xs @ [0])) lim n (outputPointer s) ys
          \<and> waiting (poke (mem s) (freeMemPointer s) (xs @ [0])) lim ns' strs'"
  using assms
  by (auto simp: tx_inv_def word_le_nat_alt split: list.splits intro!: node_at_poke waiting_poke)

lemma new_node_at:
  assumes src: "str_at M buffer xs" "length xs < 512" and nz: "0 \<notin> span n 512" and lim: "unat n + 524 \<le> unat lim"
  shows "node_at (poke M n (xs @ [0])) lim n n xs"
proof -
  have "span n (Suc (length xs)) \<subseteq> span n 512" using src(2) by (intro span_mono) simp
  then have "0 \<notin> span n (Suc (length xs))" using nz by blast
  then have "str_at (poke M n (xs @ [0])) n xs"
    using src by (intro str_at_poke) (simp_all add: str_at_def)
  then show ?thesis unfolding node_at_def using src(2) lim by (auto intro!: exI [of _ 0])
qed

lemma IoWriteSerial_tx:
  assumes inv: "tx_inv s ns strs" and src: "str_at (mem s) buffer xs" "length xs < 512"
    and room: "mm_room s 524" "freeMemPointer s \<noteq> 0"
    and sep: "span (freeMemPointer s) 512 \<inter> span buffer 512 = {}"
  shows "returns (IoWriteSerial buffer k) s (\<lambda>_ t. \<exists>n. tx_inv t (ns @ [n]) (strs @ [xs])
     \<and> serialOut t = serialOut s \<and> unat (freeMemPointer s) + 524 \<le> unat (freeMemPointer t)
     \<and> (\<forall>a. a \<notin> span (freeMemPointer s) 512 \<longrightarrow> mem t a = mem s a))"
proof -
  let ?n = "freeMemPointer s" and ?lim = "ALIGN_MEMORY (freeMemPointer s + 524)"
  let ?M = "poke (mem s) ?n (xs @ [0])"
  have lim: "unat ?n + 524 \<le> unat ?lim" using MmAlloc_room [OF room(1)] by simp
  have r: "unat ?n + 527 < 2 ^ 32" using room(1) by (simp add: mm_room_def)
  have sub: "span a (Suc (length xs)) \<subseteq> span a 512" for a using src(2) by (intro span_mono) simp
  have nz: "0 \<notin> span ?n 512"
    using unat_in_span [where a = ?n and n = 512 and x = 0] r room(2) by (auto simp: unat_eq_zero)
  note new = new_node_at [OF src nz lim] and old = tx_queue_poke [OF inv lim r src(2)]
  obtain q where q: "bufferQueue s = Some q" "chain (nextBuffer s) (bqFirst q) ns"
      "ns \<noteq> [] \<longrightarrow> bqLast q = last ns" "ns = [] \<longrightarrow> bqLast q = 0"
    using inv by (auto simp: tx_inv_def)
  have fresh: "?n \<notin> set ns" using tx_queue_below [OF inv, of ?n] by auto
  let ?b = "\<lambda>M. \<lparr>bnBufferSize = k, bnSizeCounter = raw_u32 (s\<lparr>freeMemPointer := ?lim, mem := M\<rparr>) (?n + 516), bnNext = 0\<rparr>"
  let ?t = "s\<lparr>freeMemPointer := ?lim, mem := ?M, bnodes := (bnodes s)(?n \<mapsto> ?b ?M)\<rparr>"
  have "nextBuffer ?t = (nextBuffer s)(?n \<mapsto> 0)" by (auto simp: nextBuffer_def)
  then have c: "chain (nextBuffer ?t) (bqFirst q) ns" using q(2) fresh by (simp add: seg_upd_other)
  have e: "mem ?t = ?M" "freeMemPointer ?t = ?lim" "outputPointer ?t = outputPointer s" by simp_all
  have enq: "returns (enqueue_buffer ?n) ?t (\<lambda>_ u. tx_inv u (ns @ [?n]) (strs @ [xs])
     \<and> u = ?t\<lparr>bnodes := bnodes u, bufferQueue := bufferQueue u, outputPointer := outputPointer u\<rparr>)"
  proof (rule enqueue_buffer_tx [OF _ c q(3,4), where b = "?b ?M"])
    show "case ns of [] \<Rightarrow> strs = [] \<and> outputPointer ?t = 0
      | n # ns' \<Rightarrow> \<exists>xs strs'. strs = xs # strs' \<and> node_at (mem ?t) (freeMemPointer ?t) n (outputPointer ?t) xs
          \<and> waiting (mem ?t) (freeMemPointer ?t) ns' strs'"
      using old by (simp only: e)
    show "node_at (mem ?t) (freeMemPointer ?t) ?n ?n xs" using new by (simp only: e)
  qed (use q(1) room(2) fresh in simp_all)
  have cp: "returns (RtlCopyString ?n buffer) (mem s) (\<lambda>r N. r = ?n \<and> N = ?M)"
    using sep nz sub [of ?n] sub [of buffer] by (intro RtlCopyString_poke [OF src(1)]) auto
  have fin: "\<exists>n. tx_inv u (ns @ [n]) (strs @ [xs]) \<and> serialOut u = serialOut s
      \<and> unat ?n + 524 \<le> unat (freeMemPointer u) \<and> (\<forall>a. a \<notin> span ?n 512 \<longrightarrow> mem u a = mem s a)"
    if u: "tx_inv u (ns @ [?n]) (strs @ [xs])"
      "u = ?t\<lparr>bnodes := bnodes u, bufferQueue := bufferQueue u, outputPointer := outputPointer u\<rparr>" for u
  proof -
    have e: "serialOut u = serialOut s" "freeMemPointer u = ?lim" "mem u = ?M"
      by (subst u(2), simp)+
    have "?M a = mem s a" if "a \<notin> span ?n 512" for a
      using that sub [of ?n] by (intro poke_other) auto
    then show ?thesis using u(1) e lim by auto
  qed
  have "returns (enqueue_buffer ?n) ?t (\<lambda>_ u. \<exists>n. tx_inv u (ns @ [n]) (strs @ [xs])
      \<and> serialOut u = serialOut s \<and> unat ?n + 524 \<le> unat (freeMemPointer u)
      \<and> (\<forall>a. a \<notin> span ?n 512 \<longrightarrow> mem u a = mem s a))"
    by (rule returns_mono [OF enq], elim conjE, rule fin)
  then show ?thesis
    unfolding IoWriteSerial_def kern
    by (simp add: kern) (rule returns_mono [OF cp], use room(2) in \<open>simp add: kern raw_u32_def\<close>)
qed

text \<open>Enough interrupts send everything.\<close>

definition rounds :: "byte list list \<Rightarrow> nat" where
  "rounds strs = (\<Sum>xs\<leftarrow>strs. length xs + 1)"

lemma rounds_simps [simp]: "rounds [] = 0" "rounds (xs # strs) = Suc (length xs + rounds strs)"
  by (simp_all add: rounds_def)

lemma tx_inv_cases:
  assumes "tx_inv s ns strs" and "rounds strs = Suc k"
  obtains n ns' xs strs' where "ns = n # ns'" "strs = xs # strs'"
  using assms by (cases ns) (auto simp: tx_inv_def)

lemma transmit_rounds:
  assumes "tx_inv s ns strs" and "length js = rounds strs"
  shows "returns (kfor js (\<lambda>_. IoTransmitterInterruptHandler)) s
    (\<lambda>_ t. tx_inv t [] [] \<and> serialOut t = serialOut s @ concat strs)"
  using assms
proof (induction js arbitrary: s ns strs)
  case Nil
  then have "strs = []" by (cases strs) auto
  moreover from this Nil have "ns = []" by (cases ns) (auto simp: tx_inv_def)
  ultimately show ?case using Nil by (simp add: kern)
next
  case (Cons j js)
  then obtain n ns' xs strs' where ns: "ns = n # ns'" and strs: "strs = xs # strs'"
    by (metis length_Cons tx_inv_cases)
  show ?case
  proof (cases xs)
    case Nil
    have IH: "returns (kfor js (\<lambda>_. IoTransmitterInterruptHandler)) t
        (\<lambda>_ u. tx_inv u [] [] \<and> serialOut u = serialOut s @ concat strs)"
      if "tx_inv t ns' strs' \<and> t = s\<lparr>outputPointer := outputPointer t, bufferQueue := bufferQueue t\<rparr>" for t
    proof -
      have "serialOut t = serialOut s" by (subst conjunct2 [OF that]) simp
      then show ?thesis using Cons.IH [OF conjunct1 [OF that]] Cons.prems(2) strs Nil by simp
    qed
    have "tx_inv s (n # ns') ([] # strs')" using Cons.prems(1) ns strs Nil by simp
    then show ?thesis
      unfolding returns_kfor_Cons by (rule returns_mono [OF next_string IH])
  next
    case (Cons c cs)
    have IH: "returns (kfor js (\<lambda>_. IoTransmitterInterruptHandler)) t
        (\<lambda>_ u. tx_inv u [] [] \<and> serialOut u = serialOut s @ concat strs)"
      if "tx_inv t (n # ns') (cs # strs')
        \<and> t = s\<lparr>outputPointer := outputPointer s + 1, serialOut := serialOut s @ [c]\<rparr>" for t
      using Cons.IH [OF conjunct1 [OF that]] Cons.prems(2) strs Cons that by simp
    have "tx_inv s (n # ns') ((c # cs) # strs')" using Cons.prems(1) ns strs Cons by simp
    then show ?thesis
      unfolding returns_kfor_Cons by (rule returns_mono [OF next_char IH])
  qed
qed

section \<open>Properties\<close>

text \<open>A received character is appended to the keyboard buffer while it holds fewer than 15;
  after that it is dropped, and nothing else changes.\<close>

theorem AddCharToBuffer_refines:
  assumes "fifo_ok (fifo s)"
  shows "returns (AddCharToBuffer c) s (\<lambda>_ t. t = s\<lparr>fifo := fifo t\<rparr> \<and> fifo_ok (fifo t)
     \<and> fifo_chars (fifo t) = (if length (fifo_chars (fifo s)) < FIFO_SIZE - 1
          then fifo_chars (fifo s) @ [c] else fifo_chars (fifo s)))"
  by (rule AddCharToBuffer_queue [OF assms])

lemma boot_fifo_ok: "fifo_ok (fifo boot_state)"
  by (simp add: fifo_ok_def boot_state_def FIFO_SIZE_def)

lemma boot_fifo_chars: "fifo_chars (fifo boot_state) = []"
  by (simp add: fifo_chars_def boot_state_def)

theorem AddCharToBuffer_refines_witness:
  "returns (AddCharToBuffer 65) boot_state (\<lambda>_ t. fifo_chars (fifo t) = [65])"
  by (rule returns_mono [OF AddCharToBuffer_refines [OF boot_fifo_ok]])
     (simp add: boot_fifo_chars FIFO_SIZE_def)

text \<open>reading takes the oldest character out of the keyboard buffer, or gives 0 when it is
  empty; the loop that shifts the buffer stays inside it.\<close>

theorem GetFirstCharFromBuffer_refines:
  assumes "fifo_ok (fifo s)"
  shows "returns GetFirstCharFromBuffer s (\<lambda>c t. t = s\<lparr>fifo := fifo t\<rparr> \<and> fifo_ok (fifo t)
     \<and> fifo_chars (fifo t) = tl (fifo_chars (fifo s))
     \<and> c = (case fifo_chars (fifo s) of [] \<Rightarrow> 0 | x # _ \<Rightarrow> x))"
  by (rule GetFirstCharFromBuffer_queue [OF assms])

theorem GetFirstCharFromBuffer_refines_witness:
  "returns GetFirstCharFromBuffer boot_state (\<lambda>c t. c = 0 \<and> fifo_chars (fifo t) = [])"
  by (rule returns_mono [OF GetFirstCharFromBuffer_refines [OF boot_fifo_ok]])
     (simp add: boot_fifo_chars)

text \<open>C31: writing a string of less than 512 characters to the serial line puts all of it
  behind the strings that wait for transmission, and sends nothing itself.\<close>

theorem IoWriteSerial_refines:
  assumes "tx_inv s ns strs" and "str_at (mem s) buffer xs" and "length xs < 512"
    and "mm_room s 524" and "freeMemPointer s \<noteq> 0"
    and "span (freeMemPointer s) 512 \<inter> span buffer 512 = {}"
  shows "returns (IoWriteSerial buffer k) s (\<lambda>_ t. \<exists>n. tx_inv t (ns @ [n]) (strs @ [xs])
     \<and> serialOut t = serialOut s \<and> unat (freeMemPointer s) + 524 \<le> unat (freeMemPointer t)
     \<and> (\<forall>a. a \<notin> span (freeMemPointer s) 512 \<longrightarrow> mem t a = mem s a))"
  by (rule IoWriteSerial_tx [OF assms])

definition io_demo :: kstate where
  "io_demo = boot_state\<lparr>freeMemPointer := 0x9000, mem := demo_memory,
     bufferQueue := Some \<lparr>bqFirst = 0, bqLast = 0\<rparr>\<rparr>"

lemma io_demo_tx: "tx_inv io_demo [] []"
  by (simp add: tx_inv_def io_demo_def boot_state_def)

theorem IoWriteSerial_refines_witness:
  "returns (IoWriteSerial 0x120 3) io_demo (\<lambda>_ t. \<exists>n. tx_inv t [n] [[104, 105]])"
proof -
  have "span 0x120 512 \<inter> span (0x9000 :: addr) 512 = {}" by (rule span_disjoint) simp_all
  then have d: "span (freeMemPointer io_demo) 512 \<inter> span 0x120 512 = {}"
    by (simp add: io_demo_def Int_commute)
  have "returns (IoWriteSerial 0x120 3) io_demo (\<lambda>_ t. \<exists>n. tx_inv t ([] @ [n]) ([] @ [[104, 105]])
     \<and> serialOut t = serialOut io_demo \<and> unat (freeMemPointer io_demo) + 524 \<le> unat (freeMemPointer t)
     \<and> (\<forall>a. a \<notin> span (freeMemPointer io_demo) 512 \<longrightarrow> mem t a = mem io_demo a))"
    by (rule IoWriteSerial_refines [OF io_demo_tx _ _ _ _ d])
       (simp_all add: io_demo_def mm_room_def)
  then show ?thesis by (rule returns_mono) auto
qed

text \<open>C30: after one transmitter interrupt for each waiting character and one for the end of
  each string, every string has been sent, completely and in order, and the queue is empty.\<close>

theorem transmit_all:
  assumes "tx_inv s ns strs"
  shows "returns (kfor [0 ..< (\<Sum>xs\<leftarrow>strs. length xs + 1)] (\<lambda>_. IoTransmitterInterruptHandler)) s
    (\<lambda>_ t. tx_inv t [] [] \<and> serialOut t = serialOut s @ concat strs)"
  by (rule transmit_rounds [OF assms]) (simp add: rounds_def)

definition tx_demo :: kstate where
  "tx_demo = boot_state\<lparr>freeMemPointer := 0x9000, mem := demo_memory(0x100 := 33, 0x101 := 0),
     bufferQueue := Some \<lparr>bqFirst = 0x120, bqLast = 0x500\<rparr>, outputPointer := 0x120,
     bnodes := [0x120 \<mapsto> \<lparr>bnBufferSize = 3, bnSizeCounter = 0, bnNext = 0x500\<rparr>,
       0x500 \<mapsto> \<lparr>bnBufferSize = 1, bnSizeCounter = 0, bnNext = 0\<rparr>]\<rparr>"

lemma tx_demo_inv: "tx_inv tx_demo [0x120, 0x500] [[104, 105], []]"
proof -
  have "demo_memory 0x500 = 0" by (simp add: demo_memory_def)
  then show ?thesis
    by (simp add: tx_inv_def tx_demo_def boot_state_def waiting_def node_at_def nextBuffer_def exI [of _ 0])
qed

theorem transmit_all_witness:
  "returns (kfor [0 ..< 4] (\<lambda>_. IoTransmitterInterruptHandler)) tx_demo (\<lambda>_ t. serialOut t = [104, 105])"
  using transmit_all [OF tx_demo_inv]
  by (simp add: upt_rec) (erule returns_mono, simp add: tx_demo_def boot_state_def)

end
