(* ===== verification/ProcList.thy ===== *)
theory ProcList
  imports PsLookup ObOps
begin

text \<open>
  The list of all process objects, and the searches of \<^verbatim>\<open>ps.c\<close> along it.  \<open>proc_list s xs\<close>
  says that the object manager's list of objects of type \<^verbatim>\<open>processType\<close> consists of the
  headers \<open>xs\<close>, each followed by a PCB.  The locale \<open>process_search\<close> is the loop that three
  functions share: it stops at the first process with the PID it looks for.
\<close>

section \<open>The list of processes\<close>

definition proc_list :: "kstate \<Rightarrow> addr list \<Rightarrow> bool" where
  "proc_list s xs \<longleftrightarrow> processType s \<noteq> 0 \<and> OBJECT_BODY_TO_HEADER (processType s) \<noteq> 0
     \<and> (\<exists>h t. headers s (OBJECT_BODY_TO_HEADER (processType s)) = Some h \<and> Magic h = OBJECT_MAGIC
          \<and> otypes s (processType s) = Some t \<and> chain (nextObject s) (FirstObjectOfType t) xs)
     \<and> (\<forall>x \<in> set xs. object_ok s (processType s) x \<and> x + BODY_OFFSET \<noteq> 0
          \<and> (\<exists>p. procs s (x + BODY_OFFSET) = Some p))"

definition body_of :: "addr \<Rightarrow> addr" where
  "body_of x = (if x = 0 then 0 else x + BODY_OFFSET)"

definition pid_of :: "kstate \<Rightarrow> addr \<Rightarrow> u32" where
  "pid_of s x = (case procs s (x + BODY_OFFSET) of None \<Rightarrow> 0 | Some p \<Rightarrow> PID p)"

text \<open>The first process with a PID.\<close>

definition process_with :: "kstate \<Rightarrow> addr list \<Rightarrow> u32 \<Rightarrow> addr option" where
  "process_with s xs pid = find (\<lambda>x. pid_of s x = pid) xs"

lemma process_with_Some:
  assumes "process_with s xs pid = Some x"
  shows "x \<in> set xs" and "pid_of s x = pid"
  using assms by (auto simp: process_with_def find_Some_iff)

lemma process_with_None: "process_with s xs pid = None \<longleftrightarrow> pid \<notin> pid_of s ` set xs"
  by (auto simp: process_with_def find_None_iff)

lemma proc_listD:
  assumes "proc_list s xs" and "x \<in> set xs"
  obtains h p where "x \<noteq> 0" "x + BODY_OFFSET \<noteq> 0" "headers s x = Some h" "Magic h = OBJECT_MAGIC"
    "ObjType h = processType s" "procs s (x + BODY_OFFSET) = Some p" "pid_of s x = PID p"
proof -
  have "x \<noteq> 0" using assms by (auto simp: proc_list_def dest: seg_nonnull)
  then show thesis using assms that by (auto simp: proc_list_def object_ok_def pid_of_def)
qed

lemma proc_list_distinct: "proc_list s xs \<Longrightarrow> distinct xs"
  by (auto simp: proc_list_def dest: chain_distinct)

lemma proc_list_cong:
  assumes "proc_list s xs" and "headers t = headers s" and "otypes t = otypes s"
    and "processType t = processType s" and "dom (procs t) = dom (procs s)"
  shows "proc_list t xs"
proof -
  have "nextObject t = nextObject s" using assms(2) by (simp add: nextObject_def fun_eq_iff)
  moreover have "(\<exists>p. procs t a = Some p) \<longleftrightarrow> (\<exists>p. procs s a = Some p)" for a
    using assms(5) by (metis domD domI)
  ultimately show ?thesis using assms(1-4) by (simp add: proc_list_def object_ok_def)
qed

lemma proc_list_chain: "proc_list s xs \<Longrightarrow> chain (nextObject s) (hd0 xs) xs"
  by (auto simp: proc_list_def) (metis chain_hd0)

lemma first_process:
  assumes "proc_list s xs"
  shows "ObGetFirstObjectOfType (processType s) s = Some (Return (body_of (hd0 xs)) s)"
  using assms
  by (auto simp: proc_list_def ObGetFirstObjectOfType_def ASSERT_OBJECT_def run body_of_def dest: chain_hd0)

lemma next_process:
  assumes "proc_list s xs" and "x \<in> set xs" and "chain (nextObject s) x (x # ys)"
  shows "ObGetNextObjectOfType (x + BODY_OFFSET) s = Some (Return (body_of (hd0 ys)) s)"
proof -
  obtain h p where h: "x \<noteq> 0" "x + BODY_OFFSET \<noteq> 0" "headers s x = Some h" "Magic h = OBJECT_MAGIC"
    using assms(1,2) by (rule proc_listD)
  moreover have "NextObjectOfType h = hd0 ys"
    using assms(3) h by (auto simp: nextObject_def dest: chain_hd0)
  ultimately show ?thesis by (simp add: ObGetNextObjectOfType_def ASSERT_OBJECT_def run body_of_def)
qed

section \<open>Searching it\<close>

locale process_search =
  fixes step :: "u32 \<Rightarrow> addr \<Rightarrow> (addr + 'r) kern"
  assumes step_next: "obj \<noteq> 0 \<Longrightarrow> procs s obj = Some p \<Longrightarrow> PID p \<noteq> pid \<Longrightarrow>
    step pid obj s = kbind (ObGetNextObjectOfType obj) (\<lambda>obj. kreturn (Inl obj)) s"
begin

lemma kloop_same: "body x s = Some (Return (Inl y) t) \<Longrightarrow> kloop body x s = kloop body y t"
  by (subst kloop.simps) simp

lemma search_from:
  assumes "proc_list s xs" and "set ys \<subseteq> set xs" and "chain (nextObject s) (hd0 ys) ys"
  shows "kloop (step pid) (body_of (hd0 ys)) s = (case process_with s ys pid of
      None \<Rightarrow> kloop (step pid) 0 s | Some x \<Rightarrow> kloop (step pid) (x + BODY_OFFSET) s)"
  using assms(2,3)
proof (induction ys)
  case Nil
  then show ?case by (simp add: body_of_def process_with_def)
next
  case (Cons y ys)
  obtain p where p: "y \<noteq> 0" "y + BODY_OFFSET \<noteq> 0" "procs s (y + BODY_OFFSET) = Some p" "pid_of s y = PID p"
    using proc_listD [OF assms(1), of y] Cons.prems(1) by auto
  show ?case
  proof (cases "PID p = pid")
    case True
    then show ?thesis using p by (simp add: process_with_def body_of_def)
  next
    case False
    have c: "chain (nextObject s) y (y # ys)" using Cons.prems(2) by simp
    have "ObGetNextObjectOfType (y + BODY_OFFSET) s = Some (Return (body_of (hd0 ys)) s)"
      by (rule next_process [OF assms(1) _ c]) (use Cons.prems(1) in simp)
    then have "step pid (y + BODY_OFFSET) s = Some (Return (Inl (body_of (hd0 ys))) s)"
      using step_next [OF p(2,3) False] by (simp add: run)
    then have "kloop (step pid) (y + BODY_OFFSET) s = kloop (step pid) (body_of (hd0 ys)) s"
      by (rule kloop_same)
    then have "kloop (step pid) (body_of (hd0 (y # ys))) s = kloop (step pid) (body_of (hd0 ys)) s"
      using p by (simp add: body_of_def)
    moreover have "chain (nextObject s) (hd0 ys) ys" using c by (auto dest: chain_hd0)
    ultimately show ?thesis
      using Cons.IH Cons.prems(1) False p(4) by (simp add: process_with_def)
  qed
qed

lemma search:
  assumes "proc_list s xs"
  shows "kbind (kget processType) (\<lambda>T. kbind (ObGetFirstObjectOfType T) (\<lambda>obj. kloop (step pid) obj)) s
    = (case process_with s xs pid of
        None \<Rightarrow> kloop (step pid) 0 s | Some x \<Rightarrow> kloop (step pid) (x + BODY_OFFSET) s)"
proof -
  from search_from [OF assms order.refl proc_list_chain [OF assms]] show ?thesis
    using first_process [OF assms] by (simp add: run)
qed

end

interpretation pid_in_use: process_search pid_in_use_step
  by unfold_locales (simp add: pid_in_use_step_def run)

interpretation open_process: process_search open_process_step
  by unfold_locales (simp add: open_process_step_def run)

interpretation reference_process: process_search reference_process_step
  by unfold_locales (simp add: reference_process_step_def run)

lemma kloop_end: "body x s = Some (Return (Inr v) t) \<Longrightarrow> kloop body x s = Some (Return v t)"
  by (subst kloop.simps) simp

lemma kloop_Inr_return:
  assumes "body x s = kbind m (\<lambda>v. kreturn (Inr (g v))) s"
  shows "kloop body x s = kbind m (\<lambda>v. kreturn (g v)) s"
  unfolding kloop.simps [of body x s] assms
  by (simp add: kbind_def kreturn_def split: option.split outcome.split)

section \<open>What the searches find\<close>

lemma PIDInUse_result:
  assumes "proc_list s xs"
  shows "PIDInUse pid s = Some (Return (pid \<in> pid_of s ` set xs) s)"
proof (cases "process_with s xs pid")
  case None
  have "kloop (pid_in_use_step pid) 0 s = Some (Return False s)"
    by (rule kloop_end) (simp add: pid_in_use_step_def run)
  then show ?thesis
    unfolding PIDInUse_def pid_in_use.search [OF assms]
    using None process_with_None [of s xs pid] by simp
next
  case (Some x)
  note x = process_with_Some [OF Some]
  obtain p where p: "x + BODY_OFFSET \<noteq> 0" "procs s (x + BODY_OFFSET) = Some p" "pid_of s x = PID p"
    using proc_listD [OF assms x(1)] by metis
  have "kloop (pid_in_use_step pid) (x + BODY_OFFSET) s = Some (Return True s)"
    by (rule kloop_end) (use p x(2) in \<open>simp add: pid_in_use_step_def run\<close>)
  then show ?thesis
    unfolding PIDInUse_def pid_in_use.search [OF assms]
    using Some x by auto
qed

lemma PsReferenceProcess_result:
  assumes "proc_list s xs"
  shows "PsReferenceProcess pid s = (case process_with s xs pid of
      None \<Rightarrow> Some (Return (STATUS_NO_SUCH_PROCESS, 0) s)
    | Some x \<Rightarrow> Some (Return (STATUS_SUCCESS, x + BODY_OFFSET) (referenced s x (the (headers s x)))))"
proof (cases "process_with s xs pid")
  case None
  have "kloop (reference_process_step pid) 0 s = Some (Return (STATUS_NO_SUCH_PROCESS, 0) s)"
    by (rule kloop_end) (simp add: reference_process_step_def run)
  then show ?thesis
    unfolding PsReferenceProcess_def reference_process.search [OF assms] using None by simp
next
  case (Some x)
  note x = process_with_Some [OF Some]
  obtain h p where h: "x \<noteq> 0" "x + BODY_OFFSET \<noteq> 0" "headers s x = Some h" "Magic h = OBJECT_MAGIC"
    "ObjType h = processType s" and p: "procs s (x + BODY_OFFSET) = Some p" "pid_of s x = PID p"
    using assms x(1) by (rule proc_listD)
  have "ObReferenceObject (x + BODY_OFFSET) (processType s) s =
      Some (Return STATUS_SUCCESS (referenced s x h))"
    using ObReferenceObject_result [of "x + BODY_OFFSET" s h "processType s"] h by simp
  then have "kloop (reference_process_step pid) (x + BODY_OFFSET) s =
      Some (Return (STATUS_SUCCESS, x + BODY_OFFSET) (referenced s x h))"
    by (intro kloop_end) (use h p x(2) in \<open>simp add: reference_process_step_def run\<close>)
  then show ?thesis
    unfolding PsReferenceProcess_def reference_process.search [OF assms] using Some h by simp
qed

lemma PsOpenProcess_result:
  assumes "proc_list s xs"
  shows "PsOpenProcess pid s = (case process_with s xs pid of
      None \<Rightarrow> Some (Return (STATUS_NO_SUCH_PROCESS, None) s)
    | Some x \<Rightarrow> kbind (ObOpenObjectByPointer (x + BODY_OFFSET) 0 (processType s))
        (\<lambda>(status, handle). kreturn (status, Some handle)) s)"
proof (cases "process_with s xs pid")
  case None
  have "kloop (open_process_step pid) 0 s = Some (Return (STATUS_NO_SUCH_PROCESS, None) s)"
    by (rule kloop_end) (simp add: open_process_step_def run)
  then show ?thesis
    unfolding PsOpenProcess_def open_process.search [OF assms] using None by simp
next
  case (Some x)
  note x = process_with_Some [OF Some]
  obtain p where p: "x + BODY_OFFSET \<noteq> 0" "procs s (x + BODY_OFFSET) = Some p" "pid_of s x = PID p"
    using proc_listD [OF assms x(1)] by metis
  have "kloop (open_process_step pid) (x + BODY_OFFSET) s =
      kbind (ObOpenObjectByPointer (x + BODY_OFFSET) 0 (processType s))
        (\<lambda>v. kreturn (case v of (status, handle) \<Rightarrow> (status, Some handle))) s"
    by (rule kloop_Inr_return) (use p x(2) in \<open>simp add: open_process_step_def run case_prod_unfold\<close>)
  then show ?thesis
    unfolding PsOpenProcess_def open_process.search [OF assms] using Some
    by (simp add: case_prod_unfold)
qed

section \<open>New PIDs\<close>

lemma GetNewPID_result:
  assumes pl: "proc_list s xs" and few: "length xs < 2 ^ 32 - 1"
  shows "returns GetNewPID s (\<lambda>pid t. t = s \<and> pid > 0 \<and> pid \<notin> pid_of s ` set xs
     \<and> (\<forall>w. 0 < w \<and> w < pid \<longrightarrow> w \<in> pid_of s ` set xs))"
proof -
  let ?U = "pid_of s ` set xs"
  let ?I = "\<lambda>pid t. t = s \<and> pid > 0 \<and> (\<forall>w. 0 < w \<and> w < pid \<longrightarrow> w \<in> ?U)"
  show ?thesis
    unfolding GetNewPID_def
  proof (rule returns_kloop_rule [where I = ?I and m = "\<lambda>pid _. 2 ^ 32 - unat pid"])
    show "?I 1 s" using unsigned_less [of "1 :: u32", where ?'a = nat] by (auto simp: word_less_nat_alt)
  next
    fix pid t
    assume I: "?I pid t"
    have no_wrap: "pid \<noteq> - 1" if used: "pid \<in> ?U"
    proof
      assume "pid = - 1"
      then have "w \<in> ?U" if "w \<noteq> 0" for w
        using I used that by (cases "w = - 1") (auto simp: word_gt_0 word_order.not_eq_extremum)
      then have "UNIV - {0} \<subseteq> ?U" by auto
      then have "card (UNIV - {0 :: u32}) \<le> card ?U" by (intro card_mono) simp_all
      also have "\<dots> \<le> length xs" using card_image_le [of "set xs" "pid_of s"] card_length [of xs] by simp
      finally have "card (UNIV :: u32 set) - 1 \<le> length xs" by (simp add: card_Diff_singleton)
      then show False using few by (simp add: card_word)
    qed
    have more: "?I (pid + 1) t \<and> (2 :: nat) ^ 32 - unat (pid + 1) < 2 ^ 32 - unat pid" if used: "pid \<in> ?U"
    proof -
      have u: "unat (pid + 1) = unat pid + 1" by (rule unat_plus_one [OF no_wrap [OF used]])
      then have "w < pid \<or> w = pid" if "w < pid + 1" for w
        using that by (auto simp: word_less_nat_alt less_Suc_eq unsigned_word_eqI)
      moreover have "0 < pid + 1" using u by (simp add: word_less_nat_alt)
      moreover have "unat pid < 2 ^ 32" using unsigned_less [of pid, where ?'a = nat] by simp
      ultimately show ?thesis using I used u by auto
    qed
    have step: "new_pid_step pid s = Some (Return (if pid \<in> ?U then Inl (pid + 1) else Inr pid) s)"
      using PIDInUse_result [OF pl] by (simp add: new_pid_step_def run)
    show "returns (new_pid_step pid) t (\<lambda>r u. case r of
        Inl y \<Rightarrow> ?I y u \<and> 2 ^ 32 - unat y < 2 ^ 32 - unat pid
      | Inr v \<Rightarrow> u = s \<and> v > 0 \<and> v \<notin> ?U \<and> (\<forall>w. 0 < w \<and> w < v \<longrightarrow> w \<in> ?U))"
      using I step more by (cases "pid \<in> ?U") (simp_all add: returns_def)
  qed
qed

end
