(* ===== verification/KernelInv.thy ===== *)
theory KernelInv
  imports ProcList SchedSpec
begin

text \<open>
  The invariants of the scheduler and of the object manager together.  Each module's
  operations leave the other's data alone; here this is made precise, so that functions
  which call both (message passing, waiting, process management) keep both invariants.
\<close>

section \<open>What a module sees of a PCB\<close>

definition sched_view :: "PROCESS \<Rightarrow> addr \<times> PROCESS_STATE \<times> u32 \<times> u32 \<times> u32" where
  "sched_view p = (NextPCB p, State p, Priority p, WakeUpTime p, Quantum p)"

definition sched_same :: "(addr \<Rightarrow> PROCESS option) \<Rightarrow> (addr \<Rightarrow> PROCESS option) \<Rightarrow> bool" where
  "sched_same P P' \<longleftrightarrow> (\<forall>x. map_option sched_view (P' x) = map_option sched_view (P x))"

definition handles_same :: "(addr \<Rightarrow> PROCESS option) \<Rightarrow> (addr \<Rightarrow> PROCESS option) \<Rightarrow> bool" where
  "handles_same P P' \<longleftrightarrow> (\<forall>x. map_option HandleTable (P' x) = map_option HandleTable (P x))"

lemma sched_same_refl [simp]: "sched_same P P" and handles_same_refl [simp]: "handles_same P P"
  by (simp_all add: sched_same_def handles_same_def)

lemma sched_same_upd:
  "P a = Some p \<Longrightarrow> sched_view p' = sched_view p \<Longrightarrow> sched_same P (P(a \<mapsto> p'))"
  by (simp add: sched_same_def)

lemma handles_same_upd:
  "P a = Some p \<Longrightarrow> HandleTable p' = HandleTable p \<Longrightarrow> handles_same P (P(a \<mapsto> p'))"
  by (simp add: handles_same_def)

lemma sched_sameD:
  assumes "sched_same P P'" and "P x = Some p"
  shows "\<exists>p'. P' x = Some p' \<and> sched_view p' = sched_view p"
proof -
  have "map_option sched_view (P' x) = Some (sched_view p)" using assms by (simp add: sched_same_def)
  then show ?thesis by auto
qed

lemma sched_same_sym: "sched_same P P' \<Longrightarrow> sched_same P' P"
  by (simp add: sched_same_def)

section \<open>The scheduler's invariant\<close>

definition same_queues :: "kstate \<Rightarrow> kstate \<Rightarrow> bool" where
  "same_queues s t \<longleftrightarrow> KepReadyQueues t = KepReadyQueues s \<and> KepBlockedList t = KepBlockedList s
     \<and> KepTimerList t = KepTimerList s \<and> KeCurrentProcess t = KeCurrentProcess s"

lemma same_nextp: "sched_same P P' \<Longrightarrow> nextp P' = nextp P"
proof
  fix x
  assume s: "sched_same P P'"
  show "nextp P' x = nextp P x"
  proof (cases "P x")
    case None
    then show ?thesis using s [unfolded sched_same_def, THEN spec, of x] by (simp add: nextp_def)
  next
    case (Some p)
    then show ?thesis using sched_sameD [OF s Some] by (auto simp: nextp_def sched_view_def)
  qed
qed

lemma same_wake: "sched_same P P' \<Longrightarrow> wake P' = wake P"
proof
  fix x
  assume s: "sched_same P P'"
  show "wake P' x = wake P x"
  proof (cases "P x")
    case None
    then show ?thesis using s [unfolded sched_same_def, THEN spec, of x] by (simp add: wake_def)
  next
    case (Some p)
    then show ?thesis using sched_sameD [OF s Some] by (auto simp: wake_def sched_view_def)
  qed
qed

lemma lists_ok_members:
  assumes "lists_ok P RQ B T L" and "nextp P' = nextp P" and "wake P' = wake P"
    and "\<And>q x. \<exists>p. P x = Some p \<and> member_ok q p \<Longrightarrow> \<exists>p. P' x = Some p \<and> member_ok q p"
  shows "lists_ok P' RQ B T L"
  using assms(1,4) unfolding lists_ok_def assms(2) by_wake_def assms(3) by blast

lemma lists_ok_same:
  assumes s: "sched_same P P'" and ok: "lists_ok P RQ B T L"
  shows "lists_ok P' RQ B T L"
proof (rule lists_ok_members [OF ok same_nextp [OF s] same_wake [OF s]])
  fix q x
  assume "\<exists>p. P x = Some p \<and> member_ok q p"
  then obtain p where p: "P x = Some p" "member_ok q p" by blast
  then obtain p' where "P' x = Some p'" "sched_view p' = sched_view p" using sched_sameD [OF s] by blast
  then show "\<exists>p. P' x = Some p \<and> member_ok q p" using p(2) by (cases q) (auto simp: sched_view_def)
qed

lemma sched_inv_same:
  assumes q: "same_queues s t" and P: "sched_same (procs s) (procs t)" and inv: "sched_inv s L"
  shows "sched_inv t L"
proof -
  have "current_ok t"
  proof -
    obtain c where c: "KeCurrentProcess s \<noteq> 0" "procs s (KeCurrentProcess s) = Some c"
      "State c = running" "NextPCB c = 0" "unat (Priority c) < PROCESS_PRIORITY_LEVELS"
      using inv by (auto simp: sched_inv_def current_ok_def)
    then obtain c' where "procs t (KeCurrentProcess s) = Some c'" "sched_view c' = sched_view c"
      using sched_sameD [OF P] by blast
    then show ?thesis using c q by (auto simp: current_ok_def sched_view_def same_queues_def)
  qed
  moreover have "sched_lists t L"
    using inv q lists_ok_same [OF P] by (simp add: sched_inv_def sched_lists_def same_queues_def)
  ultimately show ?thesis by (simp add: sched_inv_def)
qed

lemma quantum_ok_same:
  assumes "same_queues s t" and "sched_same (procs s) (procs t)" and "quantum_ok s"
  shows "quantum_ok t"
proof -
  obtain c where c: "procs s (KeCurrentProcess s) = Some c" "Quantum c > 0"
    using assms(3) by (auto simp: quantum_ok_def)
  then obtain c' where "procs t (KeCurrentProcess s) = Some c'" "sched_view c' = sched_view c"
    using sched_sameD [OF assms(2)] by blast
  then show ?thesis using c assms(1) by (auto simp: quantum_ok_def sched_view_def same_queues_def)
qed

lemma mq_inv_grow:
  assumes "mnodes t = mnodes s" and "processQueue t = processQueue s"
    and "freeMemPointer s \<le> freeMemPointer t" and "mq_inv s"
  shows "mq_inv t"
proof -
  have "nodes_ordered (freeMemPointer s) (mnodes s)" using assms(4) by (simp add: mq_inv_def)
  then have "nodes_ordered (freeMemPointer t) (mnodes s)"
    unfolding nodes_ordered_def using order.strict_trans2 [OF _ assms(3)] by blast
  then show ?thesis using assms by (simp add: mq_inv_def)
qed

section \<open>The object manager's invariant\<close>

lemma slots_handles: "handles_same P P' \<Longrightarrow> slots P' obj = slots P obj"
proof -
  assume h: "handles_same P P'"
  have "(\<exists>pr. P' p = Some pr \<and> HtObject (HandleTable pr i) = obj)
      \<longleftrightarrow> (\<exists>pr. P p = Some pr \<and> HtObject (HandleTable pr i) = obj)" for p i
  proof -
    have "map_option HandleTable (P' p) = map_option HandleTable (P p)" using h by (simp add: handles_same_def)
    then show ?thesis by (cases "P p"; cases "P' p") auto
  qed
  then show ?thesis by (simp add: slots_def)
qed

lemma ob_inv_same:
  assumes h: "handles_same (procs s) (procs t)" and e: "headers t = headers s" "otypes t = otypes s"
    "foos t = foos s" and inv: "ob_inv s Os"
  shows "ob_inv t Os"
proof -
  have "nextObject t = nextObject s" using e by (simp add: nextObject_def fun_eq_iff)
  then show ?thesis
    using inv e slots_handles [OF h]
    by (simp add: ob_inv_def ob_lists_def object_ok_def header_ok_def deletable_def counts_ok_def
        slots_live_def handle_count_def)
qed

lemma outer_fields:
  assumes "outer q = outer p"
  shows "Priority q = Priority p" "PID q = PID p" "HandleTable q = HandleTable p"
    "MessageQueue q = MessageQueue p" "CONTEXT.V0 (Context q) = CONTEXT.V0 (Context p)"
    "Context q = Context p" "Supervisor q = Supervisor p" "Args q = Args p"
proof -
  have "f (outer q) = f (outer p)" for f :: "PROCESS \<Rightarrow> 'b" by (simp only: assms)
  from this [of Priority] this [of PID] this [of HandleTable] this [of MessageQueue] this [of Context]
    this [of Supervisor] this [of Args]
  show "Priority q = Priority p" "PID q = PID p" "HandleTable q = HandleTable p"
    "MessageQueue q = MessageQueue p" "CONTEXT.V0 (Context q) = CONTEXT.V0 (Context p)"
    "Context q = Context p" "Supervisor q = Supervisor p" "Args q = Args p"
    by (simp_all add: outer_def)
qed

lemma outer_onlyD:
  assumes "outer_only P Q" and "P x = Some p"
  shows "\<exists>q. Q x = Some q \<and> outer q = outer p"
proof -
  have "map_option outer (Q x) = Some (outer p)" using assms by (simp add: outer_only_def)
  then show ?thesis by auto
qed

lemma outer_only_sym: "outer_only P Q \<Longrightarrow> outer_only Q P"
  by (simp add: outer_only_def)

lemma outer_only_dom: "outer_only P Q \<Longrightarrow> dom Q = dom P"
proof -
  assume o: "outer_only P Q"
  have "Q x = None \<longleftrightarrow> P x = None" for x
    using o [unfolded outer_only_def, THEN spec, of x] by (cases "P x"; cases "Q x") simp_all
  then show ?thesis by (simp add: dom_def)
qed

lemma outer_handles: "outer_only P Q \<Longrightarrow> handles_same P Q"
proof -
  assume o: "outer_only P Q"
  have "map_option HandleTable (Q x) = map_option HandleTable (P x)" for x
  proof (cases "P x")
    case None
    then show ?thesis using o [unfolded outer_only_def, THEN spec, of x] by simp
  next
    case (Some p)
    then obtain q where "Q x = Some q" "outer q = outer p" using outer_onlyD [OF o Some] by blast
    then show ?thesis using Some outer_fields(3) [of q p] by simp
  qed
  then show ?thesis by (simp add: handles_same_def)
qed

lemma ke_frame_more:
  assumes "ke_frame s t"
  shows ke_frame_foos: "foos t = foos s" and ke_frame_type: "processType t = processType s"
    and ke_frame_messages: "messages t = messages s" and ke_frame_mem: "mem t = mem s"
proof -
  have t: "t = s\<lparr>procs := procs t, KepReadyQueues := KepReadyQueues t,
             KepBlockedList := KepBlockedList t, KepTimerList := KepTimerList t,
             KeCurrentProcess := KeCurrentProcess t, KepTickCount := KepTickCount t,
             mnodes := mnodes t, processQueue := processQueue t\<rparr>"
    using assms by (simp only: ke_frame_def)
  show "foos t = foos s" "processType t = processType s" "messages t = messages s" "mem t = mem s"
    by (subst t, simp)+
qed

lemma ob_inv_ke_frame: "ke_frame s t \<Longrightarrow> ob_inv s Os \<Longrightarrow> ob_inv t Os"
  by (rule ob_inv_same [OF outer_handles [OF ke_frame_outer] ke_frame_headers ke_frame_otypes ke_frame_foos])

lemma proc_list_ke_frame: "ke_frame s t \<Longrightarrow> proc_list s xs \<Longrightarrow> proc_list t xs"
  by (rule proc_list_cong)
     (simp_all add: ke_frame_headers ke_frame_otypes ke_frame_type outer_only_dom [OF ke_frame_outer])

lemma ob_frame_more:
  assumes "ob_frame s t"
  shows ob_frame_queues: "same_queues s t" and ob_frame_mnodes: "mnodes t = mnodes s"
    and ob_frame_queue: "processQueue t = processQueue s" and ob_frame_type_global: "processType t = processType s"
    and ob_frame_messages: "messages t = messages s" and ob_frame_mem: "mem t = mem s"
    and ob_frame_waitents: "waitents t = waitents s"
proof -
  have t: "t = s\<lparr>headers := headers t, otypes := otypes t, stdout := stdout t\<rparr>"
    using assms by (simp only: ob_frame_def)
  show "mnodes t = mnodes s" "processQueue t = processQueue s" "processType t = processType s"
    "messages t = messages s" "mem t = mem s" "waitents t = waitents s" by (subst t, simp)+
  show "same_queues s t" unfolding same_queues_def by (subst t, simp)+
qed

lemma ke_frame_upd:
  assumes "ke_frame s t" and "outer b = outer a"
  shows "ke_frame (s\<lparr>procs := (procs s)(p \<mapsto> a)\<rparr>) (t\<lparr>procs := (procs t)(p \<mapsto> b)\<rparr>)"
proof -
  let ?Q = "(procs s)(p \<mapsto> a)" and ?P = "(procs t)(p \<mapsto> b)"
  let ?f = "\<lambda>s P. s\<lparr>procs := P, KepReadyQueues := KepReadyQueues t,
             KepBlockedList := KepBlockedList t, KepTimerList := KepTimerList t,
             KeCurrentProcess := KeCurrentProcess t, KepTickCount := KepTickCount t,
             mnodes := mnodes t, processQueue := processQueue t\<rparr>"
  have t: "t = ?f s (procs t)" using assms(1) by (simp only: ke_frame_def)
  have "t\<lparr>procs := ?P\<rparr> = (?f s (procs t))\<lparr>procs := ?P\<rparr>"
    using arg_cong [OF t, of "procs_update (\<lambda>_. ?P)"] .
  also have "\<dots> = ?f (s\<lparr>procs := ?Q\<rparr>) ?P" by simp
  finally have "t\<lparr>procs := ?P\<rparr> = ?f (s\<lparr>procs := ?Q\<rparr>) ?P" .
  moreover have "outer_only ?Q ?P"
    using ke_frame_outer [OF assms(1)] assms(2) by (simp add: outer_only_def)
  ultimately show ?thesis using ke_frame_nodes [OF assms(1)] by (simp add: ke_frame_def)
qed

section \<open>Both together\<close>

definition sched_good :: "kstate \<Rightarrow> (qid \<Rightarrow> addr list) \<Rightarrow> bool" where
  "sched_good s L \<longleftrightarrow> sched_inv s L \<and> mq_inv s \<and> quantum_ok s"

lemma good_iff: "good s \<longleftrightarrow> (\<exists>L. sched_good s L)"
  by (auto simp: good_def sched_good_def)

lemma sched_good_same:
  assumes "same_queues s t" and "sched_same (procs s) (procs t)" and "mnodes t = mnodes s"
    and "processQueue t = processQueue s" and "freeMemPointer s \<le> freeMemPointer t"
    and "sched_good s L"
  shows "sched_good t L"
  using assms sched_inv_same [OF assms(1,2)] quantum_ok_same [OF assms(1,2)] mq_inv_grow [OF assms(3,4,5)]
  by (simp add: sched_good_def)

lemma sched_good_ob_frame: "ob_frame s t \<Longrightarrow> sched_good s L \<Longrightarrow> sched_good t L"
  by (rule sched_good_same)
     (simp_all add: ob_frame_queues ob_frame_procs ob_frame_mnodes ob_frame_queue ob_frame_free)

lemma ALIGN_MEMORY_grows:
  "mm_room s n \<Longrightarrow> freeMemPointer s \<le> ALIGN_MEMORY (freeMemPointer s + n)"
  using MmAlloc_room(1) [of s n] by (simp add: word_le_nat_alt)

section \<open>Resuming a process\<close>

lemma KeResumeProcess_awake:
  assumes g: "sched_good s L" and sl: "sleeping L p" and p: "procs s p = Some pr"
  shows "returns (KeResumeProcess p) s (\<lambda>_ t. (\<exists>L'. sched_good t L' \<and> (\<forall>q. sleeping L' q \<longleftrightarrow> sleeping L q \<and> q \<noteq> p))
     \<and> ke_frame s t \<and> (\<exists>pr'. procs t p = Some pr' \<and> State pr' \<noteq> blocked))"
proof -
  have inv: "sched_inv s L" and mq: "mq_inv s" and qu: "quantum_ok s" using g by (simp_all add: sched_good_def)
  obtain c where ok: "sched_lists s L" and c: "procs s (KeCurrentProcess s) = Some c"
    "unat (Priority c) < PROCESS_PRIORITY_LEVELS" by (rule sched_invD [OF inv])
  have lp: "unat (Priority pr) < PROCESS_PRIORITY_LEVELS" using sleeping_member [OF ok sl] p by auto
  obtain n L' where ab: "abs_resume L (KeCurrentProcess s) (unat (Priority c)) p (unat (Priority pr)) = (n, L')"
    by fastforce
  note run = abs_resume_runnable [OF ab c(2) lp]
  have d: "distinct (L TimerQ)" "distinct (L BlockedQ)"
    using lists_distinct [OF sched_listsD [OF ok]] by simp_all
  have keep: "\<forall>q. sleeping L' q \<longleftrightarrow> sleeping L q \<and> q \<noteq> p" using run d by (auto simp: sleeping_def)
  show ?thesis
  proof (rule returns_mono [OF KeResumeProcess_lists [OF inv mq p sl c(1) ab]])
    fix a :: unit and t
    assume t: "sched_inv t L' \<and> KeCurrentProcess t = n \<and> mq_inv t \<and> (quantum_ok s \<longrightarrow> quantum_ok t)
      \<and> ke_frame s t \<and> KepTickCount t = KepTickCount s \<and> core_only (procs s) (procs t)"
    have cur: "KeCurrentProcess t = n" and i: "sched_inv t L'" using t by simp_all
    have "\<exists>pr'. procs t p = Some pr' \<and> State pr' \<noteq> blocked"
    proof (cases "p = n")
      case True
      then show ?thesis using sched_invD [OF i] cur by (metis PROCESS_STATE.distinct)
    next
      case False
      then have "p \<in> ready_set L'" using run by auto
      then obtain j where j: "j < PROCESS_PRIORITY_LEVELS" "p \<in> set (L' (ReadyQ j))"
        by (auto simp: ready_set_def)
      have "sched_lists t L'" using i by (simp add: sched_inv_def)
      from lists_member [OF sched_listsD [OF this], of "ReadyQ j" p] j show ?thesis by auto
    qed
    then show "(\<exists>L'. sched_good t L' \<and> (\<forall>q. sleeping L' q \<longleftrightarrow> sleeping L q \<and> q \<noteq> p))
       \<and> ke_frame s t \<and> (\<exists>pr'. procs t p = Some pr' \<and> State pr' \<noteq> blocked)"
      using t qu keep by (auto simp: sched_good_def)
  qed
qed

text \<open>A change to fields of a header that the invariant does not read.\<close>

lemma ob_inv_header:
  assumes inv: "ob_inv s Os" and h: "headers s x = Some h"
    and e: "Magic h' = Magic h" "HandleCount h' = HandleCount h" "PointerCount h' = PointerCount h"
      "ObjAttributes h' = ObjAttributes h" "ObjType h' = ObjType h" "NextObjectOfType h' = NextObjectOfType h"
  shows "ob_inv (s\<lparr>headers := (headers s)(x \<mapsto> h')\<rparr>) Os"
proof -
  let ?H = "(headers s)(x \<mapsto> h')"
  note D = ob_invD [OF inv]
  have lists: "ob_lists (s\<lparr>headers := ?H\<rparr>) Os" by (rule ob_lists_header [OF D(1) h]) (simp_all add: e)
  have hdr: "header_ok (s\<lparr>headers := ?H\<rparr>) Os y g" if y: "?H y = Some g" for y g
  proof -
    obtain g0 where g0: "headers s y = Some g0" "Magic g = Magic g0" "HandleCount g = HandleCount g0"
      "PointerCount g = PointerCount g0" "ObjAttributes g = ObjAttributes g0" "ObjType g = ObjType g0"
      using y h e by (cases "y = x") auto
    then show ?thesis using D(2) [OF g0(1)] by (auto simp: header_ok_def deletable_def permanent_def)
  qed
  have "counts_ok (procs s) ?H" using D(3) h e by (auto simp: counts_ok_def)
  moreover have "slots_live (procs s) ?H" using D(4) by (auto simp: slots_live_def)
  ultimately show ?thesis unfolding ob_inv_def using lists hdr by simp
qed

lemma reference_dereference:
  assumes inv: "ob_inv s Os" and h: "headers s x = Some h" and live: "PointerCount h > 0"
    and room: "PointerCount h \<noteq> - 1"
  shows "returns (ObDereferenceObject (x + BODY_OFFSET)) (referenced s x h) (\<lambda>_ u. ob_inv u Os
     \<and> ob_frame s u \<and> (\<forall>y. links_header (headers u y) = links_header (headers s y)))"
proof -
  let ?h = "h\<lparr>PointerCount := PointerCount h + 1\<rparr>" and ?s = "referenced s x h"
  have inv': "ob_inv ?s Os" using ob_inv_referenced [OF inv h _ room] live by simp
  have h': "headers ?s x = Some ?h" by (simp add: referenced_def)
  have "HandleCount h \<le> PointerCount h" using ob_invD(2) [OF inv h] by (simp add: header_ok_def)
  then have lt: "HandleCount ?h < PointerCount ?h"
    using room by (simp add: word_less_nat_alt word_le_nat_alt unat_plus_one)
  have keep: "abs_deref Os x ?h = Os" using live by (auto simp: abs_deref_def last_reference_def)
  have undo: "((headers ?s)(x \<mapsto> ?h\<lparr>PointerCount := PointerCount ?h - 1\<rparr>)) y = headers s y" for y
    using h by (simp add: referenced_def)
  have fr: "ob_frame s ?s" by (simp add: referenced_def)
  show ?thesis
    by (rule returns_mono [OF ObDereferenceObject_inv [OF inv' h' lt]])
       (simp only: keep undo, use ob_frame_trans [OF fr] in blast)
qed

end
