(* ===== verification/PsChange.thy ===== *)
theory PsChange
  imports KernelInv Ps
begin

text \<open>
  Changing the priority of a process: \<^verbatim>\<open>KeChangeProcessPriority\<close> of the scheduler moves a
  ready process from one ready queue to the end of another, and only sets the field of a
  running or sleeping one.
\<close>

section \<open>The scheduler's part\<close>

definition abs_change :: "addr \<Rightarrow> nat \<Rightarrow> nat \<Rightarrow> (qid \<Rightarrow> addr list) \<Rightarrow> (qid \<Rightarrow> addr list)" where
  "abs_change p old new L = abs_ready p new (L(ReadyQ old := remove1 p (L (ReadyQ old))))"

text \<open>A process the scheduler knows about.\<close>

definition scheduled :: "(qid \<Rightarrow> addr list) \<Rightarrow> addr \<Rightarrow> PROCESS \<Rightarrow> bool" where
  "scheduled L p pr \<longleftrightarrow> State pr = running \<or> State pr = blocked
     \<or> State pr = ready \<and> p \<in> set (L (ReadyQ (unat (Priority pr))))"

lemma sched_lists_priority:
  assumes ok: "sched_lists s L" and p: "procs s p = Some pr" "State pr \<noteq> ready"
    and n: "unat n < PROCESS_PRIORITY_LEVELS"
  shows "sched_lists (s\<lparr>procs := (procs s)(p \<mapsto> pr\<lparr>Priority := n\<rparr>)\<rparr>) L"
proof -
  let ?P = "(procs s)(p \<mapsto> pr\<lparr>Priority := n\<rparr>)"
  have "lists_ok ?P (KepReadyQueues s) (KepBlockedList s) (KepTimerList s) L"
  proof (rule lists_ok_members [OF sched_listsD [OF ok]])
    show "nextp ?P = nextp (procs s)" "wake ?P = wake (procs s)"
      using p by (auto simp: nextp_def wake_def fun_eq_iff)
  next
    fix q x
    assume "\<exists>y. procs s x = Some y \<and> member_ok q y"
    then show "\<exists>y. ?P x = Some y \<and> member_ok q y" using p n by (cases "x = p"; cases q) auto
  qed
  then show ?thesis by (simp add: sched_lists_def)
qed

text \<open>A process taken out of its ready queue goes to the end of the queue of its new priority.\<close>

lemma changed_process_enqueued:
  assumes inv: "sched_good s L" and p: "p \<noteq> 0" "procs s p = Some pr" "State pr = ready"
    and n: "unat n < PROCESS_PRIORITY_LEVELS" and old: "unat (Priority pr) < PROCESS_PRIORITY_LEVELS"
    and t: "sched_lists t (L(ReadyQ (unat (Priority pr)) := remove1 p (L (ReadyQ (unat (Priority pr))))))"
      "sched_frame s t" "KeCurrentProcess t = KeCurrentProcess s"
      "procs t p = Some (pr\<lparr>NextPCB := 0\<rparr>)" "untouched L p (procs s) (procs t)" "p \<in> set (L (ReadyQ (unat (Priority pr))))"
  shows "returns (KepEnqueueProcess p) (t\<lparr>procs := (procs t)(p \<mapsto> pr\<lparr>NextPCB := 0, Priority := n\<rparr>)\<rparr>) (\<lambda>_ u.
      sched_good u (abs_change p (unat (Priority pr)) (unat n) L) \<and> KeCurrentProcess u = KeCurrentProcess s
      \<and> ke_frame (s\<lparr>procs := (procs s)(p \<mapsto> pr\<lparr>Priority := n\<rparr>)\<rparr>) u)"
proof -
  let ?L1 = "L(ReadyQ (unat (Priority pr)) := remove1 p (L (ReadyQ (unat (Priority pr)))))"
  let ?p2 = "pr\<lparr>NextPCB := 0, Priority := n\<rparr>"
  let ?cur = "KeCurrentProcess s" and ?t = "t\<lparr>procs := (procs t)(p \<mapsto> ?p2)\<rparr>"
  obtain c where ok: "sched_lists s L" and c: "?cur \<noteq> 0" "procs s ?cur = Some c" "State c = running"
    "NextPCB c = 0" "unat (Priority c) < PROCESS_PRIORITY_LEVELS" and fr: "fresh L ?cur"
    using inv sched_invD by (auto simp: sched_good_def)
  have q: "Quantum c > 0" using inv c(2) by (auto simp: sched_good_def quantum_ok_def)
  have ncur: "?cur \<noteq> p" using c p by auto
  have f1: "fresh ?L1 p" by (rule fresh_remove [OF ok]) (use p t old in simp_all)
  have ok1: "sched_lists ?t ?L1" by (rule sched_lists_upd_fresh) (use t f1 in simp_all)
  have curt: "procs t ?cur = Some c" using t untouchedD [OF _ fr ncur] c(2) by metis
  have e: "procs ?t p = Some ?p2" "NextPCB ?p2 = 0" "Priority ?p2 = n" by simp_all
  have fr1: "fresh ?L1 ?cur" using fresh_shrink [OF fr] .
  have ke: "ke_frame (s\<lparr>procs := (procs s)(p \<mapsto> pr\<lparr>Priority := n\<rparr>)\<rparr>) ?t"
    by (rule ke_frame_upd) (use t in \<open>simp_all add: sched_ke_frame outer_def\<close>)
  have mq: "mq_inv ?t" using inv t(2) mq_inv_frame by (auto simp: sched_good_def mq_inv_def)
  show ?thesis
  proof (rule returns_mono [OF KepEnqueueProcess_lists [OF ok1 p(1) e(1,2) _ f1, unfolded e(3), OF n]])
    fix a :: unit and u
    assume u: "sched_lists u (?L1(ReadyQ (unat n) := ?L1 (ReadyQ (unat n)) @ [p]))
      \<and> sched_frame ?t u \<and> KeCurrentProcess u = KeCurrentProcess ?t
      \<and> procs u p = Some (?p2\<lparr>State := ready\<rparr>)
      \<and> links_only ((procs ?t)(p \<mapsto> ?p2\<lparr>State := ready\<rparr>)) (procs u)
      \<and> untouched ?L1 p (procs ?t) (procs u)"
    then have un: "untouched ?L1 p (procs ?t) (procs u)" by simp
    have cu: "procs u ?cur = Some c" using untouchedD [OF un fr1 ncur] curt ncur by simp
    have k: "ke_frame (s\<lparr>procs := (procs s)(p \<mapsto> pr\<lparr>Priority := n\<rparr>)\<rparr>) u"
      using ke_frame_trans [OF ke sched_ke_frame] u by blast
    have "mq_inv u" using u mq mq_inv_frame by blast
    then show "sched_good u (abs_change p (unat (Priority pr)) (unat n) L) \<and> KeCurrentProcess u = ?cur
      \<and> ke_frame (s\<lparr>procs := (procs s)(p \<mapsto> pr\<lparr>Priority := n\<rparr>)\<rparr>) u"
      using u t c q cu k
      by (simp add: sched_good_def sched_inv_def current_ok_def quantum_ok_def abs_change_def abs_ready_def)
  qed
qed

lemma KeChangeProcessPriority_ready:
  assumes inv: "sched_good s L" and p: "p \<noteq> 0" "procs s p = Some pr" "State pr = ready"
    "p \<in> set (L (ReadyQ (unat (Priority pr))))" and n: "unat n < PROCESS_PRIORITY_LEVELS"
    and old: "unat (Priority pr) < PROCESS_PRIORITY_LEVELS"
  shows "returns (KeChangeProcessPriority p n) s (\<lambda>_ t.
     sched_good t (abs_change p (unat (Priority pr)) (unat n) L)
   \<and> KeCurrentProcess t = KeCurrentProcess s
   \<and> ke_frame (s\<lparr>procs := (procs s)(p \<mapsto> pr\<lparr>Priority := n\<rparr>)\<rparr>) t)"
proof -
  let ?p2 = "pr\<lparr>NextPCB := 0, Priority := n\<rparr>"
  have ok: "sched_lists s L" using inv sched_invD by (auto simp: sched_good_def)
  note enq = changed_process_enqueued [OF inv p(1,2,3) n old]
  have lt: "n < of_nat PROCESS_PRIORITY_LEVELS" using n priority_less by blast
  have "returns (KepDequeueProcess p) s (\<lambda>_ t. returns (KepEnqueueProcess p)
      (t\<lparr>procs := (procs t)(p \<mapsto> ?p2)\<rparr>) (\<lambda>_ u.
      sched_good u (abs_change p (unat (Priority pr)) (unat n) L) \<and> KeCurrentProcess u = KeCurrentProcess s
      \<and> ke_frame (s\<lparr>procs := (procs s)(p \<mapsto> pr\<lparr>Priority := n\<rparr>)\<rparr>) u)
      \<and> procs t p = Some (pr\<lparr>NextPCB := 0\<rparr>))"
    by (rule returns_mono [OF KepDequeueProcess_lists [OF ok p(2) refl old p(4)]]) (use enq p(4) in simp)
  then show ?thesis
    using p lt by (simp add: KeChangeProcessPriority_def kern) (erule returns_mono, simp)
qed

lemma KeChangeProcessPriority_lists:
  assumes inv: "sched_good s L" and p: "p \<noteq> 0" "procs s p = Some pr" "scheduled L p pr"
    and n: "unat n < PROCESS_PRIORITY_LEVELS" and old: "unat (Priority pr) < PROCESS_PRIORITY_LEVELS"
  shows "returns (KeChangeProcessPriority p n) s (\<lambda>_ t.
     sched_good t (if State pr = ready then abs_change p (unat (Priority pr)) (unat n) L else L)
   \<and> KeCurrentProcess t = KeCurrentProcess s
   \<and> ke_frame (s\<lparr>procs := (procs s)(p \<mapsto> pr\<lparr>Priority := n\<rparr>)\<rparr>) t)"
proof (cases "State pr = ready")
  case True
  then show ?thesis using KeChangeProcessPriority_ready [OF inv p(1,2)] p(3) n old by (simp add: scheduled_def)
next
  case False
  let ?t = "s\<lparr>procs := (procs s)(p \<mapsto> pr\<lparr>Priority := n\<rparr>)\<rparr>"
  have "sched_lists s L" "current_ok s" "mq_inv s" "quantum_ok s"
    using inv by (simp_all add: sched_good_def sched_inv_def)
  then have "sched_good ?t L"
    using sched_lists_priority [OF _ p(2) False n] p n
    by (auto simp: sched_good_def sched_inv_def current_ok_def quantum_ok_def mq_inv_def)
  moreover have "n < of_nat PROCESS_PRIORITY_LEVELS" using n priority_less by blast
  ultimately show ?thesis
    using False p by (auto simp: KeChangeProcessPriority_def kern scheduled_def split: PROCESS_STATE.split)
qed

end
