(* ===== verification/PsDemo.thy ===== *)
theory PsDemo
  imports KernelInv
begin

text \<open>
  A concrete state with processes that are objects: the four processes of \<open>sched_demo\<close>, each
  with an object header in the list of its type.  Process 1 runs and holds a handle to
  process 3, which is blocked.
\<close>

definition ps_header :: "u32 \<Rightarrow> u32 \<Rightarrow> addr \<Rightarrow> OBJECT_HEADER" where
  "ps_header hc pc nx = \<lparr>Magic = OBJECT_MAGIC, HandleCount = hc, PointerCount = pc,
     ObjAttributes = 0, SignalState = 0, WaitQueue = 0, ObjType = 0x100, NextObjectOfType = nx\<rparr>"

definition type_header :: OBJECT_HEADER where
  "type_header = \<lparr>Magic = OBJECT_MAGIC, HandleCount = 0, PointerCount = 1,
     ObjAttributes = OBJ_PERMANENT, SignalState = 0, WaitQueue = 0, ObjType = 0, NextObjectOfType = 0\<rparr>"

definition ps_demo :: kstate where
  "ps_demo = sched_demo\<lparr>
     procs := (procs sched_demo)(0x1000 \<mapsto>
       set_slot 0 \<lparr>HtAttributes = 0, HtObject = 0x3000\<rparr> (demo_process 1 running 3)),
     headers := [0xE0 \<mapsto> type_header, 0xFE0 \<mapsto> ps_header 0 1 0x1FE0, 0x1FE0 \<mapsto> ps_header 0 1 0x2FE0,
       0x2FE0 \<mapsto> ps_header 1 2 0x3FE0, 0x3FE0 \<mapsto> ps_header 0 1 0],
     otypes := [0x100 \<mapsto> \<lparr>TypeName = 0x50524F43, FirstObjectOfType = 0xFE0, NextTypeObject = 0,
       TypeDump = NoDumpMethod, TypeDelete = NoDeleteMethod\<rparr>],
     processType := 0x100\<rparr>"

definition ps_demo_lists :: "addr \<Rightarrow> addr list" where
  "ps_demo_lists = (\<lambda>_. [])(0x100 := [0xFE0, 0x1FE0, 0x2FE0, 0x3FE0])"

lemma ps_demo_sel [simp]:
  "KeCurrentProcess ps_demo = 0x1000" "processType ps_demo = 0x100" "KepTickCount ps_demo = 95"
  "freeMemPointer ps_demo = 0x9000" "mnodes ps_demo = Map.empty" "messages ps_demo = Map.empty"
  "processQueue ps_demo = Some \<lparr>mqFirst = 0, mqLast = 0\<rparr>" "mem ps_demo = (\<lambda>_. 0)"
  by (simp_all add: ps_demo_def sched_demo_def boot_state_def)

lemma ps_demo_procs [simp]:
  "procs ps_demo 0x1000 = Some (set_slot 0 \<lparr>HtAttributes = 0, HtObject = 0x3000\<rparr> (demo_process 1 running 3))"
  "procs ps_demo 0x2000 = Some (demo_process 2 ready 1)"
  "procs ps_demo 0x3000 = Some (demo_process 3 blocked 7)"
  "procs ps_demo 0x4000 = Some ((demo_process 4 blocked 5)\<lparr>WakeUpTime := 100, ResumeMethod := MessResumeMethod\<rparr>)"
  by (simp_all add: ps_demo_def sched_demo_def)

lemma ps_demo_headers [simp]:
  "headers ps_demo 0xE0 = Some type_header" "headers ps_demo 0xFE0 = Some (ps_header 0 1 0x1FE0)"
  "headers ps_demo 0x1FE0 = Some (ps_header 0 1 0x2FE0)" "headers ps_demo 0x2FE0 = Some (ps_header 1 2 0x3FE0)"
  "headers ps_demo 0x3FE0 = Some (ps_header 0 1 0)"
  by (simp_all add: ps_demo_def)

lemma ps_demo_header_cases:
  "headers ps_demo x = Some h \<Longrightarrow> x = 0xE0 \<and> h = type_header \<or> x = 0xFE0 \<and> h = ps_header 0 1 0x1FE0
     \<or> x = 0x1FE0 \<and> h = ps_header 0 1 0x2FE0 \<or> x = 0x2FE0 \<and> h = ps_header 1 2 0x3FE0
     \<or> x = 0x3FE0 \<and> h = ps_header 0 1 0"
  by (simp add: ps_demo_def split: if_splits)

lemma ps_demo_type:
  "otypes ps_demo T = Some t \<Longrightarrow> T = 0x100 \<and> FirstObjectOfType t = 0xFE0 \<and> TypeDelete t = NoDeleteMethod"
  by (auto simp: ps_demo_def split: if_splits)

lemma ps_demo_otypes: "\<exists>t. otypes ps_demo 0x100 = Some t \<and> FirstObjectOfType t = 0xFE0 \<and> TypeDelete t = NoDeleteMethod"
  by (simp add: ps_demo_def)

lemma ps_demo_chain: "chain (nextObject ps_demo) 0xFE0 [0xFE0, 0x1FE0, 0x2FE0, 0x3FE0]"
  by (simp add: nextObject_def ps_header_def)

lemma ps_demo_proc_list: "proc_list ps_demo (ps_demo_lists 0x100)"
  using ps_demo_otypes
  by (auto simp: proc_list_def OBJECT_BODY_TO_HEADER_def BODY_OFFSET_def ps_demo_lists_def ps_demo_chain
      object_ok_def type_header_def ps_header_def nextObject_def)

lemma ps_demo_slots: "slots (procs ps_demo) obj =
    (if obj = 0x3000 then {(0x1000, 0)}
     else if obj = 0 then {0x1000} \<times> {1 ..< MAX_HANDLE_COUNT}
       \<union> {0x2000, 0x3000, 0x4000} \<times> {..< MAX_HANDLE_COUNT} else {})"
proof -
  have "procs ps_demo = [0x1000 \<mapsto> set_slot 0 \<lparr>HtAttributes = 0, HtObject = 0x3000\<rparr> (demo_process 1 running 3),
      0x2000 \<mapsto> demo_process 2 ready 1, 0x3000 \<mapsto> demo_process 3 blocked 7,
      0x4000 \<mapsto> (demo_process 4 blocked 5)\<lparr>WakeUpTime := 100, ResumeMethod := MessResumeMethod\<rparr>]"
    by (auto simp: ps_demo_def sched_demo_def fun_eq_iff)
  then show ?thesis
    by (auto simp: slots_def set_slot_def MAX_HANDLE_COUNT_def demo_process_def split: if_splits)
qed

lemma ps_demo_ob_inv: "ob_inv ps_demo ps_demo_lists"
proof -
  have l: "ob_lists ps_demo ps_demo_lists"
    using ps_demo_chain
    by (auto simp: ob_lists_def object_ok_def ps_demo_lists_def ps_header_def dest!: ps_demo_type)
  have c: "counts_ok (procs ps_demo) (headers ps_demo)"
    unfolding counts_ok_def handle_count_def ps_demo_slots
    by (auto dest!: ps_demo_header_cases simp: ps_header_def type_header_def BODY_OFFSET_def)
  have h: "header_ok ps_demo ps_demo_lists x h" if "headers ps_demo x = Some h" for x h
    using ps_demo_header_cases [OF that] ps_demo_otypes
    by (auto simp: header_ok_def deletable_def ps_header_def type_header_def BODY_OFFSET_def
        ps_demo_lists_def permanent_def OBJ_PERMANENT_def)
  have "slots_live (procs ps_demo) (headers ps_demo)"
    unfolding slots_live_def ps_demo_slots by (simp add: OBJECT_BODY_TO_HEADER_def BODY_OFFSET_def)
  then show ?thesis unfolding ob_inv_def using l c h by simp
qed

lemma ps_demo_good: "sched_good ps_demo sched_demo_lists"
proof (rule sched_good_same)
  show "sched_good sched_demo sched_demo_lists"
    using sched_demo_inv sched_demo_mq sched_demo_quantum by (simp add: sched_good_def)
  show "sched_same (procs sched_demo) (procs ps_demo)"
    unfolding ps_demo_def
    by (simp add: sched_same_def sched_demo_procs sched_view_def set_slot_def)
qed (simp_all add: ps_demo_def same_queues_def)

lemma ps_demo_counts:
  "x \<in> set (ps_demo_lists (processType ps_demo)) \<Longrightarrow> headers ps_demo x = Some h \<Longrightarrow>
     PointerCount h > 0 \<and> PointerCount h \<noteq> - 1"
  by (auto dest!: ps_demo_header_cases simp: ps_demo_lists_def ps_header_def type_header_def)

end
