(* ===== verification/PsSpec.thy ===== *)
theory PsSpec
  imports PsChange PsDemo
begin

text \<open>
  The properties of the process manager: processes are found by their PID, a new process
  gets the least free PID, the query functions leave no trace, and a change of priority
  moves a ready process to its new queue.
\<close>

section \<open>Queries through a handle\<close>

text \<open>The four query functions differ in one field and one line number.\<close>

definition ps_query :: "nat \<Rightarrow> (PROCESS \<Rightarrow> 'a) \<Rightarrow> u32 \<Rightarrow> (u32 \<times> 'a option) kern" where
  "ps_query line field hnd =
     kbind (kget processType) (\<lambda>T.
     kbind (ObReferenceObjectByHandle hnd T) (\<lambda>(status, process).
     if status \<noteq> 0 then kreturn (status, None) else
     kbind (getP process) (\<lambda>p.
     kthen (kassert ''ps.c'' line (process \<noteq> 0))
     (kthen (ObDereferenceObject process)
     (kreturn (STATUS_SUCCESS, Some (field p)))))))"

lemma ps_query_instances:
  "PsGetExitStatus = ps_query 424 ExitStatus" "PsGetPriority = ps_query 443 Priority"
  "PsGetState = ps_query 462 State" "PsGetPid = ps_query 480 PID"
  by (simp_all add: fun_eq_iff ps_query_def PsGetExitStatus_def PsGetPriority_def PsGetState_def PsGetPid_def)

text \<open>The object open in a slot of the current process, when it is a process.\<close>

definition open_process :: "kstate \<Rightarrow> PROCESS \<Rightarrow> u32 \<Rightarrow> bool" where
  "open_process s cur hnd \<longleftrightarrow> unat hnd < MAX_HANDLE_COUNT \<and> HtObject (HandleTable cur (unat hnd)) \<noteq> 0
     \<and> (\<exists>h. headers s (OBJECT_BODY_TO_HEADER (HtObject (HandleTable cur (unat hnd)))) = Some h
          \<and> ObjType h = processType s)"

lemma ps_query_correct:
  assumes inv: "ob_inv s Os" and cur: "KeCurrentProcess s \<noteq> 0" "procs s (KeCurrentProcess s) = Some c"
    and T: "processType s \<noteq> 0"
    and op: "open_process s c hnd \<Longrightarrow> procs s (HtObject (HandleTable c (unat hnd))) = Some p"
    and room: "\<And>h. headers s (OBJECT_BODY_TO_HEADER (HtObject (HandleTable c (unat hnd)))) = Some h
       \<Longrightarrow> PointerCount h \<noteq> - 1"
  shows "returns (ps_query line field hnd) s (\<lambda>(status, result) t.
     (if open_process s c hnd then status = STATUS_SUCCESS \<and> result = Some (field p)
      else status \<noteq> STATUS_SUCCESS \<and> result = None \<and> t = s)
     \<and> ob_inv t Os \<and> ob_frame s t \<and> (\<forall>y. links_header (headers t y) = links_header (headers s y)))"
proof -
  let ?obj = "HtObject (HandleTable c (unat hnd))"
  let ?x = "OBJECT_BODY_TO_HEADER ?obj"
  let ?valid = "unat hnd < MAX_HANDLE_COUNT \<and> ?obj \<noteq> 0"
  obtain h where h: "?valid \<longrightarrow> headers s ?x = Some h \<and> header_ok s Os ?x h \<and> HandleCount h > 0"
    using ob_inv_slot [OF inv cur(2), of "unat hnd"] by metis
  have res: "ObReferenceObjectByHandle hnd (processType s) s = Some
     (if MAX_HANDLE_COUNT \<le> unat hnd \<or> ?obj = 0 then Return (STATUS_INVALID_HANDLE, 0) s
      else if processType s \<noteq> 0 \<and> ObjType h \<noteq> processType s then Return (STATUS_OBJECT_TYPE_MISMATCH, 0) s
      else Return (STATUS_SUCCESS, ?obj) (referenced s ?x h))"
    by (rule ObReferenceObjectByHandle_result [OF cur]) (use h in \<open>auto simp: header_ok_def\<close>)
  have st: "STATUS_INVALID_HANDLE \<noteq> 0" "STATUS_OBJECT_TYPE_MISMATCH \<noteq> 0" "STATUS_SUCCESS = 0"
    by (simp_all add: STATUS_INVALID_HANDLE_def STATUS_OBJECT_TYPE_MISMATCH_def STATUS_SUCCESS_def)
  show ?thesis
  proof (cases "open_process s c hnd")
    case False
    then have "\<not> ?valid \<or> ObjType h \<noteq> processType s" using h by (auto simp: open_process_def)
    then have "\<exists>e. e \<noteq> 0 \<and> ObReferenceObjectByHandle hnd (processType s) s = Some (Return (e, 0) s)"
      using res st T by (auto simp: not_less)
    then obtain e where "e \<noteq> 0" "ObReferenceObjectByHandle hnd (processType s) s = Some (Return (e, 0) s)"
      by blast
    then have "ps_query line field hnd s = Some (Return (e, None) s)" by (simp add: ps_query_def run)
    then show ?thesis using False inv \<open>e \<noteq> 0\<close> by (simp add: returns_def st)
  next
    case True
    then have v: "?valid" "ObjType h = processType s" using h by (auto simp: open_process_def)
    have hx: "headers s ?x = Some h" "PointerCount h > 0"
      using h v(1) by (auto simp: header_ok_def intro: less_le_trans)
    have r: "ObReferenceObjectByHandle hnd (processType s) s =
        Some (Return (STATUS_SUCCESS, ?obj) (referenced s ?x h))" using res v by simp
    have p: "procs (referenced s ?x h) ?obj = Some p" using op [OF True] by (simp add: referenced_def)
    have "ps_query line field hnd s = kthen (ObDereferenceObject ?obj)
        (kreturn (STATUS_SUCCESS, Some (field p))) (referenced s ?x h)"
      using r p v by (simp add: ps_query_def run st)
    moreover have "returns (ObDereferenceObject ?obj) (referenced s ?x h) (\<lambda>_ u. ob_inv u Os
       \<and> ob_frame s u \<and> (\<forall>y. links_header (headers u y) = links_header (headers s y)))"
      using reference_dereference [OF inv hx room [OF hx(1)]] by simp
    ultimately show ?thesis
      using True by (simp add: returns_eq [where m = "ps_query line field hnd"] returns_kthen returns_kreturn)
  qed
qed

section \<open>Properties\<close>

text \<open>looking a process up by its PID gives the first process in the list with that PID and
  one more reference on it, or fails with the right status and no change when there is none;
  the object manager's counts stay exact.\<close>

theorem PsReferenceProcess_correct:
  assumes "ob_inv s Os" and "proc_list s (Os (processType s))"
    and "\<And>x h. x \<in> set (Os (processType s)) \<Longrightarrow> headers s x = Some h \<Longrightarrow>
      PointerCount h > 0 \<and> PointerCount h \<noteq> - 1"
  shows "returns (PsReferenceProcess pid) s (\<lambda>(status, obj) t. ob_inv t Os \<and>
     (case process_with s (Os (processType s)) pid of
        None \<Rightarrow> status = STATUS_NO_SUCH_PROCESS \<and> obj = 0 \<and> t = s
      | Some x \<Rightarrow> status = STATUS_SUCCESS \<and> obj = x + BODY_OFFSET
          \<and> (\<exists>p. procs s obj = Some p \<and> PID p = pid)
          \<and> t = referenced s x (the (headers s x))))"
proof (cases "process_with s (Os (processType s)) pid")
  case None
  then show ?thesis
    using PsReferenceProcess_result [OF assms(2), of pid] assms(1) by (simp add: returns_def)
next
  case (Some x)
  note x = process_with_Some [OF Some]
  obtain h p where h: "headers s x = Some h" "procs s (x + BODY_OFFSET) = Some p" "pid_of s x = PID p"
    using proc_listD [OF assms(2) x(1)] by metis
  have "ob_inv (referenced s x h) Os" using ob_inv_referenced [OF assms(1) h(1)] assms(3) [OF x(1) h(1)] by simp
  then show ?thesis
    using PsReferenceProcess_result [OF assms(2), of pid] Some x h by (simp add: returns_def)
qed

theorem PsReferenceProcess_correct_witness:
  "returns (PsReferenceProcess 3) ps_demo (\<lambda>(status, obj) t. status = STATUS_SUCCESS \<and> obj = 0x3000
     \<and> ob_inv t ps_demo_lists)"
proof -
  have p: "process_with ps_demo (ps_demo_lists (processType ps_demo)) 3 = Some 0x2FE0"
    by (simp add: process_with_def pid_of_def ps_demo_lists_def BODY_OFFSET_def set_slot_def demo_process_def)
  have "proc_list ps_demo (ps_demo_lists (processType ps_demo))" using ps_demo_proc_list by simp
  from PsReferenceProcess_correct [OF ps_demo_ob_inv this ps_demo_counts, where pid = 3] show ?thesis
    unfolding p by (rule returns_mono) (auto simp: BODY_OFFSET_def)
qed

text \<open>C25: a new process gets the least PID from 1 on that no process has; the search ends.\<close>

theorem GetNewPID_least:
  assumes "proc_list s xs" and "length xs < 2 ^ 32 - 1"
  shows "returns GetNewPID s (\<lambda>pid t. t = s \<and> pid > 0 \<and> pid \<notin> pid_of s ` set xs
     \<and> (\<forall>w. 0 < w \<and> w < pid \<longrightarrow> w \<in> pid_of s ` set xs))"
  by (rule GetNewPID_result [OF assms])

theorem GetNewPID_least_witness: "returns GetNewPID ps_demo (\<lambda>pid t. t = ps_demo \<and> pid = 5)"
proof -
  have u: "pid_of ps_demo ` set (ps_demo_lists 0x100) = {1, 2, 3, 4}"
    by (simp add: pid_of_def ps_demo_lists_def BODY_OFFSET_def set_slot_def demo_process_def)
  have five: "pid = 5" if "pid > 0" "pid \<notin> {1, 2, 3, 4}" "\<forall>w. 0 < w \<and> w < pid \<longrightarrow> w \<in> {1, 2, 3, 4 :: u32}" for pid
  proof -
    have "\<not> 5 < pid" using that(3) [THEN spec, of 5] by auto
    then have "unat pid \<le> 5" by (simp add: word_less_nat_alt)
    then have "unat pid = 0 \<or> unat pid = 1 \<or> unat pid = 2 \<or> unat pid = 3 \<or> unat pid = 4 \<or> unat pid = 5"
      by linarith
    then have "pid = 0 \<or> pid = 1 \<or> pid = 2 \<or> pid = 3 \<or> pid = 4 \<or> pid = 5"
      by (simp add: unat_arith_simps)
    then show ?thesis using that(1,2) by auto
  qed
  have "length (ps_demo_lists 0x100) < 2 ^ 32 - 1" by (simp add: ps_demo_lists_def)
  from GetNewPID_least [OF ps_demo_proc_list this] show ?thesis
    unfolding u by (rule returns_mono) (use five in blast)
qed

definition answers ::
  "kstate \<Rightarrow> PROCESS \<Rightarrow> u32 \<Rightarrow> (addr \<Rightarrow> addr list) \<Rightarrow> 'a \<Rightarrow> u32 \<times> 'a option \<Rightarrow> kstate \<Rightarrow> bool" where
  "answers s c hnd Os v r t \<longleftrightarrow> (fst r = STATUS_SUCCESS \<longleftrightarrow> open_process s c hnd)
     \<and> snd r = (if open_process s c hnd then Some v else None)
     \<and> ob_inv t Os \<and> ob_frame s t \<and> (\<forall>y. links_header (headers t y) = links_header (headers s y))"

text \<open>the four query functions answer with the field of the process that is open in the
  given slot, or with an error status when none is; no object count is changed for good.\<close>

theorem PsGet_queries:
  assumes "ob_inv s Os" and "KeCurrentProcess s \<noteq> 0" and "procs s (KeCurrentProcess s) = Some c"
    and "processType s \<noteq> 0"
    and "open_process s c hnd \<Longrightarrow> procs s (HtObject (HandleTable c (unat hnd))) = Some p"
    and "\<And>h. headers s (OBJECT_BODY_TO_HEADER (HtObject (HandleTable c (unat hnd)))) = Some h
       \<Longrightarrow> PointerCount h \<noteq> - 1"
  shows "returns (PsGetExitStatus hnd) s (answers s c hnd Os (ExitStatus p))
    \<and> returns (PsGetPriority hnd) s (answers s c hnd Os (Priority p))
    \<and> returns (PsGetState hnd) s (answers s c hnd Os (State p))
    \<and> returns (PsGetPid hnd) s (answers s c hnd Os (PID p))"
  unfolding ps_query_instances
  by (intro conjI; rule returns_mono [OF ps_query_correct [OF assms]])
     (simp_all add: answers_def case_prod_unfold split: if_splits)

theorem PsGet_queries_witness:
  "returns (PsGetPriority 0) ps_demo (\<lambda>(status, result) t. status = STATUS_SUCCESS \<and> result = Some 7)"
proof -
  let ?c = "set_slot 0 \<lparr>HtAttributes = 0, HtObject = 0x3000\<rparr> (demo_process 1 running 3)"
  let ?p = "demo_process 3 blocked 7"
  have o: "HtObject (HandleTable ?c 0) = 0x3000" by (simp add: set_slot_def)
  have x: "OBJECT_BODY_TO_HEADER 0x3000 = 0x2FE0" by (simp add: OBJECT_BODY_TO_HEADER_def BODY_OFFSET_def)
  have op: "open_process ps_demo ?c 0" by (simp add: open_process_def o x MAX_HANDLE_COUNT_def ps_header_def)
  have "returns (PsGetExitStatus 0) ps_demo (answers ps_demo ?c 0 ps_demo_lists (ExitStatus ?p))
    \<and> returns (PsGetPriority 0) ps_demo (answers ps_demo ?c 0 ps_demo_lists (Priority ?p))
    \<and> returns (PsGetState 0) ps_demo (answers ps_demo ?c 0 ps_demo_lists (State ?p))
    \<and> returns (PsGetPid 0) ps_demo (answers ps_demo ?c 0 ps_demo_lists (PID ?p))"
    by (rule PsGet_queries [OF ps_demo_ob_inv]) (simp_all add: o x ps_header_def)
  then have "returns (PsGetPriority 0) ps_demo (answers ps_demo ?c 0 ps_demo_lists (Priority ?p))" by simp
  then show ?thesis by (rule returns_mono) (simp add: answers_def op case_prod_unfold)
qed

lemma PsChangePriority_result:
  assumes "proc_list s (Os (processType s))"
  shows "pid = 0 \<or> n > 31 \<Longrightarrow> PsChangePriority pid n s = Some (Return STATUS_INVALID_PARAMETER s)"
    and "pid \<noteq> 0 \<Longrightarrow> \<not> n > 31 \<Longrightarrow> process_with s (Os (processType s)) pid = None
      \<Longrightarrow> PsChangePriority pid n s = Some (Return STATUS_NO_SUCH_PROCESS s)"
    and "pid \<noteq> 0 \<Longrightarrow> \<not> n > 31 \<Longrightarrow> process_with s (Os (processType s)) pid = Some x
      \<Longrightarrow> headers s x = Some h \<Longrightarrow> x + BODY_OFFSET \<noteq> 0
      \<Longrightarrow> PsChangePriority pid n s
        = kthen (KeChangeProcessPriority (x + BODY_OFFSET) n) (kreturn STATUS_SUCCESS) (referenced s x h)"
proof -
  have one: "pid < 1 \<longleftrightarrow> pid = 0" by (simp add: word_less_nat_alt unat_eq_zero)
  have st: "STATUS_NO_SUCH_PROCESS \<noteq> 0" "STATUS_SUCCESS = 0"
    by (simp_all add: STATUS_NO_SUCH_PROCESS_def STATUS_SUCCESS_def)
  note rules = PsReferenceProcess_result [OF assms, of pid] PsChangePriority_def run one st
  show "pid = 0 \<or> n > 31 \<Longrightarrow> PsChangePriority pid n s = Some (Return STATUS_INVALID_PARAMETER s)"
    by (auto simp: PsChangePriority_def run one)
  show "pid \<noteq> 0 \<Longrightarrow> \<not> n > 31 \<Longrightarrow> process_with s (Os (processType s)) pid = None
      \<Longrightarrow> PsChangePriority pid n s = Some (Return STATUS_NO_SUCH_PROCESS s)"
    by (simp add: rules)
  show "pid \<noteq> 0 \<Longrightarrow> \<not> n > 31 \<Longrightarrow> process_with s (Os (processType s)) pid = Some x
      \<Longrightarrow> headers s x = Some h \<Longrightarrow> x + BODY_OFFSET \<noteq> 0
      \<Longrightarrow> PsChangePriority pid n s
        = kthen (KeChangeProcessPriority (x + BODY_OFFSET) n) (kreturn STATUS_SUCCESS) (referenced s x h)"
    by (simp add: rules)
qed

text \<open>What the scheduler does to the process that the object manager referenced.\<close>

lemma change_referenced:
  assumes "sched_good s L" and "ob_inv s Os" and h: "headers s x = Some h" "PointerCount h > 0" "PointerCount h \<noteq> - 1"
    and p: "x + BODY_OFFSET \<noteq> 0" "procs s (x + BODY_OFFSET) = Some p"
    and sch: "scheduled L (x + BODY_OFFSET) p" "unat (Priority p) < PROCESS_PRIORITY_LEVELS"
    and n: "unat n < PROCESS_PRIORITY_LEVELS"
  shows "returns (KeChangeProcessPriority (x + BODY_OFFSET) n) (referenced s x h) (\<lambda>_ t.
     ob_inv t Os \<and> KeCurrentProcess t = KeCurrentProcess s
     \<and> headers t = (headers s)(x \<mapsto> h\<lparr>PointerCount := PointerCount h + 1\<rparr>)
     \<and> (\<exists>p'. procs t (x + BODY_OFFSET) = Some p' \<and> Priority p' = n)
     \<and> sched_good t (if State p = ready then abs_change (x + BODY_OFFSET) (unat (Priority p)) (unat n) L else L))"
proof -
  let ?s = "referenced s x h" and ?obj = "x + BODY_OFFSET"
  have good: "sched_good ?s L" by (rule sched_good_ob_frame [OF _ assms(1)]) (simp add: referenced_def)
  have inv: "ob_inv ?s Os" using ob_inv_referenced [OF assms(2) h(1)] h(2,3) by simp
  have p': "procs ?s ?obj = Some p" by (simp add: referenced_def p)
  let ?u = "?s\<lparr>procs := (procs ?s)(?obj \<mapsto> p\<lparr>Priority := n\<rparr>)\<rparr>"
  have inv': "ob_inv ?u Os" by (rule ob_inv_same [OF _ _ _ _ inv]) (simp_all add: handles_same_upd p')
  show ?thesis
  proof (rule returns_mono [OF KeChangeProcessPriority_lists [OF good p(1) p' sch(1) n sch(2)]], elim conjE)
    fix t
    assume t: "sched_good t (if State p = ready then abs_change ?obj (unat (Priority p)) (unat n) L else L)"
      "KeCurrentProcess t = KeCurrentProcess ?s" "ke_frame ?u t"
    have "procs ?u ?obj = Some (p\<lparr>Priority := n\<rparr>)" by simp
    then obtain q where q: "procs t ?obj = Some q" "outer q = outer (p\<lparr>Priority := n\<rparr>)"
      using outer_onlyD [OF ke_frame_outer [OF t(3)]] by blast
    have "Priority q = n" using outer_fields(1) [OF q(2)] by simp
    then show "ob_inv t Os \<and> KeCurrentProcess t = KeCurrentProcess s
      \<and> headers t = (headers s)(x \<mapsto> h\<lparr>PointerCount := PointerCount h + 1\<rparr>)
      \<and> (\<exists>p'. procs t ?obj = Some p' \<and> Priority p' = n)
      \<and> sched_good t (if State p = ready then abs_change ?obj (unat (Priority p)) (unat n) L else L)"
      using t q ob_inv_ke_frame [OF t(3) inv'] ke_frame_headers [OF t(3)] by (simp add: referenced_def)
  qed
qed

text \<open>C24: changing a priority: a PID of 0 or a priority above 31 is refused, an unknown PID
  reported; otherwise the process has the new priority, a ready process waits at the end of
  the ready queue of that priority, running and sleeping ones stay where they are, and the
  scheduler's and the object manager's data stay consistent.  The reference taken to find
  the process is not dropped again: its count stays one higher.\<close>

theorem PsChangePriority_correct:
  assumes "sched_good s L" and "ob_inv s Os" and "proc_list s (Os (processType s))"
    and "\<And>x h. x \<in> set (Os (processType s)) \<Longrightarrow> headers s x = Some h \<Longrightarrow>
      PointerCount h > 0 \<and> PointerCount h \<noteq> - 1"
    and "\<And>x p. x \<in> set (Os (processType s)) \<Longrightarrow> procs s (x + BODY_OFFSET) = Some p \<Longrightarrow>
      scheduled L (x + BODY_OFFSET) p \<and> unat (Priority p) < PROCESS_PRIORITY_LEVELS"
  shows "returns (PsChangePriority pid n) s (\<lambda>status t. ob_inv t Os \<and>
     (if pid = 0 \<or> n > 31 then status = STATUS_INVALID_PARAMETER \<and> t = s
      else case process_with s (Os (processType s)) pid of
        None \<Rightarrow> status = STATUS_NO_SUCH_PROCESS \<and> t = s
      | Some x \<Rightarrow> status = STATUS_SUCCESS \<and> KeCurrentProcess t = KeCurrentProcess s
          \<and> headers t = (headers s)(x \<mapsto> (the (headers s x))\<lparr>PointerCount := PointerCount (the (headers s x)) + 1\<rparr>)
          \<and> (\<exists>p p'. procs s (x + BODY_OFFSET) = Some p \<and> procs t (x + BODY_OFFSET) = Some p' \<and> Priority p' = n
               \<and> sched_good t (if State p = ready
                   then abs_change (x + BODY_OFFSET) (unat (Priority p)) (unat n) L else L))))"
proof -
  note res = PsChangePriority_result [of s Os pid n, OF assms(3)]
  consider "pid = 0 \<or> n > 31" | "pid \<noteq> 0" "\<not> n > 31" "process_with s (Os (processType s)) pid = None"
    | x where "pid \<noteq> 0" "\<not> n > 31" "process_with s (Os (processType s)) pid = Some x"
    by (cases "process_with s (Os (processType s)) pid") auto
  then show ?thesis
  proof cases
    case 1
    with res(1) [OF 1] show ?thesis using assms(2) by (simp add: returns_def)
  next
    case 2
    with res(2) [OF 2] show ?thesis using assms(2) by (simp add: returns_def)
  next
    case (3 x)
    note x = process_with_Some [OF 3(3)]
    obtain h p where h: "x + BODY_OFFSET \<noteq> 0" "headers s x = Some h" "procs s (x + BODY_OFFSET) = Some p"
      using proc_listD [OF assms(3) x(1)] by metis
    have n: "unat n < PROCESS_PRIORITY_LEVELS"
      using 3(2) by (simp add: PROCESS_PRIORITY_LEVELS_def word_less_nat_alt)
    have C: "returns (KeChangeProcessPriority (x + BODY_OFFSET) n) (referenced s x h) (\<lambda>_ t.
       ob_inv t Os \<and> KeCurrentProcess t = KeCurrentProcess s
       \<and> headers t = (headers s)(x \<mapsto> h\<lparr>PointerCount := PointerCount h + 1\<rparr>)
       \<and> (\<exists>p'. procs t (x + BODY_OFFSET) = Some p' \<and> Priority p' = n)
       \<and> sched_good t (if State p = ready then abs_change (x + BODY_OFFSET) (unat (Priority p)) (unat n) L else L))"
      using assms(4) [OF x(1) h(2)] assms(5) [OF x(1) h(3)] h n
      by (intro change_referenced [OF assms(1,2)]) auto
    have E: "returns (PsChangePriority pid n) s Q
        = returns (kthen (KeChangeProcessPriority (x + BODY_OFFSET) n) (kreturn STATUS_SUCCESS)) (referenced s x h) Q" for Q
      by (rule returns_eq) (rule res(3) [OF 3 h(2,1)])
    show ?thesis
      unfolding E returns_kthen returns_kreturn
      by (rule returns_mono [OF C]) (use 3 h in auto)
  qed
qed

lemma ps_demo_scheduled:
  "x \<in> set (ps_demo_lists (processType ps_demo)) \<Longrightarrow> procs ps_demo (x + BODY_OFFSET) = Some p \<Longrightarrow>
     scheduled sched_demo_lists (x + BODY_OFFSET) p \<and> unat (Priority p) < PROCESS_PRIORITY_LEVELS"
  by (auto simp: ps_demo_lists_def BODY_OFFSET_def scheduled_def sched_demo_lists_def
      PROCESS_PRIORITY_LEVELS_def set_slot_def)

theorem PsChangePriority_correct_witness:
  "returns (PsChangePriority 2 9) ps_demo (\<lambda>status t. status = STATUS_SUCCESS
     \<and> (\<exists>p'. procs t 0x2000 = Some p' \<and> Priority p' = 9)
     \<and> sched_good t (abs_change 0x2000 1 9 sched_demo_lists))"
proof -
  have p: "process_with ps_demo (ps_demo_lists (processType ps_demo)) 2 = Some 0x1FE0"
    by (simp add: process_with_def pid_of_def ps_demo_lists_def BODY_OFFSET_def set_slot_def demo_process_def)
  have x: "0x1FE0 + BODY_OFFSET = 0x2000" by (simp add: BODY_OFFSET_def)
  have "proc_list ps_demo (ps_demo_lists (processType ps_demo))" using ps_demo_proc_list by simp
  from PsChangePriority_correct [OF ps_demo_good ps_demo_ob_inv this ps_demo_counts ps_demo_scheduled,
      where pid = 2 and n = 9]
  show ?thesis unfolding p by (rule returns_mono) (auto simp: x)
qed

end
