(* ===== verification/MessSend.thy ===== *)
theory MessSend
  imports KernelInv Mess RtlMem
begin

text \<open>
  Sending a message: what \<^verbatim>\<open>MessSendMessage\<close> does with the queue of waiting processes and
  with the receiver's message queue.
\<close>

lemma kthen_cong: "m s = m' s \<Longrightarrow> kthen m n s = kthen m' n s"
  by (simp add: kthen_def kbind_def)

section \<open>The waiting processes\<close>

definition nextNode :: "kstate \<Rightarrow> addr \<Rightarrow> addr option" where
  "nextNode s a = map_option mnNext (mnodes s a)"

lemma nextNode_Some: "nextNode s a = Some r \<longleftrightarrow> (\<exists>n. mnodes s a = Some n \<and> mnNext n = r)"
  by (auto simp: nextNode_def)

text \<open>The queue of waiting processes as a list of nodes.\<close>

definition waiting_nodes :: "kstate \<Rightarrow> addr list \<Rightarrow> bool" where
  "waiting_nodes s ws \<longleftrightarrow> (\<exists>q. processQueue s = Some q \<and> chain (nextNode s) (mqFirst q) ws)"

text \<open>Every node for a PID belongs to the process with that PID.\<close>

definition nodes_of :: "kstate \<Rightarrow> u32 \<Rightarrow> addr \<Rightarrow> bool" where
  "nodes_of s pid p \<longleftrightarrow> (\<forall>a n. mnodes s a = Some n \<and> mnPid n = pid \<longrightarrow> mnProcess n = p)"

definition takes :: "kstate \<Rightarrow> u32 \<Rightarrow> u32 \<Rightarrow> addr \<Rightarrow> bool" where
  "takes s pid type a \<longleftrightarrow> (\<exists>n. mnodes s a = Some n \<and> mnPid n = pid
     \<and> (mnType n = MESSAGE_TYPE_FIRST \<or> mnType n = type))"

lemma nodes_of_same: "nodes_same (mnodes s) (mnodes t) \<Longrightarrow> nodes_of s pid p \<Longrightarrow> nodes_of t pid p"
  unfolding nodes_of_def
proof (intro allI impI)
  fix a m
  assume ns: "nodes_same (mnodes s) (mnodes t)" and m: "mnodes t a = Some m \<and> mnPid m = pid"
    and no: "\<forall>a n. mnodes s a = Some n \<and> mnPid n = pid \<longrightarrow> mnProcess n = p"
  have "nodes_same (mnodes t) (mnodes s)" using ns by (simp add: nodes_same_def)
  from nodes_sameD [OF this, of a m] m no show "mnProcess m = p" by auto
qed

lemma nodes_same_dom: "nodes_same N M \<Longrightarrow> dom M = dom N"
proof -
  assume ns: "nodes_same N M"
  have "M a = None \<longleftrightarrow> N a = None" for a
    using ns [unfolded nodes_same_def, THEN spec, of a] by (cases "M a"; cases "N a") simp_all
  then show ?thesis by (auto simp: dom_def)
qed

lemma node_next:
  assumes "mq_inv s" and "mnodes s a = Some n"
  shows "a \<noteq> 0" and "mnNext n = 0 \<or> a < mnNext n \<and> mnNext n \<in> dom (mnodes s)"
  using assms by (auto simp: mq_inv_def nodes_ordered_def)

definition walk_ok :: "kstate \<Rightarrow> addr \<times> addr \<Rightarrow> bool" where
  "walk_ok s = (\<lambda>(it, prv). it = 0 \<or> it \<in> dom (mnodes s) \<and> prv \<in> dom (mnodes s) \<and> prv \<le> it)"

lemma walk_ok_next: "mq_inv s \<Longrightarrow> mnodes s it = Some n \<Longrightarrow> walk_ok s (mnNext n, it)"
  using node_next [of s it n] by (auto simp: walk_ok_def)

definition walk_measure :: "addr \<times> addr \<Rightarrow> nat" where
  "walk_measure x = (if fst x = 0 then 0 else 2 ^ 32 - unat (fst x))"

lemma walk_measure_next:
  assumes "mq_inv s" and "mnodes s it = Some n"
  shows "walk_measure (mnNext n, it) < walk_measure (it, prv)"
  using node_next [OF assms] unsigned_less [of it, where ?'a = nat] unsigned_less [of "mnNext n", where ?'a = nat]
  by (auto simp: walk_measure_def word_less_nat_alt)

text \<open>A receiver that is not asleep: its stale nodes are removed, nothing else happens.\<close>

definition cleaned :: "kstate \<Rightarrow> kstate \<Rightarrow> bool" where
  "cleaned s t \<longleftrightarrow> mq_frame s t \<and> mq_inv t"

lemma send_waiter_awake_step:
  assumes mq: "mq_inv s" and it: "mnodes s it = Some n" and w: "walk_ok s (it, prv)"
    and no: "nodes_of s pid p" and p: "p \<noteq> 0" "procs s p = Some pr" "State pr \<noteq> blocked"
  shows "returns (send_waiter_step pid p m (it, prv)) s (\<lambda>r t. cleaned s t
     \<and> (\<exists>n'. mnodes t it = Some n' \<and> r = Inl (mnNext n', it)))"
proof -
  have nz: "it \<noteq> 0" using node_next [OF mq it] by simp
  show ?thesis
  proof (cases "mnPid n = pid")
    case True
    then have np: "mnProcess n = p" using no it by (simp add: nodes_of_def)
    obtain k where k: "mnodes s prv = Some k" "prv \<le> it" using w nz by (auto simp: walk_ok_def)
    have "returns (kbind (RemoveProcessFromQueue it prv) (\<lambda>_. kreturn ())) s
        (\<lambda>_ t. cleaned s t \<and> (\<exists>n'. mnodes t it = Some n'))"
      unfolding kern
    proof (rule returns_mono [OF RemoveProcessFromQueue_inv [OF mq it k]])
      fix r t
      assume "r = STATUS_SUCCESS \<and> mq_inv t \<and> mq_frame s t \<and> dom (mnodes t) = dom (mnodes s)"
      then show "cleaned s t \<and> (\<exists>n'. mnodes t it = Some n')" using it by (auto simp: cleaned_def)
    qed
    then show ?thesis
      using it nz True np p by (simp add: send_waiter_step_def kern) (erule returns_mono, auto simp: kern nz)
  next
    case False
    then show ?thesis using it nz mq by (simp add: send_waiter_step_def kern cleaned_def)
  qed
qed

lemma send_waiter_awake:
  assumes mq: "mq_inv s" and w: "walk_ok s x" and no: "nodes_of s pid p"
    and p: "p \<noteq> 0" "procs s p = Some pr" "State pr \<noteq> blocked"
  shows "returns (kloop (send_waiter_step pid p m) x) s (\<lambda>_ t. cleaned s t)"
proof (rule returns_kloop_rule [where I = "\<lambda>x t. cleaned s t \<and> walk_ok t x" and m = "\<lambda>x _. walk_measure x"])
  show "cleaned s s \<and> walk_ok s x" using mq w by (simp add: cleaned_def)
next
  fix y t
  assume I: "cleaned s t \<and> walk_ok t y"
  obtain it prv where y: "y = (it, prv)" by (cases y)
  show "returns (send_waiter_step pid p m y) t (\<lambda>r u. case r of
      Inl z \<Rightarrow> (cleaned s u \<and> walk_ok u z) \<and> walk_measure z < walk_measure y | Inr v \<Rightarrow> cleaned s u)"
  proof (cases "it = 0")
    case True
    then show ?thesis using I y by (simp add: send_waiter_step_def kern)
  next
    case False
    then obtain n where n: "mnodes t it = Some n" using I y by (auto simp: walk_ok_def)
    have t: "mq_frame s t" "mq_inv t" using I by (simp_all add: cleaned_def)
    have pt: "procs t p = Some pr" using t(1) p by (simp add: mq_frameD)
    have no': "nodes_of t pid p" using nodes_of_same [OF mq_frame_nodes [OF t(1)] no] .
    have w': "walk_ok t (it, prv)" using I y by simp
    show ?thesis
      unfolding y
    proof (rule returns_mono [OF send_waiter_awake_step [OF t(2) n w' no' p(1) pt p(3)]])
      fix r u
      assume u: "cleaned t u \<and> (\<exists>n'. mnodes u it = Some n' \<and> r = Inl (mnNext n', it))"
      then obtain n' where n': "mnodes u it = Some n'" "r = Inl (mnNext n', it)" by blast
      have mu: "mq_inv u" "cleaned s u"
        using u t mq_frame_trans by (auto simp: cleaned_def)
      show "case r of Inl z \<Rightarrow> (cleaned s u \<and> walk_ok u z) \<and> walk_measure z < walk_measure (it, prv)
          | Inr v \<Rightarrow> cleaned s u"
        using mu n' walk_ok_next [OF mu(1) n'(1)] walk_measure_next [OF mu(1) n'(1)] by simp
    qed
  qed
qed

text \<open>A receiver that is asleep: the first node that takes the message wakes it.\<close>

definition set_v0 :: "u32 \<Rightarrow> PROCESS \<Rightarrow> PROCESS" where
  "set_v0 v pr = pr\<lparr>Context := (Context pr)\<lparr>V0 := v\<rparr>\<rparr>"

lemma set_v0_sel [simp]:
  "NextPCB (set_v0 v pr) = NextPCB pr" "State (set_v0 v pr) = State pr" "Priority (set_v0 v pr) = Priority pr"
  "WakeUpTime (set_v0 v pr) = WakeUpTime pr" "Quantum (set_v0 v pr) = Quantum pr"
  "HandleTable (set_v0 v pr) = HandleTable pr" "PID (set_v0 v pr) = PID pr"
  "MessageQueue (set_v0 v pr) = MessageQueue pr" "V0 (Context (set_v0 v pr)) = v"
  by (simp_all add: set_v0_def)

definition delivered :: "kstate \<Rightarrow> (qid \<Rightarrow> addr list) \<Rightarrow> addr \<Rightarrow> PROCESS \<Rightarrow> addr \<Rightarrow> kstate \<Rightarrow> bool" where
  "delivered s L p pr m t \<longleftrightarrow> ke_frame (s\<lparr>procs := (procs s)(p \<mapsto> set_v0 m pr)\<rparr>) t
     \<and> (\<exists>L'. sched_good t L' \<and> (\<forall>q. sleeping L' q \<longleftrightarrow> sleeping L q \<and> q \<noteq> p))
     \<and> (\<exists>pr'. procs t p = Some pr' \<and> State pr' \<noteq> blocked)"

lemma sched_good_mq: "mq_frame s t \<Longrightarrow> mq_inv t \<Longrightarrow> sched_good s L \<Longrightarrow> sched_good t L"
  using sched_lists_mq [of s t L]
  by (simp add: sched_good_def sched_inv_def current_ok_def quantum_ok_def mq_frameD)

lemma delivered_cleaned:
  assumes d: "delivered s L p pr m t" and c: "cleaned t u"
  shows "delivered s L p pr m u"
proof -
  have f: "mq_frame t u" "mq_inv u" using c by (simp_all add: cleaned_def)
  have "ke_frame (s\<lparr>procs := (procs s)(p \<mapsto> set_v0 m pr)\<rparr>) u"
    using ke_frame_trans [OF _ mq_ke_frame [OF f(1)]] d by (simp add: delivered_def)
  moreover have "sched_good u L'" if "sched_good t L'" for L' using sched_good_mq [OF f that] .
  moreover have "procs u = procs t" using f(1) by (simp add: mq_frameD)
  ultimately show ?thesis using d unfolding delivered_def by auto
qed

lemma wake_receiver:
  assumes g: "sched_good s L" and sl: "sleeping L p" and p: "p \<noteq> 0" "procs s p = Some pr"
    and it: "mnodes s it = Some n" and prv: "mnodes s prv = Some k" "prv \<le> it"
  shows "returns (kthen (KeSetSyscallResult p m) (kthen (KeResumeProcess p)
      (kbind (RemoveProcessFromQueue it prv) (\<lambda>_. kreturn ())))) s
    (\<lambda>_ t. delivered s L p pr m t \<and> mq_inv t \<and> nodes_same (mnodes s) (mnodes t))"
proof -
  let ?s = "s\<lparr>procs := (procs s)(p \<mapsto> set_v0 m pr)\<rparr>"
  have g': "sched_good ?s L"
    by (rule sched_good_same [OF _ _ _ _ _ g])
       (use p in \<open>simp_all add: same_queues_def sched_same_upd sched_view_def\<close>)
  have p': "procs ?s p = Some (set_v0 m pr)" by simp
  have "returns (KeResumeProcess p) ?s (\<lambda>_ t. returns (kbind (RemoveProcessFromQueue it prv) (\<lambda>_. kreturn ())) t
      (\<lambda>_ u. delivered s L p pr m u \<and> mq_inv u \<and> nodes_same (mnodes s) (mnodes u)))"
  proof (rule returns_mono [OF KeResumeProcess_awake [OF g' sl p']])
    fix a :: unit and t
    assume t: "(\<exists>L'. sched_good t L' \<and> (\<forall>q. sleeping L' q \<longleftrightarrow> sleeping L q \<and> q \<noteq> p))
      \<and> ke_frame ?s t \<and> (\<exists>pr'. procs t p = Some pr' \<and> State pr' \<noteq> blocked)"
    then have d: "delivered s L p pr m t" by (simp add: delivered_def)
    have mq: "mq_inv t" using t by (auto simp: sched_good_def)
    have "nodes_same (mnodes ?s) (mnodes t)" using t ke_frame_nodes by blast
    then have ns: "nodes_same (mnodes s) (mnodes t)" by simp
    obtain n' k' where nk: "mnodes t it = Some n'" "mnodes t prv = Some k'"
      using nodes_sameD [OF ns it] nodes_sameD [OF ns prv(1)] by blast
    show "returns (kbind (RemoveProcessFromQueue it prv) (\<lambda>_. kreturn ())) t
      (\<lambda>_ u. delivered s L p pr m u \<and> mq_inv u \<and> nodes_same (mnodes s) (mnodes u))"
      unfolding returns_kbind returns_kreturn
    proof (rule returns_mono [OF RemoveProcessFromQueue_inv [OF mq nk prv(2)]])
      fix r u
      assume u: "r = STATUS_SUCCESS \<and> mq_inv u \<and> mq_frame t u \<and> dom (mnodes u) = dom (mnodes t)"
      then have "cleaned t u" by (simp add: cleaned_def)
      from delivered_cleaned [OF d this]
      show "delivered s L p pr m u \<and> mq_inv u \<and> nodes_same (mnodes s) (mnodes u)"
        using u nodes_same_trans [OF ns] mq_frame_nodes by blast
    qed
  qed
  then show ?thesis
    using p by (simp add: KeSetSyscallResult_def kern set_v0_def)
qed

text \<open>Once the receiver is awake the rest of the scan leaves it so.\<close>

lemma send_waiter_rest:
  assumes p: "p \<noteq> 0" and no: "nodes_of s pid p" and it: "it \<noteq> 0" "mnodes s it = Some n"
    and u: "delivered s L p pr m u" "mq_inv u" "nodes_same (mnodes s) (mnodes u)"
  shows "returns (kbind (getN it) (\<lambda>n. kreturn (Inl (mnNext n, it)))) u (\<lambda>r v. case r of
        Inl y \<Rightarrow> returns (kloop (send_waiter_step pid p m) y) v (\<lambda>_ t. delivered s L p pr m t)
      | Inr _ \<Rightarrow> delivered s L p pr m v)"
proof -
  obtain n' where n': "mnodes u it = Some n'" using nodes_sameD [OF u(3)] it(2) by blast
  obtain pu where pu: "procs u p = Some pu" "State pu \<noteq> blocked" using u(1) by (auto simp: delivered_def)
  have "returns (kloop (send_waiter_step pid p m) (mnNext n', it)) u (\<lambda>_ t. delivered s L p pr m t)"
    by (rule returns_mono [OF send_waiter_awake [OF u(2) walk_ok_next [OF u(2) n'] nodes_of_same [OF u(3) no] p pu]])
       (use u(1) delivered_cleaned in blast)
  then show ?thesis using n' it(1) by (simp add: kern)
qed

lemma send_waiter_blocked:
  assumes g: "sched_good s L" and sl: "sleeping L p" and p: "p \<noteq> 0" "procs s p = Some pr"
    and no: "nodes_of s pid p" and msg: "m \<noteq> 0" "messages s m = Some msg" "msgType msg = type"
    and w: "walk_ok s (it, prv)" and c: "chain (nextNode s) it ws"
  shows "returns (kloop (send_waiter_step pid p m) (it, prv)) s (\<lambda>_ t.
     if \<exists>w \<in> set ws. takes s pid type w then delivered s L p pr m t else t = s)"
  using w c
proof (induction ws arbitrary: it prv)
  case Nil
  then show ?case by (subst returns_kloop) (simp add: send_waiter_step_def kern)
next
  case (Cons w ws)
  have mq: "mq_inv s" using g by (simp add: sched_good_def)
  have wi: "w = it" and nz: "it \<noteq> 0" using Cons.prems(2) by simp_all
  obtain n where n: "mnodes s it = Some n" "chain (nextNode s) (mnNext n) ws"
    using Cons.prems(2) by (auto simp: nextNode_Some)
  have st: "State pr = blocked"
    using sleeping_member [of s L p] g sl p by (auto simp: sched_good_def sched_inv_def)
  show ?case
  proof (cases "takes s pid type it")
    case False
    then have "send_waiter_step pid p m (it, prv) s = Some (Return (Inl (mnNext n, it)) s)"
      using n nz no p st msg
      by (cases "mnPid n = pid") (auto simp: send_waiter_step_def run takes_def nodes_of_def)
    then have "returns (kloop (send_waiter_step pid p m) (it, prv)) s =
        returns (kloop (send_waiter_step pid p m) (mnNext n, it)) s"
      by (simp add: returns_kloop_next fun_eq_iff)
    then show ?thesis
      using Cons.IH [OF walk_ok_next [OF mq n(1)] n(2)] False wi by simp
  next
    case True
    then have t: "mnPid n = pid" "mnType n = MESSAGE_TYPE_FIRST \<or> mnType n = type"
      using n by (auto simp: takes_def)
    then have np: "mnProcess n = p" using no n by (simp add: nodes_of_def)
    obtain k where k: "mnodes s prv = Some k" "prv \<le> it" using Cons.prems(1) nz by (auto simp: walk_ok_def)
    have rest: "returns (kbind (getN it) (\<lambda>n. kreturn (Inl (mnNext n, it)))) u (\<lambda>r v. case r of
        Inl y \<Rightarrow> returns (kloop (send_waiter_step pid p m) y) v (\<lambda>_ t. delivered s L p pr m t)
      | Inr _ \<Rightarrow> delivered s L p pr m v)"
      if "delivered s L p pr m u \<and> mq_inv u \<and> nodes_same (mnodes s) (mnodes u)" for u
      using that by (intro send_waiter_rest [OF p(1) no nz n(1)]) simp_all
    let ?next = "kbind (getN it) (\<lambda>n. kreturn (Inl (mnNext n, it)))"
    have "send_waiter_step pid p m (it, prv) s = kthen (kthen (KeSetSyscallResult p m)
        (kthen (KeResumeProcess p) (kbind (RemoveProcessFromQueue it prv) (\<lambda>_. kreturn ())))) ?next s"
      using n nz t np p st msg by (auto simp: send_waiter_step_def run intro!: kthen_cong)
    moreover have "returns (kthen (kthen (KeSetSyscallResult p m)
        (kthen (KeResumeProcess p) (kbind (RemoveProcessFromQueue it prv) (\<lambda>_. kreturn ())))) ?next) s
      (\<lambda>r v. case r of
        Inl y \<Rightarrow> returns (kloop (send_waiter_step pid p m) y) v (\<lambda>_ t. delivered s L p pr m t)
      | Inr _ \<Rightarrow> delivered s L p pr m v)"
      by (subst returns_kthen) (rule returns_mono [OF wake_receiver [OF g sl p n(1) k] rest])
    ultimately have "returns (send_waiter_step pid p m (it, prv)) s (\<lambda>r v. case r of
        Inl y \<Rightarrow> returns (kloop (send_waiter_step pid p m) y) v (\<lambda>_ t. delivered s L p pr m t)
      | Inr _ \<Rightarrow> delivered s L p pr m v)"
      by (simp only: returns_def)
    moreover have "\<exists>w \<in> set (w # ws). takes s pid type w" using True wi by simp
    ultimately show ?thesis by (simp only: if_True) (subst returns_kloop)
  qed
qed

end
