(* ===== verification/MessDemo.thy ===== *)
theory MessDemo
  imports MessSend PsDemo
begin

text \<open>
  The state \<open>ps_demo\<close> with messages: the running process has three of them, of the types 1,
  2 and 3; process 4 sleeps waiting for any message; and there are two bytes to send.
\<close>

definition demo_message :: "u32 \<Rightarrow> addr \<Rightarrow> MESSAGE" where
  "demo_message type nx = \<lparr>senderPid = 2, receiverPid = 1, msgPriority = 1, msgType = type,
     msgBuffer = 0, bufferSize = 0, msgNext = nx\<rparr>"

definition demo_receiver :: PROCESS where
  "demo_receiver = (set_slot 0 \<lparr>HtAttributes = 0, HtObject = 0x3000\<rparr> (demo_process 1 running 3))
     \<lparr>MessageQueue := 0x8100\<rparr>"

definition mess_demo :: kstate where
  "mess_demo = ps_demo\<lparr>procs := (procs ps_demo)(0x1000 \<mapsto> demo_receiver),
     messages := [0x8100 \<mapsto> demo_message 1 0x8200, 0x8200 \<mapsto> demo_message 2 0x8300, 0x8300 \<mapsto> demo_message 3 0],
     mnodes := [0x700 \<mapsto> \<lparr>mnProcess = 0x4000, mnPid = 4, mnType = 0, mnNext = 0\<rparr>],
     processQueue := Some \<lparr>mqFirst = 0x700, mqLast = 0x700\<rparr>,
     mem := (\<lambda>_. 0)(0x8000 := 104, 0x8001 := 105)\<rparr>"

lemma mess_demo_sel [simp]:
  "KeCurrentProcess mess_demo = 0x1000" "processType mess_demo = 0x100"
  "freeMemPointer mess_demo = 0x9000" "headers mess_demo = headers ps_demo"
  "otypes mess_demo = otypes ps_demo" "foos mess_demo = foos ps_demo"
  "processQueue mess_demo = Some \<lparr>mqFirst = 0x700, mqLast = 0x700\<rparr>"
  "KepTickCount mess_demo = 95" "procs mess_demo = (procs ps_demo)(0x1000 \<mapsto> demo_receiver)"
  "mnodes mess_demo = [0x700 \<mapsto> \<lparr>mnProcess = 0x4000, mnPid = 4, mnType = 0, mnNext = 0\<rparr>]"
  "mem mess_demo = (\<lambda>_. 0)(0x8000 := 104, 0x8001 := 105)"
  by (simp_all add: mess_demo_def)

lemma mess_demo_good: "sched_good mess_demo sched_demo_lists"
proof -
  have g: "sched_inv ps_demo sched_demo_lists" "quantum_ok ps_demo"
    using ps_demo_good by (simp_all add: sched_good_def)
  have q: "same_queues ps_demo mess_demo" by (simp add: mess_demo_def same_queues_def)
  have P: "sched_same (procs ps_demo) (procs mess_demo)"
    by (simp add: sched_same_def demo_receiver_def sched_view_def set_slot_def)
  have "mq_inv mess_demo" by (simp add: mq_inv_def nodes_ordered_def queue_ends_def)
  then show ?thesis
    using sched_inv_same [OF q P g(1)] quantum_ok_same [OF q P g(2)] by (simp add: sched_good_def)
qed

lemma mess_demo_ob_inv: "ob_inv mess_demo ps_demo_lists"
  by (rule ob_inv_same [OF _ _ _ _ ps_demo_ob_inv])
     (simp_all add: handles_same_def demo_receiver_def)

lemma mess_demo_proc_list: "proc_list mess_demo (ps_demo_lists (processType mess_demo))"
proof -
  have "dom (procs mess_demo) = dom (procs ps_demo)" by (auto simp: dom_def)
  with proc_list_cong [OF ps_demo_proc_list, of mess_demo] show ?thesis by simp
qed

lemma mess_demo_chain: "chain (nextMessage mess_demo) 0x8100 [0x8100, 0x8200, 0x8300]"
  by (simp add: nextMessage_def mess_demo_def demo_message_def)

lemma mess_demo_room: "mm_room mess_demo 30" "mm_room mess_demo 16"
  by (simp_all add: mm_room_def)

end
