(* ===== verification/MessSpec.thy ===== *)
theory MessSpec
  imports MessDemo
begin

text \<open>
  The properties of message passing: a message sent is appended to the receiver's queue and
  wakes a receiver that waits for it; messages are received in the order they were sent.
\<close>

section \<open>The queue of messages\<close>

definition mess_queue :: "kstate \<Rightarrow> addr \<Rightarrow> addr list \<Rightarrow> bool" where
  "mess_queue s p ms \<longleftrightarrow> p \<noteq> 0 \<and> (\<exists>pr. procs s p = Some pr \<and> chain (nextMessage s) (MessageQueue pr) ms)"

lemma nextMessage_Some: "nextMessage s a = Some r \<longleftrightarrow> (\<exists>m. messages s a = Some m \<and> msgNext m = r)"
  by (auto simp: nextMessage_def)

lemma nextMessage_same: "messages t = messages s \<Longrightarrow> nextMessage t = nextMessage s"
  by (simp add: nextMessage_def fun_eq_iff)

lemma append_loop:
  assumes "chain (nextMessage s) mq (as @ [l])"
  shows "returns (kloop (append_message_step m) mq) s (\<lambda>_ t. t = linkMessage l m s)"
  using assms
proof (induction as arbitrary: mq)
  case Nil
  then have "mq = l" "l \<noteq> 0" "nextMessage s l = Some 0" by simp_all
  then obtain r where r: "messages s l = Some r" "msgNext r = 0" "mq = l" "l \<noteq> 0"
    unfolding nextMessage_Some by blast
  then have "append_message_step m mq s = Some (Return (Inr ()) (linkMessage l m s))"
    by (simp add: append_message_step_def run linkMessage_def)
  then show ?case by (simp only: returns_kloop_last)
next
  case (Cons a as)
  then have "mq = a" "a \<noteq> 0" and "\<exists>r. nextMessage s a = Some r \<and> chain (nextMessage s) r (as @ [l])" by simp_all
  then obtain r where r: "messages s a = Some r" "mq = a" "a \<noteq> 0" "chain (nextMessage s) (msgNext r) (as @ [l])"
    unfolding nextMessage_Some by blast
  have "msgNext r \<noteq> 0" using r(4) by (cases as) auto
  then have "append_message_step m mq s = Some (Return (Inl (msgNext r)) s)"
    using r by (simp add: append_message_step_def run)
  then show ?case using Cons.IH [OF r(4)] by (simp only: returns_kloop_next)
qed

text \<open>What appending changes: one PCB's queue pointer or one link.\<close>

definition appended :: "kstate \<Rightarrow> addr \<Rightarrow> addr list \<Rightarrow> addr \<Rightarrow> kstate" where
  "appended s p ms m = (if ms = []
     then s\<lparr>procs := (procs s)(p := map_option (\<lambda>pr. pr\<lparr>MessageQueue := m\<rparr>) (procs s p))\<rparr>
     else linkMessage (last ms) m s)"

lemma append_message_queue:
  assumes q: "mess_queue s p ms" and m: "m \<noteq> 0" "messages s m = Some msg" "msgNext msg = 0" "m \<notin> set ms"
  shows "returns (append_message p m) s (\<lambda>_ t. t = appended s p ms m)"
    and "mess_queue (appended s p ms m) p (ms @ [m])"
proof -
  obtain pr where p: "p \<noteq> 0" "procs s p = Some pr" and c: "chain (nextMessage s) (MessageQueue pr) ms"
    using q by (auto simp: mess_queue_def)
  show "returns (append_message p m) s (\<lambda>_ t. t = appended s p ms m)"
  proof (cases ms rule: rev_cases)
    case Nil
    then show ?thesis using p c by (simp add: append_message_def kern appended_def)
  next
    case (snoc as l)
    have ne: "MessageQueue pr \<noteq> 0" using c snoc by (cases as) auto
    have c': "chain (nextMessage s) (MessageQueue pr) (as @ [l])" using c snoc by simp
    show ?thesis
      using append_loop [OF c', of m] p ne snoc
      by (simp add: append_message_def returns_kbind returns_deref appended_def)
  qed
  show "mess_queue (appended s p ms m) p (ms @ [m])"
  proof (cases "ms = []")
    case True
    have "nextMessage (appended s p ms m) = nextMessage s" by (rule nextMessage_same) (simp add: appended_def True)
    then show ?thesis using True p m by (simp add: mess_queue_def appended_def nextMessage_Some)
  next
    case False
    have "chain (nextMessage (linkMessage (last ms) m s)) (MessageQueue pr) (ms @ [m])"
      by (rule message.link_append [OF c False _ m(1,4)]) (use m in \<open>simp add: nextMessage_Some\<close>)
    then show ?thesis using False p by (simp add: mess_queue_def appended_def) (simp add: linkMessage_def)
  qed
qed

lemma appended_same:
  "same_queues s (appended s p ms m)"
  "headers (appended s p ms m) = headers s" "otypes (appended s p ms m) = otypes s"
  "foos (appended s p ms m) = foos s" "mnodes (appended s p ms m) = mnodes s"
  "processQueue (appended s p ms m) = processQueue s"
  "freeMemPointer (appended s p ms m) = freeMemPointer s" "mem (appended s p ms m) = mem s"
  by (simp_all add: appended_def linkMessage_def same_queues_def)

lemma appended_procs:
  "sched_same (procs s) (procs (appended s p ms m))" "handles_same (procs s) (procs (appended s p ms m))"
  by (cases "procs s p"; simp add: appended_def linkMessage_def sched_same_def handles_same_def sched_view_def)+

section \<open>Notifying the receiver\<close>

definition notified :: "kstate \<Rightarrow> (qid \<Rightarrow> addr list) \<Rightarrow> addr \<Rightarrow> PROCESS \<Rightarrow> addr \<Rightarrow> bool \<Rightarrow> kstate \<Rightarrow> bool" where
  "notified s L p pr m B t \<longleftrightarrow>
     ke_frame (s\<lparr>procs := (procs s)(p \<mapsto> set_v0 (if B then m else V0 (Context pr)) pr)\<rparr>) t
   \<and> (\<exists>L'. sched_good t L' \<and> (if B then \<not> sleeping L' p else L' = L \<and> KeCurrentProcess t = KeCurrentProcess s))"

lemma set_v0_self [simp]: "set_v0 (V0 (Context pr)) pr = pr"
  by (simp add: set_v0_def)

lemma walk_ok_first: "mq_inv s \<Longrightarrow> processQueue s = Some q \<Longrightarrow> walk_ok s (mqFirst q, mqFirst q)"
  by (auto simp: mq_inv_def queue_ends_def walk_ok_def)

lemma notify_receiver:
  assumes g: "sched_good s L" and p: "p \<noteq> 0" "procs s p = Some pr"
    and sl: "State pr = blocked \<Longrightarrow> sleeping L p"
    and no: "nodes_of s pid p" and msg: "m \<noteq> 0" "messages s m = Some msg" "msgType msg = type"
    and q: "processQueue s = Some q" "chain (nextNode s) (mqFirst q) ws"
  shows "returns (kloop (send_waiter_step pid p m) (mqFirst q, mqFirst q)) s (\<lambda>_ t.
     notified s L p pr m (State pr = blocked \<and> (\<exists>w \<in> set ws. takes s pid type w)) t)"
proof -
  have mq: "mq_inv s" using g by (simp add: sched_good_def)
  note w = walk_ok_first [OF mq q(1)]
  have self: "(procs s)(p \<mapsto> pr) = procs s" using p(2) by auto
  show ?thesis
  proof (cases "State pr = blocked")
    case True
    show ?thesis
      by (rule returns_mono [OF send_waiter_blocked [OF g sl [OF True] p no msg w q(2)]])
         (use True g self in \<open>auto simp: notified_def delivered_def split: if_splits\<close>)
  next
    case False
    show ?thesis
    proof (rule returns_mono [OF send_waiter_awake [OF mq w no p False]])
      fix a :: unit and t
      assume "cleaned s t"
      then have t: "mq_frame s t" "mq_inv t" by (simp_all add: cleaned_def)
      show "notified s L p pr m (State pr = blocked \<and> (\<exists>w \<in> set ws. takes s pid type w)) t"
        using False self mq_ke_frame [OF t(1)] sched_good_mq [OF t g] mq_frameD [OF t(1)]
        by (auto simp: notified_def)
    qed
  qed
qed

lemma notified_facts:
  assumes n: "notified s L p pr m B t" and p: "procs s p = Some pr"
  shows "\<exists>pr'. procs t p = Some pr' \<and> MessageQueue pr' = MessageQueue pr
      \<and> V0 (Context pr') = (if B then m else V0 (Context pr))"
    and "messages t = messages s" "mem t = mem s" "headers t = headers s" "otypes t = otypes s"
    and "foos t = foos s" "handles_same (procs s) (procs t)"
proof -
  let ?pr = "set_v0 (if B then m else V0 (Context pr)) pr"
  let ?s = "s\<lparr>procs := (procs s)(p \<mapsto> ?pr)\<rparr>"
  have k: "ke_frame ?s t" using n by (simp add: notified_def)
  have "procs ?s p = Some ?pr" by simp
  then obtain pr' where pr': "procs t p = Some pr'" "outer pr' = outer ?pr"
    using outer_onlyD [OF ke_frame_outer [OF k]] by blast
  then show "\<exists>pr'. procs t p = Some pr' \<and> MessageQueue pr' = MessageQueue pr
      \<and> V0 (Context pr') = (if B then m else V0 (Context pr))"
    using outer_fields(4,6) [OF pr'(2)] by (intro exI [of _ pr']) simp
  show "messages t = messages s" "mem t = mem s" "headers t = headers s" "otypes t = otypes s" "foos t = foos s"
    using ke_frame_messages [OF k] ke_frame_mem [OF k] ke_frame_headers [OF k] ke_frame_otypes [OF k]
      ke_frame_foos [OF k] by simp_all
  have "handles_same (procs s) (procs ?s)" using p by (simp add: handles_same_upd)
  then show "handles_same (procs s) (procs t)"
    using outer_handles [OF ke_frame_outer [OF k]] by (simp add: handles_same_def)
qed

section \<open>Sending\<close>

definition message_record :: "u32 \<Rightarrow> u32 \<Rightarrow> u32 \<Rightarrow> addr \<Rightarrow> u32 \<Rightarrow> MESSAGE" where
  "message_record sender pid type m n = \<lparr>senderPid = sender, receiverPid = pid, msgPriority = 1,
     msgType = type, msgBuffer = m + sizeof_MESSAGE, bufferSize = n, msgNext = 0\<rparr>"

text \<open>The state with the new message written behind the free pointer.\<close>

definition with_message :: "kstate \<Rightarrow> u32 \<Rightarrow> u32 \<Rightarrow> u32 \<Rightarrow> u32 \<Rightarrow> byte list \<Rightarrow> kstate" where
  "with_message s sender pid type n bs = (let m = freeMemPointer s in
     s\<lparr>freeMemPointer := ALIGN_MEMORY (m + (sizeof_MESSAGE + n)),
       messages := (messages s)(m \<mapsto> message_record sender pid type m n),
       mem := poke (mem s) (m + sizeof_MESSAGE) bs\<rparr>)"

lemma with_message_fields:
  "messages (with_message s sender pid type n bs)
     = (messages s)(freeMemPointer s \<mapsto> message_record sender pid type (freeMemPointer s) n)"
  "procs (with_message s sender pid type n bs) = procs s"
  "headers (with_message s sender pid type n bs) = headers s"
  "otypes (with_message s sender pid type n bs) = otypes s"
  "foos (with_message s sender pid type n bs) = foos s"
  "mnodes (with_message s sender pid type n bs) = mnodes s"
  "processQueue (with_message s sender pid type n bs) = processQueue s"
  "processType (with_message s sender pid type n bs) = processType s"
  "KeCurrentProcess (with_message s sender pid type n bs) = KeCurrentProcess s"
  "mem (with_message s sender pid type n bs) = poke (mem s) (freeMemPointer s + sizeof_MESSAGE) bs"
  "freeMemPointer (with_message s sender pid type n bs) = ALIGN_MEMORY (freeMemPointer s + (sizeof_MESSAGE + n))"
  "same_queues s (with_message s sender pid type n bs)"
  by (simp_all add: with_message_def Let_def same_queues_def)

lemma new_message_result:
  assumes cur: "KeCurrentProcess s \<noteq> 0" "procs s (KeCurrentProcess s) = Some c"
    and buf: "bytes_at (mem s) buffer bs" "length bs = unat n"
    and room: "0 \<notin> span (freeMemPointer s + sizeof_MESSAGE) (length bs)"
    and sep: "span (freeMemPointer s + sizeof_MESSAGE) (length bs) \<inter> span buffer (length bs) = {}"
  shows "new_message (freeMemPointer s) pid type buffer n
      (s\<lparr>freeMemPointer := ALIGN_MEMORY (freeMemPointer s + (sizeof_MESSAGE + n))\<rparr>)
    = Some (Return () (with_message s (PID c) pid type n bs))"
  unfolding returns_exact
  using cur
  by (simp add: kern new_message_def message_record_def)
     (rule returns_mono [OF RtlCopyMemory_poke [OF buf room sep]],
      simp add: with_message_def Let_def message_record_def)

text \<open>Everything a caller of \<^verbatim>\<open>MessSendMessage\<close> and the kernel's invariants provide.\<close>

definition can_send :: "kstate \<Rightarrow> (qid \<Rightarrow> addr list) \<Rightarrow> (addr \<Rightarrow> addr list) \<Rightarrow> addr \<Rightarrow> u32 \<Rightarrow> byte list \<Rightarrow> bool" where
  "can_send s L Os buffer n bs \<longleftrightarrow> sched_good s L \<and> ob_inv s Os \<and> proc_list s (Os (processType s))
   \<and> mm_room s (sizeof_MESSAGE + n) \<and> freeMemPointer s \<noteq> 0 \<and> buffer \<noteq> 0
   \<and> bytes_at (mem s) buffer bs \<and> length bs = unat n
   \<and> 0 \<notin> span (freeMemPointer s + sizeof_MESSAGE) (length bs)
   \<and> span (freeMemPointer s + sizeof_MESSAGE) (length bs) \<inter> span buffer (length bs) = {}"

definition receiver :: "kstate \<Rightarrow> (qid \<Rightarrow> addr list) \<Rightarrow> addr \<Rightarrow> PROCESS \<Rightarrow> OBJECT_HEADER \<Rightarrow> addr list \<Rightarrow> bool" where
  "receiver s L x pr h ms \<longleftrightarrow> procs s (x + BODY_OFFSET) = Some pr \<and> headers s x = Some h
   \<and> PointerCount h > 0 \<and> PointerCount h \<noteq> - 1
   \<and> (State pr = blocked \<longrightarrow> sleeping L (x + BODY_OFFSET))
   \<and> mess_queue s (x + BODY_OFFSET) ms \<and> freeMemPointer s \<notin> set ms"

lemma mess_queue_other:
  assumes "mess_queue s p ms" and "m \<notin> set ms" and "messages t = (messages s)(m \<mapsto> r)"
    and "procs t p = Some pr'" and "procs s p = Some pr" and "MessageQueue pr' = MessageQueue pr"
  shows "mess_queue t p ms"
proof -
  have "nextMessage t = (nextMessage s)(m \<mapsto> msgNext r)"
    using assms(3) by (auto simp: nextMessage_def fun_eq_iff)
  then show ?thesis using assms by (auto simp: mess_queue_def seg_upd_other)
qed

lemma notify_and_append:
  assumes g: "sched_good s L" and inv: "ob_inv s Os" and p: "x + BODY_OFFSET \<noteq> 0" "procs s (x + BODY_OFFSET) = Some pr"
    and h: "headers s x = Some h" "HandleCount h < PointerCount h" "PointerCount h \<noteq> 1"
    and sl: "State pr = blocked \<Longrightarrow> sleeping L (x + BODY_OFFSET)"
    and no: "nodes_of s pid (x + BODY_OFFSET)"
    and msg: "m \<noteq> 0" "messages s m = Some msg" "msgType msg = type" "msgNext msg = 0" "m \<notin> set ms"
    and q: "processQueue s = Some q" "chain (nextNode s) (mqFirst q) ws" and ms: "mess_queue s (x + BODY_OFFSET) ms"
  defines "B \<equiv> State pr = blocked \<and> (\<exists>w \<in> set ws. takes s pid type w)"
  shows "returns (kthen (kloop (send_waiter_step pid (x + BODY_OFFSET) m) (mqFirst q, mqFirst q))
      (kthen (append_message (x + BODY_OFFSET) m) (ObDereferenceObject (x + BODY_OFFSET)))) s (\<lambda>_ t.
     ob_inv t Os \<and> (\<exists>L'. sched_good t L' \<and> (if B then \<not> sleeping L' (x + BODY_OFFSET) else L' = L \<and> KeCurrentProcess t = KeCurrentProcess s))
   \<and> mess_queue t (x + BODY_OFFSET) (ms @ [m]) \<and> mem t = mem s
   \<and> (\<exists>msg'. messages t m = Some msg' \<and> msg' = msg)
   \<and> (\<exists>pr'. procs t (x + BODY_OFFSET) = Some pr' \<and> V0 (Context pr') = (if B then m else V0 (Context pr))))"
proof -
  let ?p = "x + BODY_OFFSET"
  have lr: "abs_deref Os x h = Os" using h(3) by (simp add: abs_deref_def last_reference_def)
  have fin: "returns (kthen (append_message ?p m) (ObDereferenceObject ?p)) t (\<lambda>_ u.
     ob_inv u Os \<and> (\<exists>L'. sched_good u L' \<and> (if B then \<not> sleeping L' ?p else L' = L \<and> KeCurrentProcess u = KeCurrentProcess s))
   \<and> mess_queue u ?p (ms @ [m]) \<and> mem u = mem s \<and> (\<exists>msg'. messages u m = Some msg' \<and> msg' = msg)
   \<and> (\<exists>pr'. procs u ?p = Some pr' \<and> V0 (Context pr') = (if B then m else V0 (Context pr))))"
    if n: "notified s L ?p pr m B t" for t
  proof -
    note f = notified_facts [OF n p(2)]
    obtain pr' L' where pr': "procs t ?p = Some pr'" "MessageQueue pr' = MessageQueue pr"
        "V0 (Context pr') = (if B then m else V0 (Context pr))"
      and L': "sched_good t L'" "if B then \<not> sleeping L' ?p else L' = L \<and> KeCurrentProcess t = KeCurrentProcess s"
      using f(1) n by (auto simp: notified_def)
    have ob: "ob_inv t Os" using ob_inv_same [OF f(7,4,5,6) inv] .
    have mt: "mess_queue t ?p ms"
      using ms p(2) pr' nextMessage_same [OF f(2)] by (simp add: mess_queue_def)
    have mm: "messages t m = Some msg" using msg(2) f(2) by simp
    let ?u = "appended t ?p ms m"
    note ap = append_message_queue [OF mt msg(1) mm msg(4,5)]
    have obu: "ob_inv ?u Os" by (rule ob_inv_same [OF _ _ _ _ ob]) (simp_all add: appended_same appended_procs)
    have gu: "sched_good ?u L'" by (rule sched_good_same [OF _ _ _ _ _ L'(1)]) (simp_all add: appended_same appended_procs)
    have hu: "headers ?u x = Some h" using h(1) f(4) by (simp add: appended_same)
    have mu: "messages ?u m = Some msg"
      using mm msg(5) by (cases "ms = []") (auto simp: appended_def linkMessage_def)
    have vu: "\<exists>pr'. procs ?u ?p = Some pr' \<and> V0 (Context pr') = (if B then m else V0 (Context pr))"
      using pr' by (simp add: appended_def linkMessage_def)
    have "returns (ObDereferenceObject ?p) ?u (\<lambda>_ v.
       ob_inv v Os \<and> (\<exists>L'. sched_good v L' \<and> (if B then \<not> sleeping L' ?p else L' = L \<and> KeCurrentProcess v = KeCurrentProcess s))
     \<and> mess_queue v ?p (ms @ [m]) \<and> mem v = mem s \<and> (\<exists>msg'. messages v m = Some msg' \<and> msg' = msg)
     \<and> (\<exists>pr'. procs v ?p = Some pr' \<and> V0 (Context pr') = (if B then m else V0 (Context pr))))"
    proof (rule returns_mono [OF ObDereferenceObject_inv [OF obu hu h(2)]])
      fix a :: unit and v
      assume v: "ob_inv v (abs_deref Os x h) \<and> ob_frame ?u v \<and> (\<forall>y. links_header (headers v y)
        = links_header (((headers ?u)(x \<mapsto> h\<lparr>PointerCount := PointerCount h - 1\<rparr>)) y))"
      then have fr: "ob_frame ?u v" by simp
      have cu: "KeCurrentProcess v = KeCurrentProcess t"
        using ob_frame_current [OF fr] by (simp add: appended_def linkMessage_def)
      note e = ob_frame_procs [OF fr] ob_frame_messages [OF fr] ob_frame_mem [OF fr]
      have "mess_queue v ?p (ms @ [m])"
        using ap(2) e(1) nextMessage_same [OF e(2)] by (simp add: mess_queue_def)
      then show "ob_inv v Os \<and> (\<exists>L'. sched_good v L' \<and> (if B then \<not> sleeping L' ?p else L' = L \<and> KeCurrentProcess v = KeCurrentProcess s))
       \<and> mess_queue v ?p (ms @ [m]) \<and> mem v = mem s \<and> (\<exists>msg'. messages v m = Some msg' \<and> msg' = msg)
       \<and> (\<exists>pr'. procs v ?p = Some pr' \<and> V0 (Context pr') = (if B then m else V0 (Context pr)))"
        using v lr sched_good_ob_frame [OF fr gu] L'(2) e f(3) mu vu cu by (auto simp: appended_same)
    qed
    then show ?thesis
      unfolding returns_kthen by (rule_tac returns_mono [OF ap(1)]) simp
  qed
  show ?thesis
    unfolding returns_kthen [of "kloop _ _"]
    by (rule returns_mono [OF notify_receiver [OF g p sl no msg(1,2,3) q]]) (use fin in \<open>simp_all add: B_def\<close>)
qed

lemma with_message_inv:
  assumes "can_send s L Os buffer n bs"
  shows "sched_good (with_message s sender pid type n bs) L"
    and "ob_inv (with_message s sender pid type n bs) Os"
    and "proc_list (with_message s sender pid type n bs) (Os (processType s))"
    and "process_with (with_message s sender pid type n bs) xs pid' = process_with s xs pid'"
proof -
  have g: "sched_good s L" "ob_inv s Os" "proc_list s (Os (processType s))" "mm_room s (sizeof_MESSAGE + n)"
    using assms(1) by (simp_all add: can_send_def)
  show "sched_good (with_message s sender pid type n bs) L"
    by (rule sched_good_same [OF _ _ _ _ _ g(1)])
       (simp_all add: with_message_fields ALIGN_MEMORY_grows [OF g(4)])
  show "ob_inv (with_message s sender pid type n bs) Os"
    by (rule ob_inv_same [OF _ _ _ _ g(2)]) (simp_all add: with_message_fields)
  show "proc_list (with_message s sender pid type n bs) (Os (processType s))"
    by (rule proc_list_cong [OF g(3)]) (simp_all add: with_message_fields)
  show "process_with (with_message s sender pid type n bs) xs pid' = process_with s xs pid'"
    by (simp add: process_with_def pid_of_def with_message_fields)
qed

lemma can_send_current:
  assumes "can_send s L Os buffer n bs"
  obtains c where "KeCurrentProcess s \<noteq> 0" "procs s (KeCurrentProcess s) = Some c"
  using assms sched_invD unfolding can_send_def sched_good_def by metis

lemma MessSendMessage_lists:
  assumes "can_send s L Os buffer n bs" and "process_with s (Os (processType s)) pid = Some x"
    and "receiver s L x pr h ms" and "procs s (KeCurrentProcess s) = Some c"
    and "nodes_of s pid (x + BODY_OFFSET)"
    and "processQueue s = Some q" and "chain (nextNode s) (mqFirst q) ws"
  shows "returns (MessSendMessage pid type buffer n) s (\<lambda>status t. status = STATUS_SUCCESS
     \<and> ob_inv t Os
     \<and> mess_queue t (x + BODY_OFFSET) (ms @ [freeMemPointer s])
     \<and> (\<exists>m. messages t (freeMemPointer s) = Some m
          \<and> m = message_record (PID c) pid type (freeMemPointer s) n)
     \<and> bytes_at (mem t) (freeMemPointer s + sizeof_MESSAGE) bs
     \<and> (if State pr = blocked \<and> (\<exists>w \<in> set ws. takes s pid type w)
        then (\<exists>L'. sched_good t L' \<and> \<not> sleeping L' (x + BODY_OFFSET))
          \<and> (\<exists>pr'. procs t (x + BODY_OFFSET) = Some pr' \<and> V0 (Context pr') = freeMemPointer s)
        else sched_good t L \<and> KeCurrentProcess t = KeCurrentProcess s))" (is "returns ?call s ?Q")
proof -
  let ?m = "freeMemPointer s" and ?p = "x + BODY_OFFSET" and ?t = "with_message s (PID c) pid type n bs"
  note cs = assms(1) [unfolded can_send_def] and rc = assms(3) [unfolded receiver_def]
  note wm = with_message_inv [OF assms(1), where sender = "PID c" and pid = pid and type = type]
  note fl = with_message_fields [of s "PID c" pid type n bs]
  let ?u = "referenced ?t x h"
  let ?h = "h\<lparr>PointerCount := PointerCount h + 1\<rparr>"
  have cur: "KeCurrentProcess s \<noteq> 0" using can_send_current [OF assms(1)] .
  have new: "new_message ?m pid type buffer n (s\<lparr>freeMemPointer := ALIGN_MEMORY (?m + (sizeof_MESSAGE + n))\<rparr>)
      = Some (Return () ?t)"
    using new_message_result [OF cur assms(4)] cs by blast
  have pl: "proc_list ?t (Os (processType s))" using wm(3) .
  have ref: "PsReferenceProcess pid ?t = Some (Return (STATUS_SUCCESS, ?p) ?u)"
    using PsReferenceProcess_result [OF pl, of pid] wm(4) assms(2) rc by (simp add: fl)
  have x: "x \<in> set (Os (processType s))" using process_with_Some(1) [OF assms(2)] .
  have pnz: "?p \<noteq> 0" using proc_listD [OF _ x] cs by metis
  have hle: "HandleCount h \<le> PointerCount h" using ob_invD(2) [of s Os x h] cs rc by (simp add: header_ok_def)
  have gu: "sched_good ?u L" by (rule sched_good_ob_frame [OF _ wm(1)]) (simp add: referenced_def)
  have iu: "ob_inv ?u Os" by (rule ob_inv_referenced [OF wm(2)]) (use rc in \<open>simp_all add: fl\<close>)
  have ue: "procs ?u = procs s" "mnodes ?u = mnodes s" "processQueue ?u = processQueue s"
    "messages ?u = (messages s)(?m \<mapsto> message_record (PID c) pid type ?m n)"
    "mem ?u = poke (mem s) (?m + sizeof_MESSAGE) bs" "headers ?u x = Some ?h"
    by (simp_all add: referenced_def fl)
  have nu: "nextNode ?u = nextNode s" using ue(2) by (simp add: nextNode_def fun_eq_iff)
  have tk: "takes ?u pid type w = takes s pid type w" for w by (simp add: takes_def ue(2))
  have mq: "mess_queue ?u ?p ms"
    by (rule mess_queue_other [of s ?p ms ?m]) (use rc ue in simp_all)
  have hlt: "HandleCount ?h < PointerCount ?h" "PointerCount ?h \<noteq> 1"
    using hle rc by (auto simp: word_less_nat_alt word_le_nat_alt unat_plus_one)
  let ?B = "State pr = blocked \<and> (\<exists>w \<in> set ws. takes s pid type w)"
  have go: "returns (kthen (kloop (send_waiter_step pid ?p ?m) (mqFirst q, mqFirst q))
      (kthen (append_message ?p ?m) (ObDereferenceObject ?p))) ?u (\<lambda>_ t.
     ob_inv t Os \<and> (\<exists>L'. sched_good t L' \<and> (if ?B then \<not> sleeping L' ?p else L' = L \<and> KeCurrentProcess t = KeCurrentProcess ?u))
   \<and> mess_queue t ?p (ms @ [?m]) \<and> mem t = mem ?u
   \<and> (\<exists>msg'. messages t ?m = Some msg' \<and> msg' = message_record (PID c) pid type ?m n)
   \<and> (\<exists>pr'. procs t ?p = Some pr' \<and> V0 (Context pr') = (if ?B then ?m else V0 (Context pr))))"
    using notify_and_append [OF gu iu pnz, where pr = pr and pid = pid and m = ?m and type = type and ms = ms
        and q = q and ws = ws and h = ?h and msg = "message_record (PID c) pid type ?m n"]
      rc cs ue hlt mq nu assms(5,6,7) by (simp add: tk message_record_def nodes_of_def)
  have cu: "KeCurrentProcess ?u = KeCurrentProcess s" by (simp add: referenced_def fl)
  have "returns (MessSendMessage pid type buffer n) s Q = returns (kthen (kthen
      (kloop (send_waiter_step pid ?p ?m) (mqFirst q, mqFirst q))
      (kthen (append_message ?p ?m) (ObDereferenceObject ?p))) (kreturn STATUS_SUCCESS)) ?u Q" for Q
    using assms(6) cs new ref ue(3) pnz
    by (simp add: MessSendMessage_def returns_kbind returns_getQ returns_kthen returns_kassert returns_MmAlloc
        returns_iff [of "new_message _ _ _ _ _"] returns_iff [of "PsReferenceProcess _"] returns_if STATUS_SUCCESS_def)
  moreover have "bytes_at (mem ?u) (?m + sizeof_MESSAGE) bs"
    unfolding ue(5)
  proof (rule bytes_at_poke)
    show "0 \<notin> span (?m + sizeof_MESSAGE) (length bs)" using cs by blast
    have "length bs = unat n" using cs by blast
    then show "length bs \<le> 2 ^ 32" using unsigned_less [of n, where ?'a = nat] by simp
  qed
  moreover from this have "returns (kthen (kloop (send_waiter_step pid ?p ?m) (mqFirst q, mqFirst q))
      (kthen (append_message ?p ?m) (ObDereferenceObject ?p))) ?u (\<lambda>_ t. ?Q STATUS_SUCCESS t)"
    by (intro returns_mono [OF go]) (cases ?B; simp add: cu; blast)
  ultimately show ?thesis by (simp only: returns_kthen [of _ "kreturn STATUS_SUCCESS"] returns_kreturn)
qed

section \<open>Properties\<close>

text \<open>C9: sending a message to a process: the message (sender, receiver, type and a copy of the
  buffer) is appended to the receiver's queue.  When the receiver sleeps waiting for any
  message or for this type, it is woken and its system call result is the message, which it
  will find in its queue once more; otherwise the schedule does not change.  The invariants
  of the scheduler and of the object manager are kept, and the call always returns.\<close>

theorem MessSendMessage_correct:
  assumes "can_send s L Os buffer n bs" and "process_with s (Os (processType s)) pid = Some x"
    and "receiver s L x pr h ms" and "procs s (KeCurrentProcess s) = Some c"
    and "nodes_of s pid (x + BODY_OFFSET)"
    and "processQueue s = Some q" and "chain (nextNode s) (mqFirst q) ws"
  shows "returns (MessSendMessage pid type buffer n) s (\<lambda>status t. status = STATUS_SUCCESS
     \<and> ob_inv t Os
     \<and> mess_queue t (x + BODY_OFFSET) (ms @ [freeMemPointer s])
     \<and> (\<exists>m. messages t (freeMemPointer s) = Some m
          \<and> m = message_record (PID c) pid type (freeMemPointer s) n)
     \<and> bytes_at (mem t) (freeMemPointer s + sizeof_MESSAGE) bs
     \<and> (if State pr = blocked \<and> (\<exists>w \<in> set ws. takes s pid type w)
        then (\<exists>L'. sched_good t L' \<and> \<not> sleeping L' (x + BODY_OFFSET))
          \<and> (\<exists>pr'. procs t (x + BODY_OFFSET) = Some pr' \<and> V0 (Context pr') = freeMemPointer s)
        else sched_good t L \<and> KeCurrentProcess t = KeCurrentProcess s))"
  by (rule MessSendMessage_lists [OF assms])

lemma mess_demo_can_send: "can_send mess_demo sched_demo_lists ps_demo_lists 0x8000 2 [104, 105]"
  using mess_demo_good mess_demo_ob_inv mess_demo_proc_list mess_demo_room
  by (simp add: can_send_def sizeof_MESSAGE_def)

lemma mess_demo_nodes:
  "nodes_of mess_demo 4 0x4000" "nodes_of mess_demo 1 p" "chain (nextNode mess_demo) 0x700 [0x700]"
  "takes mess_demo 4 type 0x700"
  by (simp_all add: nodes_of_def nextNode_def takes_def MESSAGE_TYPE_FIRST_def)

lemma mess_demo_pids:
  "process_with mess_demo (ps_demo_lists (processType mess_demo)) 4 = Some 0x3FE0"
  "process_with mess_demo (ps_demo_lists (processType mess_demo)) 1 = Some 0xFE0"
  by (simp_all add: process_with_def pid_of_def ps_demo_lists_def BODY_OFFSET_def set_slot_def
      demo_process_def demo_receiver_def)

theorem MessSendMessage_correct_witness:
  "returns (MessSendMessage 4 1 0x8000 2) mess_demo (\<lambda>status t. status = STATUS_SUCCESS
     \<and> mess_queue t 0x4000 [0x9000]
     \<and> (\<exists>pr'. procs t 0x4000 = Some pr' \<and> V0 (Context pr') = 0x9000))"
proof -
  let ?pr = "(demo_process 4 blocked 5)\<lparr>WakeUpTime := 100, ResumeMethod := MessResumeMethod\<rparr>"
  have x: "0x3FE0 + BODY_OFFSET = 0x4000" by (simp add: BODY_OFFSET_def)
  have r: "receiver mess_demo sched_demo_lists 0x3FE0 ?pr (ps_header 0 1 0) []"
    by (simp add: receiver_def x mess_queue_def sleeping_def sched_demo_lists_def ps_header_def)
       (simp add: demo_process_def)
  have no: "nodes_of mess_demo 4 (0x3FE0 + BODY_OFFSET)" using mess_demo_nodes(1) by (simp add: x)
  have "procs mess_demo (KeCurrentProcess mess_demo) = Some demo_receiver" by simp
  from MessSendMessage_correct [OF mess_demo_can_send mess_demo_pids(1) r this no mess_demo_sel(7), of "[0x700]" 1]
  show ?thesis
    using mess_demo_nodes by (simp add: x) (erule returns_mono, auto)
qed

end
