(* ===== verification/MessRecv.thy ===== *)
theory MessRecv
  imports MessSpec
begin

text \<open>
  Receiving: a message that is there is taken out of the queue; a receiver that finds none
  joins the queue of waiting processes and sleeps.
\<close>

section \<open>Joining the waiting processes\<close>

definition wait_node :: "addr \<Rightarrow> u32 \<Rightarrow> u32 \<Rightarrow> MESS_PROCESS_NODE" where
  "wait_node p pid type = \<lparr>mnProcess = p, mnPid = pid, mnType = type, mnNext = 0\<rparr>"

lemma nodes_ordered_add:
  assumes ord: "nodes_ordered lim N" and new: "lim < lim'" "lim \<noteq> 0"
  shows "nodes_ordered lim' (N(lim \<mapsto> wait_node p pid type))"
  unfolding nodes_ordered_def
proof (intro allI impI)
  fix a n
  assume n: "(N(lim \<mapsto> wait_node p pid type)) a = Some n"
  show "a \<noteq> 0 \<and> a < lim' \<and> (mnNext n = 0 \<or> a < mnNext n \<and> mnNext n \<in> dom (N(lim \<mapsto> wait_node p pid type)))"
  proof (cases "a = lim")
    case True
    then show ?thesis using n new by (auto simp: wait_node_def)
  next
    case False
    then have "N a = Some n" using n by simp
    then show ?thesis using ord new less_trans [of a lim lim'] by (auto simp: nodes_ordered_def)
  qed
qed

lemma nodes_ordered_link:
  assumes ord: "nodes_ordered lim N" and l: "N l = Some k" and q: "l < q" "q \<in> dom N"
  shows "nodes_ordered lim (N(l \<mapsto> k\<lparr>mnNext := q\<rparr>))"
  using assms unfolding nodes_ordered_def by auto

text \<open>The queue of waiting processes when its end pointer is where it should be.\<close>

definition waiters_linked :: "kstate \<Rightarrow> addr list \<Rightarrow> bool" where
  "waiters_linked s ws \<longleftrightarrow> (\<exists>q. processQueue s = Some q \<and> chain (nextNode s) (mqFirst q) ws
     \<and> mqLast q = (if ws = [] then 0 else last ws))"

text \<open>The node that a process waits in: its own data, and it is the last one of the queue.\<close>

definition joined :: "kstate \<Rightarrow> MESS_PROCESS_NODE \<Rightarrow> addr \<Rightarrow> kstate \<Rightarrow> bool" where
  "joined s k n t \<longleftrightarrow> mnodes t n = Some k
     \<and> (\<forall>ws. waiters_linked s ws \<longrightarrow> waiters_linked t (ws @ [n]))"

lemma joined_cong:
  "joined s k n t \<Longrightarrow> mnodes u = mnodes t \<Longrightarrow> processQueue u = processQueue t \<Longrightarrow> joined s k n u"
proof -
  assume j: "joined s k n t" and e: "mnodes u = mnodes t" "processQueue u = processQueue t"
  have "nextNode u = nextNode t" by (simp add: nextNode_def fun_eq_iff e(1))
  then show "joined s k n u" using j by (simp add: joined_def waiters_linked_def e)
qed

lemma waiters_linked_first:
  assumes "mnodes t = (mnodes s)(n \<mapsto> k)" and "mnNext k = 0" and "n \<noteq> 0"
    and "processQueue s = Some q" and "mqFirst q = 0"
    and "processQueue t = Some (q\<lparr>mqFirst := n, mqLast := n\<rparr>)" and "waiters_linked s ws"
  shows "waiters_linked t (ws @ [n])"
proof -
  have "nextNode t n = Some 0" using assms(1,2) by (simp add: nextNode_def)
  then show ?thesis using assms(3-7) by (auto simp: waiters_linked_def)
qed

lemma waiters_linked_last:
  assumes N: "mnodes t = (mnodes s)(n \<mapsto> k, mqLast q \<mapsto> l\<lparr>mnNext := n\<rparr>)" and k: "mnNext k = 0"
    and n: "n \<noteq> 0" "n \<notin> dom (mnodes s)" and q: "processQueue s = Some q" "mqLast q \<noteq> 0"
    and t: "processQueue t = Some (q\<lparr>mqLast := n\<rparr>)" and w: "waiters_linked s ws"
  shows "waiters_linked t (ws @ [n])"
proof -
  obtain vs where ws: "ws = vs @ [mqLast q]" and ch: "chain (nextNode s) (mqFirst q) (vs @ [mqLast q])"
    using w q by (cases ws rule: rev_cases) (auto simp: waiters_linked_def split: if_splits)
  have fresh: "n \<notin> set (vs @ [mqLast q])"
  proof
    assume "n \<in> set (vs @ [mqLast q])"
    from seg_in_dom [OF ch this] show False using n(2) by (auto simp: nextNode_def domIff)
  qed
  let ?N = "(nextNode s)(n \<mapsto> 0)"
  have "chain ?N (mqFirst q) (vs @ [mqLast q])" using ch fresh by (subst seg_upd_other)
  from chain_append [OF this _ n(1) fresh] have "chain (?N(mqLast q \<mapsto> n)) (mqFirst q) (vs @ [mqLast q, n])" by simp
  moreover have "nextNode t = ?N(mqLast q \<mapsto> n)" using N k by (auto simp: nextNode_def fun_eq_iff)
  ultimately have "chain (nextNode t) (mqFirst q) ((vs @ [mqLast q]) @ [n])" by simp
  then show ?thesis using t by (simp add: waiters_linked_def ws)
qed

lemma AddProcessToQueue_inv:
  assumes mq: "mq_inv s" and cur: "KeCurrentProcess s \<noteq> 0" "procs s (KeCurrentProcess s) = Some c"
    and room: "mm_room s 16" and nz: "freeMemPointer s \<noteq> 0"
  shows "returns (AddProcessToQueue type) s (\<lambda>r t. r = STATUS_SUCCESS \<and> mq_inv t
    \<and> t = s\<lparr>freeMemPointer := freeMemPointer t, mnodes := mnodes t, processQueue := processQueue t\<rparr>
    \<and> freeMemPointer s \<le> freeMemPointer t
    \<and> joined s (wait_node (KeCurrentProcess s) (PID c) type) (freeMemPointer s) t)"
proof -
  let ?n = "freeMemPointer s" and ?lim = "ALIGN_MEMORY (freeMemPointer s + 16)"
  let ?new = "wait_node (KeCurrentProcess s) (PID c) type"
  obtain q where ord: "nodes_ordered ?n (mnodes s)" and q: "processQueue s = Some q"
    and ends: "queue_ends q (dom (mnodes s))" using mq by (auto simp: mq_inv_def)
  have lt: "?n < ?lim" using MmAlloc_room(1) [OF room] by (simp add: word_less_nat_alt)
  have fresh: "?n \<notin> dom (mnodes s)" using ord by (auto simp: nodes_ordered_def)
  let ?N = "(mnodes s)(?n \<mapsto> ?new)"
  have ord': "nodes_ordered ?lim ?N" using nodes_ordered_add [OF ord lt nz] .
  show ?thesis
  proof (cases "mqFirst q = 0 \<and> mqLast q = 0")
    case True
    let ?t = "s\<lparr>freeMemPointer := ?lim, mnodes := ?N, processQueue := Some (q\<lparr>mqFirst := ?n, mqLast := ?n\<rparr>)\<rparr>"
    have "joined s ?new ?n ?t"
      using True waiters_linked_first [of ?t s ?n ?new q] q nz by (simp add: joined_def wait_node_def)
    then show ?thesis
      using cur nz q ord' lt True
      by (simp add: AddProcessToQueue_def kern wait_node_def mq_inv_def queue_ends_def order_less_imp_le)
  next
    case False
    then obtain k where k: "mnodes s (mqLast q) = Some k" and f: "mqFirst q = 0 \<or> mqFirst q \<in> dom (mnodes s)"
      using ends by (auto simp: queue_ends_def)
    have l: "mqLast q \<noteq> 0" "mqLast q < ?n" using ord k by (auto simp: nodes_ordered_def)
    then have ne: "mqLast q \<noteq> ?n" by auto
    let ?M = "?N(mqLast q \<mapsto> k\<lparr>mnNext := ?n\<rparr>)"
    let ?t = "s\<lparr>freeMemPointer := ?lim, mnodes := ?M, processQueue := Some (q\<lparr>mqLast := ?n\<rparr>)\<rparr>"
    have "nodes_ordered ?lim ?M"
      by (rule nodes_ordered_link [OF ord']) (use k l ne in auto)
    moreover have "joined s ?new ?n ?t"
      using waiters_linked_last [of ?t s ?n ?new q k] fresh nz q l ne by (simp add: joined_def) (simp add: wait_node_def)
    ultimately show ?thesis
      using cur nz q False lt k l f ne
      by (auto simp: AddProcessToQueue_def kern wait_node_def mq_inv_def queue_ends_def order_less_imp_le)
  qed
qed

lemma wait_for_message_result:
  assumes g: "sched_good s L" and room: "mm_room s 16" "freeMemPointer s \<noteq> 0"
    and cur: "procs s (KeCurrentProcess s) = Some c"
  shows "case abs_suspend L (wake (procs s)) (KepTickCount s + timeout) (KeCurrentProcess s) of
      Some (n, L') \<Rightarrow> returns (wait_for_message timeout type) s (\<lambda>_ t. sched_good t L'
        \<and> KeCurrentProcess t = n \<and> messages t = messages s \<and> mem t = mem s
        \<and> joined s (wait_node (KeCurrentProcess s) (PID c) type) (freeMemPointer s) t
        \<and> sleeps_until t (KeCurrentProcess s) (KepTickCount s + timeout) MessResumeMethod)
    | None \<Rightarrow> halts (wait_for_message timeout type) s no_process_left"
proof -
  let ?J = "joined s (wait_node (KeCurrentProcess s) (PID c) type) (freeMemPointer s)"
  have mq: "mq_inv s" and inv: "sched_inv s L" using g by (simp_all add: sched_good_def)
  have cnz: "KeCurrentProcess s \<noteq> 0" using sched_invD [OF inv] by metis
  obtain r t where t: "AddProcessToQueue type s = Some (Return r t)" "mq_inv t"
    "t = s\<lparr>freeMemPointer := freeMemPointer t, mnodes := mnodes t, processQueue := processQueue t\<rparr>" "?J t"
    using AddProcessToQueue_inv [OF mq cnz cur room, of type] by (auto simp: returns_iff)
  have e: "same_queues s t" "procs t = procs s" "messages t = messages s" "mem t = mem s"
    "KepTickCount t = KepTickCount s" "KeCurrentProcess t = KeCurrentProcess s"
    by (subst t(3), simp add: same_queues_def)+
  have inv': "sched_inv t L" by (rule sched_inv_same [OF e(1) _ inv]) (simp add: e)
  have eq: "wait_for_message timeout type s = KeSuspendProcess timeout MessResumeMethod t"
    using t(1) by (simp add: wait_for_message_def run)
  have eqr: "returns (wait_for_message timeout type) s Q = returns (KeSuspendProcess timeout MessResumeMethod) t Q" for Q
    by (rule returns_eq) (rule eq)
  note sus = KeSuspendProcess_run [OF inv' t(2), of timeout MessResumeMethod, unfolded e(2,5,6)]
  show ?thesis
  proof (cases "abs_suspend L (wake (procs s)) (KepTickCount s + timeout) (KeCurrentProcess s)")
    case None
    then show ?thesis using sus by (simp add: halts_def eq no_process_left_def)
  next
    case (Some y)
    have "returns (KeSuspendProcess timeout MessResumeMethod) t (\<lambda>_ u. sched_inv u (snd y)
        \<and> KeCurrentProcess u = fst y \<and> mq_inv u \<and> quantum_ok u \<and> ke_frame t u
        \<and> KepTickCount u = KepTickCount s \<and> mnodes u = mnodes t \<and> processQueue u = processQueue t
        \<and> sleeps_until u (KeCurrentProcess s) (KepTickCount s + timeout) MessResumeMethod)"
      using Some sus by (simp add: case_prod_unfold)
    then have "returns (KeSuspendProcess timeout MessResumeMethod) t (\<lambda>_ u. sched_good u (snd y)
        \<and> KeCurrentProcess u = fst y \<and> messages u = messages s \<and> mem u = mem s \<and> ?J u
        \<and> sleeps_until u (KeCurrentProcess s) (KepTickCount s + timeout) MessResumeMethod)"
      by (rule returns_mono)
         (use joined_cong [OF t(4)] e in \<open>auto simp: sched_good_def ke_frame_messages ke_frame_mem\<close>)
    then show ?thesis using Some eqr by (simp add: case_prod_unfold)
  qed
qed

section \<open>Walking along the messages\<close>

lemma delete_loop:
  assumes "chain (nextMessage s) a (as @ b # x # bs)" and "messages s x = Some m"
  shows "kloop (delete_message_step x) a s = Some (Return STATUS_SUCCESS (linkMessage b (msgNext m) s))"
  using assms(1)
proof (induction as arbitrary: a)
  case Nil
  then have "b = a" "a \<noteq> 0" "nextMessage s b = Some x" "x \<noteq> 0" by auto
  then have "delete_message_step x a s = Some (Return (Inr STATUS_SUCCESS) (linkMessage b (msgNext m) s))"
    using assms(2) by (auto simp: delete_message_step_def run nextMessage_Some linkMessage_def)
  then show ?case by (rule kloop_end)
next
  case (Cons y as)
  let ?y = "hd0 (as @ [b])"
  have y: "nextMessage s y = Some ?y" "chain (nextMessage s) ?y (as @ b # x # bs)"
    using chain_split_at [where xs = "[]" and a = y and ys = "as @ b # x # bs"] Cons.prems
    by (cases as; simp)+
  then obtain ym where ym: "messages s y = Some ym" "msgNext ym = ?y" unfolding nextMessage_Some by blast
  have "y = a" "a \<noteq> 0" using Cons.prems by simp_all
  moreover have "?y \<noteq> x" using chain_distinct [OF y(2)] by (cases as) auto
  ultimately have "delete_message_step x a s = Some (Return (Inl ?y) s)"
    using ym by (simp add: delete_message_step_def run)
  then have "kloop (delete_message_step x) a s = kloop (delete_message_step x) ?y s"
    by (subst kloop.simps) simp
  then show ?case using Cons.IH [OF y(2)] by simp
qed

lemma delete_loop_missing:
  assumes "chain (nextMessage s) a xs" and "x \<notin> set xs" and "x \<noteq> 0"
  shows "kloop (delete_message_step x) a s = Some (Return STATUS_INVALID_HANDLE s)"
  using assms(1,2)
proof (induction xs arbitrary: a)
  case Nil
  then show ?case by (intro kloop_end) (simp add: delete_message_step_def run)
next
  case (Cons y ys)
  then have "y = a" "a \<noteq> 0" and "\<exists>r. nextMessage s y = Some r \<and> chain (nextMessage s) r ys" by simp_all
  then obtain m where m: "a \<noteq> 0" "messages s a = Some m" "chain (nextMessage s) (msgNext m) ys"
    unfolding nextMessage_Some by blast
  have "msgNext m \<noteq> x" using m(3) Cons.prems(2) assms(3) by (cases ys) auto
  then have "delete_message_step x a s = Some (Return (Inl (msgNext m)) s)"
    using m by (simp add: delete_message_step_def run)
  then have "kloop (delete_message_step x) a s = kloop (delete_message_step x) (msgNext m) s"
    by (subst kloop.simps) simp
  then show ?case using Cons.IH [OF m(3)] Cons.prems(2) by simp
qed

definition msg_type :: "kstate \<Rightarrow> addr \<Rightarrow> u32" where
  "msg_type s m = (case messages s m of None \<Rightarrow> 0 | Some r \<Rightarrow> msgType r)"

lemma receive_type_loop:
  assumes "chain (nextMessage s) a (as @ x # bs)" and "\<forall>y \<in> set as. msg_type s y \<noteq> type"
    and "msg_type s x = type" and "b \<noteq> x" and "b \<notin> set as" and "messages s b = Some mb" and "b \<noteq> 0"
    and "messages s x = Some mx"
  shows "kloop (receive_type_step type) (a, b) s = Some (Return x
    (linkMessage (last (b # as)) 0 (linkMessage x 0 s)))"
  using assms
proof (induction as arbitrary: a b mb)
  case Nil
  then have "a = x" "x \<noteq> 0" by auto
  then have "receive_type_step type (a, b) s = Some (Return (Inr x) (linkMessage b 0 (linkMessage x 0 s)))"
    using Nil by (simp add: receive_type_step_def run msg_type_def linkMessage_def)
  then show ?case by (simp add: kloop_end)
next
  case (Cons y as)
  then have "y = a" "a \<noteq> 0" and "\<exists>r. nextMessage s a = Some r \<and> chain (nextMessage s) r (as @ x # bs)" by simp_all
  then obtain m where m: "y = a" "a \<noteq> 0" "messages s a = Some m" "chain (nextMessage s) (msgNext m) (as @ x # bs)"
    unfolding nextMessage_Some by blast
  have d: "a \<noteq> x" "a \<notin> set as" using chain_distinct [OF Cons.prems(1)] m(1) by auto
  have "receive_type_step type (a, b) s = Some (Return (Inl (msgNext m, a)) s)"
    using m Cons.prems(2) by (simp add: receive_type_step_def run msg_type_def)
  then have "kloop (receive_type_step type) (a, b) s = kloop (receive_type_step type) (msgNext m, a) s"
    by (subst kloop.simps) simp
  also have "\<dots> = Some (Return x (linkMessage (last (a # as)) 0 (linkMessage x 0 s)))"
    by (rule Cons.IH [OF m(4) _ Cons.prems(3) d m(3,2) Cons.prems(8)]) (use Cons.prems in simp)
  finally show ?case using m(1) by simp
qed

lemma sched_good_link: "sched_good s L \<Longrightarrow> sched_good (linkMessage a q s) L"
  by (rule sched_good_same) (simp_all add: linkMessage_def same_queues_def)

text \<open>Cutting a chain behind its first part.\<close>

lemma chain_cut:
  assumes "chain nxt p (xs @ x # ys)" and "xs \<noteq> []"
  shows "chain (nxt(x \<mapsto> 0, last xs \<mapsto> 0)) p xs"
proof -
  have d: "distinct (xs @ x # ys)" using chain_distinct [OF assms(1)] .
  obtain as b where xs: "xs = as @ [b]" using assms(2) by (cases xs rule: rev_cases) auto
  then have "seg nxt p as b" "b \<noteq> 0" using assms(1) by (auto simp: seg_append)
  moreover have "b \<notin> set as" "x \<notin> set as" using d xs by auto
  ultimately show ?thesis unfolding xs by (auto simp: seg_append seg_upd_other)
qed

section \<open>Receiving the first message\<close>

lemma MessReceiveFirst_lists:
  assumes "sched_good s L" and "mess_queue s (KeCurrentProcess s) ms"
    and "procs s (KeCurrentProcess s) = Some c"
    and "ms = [] \<Longrightarrow> mm_room s 16 \<and> freeMemPointer s \<noteq> 0"
  shows "case ms of
      m # ms' \<Rightarrow> returns (MessReceiveFirst timeout) s (\<lambda>r t. r = m \<and> sched_good t L
        \<and> mess_queue t (KeCurrentProcess s) ms' \<and> KeCurrentProcess t = KeCurrentProcess s
        \<and> messages t m = map_option (\<lambda>x. x\<lparr>msgNext := 0\<rparr>) (messages s m) \<and> mem t = mem s)
    | [] \<Rightarrow> (case abs_suspend L (wake (procs s)) (KepTickCount s + timeout) (KeCurrentProcess s) of
        Some (n, L') \<Rightarrow> returns (MessReceiveFirst timeout) s (\<lambda>r t. r = 0 \<and> sched_good t L'
          \<and> KeCurrentProcess t = n
          \<and> joined s (wait_node (KeCurrentProcess s) (PID c) MESSAGE_TYPE_FIRST) (freeMemPointer s) t
          \<and> sleeps_until t (KeCurrentProcess s) (KepTickCount s + timeout) MessResumeMethod
          \<and> messages t = messages s)
      | None \<Rightarrow> halts (MessReceiveFirst timeout) s no_process_left)"
proof -
  let ?cur = "KeCurrentProcess s"
  have p: "?cur \<noteq> 0" and ch: "chain (nextMessage s) (MessageQueue c) ms"
    using assms(2,3) by (auto simp: mess_queue_def)
  show ?thesis
  proof (cases ms)
    case Nil
    then have "MessageQueue c = 0" using ch by simp
    then have eq: "MessReceiveFirst timeout s = kthen (wait_for_message timeout MESSAGE_TYPE_FIRST) (kreturn 0) s"
      using p assms(3) by (simp add: MessReceiveFirst_def run)
    have eqr: "returns (MessReceiveFirst timeout) s Q
        = returns (kthen (wait_for_message timeout MESSAGE_TYPE_FIRST) (kreturn 0)) s Q" for Q
      by (rule returns_eq) (rule eq)
    have room: "mm_room s 16" "freeMemPointer s \<noteq> 0" using assms(4) Nil by simp_all
    note w = wait_for_message_result [OF assms(1) room assms(3), of timeout MESSAGE_TYPE_FIRST]
    show ?thesis
    proof (cases "abs_suspend L (wake (procs s)) (KepTickCount s + timeout) ?cur")
      case None
      then show ?thesis using w Nil by (simp add: halts_def eq run)
    next
      case (Some y)
      then have "returns (wait_for_message timeout MESSAGE_TYPE_FIRST) s (\<lambda>_ t. sched_good t (snd y)
          \<and> KeCurrentProcess t = fst y
          \<and> joined s (wait_node ?cur (PID c) MESSAGE_TYPE_FIRST) (freeMemPointer s) t
          \<and> sleeps_until t ?cur (KepTickCount s + timeout) MessResumeMethod \<and> messages t = messages s)"
        using w by (simp add: case_prod_unfold) (erule returns_mono, simp)
      then show ?thesis
        using Some Nil by (simp add: case_prod_unfold eqr returns_kthen returns_kreturn)
    qed
  next
    case (Cons m ms')
    then obtain r where m: "MessageQueue c = m" "m \<noteq> 0" "nextMessage s m = Some r" "chain (nextMessage s) r ms'"
      using ch by auto
    then obtain msg where msg: "messages s m = Some msg" "msgNext msg = r" unfolding nextMessage_Some by blast
    have notin: "m \<notin> set ms'" using chain_distinct [OF ch] Cons by simp
    let ?t = "s\<lparr>procs := (procs s)(?cur \<mapsto> c\<lparr>MessageQueue := r\<rparr>),
      messages := (messages s)(m \<mapsto> msg\<lparr>msgNext := 0\<rparr>)\<rparr>"
    have res: "MessReceiveFirst timeout s = Some (Return m ?t)"
      using p assms(3) m msg by (simp add: MessReceiveFirst_def run Let_def)
    have "nextMessage ?t = (nextMessage s)(m \<mapsto> 0)" by (auto simp: nextMessage_def fun_eq_iff)
    then have "mess_queue ?t ?cur ms'" using p m(4) notin by (simp add: mess_queue_def seg_upd_other)
    moreover have "sched_good ?t L"
      by (rule sched_good_same [OF _ _ _ _ _ assms(1)])
         (use assms(3) in \<open>simp_all add: same_queues_def sched_same_upd sched_view_def\<close>)
    ultimately show ?thesis using Cons msg by (simp add: returns_def res)
  qed
qed

section \<open>Properties\<close>

text \<open>C17: receiving without a choice of type takes the oldest message out of the current
  process' queue; when the queue is empty a node for the process, for any type of message, is
  linked behind the last one of the queue of waiting processes, and the process sleeps for the
  timeout, with the resume method that takes the node out again, while another process runs (or
  the kernel stops, when none is ready).\<close>

theorem MessReceiveFirst_correct:
  assumes "sched_good s L" and "mess_queue s (KeCurrentProcess s) ms"
    and "procs s (KeCurrentProcess s) = Some c"
    and "ms = [] \<Longrightarrow> mm_room s 16 \<and> freeMemPointer s \<noteq> 0"
  shows "case ms of
      m # ms' \<Rightarrow> returns (MessReceiveFirst timeout) s (\<lambda>r t. r = m \<and> sched_good t L
        \<and> mess_queue t (KeCurrentProcess s) ms' \<and> KeCurrentProcess t = KeCurrentProcess s
        \<and> messages t m = map_option (\<lambda>x. x\<lparr>msgNext := 0\<rparr>) (messages s m) \<and> mem t = mem s)
    | [] \<Rightarrow> (case abs_suspend L (wake (procs s)) (KepTickCount s + timeout) (KeCurrentProcess s) of
        Some (n, L') \<Rightarrow> returns (MessReceiveFirst timeout) s (\<lambda>r t. r = 0 \<and> sched_good t L'
          \<and> KeCurrentProcess t = n
          \<and> mnodes t (freeMemPointer s) = Some \<lparr>mnProcess = KeCurrentProcess s, mnPid = PID c,
               mnType = MESSAGE_TYPE_FIRST, mnNext = 0\<rparr>
          \<and> (\<forall>ws. waiters_linked s ws \<longrightarrow> waiters_linked t (ws @ [freeMemPointer s]))
          \<and> (\<exists>c'. procs t (KeCurrentProcess s) = Some c' \<and> WakeUpTime c' = KepTickCount s + timeout
               \<and> ResumeMethod c' = MessResumeMethod)
          \<and> messages t = messages s)
      | None \<Rightarrow> halts (MessReceiveFirst timeout) s no_process_left)"
  using MessReceiveFirst_lists [OF assms, of timeout]
  unfolding joined_def sleeps_until_def wait_node_def by (simp only: conj_assoc)

lemma mess_demo_queue: "mess_queue mess_demo (KeCurrentProcess mess_demo) [0x8100, 0x8200, 0x8300]"
  using mess_demo_chain by (simp add: mess_queue_def demo_receiver_def)

text \<open>The same state before anything was sent to the running process.\<close>

definition mess_idle :: kstate where
  "mess_idle = mess_demo\<lparr>procs := (procs mess_demo)(0x1000 \<mapsto> demo_receiver\<lparr>MessageQueue := 0\<rparr>)\<rparr>"

lemma mess_idle_sel:
  "KeCurrentProcess mess_idle = 0x1000" "procs mess_idle 0x1000 = Some (demo_receiver\<lparr>MessageQueue := 0\<rparr>)"
  "freeMemPointer mess_idle = 0x9000" "mm_room mess_idle 16" "KepTickCount mess_idle = 95"
  "procs mess_idle 0x4000 = procs ps_demo 0x4000" "waiters_linked mess_idle [0x700]" "mess_queue mess_idle 0x1000 []"
  by (simp_all add: mess_idle_def mm_room_def waiters_linked_def nextNode_def mess_queue_def)

lemma mess_idle_good: "sched_good mess_idle sched_demo_lists"
  by (rule sched_good_same [OF _ _ _ _ _ mess_demo_good])
     (simp_all add: mess_idle_def same_queues_def sched_same_def sched_view_def)

lemma mess_idle_suspend:
  "\<exists>L'. abs_suspend sched_demo_lists (wake (procs mess_idle)) 125 0x1000 = Some (0x2000, L')"
proof -
  have "abs_insert (wake (procs mess_idle)) 125 0x1000 (sched_demo_lists TimerQ)
      = abs_insert (\<lambda>_. 100) 125 0x1000 (sched_demo_lists TimerQ)"
    by (rule abs_insert_cong) (simp add: sched_demo_lists_def wake_def mess_idle_sel ps_demo_def sched_demo_procs)
  then show ?thesis using sched_demo_suspend by (auto simp: abs_suspend_def)
qed

theorem MessReceiveFirst_correct_witness:
  "returns (MessReceiveFirst 50) mess_demo (\<lambda>r t. r = 0x8100 \<and> mess_queue t 0x1000 [0x8200, 0x8300])
   \<and> returns (MessReceiveFirst 30) mess_idle (\<lambda>r t. r = 0 \<and> KeCurrentProcess t = 0x2000
        \<and> waiters_linked t [0x700, 0x9000])"
proof
  have "procs mess_demo (KeCurrentProcess mess_demo) = Some demo_receiver" by simp
  from MessReceiveFirst_correct [OF mess_demo_good mess_demo_queue this, where timeout = 50]
  show "returns (MessReceiveFirst 50) mess_demo (\<lambda>r t. r = 0x8100 \<and> mess_queue t 0x1000 [0x8200, 0x8300])"
    by simp (erule returns_mono, simp)
  obtain L' where L': "abs_suspend sched_demo_lists (wake (procs mess_idle)) 125 0x1000 = Some (0x2000, L')"
    using mess_idle_suspend by blast
  show "returns (MessReceiveFirst 30) mess_idle (\<lambda>r t. r = 0 \<and> KeCurrentProcess t = 0x2000
        \<and> waiters_linked t [0x700, 0x9000])"
    using MessReceiveFirst_correct [OF mess_idle_good, where ms = "[]" and c = "demo_receiver\<lparr>MessageQueue := 0\<rparr>"
        and timeout = 30] L' mess_idle_sel(7)
    by (simp add: mess_idle_sel(1-6,8)) (erule returns_mono, auto)
qed

text \<open>C18: what a process sends to itself it receives: after the messages that were already in
  its queue, and with the same content.\<close>

theorem send_receive_self:
  assumes "can_send s L Os buffer n bs" and "process_with s (Os (processType s)) pid = Some x"
    and "x + BODY_OFFSET = KeCurrentProcess s" and "receiver s L x c h ms"
    and "nodes_of s pid (KeCurrentProcess s)"
    and "processQueue s = Some q" and "chain (nextNode s) (mqFirst q) ws"
  shows "returns (kthen (MessSendMessage pid type buffer n) (MessReceiveFirst timeout)) s (\<lambda>r t.
     r = hd (ms @ [freeMemPointer s]) \<and> sched_good t L
     \<and> mess_queue t (KeCurrentProcess s) (tl (ms @ [freeMemPointer s]))
     \<and> (ms = [] \<longrightarrow> (\<exists>m. messages t r = Some m \<and> msgType m = type \<and> senderPid m = pid
          \<and> bufferSize m = n \<and> bytes_at (mem t) (msgBuffer m) bs)))"
proof -
  let ?m = "freeMemPointer s" and ?cur = "KeCurrentProcess s"
  have c: "procs s ?cur = Some c" using assms(3,4) by (simp add: receiver_def)
  have inv: "sched_inv s L" using assms(1) by (simp add: can_send_def sched_good_def)
  have st: "State c \<noteq> blocked" using sched_invD [OF inv] c by (metis PROCESS_STATE.distinct option.inject)
  have pid: "PID c = pid"
    using process_with_Some(2) [OF assms(2)] assms(3) c by (simp add: pid_of_def)
  have no: "nodes_of s pid (x + BODY_OFFSET)" using assms(3,5) by simp
  obtain m ms' where mm: "ms @ [?m] = m # ms'" by (cases "ms @ [?m]") auto
  have rec: "returns (MessReceiveFirst timeout) t (\<lambda>r u. r = hd (ms @ [?m]) \<and> sched_good u L
     \<and> mess_queue u ?cur (tl (ms @ [?m]))
     \<and> (ms = [] \<longrightarrow> (\<exists>m. messages u r = Some m \<and> msgType m = type \<and> senderPid m = pid
          \<and> bufferSize m = n \<and> bytes_at (mem u) (msgBuffer m) bs)))"
    if t: "mess_queue t ?cur (ms @ [?m])" "messages t ?m = Some (message_record pid pid type ?m n)"
      "bytes_at (mem t) (?m + sizeof_MESSAGE) bs" "sched_good t L" "KeCurrentProcess t = ?cur" for t
  proof -
    obtain ct where ct: "procs t (KeCurrentProcess t) = Some ct" using t(1,5) by (auto simp: mess_queue_def)
    have q: "mess_queue t (KeCurrentProcess t) (m # ms')" using t(1,5) mm by simp
    have "returns (MessReceiveFirst timeout) t (\<lambda>r u. r = m \<and> sched_good u L
        \<and> mess_queue u (KeCurrentProcess t) ms' \<and> KeCurrentProcess u = KeCurrentProcess t
        \<and> messages u m = map_option (\<lambda>x. x\<lparr>msgNext := 0\<rparr>) (messages t m) \<and> mem u = mem t)"
      using MessReceiveFirst_lists [OF t(4) q ct, of timeout] by simp
    then show ?thesis
      by (rule returns_mono) (use mm t in \<open>cases ms, auto simp: message_record_def\<close>)
  qed
  show ?thesis
    unfolding returns_kthen
    by (rule returns_mono [OF MessSendMessage_lists [OF assms(1,2,4) c no assms(6,7), where type = type]])
       (use rec st pid assms(3) in auto)
qed

theorem send_receive_self_witness:
  "returns (kthen (MessSendMessage 1 7 0x8000 2) (MessReceiveFirst 0)) mess_demo (\<lambda>r t. r = 0x8100
     \<and> mess_queue t 0x1000 [0x8200, 0x8300, 0x9000])"
proof -
  have x: "0xFE0 + BODY_OFFSET = (0x1000 :: addr)" by (simp add: BODY_OFFSET_def)
  have r: "receiver mess_demo sched_demo_lists 0xFE0 demo_receiver (ps_header 0 1 0x1FE0) [0x8100, 0x8200, 0x8300]"
    using mess_demo_queue by (simp add: receiver_def x ps_header_def) (simp add: demo_receiver_def set_slot_def)
  have "0xFE0 + BODY_OFFSET = KeCurrentProcess mess_demo" by (simp add: x)
  from send_receive_self [OF mess_demo_can_send mess_demo_pids(2) this r mess_demo_nodes(2) mess_demo_sel(7),
      where ws = "[0x700]" and type = 7 and timeout = 0]
  show ?thesis using mess_demo_nodes(3) by simp (erule returns_mono, simp)
qed

lemma mess_queue_Cons:
  assumes "mess_queue s x (m # ms)"
  obtains c msg where "x \<noteq> 0" "procs s x = Some c" "MessageQueue c = m" "m \<noteq> 0" "messages s m = Some msg"
    "chain (nextMessage s) (msgNext msg) ms" "chain (nextMessage s) m (m # ms)" "distinct (m # ms)"
proof -
  obtain c where c: "x \<noteq> 0" "procs s x = Some c" and ch: "chain (nextMessage s) (MessageQueue c) (m # ms)"
    using assms by (auto simp: mess_queue_def)
  then obtain r where "MessageQueue c = m" "m \<noteq> 0" "nextMessage s m = Some r" "chain (nextMessage s) r ms" by auto
  then show ?thesis using that c ch chain_distinct [OF ch] unfolding nextMessage_Some by auto
qed

lemma MessDeleteMessage_first:
  assumes good: "sched_good s L" and q: "mess_queue s (KeCurrentProcess s) (mess # ms)"
  shows "returns (MessDeleteMessage mess) s (\<lambda>status t. sched_good t L \<and> KeCurrentProcess t = KeCurrentProcess s
     \<and> mess_queue t (KeCurrentProcess s) ms \<and> status = STATUS_INVALID_HANDLE)"
proof -
  let ?cur = "KeCurrentProcess s"
  obtain c msg where p: "?cur \<noteq> 0" "procs s ?cur = Some c" and m: "MessageQueue c = mess" "mess \<noteq> 0"
      "messages s mess = Some msg" "chain (nextMessage s) (msgNext msg) ms"
    by (rule mess_queue_Cons [OF q])
  let ?t = "s\<lparr>procs := (procs s)(?cur \<mapsto> c\<lparr>MessageQueue := msgNext msg\<rparr>)\<rparr>"
  have "sched_good ?t L"
    by (rule sched_good_same [OF _ _ _ _ _ good])
       (use p in \<open>simp_all add: same_queues_def sched_same_upd sched_view_def\<close>)
  moreover have "mess_queue ?t ?cur ms"
    using p m(4) nextMessage_same [of ?t s] by (simp add: mess_queue_def)
  ultimately show ?thesis using p m by (simp add: MessDeleteMessage_def kern Let_def)
qed

lemma MessDeleteMessage_search:
  assumes "mess_queue s (KeCurrentProcess s) (m # ms)" and "mess \<noteq> m" and "mess \<noteq> 0"
  shows "returns (MessDeleteMessage mess) s = returns (kloop (delete_message_step mess) m) s"
  by (rule mess_queue_Cons [OF assms(1)], rule ext) (use assms(2,3) in \<open>simp add: MessDeleteMessage_def kern Let_def\<close>)

lemma MessDeleteMessage_later:
  assumes good: "sched_good s L" and q: "mess_queue s (KeCurrentProcess s) (m # ms)"
    and "mess \<noteq> m" and "mess \<in> set ms" and "mess \<noteq> 0"
  shows "returns (MessDeleteMessage mess) s (\<lambda>status t. sched_good t L \<and> KeCurrentProcess t = KeCurrentProcess s
     \<and> mess_queue t (KeCurrentProcess s) (remove1 mess (m # ms)) \<and> status = STATUS_SUCCESS)"
proof -
  let ?cur = "KeCurrentProcess s"
  obtain c msg where p: "?cur \<noteq> 0" "procs s ?cur = Some c" and m: "MessageQueue c = m"
      and ch: "chain (nextMessage s) m (m # ms)" and dist: "distinct (m # ms)"
    by (rule mess_queue_Cons [OF q])
  obtain as b bs where ms: "m # ms = as @ b # mess # bs"
    using split_not_first [of mess "m # ms" m ms] assms(3,4) by auto
  obtain mx where mx: "messages s mess = Some mx" "msgNext mx = hd0 bs"
    using chain_split_at [of "nextMessage s" m "as @ [b]" mess bs] ch ms by (auto simp: nextMessage_Some)
  have c: "chain (nextMessage s) (MessageQueue c) (as @ b # mess # bs)" using ch ms m by simp
  have "chain (nextMessage (linkMessage b (hd0 bs) s)) (MessageQueue c) (as @ b # bs)"
    by (rule message.link_unlink [OF c])
  moreover have "remove1 mess (m # ms) = as @ b # bs" using remove1_split dist unfolding ms by metis
  ultimately have "mess_queue (linkMessage b (hd0 bs) s) ?cur (remove1 mess (m # ms))"
    using p by (simp add: mess_queue_def) (simp add: linkMessage_def)
  moreover have "kloop (delete_message_step mess) m s = Some (Return STATUS_SUCCESS (linkMessage b (hd0 bs) s))"
    using delete_loop [of s m as b mess bs mx] mx ch unfolding ms by metis
  ultimately show ?thesis
    unfolding MessDeleteMessage_search [OF q assms(3,5)] using sched_good_link [OF good]
    by (simp add: returns_def linkMessage_def)
qed

text \<open>C19: deleting a message takes it out of the current process' queue wherever it is, and
  leaves an unknown one alone.  The status is wrong in one case: deleting the first message
  of the queue succeeds, but reports an invalid handle.\<close>

theorem MessDeleteMessage_correct:
  assumes "sched_good s L" and "mess_queue s (KeCurrentProcess s) ms" and "mess \<noteq> 0"
  shows "returns (MessDeleteMessage mess) s (\<lambda>status t. sched_good t L
     \<and> KeCurrentProcess t = KeCurrentProcess s
     \<and> mess_queue t (KeCurrentProcess s) (remove1 mess ms)
     \<and> status = (if ms = [] \<or> mess \<in> set (tl ms) then STATUS_SUCCESS else STATUS_INVALID_HANDLE))"
proof (cases ms)
  case Nil
  then show ?thesis using assms by (auto simp: mess_queue_def MessDeleteMessage_def kern)
next
  case (Cons m ms')
  have q: "mess_queue s (KeCurrentProcess s) (m # ms')" using assms(2) Cons by simp
  consider "mess = m" | "mess \<noteq> m" "mess \<in> set ms'" | "mess \<noteq> m" "mess \<notin> set (m # ms')" by auto
  then show ?thesis
  proof cases
    case 1
    have "distinct (m # ms')" by (rule mess_queue_Cons [OF q])
    then show ?thesis
      using MessDeleteMessage_first [OF assms(1)] q 1 Cons by (auto elim!: returns_mono)
  next
    case 2
    show ?thesis
      using MessDeleteMessage_later [OF assms(1) q 2 assms(3)] 2 Cons by (auto elim!: returns_mono)
  next
    case 3
    have ch: "chain (nextMessage s) m (m # ms')" by (rule mess_queue_Cons [OF q])
    show ?thesis
      unfolding MessDeleteMessage_search [OF q 3(1) assms(3)]
      using delete_loop_missing [OF ch 3(2) assms(3)] 3 Cons assms by (simp add: returns_def remove1_idem)
  qed
qed

theorem MessDeleteMessage_correct_witness:
  "returns (MessDeleteMessage 0x8100) mess_demo (\<lambda>status t. status = STATUS_INVALID_HANDLE
     \<and> mess_queue t 0x1000 [0x8200, 0x8300])"
  by (rule returns_mono [OF MessDeleteMessage_correct [OF mess_demo_good mess_demo_queue]]) simp_all

text \<open>A message of the wanted type at the head of the queue is taken, with the queue emptied.\<close>

lemma MessReceiveType_head:
  assumes g: "sched_good s L" and p: "KeCurrentProcess s \<noteq> 0" "procs s (KeCurrentProcess s) = Some c"
    and q: "MessageQueue c = x" and mx: "messages s x = Some mx" "x \<noteq> 0" "msgType mx = type"
  shows "returns (MessReceiveType timeout type) s (\<lambda>r t. sched_good t L
     \<and> KeCurrentProcess t = KeCurrentProcess s \<and> r = x \<and> mess_queue t (KeCurrentProcess s) [])"
proof -
  let ?cur = "KeCurrentProcess s"
  let ?t = "s\<lparr>messages := (messages s)(x \<mapsto> mx\<lparr>msgNext := 0\<rparr>),
    procs := (procs s)(?cur \<mapsto> c\<lparr>MessageQueue := 0\<rparr>)\<rparr>"
  have "MessReceiveType timeout type s = Some (Return x ?t)"
    using p q mx by (simp add: MessReceiveType_def run Let_def)
  moreover have "sched_good ?t L"
    by (rule sched_good_same [OF _ _ _ _ _ g])
       (use p in \<open>simp_all add: same_queues_def sched_same_upd sched_view_def\<close>)
  moreover have "mess_queue ?t ?cur []" using p by (simp add: mess_queue_def)
  ultimately show ?thesis by (simp add: returns_def)
qed

text \<open>Further back, the message and the one before it lose their links.\<close>

lemma MessReceiveType_later:
  assumes g: "sched_good s L" and p: "KeCurrentProcess s \<noteq> 0" "procs s (KeCurrentProcess s) = Some c"
    and ch: "chain (nextMessage s) (MessageQueue c) ((a # as) @ x # bs)"
    and as: "\<forall>y \<in> set (a # as). msg_type s y \<noteq> type" and x: "msg_type s x = type"
  shows "returns (MessReceiveType timeout type) s (\<lambda>r t. sched_good t L
     \<and> KeCurrentProcess t = KeCurrentProcess s \<and> r = x \<and> mess_queue t (KeCurrentProcess s) (a # as))"
proof -
  let ?t = "linkMessage (last (a # as)) 0 (linkMessage x 0 s)"
  have memb: "m \<noteq> 0 \<and> (\<exists>r. messages s m = Some r)" if "m \<in> set ((a # as) @ x # bs)" for m
    using seg_nonnull [OF ch that] seg_in_dom [OF ch that] by (auto simp: nextMessage_Some)
  obtain mx ma where mx: "messages s x = Some mx" "x \<noteq> 0" and ma: "messages s a = Some ma" "a \<noteq> 0"
    using memb [of x] memb [of a] by auto
  have mt: "msgType ma \<noteq> type" using ma as by (auto simp: msg_type_def)
  have q: "MessageQueue c = a" and c2: "chain (nextMessage s) (msgNext ma) (as @ x # bs)"
    using ch ma by (auto simp: nextMessage_Some)
  have d: "a \<noteq> x" "a \<notin> set as" "last (a # as) \<noteq> x" using chain_distinct [OF ch] last_in_set [of "a # as"] by auto
  have "kloop (receive_type_step type) (msgNext ma, a) s = Some (Return x ?t)"
    by (rule receive_type_loop [OF c2 _ x d(1,2) ma mx(1)]) (use as in simp)
  then have loop: "kloop (receive_type_step type) (a, a) s = Some (Return x ?t)"
    using ma mt by (subst kloop.simps) (simp add: receive_type_step_def run)
  have res: "MessReceiveType timeout type s = Some (Return x ?t)"
    using p q ma mt loop mx by (simp add: MessReceiveType_def run Let_def del: last.simps)
  define ns where ns: "ns = a # as"
  have "messages s (last ns) \<noteq> None" unfolding ns using memb [of "last (a # as)"] last_in_set [of "a # as"] by auto
  then have "nextMessage ?t = (nextMessage s)(x \<mapsto> 0, last ns \<mapsto> 0)"
    using mx d(3) unfolding ns [symmetric] by (auto simp: nextMessage_def linkMessage_def fun_eq_iff)
  moreover have "chain ((nextMessage s)(x \<mapsto> 0, last ns \<mapsto> 0)) a ns"
    unfolding ns by (rule chain_cut [OF ch [unfolded q]]) simp
  ultimately have "mess_queue ?t (KeCurrentProcess s) ns"
    unfolding ns [symmetric] using p q by (simp add: mess_queue_def) (simp add: linkMessage_def)
  moreover have "sched_good ?t L" by (intro sched_good_link g)
  ultimately show ?thesis
    unfolding returns_def res ns [symmetric] by simp (simp add: linkMessage_def)
qed

text \<open>receiving a message of a given type gives the first one of that type, but the queue is
  cut there: the messages behind it are lost, because the code clears the link of the
  message before it reads it.\<close>

theorem MessReceiveType_truncates:
  assumes "sched_good s L" and "mess_queue s (KeCurrentProcess s) ms"
    and "\<exists>m \<in> set ms. msg_type s m = type"
  shows "returns (MessReceiveType timeout type) s (\<lambda>r t. sched_good t L
     \<and> KeCurrentProcess t = KeCurrentProcess s
     \<and> Some r = find (\<lambda>m. msg_type s m = type) ms
     \<and> mess_queue t (KeCurrentProcess s) (takeWhile (\<lambda>m. msg_type s m \<noteq> type) ms))"
proof -
  let ?P = "\<lambda>m. msg_type s m \<noteq> type"
  obtain c where p: "KeCurrentProcess s \<noteq> 0" "procs s (KeCurrentProcess s) = Some c"
    and ch: "chain (nextMessage s) (MessageQueue c) ms"
    using assms(2) by (auto simp: mess_queue_def)
  obtain as x bs where ms: "ms = as @ x # bs" and as: "\<forall>y \<in> set as. ?P y" and x: "msg_type s x = type"
    using split_list_first_prop [OF assms(3)] by blast
  have tw: "takeWhile ?P ms = as" using as x by (simp add: ms)
  have fi: "find (\<lambda>m. msg_type s m = type) ms = Some x"
    using as x unfolding ms by (induction as) auto
  have x_in: "x \<in> set ms" by (simp add: ms)
  obtain mx where mx: "messages s x = Some mx" "x \<noteq> 0" "msgType mx = type"
    using seg_nonnull [OF ch x_in] seg_in_dom [OF ch x_in] x by (auto simp: nextMessage_Some msg_type_def)
  show ?thesis
  proof (cases as)
    case Nil
    have "MessageQueue c = x" using ch ms Nil by simp
    from MessReceiveType_head [OF assms(1) p this mx] show ?thesis unfolding tw fi Nil by simp
  next
    case (Cons a as')
    from MessReceiveType_later [OF assms(1) p ch [unfolded ms Cons] as [unfolded Cons] x]
    show ?thesis unfolding tw fi Cons by simp
  qed
qed

theorem MessReceiveType_truncates_witness:
  "returns (MessReceiveType 50 2) mess_demo (\<lambda>r t. r = 0x8200 \<and> mess_queue t 0x1000 [0x8100])"
proof -
  have ty: "msg_type mess_demo 0x8100 = 1" "msg_type mess_demo 0x8200 = 2"
    by (simp_all add: msg_type_def mess_demo_def demo_message_def)
  show ?thesis
    by (rule returns_mono [OF MessReceiveType_truncates [OF mess_demo_good mess_demo_queue, where type = 2]])
       (simp_all add: ty)
qed

end
