(* ===== verification/ObWaitSpec.thy ===== *)
theory ObWaitSpec
  imports PsDemo ObWait
begin

text \<open>
  Waiting for an object and signalling it: the wait queue of an object is a list of entries,
  the newest first; a process that waits for an object that is not signalled becomes the
  newest entry and blocks, and signalling wakes every process in the queue.
\<close>

section \<open>The wait queue of an object\<close>

definition nextWait :: "kstate \<Rightarrow> addr \<Rightarrow> addr option" where
  "nextWait s a = map_option WqNext (waitents s a)"

lemma nextWait_Some: "nextWait s a = Some r \<longleftrightarrow> (\<exists>e. waitents s a = Some e \<and> WqNext e = r)"
  by (auto simp: nextWait_def)

definition waiter :: "kstate \<Rightarrow> addr \<Rightarrow> addr" where
  "waiter s e = (case waitents s e of None \<Rightarrow> 0 | Some w \<Rightarrow> WqProcess w)"

definition linkWait :: "addr \<Rightarrow> addr \<Rightarrow> kstate \<Rightarrow> kstate" where
  "linkWait a q s =
     s\<lparr>waitents := (waitents s)(a := map_option (\<lambda>e. e\<lparr>WqNext := q\<rparr>) (waitents s a))\<rparr>"

interpretation wait: linked_store nextWait linkWait
  by unfold_locales (auto simp: nextWait_def linkWait_def)

definition wait_queue :: "kstate \<Rightarrow> addr \<Rightarrow> addr list \<Rightarrow> bool" where
  "wait_queue s x es \<longleftrightarrow> (\<exists>h. headers s x = Some h \<and> chain (nextWait s) (WaitQueue h) es)"

text \<open>All processes of a set wake up, nobody else.\<close>

definition woken :: "(qid \<Rightarrow> addr list) \<Rightarrow> addr set \<Rightarrow> (qid \<Rightarrow> addr list) \<Rightarrow> bool" where
  "woken L ps L' \<longleftrightarrow> (\<forall>q. sleeping L' q \<longleftrightarrow> sleeping L q \<and> q \<notin> ps)"

lemma woken_refl [simp]: "woken L {} L"
  by (simp add: woken_def)

lemma woken_step: "\<forall>q. sleeping L1 q \<longleftrightarrow> sleeping L q \<and> q \<noteq> p \<Longrightarrow> woken L1 ps L2 \<Longrightarrow> woken L (insert p ps) L2"
  by (auto simp: woken_def)

section \<open>Signalling\<close>

lemma signal_loop:
  assumes "sched_good s L" and "chain (nextWait s) e es"
    and "distinct (map (waiter s) es)" and "\<forall>a \<in> set es. sleeping L (waiter s a)"
  shows "returns (kloop signal_step e) s (\<lambda>_ t. ke_frame s t
     \<and> (\<exists>L'. sched_good t L' \<and> woken L (waiter s ` set es) L'))"
  using assms
proof (induction es arbitrary: s L e)
  case Nil
  have "woken L (waiter s ` set []) L" by simp
  then show ?case using Nil by (subst returns_kloop) (auto simp: signal_step_def kern)
next
  case (Cons a es)
  then have "a = e" "e \<noteq> 0" and "\<exists>r. nextWait s e = Some r \<and> chain (nextWait s) r es" by simp_all
  then obtain w where w: "e \<noteq> 0" "waitents s e = Some w" "chain (nextWait s) (WqNext w) es" and ae: "a = e"
    unfolding nextWait_Some by blast
  have wp: "waiter s e = WqProcess w" using w by (simp add: waiter_def)
  have sl: "sleeping L (WqProcess w)" using Cons.prems(4) ae wp by simp
  have "sched_lists s L" using Cons.prems(1) by (simp add: sched_good_def sched_inv_def)
  then obtain pr where pr: "procs s (WqProcess w) = Some pr" using sleeping_member [OF _ sl] by metis
  let ?Q = "\<lambda>_ v. ke_frame s v \<and> (\<exists>L'. sched_good v L' \<and> woken L (waiter s ` set (a # es)) L')"
  have "returns (KeResumeProcess (WqProcess w)) s (\<lambda>_ t. waitents t e = Some w
      \<and> returns (kloop signal_step (WqNext w)) t ?Q)"
  proof (rule returns_mono [OF KeResumeProcess_awake [OF Cons.prems(1) sl pr]])
    fix u :: unit and t
    assume t: "(\<exists>L'. sched_good t L' \<and> (\<forall>q. sleeping L' q \<longleftrightarrow> sleeping L q \<and> q \<noteq> WqProcess w))
       \<and> ke_frame s t \<and> (\<exists>pr'. procs t (WqProcess w) = Some pr' \<and> State pr' \<noteq> blocked)"
    then obtain L1 where L1: "sched_good t L1" "\<forall>q. sleeping L1 q \<longleftrightarrow> sleeping L q \<and> q \<noteq> WqProcess w" by blast
    have k: "ke_frame s t" using t by simp
    have we: "waitents t = waitents s" using ke_frame_waitents [OF k] .
    then have nw: "nextWait t = nextWait s" "waiter t = waiter s"
      by (simp_all add: nextWait_def waiter_def fun_eq_iff)
    have "WqProcess w \<notin> waiter s ` set es" using Cons.prems(3) ae wp by auto
    then have "waiter s b \<noteq> WqProcess w" if "b \<in> set es" for b using that by force
    then have sl': "\<forall>b \<in> set es. sleeping L1 (waiter t b)"
      using Cons.prems(4) L1(2) nw(2) by simp
    have "returns (kloop signal_step (WqNext w)) t (\<lambda>_ v. ke_frame t v
        \<and> (\<exists>L'. sched_good v L' \<and> woken L1 (waiter t ` set es) L'))"
      by (rule Cons.IH [OF L1(1)]) (use w(3) Cons.prems(3) nw sl' in simp_all)
    then have "returns (kloop signal_step (WqNext w)) t ?Q"
      by (rule returns_mono) (use ke_frame_trans [OF k] woken_step [OF L1(2)] nw(2) ae wp in auto)
    then show "waitents t e = Some w \<and> returns (kloop signal_step (WqNext w)) t ?Q" using we w by simp
  qed
  then show ?case
    using w(1,2)
    by (subst returns_kloop)
       (simp add: signal_step_def returns_kbind returns_deref returns_kthen returns_MmFree returns_kreturn,
        erule returns_mono, simp)
qed

lemma sched_good_headers: "sched_good s L \<Longrightarrow> sched_good (s\<lparr>headers := H\<rparr>) L"
  by (rule sched_good_same) (simp_all add: same_queues_def)

lemma wait_queueD:
  assumes "wait_queue s x es" and "headers s x = Some h"
  shows "chain (nextWait s) (WaitQueue h) es"
  using assms by (simp add: wait_queue_def)

lemma ObSignalObject_lists:
  assumes g: "sched_good s L" and inv: "ob_inv s Os" and h: "headers s x = Some h"
    and q: "wait_queue s x es" "distinct (map (waiter s) es)" "\<forall>a \<in> set es. sleeping L (waiter s a)"
  shows "returns (ObSignalObject (x + BODY_OFFSET)) s (\<lambda>_ t. ob_inv t Os
     \<and> headers t = (headers s)(x \<mapsto> h\<lparr>SignalState := 1, WaitQueue := 0\<rparr>)
     \<and> (\<exists>L'. sched_good t L' \<and> woken L (waiter s ` set es) L'))"
proof -
  have x: "x \<noteq> 0" "Magic h = OBJECT_MAGIC" using ob_invD(2) [OF inv h] by (simp_all add: header_ok_def)
  let ?s = "s\<lparr>headers := (headers s)(x \<mapsto> h\<lparr>SignalState := 1\<rparr>)\<rparr>"
  have g1: "sched_good ?s L" using sched_good_headers [OF g] .
  have i1: "ob_inv ?s Os" by (rule ob_inv_header [OF inv h]) simp_all
  have nw: "nextWait ?s = nextWait s" "waiter ?s = waiter s" by (simp_all add: nextWait_def waiter_def fun_eq_iff)
  have c: "chain (nextWait ?s) (WaitQueue h) es" using wait_queueD [OF q(1) h] nw by simp
  have "returns (kloop signal_step (WaitQueue h)) ?s (\<lambda>_ t. returns (setH x (\<lambda>h. h\<lparr>WaitQueue := 0\<rparr>)) t
    (\<lambda>_ u. ob_inv u Os \<and> headers u = (headers s)(x \<mapsto> h\<lparr>SignalState := 1, WaitQueue := 0\<rparr>)
      \<and> (\<exists>L'. sched_good u L' \<and> woken L (waiter s ` set es) L')))"
  proof (rule returns_mono [OF signal_loop [OF g1 c]])
    fix a :: unit and t
    assume t: "ke_frame ?s t \<and> (\<exists>L'. sched_good t L' \<and> woken L (waiter ?s ` set es) L')"
    then have k: "ke_frame ?s t" by simp
    obtain L' where L': "sched_good t L'" "woken L (waiter s ` set es) L'" using t nw by auto
    have ht: "headers t = headers ?s" using ke_frame_headers [OF k] .
    then have hx: "headers t x = Some (h\<lparr>SignalState := 1\<rparr>)" by simp
    have it: "ob_inv t Os" using ob_inv_ke_frame [OF k i1] .
    let ?u = "t\<lparr>headers := (headers t)(x \<mapsto> h\<lparr>SignalState := 1, WaitQueue := 0\<rparr>)\<rparr>"
    have "ob_inv ?u Os" by (rule ob_inv_header [OF it hx]) simp_all
    moreover have "sched_good ?u L'" using sched_good_headers [OF L'(1)] .
    ultimately show "returns (setH x (\<lambda>h. h\<lparr>WaitQueue := 0\<rparr>)) t
      (\<lambda>_ u. ob_inv u Os \<and> headers u = (headers s)(x \<mapsto> h\<lparr>SignalState := 1, WaitQueue := 0\<rparr>)
        \<and> (\<exists>L'. sched_good u L' \<and> woken L (waiter s ` set es) L'))"
      using x hx L'(2) ht by (auto simp: returns_store)
  qed (use q nw in simp_all)
  then show ?thesis
    using x h by (simp add: ObSignalObject_def Let_def ASSERT_OBJECT_def returns_kbind returns_kthen returns_deref
        returns_store returns_kassert)
qed

section \<open>Waiting\<close>

definition wait_entry :: "addr \<Rightarrow> addr \<Rightarrow> OB_WAIT_QUEUE_ENTRY" where
  "wait_entry p nx = \<lparr>WqProcess = p, WqNext = nx\<rparr>"

text \<open>The end of the operation: the reference is dropped, and the object stays.\<close>

lemma drop_reference:
  assumes t: "ob_inv t Os" "headers t x = Some k" and lt: "HandleCount k < PointerCount k" "\<not> last_reference k"
  shows "returns (kthen (ObDereferenceObject (x + BODY_OFFSET)) (kreturn STATUS_SUCCESS)) t
      (\<lambda>status u. status = STATUS_SUCCESS \<and> ob_inv u Os \<and> ob_frame t u
        \<and> (\<exists>h'. headers u x = Some h' \<and> WaitQueue h' = WaitQueue k \<and> SignalState h' = SignalState k))"
  unfolding returns_kthen returns_kreturn
proof (rule returns_mono [OF ObDereferenceObject_inv [OF t lt(1)]])
  fix a :: unit and u
  assume u: "ob_inv u (abs_deref Os x k) \<and> ob_frame t u
    \<and> (\<forall>y. links_header (headers u y) = links_header (((headers t)(x \<mapsto> k\<lparr>PointerCount := PointerCount k - 1\<rparr>)) y))"
  then have "links_header (headers u x) = links_header (Some (k\<lparr>PointerCount := PointerCount k - 1\<rparr>))"
    by (metis fun_upd_same)
  from links_header_Some [OF this]
  show "STATUS_SUCCESS = STATUS_SUCCESS \<and> ob_inv u Os \<and> ob_frame t u
      \<and> (\<exists>h'. headers u x = Some h' \<and> WaitQueue h' = WaitQueue k \<and> SignalState h' = SignalState k)"
    using u lt(2) by (auto simp: abs_deref_def)
qed

text \<open>Its beginning: the handle is looked up and the object referenced.\<close>

lemma handle_referenced:
  assumes g: "sched_good s L" and inv: "ob_inv s Os"
    and c: "procs s (KeCurrentProcess s) = Some c" "unat hnd < MAX_HANDLE_COUNT"
      "HtObject (HandleTable c (unat hnd)) = x + BODY_OFFSET" "x + BODY_OFFSET \<noteq> 0"
    and h: "headers s x = Some h" "PointerCount h \<noteq> - 1"
  shows "x \<noteq> 0" and "Magic h = OBJECT_MAGIC" and "0 < PointerCount h" and "HandleCount h < PointerCount h + 1"
    and "ObReferenceObjectByHandle hnd 0 s = Some (Return (STATUS_SUCCESS, x + BODY_OFFSET) (referenced s x h))"
    and "ob_inv (referenced s x h) Os" and "sched_good (referenced s x h) L"
proof -
  have sinv: "sched_inv s L" using g by (simp add: sched_good_def)
  have cnz: "KeCurrentProcess s \<noteq> 0" using sched_invD [OF sinv] by metis
  have ok: "header_ok s Os x h" using ob_invD(2) [OF inv h(1)] .
  then show x: "x \<noteq> 0" "Magic h = OBJECT_MAGIC" by (simp_all add: header_ok_def)
  obtain h0 where "headers s (OBJECT_BODY_TO_HEADER (x + BODY_OFFSET)) = Some h0" "HandleCount h0 > 0"
    using ob_inv_slot [OF inv c(1,2,3,4)] by metis
  then have "HandleCount h > 0" using h(1) by simp
  then show pc: "0 < PointerCount h" using ok by (auto simp: header_ok_def intro: less_le_trans)
  show "HandleCount h < PointerCount h + 1"
    using ok h(2) by (simp add: header_ok_def word_less_nat_alt word_le_nat_alt unat_plus_one)
  show "ObReferenceObjectByHandle hnd 0 s = Some (Return (STATUS_SUCCESS, x + BODY_OFFSET) (referenced s x h))"
    using ObReferenceObjectByHandle_result [OF cnz c(1), of hnd h 0] c h(1) x by (simp add: not_le)
  show "ob_inv (referenced s x h) Os" using ob_inv_referenced [OF inv h(1) _ h(2)] pc by simp
  show "sched_good (referenced s x h) L" unfolding referenced_def by (rule sched_good_headers [OF g])
qed

lemma wait_signalled:
  assumes g: "sched_good s L" and inv: "ob_inv s Os"
    and c: "procs s (KeCurrentProcess s) = Some c" "unat hnd < MAX_HANDLE_COUNT"
      "HtObject (HandleTable c (unat hnd)) = x + BODY_OFFSET" "x + BODY_OFFSET \<noteq> 0"
    and h: "headers s x = Some h" "PointerCount h \<noteq> - 1" and sig: "SignalState h \<noteq> 0"
  shows "returns (ObWaitForSingleObject hnd) s (\<lambda>status t. status = STATUS_SUCCESS \<and> sched_good t L
        \<and> ob_inv t Os \<and> KeCurrentProcess t = KeCurrentProcess s)"
proof -
  note r = handle_referenced [OF g inv c h]
  let ?s1 = "referenced s x h" and ?drop = "kthen (ObDereferenceObject (x + BODY_OFFSET)) (kreturn STATUS_SUCCESS)"
  have h1: "headers ?s1 x = Some (h\<lparr>PointerCount := PointerCount h + 1\<rparr>)" by (simp add: referenced_def)
  have "ObWaitForSingleObject hnd s = ?drop ?s1"
    using r(1,2,5) h1 sig by (simp add: ObWaitForSingleObject_def run Let_def ASSERT_OBJECT_def)
  then have E: "returns (ObWaitForSingleObject hnd) s Q = returns ?drop ?s1 Q" for Q by (rule returns_eq)
  show ?thesis
    unfolding E
  proof (rule returns_mono [OF drop_reference [OF r(6) h1]], goal_cases)
    case (3 status u)
    then show ?case
      using sched_good_ob_frame [OF _ r(7)] ob_frame_current [of ?s1 u] by (simp add: referenced_def)
  qed (use r(3,4) in \<open>auto simp: last_reference_def\<close>)
qed

text \<open>
  An object that is not signalled gets a new first waiter; then the process blocks, and whoever
  runs next drops the reference.
\<close>

definition with_waiter :: "kstate \<Rightarrow> addr \<Rightarrow> OBJECT_HEADER \<Rightarrow> kstate" where
  "with_waiter s x h = (referenced s x h)\<lparr>freeMemPointer := ALIGN_MEMORY (freeMemPointer s + 8),
     waitents := (waitents s)(freeMemPointer s \<mapsto> wait_entry (KeCurrentProcess s) (WaitQueue h)),
     headers := (headers s)(x \<mapsto> h\<lparr>PointerCount := PointerCount h + 1, WaitQueue := freeMemPointer s\<rparr>)\<rparr>"

lemma with_waiter_sel [simp]:
  "headers (with_waiter s x h) x = Some (h\<lparr>PointerCount := PointerCount h + 1, WaitQueue := freeMemPointer s\<rparr>)"
  "KeCurrentProcess (with_waiter s x h) = KeCurrentProcess s"
  "waitents (with_waiter s x h) = (waitents s)(freeMemPointer s \<mapsto> wait_entry (KeCurrentProcess s) (WaitQueue h))"
  by (simp_all add: with_waiter_def referenced_def)

lemma with_waiter_inv:
  assumes "sched_good s L" and "ob_inv (referenced s x h) Os" and "mm_room s 8"
  shows "sched_good (with_waiter s x h) L" and "ob_inv (with_waiter s x h) Os"
proof -
  show "sched_good (with_waiter s x h) L"
    by (rule sched_good_same [OF _ _ _ _ _ assms(1)])
       (simp_all add: same_queues_def with_waiter_def referenced_def ALIGN_MEMORY_grows [OF assms(3)])
  let ?s1 = "referenced s x h" and ?h1 = "h\<lparr>PointerCount := PointerCount h + 1\<rparr>"
  have h1: "headers ?s1 x = Some ?h1" by (simp add: referenced_def)
  have "ob_inv (?s1\<lparr>headers := (headers ?s1)(x \<mapsto> ?h1\<lparr>WaitQueue := freeMemPointer s\<rparr>)\<rparr>) Os"
    by (rule ob_inv_header [OF assms(2) h1]) simp_all
  then show "ob_inv (with_waiter s x h) Os" by (rule ob_inv_same [rotated 4]) (simp_all add: with_waiter_def referenced_def)
qed

lemma with_waiter_queue:
  assumes "wait_queue s x es" and "headers s x = Some h" and "freeMemPointer s \<notin> set es" and "freeMemPointer s \<noteq> 0"
    and "waitents u = waitents (with_waiter s x h)" and "headers u x = Some h'" and "WaitQueue h' = freeMemPointer s"
  shows "wait_queue u x (freeMemPointer s # es)" and "waiter u = (waiter s)(freeMemPointer s := KeCurrentProcess s)"
proof -
  have nw: "nextWait u = (nextWait s)(freeMemPointer s \<mapsto> WaitQueue h)"
    using assms(5) by (auto simp: nextWait_def wait_entry_def fun_eq_iff)
  have "chain (nextWait u) (freeMemPointer s) (freeMemPointer s # es)"
    unfolding nw using wait_queueD [OF assms(1,2)] assms(3,4) by (simp add: seg_upd_other)
  then show "wait_queue u x (freeMemPointer s # es)" using assms(6,7) by (simp add: wait_queue_def)
  show "waiter u = (waiter s)(freeMemPointer s := KeCurrentProcess s)"
    using assms(5) by (auto simp: waiter_def wait_entry_def fun_eq_iff)
qed

lemma wait_resumes:
  assumes g: "sched_good (with_waiter s x h) L" and inv: "ob_inv (with_waiter s x h) Os"
    and h: "headers s x = Some h" "0 < PointerCount h" "HandleCount h < PointerCount h + 1" "SignalState h = 0"
    and q: "wait_queue s x es" "freeMemPointer s \<notin> set es" "freeMemPointer s \<noteq> 0"
    and t: "sched_inv t L'" "KeCurrentProcess t = n" "quantum_ok t" "ke_frame (with_waiter s x h) t"
      "mnodes t = mnodes (with_waiter s x h)" "processQueue t = processQueue (with_waiter s x h)"
  shows "returns (kthen (ObDereferenceObject (x + BODY_OFFSET)) (kreturn STATUS_SUCCESS)) t
     (\<lambda>status t. status = STATUS_SUCCESS \<and> sched_good t L' \<and> KeCurrentProcess t = n \<and> ob_inv t Os
        \<and> wait_queue t x (freeMemPointer s # es) \<and> waiter t = (waiter s)(freeMemPointer s := KeCurrentProcess s)
        \<and> SignalState (the (headers t x)) = 0)"
proof -
  let ?s3 = "with_waiter s x h" and ?k = "h\<lparr>PointerCount := PointerCount h + 1, WaitQueue := freeMemPointer s\<rparr>"
  have "mq_inv ?s3" using g by (simp add: sched_good_def)
  then have "mq_inv t" using t ke_frame_free [OF t(4)] by (intro mq_inv_grow [of t ?s3]) simp_all
  then have gt: "sched_good t L'" using t by (simp add: sched_good_def)
  have it: "ob_inv t Os" using ob_inv_ke_frame [OF t(4) inv] .
  have ht: "headers t x = Some ?k" using ke_frame_headers [OF t(4)] by simp
  have nl: "\<not> last_reference ?k" using h(2) by (auto simp: last_reference_def)
  have D: "returns (kthen (ObDereferenceObject (x + BODY_OFFSET)) (kreturn STATUS_SUCCESS)) t
      (\<lambda>status u. status = STATUS_SUCCESS \<and> ob_inv u Os \<and> ob_frame t u
        \<and> (\<exists>h'. headers u x = Some h' \<and> WaitQueue h' = freeMemPointer s \<and> SignalState h' = 0))"
    using drop_reference [OF it ht _ nl] h(3,4) by simp
  show ?thesis
  proof (rule returns_mono [OF D], elim conjE exE)
    fix status u h'
    assume u: "status = STATUS_SUCCESS" "ob_inv u Os" "ob_frame t u" "headers u x = Some h'"
      "WaitQueue h' = freeMemPointer s" "SignalState h' = 0"
    have "waitents u = waitents ?s3" using ke_frame_waitents [OF t(4)] ob_frame_waitents [OF u(3)] by simp
    from with_waiter_queue [OF q(1) h(1) q(2,3) this u(4,5)]
    show "status = STATUS_SUCCESS \<and> sched_good u L' \<and> KeCurrentProcess u = n \<and> ob_inv u Os
        \<and> wait_queue u x (freeMemPointer s # es) \<and> waiter u = (waiter s)(freeMemPointer s := KeCurrentProcess s)
        \<and> SignalState (the (headers u x)) = 0"
      using u sched_good_ob_frame [OF u(3) gt] ob_frame_current [OF u(3)] t(2) by simp
  qed
qed

lemma ObWaitForSingleObject_lists:
  assumes g: "sched_good s L" and inv: "ob_inv s Os"
    and c: "procs s (KeCurrentProcess s) = Some c" "unat hnd < MAX_HANDLE_COUNT"
      "HtObject (HandleTable c (unat hnd)) = x + BODY_OFFSET" "x + BODY_OFFSET \<noteq> 0"
    and h: "headers s x = Some h" "PointerCount h \<noteq> - 1"
    and q: "wait_queue s x es" "freeMemPointer s \<notin> set es" "freeMemPointer s \<noteq> 0" "mm_room s 8"
  shows "if SignalState h \<noteq> 0 then
      returns (ObWaitForSingleObject hnd) s (\<lambda>status t. status = STATUS_SUCCESS \<and> sched_good t L
        \<and> ob_inv t Os \<and> KeCurrentProcess t = KeCurrentProcess s)
    else (case abs_block L (KeCurrentProcess s) of
      Some (n, L') \<Rightarrow> returns (ObWaitForSingleObject hnd) s (\<lambda>status t. status = STATUS_SUCCESS
        \<and> sched_good t L' \<and> KeCurrentProcess t = n \<and> ob_inv t Os
        \<and> wait_queue t x (freeMemPointer s # es) \<and> waiter t = (waiter s)(freeMemPointer s := KeCurrentProcess s)
        \<and> SignalState (the (headers t x)) = 0)
    | None \<Rightarrow> halts (ObWaitForSingleObject hnd) s no_process_left)"
proof (cases "SignalState h = 0")
  case False
  then show ?thesis using wait_signalled [OF g inv c h] by simp
next
  case True
  note r = handle_referenced [OF g inv c h]
  let ?s3 = "with_waiter s x h"
  let ?drop = "kthen (ObDereferenceObject (x + BODY_OFFSET)) (kreturn STATUS_SUCCESS)"
  have h1: "headers (referenced s x h) x = Some (h\<lparr>PointerCount := PointerCount h + 1\<rparr>)" by (simp add: referenced_def)
  have eq: "ObWaitForSingleObject hnd s = kthen KeBlockProcess ?drop ?s3"
    using r(1,2,5) True q(3) h1
    by (simp add: ObWaitForSingleObject_def run Let_def ASSERT_OBJECT_def wait_entry_def with_waiter_def)
       (simp add: referenced_def)
  note g3 = with_waiter_inv [OF g r(6) q(4)]
  have s3: "sched_inv ?s3 L" using g3(1) by (simp add: sched_good_def)
  note blk = KeBlockProcess_lists [OF s3, unfolded with_waiter_sel]
  show ?thesis
  proof (cases "abs_block L (KeCurrentProcess s)")
    case None
    then show ?thesis using blk True by (simp add: halts_def eq run no_process_left_def)
  next
    case (Some y)
    have B: "returns KeBlockProcess ?s3 (\<lambda>_ t. sched_inv t (snd y) \<and> KeCurrentProcess t = fst y
        \<and> quantum_ok t \<and> ke_frame ?s3 t \<and> mnodes t = mnodes ?s3 \<and> processQueue t = processQueue ?s3)"
      using blk Some by (simp add: case_prod_unfold)
    have E: "returns (ObWaitForSingleObject hnd) s Q = returns (kthen KeBlockProcess ?drop) ?s3 Q" for Q
      by (rule returns_eq) (rule eq)
    show ?thesis
      unfolding E returns_kthen [of KeBlockProcess] using Some True
      by (simp add: case_prod_unfold) (rule returns_mono [OF B], elim conjE, rule wait_resumes [OF g3 h(1) r(3,4) True q(1-3)])
  qed
qed

lemma abs_block_sleeping:
  assumes "abs_block L cur = Some (n, L')"
  shows "sleeping L' q \<longleftrightarrow> sleeping L q \<or> q = cur"
  using assms
  by (auto simp: abs_block_def abs_reschedule_def sleeping_def Let_def split: option.splits if_splits)

section \<open>Properties\<close>

text \<open>C20: signalling an object wakes exactly the processes in its wait queue, all of them; the
  object is signalled and its queue empty afterwards, and the scheduler's and the object
  manager's data stay consistent.\<close>

theorem ObSignalObject_wakes:
  assumes "sched_good s L" and "ob_inv s Os" and "headers s x = Some h" and "wait_queue s x es"
    and "distinct (map (waiter s) es)" and "\<forall>a \<in> set es. sleeping L (waiter s a)"
  shows "returns (ObSignalObject (x + BODY_OFFSET)) s (\<lambda>_ t. ob_inv t Os
     \<and> headers t = (headers s)(x \<mapsto> h\<lparr>SignalState := 1, WaitQueue := 0\<rparr>)
     \<and> (\<exists>L'. sched_good t L' \<and> woken L (waiter s ` set es) L'))"
  by (rule ObSignalObject_lists [OF assms])

definition wait_demo :: kstate where
  "wait_demo = ps_demo\<lparr>waitents := [0x8400 \<mapsto> wait_entry 0x3000 0],
     headers := (headers ps_demo)(0xFE0 \<mapsto> (ps_header 0 1 0x1FE0)\<lparr>WaitQueue := 0x8400\<rparr>)\<rparr>"

theorem ObSignalObject_wakes_witness:
  "returns (ObSignalObject 0x1000) wait_demo (\<lambda>_ t. \<exists>L'. sched_good t L' \<and> \<not> sleeping L' 0x3000 \<and> sleeping L' 0x4000)"
proof -
  have g: "sched_good wait_demo sched_demo_lists"
    by (rule sched_good_same [OF _ _ _ _ _ ps_demo_good]) (simp_all add: wait_demo_def same_queues_def)
  have "ob_inv (ps_demo\<lparr>headers := (headers ps_demo)(0xFE0 \<mapsto> (ps_header 0 1 0x1FE0)\<lparr>WaitQueue := 0x8400\<rparr>)\<rparr>) ps_demo_lists"
    by (rule ob_inv_header [OF ps_demo_ob_inv ps_demo_headers(2)]) simp_all
  then have i: "ob_inv wait_demo ps_demo_lists"
    by (rule ob_inv_same [rotated 4]) (simp_all add: wait_demo_def)
  have q: "wait_queue wait_demo 0xFE0 [0x8400]"
    by (simp add: wait_queue_def wait_demo_def nextWait_def wait_entry_def)
  have w: "waiter wait_demo 0x8400 = 0x3000" by (simp add: waiter_def wait_demo_def wait_entry_def)
  have h: "headers wait_demo 0xFE0 = Some ((ps_header 0 1 0x1FE0)\<lparr>WaitQueue := 0x8400\<rparr>)" by (simp add: wait_demo_def)
  have "returns (ObSignalObject (0xFE0 + BODY_OFFSET)) wait_demo (\<lambda>_ t. \<exists>L'. sched_good t L'
      \<and> \<not> sleeping L' 0x3000 \<and> sleeping L' 0x4000)"
  proof (rule returns_mono [OF ObSignalObject_wakes [OF g i h q]])
    have sl: "sleeping sched_demo_lists 0x3000" "sleeping sched_demo_lists 0x4000"
      by (simp_all add: sleeping_def sched_demo_lists_def)
    then show "\<forall>a \<in> set [0x8400]. sleeping sched_demo_lists (waiter wait_demo a)" by (simp add: w)
    fix a :: unit and t
    assume "ob_inv t ps_demo_lists
      \<and> headers t = (headers wait_demo)(0xFE0 \<mapsto> (ps_header 0 1 0x1FE0)\<lparr>WaitQueue := 0x8400, SignalState := 1, WaitQueue := 0\<rparr>)
      \<and> (\<exists>L'. sched_good t L' \<and> woken sched_demo_lists (waiter wait_demo ` set [0x8400]) L')"
    then obtain L' where L': "sched_good t L'" "woken sched_demo_lists (waiter wait_demo ` set [0x8400]) L'" by blast
    then have "\<not> sleeping L' 0x3000 \<and> sleeping L' 0x4000" using sl by (simp add: w woken_def)
    then show "\<exists>L'. sched_good t L' \<and> \<not> sleeping L' 0x3000 \<and> sleeping L' 0x4000" using L'(1) by blast
  qed simp
  then show ?thesis by (simp add: BODY_OFFSET_def)
qed

text \<open>waiting for an object that is signalled returns at once; otherwise the current process
  blocks as the newest entry of the object's wait queue and another process runs (or the
  kernel stops when none is ready).  The reference taken for the check is dropped again.\<close>

theorem ObWaitForSingleObject_blocks:
  assumes "sched_good s L" and "ob_inv s Os"
    and "procs s (KeCurrentProcess s) = Some c" and "unat hnd < MAX_HANDLE_COUNT"
    and "HtObject (HandleTable c (unat hnd)) = x + BODY_OFFSET" and "x + BODY_OFFSET \<noteq> 0"
    and "headers s x = Some h" and "PointerCount h \<noteq> - 1"
    and "wait_queue s x es" and "freeMemPointer s \<notin> set es" and "freeMemPointer s \<noteq> 0" and "mm_room s 8"
  shows "if SignalState h \<noteq> 0 then
      returns (ObWaitForSingleObject hnd) s (\<lambda>status t. status = STATUS_SUCCESS \<and> sched_good t L
        \<and> ob_inv t Os \<and> KeCurrentProcess t = KeCurrentProcess s)
    else (case abs_block L (KeCurrentProcess s) of
      Some (n, L') \<Rightarrow> returns (ObWaitForSingleObject hnd) s (\<lambda>status t. status = STATUS_SUCCESS
        \<and> sched_good t L' \<and> KeCurrentProcess t = n \<and> ob_inv t Os
        \<and> wait_queue t x (freeMemPointer s # es) \<and> waiter t = (waiter s)(freeMemPointer s := KeCurrentProcess s)
        \<and> SignalState (the (headers t x)) = 0)
    | None \<Rightarrow> halts (ObWaitForSingleObject hnd) s no_process_left)"
  by (rule ObWaitForSingleObject_lists [OF assms])

lemma ps_demo_slot: "HtObject (HandleTable (set_slot 0 \<lparr>HtAttributes = 0, HtObject = 0x3000\<rparr>
    (demo_process 1 running 3)) (unat (0 :: u32))) = 0x2FE0 + BODY_OFFSET"
  by (simp add: set_slot_def BODY_OFFSET_def)

lemma ps_demo_cur: "procs ps_demo (KeCurrentProcess ps_demo) = Some (set_slot 0 \<lparr>HtAttributes = 0, HtObject = 0x3000\<rparr>
    (demo_process 1 running 3))"
  by simp

lemma ps_demo_wait: "wait_queue ps_demo 0x2FE0 []" "unat (0 :: u32) < MAX_HANDLE_COUNT" "mm_room ps_demo 8"
  by (simp_all add: wait_queue_def ps_header_def MAX_HANDLE_COUNT_def mm_room_def)

theorem ObWaitForSingleObject_blocks_witness:
  "returns (ObWaitForSingleObject 0) ps_demo (\<lambda>status t. status = STATUS_SUCCESS
     \<and> KeCurrentProcess t = 0x2000 \<and> wait_queue t 0x2FE0 [0x9000])"
proof -
  obtain L' where b: "abs_block sched_demo_lists 0x1000 = Some (0x2000, L')" using sched_demo_block by auto
  have nz: "0x2FE0 + BODY_OFFSET \<noteq> 0" by (simp add: BODY_OFFSET_def)
  show ?thesis
    using ObWaitForSingleObject_blocks [OF ps_demo_good ps_demo_ob_inv ps_demo_cur ps_demo_wait(2) ps_demo_slot nz
        ps_demo_headers(4) _ ps_demo_wait(1) _ _ ps_demo_wait(3)] b
    by (simp add: ps_header_def) (erule returns_mono, simp)
qed

text \<open>C23: no wake-up is lost: a process that waits for an object which is not signalled is awake
  again once the object is signalled, together with all that waited before.\<close>

theorem wait_then_signal:
  assumes "sched_good s L" and "ob_inv s Os"
    and "procs s (KeCurrentProcess s) = Some c" and "unat hnd < MAX_HANDLE_COUNT"
    and "HtObject (HandleTable c (unat hnd)) = x + BODY_OFFSET" and "x + BODY_OFFSET \<noteq> 0"
    and "headers s x = Some h" and "PointerCount h \<noteq> - 1" and "SignalState h = 0"
    and "wait_queue s x es" and "freeMemPointer s \<notin> set es" and "freeMemPointer s \<noteq> 0" and "mm_room s 8"
    and "distinct (map (waiter s) es)" and "\<forall>a \<in> set es. sleeping L (waiter s a)"
    and "abs_block L (KeCurrentProcess s) = Some (n, L')"
  shows "returns (kthen (ObWaitForSingleObject hnd) (ObSignalObject (x + BODY_OFFSET))) s (\<lambda>_ t.
     ob_inv t Os \<and> (\<exists>L''. sched_good t L'' \<and> \<not> sleeping L'' (KeCurrentProcess s)
       \<and> woken L (waiter s ` set es) L''))"
proof -
  let ?cur = "KeCurrentProcess s" and ?e = "freeMemPointer s"
  have sinv: "sched_inv s L" using assms(1) by (simp add: sched_good_def)
  have awake: "\<not> sleeping L ?cur"
    using sched_invD [OF sinv] sleeping_member [of s L ?cur]
    by (metis PROCESS_STATE.distinct option.inject)
  have fresh: "?cur \<notin> waiter s ` set es" using assms(15) awake by auto
  show ?thesis
    unfolding returns_kthen
  proof (rule returns_mono)
    show "returns (ObWaitForSingleObject hnd) s (\<lambda>status t. status = STATUS_SUCCESS
        \<and> sched_good t L' \<and> KeCurrentProcess t = n \<and> ob_inv t Os
        \<and> wait_queue t x (?e # es) \<and> waiter t = (waiter s)(?e := ?cur) \<and> SignalState (the (headers t x)) = 0)"
      using ObWaitForSingleObject_lists [OF assms(1-8,10-13)] assms(9,16) by simp
  next
    fix status t
    assume t: "status = STATUS_SUCCESS
        \<and> sched_good t L' \<and> KeCurrentProcess t = n \<and> ob_inv t Os
        \<and> wait_queue t x (?e # es) \<and> waiter t = (waiter s)(?e := ?cur) \<and> SignalState (the (headers t x)) = 0"
    then obtain h' where h': "headers t x = Some h'" by (auto simp: wait_queue_def)
    have w: "map (waiter t) (?e # es) = ?cur # map (waiter s) es" using t assms(11) by auto
    then have ws: "waiter t ` set (?e # es) = insert ?cur (waiter s ` set es)" by (metis list.set_map list.simps(15))
    have "distinct (map (waiter t) (?e # es))" unfolding w using assms(14) fresh by simp
    moreover have "\<forall>p \<in> insert ?cur (waiter s ` set es). sleeping L' p"
      using abs_block_sleeping [OF assms(16)] assms(15) by simp
    then have "\<forall>p \<in> waiter t ` set (?e # es). sleeping L' p" unfolding ws .
    then have "\<forall>a \<in> set (?e # es). sleeping L' (waiter t a)" by (simp only: ball_simps)
    ultimately have "returns (ObSignalObject (x + BODY_OFFSET)) t (\<lambda>_ u. ob_inv u Os
       \<and> headers u = (headers t)(x \<mapsto> h'\<lparr>SignalState := 1, WaitQueue := 0\<rparr>)
       \<and> (\<exists>L''. sched_good u L'' \<and> woken L' (waiter t ` set (?e # es)) L''))"
      using t by (intro ObSignalObject_lists [OF _ _ h']) simp_all
    then show "returns (ObSignalObject (x + BODY_OFFSET)) t (\<lambda>_ u.
       ob_inv u Os \<and> (\<exists>L''. sched_good u L'' \<and> \<not> sleeping L'' ?cur \<and> woken L (waiter s ` set es) L''))"
      unfolding ws by (rule returns_mono)
        (use abs_block_sleeping [OF assms(16)] awake in \<open>auto simp: woken_def\<close>)
  qed
qed

theorem wait_then_signal_witness:
  "returns (kthen (ObWaitForSingleObject 0) (ObSignalObject 0x3000)) ps_demo (\<lambda>_ t.
     \<exists>L''. sched_good t L'' \<and> \<not> sleeping L'' 0x1000)"
proof -
  obtain L' where b: "abs_block sched_demo_lists (KeCurrentProcess ps_demo) = Some (0x2000, L')"
    using sched_demo_block by auto
  have nz: "0x2FE0 + BODY_OFFSET \<noteq> 0" by (simp add: BODY_OFFSET_def)
  have "returns (kthen (ObWaitForSingleObject 0) (ObSignalObject (0x2FE0 + BODY_OFFSET))) ps_demo (\<lambda>_ t.
      ob_inv t ps_demo_lists \<and> (\<exists>L''. sched_good t L'' \<and> \<not> sleeping L'' (KeCurrentProcess ps_demo)
       \<and> woken sched_demo_lists (waiter ps_demo ` set []) L''))"
    by (rule wait_then_signal [OF ps_demo_good ps_demo_ob_inv ps_demo_cur ps_demo_wait(2) ps_demo_slot nz
        ps_demo_headers(4) _ _ ps_demo_wait(1) _ _ ps_demo_wait(3) _ _ b]) (simp_all add: ps_header_def)
  then show ?thesis by (simp add: BODY_OFFSET_def) (erule returns_mono, auto)
qed

end
