(* ===== verification/KdLine.thy ===== *)
theory KdLine
  imports KdCommand RtlFormat
begin

text \<open>
  What the kernel debugger prints.  \<open>printed xs s t\<close>: between the states \<open>s\<close> and \<open>t\<close>
  nothing happened but the printing of the text \<open>xs\<close> on the debugger line, each newline
  followed by a carriage return.  Every printing function returns as long as the line gets
  ready again and again (\<open>line_ready\<close>), and prints what the reference text says.
\<close>

section \<open>The debugger line\<close>

definition crlf :: "byte list \<Rightarrow> byte list" where
  "crlf xs = concat (map (\<lambda>c. if c = 10 then [10, 13] else [c]) xs)"

definition line_ready :: "kstate \<Rightarrow> bool" where
  "line_ready s \<longleftrightarrow> (\<forall>n. \<exists>m \<ge> n. tty2Ready s m)"

definition printed :: "byte list \<Rightarrow> kstate \<Rightarrow> kstate \<Rightarrow> bool" where
  "printed xs s t \<longleftrightarrow>
     (\<exists>k. t = s\<lparr>kdOut := kdOut s @ crlf xs, tty2Ready := (\<lambda>n. tty2Ready s (n + k))\<rparr>)"

lemma crlf_append [simp]: "crlf (xs @ ys) = crlf xs @ crlf ys"
  by (simp add: crlf_def)

lemma crlf_simps [simp]: "crlf [] = []" "crlf (c # xs) = (if c = 10 then [10, 13] else [c]) @ crlf xs"
  by (simp_all add: crlf_def)

lemma printed_Nil [simp]: "printed [] s s"
  by (auto simp: printed_def intro: exI [of _ 0])

lemma printed_trans: "printed xs s t \<Longrightarrow> printed ys t u \<Longrightarrow> printed (xs @ ys) s u"
proof -
  assume "printed xs s t" and "printed ys t u"
  then obtain j k where t: "t = s\<lparr>kdOut := kdOut s @ crlf xs, tty2Ready := (\<lambda>n. tty2Ready s (n + j))\<rparr>"
    and u: "u = t\<lparr>kdOut := kdOut t @ crlf ys, tty2Ready := (\<lambda>n. tty2Ready t (n + k))\<rparr>"
    by (auto simp: printed_def)
  have "u = s\<lparr>kdOut := kdOut s @ crlf (xs @ ys), tty2Ready := (\<lambda>n. tty2Ready s (n + (k + j)))\<rparr>"
    unfolding u t by (simp add: add.assoc)
  then show ?thesis unfolding printed_def by blast
qed

lemma printed_mem: "printed xs s t \<Longrightarrow> mem t = mem s"
  by (auto simp: printed_def)

lemma printed_ready: "printed xs s t \<Longrightarrow> line_ready s \<Longrightarrow> line_ready t"
proof -
  assume p: "printed xs s t" and s: "line_ready s"
  from p obtain k where t: "tty2Ready t = (\<lambda>n. tty2Ready s (n + k))" by (auto simp: printed_def)
  show "line_ready t"
    unfolding line_ready_def t
  proof
    fix n
    obtain m where "m \<ge> n + k" "tty2Ready s m" using s by (auto simp: line_ready_def)
    then show "\<exists>m \<ge> n. tty2Ready s (m + k)" by (intro exI [of _ "m - k"]) auto
  qed
qed

text \<open>Printing one text after the other.\<close>

lemma printed_seq:
  assumes "returns m s (\<lambda>_ t. printed xs s t)" and "line_ready s"
    and "\<And>t. line_ready t \<Longrightarrow> mem t = mem s \<Longrightarrow> returns n t (\<lambda>_ u. printed ys t u)"
  shows "returns (kthen m n) s (\<lambda>_ u. printed (xs @ ys) s u)"
  unfolding returns_kthen
proof (rule returns_mono [OF assms(1)])
  fix a t
  assume p: "printed xs s t"
  show "returns n t (\<lambda>_ u. printed (xs @ ys) s u)"
    by (rule returns_mono [OF assms(3) [OF printed_ready [OF p assms(2)] printed_mem [OF p]]])
       (rule printed_trans [OF p])
qed

lemma poll_tty2:
  assumes "line_ready s"
  shows "returns (kloop poll_tty2_step ()) s (\<lambda>_ t. printed [] s t)"
proof -
  obtain m where "tty2Ready s m" using assms by (auto simp: line_ready_def)
  then show ?thesis
  proof (induction m arbitrary: s)
    case 0
    then show ?case
      by (subst returns_kloop) (auto simp: poll_tty2_step_def kern printed_def intro!: exI [of _ "Suc 0"])
  next
    case (Suc m)
    let ?t = "s\<lparr>tty2Ready := (\<lambda>n. tty2Ready s (Suc n))\<rparr>"
    have t: "printed [] s ?t" by (auto simp: printed_def intro!: exI [of _ "Suc 0"])
    have "returns (kloop poll_tty2_step ()) ?t (\<lambda>_ u. printed [] ?t u)"
      by (rule Suc.IH) (simp add: Suc.prems)
    then have "returns (kloop poll_tty2_step ()) ?t (\<lambda>_ u. printed [] s u)"
      by (rule returns_mono) (use printed_trans [OF t] in force)
    then show ?case
      using t by (subst returns_kloop) (simp add: poll_tty2_step_def kern)
  qed
qed

lemma print_raw:
  assumes "line_ready s"
  shows "returns (kthen (kloop poll_tty2_step ()) (kmodify (\<lambda>s. s\<lparr>kdOut := kdOut s @ xs\<rparr>))) s
    (\<lambda>_ t. \<exists>k. t = s\<lparr>kdOut := kdOut s @ xs, tty2Ready := (\<lambda>n. tty2Ready s (n + k))\<rparr>)"
  unfolding kern
proof (rule returns_mono [OF poll_tty2 [OF assms]])
  fix t
  assume "printed [] s t"
  then obtain k where "t = s\<lparr>kdOut := kdOut s @ [], tty2Ready := (\<lambda>n. tty2Ready s (n + k))\<rparr>"
    by (auto simp: printed_def)
  then have "t\<lparr>kdOut := kdOut t @ xs\<rparr> = s\<lparr>kdOut := kdOut s @ xs, tty2Ready := (\<lambda>n. tty2Ready s (n + k))\<rparr>"
    by simp
  then show "\<exists>k. t\<lparr>kdOut := kdOut t @ xs\<rparr> = s\<lparr>kdOut := kdOut s @ xs, tty2Ready := (\<lambda>n. tty2Ready s (n + k))\<rparr>"
    by blast
qed

lemma KdpPrintChar_prints:
  assumes "line_ready s"
  shows "returns (KdpPrintChar c) s (\<lambda>_ t. printed [c] s t)"
proof (cases "c = 10")
  case False
  then show ?thesis
    using print_raw [OF assms, of "[c]"] by (simp add: KdpPrintChar_def kern printed_def)
next
  case True
  have e: "KdpPrintChar 10 = kthen (kthen (kloop poll_tty2_step ()) (kmodify (\<lambda>s. s\<lparr>kdOut := kdOut s @ [10]\<rparr>)))
      (kthen (kloop poll_tty2_step ()) (kmodify (\<lambda>s. s\<lparr>kdOut := kdOut s @ [13]\<rparr>)))"
    by (rule ext) (simp add: KdpPrintChar_def kthen_def kbind_def kwhen_def split: option.split outcome.split)
  show ?thesis
    unfolding True e returns_kthen [where m = "kthen _ _"]
  proof (rule returns_mono [OF print_raw [OF assms]])
    fix t
    assume "\<exists>k. t = s\<lparr>kdOut := kdOut s @ [10], tty2Ready := (\<lambda>n. tty2Ready s (n + k))\<rparr>"
    then obtain k where t: "t = s\<lparr>kdOut := kdOut s @ [10], tty2Ready := (\<lambda>n. tty2Ready s (n + k))\<rparr>" ..
    have "line_ready t"
      using assms by (simp add: t line_ready_def) (metis add_leE le_add_diff_inverse2 le_diff_conv2)
    note r = print_raw [OF this, of "[13]"]
    have u: "printed [10] s (t\<lparr>kdOut := kdOut t @ [13], tty2Ready := (\<lambda>n. tty2Ready t (n + j))\<rparr>)" for j
      unfolding printed_def by (rule exI [of _ "j + k"]) (simp add: t add.assoc)
    show "returns (kthen (kloop poll_tty2_step ()) (kmodify (\<lambda>s. s\<lparr>kdOut := kdOut s @ [13]\<rparr>))) t
        (\<lambda>_ u. printed [10] s u)"
      by (rule returns_mono [OF r]) (use u in blast)
  qed
qed

section \<open>Numbers and strings\<close>

lemma print_maybe:
  assumes "line_ready s" and "b \<Longrightarrow> returns m s (\<lambda>_ t. printed xs s t)"
  shows "returns (if b then m else kreturn ()) s (\<lambda>_ t. printed (if b then xs else []) s t)"
  using assms by (simp add: kern)

lemma KdpPrintUlong_prints:
  "line_ready s \<Longrightarrow> returns (KdpPrintUlong n) s (\<lambda>_ t. printed (decimal (unat n)) s t)"
proof (induction n arbitrary: s rule: KdpPrintUlong.induct)
  case (1 n)
  let ?xs = "if n div 10 \<noteq> 0 then decimal (unat (n div 10)) else []"
  have "returns (kthen (if n div 10 \<noteq> 0 then KdpPrintUlong (n div 10) else kreturn ())
      (KdpPrintChar (ucast (n mod 10 + 48)))) s (\<lambda>_ t. printed (?xs @ [ucast (n mod 10 + 48)]) s t)"
    by (rule printed_seq [OF print_maybe [OF 1(2)] 1(2) KdpPrintChar_prints]) (use 1 in auto)
  moreover have "?xs @ [ucast (n mod 10 + 48)] = decimal (unat n)"
    by (subst decimal.simps) (simp add: div_10_zero unat_div digit_byte)
  ultimately show ?case by (subst KdpPrintUlong.simps) simp
qed

lemma KdpPrintHex_prints:
  "line_ready s \<Longrightarrow> returns (KdpPrintHex n) s (\<lambda>_ t. printed (hexadecimal (unat n)) s t)"
proof (induction n arbitrary: s rule: KdpPrintHex.induct)
  case (1 n)
  let ?xs = "if drop_bit 4 n \<noteq> 0 then hexadecimal (unat (drop_bit 4 n)) else []"
  let ?d = "if and n 15 < 10 then ucast (and n 15) + 48 else ucast (and n 15) + 65 - 10 :: byte"
  have z: "drop_bit 4 n = 0 \<longleftrightarrow> unat n < 16"
    by (simp add: unat_eq_zero [symmetric] unat_drop_bit_4 div_eq_0_iff)
  have "returns (kthen (if drop_bit 4 n \<noteq> 0 then KdpPrintHex (drop_bit 4 n) else kreturn ())
      (KdpPrintChar ?d)) s (\<lambda>_ t. printed (?xs @ [?d]) s t)"
    by (rule printed_seq [OF print_maybe [OF 1(2)] 1(2) KdpPrintChar_prints]) (use 1 in auto)
  moreover have "?xs @ [?d] = hexadecimal (unat n)"
    unfolding hexadecimal.simps [of "unat n"] hex_digit_byte z by (simp add: unat_drop_bit_4)
  ultimately show ?case by (subst KdpPrintHex.simps) (simp only: Let_def)
qed

lemma KdpPrintLong_unfold:
  "0 \<le> n \<Longrightarrow> KdpPrintLong n = kthen (if n sdiv 10 \<noteq> 0 then KdpPrintLong (n sdiv 10) else kreturn ())
     (KdpPrintChar (of_int (n smod 10 + 48)))"
  by (subst KdpPrintLong.simps) (simp add: kwhen_def kthen_def kbind_return Let_def not_less)

lemma KdpPrintLong_nonneg:
  "0 \<le> n \<Longrightarrow> line_ready s \<Longrightarrow> returns (KdpPrintLong n) s (\<lambda>_ t. printed (decimal (nat n)) s t)"
proof (induction n arbitrary: s rule: KdpPrintLong.induct)
  case (1 n)
  have m: "n = (if n < 0 then neg32 n else n)" using 1(2) by simp
  note sd = sdiv_nonneg [OF 1(2)]
  let ?xs = "if n div 10 \<noteq> 0 then decimal (nat (n div 10)) else []"
  have pre: "returns (KdpPrintLong (n div 10)) s (\<lambda>_ t. printed (decimal (nat (n div 10))) s t)"
    if "n div 10 \<noteq> 0"
    using 1(1) [OF m, of s] that 1(2,3) by (simp add: sd)
  have "returns (kthen (if n div 10 \<noteq> 0 then KdpPrintLong (n div 10) else kreturn ())
      (KdpPrintChar (of_int (n mod 10 + 48)))) s (\<lambda>_ t. printed (?xs @ [of_int (n mod 10 + 48)]) s t)"
    by (rule printed_seq [OF print_maybe [OF 1(3) pre] 1(3) KdpPrintChar_prints])
  moreover have "?xs @ [of_int (n mod 10 + 48)] = decimal (nat n)"
    unfolding digit_int [OF 1(2)] decimal.simps [of "nat n"]
    using 1(2) by (auto simp: nat_div_distrib zdiv_eq_0_iff)
  ultimately show ?case by (simp only: KdpPrintLong_unfold [OF 1(2)] sd)
qed


lemma KdpPrintLong_prints:
  assumes "line_ready s" and n: "n \<noteq> - (2 ^ 31)"
  shows "returns (KdpPrintLong n) s (\<lambda>_ t. printed (signed_decimal n) s t)"
proof (cases "n < 0")
  case False
  then show ?thesis
    using KdpPrintLong_nonneg [OF _ assms(1), of n] by (simp add: signed_decimal_def)
next
  case True
  have e: "KdpPrintLong n = kthen (KdpPrintChar 45) (KdpPrintLong (- n))"
    using True n KdpPrintLong_unfold [of "- n"]
    by (subst KdpPrintLong.simps) (simp add: neg32_def kwhen_def Let_def chr_def)
  have s: "signed_decimal n = [45] @ decimal (nat (- n))" using True by (simp add: signed_decimal_def)
  show ?thesis
    unfolding e s
    by (rule printed_seq [OF KdpPrintChar_prints [OF assms(1)] assms(1) KdpPrintLong_nonneg])
      (use True in auto)
qed

lemma KdpPrintString_prints:
  "str_at (mem s) p xs \<Longrightarrow> line_ready s \<Longrightarrow> returns (KdpPrintString p) s (\<lambda>_ t. printed xs s t)"
  unfolding KdpPrintString_def
proof (induction xs arbitrary: p s)
  case Nil
  then show ?case by (subst returns_kloop) (simp add: print_string_step_def kern)
next
  case (Cons x xs)
  have "returns (kthen (KdpPrintChar x) (kloop print_string_step (p + 1))) s
      (\<lambda>_ t. printed ([x] @ xs) s t)"
    by (rule printed_seq [OF KdpPrintChar_prints [OF Cons.prems(2)] Cons.prems(2) Cons.IH])
      (use Cons.prems(1) in auto)
  then show ?case
    using Cons.prems(1) by (subst returns_kloop) (simp add: print_string_step_def kern)
qed

section \<open>Formatted output\<close>

text \<open>The text of one conversion is printed by the function the format selects.\<close>

definition print_conversion :: "byte \<Rightarrow> u32 \<Rightarrow> unit kern" where
  "print_conversion f a =
     (if f = chr CHR ''d'' then KdpPrintLong (sint a)
      else if f = chr CHR ''c'' then KdpPrintChar (ucast a)
      else if f = chr CHR ''x'' then KdpPrintHex a
      else if f = chr CHR ''u'' then KdpPrintUlong a
      else KdpPrintString a)"

lemma print_conversion_prints:
  assumes "conversion S f a = Some ys" and "argument_ok S (mem s) {} f a" and "line_ready s"
  shows "returns (print_conversion f a) s (\<lambda>_ t. printed ys s t)"
  using assms
  by (auto simp: print_conversion_def conversion_def argument_ok_def KdpPrintLong_prints
      KdpPrintChar_prints KdpPrintHex_prints KdpPrintUlong_prints KdpPrintString_prints
      split: if_splits)

lemma print_ex_conversion:
  assumes "format \<noteq> 0" "mem s format = 37" "format + 1 \<noteq> 0" "mem s (format + 1) = f"
    and "conversion S f (args i) = Some ys"
  shows "returns (kloop (print_ex_step args) (format, i)) s Q =
    returns (kthen (print_conversion f (args i)) (kloop (print_ex_step args) (format + 2, i + 1))) s Q"
proof -
  have "f = 100 \<or> f = 99 \<or> f = 120 \<or> f = 117 \<or> f = 115"
    using assms(5) by (auto simp: conversion_def split: if_splits)
  then show ?thesis
    using assms(1-4) by (subst returns_kloop) (auto simp: print_ex_step_def print_conversion_def kern)
qed

lemma print_ex_other:
  assumes "format \<noteq> 0" "mem s format = 37" "format + 1 \<noteq> 0" "mem s (format + 1) = f"
    and "conversion S f (args i) = None"
  shows "returns (kloop (print_ex_step args) (format, i)) s Q =
    returns (kthen (KdpPrintChar 37) (kthen (KdpPrintChar f)
      (kloop (print_ex_step args) (format + 2, i)))) s Q"
proof -
  have "f \<noteq> 100" "f \<noteq> 99" "f \<noteq> 120" "f \<noteq> 117" "f \<noteq> 115"
    using assms(5) by (auto simp: conversion_def)
  then show ?thesis
    using assms(1-4) by (subst returns_kloop) (simp add: print_ex_step_def kern)
qed

lemma format_ok_no_buffer: "format_ok S M B args i fs \<Longrightarrow> format_ok S M {} args i fs"
  by (induction S M B args i fs rule: format_ok.induct)
    (auto simp: argument_ok_def split: if_splits)

lemma print_ex_end:
  "format \<noteq> 0 \<Longrightarrow> mem s format = 0 \<Longrightarrow> returns (kloop (print_ex_step args) (format, i)) s Q = Q () s"
  by (subst returns_kloop) (simp add: print_ex_step_def kern)

lemma print_ex_loop:
  assumes "str_at (mem s) format fs" and "format_ok S (mem s) {} args i fs" and "line_ready s"
  shows "returns (kloop (print_ex_step args) (format, i)) s (\<lambda>_ t. printed (expand S args i fs) s t)"
  using assms
proof (induction S args i fs arbitrary: s format rule: expand.induct)
  case (1 S args i)
  then show ?case by (simp add: print_ex_end)
next
  case (2 S args i c)
  have "returns (kthen (KdpPrintChar c) (kloop (print_ex_step args) (format + 1, i))) s
      (\<lambda>_ t. printed ([c] @ []) s t)"
    by (rule printed_seq [OF KdpPrintChar_prints [OF 2(3)] 2(3)])
      (use 2 in \<open>simp add: print_ex_end\<close>)
  then show ?case
    using 2 by (subst returns_kloop) (simp add: print_ex_step_def kern)
next
  case (3 S args i c f fs)
  have c: "format \<noteq> 0" "mem s format = c" "c \<noteq> 0" "str_at (mem s) (format + 1) (f # fs)"
    and f: "format + 1 \<noteq> 0" "mem s (format + 1) = f" "str_at (mem s) (format + 2) fs"
    using 3(4) by (auto simp: add.assoc)
  show ?case
  proof (cases "c = chr CHR ''%''")
    case False
    have "returns (kthen (KdpPrintChar c) (kloop (print_ex_step args) (format + 1, i))) s
        (\<lambda>_ t. printed ([c] @ expand S args i (f # fs)) s t)"
      by (rule printed_seq [OF KdpPrintChar_prints [OF 3(6)] 3(6) 3(3) [OF False]])
        (use 3(5) c(4) False in auto)
    then show ?thesis
      using False c by (subst returns_kloop) (simp add: print_ex_step_def kern)
  next
    case True
    then have c37: "mem s format = 37" using c(2) by simp
    show ?thesis
    proof (cases "conversion S f (args i)")
      case None
      have "returns (kthen (KdpPrintChar 37) (kthen (KdpPrintChar f)
          (kloop (print_ex_step args) (format + 2, i)))) s (\<lambda>_ t. printed ([37] @ [f] @ expand S args i fs) s t)"
        by (rule printed_seq [OF KdpPrintChar_prints [OF 3(6)] 3(6)],
            rule printed_seq [OF KdpPrintChar_prints _ 3(1) [OF True None]])
          (use 3(5) f(3) True None in auto)
      then show ?thesis
        unfolding print_ex_other [where args = args and i = i, OF c(1) c37 f(1,2) None] using True None by simp
    next
      case (Some ys)
      have a: "argument_ok S (mem s) {} f (args i)" using 3(5) True by simp
      have "returns (kthen (print_conversion f (args i)) (kloop (print_ex_step args) (format + 2, i + 1))) s
          (\<lambda>_ t. printed (ys @ expand S args (i + 1) fs) s t)"
        by (rule printed_seq [OF print_conversion_prints [OF Some a 3(6)] 3(6) 3(2) [OF True Some]])
          (use 3(5) f(3) True Some in auto)
      then show ?thesis
        unfolding print_ex_conversion [where args = args and i = i, OF c(1) c37 f(1,2) Some] using True Some by simp
    qed
  qed
qed

end
