(* ===== verification/KdSpec.thy ===== *)
theory KdSpec
  imports KdLine Demo RtlSpec
begin

text \<open>
  Properties of the kernel debugger: its formatter against the one of the runtime library,
  and its line editor against the abstract editing of a text.
\<close>

section \<open>Formatted output\<close>

text \<open>C34: the kernel debugger's own formatter prints the same text that \<^verbatim>\<open>RtlFormatString\<close> stores
  in a buffer: both produce the reference text of the format, the debugger with a carriage
  return sent after every newline (the newline first, then the carriage return), as long as its line gets ready again and again.\<close>

theorem KdpPrintEx_equivalent:
  assumes "str_at (mem s) format fs" and "format_ok S (mem s) (span str (unat sz)) args 0 fs"
    and "line_ready s" and "sz > 0" and "0 \<notin> span str (unat sz)"
    and "span format (Suc (length fs)) \<inter> span str (unat sz) = {}"
  shows "returns (KdpPrintEx format args) s (\<lambda>_ t. \<exists>k. t = s\<lparr>
        kdOut := kdOut s @ crlf (expand S args 0 fs), tty2Ready := (\<lambda>n. tty2Ready s (n + k))\<rparr>)
     \<and> returns (on_mem (RtlFormatString str sz format args)) s (\<lambda>n t.
        n = of_nat (length (expand S args 0 fs))
        \<and> t = s\<lparr>mem := poke (mem s) str (take (unat sz - 1) (expand S args 0 fs) @ [0])\<rparr>)"
proof
  have ok: "format_ok S (mem s) {} args 0 fs"
    using assms(2) by (rule format_ok_no_buffer)
  show "returns (KdpPrintEx format args) s (\<lambda>_ t. \<exists>k. t = s\<lparr>
        kdOut := kdOut s @ crlf (expand S args 0 fs), tty2Ready := (\<lambda>n. tty2Ready s (n + k))\<rparr>)"
    using print_ex_loop [OF assms(1) ok assms(3)] by (simp add: KdpPrintEx_def printed_def)
  show "returns (on_mem (RtlFormatString str sz format args)) s (\<lambda>n t.
        n = of_nat (length (expand S args 0 fs))
        \<and> t = s\<lparr>mem := poke (mem s) str (take (unat sz - 1) (expand S args 0 fs) @ [0])\<rparr>)"
    unfolding returns_on_mem by (rule returnsI, rule RtlFormatString_expand [OF assms(1,2,4,5,6)]) simp
qed

definition kd_demo :: kstate where
  "kd_demo = boot_state\<lparr>mem := demo_memory\<rparr>"

lemma kd_demo_fields: "mem kd_demo = demo_memory" "line_ready kd_demo"
  by (auto simp: kd_demo_def boot_state_def line_ready_def)

theorem KdpPrintEx_equivalent_witness:
  "returns (KdpPrintEx 0x100 (\<lambda>_. 31415)) kd_demo (\<lambda>_ t. \<exists>k. t = kd_demo\<lparr>
        kdOut := kdOut kd_demo @ crlf (expand (\<lambda>_. []) (\<lambda>_. 31415) 0 [37, 117]),
        tty2Ready := (\<lambda>n. tty2Ready kd_demo (n + k))\<rparr>)
     \<and> returns (on_mem (RtlFormatString 0x200 4 0x100 (\<lambda>_. 31415))) kd_demo (\<lambda>n t.
        n = of_nat (length (expand (\<lambda>_. []) (\<lambda>_. 31415) 0 [37, 117]))
        \<and> t = kd_demo\<lparr>mem := poke (mem kd_demo) 0x200
             (take (unat (4 :: u32) - 1) (expand (\<lambda>_. []) (\<lambda>_. 31415) 0 [37, 117]) @ [0])\<rparr>)"
  by (rule KdpPrintEx_equivalent)
    (simp_all add: kd_demo_fields demo_memory_strings span_numeral argument_ok_def)

section \<open>The line editor\<close>

text \<open>
  The line typed so far, abstractly: a backspace removes the last character, a printable
  character is added while there is room, anything else is ignored.  \<open>echo\<close> is what the
  user sees of it.
\<close>

definition erases :: "byte \<Rightarrow> bool" where
  "erases c \<longleftrightarrow> c = 8 \<or> c = 127"

definition accepts :: "byte \<Rightarrow> byte list \<Rightarrow> bool" where
  "accepts c line \<longleftrightarrow> \<not> erases c \<and> sint c > 31 \<and> sint c < 127 \<and> length line < 159"

definition edit :: "byte \<Rightarrow> byte list \<Rightarrow> byte list" where
  "edit c line = (if erases c then butlast line else if accepts c line then line @ [c] else line)"

definition echo :: "byte \<Rightarrow> byte list \<Rightarrow> byte list" where
  "echo c line = (if erases c \<and> line \<noteq> [] then [27, 91, 68, 32, 27, 91, 68]
     else if accepts c line then [c] else [])"

text \<open>The buffer holds the line; the escape sequence that erases is where the program has it.\<close>

definition erase_text :: "image \<Rightarrow> addr" where
  "erase_text img = literal img (ESC # ''[D '' @ ESC # ''[D'')"

definition kd_line :: "image \<Rightarrow> kstate \<Rightarrow> byte list \<Rightarrow> bool" where
  "kd_line img s line \<longleftrightarrow> commandBufferPosition s = of_nat (length line) \<and> length line < 160
     \<and> bytes_at (mem s) (commandBuffer img) line \<and> 0 \<notin> span (commandBuffer img) 160 \<and> line_ready s
     \<and> str_at (mem s) (erase_text img) [27, 91, 68, 32, 27, 91, 68]
     \<and> span (erase_text img) 8 \<inter> span (commandBuffer img) 160 = {}"

lemma kd_line_position: "kd_line img s line \<Longrightarrow> unat (commandBufferPosition s) = length line"
proof -
  assume "kd_line img s line"
  then have "commandBufferPosition s = of_nat (length line)" "length line < 160"
    by (simp_all add: kd_line_def)
  then show ?thesis by (simp add: unsigned_of_nat take_bit_nat_eq_self)
qed

lemma printed_fields:
  "printed xs s t \<Longrightarrow> mem t = mem s \<and> commandBufferPosition t = commandBufferPosition s
     \<and> kdOut t = kdOut s @ crlf xs"
  by (auto simp: printed_def)

lemma kd_lineD:
  assumes "kd_line img s line"
  shows "length line < 160" and "commandBufferPosition s = of_nat (length line)"
    and "bytes_at (mem s) (commandBuffer img) line" and "0 \<notin> span (commandBuffer img) 160" and "line_ready s"
    and "str_at (mem s) (erase_text img) [27, 91, 68, 32, 27, 91, 68]"
    and "span (erase_text img) 8 \<inter> span (commandBuffer img) 160 = {}"
  using assms by (simp_all add: kd_line_def)

text \<open>What the debugger may change while a line is typed.\<close>

definition kd_only :: "kstate \<Rightarrow> kstate \<Rightarrow> bool" where
  "kd_only s t \<longleftrightarrow> t = s\<lparr>mem := mem t, commandBufferPosition := commandBufferPosition t,
     kdOut := kdOut t, tty2Ready := tty2Ready t\<rparr>"

lemma kd_only_refl [simp]: "kd_only s s"
  by (simp add: kd_only_def)

lemma kd_only_printed: "printed xs (s\<lparr>commandBufferPosition := n\<rparr>) t \<Longrightarrow> kd_only s t" "printed xs s t \<Longrightarrow> kd_only s t"
  by (auto simp: printed_def kd_only_def)

lemma kd_only_store: "kd_only s t \<Longrightarrow> kd_only s (t\<lparr>mem := M, commandBufferPosition := n\<rparr>)"
  unfolding kd_only_def by (erule ssubst) simp

text \<open>One character of the line is erased, on the terminal too.\<close>

lemma KdCharacterReceived_erases:
  assumes k: "kd_line img s line" and c: "c \<noteq> 13" "erases c" "line \<noteq> []"
  shows "returns (KdCharacterReceived img c) s (\<lambda>_ t. kd_line img t (butlast line)
     \<and> kdOut t = kdOut s @ crlf [27, 91, 68, 32, 27, 91, 68] \<and> mem t = mem s \<and> kd_only s t)"
proof -
  let ?B = "commandBuffer img" and ?E = "erase_text img" and ?s = "s\<lparr>commandBufferPosition := commandBufferPosition s - 1\<rparr>"
  note D = kd_lineD [OF k]
  obtain l x where lx: "line = l @ [x]" using c(3) by (cases line rule: rev_cases) auto
  have gt: "commandBufferPosition s > 0" using kd_line_position [OF k] c(3) by (simp add: word_less_nat_alt)
  have r: "line_ready ?s" "str_at (mem ?s) ?E [27, 91, 68, 32, 27, 91, 68]"
    using D(5,6) by (simp_all add: line_ready_def)
  have bb: "bytes_at (mem s) ?B (butlast line)" using D(3) by (simp add: lx bytes_at_append)
  have "returns (KdpPrintString ?E) ?s (\<lambda>_ t. kd_line img t (butlast line)
      \<and> kdOut t = kdOut s @ crlf [27, 91, 68, 32, 27, 91, 68] \<and> mem t = mem s \<and> kd_only s t)"
  proof (rule returns_mono [OF KdpPrintString_prints [OF r(2,1)]])
    fix t
    assume p: "printed [27, 91, 68, 32, 27, 91, 68] ?s t"
    have f: "mem t = mem s" "commandBufferPosition t = commandBufferPosition s - 1"
      "kdOut t = kdOut s @ crlf [27, 91, 68, 32, 27, 91, 68]"
      using printed_fields [OF p] by (simp_all del: crlf_simps)
    have "commandBufferPosition t = of_nat (length (butlast line))" "length (butlast line) < 160"
      using f(2) D(1,2) by (simp_all add: lx)
    then show "kd_line img t (butlast line)
        \<and> kdOut t = kdOut s @ crlf [27, 91, 68, 32, 27, 91, 68] \<and> mem t = mem s \<and> kd_only s t"
      using f(3) kd_only_printed(1) [OF p] printed_ready [OF p r(1)] bb D(4,6,7)
      unfolding kd_line_def f(1) by (intro conjI refl)
  qed
  moreover have "returns (KdCharacterReceived img c) s Q = returns (KdpPrintString ?E) ?s Q" for Q
    using c gt by (simp add: KdCharacterReceived_def erase_text_def [symmetric] kern erases_def del: append_Cons)
  ultimately show ?thesis by simp
qed

lemma kd_line_append:
  assumes k: "kd_line img s line" and "length line < 159" and "line_ready t"
  shows "kd_line img (t\<lparr>mem := (mem s)(commandBuffer img + of_nat (length line) := c),
      commandBufferPosition := of_nat (length line) + 1\<rparr>) (line @ [c])"
proof -
  let ?B = "commandBuffer img" and ?E = "erase_text img"
  let ?a = "commandBuffer img + of_nat (length line)"
  note D = kd_lineD [OF k]
  have in_B: "?a \<in> span ?B 160" by (rule in_span [OF D(1)])
  then have nz: "?a \<noteq> 0" using D(4) by metis
  have new: "?a \<notin> span ?B (length line)" by (rule end_not_in_span) (use D(1) in simp)
  have b: "bytes_at ((mem s)(?a := c)) ?B line"
    using D(3) new by (subst bytes_at_cong [where N = "mem s"]) auto
  have l: "str_at ((mem s)(?a := c)) ?E [27, 91, 68, 32, 27, 91, 68]"
  proof -
    have "Suc (length [27, 91, 68, 32, 27, 91, 68 :: byte]) = 8" by simp
    then have "?a \<notin> span ?E (Suc (length [27, 91, 68, 32, 27, 91, 68 :: byte]))"
      using in_B D(7) by (simp only:) blast
    then show ?thesis using D(6) by (rule str_at_upd [THEN iffD2])
  qed
  show ?thesis
    using assms(2,3) b l nz D(4,7) unfolding kd_line_def kstate.simps
    by (intro conjI) (simp_all only: bytes_at_append bytes_at.simps, simp_all add: line_ready_def)
qed

text \<open>A printable character is appended while there is room, and echoed.\<close>

lemma KdCharacterReceived_accepts:
  assumes k: "kd_line img s line" and c: "c \<noteq> 13" "accepts c line"
  shows "returns (KdCharacterReceived img c) s (\<lambda>_ t. kd_line img t (line @ [c])
     \<and> kdOut t = kdOut s @ crlf [c] \<and> (\<forall>a. a \<notin> span (commandBuffer img) 160 \<longrightarrow> mem t a = mem s a) \<and> kd_only s t)"
proof -
  let ?a = "commandBuffer img + of_nat (length line)"
  note D = kd_lineD [OF k]
  have lt: "commandBufferPosition s < 160 - 1"
    using kd_line_position [OF k] c(2) by (simp add: word_less_nat_alt accepts_def)
  have e: "\<not> (c = 8 \<or> c = 127)" "sint c > 31" "sint c < 127" "length line < 159"
    using c(2) by (auto simp: accepts_def erases_def)
  have in_B: "?a \<in> span (commandBuffer img) 160" by (rule in_span [OF D(1)])
  then have nz: "?a \<noteq> 0" using D(4) by metis
  have "returns (KdpPrintChar c) s (\<lambda>_ t. kdOut t = kdOut s @ crlf [c]
      \<and> mem t = mem s \<and> commandBufferPosition t = of_nat (length line) \<and> line_ready t \<and> kd_only s t)"
    by (rule returns_mono [OF KdpPrintChar_prints [OF D(5)]])
      (use printed_fields printed_ready [OF _ D(5)] kd_only_printed(2) D(2) in auto)
  moreover have "returns (KdCharacterReceived img c) s Q = returns (KdpPrintChar c) s (\<lambda>_ t.
      ?a \<noteq> 0 \<and> Q () (t\<lparr>mem := (mem t)(?a := c), commandBufferPosition := commandBufferPosition t + 1\<rparr>))" for Q
    using c e lt by (simp add: KdCharacterReceived_def kern D(2))
  ultimately show ?thesis
    using nz in_B kd_line_append [OF k e(4)] kd_only_store by (simp del: crlf_simps) (erule returns_mono, auto)
qed

lemma KdCharacterReceived_frame:
  assumes k: "kd_line img s line" and c: "c \<noteq> 13"
  shows "returns (KdCharacterReceived img c) s (\<lambda>_ t. kd_line img t (edit c line)
     \<and> kdOut t = kdOut s @ crlf (echo c line)
     \<and> (\<forall>a. a \<notin> span (commandBuffer img) 160 \<longrightarrow> mem t a = mem s a) \<and> kd_only s t)"
proof -
  consider (erase) "erases c" "line \<noteq> []" | (bol) "erases c" "line = []"
    | (accept) "accepts c line" | (ignore) "\<not> erases c" "\<not> accepts c line" by blast
  then show ?thesis
  proof cases
    case erase
    show ?thesis
      using KdCharacterReceived_erases [OF k c erase] erase
      by (simp add: edit_def echo_def del: crlf_simps) (erule returns_mono, simp)
  next
    case bol
    then have "commandBufferPosition s = 0" using kd_lineD(2) [OF k] by simp
    then show ?thesis
      using bol c k by (simp add: KdCharacterReceived_def kern erases_def edit_def echo_def accepts_def)
  next
    case accept
    have "edit c line = line @ [c]" "echo c line = [c]"
      using accept by (auto simp: edit_def echo_def accepts_def)
    then show ?thesis using KdCharacterReceived_accepts [OF k c accept] by (simp del: crlf_simps)
  next
    case ignore
    have "\<not> (sint c > 31 \<and> sint c < 127 \<and> commandBufferPosition s < 160 - 1)"
      using ignore kd_line_position [OF k] by (simp add: word_less_nat_alt accepts_def)
    then show ?thesis
      using ignore c k by (auto simp add: KdCharacterReceived_def kern erases_def edit_def echo_def)
  qed
qed

lemma KdCharacterReceived_step:
  assumes "kd_line img s line" and "c \<noteq> 13"
  shows "returns (KdCharacterReceived img c) s (\<lambda>_ t. kd_line img t (edit c line)
     \<and> kdOut t = kdOut s @ crlf (echo c line)
     \<and> (\<forall>a. a \<notin> span (commandBuffer img) 160 \<longrightarrow> mem t a = mem s a))"
  by (rule returns_mono [OF KdCharacterReceived_frame [OF assms]]) blast

fun echoes :: "byte list \<Rightarrow> byte list \<Rightarrow> byte list" where
  "echoes [] line = []"
| "echoes (c # cs) line = crlf (echo c line) @ echoes cs (edit c line)"

text \<open>C35: typing any characters but the one that ends the line leaves the command buffer with the
  line as abstract editing gives it, at most 159 characters long, and echoes each keystroke; nothing outside the
  buffer changes.\<close>

theorem KdCharacterReceived_edits:
  assumes "kd_line img s line" and "13 \<notin> set cs"
  shows "returns (kfor cs (KdCharacterReceived img)) s (\<lambda>_ t. kd_line img t (fold edit cs line)
     \<and> unat (commandBufferPosition t) = length (fold edit cs line) \<and> length (fold edit cs line) \<le> 159
     \<and> bytes_at (mem t) (commandBuffer img) (fold edit cs line)
     \<and> kdOut t = kdOut s @ echoes cs line
     \<and> (\<forall>a. a \<notin> span (commandBuffer img) 160 \<longrightarrow> mem t a = mem s a))"
proof -
  have "returns (kfor cs (KdCharacterReceived img)) s (\<lambda>_ t. kd_line img t (fold edit cs line)
     \<and> kdOut t = kdOut s @ echoes cs line
     \<and> (\<forall>a. a \<notin> span (commandBuffer img) 160 \<longrightarrow> mem t a = mem s a))"
    using assms
  proof (induction cs arbitrary: s line)
    case Nil
    then show ?case by (simp add: kern)
  next
    case (Cons c cs)
    have c: "c \<noteq> 13" "13 \<notin> set cs" using Cons.prems(2) by auto
    show ?case
      unfolding returns_kfor_Cons
    proof (rule returns_mono [OF KdCharacterReceived_step [OF Cons.prems(1) c(1)]])
      fix t
      assume t: "kd_line img t (edit c line) \<and> kdOut t = kdOut s @ crlf (echo c line)
         \<and> (\<forall>a. a \<notin> span (commandBuffer img) 160 \<longrightarrow> mem t a = mem s a)"
      have IH: "returns (kfor cs (KdCharacterReceived img)) t (\<lambda>_ u.
          kd_line img u (fold edit cs (edit c line)) \<and> kdOut u = kdOut t @ echoes cs (edit c line)
          \<and> (\<forall>a. a \<notin> span (commandBuffer img) 160 \<longrightarrow> mem u a = mem t a))"
        using Cons.IH t c(2) by blast
      show "returns (kfor cs (KdCharacterReceived img)) t (\<lambda>_ u. kd_line img u (fold edit (c # cs) line)
         \<and> kdOut u = kdOut s @ echoes (c # cs) line
         \<and> (\<forall>a. a \<notin> span (commandBuffer img) 160 \<longrightarrow> mem u a = mem s a))"
        by (rule returns_mono [OF IH]) (use t in simp)
    qed
  qed
  then show ?thesis
    by (rule returns_mono) (use kd_line_position in \<open>force simp: kd_line_def\<close>)
qed

definition kd_image :: image where
  "kd_image = \<lparr>literal = (\<lambda>_. 0x400), code_address = (\<lambda>_. 0), commandBuffer = 0x300,
     stack_buffer = 0, stack_info = \<lparr>piState = ready, piRunningProgram = 0, piPID = 0, piPriority = 0, piCPUTime = 0\<rparr>\<rparr>"

definition kd_empty_line :: kstate where
  "kd_empty_line = boot_state\<lparr>mem := poke (\<lambda>_. 0) 0x400 [27, 91, 68, 32, 27, 91, 68, 0]\<rparr>"

lemma kd_empty_line_ok: "kd_line kd_image kd_empty_line []"
proof -
  have "span 0x400 8 \<inter> span 0x300 160 = {}"
    by (rule span_apart) simp_all
  moreover have "0 \<notin> span 0x300 160" by (rule span_nonnull) simp_all
  ultimately show ?thesis
    by (auto simp: kd_line_def kd_image_def kd_empty_line_def boot_state_def line_ready_def erase_text_def)
qed

text \<open>Typing \<^verbatim>\<open>ho\<close>, a backspace and \<^verbatim>\<open>i\<close> leaves \<^verbatim>\<open>hi\<close>.\<close>

theorem KdCharacterReceived_edits_witness:
  "fold edit [104, 111, 8, 105] [] = [104, 105]
   \<and> returns (kfor [104, 111, 8, 105] (KdCharacterReceived kd_image)) kd_empty_line (\<lambda>_ t.
     kd_line kd_image t (fold edit [104, 111, 8, 105] [])
     \<and> unat (commandBufferPosition t) = length (fold edit [104, 111, 8, 105] [])
     \<and> length (fold edit [104, 111, 8, 105] []) \<le> 159
     \<and> bytes_at (mem t) (commandBuffer kd_image) (fold edit [104, 111, 8, 105] [])
     \<and> kdOut t = kdOut kd_empty_line @ echoes [104, 111, 8, 105] []
     \<and> (\<forall>a. a \<notin> span (commandBuffer kd_image) 160 \<longrightarrow> mem t a = mem kd_empty_line a))"
proof
  show "fold edit [104, 111, 8, 105] [] = [104, 105]"
    by (simp add: edit_def erases_def accepts_def)
qed (rule KdCharacterReceived_edits [OF kd_empty_line_ok], simp)

end
