(* ===== verification/MmSpec.thy ===== *)
theory MmSpec
  imports Demo
begin

text \<open>The property of the memory manager.\<close>

text \<open>C36: as long as the address space lasts, the blocks of any sequence of allocations lie behind
  the first free address, are aligned to 4 bytes when that address is, and never overlap.\<close>

theorem MmAlloc_disjoint_blocks:
  assumes "unat (freeMemPointer s) + (\<Sum>n\<leftarrow>ns. unat n + 3) < 2 ^ 32"
  shows "returns (MmAllocs ns) s (\<lambda>ps t.
           length ps = length ns \<and> blocks_disjoint ps ns
           \<and> (\<forall>p \<in> set ps. unat (freeMemPointer s) \<le> unat p)
           \<and> (unat (freeMemPointer s) mod 4 = 0 \<longrightarrow> (\<forall>p \<in> set ps. unat p mod 4 = 0)))"
  using assms by (rule MmAllocs_blocks)

theorem MmAlloc_disjoint_blocks_witness:
  "returns (MmAllocs [5, 0, 12]) sched_demo (\<lambda>ps t.
     length ps = length [5, 0, 12 :: u32] \<and> blocks_disjoint ps [5, 0, 12]
     \<and> (\<forall>p \<in> set ps. unat (freeMemPointer sched_demo) \<le> unat p)
     \<and> (unat (freeMemPointer sched_demo) mod 4 = 0 \<longrightarrow> (\<forall>p \<in> set ps. unat p mod 4 = 0)))"
  by (rule MmAlloc_disjoint_blocks) (simp add: sched_demo_def)

end
