(* ===== verification/UserApi.thy ===== *)
theory UserApi
  imports KdCommand
begin

text \<open>
  The interface of the user programs, \<^verbatim>\<open>include/api.h\<close>.  Its functions are assembler stubs that
  trap into the kernel, and other processes may run before they return: for a program they
  are parameters, the fields of \<open>system_calls\<close>.  What a program does between its calls is
  defined in the theories of the programs, over the same machine state as the kernel (the
  programs run in the kernel's address space).  Local arrays are passed as addresses.
\<close>

record system_calls =
  Sleep :: "u32 \<Rightarrow> unit kern"
  GetProcessId :: "u32 kern"
  GetPid :: "u32 \<Rightarrow> addr \<Rightarrow> u32 kern"
  GetProcessPriority :: "u32 kern"
  KillMe :: "unit kern"
  CreateProcess :: "addr \<Rightarrow> u32 \<Rightarrow> addr \<Rightarrow> addr \<Rightarrow> u32 kern"
  CreateFile :: "u32 \<Rightarrow> u32 kern"
  WriteFile :: "u32 \<Rightarrow> addr \<Rightarrow> u32 \<Rightarrow> u32 kern"
  ReadFile :: "u32 \<Rightarrow> addr \<Rightarrow> u32 \<Rightarrow> u32 kern"
  KillByPID :: "u32 \<Rightarrow> u32 \<Rightarrow> u32 kern"
  SendMessage :: "u32 \<Rightarrow> u32 \<Rightarrow> addr \<Rightarrow> u32 \<Rightarrow> u32 kern"
  ReceiveFirst :: "u32 \<Rightarrow> addr kern"
  ReceiveType :: "u32 \<Rightarrow> u32 \<Rightarrow> addr kern"
  GetMessageSize :: "addr \<Rightarrow> u32 kern"
  CopyMessage :: "addr \<Rightarrow> addr \<Rightarrow> u32 \<Rightarrow> u32 kern"
  DeleteMessage :: "addr \<Rightarrow> u32 kern"
  ChangePriority :: "u32 \<Rightarrow> u32 \<Rightarrow> u32 kern"
  GetProcessInfo :: "addr \<Rightarrow> u32 \<Rightarrow> addr \<Rightarrow> u32 kern"
  SuperviseProc :: "u32 \<Rightarrow> u32 \<Rightarrow> u32 kern"
  Malloc :: "u32 \<Rightarrow> addr kern"
  Free :: "addr \<Rightarrow> addr kern"
  GetUsedMemSum :: "u32 kern"
  WaitForSingleObject :: "u32 \<Rightarrow> u32 kern"
  CopyArgs :: "addr \<Rightarrow> u32 \<Rightarrow> u32 kern"
  CloseHandle :: "u32 \<Rightarrow> u32 kern"

definition CR :: char where "CR = CHR 0x0D"

definition load_u32 :: "addr \<Rightarrow> (memory, u32) kmonad" where
  "load_u32 a =
     kbind (rd a) (\<lambda>b0. kbind (rd (a + 1)) (\<lambda>b1. kbind (rd (a + 2)) (\<lambda>b2. kbind (rd (a + 3)) (\<lambda>b3.
     kreturn (or (ucast b0) (or (push_bit 8 (ucast b1))
       (or (push_bit 16 (ucast b2)) (push_bit 24 (ucast b3)))))))))"

text \<open>A call whose result the program does not use.\<close>

definition kcall :: "'a kern \<Rightarrow> unit kern" where
  "kcall m = kbind m (\<lambda>_. kreturn ())"

definition WriteString :: "system_calls \<Rightarrow> u32 \<Rightarrow> addr \<Rightarrow> unit kern" where
  "WriteString sys handle msg =
     kbind (on_mem (RtlStringLength msg)) (\<lambda>n. kcall (WriteFile sys handle msg (n + 1)))"

text \<open>Formatting into a local buffer, then writing it.\<close>

definition say :: "system_calls \<Rightarrow> u32 \<Rightarrow> addr \<Rightarrow> u32 \<Rightarrow> addr \<Rightarrow> u32 list \<Rightarrow> unit kern" where
  "say sys outp outstring n format args =
     kthen (kcall (on_mem (RtlFormatString outstring n format (arguments args))))
     (WriteString sys outp outstring)"

lemma returns_kcall [kern]: "returns (kcall m) s Q = returns m s (\<lambda>_ t. Q () t)"
  by (simp add: kcall_def kern)

end
