(* ===== verification/Dining.thy ===== *)
theory Dining
  imports UserApi
begin

text \<open>
  The dining philosophers, \<^verbatim>\<open>base/apps/waiter.c\<close> and \<^verbatim>\<open>base/apps/philosopher.c\<close>: five
  philosopher processes ask one waiter process for their forks by messages.
\<close>

section \<open>The waiter\<close>

record waiter =
  forksInUse :: u32
  freeForks :: "bool list"

definition fresh_waiter :: waiter where
  "fresh_waiter = \<lparr>forksInUse = 0, freeForks = replicate 5 True\<rparr>"

text \<open>
  What the waiter does with the first two characters of a message, and whether it answers.
  \<open>None\<close> is an access behind the end of the array \<^verbatim>\<open>freeForks\<close>.
\<close>

definition waiter_handle :: "byte \<Rightarrow> byte \<Rightarrow> waiter \<Rightarrow> (waiter \<times> bool) option" where
  "waiter_handle messType c w =
     (let forkNr = unat (scast c - 48 :: u32) in
      if messType = chr CHR ''D'' then
        if forkNr < 5 then
          Some (w\<lparr>forksInUse := forksInUse w - 1, freeForks := (freeForks w)[forkNr := True]\<rparr>, False)
        else None
      else if messType = chr CHR ''R'' then
        if forkNr < 5 then
          if freeForks w ! forkNr then
            Some (w\<lparr>forksInUse := forksInUse w + 1, freeForks := (freeForks w)[forkNr := False]\<rparr>, True)
          else Some (w, False)
        else None
      else if messType = chr CHR ''L'' then
        if forksInUse w < 4 then
          if forkNr < 5 then
            if freeForks w ! forkNr then
              Some (w\<lparr>forksInUse := forksInUse w + 1, freeForks := (freeForks w)[forkNr := False]\<rparr>, True)
            else Some (w, False)
          else None
        else Some (w, False)
      else Some (w, False))"

definition await_message :: "system_calls \<Rightarrow> unit \<Rightarrow> (unit + addr) kern" where
  "await_message sys _ =
     kbind (ReceiveFirst sys 5000) (\<lambda>m. kreturn (if m = 0 then Inl () else Inr m))"

definition waiter_step :: "system_calls \<Rightarrow> image \<Rightarrow> addr \<Rightarrow> waiter \<Rightarrow> waiter kern" where
  "waiter_step sys img myMessage w =
     kbind (kloop (await_message sys) ()) (\<lambda>message.
     kbind (GetMessageSize sys message) (\<lambda>n.
     kbind (CopyMessage sys myMessage message n) (\<lambda>status.
     kthen (kwhen (status \<noteq> 0)
              (KdPrint img (literal img ''to small buffer in waiter:%d'') (arguments [status])))
     (kbind (getMsg message) (\<lambda>tmpmess.
      let finalMess = msgBuffer tmpmess in
      kbind (on_mem (rd finalMess)) (\<lambda>messType.
      kbind (on_mem (rd (finalMess + 1))) (\<lambda>c.
      let philPid = senderPid tmpmess in
      (case waiter_handle messType c w of
         None \<Rightarrow> khalt Fault
       | Some (w, answer) \<Rightarrow>
           kthen (kwhen answer (kcall (SendMessage sys philPid 0 (literal img ''fork'') 5)))
           (kthen (kcall (DeleteMessage sys message))
           (kreturn w))))))))))"

definition waiter_round ::
  "system_calls \<Rightarrow> image \<Rightarrow> addr \<Rightarrow> nat \<times> waiter \<Rightarrow> ((nat \<times> waiter) + unit) kern" where
  "waiter_round sys img myMessage = (\<lambda>(i, w).
     if i < 300 then kbind (waiter_step sys img myMessage w) (\<lambda>w. kreturn (Inl (i + 1, w)))
     else kreturn (Inr ()))"

definition create_philosopher :: "system_calls \<Rightarrow> image \<Rightarrow> addr \<Rightarrow> addr \<Rightarrow> u32 \<Rightarrow> unit kern" where
  "create_philosopher sys img args philos i =
     kbind (GetProcessId sys) (\<lambda>pid.
     kthen (kcall (on_mem (RtlFormatString args 25 (literal img ''%d %d %d'') (arguments [i, (i + 1) mod 5, pid]))))
     (kbind (CreateProcess sys (literal img ''philosopher'') 5 philos args) (\<lambda>status.
      kwhen (status = 0)
        (kbind (on_mem (load_u32 philos)) (\<lambda>h. kcall (CloseHandle sys h))))))"

definition AppWaiter :: "system_calls \<Rightarrow> image \<Rightarrow> addr \<Rightarrow> addr \<Rightarrow> addr \<Rightarrow> unit kern" where
  "AppWaiter sys img philos args myMessage =
     kthen (kfor [0 ..< 5] (\<lambda>i. create_philosopher sys img args philos (of_nat i)))
     (kthen (kloop (waiter_round sys img myMessage) (0, fresh_waiter))
     (kthen (KdPrint img (literal img ''waiter kills itself'') (arguments []))
     (KillMe sys)))"

section \<open>A philosopher\<close>

definition get_fork_step :: "system_calls \<Rightarrow> u32 \<Rightarrow> addr \<Rightarrow> unit \<Rightarrow> (unit + addr) kern" where
  "get_fork_step sys WaiterPID mess _ =
     kthen (kcall (SendMessage sys WaiterPID 0 mess 3))
     (kbind (ReceiveFirst sys 4000) (\<lambda>m. kreturn (if m = 0 then Inl () else Inr m)))"

definition get_fork :: "system_calls \<Rightarrow> u32 \<Rightarrow> addr \<Rightarrow> unit kern" where
  "get_fork sys WaiterPID mess =
     kbind (kloop (get_fork_step sys WaiterPID mess) ()) (\<lambda>NewMess. kcall (DeleteMessage sys NewMess))"

text \<open>A message of a kind and a fork, as a string of two characters.\<close>

definition make_message :: "addr \<Rightarrow> byte \<Rightarrow> byte \<Rightarrow> (memory, unit) kmonad" where
  "make_message a kind fork = kthen (wr a kind) (kthen (wr (a + 1) fork) (wr (a + 2) 0))"

definition philosopher_arguments :: "addr \<Rightarrow> (memory, byte \<times> byte \<times> u32) kmonad" where
  "philosopher_arguments WaiterArgs =
     kbind (rd WaiterArgs) (\<lambda>LeftForkNum.
     kbind (rd (WaiterArgs + 2)) (\<lambda>RightForkNum.
     kbind (RtlAtoUL (WaiterArgs + 4)) (\<lambda>WaiterPID.
     kreturn (LeftForkNum, RightForkNum, WaiterPID))))"

record philosopher_arrays =
  LeftForkMess :: addr
  RightForkMess :: addr
  LeftDropMess :: addr
  RightDropMess :: addr
  WaiterArgs :: addr
  outstring :: addr

definition philosopher_round ::
  "system_calls \<Rightarrow> image \<Rightarrow> philosopher_arrays \<Rightarrow> u32 \<Rightarrow> u32 \<Rightarrow> unit \<Rightarrow> (unit + unit) kern" where
  "philosopher_round sys img a outp WaiterPID _ =
     (let report = (\<lambda>text. kbind (GetProcessId sys) (\<lambda>pid.
            say sys outp (outstring a) 80 (literal img text) [pid])) in
      kthen (report (''PID:%d THINKING'' @ [CR, NL]))
      (kthen (Sleep sys 2000)
      (kthen (get_fork sys WaiterPID (LeftForkMess a))
      (kthen (report (''PID:%d Got Left Fork'' @ [CR, NL]))
      (kthen (get_fork sys WaiterPID (RightForkMess a))
      (kthen (report (''PID:%d Got Right Fork EATING'' @ [CR, NL]))
      (kthen (Sleep sys 3000)
      (kthen (report (''PID:%d Dropping Left fork'' @ [CR, NL]))
      (kthen (kcall (SendMessage sys WaiterPID 0 (LeftDropMess a) 3))
      (kthen (report (''PID:%d Dropping right fork'' @ [CR, NL]))
      (kthen (kcall (SendMessage sys WaiterPID 0 (RightDropMess a) 3))
      (kreturn (Inl ())))))))))))))"

definition AppPhilosopher :: "system_calls \<Rightarrow> image \<Rightarrow> philosopher_arrays \<Rightarrow> unit kern" where
  "AppPhilosopher sys img a =
     kbind (CreateFile sys 115) (\<lambda>outp.
     kthen (kcall (CopyArgs sys (WaiterArgs a) 30))
     (kbind (on_mem (philosopher_arguments (WaiterArgs a))) (\<lambda>(LeftForkNum, RightForkNum, WaiterPID).
      kthen (on_mem (make_message (LeftForkMess a) (chr CHR ''L'') LeftForkNum))
      (kthen (on_mem (make_message (RightForkMess a) (chr CHR ''R'') RightForkNum))
      (kthen (on_mem (make_message (LeftDropMess a) (chr CHR ''D'') LeftForkNum))
      (kthen (on_mem (make_message (RightDropMess a) (chr CHR ''D'') RightForkNum))
      (kloop (philosopher_round sys img a outp WaiterPID) ())))))))"

end
