(* ===== verification/DiningSystem.thy ===== *)
theory DiningSystem
  imports Dining
begin

text \<open>
  The five philosophers and the waiter running side by side.  A state has the place each
  philosopher has reached in its loop, the answers that wait in its message queue, the
  waiter's message queue and the waiter's local variables.  One step is one send or receive of
  one process, in any order; message queues are first in, first out, as the message component
  keeps them.  A philosopher whose receive timed out sends its request again.

  The steps are an abstraction of the loops of \<open>Dining\<close>, made by reading them and not derived from
  \<open>waiter_round\<close> and \<open>philosopher_round\<close>: the waiter takes, handles and answers a message in one step, by the
  same \<open>waiter_handle\<close> as its loop, and no send fails.  The bound of 300 messages in the waiter's loop,
  after which it kills itself, is the guard of the step \<open>serve\<close>.
\<close>

section \<open>The steps\<close>

datatype place = Thinking | WaitsLeft | HasLeft | WaitsRight | Eating | DroppedLeft

type_synonym letter = "nat \<times> byte \<times> byte"

record dining =
  places :: "nat \<Rightarrow> place"
  answers :: "nat \<Rightarrow> nat"
  inbox :: "letter list"
  table :: waiter
  served :: nat

text \<open>The messages of the philosopher whose left fork is \<open>p\<close>.\<close>

definition right_fork :: "nat \<Rightarrow> nat" where
  "right_fork p = (p + 1) mod 5"

definition fork_name :: "nat \<Rightarrow> byte" where
  "fork_name f = of_nat (48 + f)"

definition left_request :: "nat \<Rightarrow> letter" where
  "left_request p = (p, chr CHR ''L'', fork_name p)"

definition right_request :: "nat \<Rightarrow> letter" where
  "right_request p = (p, chr CHR ''R'', fork_name (right_fork p))"

definition left_drop :: "nat \<Rightarrow> letter" where
  "left_drop p = (p, chr CHR ''D'', fork_name p)"

definition right_drop :: "nat \<Rightarrow> letter" where
  "right_drop p = (p, chr CHR ''D'', fork_name (right_fork p))"

definition send :: "nat \<Rightarrow> place \<Rightarrow> letter \<Rightarrow> dining \<Rightarrow> dining" where
  "send p pl m s = s\<lparr>places := (places s)(p := pl), inbox := inbox s @ [m]\<rparr>"

definition receive :: "nat \<Rightarrow> place \<Rightarrow> dining \<Rightarrow> dining" where
  "receive p pl s = s\<lparr>places := (places s)(p := pl), answers := (answers s)(p := answers s p - 1)\<rparr>"

inductive dining_step :: "dining \<Rightarrow> dining \<Rightarrow> bool" where
  ask_left: "p < 5 \<Longrightarrow> places s p = Thinking \<or> places s p = WaitsLeft \<Longrightarrow>
     dining_step s (send p WaitsLeft (left_request p) s)"
| get_left: "p < 5 \<Longrightarrow> places s p = WaitsLeft \<Longrightarrow> answers s p > 0 \<Longrightarrow>
     dining_step s (receive p HasLeft s)"
| ask_right: "p < 5 \<Longrightarrow> places s p = HasLeft \<or> places s p = WaitsRight \<Longrightarrow>
     dining_step s (send p WaitsRight (right_request p) s)"
| get_right: "p < 5 \<Longrightarrow> places s p = WaitsRight \<Longrightarrow> answers s p > 0 \<Longrightarrow>
     dining_step s (receive p Eating s)"
| drop_left: "p < 5 \<Longrightarrow> places s p = Eating \<Longrightarrow> dining_step s (send p DroppedLeft (left_drop p) s)"
| drop_right: "p < 5 \<Longrightarrow> places s p = DroppedLeft \<Longrightarrow> dining_step s (send p Thinking (right_drop p) s)"
| serve: "served s < 300 \<Longrightarrow> inbox s = (p, k, c) # ms \<Longrightarrow>
     waiter_handle k c (table s) = Some (w, answer) \<Longrightarrow>
     dining_step s (s\<lparr>inbox := ms, table := w, served := served s + 1,
       answers := (answers s)(p := answers s p + (if answer then 1 else 0))\<rparr>)"

definition dining_start :: dining where
  "dining_start = \<lparr>places = (\<lambda>_. Thinking), answers = (\<lambda>_. 0), inbox = [], table = fresh_waiter, served = 0\<rparr>"

inductive dining_reach :: "dining \<Rightarrow> bool" where
  start: "dining_reach dining_start"
| step: "dining_reach s \<Longrightarrow> dining_step s t \<Longrightarrow> dining_reach t"

section \<open>Who has which fork\<close>

definition has_left :: "place \<Rightarrow> bool" where
  "has_left pl \<longleftrightarrow> pl = HasLeft \<or> pl = WaitsRight \<or> pl = Eating"

definition has_right :: "place \<Rightarrow> bool" where
  "has_right pl \<longleftrightarrow> pl = Eating \<or> pl = DroppedLeft"

definition forks_of :: "dining \<Rightarrow> nat \<Rightarrow> nat set" where
  "forks_of s p = (if has_left (places s p) then {p} else {})
     \<union> (if has_right (places s p) then {right_fork p} else {})"

text \<open>
  A fork is away from the table from the moment the waiter answers until it has handled the
  message that drops the fork: as an answer on its way, in the philosopher's hand, or in a drop
  message on its way.
\<close>

definition left_out :: "dining \<Rightarrow> nat \<Rightarrow> nat" where
  "left_out s p = (if places s p = WaitsLeft then answers s p else 0)
     + (if has_left (places s p) then 1 else 0) + count_list (inbox s) (left_drop p)"

definition right_out :: "dining \<Rightarrow> nat \<Rightarrow> nat" where
  "right_out s p = (if places s p = WaitsRight then answers s p else 0)
     + (if has_right (places s p) then 1 else 0) + count_list (inbox s) (right_drop p)"

definition away :: "bool list \<Rightarrow> nat \<Rightarrow> nat" where
  "away fs f = (if fs ! f then 0 else 1)"

definition left_neighbour :: "nat \<Rightarrow> nat" where
  "left_neighbour p = (p + 4) mod 5"

text \<open>\<open>pending x y ms\<close>: some \<open>x\<close> in the queue has no \<open>y\<close> behind it.\<close>

fun pending :: "'a \<Rightarrow> 'a \<Rightarrow> 'a list \<Rightarrow> bool" where
  "pending x y [] \<longleftrightarrow> False"
| "pending x y (m # ms) \<longleftrightarrow> m = x \<and> y \<notin> set ms \<or> pending x y ms"

definition letters :: "letter set" where
  "letters = (\<Union>p \<in> {..< 5}. {left_request p, right_request p, left_drop p, right_drop p})"

definition dining_inv :: "dining \<Rightarrow> bool" where
  "dining_inv s \<longleftrightarrow>
     length (freeForks (table s)) = 5
     \<and> unat (forksInUse (table s)) = length (filter Not (freeForks (table s)))
     \<and> (\<forall>f < 5. away (freeForks (table s)) f = left_out s f + right_out s (left_neighbour f))
     \<and> (\<Sum>p < 5. left_out s p) \<le> 4
     \<and> (\<forall>p < 5. places s p \<noteq> WaitsLeft \<and> places s p \<noteq> WaitsRight \<longrightarrow> answers s p = 0)
     \<and> (\<forall>p < 5. pending (left_request p) (left_drop p) (inbox s) \<longrightarrow>
          places s p = WaitsLeft \<or> has_left (places s p))
     \<and> (\<forall>p < 5. pending (right_request p) (right_drop p) (inbox s) \<longrightarrow>
          places s p = WaitsRight \<or> has_right (places s p))
     \<and> set (inbox s) \<subseteq> letters"

lemma less_5_cases:
  assumes "p < (5 :: nat)"
  obtains "p = 0" | "p = 1" | "p = 2" | "p = 3" | "p = 4"
  using assms by linarith

lemma fork_name_eq [simp]: "f < 5 \<Longrightarrow> g < 5 \<Longrightarrow> fork_name f = fork_name g \<longleftrightarrow> f = g"
  by (elim less_5_cases) (simp_all add: fork_name_def)

lemma right_fork_less [simp]: "right_fork p < 5"
  by (simp add: right_fork_def)

lemma right_fork_neq [simp]: "p < 5 \<Longrightarrow> right_fork p \<noteq> p" "p < 5 \<Longrightarrow> p \<noteq> right_fork p"
  by (elim less_5_cases; simp add: right_fork_def)+

lemma neighbour [simp]: "p < 5 \<Longrightarrow> left_neighbour (right_fork p) = p" "f < 5 \<Longrightarrow> right_fork (left_neighbour f) = f"
  "left_neighbour f < 5"
  by (elim less_5_cases; simp add: right_fork_def left_neighbour_def)+ (simp add: left_neighbour_def)

lemma letter_eq [simp]:
  assumes "p < 5" and "q < 5"
  shows "left_drop p = left_drop q \<longleftrightarrow> p = q" "right_drop p = right_drop q \<longleftrightarrow> p = q"
    "left_request p = left_request q \<longleftrightarrow> p = q" "right_request p = right_request q \<longleftrightarrow> p = q"
    "left_drop p \<noteq> right_drop q" "right_drop p \<noteq> left_drop q"
    "left_request p \<noteq> left_drop q" "left_request p \<noteq> right_drop q" "left_request p \<noteq> right_request q"
    "right_request p \<noteq> left_drop q" "right_request p \<noteq> right_drop q" "right_request p \<noteq> left_request q"
    "left_drop p \<noteq> left_request q" "left_drop p \<noteq> right_request q"
    "right_drop p \<noteq> left_request q" "right_drop p \<noteq> right_request q"
  using assms right_fork_neq [of p] right_fork_neq [of q]
  by (auto simp: left_drop_def right_drop_def left_request_def right_request_def chr_def)

lemma pending_append:
  "x \<noteq> y \<Longrightarrow> pending x y (ms @ [m]) \<longleftrightarrow> (if m = y then False else m = x \<or> pending x y ms)"
  by (induction ms) auto

lemma pending_first: "y \<notin> set ms \<Longrightarrow> pending x y (x # ms)"
  by simp

section \<open>What the waiter does with the four messages\<close>

lemma fork_number: "f < 5 \<Longrightarrow> unat (scast (fork_name f) - 48 :: u32) = f"
  by (elim less_5_cases; simp add: fork_name_def; code_simp)

definition put_back :: "nat \<Rightarrow> waiter \<Rightarrow> waiter" where
  "put_back f w = w\<lparr>forksInUse := forksInUse w - 1, freeForks := (freeForks w)[f := True]\<rparr>"

definition give :: "nat \<Rightarrow> waiter \<Rightarrow> waiter" where
  "give f w = w\<lparr>forksInUse := forksInUse w + 1, freeForks := (freeForks w)[f := False]\<rparr>"

lemma handle_drop: "f < 5 \<Longrightarrow> waiter_handle (chr CHR ''D'') (fork_name f) w = Some (put_back f w, False)"
  by (simp add: waiter_handle_def fork_number put_back_def)

lemma handle_right: "f < 5 \<Longrightarrow> waiter_handle (chr CHR ''R'') (fork_name f) w =
    Some (if freeForks w ! f then (give f w, True) else (w, False))"
  by (simp add: waiter_handle_def fork_number give_def chr_def)

lemma handle_left: "f < 5 \<Longrightarrow> waiter_handle (chr CHR ''L'') (fork_name f) w =
    Some (if forksInUse w < 4 \<and> freeForks w ! f then (give f w, True) else (w, False))"
  by (simp add: waiter_handle_def fork_number give_def chr_def)

lemmas handle = handle_drop handle_right handle_left

lemma filter_free:
  assumes "f < length fs"
  shows "fs ! f \<Longrightarrow> length (filter Not (fs[f := False])) = Suc (length (filter Not fs))"
    and "\<not> fs ! f \<Longrightarrow> Suc (length (filter Not (fs[f := True]))) = length (filter Not fs)"
  using assms
proof (induction fs arbitrary: f)
  case (Cons b fs)
  {
    case 1
    then show ?case using Cons(1) [of "f - 1"] by (cases f) auto
  next
    case 2
    then show ?case using Cons(2) [of "f - 1"] by (cases f) auto
  }
qed simp_all

lemma sum_away: "(\<Sum>f < length fs. away fs f) = length (filter Not fs)"
proof (induction fs)
  case (Cons b fs)
  have "(\<Sum>f < length (b # fs). away (b # fs) f) = away (b # fs) 0 + (\<Sum>f < length fs. away (b # fs) (Suc f))"
    by (simp add: sum.lessThan_Suc_shift del: sum.lessThan_Suc)
  then show ?case using Cons by (simp add: away_def)
qed simp

section \<open>Every step keeps the invariant\<close>

lemma dining_inv_start: "dining_inv dining_start"
proof -
  have "freeForks fresh_waiter ! f" if "f < 5" for f
    using that by (elim less_5_cases) (simp_all add: fresh_waiter_def)
  then show ?thesis
    by (simp add: dining_inv_def dining_start_def left_out_def right_out_def away_def has_left_def has_right_def)
      (simp add: fresh_waiter_def)
qed

text \<open>A step of a philosopher moves a fork from one stage to the next, but keeps it away.\<close>

lemma inv_same_forks:
  assumes "dining_inv s" and "table t = table s"
    and "\<And>q. q < 5 \<Longrightarrow> left_out t q = left_out s q \<and> right_out t q = right_out s q"
    and "\<And>q. q < 5 \<Longrightarrow> places t q \<noteq> WaitsLeft \<and> places t q \<noteq> WaitsRight \<Longrightarrow> answers t q = 0"
    and "\<And>q. q < 5 \<Longrightarrow> pending (left_request q) (left_drop q) (inbox t) \<Longrightarrow>
           places t q = WaitsLeft \<or> has_left (places t q)"
    and "\<And>q. q < 5 \<Longrightarrow> pending (right_request q) (right_drop q) (inbox t) \<Longrightarrow>
           places t q = WaitsRight \<or> has_right (places t q)"
    and "set (inbox t) \<subseteq> letters"
  shows "dining_inv t"
proof -
  have "(\<Sum>p < 5. left_out t p) = (\<Sum>p < 5. left_out s p)" using assms(3) by simp
  then show ?thesis using assms by (simp add: dining_inv_def)
qed

lemma letters_iff: "m \<in> letters \<longleftrightarrow> (\<exists>p < 5. m = left_request p \<or> m = right_request p \<or> m = left_drop p \<or> m = right_drop p)"
  by (auto simp: letters_def)

lemma inv_at_most_one:
  assumes "dining_inv s" and "p < 5"
  shows "left_out s p + right_out s (left_neighbour p) \<le> 1" and "left_out s p \<le> 1" and "right_out s p \<le> 1"
proof -
  have l: "away (freeForks (table s)) f = left_out s f + right_out s (left_neighbour f)" if "f < 5" for f
    using assms(1) that by (simp add: dining_inv_def)
  have a: "away fs f \<le> 1" for fs f by (simp add: away_def)
  show "left_out s p + right_out s (left_neighbour p) \<le> 1" and "left_out s p \<le> 1"
    using l [OF assms(2)] a [of "freeForks (table s)" p] by simp_all
  show "right_out s p \<le> 1"
    using l [of "right_fork p"] a [of "freeForks (table s)" "right_fork p"] assms(2) by simp
qed

lemma philosopher_step_inv:
  assumes "dining_step s t" and "dining_inv s" and "served t = served s"
  shows "dining_inv t"
proof -
  have ans: "places s q \<noteq> WaitsLeft \<Longrightarrow> places s q \<noteq> WaitsRight \<Longrightarrow> answers s q = 0"
    and pl: "pending (left_request q) (left_drop q) (inbox s) \<Longrightarrow> places s q = WaitsLeft \<or> has_left (places s q)"
    and pr: "pending (right_request q) (right_drop q) (inbox s) \<Longrightarrow> places s q = WaitsRight \<or> has_right (places s q)"
    and one: "left_out s q \<le> 1" "right_out s q \<le> 1"
    if "q < 5" for q
    using assms(2) that inv_at_most_one [OF assms(2) that] by (simp_all add: dining_inv_def)
  have sub: "set (inbox s) \<subseteq> letters" using assms(2) by (simp add: dining_inv_def)
  have npl: "places s q \<noteq> WaitsLeft \<Longrightarrow> \<not> has_left (places s q) \<Longrightarrow>
        \<not> pending (left_request q) (left_drop q) (inbox s)"
    and npr: "places s q \<noteq> WaitsRight \<Longrightarrow> \<not> has_right (places s q) \<Longrightarrow>
        \<not> pending (right_request q) (right_drop q) (inbox s)"
    if "q < 5" for q
    using pl pr that by blast+
  note d = send_def receive_def left_out_def right_out_def has_left_def has_right_def
    pending_append letters_iff
  from assms(1,3) show ?thesis
  proof cases
    case (ask_left p)
    show ?thesis
      by (rule inv_same_forks [OF assms(2)])
        (use ask_left ans pl pr npl [of p] npr [of p] sub in \<open>auto simp: d split: if_splits\<close>)
  next
    case (get_left p)
    then have "answers s p = 1" using one(1) [of p] by (simp add: left_out_def)
    then show ?thesis
      by (intro inv_same_forks [OF assms(2)])
        (use get_left ans pl pr npl [of p] npr [of p] sub in \<open>auto simp: d split: if_splits\<close>)
  next
    case (ask_right p)
    show ?thesis
      by (rule inv_same_forks [OF assms(2)])
        (use ask_right ans pl pr npl [of p] npr [of p] sub in \<open>auto simp: d split: if_splits\<close>)
  next
    case (get_right p)
    then have "answers s p = 1" using one(2) [of p] by (simp add: right_out_def)
    then show ?thesis
      by (intro inv_same_forks [OF assms(2)])
        (use get_right ans pl pr npl [of p] npr [of p] sub in \<open>auto simp: d split: if_splits\<close>)
  next
    case (drop_left p)
    show ?thesis
      by (rule inv_same_forks [OF assms(2)])
        (use drop_left ans pl pr npl [of p] npr [of p] sub in \<open>auto simp: d split: if_splits\<close>)
  next
    case (drop_right p)
    show ?thesis
      by (rule inv_same_forks [OF assms(2)])
        (use drop_right ans pl pr npl [of p] npr [of p] sub in \<open>auto simp: d split: if_splits\<close>)
  next
    case (serve p k c ms w answer)
    then show ?thesis using assms(3) by simp
  qed
qed

text \<open>A step of the waiter changes the state of at most one fork.\<close>

lemma inv_other_fork:
  assumes inv: "dining_inv s" and f: "f < 5" and b: "freeForks (table s) ! f \<noteq> b"
    and t: "table t = (if b then put_back f (table s) else give f (table s))"
    and out: "left_out t f + right_out t (left_neighbour f) = (if b then 0 else 1)"
    and same: "\<And>g. g < 5 \<Longrightarrow> g \<noteq> f \<Longrightarrow>
      left_out t g + right_out t (left_neighbour g) = left_out s g + right_out s (left_neighbour g)"
    and sum: "(\<Sum>p < 5. left_out t p) \<le> 4"
    and rest: "\<And>q. q < 5 \<Longrightarrow> places t q \<noteq> WaitsLeft \<and> places t q \<noteq> WaitsRight \<Longrightarrow> answers t q = 0"
      "\<And>q. q < 5 \<Longrightarrow> pending (left_request q) (left_drop q) (inbox t) \<Longrightarrow>
           places t q = WaitsLeft \<or> has_left (places t q)"
      "\<And>q. q < 5 \<Longrightarrow> pending (right_request q) (right_drop q) (inbox t) \<Longrightarrow>
           places t q = WaitsRight \<or> has_right (places t q)"
      "set (inbox t) \<subseteq> letters"
  shows "dining_inv t"
proof -
  let ?fs = "freeForks (table s)" and ?n = "forksInUse (table s)"
  have len: "length ?fs = 5" and n: "unat ?n = length (filter Not ?fs)"
    and a: "\<And>g. g < 5 \<Longrightarrow> away ?fs g = left_out s g + right_out s (left_neighbour g)"
    using inv by (simp_all add: dining_inv_def)
  have le: "length (filter Not ?fs) \<le> 5" using length_filter_le [of Not ?fs] len by simp
  have ft: "freeForks (table t) = ?fs[f := b]" using t by (auto simp: put_back_def give_def)
  have "unat (forksInUse (table t)) = length (filter Not (freeForks (table t)))"
  proof (cases b)
    case True
    have k: "Suc (length (filter Not (?fs[f := True]))) = unat ?n"
      using filter_free(2) [of f ?fs] f b True len n by simp
    then have "?n \<noteq> 0" by auto
    then have "unat (?n - 1) = unat ?n - 1" by (simp add: unat_minus_one)
    then show ?thesis using True k t by (simp add: ft) (simp add: put_back_def)
  next
    case False
    have k: "length (filter Not (?fs[f := False])) = Suc (unat ?n)"
      using filter_free(1) [of f ?fs] f b False len n by simp
    have "unat (?n + 1) = Suc (unat ?n)" using n le by (simp add: unat_word_ariths)
    then show ?thesis using False k t by (simp add: ft) (simp add: give_def)
  qed
  moreover have "away (freeForks (table t)) g = left_out t g + right_out t (left_neighbour g)" if "g < 5" for g
    using out same [OF that] a [OF that] f len by (cases "g = f") (auto simp: ft away_def)
  ultimately show ?thesis
    using sum rest len by (simp add: dining_inv_def ft)
qed

lemma dining_invD:
  assumes "dining_inv s"
  shows "length (freeForks (table s)) = 5" and "unat (forksInUse (table s)) = length (filter Not (freeForks (table s)))"
    and "f < 5 \<Longrightarrow> away (freeForks (table s)) f = left_out s f + right_out s (left_neighbour f)"
    and "(\<Sum>p < 5. left_out s p) \<le> 4"
    and "p < 5 \<Longrightarrow> places s p \<noteq> WaitsLeft \<Longrightarrow> places s p \<noteq> WaitsRight \<Longrightarrow> answers s p = 0"
    and "p < 5 \<Longrightarrow> pending (left_request p) (left_drop p) (inbox s) \<Longrightarrow> places s p = WaitsLeft \<or> has_left (places s p)"
    and "p < 5 \<Longrightarrow> pending (right_request p) (right_drop p) (inbox s) \<Longrightarrow> places s p = WaitsRight \<or> has_right (places s p)"
    and "set (inbox s) \<subseteq> letters"
  using assms by (simp_all add: dining_inv_def)

lemma pending_later: "pending x y ms \<Longrightarrow> pending x y (m # ms)"
  by simp

text \<open>The waiter answers the first letter: the state \<open>after_letter\<close>, for each of the four letters.\<close>

definition after_letter :: "dining \<Rightarrow> letter list \<Rightarrow> waiter \<Rightarrow> nat \<Rightarrow> bool \<Rightarrow> dining" where
  "after_letter s ms w p answer = s\<lparr>inbox := ms, table := w, served := served s + 1,
     answers := (answers s)(p := answers s p + (if answer then 1 else 0))\<rparr>"

lemma after_letter_sel [simp]:
  "inbox (after_letter s ms w p a) = ms" "table (after_letter s ms w p a) = w" "places (after_letter s ms w p a) = places s"
  "answers (after_letter s ms w p a) q = answers s q + (if q = p \<and> a then 1 else 0)"
  by (simp_all add: after_letter_def)

lemma after_letter_rest:
  assumes inv: "dining_inv s" and box: "inbox s = m # ms" and q: "q < 5"
  shows "pending (left_request q) (left_drop q) ms \<Longrightarrow> places s q = WaitsLeft \<or> has_left (places s q)"
    and "pending (right_request q) (right_drop q) ms \<Longrightarrow> places s q = WaitsRight \<or> has_right (places s q)"
    and "set ms \<subseteq> letters"
  using dining_invD(6,7) [OF inv q] dining_invD(8) [OF inv] box by simp_all

lemma refused_step:
  assumes inv: "dining_inv s" and box: "inbox s = m # ms" and q: "q < 5" and m: "m = left_request q \<or> m = right_request q"
  shows "dining_inv (after_letter s ms (table s) q False)"
  by (rule inv_same_forks [OF inv])
     (use box q m dining_invD(5) [OF inv] after_letter_rest [OF inv box] in \<open>auto simp: left_out_def right_out_def\<close>)

lemma left_granted:
  assumes inv: "dining_inv s" and box: "inbox s = left_request q # ms" and q: "q < 5"
    and free: "forksInUse (table s) < 4" "freeForks (table s) ! q"
  shows "dining_inv (after_letter s ms (give q (table s)) q True)"
proof -
  let ?t = "after_letter s ms (give q (table s)) q True" and ?fs = "freeForks (table s)"
  note D = dining_invD [OF inv] and rest = after_letter_rest [OF inv box]
  have none: "left_out s q = 0" "right_out s (left_neighbour q) = 0" using D(3) [OF q] free by (simp_all add: away_def)
  then have wt: "left_drop q \<notin> set ms" "\<not> has_left (places s q)"
    using box by (auto simp: left_out_def count_list_0_iff split: if_splits)
  then have pw: "places s q = WaitsLeft" using D(6) [OF q] box by simp
  have lo: "left_out ?t g = left_out s g + (if g = q then 1 else 0)" "right_out ?t g = right_out s g" if "g < 5" for g
    using that q box pw by (auto simp: left_out_def right_out_def)
  have "(\<Sum>p < 5. left_out s p) \<le> (\<Sum>f < 5. away ?fs f)" by (rule sum_mono) (simp add: D(3))
  also have "\<dots> = unat (forksInUse (table s))" using sum_away [of ?fs] D(1,2) by simp
  also have "\<dots> \<le> 3" using free by (simp add: word_less_nat_alt)
  finally have "(\<Sum>p < 5. left_out ?t p) \<le> 4" using q by (simp add: lo sum.distrib)
  then show ?thesis
    by (intro inv_other_fork [OF inv q, of False]) (use none lo q free D(5) rest pw in \<open>auto\<close>)
qed

lemma right_granted:
  assumes inv: "dining_inv s" and box: "inbox s = right_request q # ms" and q: "q < 5"
    and free: "freeForks (table s) ! right_fork q"
  shows "dining_inv (after_letter s ms (give (right_fork q) (table s)) q True)"
proof -
  let ?t = "after_letter s ms (give (right_fork q) (table s)) q True"
  note D = dining_invD [OF inv] and rest = after_letter_rest [OF inv box] and rq = right_fork_less [of q]
  have none: "left_out s (right_fork q) = 0" "right_out s q = 0"
    using D(3) [OF rq] free q by (simp_all add: away_def)
  then have wt: "right_drop q \<notin> set ms" "\<not> has_right (places s q)"
    using box by (auto simp: right_out_def count_list_0_iff split: if_splits)
  then have pw: "places s q = WaitsRight" using D(7) [OF q] box by simp
  have lo: "right_out ?t g = right_out s g + (if g = q then 1 else 0)" "left_out ?t g = left_out s g" if "g < 5" for g
    using that q box pw by (auto simp: left_out_def right_out_def)
  show ?thesis
    by (rule inv_other_fork [OF inv rq, of False]) (use none lo q free D(4,5) rest pw in \<open>auto\<close>)
qed

lemma left_dropped:
  assumes inv: "dining_inv s" and box: "inbox s = left_drop q # ms" and q: "q < 5"
  shows "dining_inv (after_letter s ms (put_back q (table s)) q False)"
proof -
  let ?t = "after_letter s ms (put_back q (table s)) q False"
  note D = dining_invD [OF inv] and rest = after_letter_rest [OF inv box]
  have one: "left_out s q + right_out s (left_neighbour q) = 1" "\<not> freeForks (table s) ! q"
    using D(3) [OF q] box by (auto simp: left_out_def away_def split: if_splits)
  have lo: "left_out s g = left_out ?t g + (if g = q then 1 else 0)" "right_out ?t g = right_out s g" if "g < 5" for g
    using that q box by (auto simp: left_out_def right_out_def)
  have "(\<Sum>p < 5. left_out ?t p) \<le> (\<Sum>p < 5. left_out s p)" by (rule sum_mono) (simp add: lo)
  then show ?thesis
    by (intro inv_other_fork [OF inv q, of True]) (use one lo q D(4,5) rest in \<open>auto\<close>)
qed

lemma right_dropped:
  assumes inv: "dining_inv s" and box: "inbox s = right_drop q # ms" and q: "q < 5"
  shows "dining_inv (after_letter s ms (put_back (right_fork q) (table s)) q False)"
proof -
  let ?t = "after_letter s ms (put_back (right_fork q) (table s)) q False"
  note D = dining_invD [OF inv] and rest = after_letter_rest [OF inv box] and rq = right_fork_less [of q]
  have one: "left_out s (right_fork q) + right_out s q = 1" "\<not> freeForks (table s) ! right_fork q"
    using D(3) [OF rq] box q by (auto simp: right_out_def away_def split: if_splits)
  have lo: "right_out s g = right_out ?t g + (if g = q then 1 else 0)" "left_out ?t g = left_out s g" if "g < 5" for g
    using that q box by (auto simp: left_out_def right_out_def)
  show ?thesis
    by (rule inv_other_fork [OF inv rq, of True]) (use one lo q D(4,5) rest in \<open>auto\<close>)
qed

lemma waiter_step_inv:
  assumes inv: "dining_inv s" and box: "inbox s = (p, k, c) # ms"
    and h: "waiter_handle k c (table s) = Some (w, answer)"
    and t: "t = s\<lparr>inbox := ms, table := w, served := served s + 1,
       answers := (answers s)(p := answers s p + (if answer then 1 else 0))\<rparr>"
  shows "dining_inv t"
proof -
  have t: "t = after_letter s ms w p answer" using t by (simp add: after_letter_def)
  have "(p, k, c) \<in> letters" using dining_invD(8) [OF inv] box by simp
  then obtain q where q: "q < 5"
    and m: "(p, k, c) = left_request q \<or> (p, k, c) = right_request q \<or> (p, k, c) = left_drop q \<or> (p, k, c) = right_drop q"
    by (auto simp: letters_iff)
  note rq = right_fork_less [of q] and defs = left_request_def right_request_def left_drop_def right_drop_def
  have pq: "p = q" using m by (auto simp: defs)
  from m show ?thesis
  proof (elim disjE)
    assume m: "(p, k, c) = left_request q"
    then have kc: "k = chr CHR ''L''" "c = fork_name q" by (simp_all add: left_request_def)
    show ?thesis
    proof (cases "forksInUse (table s) < 4 \<and> freeForks (table s) ! q")
      case True
      then have "w = give q (table s)" answer using h q by (simp_all add: kc handle)
      then show ?thesis using left_granted [OF inv _ q] True box m pq t by simp
    next
      case False
      then have "w = table s" "\<not> answer" using h q by (auto simp: kc handle split: if_splits)
      then show ?thesis using refused_step [OF inv box q] m pq t by simp
    qed
  next
    assume m: "(p, k, c) = right_request q"
    then have kc: "k = chr CHR ''R''" "c = fork_name (right_fork q)" by (simp_all add: right_request_def)
    show ?thesis
    proof (cases "freeForks (table s) ! right_fork q")
      case True
      then have "w = give (right_fork q) (table s)" answer using h rq by (simp_all add: kc handle)
      then show ?thesis using right_granted [OF inv _ q True] box m pq t by simp
    next
      case False
      then have "w = table s" "\<not> answer" using h rq by (simp_all add: kc handle)
      then show ?thesis using refused_step [OF inv box q] m pq t by simp
    qed
  next
    assume m: "(p, k, c) = left_drop q"
    then have "w = put_back q (table s)" "\<not> answer" using h q by (simp_all add: left_drop_def handle)
    then show ?thesis using left_dropped [OF inv _ q] box m pq t by simp
  next
    assume m: "(p, k, c) = right_drop q"
    then have "w = put_back (right_fork q) (table s)" "\<not> answer" using h rq by (simp_all add: right_drop_def handle)
    then show ?thesis using right_dropped [OF inv _ q] box m pq t by simp
  qed
qed

end
