(* ===== verification/DiningSpec.thy ===== *)
theory DiningSpec
  imports DiningSystem
begin

text \<open>
  Properties of the dining philosophers: the waiter's table stays consistent, no fork is in
  two hands, and the five do not lock each other out while the waiter lives.
\<close>

lemma dining_reach_inv: "dining_reach s \<Longrightarrow> dining_inv s"
proof (induction rule: dining_reach.induct)
  case start
  show ?case by (rule dining_inv_start)
next
  case (step s t)
  from step(2) show ?case
  proof (cases "served t = served s")
    case True
    then show ?thesis using philosopher_step_inv step by blast
  next
    case False
    from step(2) show ?thesis
      by cases (use False step waiter_step_inv in \<open>auto simp: send_def receive_def\<close>)
  qed
qed

lemma handle_letters:
  assumes "(p, k, c) \<in> letters"
  shows "\<exists>w' answer. waiter_handle k c w = Some (w', answer)"
proof -
  obtain q where q: "q < 5"
    and m: "(p, k, c) = left_request q \<or> (p, k, c) = right_request q \<or> (p, k, c) = left_drop q \<or> (p, k, c) = right_drop q"
    using assms by (auto simp: letters_iff)
  then show ?thesis
    by (auto simp: left_request_def right_request_def left_drop_def right_drop_def handle)
qed

section \<open>The waiter's table\<close>

text \<open>C16: in every reachable state the waiter's table is well formed: it has five forks, the counter
  is exactly the number of forks that are away, a fork is away exactly when an answer for it,
  a philosopher's hand or a drop message has it, and no message that waits makes the waiter
  access a fork that does not exist.\<close>

theorem waiter_table_ok:
  assumes "dining_reach s"
  shows "length (freeForks (table s)) = 5
     \<and> unat (forksInUse (table s)) = length (filter Not (freeForks (table s)))
     \<and> (\<forall>f < 5. (if freeForks (table s) ! f then 0 else 1) = left_out s f + right_out s (left_neighbour f))
     \<and> (\<forall>(p, k, c) \<in> set (inbox s). p < 5 \<and> waiter_handle k c (table s) \<noteq> None)"
proof -
  have inv: "dining_inv s" by (rule dining_reach_inv [OF assms])
  have "p < 5 \<and> waiter_handle k c (table s) \<noteq> None" if "(p, k, c) \<in> set (inbox s)" for p k c
  proof -
    have l: "(p, k, c) \<in> letters" using inv that by (auto simp: dining_inv_def)
    then have "p < 5"
      by (auto simp: letters_iff left_request_def right_request_def left_drop_def right_drop_def)
    then show ?thesis using handle_letters [OF l] by fastforce
  qed
  then show ?thesis using inv by (auto simp: dining_inv_def away_def)
qed

text \<open>A run: philosopher 0 asks for its left fork, is served, and asks for the right one.\<close>

definition after_asking :: dining where
  "after_asking = send 0 WaitsLeft (left_request 0) dining_start"

definition after_serving :: dining where
  "after_serving = after_asking\<lparr>inbox := [], table := give 0 fresh_waiter, served := 1,
     answers := (answers after_asking)(0 := 1)\<rparr>"

definition after_receiving :: dining where
  "after_receiving = receive 0 HasLeft after_serving"

definition after_asking_right :: dining where
  "after_asking_right = send 0 WaitsRight (right_request 0) after_receiving"

lemma after_asking_right_reach: "dining_reach after_asking_right"
proof -
  note d = after_asking_def after_serving_def after_receiving_def after_asking_right_def
    send_def receive_def dining_start_def
  have a: "dining_reach after_asking"
    unfolding after_asking_def
    by (rule step [OF start], rule ask_left) (simp_all add: dining_start_def)
  have free: "freeForks fresh_waiter ! 0" "forksInUse fresh_waiter < 4" by (simp_all add: fresh_waiter_def)
  have h: "waiter_handle (chr CHR ''L'') (fork_name 0) fresh_waiter = Some (give 0 fresh_waiter, True)"
    using free by (simp add: handle_left)
  have "dining_step after_asking (after_asking\<lparr>inbox := [], table := give 0 fresh_waiter,
      served := served after_asking + 1, answers := (answers after_asking)(0 := answers after_asking 0 + (if True then 1 else 0))\<rparr>)"
    by (rule serve [where k = "chr CHR ''L''" and c = "fork_name 0"])
      (simp_all add: d left_request_def h)
  then have "dining_step after_asking after_serving" by (simp add: d)
  with a have b: "dining_reach after_serving" by (rule step)
  have c: "dining_reach after_receiving"
    unfolding after_receiving_def by (rule step [OF b], rule get_left) (simp_all add: d)
  show ?thesis
    unfolding after_asking_right_def by (rule step [OF c], rule ask_right) (simp_all add: d)
qed

theorem waiter_table_ok_witness:
  "length (freeForks (table after_asking_right)) = 5
     \<and> unat (forksInUse (table after_asking_right)) = length (filter Not (freeForks (table after_asking_right)))
     \<and> (if freeForks (table after_asking_right) ! 1 then 0 else 1)
          = left_out after_asking_right 1 + right_out after_asking_right (left_neighbour 1)
     \<and> list_all (\<lambda>(p, k, c). p < 5 \<and> waiter_handle k c (table after_asking_right) \<noteq> None) (inbox after_asking_right)"
  using waiter_table_ok [OF after_asking_right_reach] by (simp only: list_all_iff) simp

section \<open>Mutual exclusion\<close>

text \<open>C14: however the five philosophers and the waiter interleave, and however often requests are
  repeated after a timeout, no fork is ever in the hands of two philosophers, a fork in
  somebody's hand is not free on the waiter's table, and neighbours never eat at the same time.\<close>

theorem forks_exclusive:
  assumes "dining_reach s" and "p < 5" and "q < 5" and "p \<noteq> q"
  shows "forks_of s p \<inter> forks_of s q = {}
     \<and> (\<forall>f \<in> forks_of s p. \<not> freeForks (table s) ! f)
     \<and> \<not> (places s p = Eating \<and> places s (right_fork p) = Eating)"
proof -
  have inv: "dining_inv s" by (rule dining_reach_inv [OF assms(1)])
  have out: "has_left (places s r) \<Longrightarrow> left_out s r \<ge> 1" "has_right (places s r) \<Longrightarrow> right_out s r \<ge> 1" for r
    by (simp_all add: left_out_def right_out_def)
  have one: "\<not> (has_left (places s (right_fork r)) \<and> has_right (places s r))" if "r < 5" for r
    using inv_at_most_one(1) [OF inv right_fork_less [of r]] out [of r] out [of "right_fork r"] that by auto
  have inj: "right_fork a = right_fork b \<longleftrightarrow> a = b" if "a < 5" "b < 5" for a b
    using that neighbour(1) by metis
  have "forks_of s p \<inter> forks_of s q = {}"
    using one [OF assms(2)] one [OF assms(3)] assms(4) inj [OF assms(2,3)]
    by (auto simp: forks_of_def split: if_splits)
  moreover have "\<not> freeForks (table s) ! f" if "f \<in> forks_of s p" for f
  proof -
    have "left_out s f + right_out s (left_neighbour f) \<ge> 1" "f < 5"
      using that out [of p] assms(2) by (auto simp: forks_of_def split: if_splits)
    then show ?thesis using inv by (auto simp: dining_inv_def away_def)
  qed
  moreover have "\<not> (places s p = Eating \<and> places s (right_fork p) = Eating)"
    using one [OF assms(2)] by (auto simp: has_left_def has_right_def)
  ultimately show ?thesis by blast
qed

theorem forks_exclusive_witness:
  "forks_of after_asking_right 0 = {0} \<and> forks_of after_asking_right 0 \<inter> forks_of after_asking_right 1 = {}
     \<and> \<not> freeForks (table after_asking_right) ! 0
     \<and> \<not> (places after_asking_right 0 = Eating \<and> places after_asking_right (right_fork 0) = Eating)"
proof -
  have "forks_of after_asking_right 0 = {0}"
    by (simp add: forks_of_def has_left_def has_right_def after_asking_right_def send_def)
  with forks_exclusive [OF after_asking_right_reach, of 0 1] show ?thesis by simp
qed

section \<open>No deadlock\<close>

text \<open>
  The waiter works while the philosophers wait: a sequence of its own steps, each of which takes one message.
  Every step is a step of the system, so there are at most 300 of them in the waiter's life.
\<close>

inductive waiter_works :: "dining \<Rightarrow> dining \<Rightarrow> bool" where
  pause: "waiter_works s s"
| works: "dining_step s t \<Longrightarrow> served t = served s + 1 \<Longrightarrow> waiter_works t u \<Longrightarrow> waiter_works s u"

text \<open>A refused request leaves the table as it is, so the first one that can be granted is.\<close>

lemma refused_same: "m \<in> letters \<Longrightarrow> \<forall>p < 5. m \<noteq> left_drop p \<and> m \<noteq> right_drop p \<Longrightarrow>
    m = (p, k, c) \<Longrightarrow> waiter_handle k c w = Some (w', False) \<Longrightarrow> w' = w"
  by (auto simp: letters_iff left_request_def right_request_def handle split: if_splits)

lemma waiter_answers:
  assumes "set (inbox s) \<subseteq> letters" and "\<forall>p < 5. left_drop p \<notin> set (inbox s) \<and> right_drop p \<notin> set (inbox s)"
    and "(p, k, c) \<in> set (inbox s)" and "waiter_handle k c (table s) = Some (w', True)"
    and "served s + length (inbox s) \<le> 300"
  shows "\<exists>t q. waiter_works s t \<and> q < 5 \<and> answers t q > 0"
  using assms
proof (induction "inbox s" arbitrary: s)
  case (Cons m ms)
  note box = Cons.hyps(2) [symmetric]
  obtain q k' c' where m: "m = (q, k', c')" by (cases m)
  have l: "m \<in> letters" using Cons.prems(1) box by auto
  then have q: "q < 5" using m by (auto simp: letters_iff left_request_def right_request_def left_drop_def right_drop_def)
  obtain v a where h: "waiter_handle k' c' (table s) = Some (v, a)"
    using handle_letters [of q k' c' "table s"] l m by auto
  let ?t = "s\<lparr>inbox := ms, table := v, served := served s + 1, answers := (answers s)(q := answers s q + (if a then 1 else 0))\<rparr>"
  have st: "dining_step s ?t" using Cons.prems(5) box m h by (intro serve) simp_all
  show ?case
  proof (cases a)
    case True
    have "waiter_works s ?t" by (rule works [OF st _ pause]) simp
    moreover have "answers ?t q > 0" using True by simp
    ultimately show ?thesis using q by blast
  next
    case False
    have "\<forall>p < 5. m \<noteq> left_drop p \<and> m \<noteq> right_drop p" using Cons.prems(2) box by auto
    then have v: "v = table s" using refused_same [OF l _ m] h False by simp
    have "(p, k, c) \<in> set ms" using Cons.prems(3,4) box m h False by auto
    then have "\<exists>u r. waiter_works ?t u \<and> r < 5 \<and> answers u r > 0"
      by (intro Cons.hyps(1)) (use Cons.prems box v in auto)
    then show ?thesis using works [OF st] by fastforce
  qed
qed simp

text \<open>After 300 messages the waiter is gone: those who wait then wait for ever.\<close>

inductive dining_steps :: "dining \<Rightarrow> dining \<Rightarrow> bool" for s where
  none: "dining_steps s s"
| more: "dining_steps s t \<Longrightarrow> dining_step t u \<Longrightarrow> dining_steps s u"

lemma waiting_for_ever:
  assumes "dining_steps s t" and "served s = 300" and "\<forall>p < 5. answers s p = 0"
    and "\<forall>p < 5. places s p = WaitsLeft \<or> places s p = WaitsRight"
  shows "places t = places s \<and> answers t = answers s \<and> served t = 300"
  using assms(1)
proof induction
  case (more t u)
  have st: "places t = places s" "answers t = answers s" "served t = 300" using more.IH by simp_all
  show ?case using more.hyps(2)
    by cases (use st assms(3,4) in \<open>auto simp: send_def receive_def fun_upd_idem\<close>)
qed (use assms(2) in simp)

lemma not_all_in_circle:
  assumes "\<exists>p < 5. w p" and "(\<Sum>p < 5. if w p then 1 else 0) \<le> (4 :: nat)"
  shows "\<exists>p < 5. w p \<and> \<not> w (right_fork p)"
proof (rule ccontr)
  assume "\<not> (\<exists>p < 5. w p \<and> \<not> w (right_fork p))"
  then have next_one: "w (right_fork p)" if "p < 5" "w p" for p using that by blast
  have r: "right_fork 0 = 1" "right_fork 1 = 2" "right_fork 2 = 3" "right_fork 3 = 4" "right_fork 4 = 0"
    by (simp_all add: right_fork_def)
  have "w 0 \<and> w 1 \<and> w 2 \<and> w 3 \<and> w 4"
    using assms(1) next_one [of 0] next_one [of 1] next_one [of 2] next_one [of 3] next_one [of 4]
    unfolding r by (auto elim!: less_5_cases)
  then have "(\<Sum>p < 5. if w p then 1 else 0) = (5 :: nat)" by (simp add: eval_nat_numeral)
  then show False using assms(2) by simp
qed

text \<open>When everybody waits and nothing is on its way back, the forks on the table are those that no
  philosopher holds while he waits for his second.\<close>

lemma forks_while_waiting:
  assumes inv: "dining_inv s" and "\<forall>p < 5. answers s p = 0"
    and "\<forall>p < 5. places s p = WaitsLeft \<and> left_request p \<in> set (inbox s)
       \<or> places s p = WaitsRight \<and> right_request p \<in> set (inbox s)"
    and "\<forall>p < 5. left_drop p \<notin> set (inbox s) \<and> right_drop p \<notin> set (inbox s)"
  shows "f < 5 \<Longrightarrow> freeForks (table s) ! f \<longleftrightarrow> places s f \<noteq> WaitsRight"
    and "(\<Sum>p < 5. if places s p = WaitsRight then 1 else 0) \<le> (4 :: nat)"
proof -
  have out: "left_out s p = (if places s p = WaitsRight then 1 else 0)" "right_out s p = 0" if "p < 5" for p
    using assms(2-4) that by (auto simp: left_out_def right_out_def has_left_def has_right_def)
  show "freeForks (table s) ! f \<longleftrightarrow> places s f \<noteq> WaitsRight" if "f < 5"
  proof -
    have "away (freeForks (table s)) f = (if places s f = WaitsRight then 1 else 0)"
      using inv that out by (simp add: dining_inv_def)
    then show ?thesis by (simp add: away_def split: if_splits)
  qed
  have "(\<Sum>p < 5. left_out s p) \<le> 4" using inv by (simp add: dining_inv_def)
  then show "(\<Sum>p < 5. if places s p = WaitsRight then 1 else 0) \<le> (4 :: nat)" by (simp add: out)
qed

lemma nobody_holds:
  assumes inv: "dining_inv s" and free: "\<And>f. f < 5 \<Longrightarrow> freeForks (table s) ! f"
  shows "forksInUse (table s) = 0"
proof -
  have "length (filter Not (freeForks (table s))) = (\<Sum>f < 5. away (freeForks (table s)) f)"
    using sum_away [of "freeForks (table s)"] inv by (simp add: dining_inv_def)
  also have "\<dots> = 0" using free by (simp add: away_def)
  finally show ?thesis using inv by (simp add: dining_inv_def unat_eq_0)
qed

text \<open>C15: the philosophers do not lock each other out as long as the waiter lives: when all five wait
  for a fork, with their requests in the waiter's queue and nothing else on its way, and the queue fits
  into what is left of the 300 messages the waiter handles in its life, then the waiter, by working
  through that queue, answers at least one of them.  After its 300 messages the waiter has killed itself,
  and philosophers that wait then are never answered, however often they ask.\<close>

theorem dining_no_deadlock:
  assumes "dining_reach s" and "\<forall>p < 5. answers s p = 0"
    and "\<forall>p < 5. places s p = WaitsLeft \<and> left_request p \<in> set (inbox s)
       \<or> places s p = WaitsRight \<and> right_request p \<in> set (inbox s)"
    and "\<forall>p < 5. left_drop p \<notin> set (inbox s) \<and> right_drop p \<notin> set (inbox s)"
  shows "(served s + length (inbox s) \<le> 300 \<longrightarrow> (\<exists>t p. waiter_works s t \<and> p < 5 \<and> answers t p > 0))
    \<and> (served s = 300 \<longrightarrow> (\<forall>t. dining_steps s t \<longrightarrow> places t = places s \<and> answers t = answers s))"
proof -
  have inv: "dining_inv s" by (rule dining_reach_inv [OF assms(1)])
  note forks = forks_while_waiting [OF inv assms(2-4)]
  have sub: "set (inbox s) \<subseteq> letters" using inv by (simp add: dining_inv_def)
  have "\<exists>p k c w'. (p, k, c) \<in> set (inbox s) \<and> waiter_handle k c (table s) = Some (w', True)"
  proof (cases "\<exists>p < 5. places s p = WaitsRight")
    case False
    then have r: "left_request 0 \<in> set (inbox s)" using assms(3) by auto
    have free: "freeForks (table s) ! f" if "f < 5" for f using False forks(1) [OF that] that by blast
    have "waiter_handle (chr CHR ''L'') (fork_name 0) (table s) = Some (give 0 (table s), True)"
      using free [of 0] nobody_holds [OF inv free] by (simp add: handle_left)
    then show ?thesis using r unfolding left_request_def by blast
  next
    case True
    then obtain p where p: "p < 5" "places s p = WaitsRight" "places s (right_fork p) \<noteq> WaitsRight"
      using not_all_in_circle [of "\<lambda>p. places s p = WaitsRight"] forks(2) by blast
    then have r: "right_request p \<in> set (inbox s)" using assms(3) by auto
    have "waiter_handle (chr CHR ''R'') (fork_name (right_fork p)) (table s)
        = Some (give (right_fork p) (table s), True)"
      using forks(1) [of "right_fork p"] p by (simp add: handle_right)
    then show ?thesis using r unfolding right_request_def by blast
  qed
  then have "\<exists>t p. waiter_works s t \<and> p < 5 \<and> answers t p > 0" if "served s + length (inbox s) \<le> 300"
    using waiter_answers [OF sub assms(4)] that by blast
  moreover have "\<forall>p < 5. places s p = WaitsLeft \<or> places s p = WaitsRight" using assms(3) by blast
  ultimately show ?thesis using waiting_for_ever [of s] assms(2) by blast
qed

text \<open>
  That happens: one philosopher that eats 75 times uses the waiter up.  The table during its meal has
  \<open>n\<close> forks away, those in front.
\<close>

definition at_meal :: "place \<Rightarrow> nat \<Rightarrow> letter list \<Rightarrow> waiter \<Rightarrow> nat \<Rightarrow> dining" where
  "at_meal pl a box w n = \<lparr>places = (\<lambda>_. Thinking)(0 := pl), answers = (\<lambda>_. 0)(0 := a), inbox = box, table = w, served = n\<rparr>"

lemma at_meal_send: "send 0 pl' m (at_meal pl a box w n) = at_meal pl' a (box @ [m]) w n"
  and at_meal_receive: "receive 0 pl' (at_meal pl a box w n) = at_meal pl' (a - 1) box w n"
  and at_meal_start: "dining_start\<lparr>served := n\<rparr> = at_meal Thinking 0 [] fresh_waiter n"
  by (simp_all add: at_meal_def send_def receive_def dining_start_def fun_eq_iff)

lemma at_meal_serve:
  assumes "waiter_handle k c w = Some (w', b)" and "n < 300"
  shows "dining_step (at_meal pl a ((0, k, c) # box) w n) (at_meal pl (a + (if b then 1 else 0)) box w' (n + 1))"
proof -
  let ?s = "at_meal pl a ((0, k, c) # box) w n"
  have "dining_step ?s (?s\<lparr>inbox := box, table := w', served := served ?s + 1,
      answers := (answers ?s)(0 := answers ?s 0 + (if b then 1 else 0))\<rparr>)"
    by (rule serve) (use assms in \<open>simp_all add: at_meal_def\<close>)
  then show ?thesis by (simp add: at_meal_def)
qed

lemma one_meal:
  assumes "dining_reach (dining_start\<lparr>served := n\<rparr>)" and "n + 4 \<le> 300"
  shows "dining_reach (dining_start\<lparr>served := n + 4\<rparr>)"
proof -
  let ?w1 = "give 0 fresh_waiter" and ?w3 = "put_back 0 (give 1 (give 0 fresh_waiter))"
  let ?w2 = "give 1 ?w1" and ?w4 = "put_back 1 (put_back 0 (give 1 (give 0 fresh_waiter)))"
  have five: "replicate 5 True = [True, True, True, True, True]" by (simp add: eval_nat_numeral)
  have one: "right_fork 0 = 1" by (simp add: right_fork_def)
  note w = fresh_waiter_def give_def put_back_def five
  have h: "waiter_handle (chr CHR ''L'') (fork_name 0) fresh_waiter = Some (?w1, True)"
    "waiter_handle (chr CHR ''R'') (fork_name 1) ?w1 = Some (?w2, True)"
    "waiter_handle (chr CHR ''D'') (fork_name 0) ?w2 = Some (?w3, False)"
    "waiter_handle (chr CHR ''D'') (fork_name 1) ?w3 = Some (?w4, False)"
    by (simp_all add: handle, simp_all add: w)
  have again: "?w4 = fresh_waiter" by (simp add: w)
  note sel = at_meal_def
  have a: "dining_reach (at_meal WaitsLeft 0 [left_request 0] fresh_waiter n)"
    using step [OF assms(1) ask_left [of 0]] by (simp add: at_meal_start at_meal_send) (simp add: sel)
  have b: "dining_reach (at_meal WaitsLeft 1 [] ?w1 (n + 1))"
    using step [OF a [unfolded left_request_def] at_meal_serve [OF h(1)]] assms(2) by simp
  have c: "dining_reach (at_meal HasLeft 0 [] ?w1 (n + 1))"
    using step [OF b get_left [of 0]] by (simp add: at_meal_receive) (simp add: sel)
  have d: "dining_reach (at_meal WaitsRight 0 [right_request 0] ?w1 (n + 1))"
    using step [OF c ask_right [of 0]] by (simp add: at_meal_send) (simp add: sel)
  have e: "dining_reach (at_meal WaitsRight 1 [] ?w2 (n + 1 + 1))"
    using step [OF d [unfolded right_request_def one] at_meal_serve [OF h(2)]] assms(2) by simp
  have f: "dining_reach (at_meal Eating 0 [] ?w2 (n + 1 + 1))"
    using step [OF e get_right [of 0]] by (simp add: at_meal_receive) (simp add: sel)
  have g: "dining_reach (at_meal DroppedLeft 0 [left_drop 0] ?w2 (n + 1 + 1))"
    using step [OF f drop_left [of 0]] by (simp add: at_meal_send) (simp add: sel)
  have i: "dining_reach (at_meal Thinking 0 [left_drop 0, right_drop 0] ?w2 (n + 1 + 1))"
    using step [OF g drop_right [of 0]] by (simp add: at_meal_send) (simp add: sel)
  have j: "dining_reach (at_meal Thinking 0 [right_drop 0] ?w3 (n + 1 + 1 + 1))"
    using step [OF i [unfolded left_drop_def] at_meal_serve [OF h(3)]] assms(2) by simp
  have k: "dining_reach (at_meal Thinking 0 [] ?w4 (n + 1 + 1 + 1 + 1))"
    using step [OF j [unfolded right_drop_def one] at_meal_serve [OF h(4)]] assms(2) by simp
  have "n + 1 + 1 + 1 + 1 = n + 4" by simp
  with k show ?thesis unfolding again at_meal_start by (simp only:)
qed

lemma meals: "n \<le> 75 \<Longrightarrow> dining_reach (dining_start\<lparr>served := 4 * n\<rparr>)"
proof (induction n)
  case 0
  show ?case using start by (simp add: dining_start_def)
next
  case (Suc n)
  then show ?case using one_meal [of "4 * n"] by (simp add: add.commute)
qed

text \<open>All five have asked for their left forks.\<close>

definition all_ask :: dining where
  "all_ask = fold (\<lambda>p. send p WaitsLeft (left_request p)) [0, 1, 2, 3, 4] dining_start"

lemma ask_all:
  assumes "dining_reach s" and "set ps \<subseteq> {..< 5}" and "distinct ps" and "\<forall>p \<in> set ps. places s p = Thinking"
  shows "dining_reach (fold (\<lambda>p. send p WaitsLeft (left_request p)) ps s)"
  using assms
proof (induction ps arbitrary: s)
  case (Cons p ps)
  have "dining_step s (send p WaitsLeft (left_request p) s)"
    by (rule ask_left) (use Cons.prems in auto)
  with Cons.prems(1) have "dining_reach (send p WaitsLeft (left_request p) s)" by (rule step)
  then show ?case using Cons.prems by (simp, intro Cons.IH) (auto simp: send_def)
qed simp

lemma all_ask_reach: "dining_reach all_ask"
  unfolding all_ask_def by (rule ask_all [OF start]) (auto simp: dining_start_def)

text \<open>All five can end up waiting for a waiter that is gone.\<close>

lemma dining_starves:
  "\<exists>s. dining_reach s \<and> (\<forall>p < 5. places s p = WaitsLeft)
     \<and> (\<forall>t. dining_steps s t \<longrightarrow> places t = places s \<and> answers t = answers s)"
proof -
  let ?s = "fold (\<lambda>p. send p WaitsLeft (left_request p)) [0, 1, 2, 3, 4] (dining_start\<lparr>served := 300\<rparr>)"
  have "dining_reach (dining_start\<lparr>served := 300\<rparr>)" using meals [of 75] by simp
  then have "dining_reach ?s" by (rule ask_all) (auto simp: dining_start_def)
  moreover have places: "\<forall>p < 5. places ?s p = WaitsLeft"
    by (auto simp: send_def dining_start_def elim!: less_5_cases)
  moreover have "served ?s = 300" "\<forall>p < 5. answers ?s p = 0" by (simp_all add: send_def dining_start_def)
  then have "\<forall>t. dining_steps ?s t \<longrightarrow> places t = places ?s \<and> answers t = answers ?s"
    using places waiting_for_ever [of ?s] by blast
  ultimately show ?thesis by blast
qed

theorem dining_no_deadlock_witness:
  "\<exists>t p. waiter_works all_ask t \<and> p < 5 \<and> answers t p > 0"
proof -
  have "served all_ask + length (inbox all_ask) \<le> 300" by (simp add: all_ask_def send_def dining_start_def)
  moreover have "(served all_ask + length (inbox all_ask) \<le> 300 \<longrightarrow> (\<exists>t p. waiter_works all_ask t \<and> p < 5 \<and> answers t p > 0))
    \<and> (served all_ask = 300 \<longrightarrow> (\<forall>t. dining_steps all_ask t \<longrightarrow> places t = places all_ask \<and> answers t = answers all_ask))"
    by (rule dining_no_deadlock [OF all_ask_reach])
      (auto simp: all_ask_def send_def dining_start_def elim!: less_5_cases)
  ultimately show ?thesis by blast
qed

end
