(* ===== verification/PsArgs.thy ===== *)
theory PsArgs
  imports RtlSpec Ps DiningSystem Demo
begin

text \<open>
  The arguments of a process: how \<^verbatim>\<open>PsCopyArgs\<close> hands them to the program, and the way the
  waiter's argument string takes to the philosopher it starts.
\<close>

section \<open>Copying the arguments\<close>

lemma str_at_poke_apart:
  assumes "str_at M a xs" and "span b n \<inter> span a (Suc (length xs)) = {}" and "length ys \<le> n"
  shows "str_at (poke M b ys) a xs"
  using assms span_mono [OF assms(3), of b] str_at_poke_other [of a xs b ys M] by blast

lemma copy_args_step_more:
  assumes "str_at (mem s) a (us @ v # vs)" and "Suc (length us) < unat sz" and "Buffer + of_nat (length us) \<noteq> 0"
  shows "copy_args_step Buffer sz a (of_nat (length us)) s =
    Some (Return (Inl (of_nat (length (us @ [v])))) (s\<lparr>mem := (mem s)(Buffer + of_nat (length us) := v)\<rparr>))"
proof -
  have "str_at (mem s) (a + of_nat (length us)) (v # vs)" using str_at_drop [OF assms(1)] .
  moreover have "unat (of_nat (length us) + 1 :: u32) = Suc (length us)"
  proof -
    have "Suc (length us) < 2 ^ LENGTH(32)" using assms(2) unsigned_less [of sz, where ?'a = nat] by simp
    then have "unat (of_nat (Suc (length us)) :: u32) = Suc (length us)"
      by (simp only: unsigned_of_nat take_bit_nat_eq_self of_nat_id)
    then show ?thesis by (simp add: add.commute)
  qed
  ultimately show ?thesis
    using assms(2,3) unfolding returns_exact
    by (auto simp: copy_args_step_def kern word_less_nat_alt)
qed

lemma copy_args_step_end:
  assumes "str_at (mem s) a (us @ vs)" and "vs = [] \<or> unat sz \<le> Suc (length us)"
    and "length us < max 1 (unat sz)"
  shows "copy_args_step Buffer sz a (of_nat (length us)) s = Some (Return (Inr (of_nat (length us))) s)"
proof -
  have d: "str_at (mem s) (a + of_nat (length us)) vs" using str_at_drop [OF assms(1)] .
  then have nz: "a + of_nat (length us) \<noteq> 0" by (cases vs) auto
  show ?thesis
  proof (cases "vs = []")
    case True
    then show ?thesis using d nz unfolding returns_exact by (simp add: copy_args_step_def kern)
  next
    case False
    have "sz \<le> of_nat (length us) + 1"
    proof (cases "unat sz = 0")
      case True
      then show ?thesis by (simp add: word_le_nat_alt)
    next
      case False
      then have k: "unat sz = Suc (length us)" using assms(2,3) \<open>vs \<noteq> []\<close> by auto
      have "sz = of_nat (Suc (length us))" using k by (metis of_nat_unat ucast_id)
      then show ?thesis by (simp add: add.commute)
    qed
    then show ?thesis using nz unfolding returns_exact by (simp add: copy_args_step_def kern not_less)
  qed
qed

lemma copy_args_loop:
  assumes "str_at M a (us @ vs)" and "length us < max 1 (unat sz)"
    and "0 \<notin> span Buffer (max 1 (unat sz))"
    and "span Buffer (max 1 (unat sz)) \<inter> span a (Suc (length (us @ vs))) = {}"
    and "mem s = poke M Buffer us"
  shows "kloop (copy_args_step Buffer sz a) (of_nat (length us)) s =
    (let ws = us @ take (unat sz - 1 - length us) vs in
      Some (Return (of_nat (length ws)) (s\<lparr>mem := poke M Buffer ws\<rparr>)))"
  using assms
proof (induction vs arbitrary: us s)
  case Nil
  have m: "str_at (mem s) a (us @ [])"
    unfolding Nil(5) by (rule str_at_poke_apart [OF Nil(1,4)]) (use Nil(2) in simp)
  have "kloop (copy_args_step Buffer sz a) (of_nat (length us)) s = Some (Return (of_nat (length us)) s)"
    by (rule kloop_last [where body = "copy_args_step Buffer sz a"], rule copy_args_step_end [OF m])
      (use Nil(2) in auto)
  moreover have "s\<lparr>mem := poke M Buffer us\<rparr> = s" using Nil(5) by simp
  ultimately show ?case by (simp add: Let_def)
next
  case (Cons v vs)
  have m: "str_at (mem s) a (us @ v # vs)"
    unfolding Cons.prems(5) by (rule str_at_poke_apart [OF Cons.prems(1,4)]) (use Cons.prems(2) in simp)
  show ?case
  proof (cases "Suc (length us) < unat sz")
    case False
    have "kloop (copy_args_step Buffer sz a) (of_nat (length us)) s = Some (Return (of_nat (length us)) s)"
      by (rule kloop_last [where body = "copy_args_step Buffer sz a"], rule copy_args_step_end [OF m])
        (use False Cons.prems(2) in auto)
    moreover have "s\<lparr>mem := poke M Buffer us\<rparr> = s" using Cons.prems(5) by simp
    moreover have "unat sz - 1 - length us = 0" using False by simp
    ultimately show ?thesis by (simp add: Let_def)
  next
    case True
    let ?t = "s\<lparr>mem := (mem s)(Buffer + of_nat (length us) := v)\<rparr>"
    have "Buffer + of_nat (length us) \<in> span Buffer (max 1 (unat sz))"
      by (rule in_span [OF Cons.prems(2)])
    then have nz: "Buffer + of_nat (length us) \<noteq> 0" using Cons.prems(3) by metis
    have IH: "kloop (copy_args_step Buffer sz a) (of_nat (length (us @ [v]))) ?t =
        (let ws = (us @ [v]) @ take (unat sz - 1 - length (us @ [v])) vs in
          Some (Return (of_nat (length ws)) (?t\<lparr>mem := poke M Buffer ws\<rparr>)))"
    proof (rule Cons.IH)
      show "mem ?t = poke M Buffer (us @ [v])" by (simp add: Cons.prems(5) poke_append)
    qed (use Cons.prems(1,3,4) True in auto)
    have "unat sz - 1 - length us = Suc (unat sz - 1 - length (us @ [v]))" using True by simp
    then show ?thesis
      using kloop_next [where body = "copy_args_step Buffer sz a", OF copy_args_step_more [OF m True nz]] IH
      by (simp add: Let_def)
  qed
qed

lemma PsCopyArgs_poke:
  assumes "KeCurrentProcess s \<noteq> 0" and "procs s (KeCurrentProcess s) = Some p" and "Args p \<noteq> 0"
    and "str_at (mem s) (Args p) xs" and "0 \<notin> span Buffer (max 1 (unat sz))"
    and "span Buffer (max 1 (unat sz)) \<inter> span (Args p) (Suc (length xs)) = {}"
  shows "returns (PsCopyArgs Buffer sz) s (\<lambda>r t. r = of_nat (length (take (unat sz - 1) xs))
     \<and> t = s\<lparr>mem := poke (mem s) Buffer (take (unat sz - 1) xs @ [0])\<rparr>)"
proof -
  let ?ws = "take (unat sz - 1) xs"
  have loop: "kloop (copy_args_step Buffer sz (Args p)) 0 s =
      Some (Return (of_nat (length ?ws)) (s\<lparr>mem := poke (mem s) Buffer ?ws\<rparr>))"
    using copy_args_loop [of "mem s" "Args p" "[]" xs sz Buffer s] assms(4-6) by (simp add: Let_def)
  have "length ?ws < max 1 (unat sz)" by simp
  then have "Buffer + of_nat (length ?ws) \<in> span Buffer (max 1 (unat sz))" by (rule in_span)
  then have nz: "Buffer + of_nat (length ?ws) \<noteq> 0" using assms(5) by metis
  have "PsCopyArgs Buffer sz s = Some (Return (of_nat (length ?ws))
      (s\<lparr>mem := poke (mem s) Buffer (?ws @ [0])\<rparr>))"
    unfolding returns_exact
    using assms(1-3) nz loop
    by (simp add: PsCopyArgs_def kern returnsI [where m = "kloop _ _", OF loop] poke_append returns_def [of "kloop _ _"]
        del: length_take)
  then show ?thesis by (simp add: returns_def)
qed

lemma PsCopyArgs_result:
  assumes "KeCurrentProcess s \<noteq> 0" and "procs s (KeCurrentProcess s) = Some p"
    and "if Args p = 0 then xs = [] else str_at (mem s) (Args p) xs
       \<and> span Buffer (max 1 (unat sz)) \<inter> span (Args p) (Suc (length xs)) = {}"
    and "0 \<notin> span Buffer (max 1 (unat sz))"
  shows "returns (PsCopyArgs Buffer sz) s (\<lambda>r t. r = of_nat (length (take (unat sz - 1) xs))
     \<and> str_at (mem t) Buffer (take (unat sz - 1) xs) \<and> t = s\<lparr>mem := mem t\<rparr>
     \<and> (\<forall>a. a \<notin> span Buffer (max 1 (unat sz)) \<longrightarrow> mem t a = mem s a))"
proof -
  let ?ws = "take (unat sz - 1) xs"
  have "returns (PsCopyArgs Buffer sz) s (\<lambda>r t. r = of_nat (length ?ws)
     \<and> t = s\<lparr>mem := poke (mem s) Buffer (?ws @ [0])\<rparr>)"
  proof (cases "Args p = 0")
    case True
    have "Buffer \<noteq> 0"
      using assms(4) in_span [of 0 "max 1 (unat sz)" Buffer] by auto
    then show ?thesis using True assms(1-3) by (simp add: PsCopyArgs_def kern)
  next
    case False
    then show ?thesis using PsCopyArgs_poke [OF assms(1,2) False] assms(3,4) by simp
  qed
  then show ?thesis
  proof (rule returns_mono)
    fix r t
    assume t: "r = of_nat (length ?ws) \<and> t = s\<lparr>mem := poke (mem s) Buffer (?ws @ [0])\<rparr>"
    have k: "Suc (length ?ws) \<le> max 1 (unat sz)" by simp
    have z: "0 \<notin> set ?ws"
      using assms(3) by (auto simp: str_at_def split: if_splits dest: in_set_takeD)
    have "length ?ws < 2 ^ 32" using unsigned_less [of sz, where ?'a = nat] by simp
    then have "str_at (poke (mem s) Buffer (?ws @ [0])) Buffer ?ws"
      using assms(4) span_mono [OF k, of Buffer] z by (intro str_at_poke) auto
    moreover have "poke (mem s) Buffer (?ws @ [0]) a = mem s a" if "a \<notin> span Buffer (max 1 (unat sz))" for a
      using that span_mono [OF k, of Buffer] by (intro poke_other) (auto simp del: length_take)
    ultimately show "r = of_nat (length ?ws) \<and> str_at (mem t) Buffer ?ws \<and> t = s\<lparr>mem := mem t\<rparr>
        \<and> (\<forall>a. a \<notin> span Buffer (max 1 (unat sz)) \<longrightarrow> mem t a = mem s a)"
      using t by simp
  qed
qed

text \<open>\<^verbatim>\<open>PsCopyArgs\<close> stores the argument string of the running process, cut to one character
  less than the buffer's size, with its terminator, and returns its length; a process without
  arguments gets the empty string.  Nothing outside the buffer changes, except that a buffer
  of size 0 still gets the terminator.\<close>

theorem PsCopyArgs_correct:
  assumes "KeCurrentProcess s \<noteq> 0" and "procs s (KeCurrentProcess s) = Some p"
    and "if Args p = 0 then xs = [] else str_at (mem s) (Args p) xs
       \<and> span Buffer (max 1 (unat sz)) \<inter> span (Args p) (Suc (length xs)) = {}"
    and "0 \<notin> span Buffer (max 1 (unat sz))"
  shows "returns (PsCopyArgs Buffer sz) s (\<lambda>r t. r = of_nat (length (take (unat sz - 1) xs))
     \<and> str_at (mem t) Buffer (take (unat sz - 1) xs) \<and> t = s\<lparr>mem := mem t\<rparr>
     \<and> (\<forall>a. a \<notin> span Buffer (max 1 (unat sz)) \<longrightarrow> mem t a = mem s a))"
  by (rule PsCopyArgs_result [OF assms])

text \<open>The process with the argument \<^verbatim>\<open>hi\<close>, and a buffer with room for one character.\<close>

definition args_demo :: kstate where
  "args_demo = sched_demo\<lparr>mem := demo_memory,
     procs := [0x1000 \<mapsto> (demo_process 1 running 3)\<lparr>Args := 0x120\<rparr>]\<rparr>"

lemma args_demo_fields: "KeCurrentProcess args_demo = 0x1000"
    "procs args_demo 0x1000 = Some ((demo_process 1 running 3)\<lparr>Args := 0x120\<rparr>)" "mem args_demo = demo_memory"
  by (simp_all add: args_demo_def sched_demo_def)

theorem PsCopyArgs_correct_witness:
  "returns (PsCopyArgs 0x200 2) args_demo (\<lambda>r t. r = of_nat (length (take (unat (2 :: u32) - 1) [104, 105 :: byte]))
     \<and> str_at (mem t) 0x200 (take (unat (2 :: u32) - 1) [104, 105]) \<and> t = args_demo\<lparr>mem := mem t\<rparr>
     \<and> (\<forall>a. a \<notin> span 0x200 (max 1 (unat (2 :: u32))) \<longrightarrow> mem t a = mem args_demo a))"
  by (rule PsCopyArgs_correct [where p = "(demo_process 1 running 3)\<lparr>Args := 0x120\<rparr>"])
    (simp_all add: args_demo_fields demo_memory_strings span_numeral)

section \<open>From the waiter to a philosopher\<close>

definition philosopher_text :: "u32 \<Rightarrow> u32 \<Rightarrow> byte list" where
  "philosopher_text i pid = decimal (unat i) @ [32] @ decimal (unat ((i + 1) mod 5)) @ [32] @ decimal (unat pid)"

lemma sint_small: "unat w < 2 ^ 31 \<Longrightarrow> sint w = uint w" for w :: u32
proof -
  assume "unat w < 2 ^ 31"
  then have "int (unat w) < int (2 ^ 31)" by (simp only: of_nat_less_iff)
  then have "uint w < 2 ^ 31" by simp
  then have "signed_take_bit 31 (uint w) = uint w"
    using unsigned_greater_eq [of w, where ?'a = int] by (intro signed_take_bit_int_eq_self) linarith+
  then show ?thesis by (simp add: sint_uint)
qed

lemma philosopher_numbers:
  fixes i :: u32
  assumes "i < 5"
  shows "unat i < 5" "unat ((i + 1) mod 5) = right_fork (unat i)" "unat ((i + 1) mod 5) < 5"
proof -
  show u: "unat i < 5" using assms by (simp add: word_less_nat_alt)
  then have "unat (i + 1) = unat i + 1" by (simp add: unat_word_ariths)
  then show "unat ((i + 1) mod 5) = right_fork (unat i)" by (simp add: unat_mod right_fork_def)
  show "unat ((i + 1) mod 5) < 5" by (simp add: unat_mod)
qed

abbreviation philosopher_format :: "byte list" where
  "philosopher_format \<equiv> [37, 100, 32, 37, 100, 32, 37, 100]"

lemma expand_philosopher:
  assumes "i < 5" and "unat pid < 2 ^ 31"
  shows "expand S (arguments [i, (i + 1) mod 5, pid]) 0 philosopher_format = philosopher_text i pid"
    and "format_ok S M B (arguments [i, (i + 1) mod 5, pid]) 0 philosopher_format"
proof -
  have s: "signed_decimal (sint w) = decimal (unat w)" "sint w \<noteq> - (2 ^ 31)" if "unat w < 2 ^ 31" for w :: u32
  proof -
    have "sint w \<ge> 0" using sint_small [OF that] unsigned_greater_eq [of w, where ?'a = int] by linarith
    then show "sint w \<noteq> - (2 ^ 31)" by auto
    show "signed_decimal (sint w) = decimal (unat w)" using sint_small [OF that] by (simp add: signed_decimal_def)
  qed
  have b: "unat i < 2 ^ 31" "unat ((i + 1) mod 5) < 2 ^ 31"
    using philosopher_numbers(1,3) [OF assms(1)] by simp_all
  show "expand S (arguments [i, (i + 1) mod 5, pid]) 0 philosopher_format = philosopher_text i pid"
    using s(1) [OF b(1)] s(1) [OF b(2)] s(1) [OF assms(2)]
    by (simp add: conversion_def arguments_def philosopher_text_def)
  show "format_ok S M B (arguments [i, (i + 1) mod 5, pid]) 0 philosopher_format"
    using s(2) [OF b(1)] s(2) [OF b(2)] s(2) [OF assms(2)]
    by (simp add: conversion_def arguments_def argument_ok_def)
qed

lemma decimal_fork: "f < 5 \<Longrightarrow> decimal f = [fork_name f]"
  by (subst decimal.simps) (simp add: fork_name_def add.commute)

lemma fork_name_nonzero: "f < 5 \<Longrightarrow> fork_name f \<noteq> 0"
  by (elim less_5_cases) (simp_all add: fork_name_def)

lemma philosopher_text_digits:
  assumes "i < 5"
  shows "philosopher_text i pid = fork_name (unat i) # 32 # fork_name (right_fork (unat i)) # 32 # decimal (unat pid)"
  using philosopher_numbers [OF assms] by (simp add: philosopher_text_def decimal_fork)

lemma length_philosopher_text:
  assumes "i < 5"
  shows "length (philosopher_text i pid) \<le> 14"
proof -
  have "unat pid < 10 ^ 10" using unsigned_less [of pid, where ?'a = nat] by simp
  then have "length (decimal (unat pid)) \<le> 10" by (rule length_decimal) simp
  then show ?thesis using philosopher_text_digits [OF assms, of pid] by simp
qed

lemma philosopher_arguments_read:
  assumes "str_at M W (philosopher_text i pid)" and "i < 5"
  shows "returns (philosopher_arguments W) M (\<lambda>(l, r, p) N. l = fork_name (unat i)
     \<and> r = fork_name (right_fork (unat i)) \<and> p = pid \<and> N = M)"
proof -
  note t = assms(1) [unfolded philosopher_text_digits [OF assms(2)]]
  have d: "str_at M (W + 4) (replicate 0 32 @ decimal (unat pid))"
    using t by (simp add: add.assoc)
  have h: "decimal (unat pid) = [] \<or> hd (decimal (unat pid)) \<noteq> 32"
    using decimal_digits [of _ "unat pid"] decimal_nonempty [of "unat pid"] hd_in_set by blast
  have "returns (RtlAtoUL (W + 4)) M (\<lambda>v N. v = pid \<and> N = M)"
    by (rule returns_mono [OF RtlAtoUL_value [OF d h]]) (simp add: foldl_decimal)
  then show ?thesis
    using t by (simp add: philosopher_arguments_def kern add.assoc)
qed

text \<open>
  The way of the arguments: the waiter formats them into its local array, process creation
  copies them into a block of their length, and once that process runs it copies them into its own local
  array and reads them.  The block has no room for the terminator: \<^verbatim>\<open>PsCreateProcess\<close> allocates only
  as many bytes as the string has characters, so the terminator lies in the block's padding, or, when the
  length is a multiple of four, at the first address that is still free.
\<close>

lemma copy_args_copies:
  assumes "str_at (mem s) a xs" and "xs \<noteq> []" and "length xs < 2 ^ 31" and "process \<noteq> 0" and "procs s process = Some p"
    and "0 \<notin> span (freeMemPointer s) (Suc (length xs))"
    and "span (freeMemPointer s) (Suc (length xs)) \<inter> span a (Suc (length xs)) = {}"
  shows "returns (copy_args process a) s (\<lambda>_ t. procs t process = Some (p\<lparr>Args := freeMemPointer s,
       Context := (Context p)\<lparr>A0 := freeMemPointer s\<rparr>\<rparr>) \<and> str_at (mem t) (freeMemPointer s) xs
     \<and> freeMemPointer t = ALIGN_MEMORY (freeMemPointer s + of_nat (length xs)))"
proof -
  let ?F = "freeMemPointer s"
  have a: "a \<noteq> 0" using assms(1,2) by (cases xs) auto
  have "length xs < 2 ^ LENGTH(32)" using assms(3) by simp
  then have "unat (of_nat (length xs) :: u32) = length xs"
    by (simp only: unsigned_of_nat take_bit_nat_eq_self of_nat_id)
  then have pos: "(of_nat (length xs) :: u32) > 0" using assms(2) by (simp add: word_less_nat_alt)
  have l: "length xs < 2 ^ 32" using assms(3) by simp
  note cp = RtlCopyString_result [OF assms(1) l assms(6,7)]
  show ?thesis
    using a pos assms(4,5)
    by (simp add: copy_args_def kern)
      (rule returns_mono [OF RtlStringLength_str [OF assms(1)]], simp add: kern,
        rule returns_mono [OF cp], simp)
qed

lemma span_text: "i < 5 \<Longrightarrow> span b (Suc (length (philosopher_text i pid))) \<subseteq> span b 25"
  by (rule span_mono) (use length_philosopher_text [of i pid] in simp)

lemma philosopher_text_string: "i < 5 \<Longrightarrow> 0 \<notin> set (philosopher_text i pid) \<and> philosopher_text i pid \<noteq> []"
  using philosopher_text_digits [of i pid] decimal_digits [of _ "unat pid"] philosopher_numbers [of i]
    fork_name_nonzero by auto

lemma format_philosopher:
  assumes "str_at (mem s) format philosopher_format" and "i < 5" and "unat pid < 2 ^ 31"
    and "0 \<notin> span args 25" and "span format 9 \<inter> span args 25 = {}"
  shows "returns (on_mem (RtlFormatString args 25 format (arguments [i, (i + 1) mod 5, pid]))) s
      (\<lambda>_ t. t = s\<lparr>mem := poke (mem s) args (philosopher_text i pid @ [0])\<rparr>
         \<and> str_at (mem t) args (philosopher_text i pid))"
proof -
  let ?xs = "philosopher_text i pid"
  have nine: "Suc (length philosopher_format) = 9" and u: "unat (25 :: u32) = 25" by simp_all
  have len: "length ?xs \<le> 14" by (rule length_philosopher_text [OF assms(2)])
  have "take (25 - 1) ?xs = ?xs" using len by simp
  then have "RtlFormatString args 25 format (arguments [i, (i + 1) mod 5, pid]) (mem s)
      = Some (Return (of_nat (length ?xs)) (poke (mem s) args (?xs @ [0])))"
    using RtlFormatString_expand [OF assms(1) expand_philosopher(2) [OF assms(2,3)], of 25 args,
        unfolded u nine expand_philosopher(1) [OF assms(2,3)]] assms(4,5)
    by simp
  moreover have "str_at (poke (mem s) args (?xs @ [0])) args ?xs"
    using span_text [OF assms(2), of args pid] assms(4) philosopher_text_string [OF assms(2)] len
    by (intro str_at_poke) auto
  ultimately show ?thesis unfolding returns_on_mem by (intro returnsI) simp_all
qed

lemma read_arguments:
  assumes p: "KeCurrentProcess t \<noteq> 0" "procs t (KeCurrentProcess t) = Some p"
    and a: "str_at (mem t) (Args p) (philosopher_text i pid)" "i < 5"
    and "0 \<notin> span dest 30" and "span dest 30 \<inter> span (Args p) 25 = {}"
  shows "returns (kthen (kcall (PsCopyArgs dest 30)) (on_mem (philosopher_arguments dest))) t
      (\<lambda>(l, r, w) t. l = fork_name (unat i) \<and> r = fork_name (right_fork (unat i)) \<and> w = pid)"
proof -
  let ?xs = "philosopher_text i pid"
  have disj: "span dest 30 \<inter> span (Args p) (Suc (length ?xs)) = {}"
    using span_text [OF a(2), of "Args p" pid] assms(6) by blast
  have F: "Args p \<noteq> 0" using a(1) philosopher_text_string [OF a(2), of pid] by (cases ?xs) auto
  have tk: "take (unat (30 :: u32) - 1) ?xs = ?xs" using length_philosopher_text [OF a(2), of pid] by simp
  have m: "max 1 (unat (30 :: u32)) = 30" by simp
  have c: "returns (PsCopyArgs dest 30) t (\<lambda>_ v. str_at (mem v) dest ?xs)"
    by (rule returns_mono [OF PsCopyArgs_result [of t p ?xs dest 30, unfolded tk m]])
      (use p F a(1) assms(5) disj in \<open>simp_all del: span.simps\<close>)
  show ?thesis
    unfolding kern by (rule returns_mono [OF c], rule returns_mono [OF philosopher_arguments_read [OF _ a(2)]]) auto
qed

text \<open>The block for \<open>n\<close> characters ends behind the terminator unless \<open>n\<close> is a multiple of four.\<close>

lemma terminator_in_block:
  assumes "unat F mod 4 = 0" and "unat F + n + 3 < 2 ^ 32"
  shows "unat F + n < unat (ALIGN_MEMORY (F + of_nat n)) \<longleftrightarrow> n mod 4 \<noteq> 0"
proof -
  have "n < 2 ^ LENGTH(32)" using assms(2) by simp
  then have u: "unat (of_nat n :: u32) = n" by (simp only: unsigned_of_nat take_bit_nat_eq_self of_nat_id)
  have "unat (F + of_nat n) = unat F + n" using assms(2) by (simp add: unat_word_ariths u)
  moreover from this have "unat (ALIGN_MEMORY (F + of_nat n)) = unat (F + of_nat n) + 3 - (unat (F + of_nat n) + 3) mod 4"
    using assms(2) by (intro unat_ALIGN_MEMORY) linarith
  ultimately show ?thesis using assms(1) by presburger
qed

lemma copy_philosopher_text:
  assumes "str_at (mem s) args (philosopher_text i pid)" and "i < 5" and "process \<noteq> 0" and "procs s process = Some p"
    and "freeMemPointer s \<noteq> 0" and "unat (freeMemPointer s) mod 4 = 0" and "unat (freeMemPointer s) + 25 \<le> 2 ^ 32"
    and "span (freeMemPointer s) 25 \<inter> span args 25 = {}"
  shows "returns (copy_args process args) s (\<lambda>_ t.
     procs t process = Some (p\<lparr>Args := freeMemPointer s, Context := (Context p)\<lparr>A0 := freeMemPointer s\<rparr>\<rparr>)
     \<and> str_at (mem t) (freeMemPointer s) (philosopher_text i pid)
     \<and> (unat (freeMemPointer s) + length (philosopher_text i pid) < unat (freeMemPointer t)
          \<longleftrightarrow> length (decimal (unat pid)) mod 4 \<noteq> 0))"
proof -
  let ?xs = "philosopher_text i pid" and ?F = "freeMemPointer s"
  have len: "length ?xs \<le> 14" "length ?xs = 4 + length (decimal (unat pid))"
    by (rule length_philosopher_text [OF assms(2)]) (simp add: philosopher_text_digits [OF assms(2)])
  have "0 \<notin> span ?F 25" by (rule span_nonnull [OF assms(5,7)])
  then have room: "0 \<notin> span ?F (Suc (length ?xs))" "span ?F (Suc (length ?xs)) \<inter> span args (Suc (length ?xs)) = {}"
    using span_text [OF assms(2), of ?F pid] span_text [OF assms(2), of args pid] assms(8) by blast+
  have "unat ?F + length ?xs < unat (ALIGN_MEMORY (?F + of_nat (length ?xs))) \<longleftrightarrow> length ?xs mod 4 \<noteq> 0"
    by (rule terminator_in_block [OF assms(6)]) (use assms(7) len in linarith)
  then have "unat ?F + length ?xs < unat (ALIGN_MEMORY (?F + of_nat (length ?xs))) \<longleftrightarrow> length (decimal (unat pid)) mod 4 \<noteq> 0"
    unfolding len(2) by simp
  then show ?thesis
    using len(1) by (intro returns_mono [OF copy_args_copies [OF assms(1) _ _ assms(3,4) room]])
      (simp_all add: philosopher_text_string [OF assms(2)])
qed

text \<open>C37: the three stages by which a philosopher gets its arguments agree on them.  The waiter
  formats the names of the two forks and its PID into its array; process creation copies
  the string to the first free address and makes \<^verbatim>\<open>Args\<close> and \<open>A0\<close> of the new process point to it;
  and from any later state in which that process runs and the string still stands where \<^verbatim>\<open>Args\<close> points,
  the process copies it, as \<^verbatim>\<open>AppPhilosopher\<close> does, and reads the same names and PID.  The terminator of the copy belongs to the
  block exactly when the number of the PID's digits is not a multiple of four; otherwise it lies at
  the first free address, and what is allocated next may overwrite it before the philosopher reads.\<close>

theorem philosopher_arguments_arrive:
  assumes "i < 5" and "unat pid < 2 ^ 31"
  shows "(str_at (mem s) format philosopher_format \<and> 0 \<notin> span args 25 \<and> span format 9 \<inter> span args 25 = {} \<longrightarrow>
      returns (on_mem (RtlFormatString args 25 format (arguments [i, (i + 1) mod 5, pid]))) s
        (\<lambda>_ t. t = s\<lparr>mem := mem t\<rparr> \<and> str_at (mem t) args (philosopher_text i pid)))
    \<and> (str_at (mem s) args (philosopher_text i pid) \<and> process \<noteq> 0 \<and> procs s process = Some p
        \<and> freeMemPointer s \<noteq> 0 \<and> unat (freeMemPointer s) mod 4 = 0 \<and> unat (freeMemPointer s) + 25 \<le> 2 ^ 32
        \<and> span (freeMemPointer s) 25 \<inter> span args 25 = {} \<longrightarrow>
      returns (copy_args process args) s (\<lambda>_ t.
        procs t process = Some (p\<lparr>Args := freeMemPointer s, Context := (Context p)\<lparr>A0 := freeMemPointer s\<rparr>\<rparr>)
        \<and> str_at (mem t) (freeMemPointer s) (philosopher_text i pid)
        \<and> (unat (freeMemPointer s) + length (philosopher_text i pid) < unat (freeMemPointer t)
             \<longleftrightarrow> length (decimal (unat pid)) mod 4 \<noteq> 0)))
    \<and> (KeCurrentProcess s \<noteq> 0 \<and> procs s (KeCurrentProcess s) = Some p
        \<and> str_at (mem s) (Args p) (philosopher_text i pid)
        \<and> 0 \<notin> span dest 30 \<and> span dest 30 \<inter> span (Args p) 25 = {} \<longrightarrow>
      returns (kthen (kcall (PsCopyArgs dest 30)) (on_mem (philosopher_arguments dest))) s (\<lambda>(l, r, w) t.
        l = fork_name (unat i) \<and> r = fork_name (right_fork (unat i)) \<and> w = pid))"
proof (intro conjI impI; elim conjE)
  assume "str_at (mem s) format philosopher_format" "0 \<notin> span args 25" "span format 9 \<inter> span args 25 = {}"
  from returns_mono [OF format_philosopher [OF this(1) assms this(2,3)]]
  show "returns (on_mem (RtlFormatString args 25 format (arguments [i, (i + 1) mod 5, pid]))) s
        (\<lambda>_ t. t = s\<lparr>mem := mem t\<rparr> \<and> str_at (mem t) args (philosopher_text i pid))" by simp
qed (rule copy_philosopher_text [OF _ assms(1)] read_arguments [OF _ _ _ assms(1)]; assumption)+

text \<open>The last philosopher and the waiter with PID 7, in a state for each stage.\<close>

definition start_demo :: "addr \<Rightarrow> byte list \<Rightarrow> kstate" where
  "start_demo a xs = args_demo\<lparr>mem := poke (\<lambda>_. 0) a (xs @ [0])\<rparr>"

lemma start_demo_fields: "freeMemPointer (start_demo a xs) = 0x9000" "KeCurrentProcess (start_demo a xs) = 0x1000"
    "procs (start_demo a xs) 0x1000 = Some ((demo_process 1 running 3)\<lparr>Args := 0x120\<rparr>)"
    "mem (start_demo a xs) = poke (\<lambda>_. 0) a (xs @ [0])"
  by (simp_all add: start_demo_def args_demo_def sched_demo_def)

theorem philosopher_arguments_arrive_witness:
  "returns (on_mem (RtlFormatString 0x200 25 0x100 (arguments [4, (4 + 1) mod 5, 7]))) (start_demo 0x100 philosopher_format)
     (\<lambda>_ t. str_at (mem t) 0x200 [52, 32, 48, 32, 55])
   \<and> returns (copy_args 0x1000 0x200) (start_demo 0x200 [52, 32, 48, 32, 55])
     (\<lambda>_ t. str_at (mem t) 0x9000 [52, 32, 48, 32, 55] \<and> unat (0x9000 :: addr) + 5 < unat (freeMemPointer t))
   \<and> returns (kthen (kcall (PsCopyArgs 0x300 30)) (on_mem (philosopher_arguments 0x300))) (start_demo 0x120 [52, 32, 48, 32, 55])
     (\<lambda>(l, r, w) t. l = 52 \<and> r = 48 \<and> w = 7)"
proof -
  have t: "philosopher_text 4 7 = [52, 32, 48, 32, 55]" "length (decimal (unat (7 :: u32))) = 1"
    by (simp_all add: philosopher_text_def decimal.simps)
  have f: "fork_name (unat (4 :: u32)) = 52" "fork_name (right_fork (unat (4 :: u32))) = 48"
    by (simp_all add: fork_name_def right_fork_def)
  note stages = philosopher_arguments_arrive [where i = 4 and pid = 7, unfolded t f]
  have "returns (on_mem (RtlFormatString 0x200 25 0x100 (arguments [4, (4 + 1) mod 5, 7]))) (start_demo 0x100 philosopher_format)
     (\<lambda>_ t. str_at (mem t) 0x200 [52, 32, 48, 32, 55])"
    by (rule returns_mono [OF stages [where s = "start_demo 0x100 philosopher_format" and format = "0x100" and args = "0x200",
          THEN conjunct1, THEN mp]]) (simp_all add: start_demo_fields span_nonnull span_apart)
  moreover have "returns (copy_args 0x1000 0x200) (start_demo 0x200 [52, 32, 48, 32, 55])
     (\<lambda>_ t. str_at (mem t) 0x9000 [52, 32, 48, 32, 55] \<and> unat (0x9000 :: addr) + 5 < unat (freeMemPointer t))"
    by (rule returns_mono [OF stages [where s = "start_demo 0x200 [52, 32, 48, 32, 55]" and args = "0x200" and process = "0x1000",
          THEN conjunct2, THEN conjunct1, THEN mp]]) (auto simp: start_demo_fields span_apart)
  moreover have "returns (kthen (kcall (PsCopyArgs 0x300 30)) (on_mem (philosopher_arguments 0x300))) (start_demo 0x120 [52, 32, 48, 32, 55])
     (\<lambda>(l, r, w) t. l = 52 \<and> r = 48 \<and> w = 7)"
    by (rule stages [where s = "start_demo 0x120 [52, 32, 48, 32, 55]" and dest = "0x300"
          and p = "(demo_process 1 running 3)\<lparr>Args := 0x120\<rparr>", THEN conjunct2, THEN conjunct2, THEN mp])
      (simp_all add: start_demo_fields span_nonnull span_apart)
  ultimately show ?thesis by blast
qed

end
