(* ===== verification/Shell.thy ===== *)
theory Shell
  imports UserApi
begin

text \<open>
  The command shell, \<^verbatim>\<open>base/apps/shell.c\<close>, and the program that changes priorities,
  \<^verbatim>\<open>base/apps/changeprio.c\<close>: the two programs that take a text apart.
\<close>

definition BACKSLASH :: char where "BACKSLASH = CHR 0x5C"
definition QUOTE :: char where "QUOTE = CHR 0x27"

section \<open>The shell\<close>

text \<open>
  \<^verbatim>\<open>split\<close> cuts a line at its first space.  It returns the two pointers; on an empty line
  it leaves \<^verbatim>\<open>pArgument\<close> as it was.
\<close>

definition split_step :: "addr \<Rightarrow> u32 \<times> addr \<Rightarrow> (memory, u32 \<times> addr + addr) kmonad" where
  "split_step string = (\<lambda>(i, argument).
     kbind (rd (string + i)) (\<lambda>c.
     if c = 0 then kreturn (Inr argument)
     else if c = chr CHR '' '' then kthen (wr (string + i) 0) (kreturn (Inr (string + (i + 1))))
     else kreturn (Inl (i + 1, 0))))"

definition split :: "addr \<Rightarrow> addr \<Rightarrow> (memory, addr \<times> addr) kmonad" where
  "split string argument =
     kbind (kloop (split_step string) (0, argument)) (\<lambda>argument. kreturn (string, argument))"

text \<open>One key: the loop variables are the position in the input line, and the command and argument pointers.\<close>

definition read_key ::
  "system_calls \<Rightarrow> image \<Rightarrow> addr \<Rightarrow> addr \<Rightarrow> u32 \<Rightarrow> u32 \<times> addr \<times> addr \<Rightarrow> (u32 \<times> addr \<times> addr + u32 \<times> addr \<times> addr) kern" where
  "read_key sys img input ch handle = (\<lambda>(i, command, argument).
     kbind (on_mem (rd ch)) (\<lambda>c.
     if c = 13 then kreturn (Inr (i, command, argument)) else
     kthen (kcall (ReadFile sys handle ch 1))
     (kbind (on_mem (rd ch)) (\<lambda>c.
      if c = 13 then kreturn (Inr (i, 0, 0)) else
      kbind
        (if c = 8 \<or> c = 127 then
           if i > 0 then
             kthen (on_mem (wr (input + (i - 1)) 0))
             (kthen (kcall (WriteFile sys handle (literal img (ESC # ''[D '' @ ESC # ''[D'')) 9))
             (kreturn (i - 1)))
           else kreturn i
         else
           kthen (on_mem (wr (input + i) c))
           (kthen (kcall (WriteFile sys handle ch 1))
           (kreturn (i + 1))))
      (\<lambda>i. kreturn (Inl (if i > 99 then 0 else i, 0, 0)))))))"

definition clear_input :: "addr \<Rightarrow> u32 \<Rightarrow> unit kern" where
  "clear_input input i = kfor [0 ..< unat i] (\<lambda>n. on_mem (wr (input + of_nat n) 0))"

definition run_command :: "system_calls \<Rightarrow> image \<Rightarrow> addr \<Rightarrow> u32 \<Rightarrow> addr \<Rightarrow> addr \<Rightarrow> unit kern" where
  "run_command sys img commandProcess handle command argument =
     kbind (CreateProcess sys command 9 commandProcess argument) (\<lambda>status.
     if status \<noteq> 0 then
       kcall (WriteFile sys handle
         (literal img (NL # CR # ''ARCOS:'' @ BACKSLASH # ''>Unknown command. Try again.'')) 38)
     else
       kbind (on_mem (load_u32 commandProcess)) (\<lambda>h.
       kthen (kcall (WaitForSingleObject sys h))
       (kcall (CloseHandle sys h))))"

definition shell_round ::
  "system_calls \<Rightarrow> image \<Rightarrow> addr \<Rightarrow> addr \<Rightarrow> addr \<Rightarrow> u32 \<Rightarrow> addr \<times> addr \<Rightarrow> (addr \<times> addr + unit) kern" where
  "shell_round sys img input ch commandProcess handle = (\<lambda>(command, argument).
     kthen (kcall (WriteFile sys handle (literal img (''ARCOS:'' @ BACKSLASH # ''>'')) 9))
     (kbind (kloop (read_key sys img input ch handle) (0, command, argument)) (\<lambda>(i, command, argument).
      kbind (on_mem (split input argument)) (\<lambda>(command, argument).
      kbind (on_mem (RtlCompareStrings command (literal img ''Exit''))) (\<lambda>r.
      kthen
        (if r = 0 \<and> i = 4 then KillMe sys
         else
           kthen (run_command sys img commandProcess handle command argument)
           (kthen (clear_input input i)
           (kthen (on_mem (wr ch 0))
           (kcall (WriteFile sys handle (literal img [NL, CR]) 1)))))
      (kreturn (Inl (command, argument))))))))"

definition AppShell :: "system_calls \<Rightarrow> image \<Rightarrow> addr \<Rightarrow> addr \<Rightarrow> addr \<Rightarrow> unit kern" where
  "AppShell sys img input ch commandProcess =
     kthen (on_mem (wr (ch + 1) 0))
     (kbind (CreateFile sys 115) (\<lambda>handle.
      kloop (shell_round sys img input ch commandProcess handle) (0, 0)))"

section \<open>Changing a priority\<close>

text \<open>\<^verbatim>\<open>while (P(*++pek));\<close>\<close>

definition scan_step :: "(byte \<Rightarrow> bool) \<Rightarrow> addr \<Rightarrow> (memory, addr + addr) kmonad" where
  "scan_step P pek = kbind (rd (pek + 1)) (\<lambda>c. kreturn (if P c then Inl (pek + 1) else Inr (pek + 1)))"

definition scan :: "(byte \<Rightarrow> bool) \<Rightarrow> addr \<Rightarrow> (memory, addr) kmonad" where
  "scan P pek = kloop (scan_step P) pek"

abbreviation no_digit :: "byte \<Rightarrow> bool" where
  "no_digit c \<equiv> \<not> Rtlappisdigit c \<and> c \<noteq> 0"

definition usage :: string where
  "usage = QUOTE # '' 2 3'' @ QUOTE # ''('' @ QUOTE # ''PID NEWPRIO'' @ QUOTE # '')''"

text \<open>A complaint, after which the program kills itself.\<close>

definition complain :: "system_calls \<Rightarrow> image \<Rightarrow> string \<Rightarrow> unit kern" where
  "complain sys img text = kthen (KdPrint img (literal img text) (arguments [])) (KillMe sys)"

definition find_argument :: "system_calls \<Rightarrow> image \<Rightarrow> string \<Rightarrow> addr \<Rightarrow> addr kern" where
  "find_argument sys img text pek =
     kbind (on_mem (scan no_digit pek)) (\<lambda>pek.
     kbind (on_mem (rd pek)) (\<lambda>c.
     kthen (kwhen (c = 0) (complain sys img text)) (kreturn pek)))"

definition changeprio_arguments :: "system_calls \<Rightarrow> image \<Rightarrow> addr \<Rightarrow> u32 \<Rightarrow> (addr \<times> addr) kern" where
  "changeprio_arguments sys img buffer argLength =
     kthen (kwhen (argLength = 0)
              (complain sys img (''ChangePrio needs arguments e.g. '' @ usage)))
     (kbind (on_mem (rd buffer)) (\<lambda>c.
      kbind (if \<not> Rtlappisdigit c
             then find_argument sys img (''ChangePrio needs arguments e.g. '' @ usage) buffer
             else kreturn buffer) (\<lambda>first.
      kbind (on_mem (scan Rtlappisdigit first)) (\<lambda>pek.
      kbind (on_mem (rd pek)) (\<lambda>c.
      kthen (kwhen (c = 0)
               (complain sys img (''ChangePrio needs 2 arguments e.g. '' @ usage)))
      (kthen (on_mem (wr pek 0))
      (kbind (find_argument sys img (''ChangePrio needs 2 arguments e.g. '' @ QUOTE # '' 2 3'' @ [QUOTE]) pek) (\<lambda>second.
       kbind (on_mem (scan Rtlappisdigit second)) (\<lambda>pek.
       kbind (on_mem (rd pek)) (\<lambda>c.
       kthen (kwhen (c \<noteq> 0) (on_mem (wr pek 0)))
       (kreturn (first, second))))))))))))"

definition changeprio_numbers ::
  "system_calls \<Rightarrow> image \<Rightarrow> addr \<Rightarrow> u32 \<Rightarrow> (addr \<times> addr \<times> u32 \<times> u32) kern" where
  "changeprio_numbers sys img buffer argLength =
     kbind (changeprio_arguments sys img buffer argLength) (\<lambda>(first, second).
     kbind (on_mem (RtlAtoUL first)) (\<lambda>pid.
     kbind (on_mem (RtlAtoUL second)) (\<lambda>prio.
     kreturn (first, second, pid, prio))))"

definition AppChangePrio :: "system_calls \<Rightarrow> image \<Rightarrow> addr \<Rightarrow> unit kern" where
  "AppChangePrio sys img buffer =
     kbind (CopyArgs sys buffer 25) (\<lambda>argLength.
     kbind (changeprio_numbers sys img buffer argLength) (\<lambda>(first, second, pid, prio).
     kbind (ChangePriority sys pid prio) (\<lambda>status.
     kthen (kwhen (status \<noteq> 0)
              (kthen (KdPrint img (literal img ''The pid:%d is not in use'') (arguments [pid])) (KillMe sys)))
     (kthen (KdPrint img (literal img ''Changed Priority of PID = %s'') (arguments [first]))
     (kthen (KdPrint img (literal img ''Changed priority to: %s'') (arguments [second]))
     (KillMe sys))))))"

end
