(* ===== verification/ShellSpec.thy ===== *)
theory ShellSpec
  imports Shell RtlSpec Demo
begin

text \<open>
  Properties of the programs that take a text apart: the shell's \<^verbatim>\<open>split\<close>, and the arguments
  of the program that changes priorities.
\<close>

section \<open>Splitting a command line\<close>

lemma split_loop:
  assumes "str_at M (string + of_nat k) xs" and "32 \<notin> set xs"
  shows "returns (kloop (split_step string) (of_nat k, a)) M
    (\<lambda>r N. N = M \<and> r = (if xs = [] then a else 0))"
  using assms
proof (induction xs arbitrary: k a)
  case Nil
  then show ?case by (subst returns_kloop) (simp add: split_step_def kern)
next
  case (Cons x xs)
  have "returns (kloop (split_step string) (of_nat (Suc k), 0)) M
      (\<lambda>r N. N = M \<and> r = (if xs = [] then 0 else 0))"
    using Cons.prems by (intro Cons.IH) (auto simp: add_ac)
  then show ?case
    using Cons.prems by (subst returns_kloop) (simp add: split_step_def kern add_ac)
qed

lemma split_loop_space:
  assumes "str_at M (string + of_nat k) (us @ 32 # vs)" and "32 \<notin> set us"
  shows "returns (kloop (split_step string) (of_nat k, a)) M
    (\<lambda>r N. N = M(string + of_nat (k + length us) := 0) \<and> r = string + of_nat (k + length us) + 1)"
  using assms
proof (induction us arbitrary: k a)
  case Nil
  then show ?case by (subst returns_kloop) (simp add: split_step_def kern add.assoc)
next
  case (Cons x us)
  have "returns (kloop (split_step string) (of_nat (Suc k), 0)) M
    (\<lambda>r N. N = M(string + of_nat (Suc k + length us) := 0) \<and> r = string + of_nat (Suc k + length us) + 1)"
    using Cons.prems by (intro Cons.IH) (auto simp: add_ac)
  then show ?case
    using Cons.prems by (subst returns_kloop) (simp add: split_step_def kern add_ac)
qed

lemma str_at_cut:
  assumes "str_at M a (us @ c # vs)" and "unat a + length us + length vs + 2 \<le> 2 ^ 32"
  shows "str_at (M(a + of_nat (length us) := 0)) a us"
    and "str_at (M(a + of_nat (length us) := 0)) (a + of_nat (length us) + 1) vs"
proof -
  let ?e = "a + of_nat (length us)"
  have b: "bytes_at M a us" "str_at M ?e (c # vs)" "0 \<notin> set us"
    using assms(1) str_at_drop [OF assms(1)] by (auto simp: str_at_def bytes_at_append)
  have "length us < 2 ^ 32" using assms(2) by simp
  then have n: "?e \<notin> span a (length us)" by (rule end_not_in_span)
  have "bytes_at (M(?e := 0)) a us" using b(1) n by (subst bytes_at_cong [where N = M]) auto
  then show "str_at (M(?e := 0)) a us" using b by (simp add: str_at_def bytes_at_append)
  have "?e \<notin> span (?e + 1) (Suc (length vs))" by (rule not_in_span) (use assms(2) in simp)
  then show "str_at (M(?e := 0)) (?e + 1) vs" using b(2) by (simp add: str_at_upd del: span.simps)
qed

text \<open>\<^verbatim>\<open>split\<close> cuts a command line at its first space: the command is the text before it and the
  argument the text behind it, which may be empty; a line without a space has no argument.
  Nothing but that one character changes.\<close>

theorem split_correct:
  assumes "str_at M string line" and "unat string + length line + 1 \<le> 2 ^ 32"
  shows "returns (split string argument) M (\<lambda>(c, a) N. c = string
     \<and> str_at N c (takeWhile (\<lambda>x. x \<noteq> 32) line)
     \<and> (if 32 \<in> set line then str_at N a (tl (dropWhile (\<lambda>x. x \<noteq> 32) line))
          \<and> N = M(string + of_nat (length (takeWhile (\<lambda>x. x \<noteq> 32) line)) := 0)
        else N = M \<and> (line \<noteq> [] \<longrightarrow> a = 0)))"
proof (cases "32 \<in> set line")
  case False
  have s: "str_at M (string + of_nat 0) line" using assms(1) by simp
  from False have tw: "takeWhile (\<lambda>x. x \<noteq> 32) line = line" by (subst takeWhile_eq_all_conv) auto
  show ?thesis
    unfolding tw using False assms(1) split_loop [OF s False, of argument]
    by (simp add: split_def kern) (erule returns_mono, auto)
next
  case True
  obtain us vs where l: "line = us @ 32 # vs" "32 \<notin> set us" using split_list_first [OF True] by blast
  have s: "str_at M (string + of_nat 0) (us @ 32 # vs)" using assms(1) l(1) by simp
  have tw: "takeWhile (\<lambda>x. x \<noteq> 32) line = us" "dropWhile (\<lambda>x. x \<noteq> 32) line = 32 # vs"
    using l by (auto simp: takeWhile_tail dropWhile_append3)
  show ?thesis
    unfolding tw using True split_loop_space [OF s l(2), of argument] assms str_at_cut [of M string us 32 vs] l(1)
    by (simp add: split_def kern) (erule returns_mono, auto)
qed

definition shell_memory :: memory where
  "shell_memory = poke (\<lambda>_. 0) 0x500 [107, 105, 108, 108, 32, 53, 0]"

text \<open>The line \<^verbatim>\<open>kill 5\<close>.\<close>

theorem split_correct_witness:
  "returns (split 0x500 0) shell_memory (\<lambda>(c, a) N. c = 0x500
     \<and> str_at N c (takeWhile (\<lambda>x. x \<noteq> 32) [107, 105, 108, 108, 32, 53])
     \<and> (if 32 \<in> set [107, 105, 108, 108, 32, 53 :: byte]
        then str_at N a (tl (dropWhile (\<lambda>x. x \<noteq> 32) [107, 105, 108, 108, 32, 53]))
          \<and> N = shell_memory(0x500 + of_nat (length (takeWhile (\<lambda>x. x \<noteq> 32) [107, 105, 108, 108, 32, 53 :: byte])) := 0)
        else N = shell_memory \<and> ([107, 105, 108, 108, 32, 53 :: byte] \<noteq> [] \<longrightarrow> a = 0)))"
  by (rule split_correct) (simp_all add: shell_memory_def)

section \<open>The arguments of the priority changer\<close>

lemma scan_result:
  assumes "str_at M (pek + 1) (xs @ ys)" and "\<forall>x \<in> set xs. P x" and "\<not> P (case ys of [] \<Rightarrow> 0 | y # _ \<Rightarrow> y)"
  shows "returns (scan P pek) M (\<lambda>r N. r = pek + of_nat (Suc (length xs)) \<and> N = M)"
  unfolding scan_def using assms
proof (induction xs arbitrary: pek)
  case Nil
  then have "pek + 1 \<noteq> 0" "\<not> P (M (pek + 1))" by (cases ys; simp)+
  then show ?case by (subst returns_kloop) (simp add: scan_step_def kern)
next
  case (Cons x xs)
  have "returns (kloop (scan_step P) (pek + 1)) M (\<lambda>r N. r = pek + 1 + of_nat (Suc (length xs)) \<and> N = M)"
    using Cons.prems by (intro Cons.IH) auto
  then show ?case
    using Cons.prems by (subst returns_kloop) (simp add: scan_step_def kern add_ac)
qed

lemma decimal_is_digits: "c \<in> set (decimal n) \<Longrightarrow> Rtlappisdigit c"
proof (induction n rule: decimal.induct)
  case (1 n)
  have "Rtlappisdigit (of_nat (d + 48))" if "d < 10" for d
  proof -
    have "d \<in> {0, 1, 2, 3, 4, 5, 6, 7, 8, 9}" using that by auto
    then show ?thesis by (auto simp: Rtlappisdigit_def)
  qed
  from this [of "n mod 10"] 1 show ?case
    by (subst (asm) decimal.simps) (auto split: if_splits)
qed

lemma find_argument_result:
  assumes "str_at (mem s) (p + 1) (xs @ d # ys)" and "\<forall>x \<in> set xs. no_digit x" and "Rtlappisdigit d"
  shows "returns (find_argument sys img text p) s (\<lambda>r t. r = p + of_nat (Suc (length xs)) \<and> t = s)"
proof -
  have "str_at (mem s) (p + 1 + of_nat (length xs)) (d # ys)" by (rule str_at_drop [OF assms(1)])
  then have d: "p + of_nat (Suc (length xs)) \<noteq> 0" "mem s (p + of_nat (Suc (length xs))) \<noteq> 0"
    by (simp_all add: add_ac)
  have "returns (scan no_digit p) (mem s) (\<lambda>r N. r = p + of_nat (Suc (length xs)) \<and> N = mem s)"
    by (rule scan_result [OF assms(1,2)]) (use assms(3) in simp)
  then show ?thesis
    unfolding find_argument_def kern
    by (rule returns_mono) (use d in \<open>simp add: kern\<close>)
qed

lemma find_first_argument:
  assumes line: "str_at (mem s) buffer (us @ d # ys)" and "\<forall>x \<in> set us. no_digit x" and "Rtlappisdigit d"
  shows "kbind (on_mem (rd buffer)) (\<lambda>c. if \<not> Rtlappisdigit c then find_argument sys img text' buffer
      else kreturn buffer) s = Some (Return (buffer + of_nat (length us)) s)"
  unfolding returns_exact
proof (cases us)
  case Nil
  then show "returns (kbind (on_mem (rd buffer)) (\<lambda>c. if \<not> Rtlappisdigit c then find_argument sys img text' buffer
      else kreturn buffer)) s (\<lambda>r t. r = buffer + of_nat (length us) \<and> t = s)"
    using assms by (simp add: kern)
next
  case (Cons u us')
  have "returns (find_argument sys img text' buffer) s (\<lambda>r t. r = buffer + of_nat (Suc (length us')) \<and> t = s)"
    by (rule find_argument_result [where d = d and ys = ys]) (use assms Cons in auto)
  then show "returns (kbind (on_mem (rd buffer)) (\<lambda>c. if \<not> Rtlappisdigit c then find_argument sys img text' buffer
      else kreturn buffer)) s (\<lambda>r t. r = buffer + of_nat (length us) \<and> t = s)"
    using assms Cons by (simp add: kern)
qed

lemma scan_digits:
  assumes at: "str_at (mem s) a (ds @ ys)" and ds: "ds \<noteq> []" "\<forall>x \<in> set ds. Rtlappisdigit x"
    and ys: "ys \<noteq> [] \<Longrightarrow> \<not> Rtlappisdigit (hd ys)"
  shows "on_mem (scan Rtlappisdigit a) s = Some (Return (a + of_nat (length ds)) s)"
proof -
  obtain d ds' where D: "ds = d # ds'" using ds(1) by (cases ds) auto
  have zero: "\<not> Rtlappisdigit 0" by (simp add: Rtlappisdigit_def)
  have "returns (scan Rtlappisdigit a) (mem s) (\<lambda>r N. r = a + of_nat (Suc (length ds')) \<and> N = mem s)"
    by (rule scan_result [where ys = ys]) (use at ds ys D zero in \<open>auto split: list.split\<close>)
  then show ?thesis unfolding returns_exact by (simp add: kern D) (erule returns_mono, simp)
qed

lemma find_next_argument:
  assumes "str_at (mem s) (p + 1) (vs @ d # ys)" and "\<forall>x \<in> set vs. no_digit x" and "Rtlappisdigit d"
  shows "find_argument sys img text' p s = Some (Return (p + 1 + of_nat (length vs)) s)"
  unfolding returns_exact
  using find_argument_result [OF assms, of sys img text'] by (simp add: add.assoc)

text \<open>The second argument is cut off like the first, unless the line ends with it.\<close>

lemma end_argument:
  assumes f: "str_at M f ds" and g: "str_at M g (es @ ws)"
    and apart: "unat f + length ds < unat g" and room: "unat g + length es + length ws + 1 \<le> 2 ^ 32"
  shows "returns (kbind (on_mem (rd (g + of_nat (length es)))) (\<lambda>c.
      kthen (kwhen (c \<noteq> 0) (on_mem (wr (g + of_nat (length es)) 0))) (kreturn (f, g))))
      (s\<lparr>mem := M\<rparr>) (\<lambda>(f, g) t. str_at (mem t) f ds \<and> str_at (mem t) g es \<and> t = s\<lparr>mem := mem t\<rparr>)"
proof (cases ws)
  case Nil
  then show ?thesis using f g str_at_drop [OF g] by (simp add: kern)
next
  case (Cons w ws')
  let ?q = "g + of_nat (length es)"
  have q: "?q \<noteq> 0" "M ?q \<noteq> 0" using str_at_drop [OF g] Cons by simp_all
  have u: "unat ?q = unat g + length es" using room Cons by (intro unat_add_of_nat) simp
  have "?q \<notin> span f (Suc (length ds))"
    using unat_in_span [of ?q f "Suc (length ds)"] apart room u Cons by fastforce
  then have "str_at (M(?q := 0)) f ds" using f by (rule str_at_upd [THEN iffD2])
  moreover have "str_at (M(?q := 0)) g es"
    by (rule str_at_cut(1) [where c = w and vs = ws']) (use g room Cons in auto)
  ultimately show ?thesis using q by (simp add: kern)
qed

lemma changeprio_arguments_result:
  assumes line: "str_at (mem s) buffer (us @ ds @ vs @ es @ ws)"
    and us: "\<forall>x \<in> set us. no_digit x" and ds: "ds \<noteq> []" "\<forall>x \<in> set ds. Rtlappisdigit x"
    and vs: "vs \<noteq> []" "\<forall>x \<in> set vs. no_digit x" and es: "es \<noteq> []" "\<forall>x \<in> set es. Rtlappisdigit x"
    and ws: "ws \<noteq> [] \<Longrightarrow> \<not> Rtlappisdigit (hd ws)" and n: "n \<noteq> 0"
    and room: "unat buffer + length (us @ ds @ vs @ es @ ws) + 1 \<le> 2 ^ 32"
  shows "returns (changeprio_arguments sys img buffer n) s (\<lambda>(f, g) t.
     str_at (mem t) f ds \<and> str_at (mem t) g es \<and> t = s\<lparr>mem := mem t\<rparr>)"
proof -
  obtain v vs' where V: "vs = v # vs'" using vs(1) by (cases vs) auto
  obtain d ds' e es' where D: "ds = d # ds'" and E: "es = e # es'" using ds(1) es(1) by (cases ds; cases es) auto
  define f where "f = buffer + of_nat (length us)"
  define p where "p = f + of_nat (length ds)"
  define g where "g = p + 1 + of_nat (length vs')"
  define s1 where "s1 = s\<lparr>mem := (mem s)(p := 0)\<rparr>"
  have at: "str_at (mem s) f (ds @ v # vs' @ es @ ws)" using str_at_drop [OF line] by (simp add: f_def V)
  have u: "unat f = unat buffer + length us" unfolding f_def using room by (intro unat_add_of_nat) simp
  have cut: "str_at (mem s1) f ds" "str_at (mem s1) (p + 1) (vs' @ es @ ws)"
    using str_at_cut [OF at] u room by (simp_all add: s1_def p_def V)
  then have at2: "str_at (mem s1) g (es @ ws)" using str_at_drop [of "mem s1" "p + 1" vs'] by (simp add: g_def)
  have p: "p \<noteq> 0" "mem s p \<noteq> 0" using str_at_drop [OF at] by (simp_all add: p_def)
  have g: "unat g = unat f + length ds + Suc (length vs')"
    using unat_add_of_nat [of f "length ds + Suc (length vs')"] u room by (simp add: g_def p_def V add_ac)
  have first: "kbind (on_mem (rd buffer)) (\<lambda>c. if \<not> Rtlappisdigit c then find_argument sys img text' buffer
      else kreturn buffer) s = Some (Return f s)" for text'
    unfolding f_def by (rule find_first_argument) (use line us ds D in auto)
  have second: "on_mem (scan Rtlappisdigit f) s = Some (Return p s)"
    unfolding p_def by (rule scan_digits [OF at ds]) (use vs(2) V in simp)
  have third: "find_argument sys img text' p s1 = Some (Return g s1)" for text'
    unfolding g_def by (rule find_next_argument) (use cut(2) vs es E V in auto)
  have fourth: "on_mem (scan Rtlappisdigit g) s1 = Some (Return (g + of_nat (length es)) s1)"
    by (rule scan_digits [OF at2 es ws])
  have rd_p: "on_mem (rd p) s = Some (Return (mem s p) s)" and wr_p: "on_mem (wr p 0) s = Some (Return () s1)"
    unfolding returns_exact using p(1) by (simp_all add: kern s1_def)
  have "changeprio_arguments sys img buffer n s = kbind
      (kbind (on_mem (rd buffer)) (\<lambda>c. if \<not> Rtlappisdigit c
         then find_argument sys img (''ChangePrio needs arguments e.g. '' @ usage) buffer else kreturn buffer))
      (\<lambda>first. kbind (on_mem (scan Rtlappisdigit first)) (\<lambda>pek.
        kbind (on_mem (rd pek)) (\<lambda>c.
        kthen (kwhen (c = 0) (complain sys img (''ChangePrio needs 2 arguments e.g. '' @ usage)))
        (kthen (on_mem (wr pek 0))
        (kbind (find_argument sys img (''ChangePrio needs 2 arguments e.g. '' @ QUOTE # '' 2 3'' @ [QUOTE]) pek)
          (\<lambda>second. kbind (on_mem (scan Rtlappisdigit second)) (\<lambda>pek.
           kbind (on_mem (rd pek)) (\<lambda>c. kthen (kwhen (c \<noteq> 0) (on_mem (wr pek 0)))
           (kreturn (first, second)))))))))) s"
    using n by (simp only: changeprio_arguments_def kbind_assoc kthen_run kwhen_run not_False_eq_True)
  also have "\<dots> = kbind (on_mem (rd (g + of_nat (length es)))) (\<lambda>c.
      kthen (kwhen (c \<noteq> 0) (on_mem (wr (g + of_nat (length es)) 0))) (kreturn (f, g))) s1"
    using p(2) by (simp only: kbind_run(1) kthen_run(1) first second third fourth rd_p wr_p kwhen_run(2) not_False_eq_True)
  finally have "returns (changeprio_arguments sys img buffer n) s Q = returns (kbind (on_mem (rd (g + of_nat (length es)))) (\<lambda>c.
      kthen (kwhen (c \<noteq> 0) (on_mem (wr (g + of_nat (length es)) 0))) (kreturn (f, g)))) s1 Q" for Q
    by (rule returns_eq)
  then show ?thesis
    using end_argument [OF cut(1) at2, of s] g u room by (simp add: V s1_def)
qed

text \<open>C38: the priority changer finds the two numbers of its arguments, whatever other characters
  stand before, between and behind them: it leaves each as a string of its own and reads
  their values, modulo \<open>2 ^ 32\<close>; it complains about nothing and changes nothing but its buffer.\<close>

theorem changeprio_reads_numbers:
  assumes "str_at (mem s) buffer (us @ decimal a @ vs @ decimal b @ ws)"
    and "\<forall>x \<in> set us. no_digit x" and "vs \<noteq> []" and "\<forall>x \<in> set vs. no_digit x"
    and "ws \<noteq> [] \<Longrightarrow> \<not> Rtlappisdigit (hd ws)" and "n \<noteq> 0"
    and "unat buffer + length (us @ decimal a @ vs @ decimal b @ ws) + 1 \<le> 2 ^ 32"
  shows "returns (changeprio_numbers sys img buffer n) s (\<lambda>(first, second, pid, prio) t.
     str_at (mem t) first (decimal a) \<and> str_at (mem t) second (decimal b)
     \<and> pid = of_nat a \<and> prio = of_nat b \<and> t = s\<lparr>mem := mem t\<rparr>)"
proof -
  have reads: "returns (RtlAtoUL p) M (\<lambda>v N. v = of_nat k \<and> N = M)" if "str_at M p (decimal k)" for p M k
  proof -
    have h: "decimal k = [] \<or> hd (decimal k) \<noteq> 32"
      using decimal_digits [of _ k] decimal_nonempty [of k] hd_in_set by blast
    have "str_at M p (replicate 0 32 @ decimal k)" using that by simp
    from RtlAtoUL_value [OF this h] show ?thesis by (simp add: foldl_decimal)
  qed
  have d: "\<forall>x \<in> set (decimal k). Rtlappisdigit x" for k using decimal_is_digits by blast
  have "returns (changeprio_arguments sys img buffer n) s (\<lambda>(f, g) t.
      str_at (mem t) f (decimal a) \<and> str_at (mem t) g (decimal b) \<and> t = s\<lparr>mem := mem t\<rparr>)"
    by (rule changeprio_arguments_result [OF assms(1,2) decimal_nonempty d assms(3,4) decimal_nonempty d assms(5,6,7)])
  then show ?thesis
    unfolding changeprio_numbers_def returns_kbind [where m = "changeprio_arguments sys img buffer n"]
  proof (rule returns_mono)
    fix r t
    assume r: "(\<lambda>(f, g) t. str_at (mem t) f (decimal a) \<and> str_at (mem t) g (decimal b) \<and> t = s\<lparr>mem := mem t\<rparr>) r t"
    obtain f g where fg: "r = (f, g)" by (cases r)
    have st: "str_at (mem t) f (decimal a)" "str_at (mem t) g (decimal b)" "t = s\<lparr>mem := mem t\<rparr>"
      using r fg by auto
    have "returns (on_mem (RtlAtoUL f)) t (\<lambda>v u. v = of_nat a \<and> u = t)"
      "returns (on_mem (RtlAtoUL g)) t (\<lambda>v u. v = of_nat b \<and> u = t)"
      unfolding returns_on_mem by (rule returns_mono [OF reads [OF st(1)]], simp,
        rule returns_mono [OF reads [OF st(2)]], simp)
    note e = this [folded returns_exact]
    show "returns (case r of (first, second) \<Rightarrow> kbind (on_mem (RtlAtoUL first)) (\<lambda>pid.
        kbind (on_mem (RtlAtoUL second)) (\<lambda>prio. kreturn (first, second, pid, prio)))) t
        (\<lambda>(first, second, pid, prio) t. str_at (mem t) first (decimal a) \<and> str_at (mem t) second (decimal b)
          \<and> pid = of_nat a \<and> prio = of_nat b \<and> t = s\<lparr>mem := mem t\<rparr>)"
      unfolding fg prod.case
      by (rule returnsI, simp only: kbind_run(1) e kprim_run) (use st in simp)
  qed
qed

text \<open>The text \<open> 12 3\<close>, as the shell passes it on.\<close>

definition changeprio_demo :: kstate where
  "changeprio_demo = boot_state\<lparr>mem := poke (\<lambda>_. 0) 0x600 [32, 49, 50, 32, 51, 0]\<rparr>"

theorem changeprio_reads_numbers_witness:
  "\<forall>sys img. returns (changeprio_numbers sys img 0x600 5) changeprio_demo (\<lambda>(first, second, pid, prio) t.
     str_at (mem t) first (decimal 12) \<and> str_at (mem t) second (decimal 3)
     \<and> pid = of_nat 12 \<and> prio = of_nat 3 \<and> t = changeprio_demo\<lparr>mem := mem t\<rparr>)"
proof (intro allI, rule changeprio_reads_numbers [where us = "[32]" and vs = "[32]" and ws = "[]"])
  have d: "decimal 12 = [49, 50]" "decimal 3 = [51]" by (simp_all add: decimal.simps)
  show "str_at (mem changeprio_demo) 0x600 ([32] @ decimal 12 @ [32] @ decimal 3 @ [])"
    by (simp add: d changeprio_demo_def)
  show "unat (0x600 :: addr) + length ([32] @ decimal 12 @ [32] @ decimal 3 @ []) + 1 \<le> 2 ^ 32"
    by (simp add: d)
qed (simp_all add: Rtlappisdigit_def)

end
