(* ===== verification/Programs.thy ===== *)
theory Programs
  imports UserApi Io PsLookup
begin

text \<open>
  The other user programs of \<^verbatim>\<open>base/apps\<close>: the message ring, the task manager, the program that
  kills a process, the supervisor of drones and its drones, the program that starts the waiter,
  and the scrolling text.
\<close>

section \<open>The ring\<close>

definition ring_node_round ::
  "system_calls \<Rightarrow> image \<Rightarrow> addr \<Rightarrow> addr \<Rightarrow> u32 \<Rightarrow> u32 \<Rightarrow> unit \<Rightarrow> (unit + unit) kern" where
  "ring_node_round sys img stringBuffer s_address handle receivedPID _ =
     kthen (Sleep sys 2000)
     (kbind (ReceiveFirst sys 1) (\<lambda>message.
      kthen (Sleep sys 2000)
      (kthen
        (kwhen (message \<noteq> 0)
          (kbind (GetProcessId sys) (\<lambda>pid.
           kthen (kcall (on_mem (RtlFormatString stringBuffer 100
             (literal img ([NL, CR] @ ''Yey! I got start message! My pid is %d, sending start message to %d. Zzz...'' @ [NL, CR]))
             (arguments [pid, receivedPID]))))
           (kthen (kcall (WriteFile sys handle stringBuffer 0))
           (kthen (kcall (DeleteMessage sys message))
           (kcall (SendMessage sys receivedPID 0 s_address 4)))))))
      (kreturn (Inl ())))))"

text \<open>\<^verbatim>\<open>s_address\<close> is the address of the local pointer \<^verbatim>\<open>s\<close>, which is sent as it is.\<close>

definition AppRingNode :: "system_calls \<Rightarrow> image \<Rightarrow> addr \<Rightarrow> addr \<Rightarrow> unit kern" where
  "AppRingNode sys img stringBuffer s_address =
     kbind (CreateFile sys 115) (\<lambda>handle.
     kbind (ReceiveFirst sys 5000) (\<lambda>message.
     kthen (kwhen (message = 0) (KillMe sys))
     (kbind (getMsg message) (\<lambda>m.
      kbind (on_mem (load_u32 (msgBuffer m))) (\<lambda>receivedPID.
      kthen (kcall (DeleteMessage sys message))
      (kthen (on_mem (store_u32 s_address stringBuffer))
      (kbind (GetProcessId sys) (\<lambda>pid.
       kthen (kcall (on_mem (RtlFormatString stringBuffer 100
         (literal img ([NL, CR] @ ''Bip! I received target pid nr %d, my own pid is %d. Z z z...''))
         (arguments [receivedPID, pid]))))
       (kthen (kcall (WriteFile sys handle stringBuffer 0))
       (kthen (kloop (ring_node_round sys img stringBuffer s_address handle receivedPID) ())
       (KillMe sys)))))))))))"

text \<open>The number of nodes: one digit of the arguments, at least three.\<close>

definition ring_size :: "system_calls \<Rightarrow> addr \<Rightarrow> u32 kern" where
  "ring_size sys argbuf =
     kbind (CopyArgs sys argbuf 25) (\<lambda>n.
     kbind (if n \<noteq> 0 then kbind (on_mem (rd argbuf)) (\<lambda>c. kreturn (scast c - 48)) else kreturn 3)
       (\<lambda>nr. kreturn (if nr < 3 then 3 else nr)))"

definition create_ring_node :: "system_calls \<Rightarrow> image \<Rightarrow> addr \<Rightarrow> addr \<Rightarrow> nat \<Rightarrow> unit kern" where
  "create_ring_node sys img ring pids i =
     kbind (CreateProcess sys (literal img ''ringnode'') 10 ring 0) (\<lambda>status.
     kwhen (status = 0)
       (kbind (on_mem (load_u32 ring)) (\<lambda>h.
        kthen (kcall (GetPid sys h (pids + 4 * of_nat i)))
        (kcall (CloseHandle sys h)))))"

text \<open>Every node gets the PID of the next one, the last node that of the first.\<close>

definition send_targets :: "system_calls \<Rightarrow> addr \<Rightarrow> u32 \<Rightarrow> unit kern" where
  "send_targets sys pids nr =
     kthen (kfor [0 ..< unat (nr - 1)] (\<lambda>i.
       kbind (on_mem (load_u32 (pids + 4 * of_nat i))) (\<lambda>pid.
       kcall (SendMessage sys pid 0 (pids + 4 * (of_nat i + 1)) 4))))
     (kbind (on_mem (load_u32 (pids + 4 * (nr - 1)))) (\<lambda>pid.
      kcall (SendMessage sys pid 0 pids 4)))"

text \<open>
  The array \<^verbatim>\<open>pids\<close> has three elements, its size before the arguments are read; with
  more nodes the code writes behind it, as the model does.
\<close>

definition AppRing :: "system_calls \<Rightarrow> image \<Rightarrow> addr \<Rightarrow> addr \<Rightarrow> addr \<Rightarrow> unit kern" where
  "AppRing sys img argbuf pids ring =
     kbind (ring_size sys argbuf) (\<lambda>nr.
     kbind (CreateFile sys 115) (\<lambda>handle.
     kbind (GetProcessId sys) (\<lambda>myPid.
     kthen (kfor [0 ..< unat nr] (create_ring_node sys img ring pids))
     (kthen (send_targets sys pids nr)
     (kthen (Sleep sys 1000)
     (kthen (kcall (WriteFile sys handle (literal img ([NL, CR] @ ''Ring master sending start message.'')) 0))
     (kbind (on_mem (load_u32 pids)) (\<lambda>pid.
      kthen (kcall (SendMessage sys pid 0 pids 4))
      (kthen (kcall (CloseHandle sys handle))
      (KillMe sys))))))))))"

section \<open>The task manager\<close>

definition TASKM_BUFFER_SIZE :: u32 where "TASKM_BUFFER_SIZE = 20"

definition min_u32 :: "u32 \<Rightarrow> u32 \<Rightarrow> u32" where
  "min_u32 A B = (if A < B then A else B)"

definition name_program :: "image \<Rightarrow> addr \<Rightarrow> nat \<Rightarrow> unit kern" where
  "name_program img pinfo i =
     (let a = pinfo + 20 * of_nat i in
      kbind (deref pinfos a) (\<lambda>info.
      kwhen (piRunningProgram info = 0)
        (store pinfos pinfos_update a (\<lambda>info. info\<lparr>piRunningProgram := literal img ''Unnamed''\<rparr>))))"

definition state_number :: "PROCESS_STATE \<Rightarrow> u32" where
  "state_number st = (case st of created \<Rightarrow> 0 | running \<Rightarrow> 1 | ready \<Rightarrow> 2 | blocked \<Rightarrow> 3 | done_state \<Rightarrow> 4)"

text \<open>CPU times from 10 seconds on are shown in seconds.\<close>

definition show_time :: "u32 \<Rightarrow> u32 \<times> string" where
  "show_time cputmp = (if cputmp < 10000 then (cputmp, ''ms'') else (cputmp div 1000, ''s''))"

definition show_program :: "system_calls \<Rightarrow> image \<Rightarrow> addr \<Rightarrow> u32 \<Rightarrow> addr \<Rightarrow> nat \<Rightarrow> unit kern" where
  "show_program sys img strbuff tmout pinfo i =
     kbind (deref pinfos (pinfo + 20 * of_nat i)) (\<lambda>info.
     let (time, unit) = show_time (piCPUTime info) in
     say sys tmout strbuff 250 (literal img (''%s PID: %d, STATE:%d CPU TIME: %d %s'' @ [NL, CR]))
       [piRunningProgram info, piPID info, state_number (piState info), time, literal img unit])"

definition AppTaskManager :: "system_calls \<Rightarrow> image \<Rightarrow> addr \<Rightarrow> addr \<Rightarrow> addr \<Rightarrow> unit kern" where
  "AppTaskManager sys img strbuff pinfo numprocess_address =
     kbind (CreateFile sys 115) (\<lambda>tmout.
     kthen (kcall (GetProcessInfo sys pinfo TASKM_BUFFER_SIZE numprocess_address))
     (kbind (on_mem (load_u32 numprocess_address)) (\<lambda>numprocess.
      let n = unat (min_u32 numprocess TASKM_BUFFER_SIZE) in
      kthen (WriteString sys tmout (literal img ([NL, CR] @ ''---------TASKMANAGER---------'' @ [NL, CR])))
      (kthen (kfor [0 ..< n] (name_program img pinfo))
      (kthen (kfor [0 ..< n] (show_program sys img strbuff tmout pinfo))
      (kthen (WriteString sys tmout (literal img (''--------Task Manager says godbye--------'' @ [NL, CR])))
      (kthen (kcall (CloseHandle sys tmout))
      (KillMe sys))))))))"

section \<open>Killing a process\<close>

definition AppKill :: "system_calls \<Rightarrow> image \<Rightarrow> addr \<Rightarrow> addr \<Rightarrow> unit kern" where
  "AppKill sys img argbuf outstring =
     kbind (CreateFile sys 115) (\<lambda>outp.
     kbind (CopyArgs sys argbuf 25) (\<lambda>argLength.
     kthen
       (kwhen (argLength = 0)
         (kthen (WriteString sys outp (literal img ([NL, CR] @ ''Kill needs an argument e.g. '' @ CHR 0x27 # ''kill 5'' @ [CHR 0x27, CR, NL])))
         (kthen (kcall (CloseHandle sys outp))
         (KillMe sys))))
     (kbind (on_mem (RtlAtoUL argbuf)) (\<lambda>pid.
      kbind (KillByPID sys pid 1) (\<lambda>status.
      kthen
        (if status = 0 then
           kthen (kcall (on_mem (RtlFormatString outstring 80 (literal img ([CR, NL] @ ''Killed %d'' @ [CR, NL])) (arguments [pid]))))
           (KdPrint img outstring (arguments []))
         else say sys outp outstring 80 (literal img ([CR, NL] @ ''Failed to kill %d'' @ [CR, NL])) [pid])
      (kthen (kcall (CloseHandle sys outp))
      (KillMe sys)))))))"

section \<open>Supervision\<close>

definition debug :: "image \<Rightarrow> string \<Rightarrow> unit kern" where
  "debug img text = KdPrint img (literal img text) (arguments [])"

definition start_drone :: "system_calls \<Rightarrow> image \<Rightarrow> addr \<Rightarrow> addr \<Rightarrow> u32 \<Rightarrow> unit kern" where
  "start_drone sys img proc dronePid prio =
     kthen (kcall (CreateProcess sys (literal img ''drone'') prio proc 0))
     (kbind (on_mem (load_u32 proc)) (\<lambda>h. kcall (GetPid sys h dronePid)))"

definition supervise_drone :: "system_calls \<Rightarrow> addr \<Rightarrow> unit kern" where
  "supervise_drone sys dronePid =
     kbind (GetProcessId sys) (\<lambda>me.
     kbind (on_mem (load_u32 dronePid)) (\<lambda>pid. kcall (SuperviseProc sys me pid)))"

definition close_drone :: "system_calls \<Rightarrow> addr \<Rightarrow> unit kern" where
  "close_drone sys proc = kbind (on_mem (load_u32 proc)) (\<lambda>h. kcall (CloseHandle sys h))"

definition await_death :: "system_calls \<Rightarrow> unit \<Rightarrow> (unit + addr) kern" where
  "await_death sys _ =
     kbind (ReceiveFirst sys 100000) (\<lambda>m. kreturn (if m = 0 then Inl () else Inr m))"

definition keep_alive_round :: "system_calls \<Rightarrow> image \<Rightarrow> addr \<Rightarrow> addr \<Rightarrow> unit \<Rightarrow> (unit + unit) kern" where
  "keep_alive_round sys img proc dronePid _ =
     kthen (debug img ''after while1'')
     (kbind (kloop (await_death sys) ()) (\<lambda>pmessage.
      kthen (debug img ''after while mess'')
      (kthen (debug img ''removing message'')
      (kthen (kcall (DeleteMessage sys pmessage))
      (kthen (debug img ''after removing message'')
      (kthen (start_drone sys img proc dronePid 5)
      (kthen (supervise_drone sys dronePid)
      (kthen (close_drone sys proc)
      (kreturn (Inl ()))))))))))"

definition AppKeepAlive :: "system_calls \<Rightarrow> image \<Rightarrow> addr \<Rightarrow> addr \<Rightarrow> unit kern" where
  "AppKeepAlive sys img proc dronePid =
     kthen (start_drone sys img proc dronePid 15)
     (kthen (close_drone sys proc)
     (kthen (supervise_drone sys dronePid)
     (kthen (kloop (keep_alive_round sys img proc dronePid) ())
     (KillMe sys))))"

text \<open>The delay loop of the drone counts a local variable and has no other effect.\<close>

definition delay_step :: "u32 \<Rightarrow> (u32 + unit) kern" where
  "delay_step j = kreturn (if j < 0xFFFFFF then Inl (j + 1) else Inr ())"

definition drone_report :: "system_calls \<Rightarrow> image \<Rightarrow> addr \<Rightarrow> string \<Rightarrow> unit kern" where
  "drone_report sys img outstring text =
     kbind (GetProcessId sys) (\<lambda>pid.
     kcall (on_mem (RtlFormatString outstring 80
       (literal img ([CR, NL] @ ''Drone with PID:%d '' @ text @ [CR, NL])) (arguments [pid]))))"

definition AppDrone :: "system_calls \<Rightarrow> image \<Rightarrow> addr \<Rightarrow> unit kern" where
  "AppDrone sys img outstring =
     kbind (CreateFile sys 115) (\<lambda>outp.
     kthen (drone_report sys img outstring ''started'')
     (kthen (WriteString sys outp outstring)
     (kthen (debug img ''in drone 1'')
     (kthen (debug img ''in drone after sleep'')
     (kthen (drone_report sys img outstring ''still alive'')
     (kthen (kfor [0 ..< 3] (\<lambda>i :: nat.
        kthen (debug img ''in drone 2'')
        (kthen (WriteString sys outp outstring)
        (kloop delay_step 0))))
     (kthen (drone_report sys img outstring ''killing my self'')
     (kthen (debug img ''in drone 3'')
     (kthen (WriteString sys outp outstring)
     (kthen (kcall (CloseHandle sys outp))
     (KillMe sys)))))))))))"

definition AppStartWaiter :: "system_calls \<Rightarrow> image \<Rightarrow> addr \<Rightarrow> unit kern" where
  "AppStartWaiter sys img proc =
     kthen (kcall (CreateProcess sys (literal img ''waiter'') 15 proc 0))
     (kthen (close_drone sys proc)
     (KillMe sys))"

section \<open>The scrolling text\<close>

text \<open>The globals of \<^verbatim>\<open>scroller.c\<close>.\<close>

record scroller =
  scHandle :: u32
  pek :: addr
  scLength :: u32
  moreLength :: u32

definition scroller_text :: "image \<Rightarrow> addr" where
  "scroller_text img = literal img (''       Look mom! I'' @ CHR 0x27 # ''m scrolling!       '')"

definition scrollerInit :: "system_calls \<Rightarrow> image \<Rightarrow> scroller kern" where
  "scrollerInit sys img =
     kbind (CreateFile sys 108) (\<lambda>h.
     kbind (on_mem (RtlStringLength (scroller_text img))) (\<lambda>n.
     kreturn \<lparr>scHandle = h, pek = scroller_text img, scLength = n, moreLength = n\<rparr>))"

definition scrollText :: "image \<Rightarrow> scroller \<Rightarrow> scroller kern" where
  "scrollText img sc =
     kthen (kcall (IoWriteFile (scHandle sc) (pek sc) (scLength sc)))
     (let sc = sc\<lparr>pek := pek sc + 1, scLength := scLength sc - 1\<rparr> in
      kreturn (if scLength sc = 5 then sc\<lparr>scLength := moreLength sc, pek := scroller_text img\<rparr> else sc))"

text \<open>The process of \<^verbatim>\<open>base/ke/init.c\<close> that scrolls the text for ever.\<close>

definition test_scroller_step :: "system_calls \<Rightarrow> image \<Rightarrow> scroller \<Rightarrow> (scroller + unit) kern" where
  "test_scroller_step sys img sc =
     kbind (scrollText img sc) (\<lambda>sc. kthen (Sleep sys 500) (kreturn (Inl sc)))"

definition TestScrollerProcess :: "system_calls \<Rightarrow> image \<Rightarrow> unit kern" where
  "TestScrollerProcess sys img =
     kbind (GetProcessId sys) (\<lambda>pid.
     kthen (KdPrint img (literal img ''SCROLLER PID is %d'') (arguments [pid]))
     (kbind (scrollerInit sys img) (\<lambda>sc. kloop (test_scroller_step sys img) sc)))"

end
