(* ===== verification/Interrupts.thy ===== *)
theory Interrupts
  imports Kernel KernelInv IoSpec KdSpec
begin

text \<open>
  The devices whose interrupts \<^verbatim>\<open>HalHandleException\<close> handles, all of them together: the timer, the
  serial line in both directions with the processes that wait for input, and the debugger's line.
  \<open>machine_ok\<close> is the invariant of the whole; every handler returns and keeps it.
\<close>

section \<open>The state of the devices\<close>

text \<open>The processes that wait for a character, as a list of nodes.\<close>

definition nextReader :: "kstate \<Rightarrow> addr \<Rightarrow> addr option" where
  "nextReader s a = map_option wnNext (wnodes s a)"

definition reader_of :: "kstate \<Rightarrow> addr \<Rightarrow> addr" where
  "reader_of s w = (case wnodes s w of None \<Rightarrow> 0 | Some k \<Rightarrow> wnProcess k)"

text \<open>
  A reader is blocked, its process is referenced for the time of the wait, and its buffer, in which the
  character will be stored, is neither in a node that waits for transmission nor in the debugger's data.
\<close>

definition reader_ok :: "image \<Rightarrow> kstate \<Rightarrow> (qid \<Rightarrow> addr list) \<Rightarrow> addr list \<Rightarrow> addr \<Rightarrow> bool" where
  "reader_ok img s L ns w \<longleftrightarrow> (\<exists>k x h. wnodes s w = Some k \<and> wnBuffer k \<noteq> 0
     \<and> (\<forall>n \<in> set ns. wnBuffer k \<notin> span n 512)
     \<and> wnBuffer k \<notin> span (commandBuffer img) 160 \<and> wnBuffer k \<notin> span (erase_text img) 8
     \<and> wnProcess k \<in> set (L BlockedQ) \<and> wnProcess k = x + BODY_OFFSET
     \<and> headers s x = Some h \<and> HandleCount h < PointerCount h)"

definition devices_ok ::
  "image \<Rightarrow> kstate \<Rightarrow> (qid \<Rightarrow> addr list) \<Rightarrow> addr list \<Rightarrow> byte list list \<Rightarrow> addr list \<Rightarrow> byte list \<Rightarrow> bool" where
  "devices_ok img s L ns strs ws line \<longleftrightarrow>
     fifo_ok (fifo s) \<and> tx_inv s ns strs \<and> kd_line img s line
   \<and> (\<forall>n \<in> set ns. span n 512 \<inter> span (commandBuffer img) 160 = {})
   \<and> (\<exists>q. waitingQueue s = Some q \<and> chain (nextReader s) (wqFirst q) ws)
   \<and> distinct (map (reader_of s) ws) \<and> (\<forall>w \<in> set ws. reader_ok img s L ns w)"

definition machine_ok :: "image \<Rightarrow> kstate \<Rightarrow> bool" where
  "machine_ok img s \<longleftrightarrow> (\<exists>L Os ns strs ws line. sched_good s L \<and> ob_inv s Os \<and> devices_ok img s L ns strs ws line)"

lemma machine_okI:
  "sched_good s L \<Longrightarrow> ob_inv s Os \<Longrightarrow> devices_ok img s L ns strs ws line \<Longrightarrow> machine_ok img s"
  unfolding machine_ok_def by blast

lemma machine_ok_good: "machine_ok img s \<Longrightarrow> good s"
  unfolding machine_ok_def good_iff by blast

section \<open>What keeps it\<close>

lemma str_at_cong:
  "(\<And>x. x \<in> span a (Suc (length xs)) \<Longrightarrow> M x = N x) \<Longrightarrow> str_at M a xs = str_at N a xs"
  unfolding str_at_def by (subst bytes_at_cong [where N = N]) auto

lemma node_at_cong:
  assumes "node_at M lim n p xs" and "\<And>a. a \<in> span n 512 \<Longrightarrow> N a = M a"
  shows "node_at N lim n p xs"
proof -
  have "str_at N p xs = str_at M p xs"
    by (rule str_at_cong) (use assms(2) node_at_span [OF assms(1)] in blast)
  then show ?thesis using assms(1) by (simp add: node_at_def)
qed

lemma tx_inv_cong:
  assumes tx: "tx_inv s ns strs"
    and e: "bufferQueue t = bufferQueue s" "bnodes t = bnodes s" "outputPointer t = outputPointer s"
      "freeMemPointer t = freeMemPointer s"
    and m: "\<And>n a. n \<in> set ns \<Longrightarrow> a \<in> span n 512 \<Longrightarrow> mem t a = mem s a"
  shows "tx_inv t ns strs"
proof -
  have nb: "nextBuffer t = nextBuffer s" by (simp add: nextBuffer_def fun_eq_iff e(2))
  show ?thesis
  proof (cases ns)
    case Nil
    then show ?thesis using tx e by (simp add: tx_inv_def nb)
  next
    case (Cons n ns')
    then obtain xs strs' where strs: "strs = xs # strs'"
      and n: "node_at (mem s) (freeMemPointer s) n (outputPointer s) xs"
      and w: "waiting (mem s) (freeMemPointer s) ns' strs'" using tx by (auto simp: tx_inv_def)
    have "node_at (mem t) (freeMemPointer s) n (outputPointer s) xs"
      by (rule node_at_cong [OF n], rule m [of n]) (simp_all add: Cons)
    moreover have "waiting (mem t) (freeMemPointer s) ns' strs'"
      unfolding waiting_def
      by (rule list.rel_mono_strong [OF w [unfolded waiting_def]])
         (use m Cons in \<open>auto intro: node_at_cong dest: set_zip_leftD\<close>)
    ultimately show ?thesis using tx Cons strs by (simp add: tx_inv_def nb e)
  qed
qed

lemma kd_line_cong:
  assumes k: "kd_line img s line" and e: "commandBufferPosition t = commandBufferPosition s" "tty2Ready t = tty2Ready s"
    and m: "\<And>a. a \<in> span (commandBuffer img) 160 \<Longrightarrow> mem t a = mem s a"
      "\<And>a. a \<in> span (erase_text img) 8 \<Longrightarrow> mem t a = mem s a"
  shows "kd_line img t line"
proof -
  note D = kd_lineD [OF k]
  have "span (commandBuffer img) (length line) \<subseteq> span (commandBuffer img) 160" using D(1) by (intro span_mono) simp
  then have "bytes_at (mem t) (commandBuffer img) line = bytes_at (mem s) (commandBuffer img) line"
    by (intro bytes_at_cong) (use m(1) in blast)
  moreover have eight: "Suc (length [27, 91, 68, 32, 27, 91, 68 :: byte]) = 8" by simp
  have "str_at (mem t) (erase_text img) [27, 91, 68, 32, 27, 91, 68]
      = str_at (mem s) (erase_text img) [27, 91, 68, 32, 27, 91, 68]"
    by (rule str_at_cong, rule m(2)) (simp only: eight)
  ultimately show ?thesis using k e by (simp add: kd_line_def line_ready_def)
qed

lemma reader_ok_cong:
  assumes r: "reader_ok img s L ns w" and e: "wnodes t w = wnodes s w" and sub: "set ns' \<subseteq> set ns"
    and b: "reader_of s w \<in> set (L BlockedQ) \<Longrightarrow> reader_of s w \<in> set (L' BlockedQ)"
    and h: "\<And>x h. reader_of s w = x + BODY_OFFSET \<Longrightarrow> headers s x = Some h \<Longrightarrow>
      \<exists>h'. headers t x = Some h' \<and> HandleCount h' = HandleCount h \<and> PointerCount h' = PointerCount h"
  shows "reader_ok img t L' ns' w"
proof -
  obtain k x g where k: "wnodes s w = Some k" "wnBuffer k \<noteq> 0" "\<forall>n \<in> set ns. wnBuffer k \<notin> span n 512"
     "wnBuffer k \<notin> span (commandBuffer img) 160" "wnBuffer k \<notin> span (erase_text img) 8"
     "wnProcess k \<in> set (L BlockedQ)" "wnProcess k = x + BODY_OFFSET"
     "headers s x = Some g" "HandleCount g < PointerCount g"
    using r by (auto simp: reader_ok_def)
  have p: "reader_of s w = wnProcess k" by (simp add: reader_of_def k(1))
  obtain g' where "headers t x = Some g'" "HandleCount g' = HandleCount g" "PointerCount g' = PointerCount g"
    using h [of x g] k p by auto
  then show ?thesis
    using k(1-7,9) b p sub e unfolding reader_ok_def by (intro exI [of _ k] exI [of _ x] exI [of _ g']) auto
qed

text \<open>A step that leaves the devices alone: the scheduler, the object manager.\<close>

definition same_devices :: "kstate \<Rightarrow> kstate \<Rightarrow> bool" where
  "same_devices s t \<longleftrightarrow> fifo t = fifo s \<and> bufferQueue t = bufferQueue s \<and> bnodes t = bnodes s
     \<and> outputPointer t = outputPointer s \<and> freeMemPointer t = freeMemPointer s \<and> mem t = mem s
     \<and> commandBufferPosition t = commandBufferPosition s \<and> tty2Ready t = tty2Ready s
     \<and> waitingQueue t = waitingQueue s \<and> wnodes t = wnodes s \<and> timerTicks t = timerTicks s"

lemma devices_ok_same:
  assumes d: "devices_ok img s L ns strs ws line" and e: "same_devices s t"
    and b: "\<And>w. w \<in> set ws \<Longrightarrow> reader_of s w \<in> set (L BlockedQ) \<Longrightarrow> reader_of s w \<in> set (L' BlockedQ)"
    and h: "\<And>w x h. w \<in> set ws \<Longrightarrow> reader_of s w = x + BODY_OFFSET \<Longrightarrow> headers s x = Some h \<Longrightarrow>
      \<exists>h'. headers t x = Some h' \<and> HandleCount h' = HandleCount h \<and> PointerCount h' = PointerCount h"
  shows "devices_ok img t L' ns strs ws line"
proof -
  have "tx_inv t ns strs" "kd_line img t line"
    using d e unfolding devices_ok_def same_devices_def by (auto intro: tx_inv_cong kd_line_cong)
  moreover have "nextReader t = nextReader s" "reader_of t = reader_of s"
    using e by (simp_all add: nextReader_def reader_of_def same_devices_def fun_eq_iff)
  moreover have "reader_ok img t L' ns w" if "w \<in> set ws" for w
    by (rule reader_ok_cong [where s = s and L = L and ns = ns])
       (use d e b h that in \<open>auto simp: devices_ok_def same_devices_def\<close>)
  ultimately show ?thesis using d e by (simp add: devices_ok_def same_devices_def)
qed

lemma same_devices_refl [simp]: "same_devices s s"
  by (simp add: same_devices_def)

lemma same_devices_trans: "same_devices s t \<Longrightarrow> same_devices t u \<Longrightarrow> same_devices s u"
  by (simp add: same_devices_def)

lemma ke_frame_devices: "ke_frame s t \<Longrightarrow> same_devices s t"
proof -
  assume "ke_frame s t"
  then have t: "t = s\<lparr>procs := procs t, KepReadyQueues := KepReadyQueues t,
             KepBlockedList := KepBlockedList t, KepTimerList := KepTimerList t,
             KeCurrentProcess := KeCurrentProcess t, KepTickCount := KepTickCount t,
             mnodes := mnodes t, processQueue := processQueue t\<rparr>" by (simp only: ke_frame_def)
  show "same_devices s t" unfolding same_devices_def by (subst t, simp)+
qed

lemma ob_frame_devices: "ob_frame s t \<Longrightarrow> same_devices s t \<and> KepTickCount t = KepTickCount s"
proof -
  assume "ob_frame s t"
  then have t: "t = s\<lparr>headers := headers t, otypes := otypes t, stdout := stdout t\<rparr>" by (simp only: ob_frame_def)
  show "same_devices s t \<and> KepTickCount t = KepTickCount s" unfolding same_devices_def by (subst t, simp)+
qed

section \<open>The timer\<close>

lemma devices_ok_ke:
  "devices_ok img s L ns strs ws line \<Longrightarrow> ke_frame s t \<Longrightarrow> L' BlockedQ = L BlockedQ \<Longrightarrow>
     devices_ok img t L' ns strs ws line"
  by (erule devices_ok_same) (simp_all add: ke_frame_devices ke_frame_headers)

lemma timer_ok:
  assumes "machine_ok img s"
  shows "returns KeHandleTimer s (\<lambda>_ t. machine_ok img t \<and> outer_only (procs s) (procs t)
    \<and> KepTickCount t = KepTickCount s + 10 \<and> timerTicks t = timerTicks s)"
proof -
  obtain L Os ns strs ws line where g: "sched_good s L" and o: "ob_inv s Os" and d: "devices_ok img s L ns strs ws line"
    using assms by (auto simp: machine_ok_def)
  have i: "sched_inv s L" "mq_inv s" "quantum_ok s" using g by (simp_all add: sched_good_def)
  show ?thesis
  proof (rule returns_mono [OF KeHandleTimer_lists [OF i]], elim exE conjE, intro conjI)
    fix a :: unit and t L'
    assume t: "sched_inv t L'" "mq_inv t" "quantum_ok t" "ke_frame s t" "L' BlockedQ = L BlockedQ"
    show "machine_ok img t"
      by (rule machine_okI [of t L' Os img ns strs ws line])
         (use t ob_inv_ke_frame [OF t(4) o] devices_ok_ke [where L' = L', OF d t(4,5)] in \<open>simp_all add: sched_good_def\<close>)
    show "outer_only (procs s) (procs t)" by (rule ke_frame_outer [OF t(4)])
    show "timerTicks t = timerTicks s" using ke_frame_devices [OF t(4)] by (simp add: same_devices_def)
  qed
qed

lemma HalResetTimer_ok:
  assumes "machine_ok img s"
  shows "machine_ok img (s\<lparr>timerTicks := n\<rparr>)"
proof -
  obtain L Os ns strs ws line where g: "sched_good s L" and o: "ob_inv s Os" and d: "devices_ok img s L ns strs ws line"
    using assms by (auto simp: machine_ok_def)
  let ?t = "s\<lparr>timerTicks := n\<rparr>"
  have "tx_inv ?t ns strs" "kd_line img ?t line"
    using d unfolding devices_ok_def by (auto intro: tx_inv_cong kd_line_cong)
  moreover have "nextReader ?t = nextReader s" "reader_of ?t = reader_of s" "reader_ok img ?t L ns = reader_ok img s L ns"
    by (simp_all add: nextReader_def reader_of_def reader_ok_def fun_eq_iff)
  ultimately have "devices_ok img ?t L ns strs ws line" using d unfolding devices_ok_def by simp
  moreover have "sched_good ?t L" by (rule sched_good_same [OF _ _ _ _ _ g]) (simp_all add: same_queues_def)
  moreover have "ob_inv ?t Os" by (rule ob_inv_same [OF _ _ _ _ o]) simp_all
  ultimately show ?thesis by (intro machine_okI)
qed

section \<open>The transmitter\<close>

lemma devices_ok_fields:
  assumes d: "devices_ok img s L ns strs ws line" and tx: "tx_inv t ns' strs'" and kd: "kd_line img t line'"
    and sub: "set ns' \<subseteq> set ns" and f: "fifo_ok (fifo t)" and e: "wnodes t = wnodes s" "headers t = headers s"
    and q: "waitingQueue t = Some q'" "chain (nextReader s) (wqFirst q') ws'" and ws: "\<exists>us. ws = us @ ws'"
  shows "devices_ok img t L ns' strs' ws' line'"
proof -
  have n: "nextReader t = nextReader s" "reader_of t = reader_of s"
    by (simp_all add: nextReader_def reader_of_def fun_eq_iff e)
  have "reader_ok img t L ns' w" if "w \<in> set ws'" for w
    by (rule reader_ok_cong [where s = s and L = L and ns = ns])
       (use d sub ws that e in \<open>auto simp: devices_ok_def\<close>)
  moreover have "distinct (map (reader_of s) ws')" using d ws by (auto simp: devices_ok_def)
  ultimately show ?thesis using d tx kd sub f q n unfolding devices_ok_def by (auto simp del: span.simps)
qed

definition devices_only :: "kstate \<Rightarrow> kstate \<Rightarrow> bool" where
  "devices_only s t \<longleftrightarrow> t = s\<lparr>mem := mem t, fifo := fifo t, waitingQueue := waitingQueue t,
     bufferQueue := bufferQueue t, outputPointer := outputPointer t, serialOut := serialOut t,
     commandBufferPosition := commandBufferPosition t, tty2Ready := tty2Ready t, kdOut := kdOut t\<rparr>"

lemma devices_onlyD:
  assumes "devices_only s t"
  shows "procs t = procs s" "KepTickCount t = KepTickCount s" "timerTicks t = timerTicks s"
    "headers t = headers s" "otypes t = otypes s" "foos t = foos s" "mnodes t = mnodes s" "wnodes t = wnodes s"
    "bnodes t = bnodes s" "processQueue t = processQueue s" "freeMemPointer t = freeMemPointer s" "same_queues s t"
proof -
  have t: "t = s\<lparr>mem := mem t, fifo := fifo t, waitingQueue := waitingQueue t,
     bufferQueue := bufferQueue t, outputPointer := outputPointer t, serialOut := serialOut t,
     commandBufferPosition := commandBufferPosition t, tty2Ready := tty2Ready t, kdOut := kdOut t\<rparr>"
    using assms by (simp only: devices_only_def)
  show "procs t = procs s" "KepTickCount t = KepTickCount s" "timerTicks t = timerTicks s"
    "headers t = headers s" "otypes t = otypes s" "foos t = foos s" "mnodes t = mnodes s" "wnodes t = wnodes s"
    "bnodes t = bnodes s" "processQueue t = processQueue s" "freeMemPointer t = freeMemPointer s"
    by (subst t, simp)+
  show "same_queues s t" unfolding same_queues_def by (subst t, simp)+
qed

lemma devices_only_inv:
  assumes e: "devices_only s t" and g: "sched_good s L" and o: "ob_inv s Os"
  shows "sched_good t L" and "ob_inv t Os"
proof -
  note D = devices_onlyD [OF e]
  show "sched_good t L" by (rule sched_good_same [OF D(12) _ D(7,10) _ g]) (simp_all add: D)
  show "ob_inv t Os" by (rule ob_inv_same [OF _ D(4,5,6) o]) (simp add: D)
qed

text \<open>Sending a character, or taking the next string.\<close>

definition tx_only :: "kstate \<Rightarrow> kstate \<Rightarrow> bool" where
  "tx_only s t \<longleftrightarrow> t = s\<lparr>outputPointer := outputPointer t, bufferQueue := bufferQueue t, serialOut := serialOut t\<rparr>"

lemma tx_onlyD:
  assumes "tx_only s t"
  shows "devices_only s t" "mem t = mem s" "fifo t = fifo s" "waitingQueue t = waitingQueue s"
    "commandBufferPosition t = commandBufferPosition s" "tty2Ready t = tty2Ready s"
proof -
  have t: "t = s\<lparr>outputPointer := outputPointer t, bufferQueue := bufferQueue t, serialOut := serialOut t\<rparr>"
    using assms by (simp only: tx_only_def)
  show "mem t = mem s" "fifo t = fifo s" "waitingQueue t = waitingQueue s"
    "commandBufferPosition t = commandBufferPosition s" "tty2Ready t = tty2Ready s" by (subst t, simp)+
  have "s = t\<lparr>outputPointer := outputPointer s, bufferQueue := bufferQueue s, serialOut := serialOut s\<rparr>"
    by (subst t) simp
  then obtain p q x where s: "s = t\<lparr>outputPointer := p, bufferQueue := q, serialOut := x\<rparr>" by blast
  show "devices_only s t" unfolding devices_only_def s by simp
qed

lemma transmitter_step:
  assumes tx: "tx_inv s ns strs"
  shows "returns IoTransmitterInterruptHandler s (\<lambda>_ t. tx_only s t \<and> (\<exists>ns' strs'. tx_inv t ns' strs' \<and> set ns' \<subseteq> set ns))"
proof (cases ns)
  case Nil
  then have "outputPointer s = 0" using tx by (simp add: tx_inv_def)
  then show ?thesis using tx by (auto simp: IoTransmitterInterruptHandler_def kern tx_only_def)
next
  case (Cons n ns')
  then obtain xs strs' where strs: "strs = xs # strs'" using tx by (auto simp: tx_inv_def)
  show ?thesis
  proof (cases xs)
    case Nil
    then have i: "tx_inv s (n # ns') ([] # strs')" using tx Cons strs by simp
    show ?thesis
    proof (rule returns_mono [OF next_string [OF i]], elim conjE)
      fix a :: unit and t
      assume t: "tx_inv t ns' strs'" "t = s\<lparr>outputPointer := outputPointer t, bufferQueue := bufferQueue t\<rparr>"
      then obtain p q where p: "t = s\<lparr>outputPointer := p, bufferQueue := q\<rparr>" by blast
      have "tx_only s t" unfolding tx_only_def p by simp
      then show "tx_only s t \<and> (\<exists>ns' strs'. tx_inv t ns' strs' \<and> set ns' \<subseteq> set ns)" using t(1) Cons by auto
    qed
  next
    case (Cons c cs)
    then have i: "tx_inv s (n # ns') ((c # cs) # strs')" using tx \<open>ns = n # ns'\<close> strs by simp
    show ?thesis
    proof (rule returns_mono [OF next_char [OF i]], elim conjE)
      fix a :: unit and t
      assume t: "tx_inv t (n # ns') (cs # strs')"
        "t = s\<lparr>outputPointer := outputPointer s + 1, serialOut := serialOut s @ [c]\<rparr>"
      have "tx_only s t" unfolding tx_only_def t(2) by simp
      then show "tx_only s t \<and> (\<exists>ns' strs'. tx_inv t ns' strs' \<and> set ns' \<subseteq> set ns)" using t(1) \<open>ns = n # ns'\<close> by auto
    qed
  qed
qed

lemma transmitter_ok:
  assumes m: "machine_ok img s"
  shows "returns IoTransmitterInterruptHandler s (\<lambda>_ t. machine_ok img t \<and> procs t = procs s
    \<and> KepTickCount t = KepTickCount s \<and> timerTicks t = timerTicks s)"
proof -
  obtain L Os ns strs ws line where g: "sched_good s L" and o: "ob_inv s Os" and d: "devices_ok img s L ns strs ws line"
    using m by (auto simp: machine_ok_def)
  then have tx: "tx_inv s ns strs" and k: "kd_line img s line" and f: "fifo_ok (fifo s)"
    by (simp_all add: devices_ok_def)
  obtain q where q: "waitingQueue s = Some q" "chain (nextReader s) (wqFirst q) ws" using d by (auto simp: devices_ok_def)
  show ?thesis
  proof (rule returns_mono [OF transmitter_step [OF tx]], elim conjE exE)
    fix a :: unit and t ns' strs'
    assume e: "tx_only s t" and t: "tx_inv t ns' strs'" "set ns' \<subseteq> set ns"
    note E = tx_onlyD [OF e] and D = devices_onlyD [OF tx_onlyD(1) [OF e]]
    have k': "kd_line img t line" by (rule kd_line_cong [OF k]) (simp_all add: E)
    have "devices_ok img t L ns' strs' ws line"
      by (rule devices_ok_fields [OF d t(1) k' t(2) _ D(8,4) _ q(2)]) (use f q in \<open>simp_all add: E\<close>)
    then show "machine_ok img t \<and> procs t = procs s \<and> KepTickCount t = KepTickCount s \<and> timerTicks t = timerTicks s"
      using devices_only_inv [OF E(1) g o] D by (auto intro: machine_okI)
  qed
qed

section \<open>The debugger's line\<close>

lemma debugger_ok:
  assumes m: "machine_ok img s" and c: "c \<noteq> 13"
  shows "returns (KdCharacterReceived img c) s (\<lambda>_ t. machine_ok img t \<and> procs t = procs s
    \<and> KepTickCount t = KepTickCount s \<and> timerTicks t = timerTicks s)"
proof -
  obtain L Os ns strs ws line where g: "sched_good s L" and o: "ob_inv s Os" and d: "devices_ok img s L ns strs ws line"
    using m by (auto simp: machine_ok_def)
  then have tx: "tx_inv s ns strs" and k: "kd_line img s line" and f: "fifo_ok (fifo s)"
    and ap: "\<forall>n \<in> set ns. span n 512 \<inter> span (commandBuffer img) 160 = {}"
    by (simp_all add: devices_ok_def)
  obtain q where q: "waitingQueue s = Some q" "chain (nextReader s) (wqFirst q) ws" using d by (auto simp: devices_ok_def)
  show ?thesis
  proof (rule returns_mono [OF KdCharacterReceived_frame [OF k c]], elim conjE)
    fix a :: unit and t
    assume k': "kd_line img t (edit c line)" and M: "\<forall>a. a \<notin> span (commandBuffer img) 160 \<longrightarrow> mem t a = mem s a"
      and e: "kd_only s t"
    obtain M p ko r where t: "t = s\<lparr>mem := M, commandBufferPosition := p, kdOut := ko, tty2Ready := r\<rparr>"
      using e unfolding kd_only_def by blast
    have e': "devices_only s t" by (simp add: devices_only_def t)
    note D = devices_onlyD [OF e']
    have tx': "tx_inv t ns strs" by (rule tx_inv_cong [OF tx]) (use M ap in \<open>auto simp: t\<close>)
    have "devices_ok img t L ns strs ws (edit c line)"
      by (rule devices_ok_fields [OF d tx' k' subset_refl _ D(8,4) _ q(2)]) (use f q in \<open>simp_all add: t\<close>)
    then show "machine_ok img t \<and> procs t = procs s \<and> KepTickCount t = KepTickCount s \<and> timerTicks t = timerTicks s"
      using devices_only_inv [OF e' g o] D by (auto intro: machine_okI)
  qed
qed

section \<open>The console\<close>

lemma devices_only_trans: "devices_only s t \<Longrightarrow> devices_only t u \<Longrightarrow> devices_only s u"
proof -
  assume "devices_only s t" and u: "devices_only t u"
  then obtain M f wq bq op so p r ko where t: "t = s\<lparr>mem := M, fifo := f, waitingQueue := wq, bufferQueue := bq,
      outputPointer := op, serialOut := so, commandBufferPosition := p, tty2Ready := r, kdOut := ko\<rparr>"
    unfolding devices_only_def by blast
  obtain M f wq bq op so p r ko where u: "u = t\<lparr>mem := M, fifo := f, waitingQueue := wq, bufferQueue := bq,
      outputPointer := op, serialOut := so, commandBufferPosition := p, tty2Ready := r, kdOut := ko\<rparr>"
    using u unfolding devices_only_def by blast
  show "devices_only s u" unfolding devices_only_def u t by simp
qed

lemma devices_ok_fifo:
  assumes d: "devices_ok img s L ns strs ws line" and t: "t = s\<lparr>fifo := f\<rparr>" and f: "fifo_ok f"
  shows "devices_ok img t L ns strs ws line" and "devices_only s t"
proof -
  have tx: "tx_inv t ns strs" "kd_line img t line"
    using d unfolding devices_ok_def t by (auto intro: tx_inv_cong kd_line_cong)
  show "devices_only s t" by (simp add: devices_only_def t)
  obtain q where q: "waitingQueue s = Some q" "chain (nextReader s) (wqFirst q) ws" using d by (auto simp: devices_ok_def)
  show "devices_ok img t L ns strs ws line"
    by (rule devices_ok_fields [OF d tx subset_refl _ _ _ _ q(2)]) (use f q(1) in \<open>simp_all add: t\<close>)
qed

text \<open>The first reader gets the first character in the buffer it waits with.\<close>

lemma hand_over:
  assumes d: "devices_ok img s L ns strs (w # ws) line" and k: "wnodes s w = Some k"
  shows "returns (kbind GetFirstCharFromBuffer (\<lambda>ch. on_mem (wr (wnBuffer k) ch))) s
    (\<lambda>_ t. devices_ok img t L ns strs (w # ws) line \<and> devices_only s t \<and> waitingQueue t = waitingQueue s)"
proof -
  have r: "wnBuffer k \<noteq> 0" "\<forall>n \<in> set ns. wnBuffer k \<notin> span n 512"
      "wnBuffer k \<notin> span (commandBuffer img) 160" "wnBuffer k \<notin> span (erase_text img) 8"
    using d k by (auto simp: devices_ok_def reader_ok_def)
  have f: "fifo_ok (fifo s)" using d by (simp add: devices_ok_def)
  show ?thesis
    unfolding returns_kbind
  proof (rule returns_mono [OF GetFirstCharFromBuffer_queue [OF f]], elim conjE)
    fix ch u
    assume "u = s\<lparr>fifo := fifo u\<rparr>" "fifo_ok (fifo u)"
    note U = devices_ok_fifo [OF d this]
    have wq: "waitingQueue u = waitingQueue s" by (subst \<open>u = _\<close>) simp
    let ?t = "u\<lparr>mem := (mem u)(wnBuffer k := ch)\<rparr>"
    have "tx_inv u ns strs" "kd_line img u line" using U(1) by (simp_all add: devices_ok_def)
    then have "tx_inv ?t ns strs" "kd_line img ?t line"
      by - (erule tx_inv_cong, (use r(2) in auto)[5], erule kd_line_cong, use r(3,4) in auto)
    moreover obtain q where q: "waitingQueue u = Some q" "chain (nextReader u) (wqFirst q) (w # ws)"
      using U(1) by (auto simp: devices_ok_def)
    ultimately have "devices_ok img ?t L ns strs (w # ws) line"
      by (intro devices_ok_fields [OF U(1) _ _ subset_refl _ _ _ _ q(2)]) (use U(1) q in \<open>simp_all add: devices_ok_def\<close>)
    moreover have "devices_only s ?t" by (rule devices_only_trans [OF U(2)]) (simp add: devices_only_def)
    ultimately show "returns (on_mem (wr (wnBuffer k) ch)) u
        (\<lambda>_ t. devices_ok img t L ns strs (w # ws) line \<and> devices_only s t \<and> waitingQueue t = waitingQueue s)"
      using r(1) wq by (simp add: on_mem_def wr_def returns_def kmodify_def)
  qed
qed

text \<open>Then it leaves the queue of the readers.\<close>

lemma reader_leaves:
  assumes d: "devices_ok img s L ns strs (w # ws) line" and k: "wnodes s w = Some k"
  shows "returns (setWQ (\<lambda>q. q\<lparr>wqFirst := wnNext k\<rparr>)) s
    (\<lambda>_ t. devices_ok img t L ns strs ws line \<and> devices_only s t)"
proof -
  obtain q where q: "waitingQueue s = Some q" "chain (nextReader s) (wqFirst q) (w # ws)"
    using d by (auto simp: devices_ok_def)
  then have c: "chain (nextReader s) (wnNext k) ws" using k by (auto simp: nextReader_def)
  let ?t = "s\<lparr>waitingQueue := Some (q\<lparr>wqFirst := wnNext k\<rparr>)\<rparr>"
  have "tx_inv ?t ns strs" "kd_line img ?t line"
    using d unfolding devices_ok_def by (auto intro: tx_inv_cong kd_line_cong)
  then have "devices_ok img ?t L ns strs ws line"
    by (intro devices_ok_fields [OF d _ _ subset_refl, where q' = "q\<lparr>wqFirst := wnNext k\<rparr>"])
      (use c d in \<open>simp_all add: devices_ok_def\<close>)
  then show ?thesis using q(1) by (simp add: setWQ_def getWQ_def kern devices_only_def)
qed

text \<open>And is resumed; the reference that was taken when it blocked is given back.\<close>

lemma resume_reader:
  assumes g: "sched_good s L" and o: "ob_inv s Os" and d: "devices_ok img s L ns strs ws line"
    and r: "reader_ok img s L ns w" and ap: "reader_of s w \<notin> reader_of s ` set ws"
  shows "returns (kthen (KeResumeProcess (reader_of s w)) (ObDereferenceObject (reader_of s w))) s
    (\<lambda>_ t. machine_ok img t \<and> outer_only (procs s) (procs t) \<and> KepTickCount t = KepTickCount s
       \<and> timerTicks t = timerTicks s)"
proof -
  obtain k x h where k: "wnodes s w = Some k" "wnProcess k \<in> set (L BlockedQ)" "wnProcess k = x + BODY_OFFSET"
    and h: "headers s x = Some h" "HandleCount h < PointerCount h" using r by (auto simp: reader_ok_def)
  let ?p = "x + BODY_OFFSET"
  have p: "reader_of s w = ?p" using k by (simp add: reader_of_def)
  have sl: "sleeping L ?p" using k by (simp add: sleeping_def)
  have inv: "sched_inv s L" and mq: "mq_inv s" and qu: "quantum_ok s" using g by (simp_all add: sched_good_def)
  obtain c where ok: "sched_lists s L" and c: "procs s (KeCurrentProcess s) = Some c"
    "unat (Priority c) < PROCESS_PRIORITY_LEVELS" by (rule sched_invD [OF inv])
  obtain pr where pr: "procs s ?p = Some pr" "unat (Priority pr) < PROCESS_PRIORITY_LEVELS"
    by (rule sleeping_member [OF ok sl])
  obtain n L' where ab: "abs_resume L (KeCurrentProcess s) (unat (Priority c)) ?p (unat (Priority pr)) = (n, L')"
    by fastforce
  have ne: "reader_of s v \<noteq> ?p" if "v \<in> set ws" for v using ap p that by (metis imageI)
  have B: "L' BlockedQ = remove1 ?p (L BlockedQ)" using abs_resume_runnable [OF ab c(2) pr(2)] by simp
  show ?thesis
    unfolding p returns_kthen
  proof (rule returns_mono [OF KeResumeProcess_lists [OF inv mq pr(1) sl c(1) ab]], elim conjE)
    fix a :: unit and u
    assume u: "sched_inv u L'" "mq_inv u" "quantum_ok s \<longrightarrow> quantum_ok u" "ke_frame s u" "KepTickCount u = KepTickCount s"
    have du: "devices_ok img u L' ns strs ws line"
      by (rule devices_ok_same [OF d ke_frame_devices [OF u(4)]])
        (use ne B in \<open>auto simp: ke_frame_headers [OF u(4)] in_set_remove1\<close>)
    have gu: "sched_good u L'" using u qu by (simp add: sched_good_def)
    have hu: "headers u x = Some h" using h(1) ke_frame_headers [OF u(4)] by simp
    have ru: "reader_of u = reader_of s"
      using ke_frame_devices [OF u(4)] by (simp add: reader_of_def same_devices_def fun_eq_iff)
    show "returns (ObDereferenceObject ?p) u (\<lambda>_ t. machine_ok img t \<and> outer_only (procs s) (procs t)
      \<and> KepTickCount t = KepTickCount s \<and> timerTicks t = timerTicks s)"
    proof (rule returns_mono [OF ObDereferenceObject_inv [OF ob_inv_ke_frame [OF u(4) o] hu h(2)]], elim conjE)
      fix a :: unit and t
      assume t: "ob_inv t (abs_deref Os x h)" "ob_frame u t"
        "\<forall>y. links_header (headers t y) = links_header (((headers u)(x \<mapsto> h\<lparr>PointerCount := PointerCount h - 1\<rparr>)) y)"
      have "devices_ok img t L' ns strs ws line"
      proof (rule devices_ok_same [OF du ob_frame_devices [OF t(2), THEN conjunct1]])
        fix v y g
        assume v: "v \<in> set ws" "reader_of u v = y + BODY_OFFSET" "headers u y = Some g"
        then have "y \<noteq> x" using ap p ru by force
        then have "links_header (headers t y) = links_header (Some g)" using t(3) v(3) by simp
        from links_header_Some [OF this]
        show "\<exists>h'. headers t y = Some h' \<and> HandleCount h' = HandleCount g \<and> PointerCount h' = PointerCount g" by auto
      qed simp
      moreover have "procs t = procs u" "KepTickCount t = KepTickCount u"
        using ob_frame_procs [OF t(2)] ob_frame_devices [OF t(2)] by simp_all
      moreover have "timerTicks t = timerTicks s"
        using ke_frame_devices [OF u(4)] ob_frame_devices [OF t(2)] by (simp add: same_devices_def)
      ultimately show "machine_ok img t \<and> outer_only (procs s) (procs t)
          \<and> KepTickCount t = KepTickCount s \<and> timerTicks t = timerTicks s"
        using sched_good_ob_frame [OF t(2) gu] t(1) ke_frame_outer [OF u(4)] u(5) by (auto intro: machine_okI)
    qed
  qed
qed

lemma console_ok:
  assumes m: "machine_ok img s"
  shows "returns (IoInterruptHandler c) s (\<lambda>_ t. machine_ok img t \<and> outer_only (procs s) (procs t)
    \<and> KepTickCount t = KepTickCount s \<and> timerTicks t = timerTicks s)" (is "returns _ _ ?Q")
proof -
  obtain L Os ns strs ws line where g: "sched_good s L" and o: "ob_inv s Os" and d: "devices_ok img s L ns strs ws line"
    using m by (auto simp: machine_ok_def)
  have f: "fifo_ok (fifo s)" using d by (simp add: devices_ok_def)
  show ?thesis
    unfolding IoInterruptHandler_def returns_kthen
  proof (rule returns_mono [OF AddCharToBuffer_queue [OF f]], elim conjE)
    fix a :: unit and u
    assume "u = s\<lparr>fifo := fifo u\<rparr>" "fifo_ok (fifo u)"
    note U = devices_ok_fifo [OF d this]
    note UD = devices_onlyD [OF U(2)] and UI = devices_only_inv [OF U(2) g o]
    obtain q where q: "waitingQueue u = Some q" "chain (nextReader u) (wqFirst q) ws"
      using U(1) by (auto simp: devices_ok_def)
    show "returns (kbind getWQ (\<lambda>q. kwhen (wqFirst q \<noteq> 0) (kbind (deref wnodes (wqFirst q)) (\<lambda>w.
         kthen (kbind GetFirstCharFromBuffer (\<lambda>ch. on_mem (wr (wnBuffer w) ch)))
         (kthen (setWQ (\<lambda>q. q\<lparr>wqFirst := wnNext w\<rparr>))
         (kthen (kassert ''io.c'' 264 (wnProcess w \<noteq> 0))
         (kthen (KeResumeProcess (wnProcess w))
         (kthen (ObDereferenceObject (wnProcess w)) (MmFree (wqFirst q)))))))))) u ?Q"
    proof (cases ws)
      case Nil
      then show ?thesis
        using q machine_okI [OF UI U(1)] UD by (simp add: getWQ_def kern outer_only_def)
    next
      case (Cons w ws')
      then obtain k where k: "wqFirst q = w" "w \<noteq> 0" "wnodes u w = Some k"
        using q(2) by (auto simp: nextReader_def)
      note W = U(1) [unfolded Cons]
      have r: "reader_ok img u L ns w" and ap: "reader_of u w \<notin> reader_of u ` set ws'"
        using W by (auto simp: devices_ok_def)
      have p: "wnProcess k = reader_of u w" using k by (simp add: reader_of_def)
      have nz: "wnProcess k \<noteq> 0"
      proof -
        have "wnProcess k \<in> set (L BlockedQ)" using r k(3) by (auto simp: reader_ok_def)
        moreover have "sched_lists u L" using UI(1) by (simp add: sched_good_def sched_inv_def)
        ultimately show ?thesis using lists_nonnull [OF sched_listsD, of u L BlockedQ "wnProcess k"] by auto
      qed
      have fin: "returns (kthen (KeResumeProcess (wnProcess k)) (kthen (ObDereferenceObject (wnProcess k)) (MmFree w))) t ?Q"
        if t: "devices_ok img t L ns strs ws' line" "devices_only u t" for t
      proof -
        note D = devices_onlyD [OF t(2)] and I = devices_only_inv [OF t(2) UI]
        have e: "reader_of t = reader_of u" by (simp add: reader_of_def fun_eq_iff D)
        have rt: "reader_ok img t L ns w"
          by (rule reader_ok_cong [OF r]) (simp_all add: D)
        have "returns (kthen (KeResumeProcess (reader_of t w)) (ObDereferenceObject (reader_of t w))) t
          (\<lambda>_ v. machine_ok img v \<and> outer_only (procs t) (procs v) \<and> KepTickCount v = KepTickCount t
             \<and> timerTicks v = timerTicks t)"
          by (rule resume_reader [OF I t(1) rt]) (use ap e in simp)
        then show ?thesis
          using D UD unfolding p e returns_kthen
          by (auto simp: MmFree_def kern elim!: returns_mono)
      qed
      have "returns (kthen (kbind GetFirstCharFromBuffer (\<lambda>ch. on_mem (wr (wnBuffer k) ch)))
         (kthen (setWQ (\<lambda>q. q\<lparr>wqFirst := wnNext k\<rparr>))
         (kthen (KeResumeProcess (wnProcess k)) (kthen (ObDereferenceObject (wnProcess k)) (MmFree w))))) u ?Q"
        unfolding returns_kthen
      proof (rule returns_mono [OF hand_over [OF W k(3)]], elim conjE)
        fix a :: unit and v
        assume v: "devices_ok img v L ns strs (w # ws') line" "devices_only u v"
        have kv: "wnodes v w = Some k" using k(3) devices_onlyD(8) [OF v(2)] by simp
        show "returns (setWQ (\<lambda>q. q\<lparr>wqFirst := wnNext k\<rparr>)) v (\<lambda>_ t. returns (KeResumeProcess (wnProcess k)) t
          (\<lambda>_ t. returns (ObDereferenceObject (wnProcess k)) t (\<lambda>_ t. returns (MmFree w) t ?Q)))"
          by (rule returns_mono [OF reader_leaves [OF v(1) kv]])
            (use fin devices_only_trans [OF v(2)] in \<open>auto simp: returns_kthen\<close>)
      qed
      then show ?thesis
        using q(1) k nz by (simp add: getWQ_def kern kassert_def)
    qed
  qed
qed

section \<open>Any interrupt\<close>

definition kept :: "image \<Rightarrow> kstate \<Rightarrow> kstate \<Rightarrow> bool" where
  "kept img s t \<longleftrightarrow> machine_ok img t \<and> outer_only (procs s) (procs t)"

lemma kept_trans: "kept img s t \<Longrightarrow> kept img t u \<Longrightarrow> kept img s u"
  by (simp add: kept_def outer_only_def)

text \<open>The debugger's line hands over a character that does not complete a command.\<close>

definition no_command :: "UART \<Rightarrow> u32 \<Rightarrow> bool" where
  "no_command uart C \<longleftrightarrow> \<not> (and C CP0_CAUSE_UART \<noteq> 0 \<and> dr2 uart \<and> rbr2 uart = 13)"

text \<open>The cause register when the kernel is left: a served serial line is acknowledged.\<close>

definition acknowledged :: "UART \<Rightarrow> u32 \<Rightarrow> u32" where
  "acknowledged uart C = (if (and C CP0_CAUSE_UART \<noteq> 0 \<and> dr uart) \<or> thre uart then and C (not 0x1000) else C)"

lemma acknowledge_twice: "and (and C (not 0x1000)) (not 0x1000) = and C (not (0x1000 :: u32))"
  by (simp add: and.assoc)

definition clock :: "kstate \<Rightarrow> u32 \<times> u32" where
  "clock s = (KepTickCount s, timerTicks s)"

lemma timer_part:
  assumes "machine_ok img s"
  shows "returns (kwhen b (kthen KeHandleTimer (HalResetTimer n))) s (\<lambda>_ t. kept img s t
    \<and> clock t = (if b then (KepTickCount s + 10, n) else clock s))"
proof (cases b)
  case True
  then show ?thesis
    unfolding kwhen_def returns_kthen by (auto intro!: returns_mono [OF timer_ok [OF assms]]
        simp: HalResetTimer_def kern kept_def clock_def HalResetTimer_ok)
qed (use assms in \<open>simp add: kern kept_def outer_only_def\<close>)

lemma serial_part:
  assumes m: "machine_ok img s" and c: "no_command uart C"
  shows "returns (if and C CP0_CAUSE_UART \<noteq> 0 then
           kthen (kwhen (dr2 uart) (KdCharacterReceived img (rbr2 uart)))
           (if dr uart then kthen (IoInterruptHandler (rbr uart)) (kreturn (and C (not 0x1000))) else kreturn C)
         else kreturn C) s
    (\<lambda>C' t. kept img s t \<and> clock t = clock s \<and> C' = (if and C CP0_CAUSE_UART \<noteq> 0 \<and> dr uart then and C (not 0x1000) else C))"
proof (cases "and C CP0_CAUSE_UART \<noteq> 0")
  case True
  have kd: "returns (kwhen (dr2 uart) (KdCharacterReceived img (rbr2 uart))) s
      (\<lambda>_ t. machine_ok img t \<and> procs t = procs s \<and> clock t = clock s)"
  proof (cases "dr2 uart")
    case True
    then have "rbr2 uart \<noteq> 13" using c \<open>and C CP0_CAUSE_UART \<noteq> 0\<close> by (simp add: no_command_def)
    then show ?thesis using True returns_mono [OF debugger_ok [OF m]] by (simp add: kwhen_def clock_def)
  qed (use m in \<open>simp add: kern\<close>)
  show ?thesis
    unfolding if_P [OF True] returns_kthen
  proof (rule returns_mono [OF kd], elim conjE)
    fix a :: unit and u
    assume u: "machine_ok img u" "procs u = procs s" "clock u = clock s"
    have "returns (IoInterruptHandler (rbr uart)) u (\<lambda>_ t. kept img s t \<and> clock t = clock s)"
      by (rule returns_mono [OF console_ok [OF u(1)]]) (use u in \<open>simp add: kept_def clock_def\<close>)
    then show "returns (if dr uart then kthen (IoInterruptHandler (rbr uart)) (kreturn (and C (not 0x1000))) else kreturn C) u
      (\<lambda>C' t. kept img s t \<and> clock t = clock s \<and> C' = (if and C CP0_CAUSE_UART \<noteq> 0 \<and> dr uart then and C (not 0x1000) else C))"
      using True u by (auto simp: kern kept_def outer_only_def elim!: returns_mono)
  qed
qed (use m in \<open>simp add: kern kept_def outer_only_def\<close>)

lemma interrupt_ok:
  assumes m: "machine_ok img s" and c: "no_command uart C"
  shows "returns (handle_interrupt img uart C) s (\<lambda>C' t. machine_ok img t \<and> outer_only (procs s) (procs t)
    \<and> C' = acknowledged uart C
    \<and> clock t = (if and C CP0_CAUSE_TIMER \<noteq> 0 then (KepTickCount s + 10, 670000) else clock s))"
proof -
  let ?T = "if and C CP0_CAUSE_TIMER \<noteq> 0 then (KepTickCount s + 10, 670000) else clock s"
  have out: "returns (if thre uart then kthen IoTransmitterInterruptHandler (kreturn (and B (not 0x1000))) else kreturn B) u
      (\<lambda>C' t. machine_ok img t \<and> outer_only (procs s) (procs t) \<and> C' = acknowledged uart C \<and> clock t = ?T)"
    if u: "kept img s u" "clock u = ?T" and B: "B = (if and C CP0_CAUSE_UART \<noteq> 0 \<and> dr uart then and C (not 0x1000) else C)"
    for B u
  proof -
    have k: "machine_ok img u" "outer_only (procs s) (procs u)" using u(1) by (simp_all add: kept_def)
    have "returns IoTransmitterInterruptHandler u (\<lambda>_ t. machine_ok img t \<and> outer_only (procs s) (procs t) \<and> clock t = ?T)"
      by (rule returns_mono [OF transmitter_ok [OF k(1)]]) (use k u(2) in \<open>simp add: clock_def\<close>)
    then show ?thesis
      using k u(2) by (auto simp: B kern acknowledged_def acknowledge_twice elim!: returns_mono)
  qed
  show ?thesis
    unfolding handle_interrupt_def returns_kthen
  proof (rule returns_mono [OF timer_part [OF m]], elim conjE)
    fix a :: unit and u
    assume u: "kept img s u" "clock u = (if and C CP0_CAUSE_TIMER \<noteq> 0 then (KepTickCount s + 10, 67000 * 10) else clock s)"
    then have mu: "machine_ok img u" by (simp add: kept_def)
    show "returns (kbind (if and C CP0_CAUSE_UART \<noteq> 0 then
           kthen (kwhen (dr2 uart) (KdCharacterReceived img (rbr2 uart)))
           (if dr uart then kthen (IoInterruptHandler (rbr uart)) (kreturn (and C (not 0x1000))) else kreturn C)
         else kreturn C) (\<lambda>C. if thre uart then kthen IoTransmitterInterruptHandler (kreturn (and C (not 0x1000))) else kreturn C)) u
      (\<lambda>C' t. machine_ok img t \<and> outer_only (procs s) (procs t) \<and> C' = acknowledged uart C \<and> clock t = ?T)"
      unfolding returns_kbind
      by (rule returns_mono [OF serial_part [OF mu c]], elim conjE, rule out)
        (use u kept_trans in auto)
  qed
qed

section \<open>The entry and the scheduler\<close>

text \<open>What the trap handler and the scheduler do to a process and to the queues of the scheduler.\<close>

lemma machine_ok_suspend:
  assumes m: "machine_ok img s"
  shows "returns (KeSuspendProcess ms R) s (\<lambda>_ t. machine_ok img t \<and> ke_frame s t)
    \<or> halts (KeSuspendProcess ms R) s no_process_left"
proof -
  obtain L Os ns strs ws line where g: "sched_good s L" and o: "ob_inv s Os" and d: "devices_ok img s L ns strs ws line"
    using m by (auto simp: machine_ok_def)
  have inv: "sched_inv s L" "mq_inv s" using g by (simp_all add: sched_good_def)
  show ?thesis
  proof (cases "abs_suspend L (wake (procs s)) (KepTickCount s + ms) (KeCurrentProcess s)")
    case None
    then show ?thesis using KeSuspendProcess_lists [OF inv, of ms R] by (simp add: no_process_left_def)
  next
    case (Some y)
    obtain n L' where y: "y = (n, L')" by fastforce
    have B: "L' BlockedQ = L BlockedQ"
      using Some unfolding y abs_suspend_def abs_reschedule_def by (auto simp: Let_def split: option.splits)
    have run: "returns (KeSuspendProcess ms R) s (\<lambda>_ t. sched_inv t L' \<and> KeCurrentProcess t = n \<and> mq_inv t
        \<and> quantum_ok t \<and> ke_frame s t \<and> KepTickCount t = KepTickCount s)"
      using KeSuspendProcess_lists [OF inv, of ms R] Some y by simp
    have "returns (KeSuspendProcess ms R) s (\<lambda>_ t. machine_ok img t \<and> ke_frame s t)"
    proof (rule returns_mono [OF run], elim conjE, intro conjI)
      fix a :: unit and t
      assume t: "sched_inv t L'" "mq_inv t" "quantum_ok t" "ke_frame s t"
      show "machine_ok img t"
        by (rule machine_okI [of t L' Os img ns strs ws line])
          (use t ob_inv_ke_frame [OF t(4) o] devices_ok_ke [where L' = L', OF d t(4) B] in \<open>simp_all add: sched_good_def\<close>)
    qed
    then show ?thesis by blast
  qed
qed

lemma machine_ok_procs:
  assumes m: "machine_ok img s" and v: "sched_same (procs s) P" "handles_same (procs s) P"
  shows "machine_ok img (s\<lparr>procs := P\<rparr>)"
proof -
  obtain L Os ns strs ws line where g: "sched_good s L" and o: "ob_inv s Os" and d: "devices_ok img s L ns strs ws line"
    using m by (auto simp: machine_ok_def)
  let ?t = "s\<lparr>procs := P\<rparr>"
  have "sched_good ?t L" by (rule sched_good_same [OF _ _ _ _ _ g]) (use v in \<open>simp_all add: same_queues_def\<close>)
  moreover have "ob_inv ?t Os" by (rule ob_inv_same [OF _ _ _ _ o]) (use v in simp_all)
  moreover have "devices_ok img ?t L ns strs ws line"
    by (rule devices_ok_same [OF d]) (simp_all add: same_devices_def)
  ultimately show ?thesis by (rule machine_okI)
qed

end
