(* ===== verification/Trap.thy ===== *)
theory Trap
  imports Interrupts
begin

text \<open>
  What an entry into the kernel does to the interrupted process and to the one that runs
  next, \<^verbatim>\<open>base/hal/mipsel32/init.c\<close>: for the interrupts of all devices and for the system call that
  sleeps.  \<open>contexts\<close> reads the saved processor context of every process.
\<close>

section \<open>Saved contexts\<close>

definition contexts :: "kstate \<Rightarrow> addr \<Rightarrow> CONTEXT option" where
  "contexts s p = map_option Context (procs s p)"

definition captured :: "kstate \<Rightarrow> CONTEXT \<Rightarrow> kstate" where
  "captured s x = s\<lparr>procs := (procs s)(KeCurrentProcess s :=
     map_option (\<lambda>c. c\<lparr>Context := x\<rparr>) (procs s (KeCurrentProcess s)))\<rparr>"

lemma contexts_ke_frame: "ke_frame s t \<Longrightarrow> contexts t = contexts s"
proof
  fix p
  assume "ke_frame s t"
  then have o: "outer_only (procs s) (procs t)" by (rule ke_frame_outer)
  show "contexts t p = contexts s p"
  proof (cases "procs s p")
    case None
    then show ?thesis using o [unfolded outer_only_def, THEN spec, of p] by (simp add: contexts_def)
  next
    case (Some a)
    then obtain b where "procs t p = Some b" "outer b = outer a" using outer_onlyD [OF o] by blast
    then show ?thesis using Some outer_fields(6) [of b a] by (simp add: contexts_def)
  qed
qed

lemma current_exists: "sched_good s L \<Longrightarrow> KeCurrentProcess s \<noteq> 0 \<and> (\<exists>c. procs s (KeCurrentProcess s) = Some c)"
  by (auto simp: sched_good_def sched_inv_def current_ok_def)

lemma captured_same:
  "same_queues s (captured s x)" "sched_same (procs s) (procs (captured s x))"
  "KepTickCount (captured s x) = KepTickCount s" "KeCurrentProcess (captured s x) = KeCurrentProcess s"
  by (auto simp: captured_def same_queues_def sched_same_def sched_view_def [abs_def] option.map_comp comp_def)

lemma captured_good: "sched_good s L \<Longrightarrow> sched_good (captured s x) L"
  by (rule sched_good_same [OF captured_same(1,2)]) (simp_all add: captured_def)

lemma contexts_captured:
  "sched_good s L \<Longrightarrow> contexts (captured s x) = (contexts s)(KeCurrentProcess s \<mapsto> x)"
  using current_exists [of s L] by (auto simp: contexts_def captured_def)

lemma KeCaptureContext_run:
  "sched_good s L \<Longrightarrow> KeCaptureContext x s = Some (Return () (captured s x))"
  using current_exists [of s L] by (auto simp: KeCaptureContext_def captured_def run)

lemma returns_KeRestoreContext:
  assumes "sched_good s L"
  shows "returns KeRestoreContext s (\<lambda>x t. t = s \<and> contexts s (KeCurrentProcess s) = Some x)"
  using current_exists [OF assms] by (auto simp: KeRestoreContext_def contexts_def kern)

lemma captured_again: "captured (captured s x) y = captured s y"
  by (simp add: captured_def option.map_comp comp_def)

text \<open>What follows the capture, for an interrupt and for a system call.\<close>

definition exception_code :: "EXCEPTION_FRAME \<Rightarrow> u32" where
  "exception_code frame =
     drop_bit CP0_CAUSE_EXCEPTION_CODE_SHIFT (and (frCause frame) CP0_CAUSE_EXCEPTION_CODE_MASK)"

definition leave_kernel :: "EXCEPTION_FRAME \<Rightarrow> u32 \<Rightarrow> EXCEPTION_FRAME kern" where
  "leave_kernel frame cause = kbind KeRestoreContext (\<lambda>x. kreturn (frame\<lparr>frContext := x, frCause := cause\<rparr>))"

lemma interrupt_run:
  assumes "sched_good s L" and "exception_code frame = 0"
  shows "HalHandleException img SM late uart frame s
    = kbind (handle_interrupt img uart (frCause frame)) (leave_kernel frame) (captured s (frContext frame))"
  using assms(2) KeCaptureContext_run [OF assms(1), of "frContext frame"]
  by (simp add: HalHandleException_def kthen_run(1) exception_code_def Let_def leave_kernel_def [abs_def])

lemma returns_interrupt:
  assumes "sched_good s L" and "exception_code frame = 0"
  shows "returns (HalHandleException img SM late uart frame) s Q
    = returns (handle_interrupt img uart (frCause frame)) (captured s (frContext frame))
        (\<lambda>cause t. returns (leave_kernel frame cause) t Q)"
  unfolding returns_kbind [symmetric] by (rule returns_eq) (rule interrupt_run [OF assms])

definition advanced :: "CONTEXT \<Rightarrow> CONTEXT" where
  "advanced x = x\<lparr>Pc := Pc x + 4\<rparr>"

lemma handle_syscall_run:
  assumes "sched_good s L"
  shows "handle_trap img SM late CP0_CAUSE_SYSCALL (captured s x)
    = (let y = advanced x in KeSystemService img SM late (V0 y) (A0 y) (A1 y) (A2 y) (A3 y) (captured s y))"
proof -
  obtain c where c: "KeCurrentProcess s \<noteq> 0" "procs s (KeCurrentProcess s) = Some c"
    using current_exists [OF assms] by auto
  let ?s = "captured s x"
  have "setP (KeCurrentProcess s) (\<lambda>p. p\<lparr>Context := (Context p)\<lparr>Pc := Pc (Context p) + 4\<rparr>\<rparr>) ?s
      = Some (Return () (captured s (advanced x)))"
    using c by (simp add: store_run captured_def advanced_def)
  moreover have "getP (KeCurrentProcess s) (captured s y) = Some (Return (c\<lparr>Context := y\<rparr>) (captured s y))" for y
    using c by (simp add: deref_run captured_def)
  ultimately show ?thesis
    by (simp add: handle_trap_def kbind_run(1) kthen_run(1) kprim_run captured_same Let_def)
qed

lemma syscall_run:
  assumes "sched_good s L" and "exception_code frame = CP0_CAUSE_SYSCALL" and "y = advanced (frContext frame)"
  shows "HalHandleException img SM late uart frame s
    = kbind (KeSystemService img SM late (V0 y) (A0 y) (A1 y) (A2 y) (A3 y))
        (\<lambda>_. leave_kernel frame (frCause frame)) (captured s y)"
proof -
  have "HalHandleException img SM late uart frame s
    = kbind (handle_trap img SM late CP0_CAUSE_SYSCALL) (\<lambda>_. leave_kernel frame (frCause frame))
        (captured s (frContext frame))"
    using assms(2) KeCaptureContext_run [OF assms(1), of "frContext frame"]
    by (simp add: HalHandleException_def kthen_run(1) exception_code_def Let_def leave_kernel_def
        kbind_assoc kbind_return CP0_CAUSE_SYSCALL_def) (simp add: kthen_def)
  then show ?thesis
    by (simp add: kbind_def handle_syscall_run [OF assms(1)] Let_def assms(3))
qed

lemma returns_leave_kernel:
  assumes "good s"
  shows "returns (leave_kernel frame cause) s (\<lambda>f t. t = s \<and> contexts s (KeCurrentProcess s) = Some (frContext f)
    \<and> f = frame\<lparr>frContext := frContext f, frCause := cause\<rparr>)"
proof -
  obtain L where "sched_good s L" using assms by (auto simp: good_iff)
  from returns_KeRestoreContext [OF this] show ?thesis
    by (auto simp: leave_kernel_def kern elim!: returns_mono)
qed

section \<open>The invariant and the contexts\<close>

lemma contexts_outer:
  assumes o: "outer_only (procs s) (procs t)"
  shows "contexts t = contexts s"
proof
  fix p
  show "contexts t p = contexts s p"
  proof (cases "procs s p")
    case None
    then show ?thesis using o [unfolded outer_only_def, THEN spec, of p] by (simp add: contexts_def)
  next
    case (Some a)
    then obtain b where "procs t p = Some b" "outer b = outer a" using outer_onlyD [OF o] by blast
    then show ?thesis using Some outer_fields(6) [of b a] by (simp add: contexts_def)
  qed
qed

lemma captured_ok: "machine_ok img s \<Longrightarrow> machine_ok img (captured s x)"
  unfolding captured_def
  by (rule machine_ok_procs)
     (auto simp: sched_same_def sched_view_def [abs_def] handles_same_def option.map_comp comp_def)

section \<open>An interrupt\<close>

text \<open>
  Any combination of the timer, a character from the serial line, a character from the debugger's
  line and the transmitter that is ready; only the carriage return that completes a command for the
  debugger is left out, because the debugger then does what it is told to.
\<close>

definition interrupt_frame :: "UART \<Rightarrow> EXCEPTION_FRAME \<Rightarrow> bool" where
  "interrupt_frame uart frame \<longleftrightarrow> exception_code frame = 0 \<and> no_command uart (frCause frame)"

lemma interrupt_entry:
  assumes m: "machine_ok img s" and fr: "interrupt_frame uart frame"
  shows "returns (HalHandleException img SM late uart frame) s (\<lambda>f t. machine_ok img t
     \<and> contexts t = (contexts s)(KeCurrentProcess s \<mapsto> frContext frame)
     \<and> contexts t (KeCurrentProcess t) = Some (frContext f)
     \<and> f = frame\<lparr>frContext := frContext f, frCause := acknowledged uart (frCause frame)\<rparr>
     \<and> clock t = (if and (frCause frame) CP0_CAUSE_TIMER \<noteq> 0 then (KepTickCount s + 10, 670000) else clock s))"
proof -
  obtain L where g: "sched_good s L" using machine_ok_good [OF m] by (auto simp: good_iff)
  have code: "exception_code frame = 0" and c: "no_command uart (frCause frame)" using fr by (simp_all add: interrupt_frame_def)
  have k: "clock (captured s x) = clock s" for x by (simp add: clock_def captured_def)
  show ?thesis
    unfolding returns_interrupt [OF g code]
  proof (rule returns_mono [OF interrupt_ok [OF captured_ok [OF m] c]], elim conjE)
    fix cause t
    assume t: "machine_ok img t" "outer_only (procs (captured s (frContext frame))) (procs t)"
      "cause = acknowledged uart (frCause frame)"
      "clock t = (if and (frCause frame) CP0_CAUSE_TIMER \<noteq> 0 then (KepTickCount (captured s (frContext frame)) + 10, 670000)
         else clock (captured s (frContext frame)))"
    show "returns (leave_kernel frame cause) t (\<lambda>f t. machine_ok img t
     \<and> contexts t = (contexts s)(KeCurrentProcess s \<mapsto> frContext frame)
     \<and> contexts t (KeCurrentProcess t) = Some (frContext f)
     \<and> f = frame\<lparr>frContext := frContext f, frCause := acknowledged uart (frCause frame)\<rparr>
     \<and> clock t = (if and (frCause frame) CP0_CAUSE_TIMER \<noteq> 0 then (KepTickCount s + 10, 670000) else clock s))"
      by (rule returns_mono [OF returns_leave_kernel [OF machine_ok_good [OF t(1)]]])
        (use t contexts_outer [OF t(2)] contexts_captured [OF g] in \<open>auto simp: k captured_same\<close>)
  qed
qed

section \<open>The system call that sleeps\<close>

definition sleep_frame :: "EXCEPTION_FRAME \<Rightarrow> bool" where
  "sleep_frame frame \<longleftrightarrow> exception_code frame = CP0_CAUSE_SYSCALL \<and> V0 (frContext frame) = 0"

lemma sleep_entry:
  assumes m: "machine_ok img s" and fr: "sleep_frame frame"
  shows "returns (HalHandleException img SM late uart frame) s (\<lambda>f t. machine_ok img t
     \<and> contexts t = (contexts s)(KeCurrentProcess s \<mapsto> advanced (frContext frame))
     \<and> contexts t (KeCurrentProcess t) = Some (frContext f))
   \<or> halts (HalHandleException img SM late uart frame) s no_process_left"
proof -
  obtain L where g: "sched_good s L" using machine_ok_good [OF m] by (auto simp: good_iff)
  let ?y = "advanced (frContext frame)"
  let ?s = "captured s ?y"
  have y: "V0 ?y = 0" and code: "exception_code frame = CP0_CAUSE_SYSCALL"
    using fr by (simp_all add: sleep_frame_def advanced_def)
  have run: "HalHandleException img SM late uart frame s
    = kbind (KeSuspendProcess (A0 ?y) NoResumeMethod) (\<lambda>_. leave_kernel frame (frCause frame)) ?s"
    using syscall_run [OF g code refl] by (simp add: KeSystemService_def y)
  from machine_ok_suspend [OF captured_ok [OF m, of ?y], of "A0 ?y" NoResumeMethod]
  show ?thesis
  proof
    assume ret: "returns (KeSuspendProcess (A0 ?y) NoResumeMethod) ?s (\<lambda>_ t. machine_ok img t \<and> ke_frame ?s t)"
    have "returns (kbind (KeSuspendProcess (A0 ?y) NoResumeMethod) (\<lambda>_. leave_kernel frame (frCause frame))) ?s
      (\<lambda>f t. machine_ok img t \<and> contexts t = (contexts s)(KeCurrentProcess s \<mapsto> ?y)
        \<and> contexts t (KeCurrentProcess t) = Some (frContext f))"
      unfolding returns_kbind
    proof (rule returns_mono [OF ret])
      fix a :: unit and t
      assume t: "machine_ok img t \<and> ke_frame ?s t"
      then have "contexts t = (contexts s)(KeCurrentProcess s \<mapsto> ?y)"
        using contexts_ke_frame [of ?s t] contexts_captured [OF g] by simp
      then show "returns (leave_kernel frame (frCause frame)) t (\<lambda>f u. machine_ok img u
          \<and> contexts u = (contexts s)(KeCurrentProcess s \<mapsto> ?y)
          \<and> contexts u (KeCurrentProcess u) = Some (frContext f))"
        using t by (auto intro!: returns_mono [OF returns_leave_kernel] dest: machine_ok_good)
    qed
    then show ?thesis using run by (simp add: returns_def)
  next
    assume "halts (KeSuspendProcess (A0 ?y) NoResumeMethod) ?s no_process_left"
    then show ?thesis using run by (simp add: halts_def kbind_run)
  qed
qed

section \<open>Runs\<close>

text \<open>
  A run of the kernel: a sequence of interrupts and of system calls that sleep.  The
  processes in between are arbitrary, so each entry has an arbitrary context.  \<open>R\<close> records,
  without looking into the kernel, with which context each process has to go on.  The other system
  calls are not in these runs: they return a result in \<open>V0\<close>, and those that can block write it, when the
  assignment of \<^verbatim>\<open>KeSetSyscallResult\<close> reads the current process late, into the context of the
  process that runs next, which is then not resumed as it was.
\<close>

definition plain_entry :: "UART \<Rightarrow> EXCEPTION_FRAME \<Rightarrow> bool" where
  "plain_entry uart frame \<longleftrightarrow> interrupt_frame uart frame \<or> sleep_frame frame"

definition to_resume :: "EXCEPTION_FRAME \<Rightarrow> CONTEXT" where
  "to_resume frame = (if exception_code frame = 0 then frContext frame else advanced (frContext frame))"

inductive entries :: "image \<Rightarrow> (u32 \<Rightarrow> u32 \<Rightarrow> addr \<Rightarrow> u32 \<Rightarrow> unit kern) \<Rightarrow> kstate
    \<Rightarrow> (addr \<Rightarrow> CONTEXT option) \<Rightarrow> kstate \<Rightarrow> bool" for img SM s0 where
  start: "entries img SM s0 (contexts s0) s0"
| enter: "entries img SM s0 R s \<Longrightarrow> plain_entry uart frame \<Longrightarrow>
    HalHandleException img SM late uart frame s = Some (Return f t) \<Longrightarrow>
    entries img SM s0 (R(KeCurrentProcess s \<mapsto> to_resume frame)) t"

lemma plain_entry_ok:
  assumes "machine_ok img s" and "plain_entry uart frame"
  shows "returns (HalHandleException img SM late uart frame) s (\<lambda>f t. machine_ok img t
     \<and> contexts t = (contexts s)(KeCurrentProcess s \<mapsto> to_resume frame)
     \<and> contexts t (KeCurrentProcess t) = Some (frContext f))
   \<or> halts (HalHandleException img SM late uart frame) s no_process_left"
proof -
  from assms(2) consider "interrupt_frame uart frame" | "sleep_frame frame" by (auto simp: plain_entry_def)
  then show ?thesis
  proof cases
    case 1
    then have "to_resume frame = frContext frame" by (simp add: to_resume_def interrupt_frame_def)
    then show ?thesis by (intro disjI1 returns_mono [OF interrupt_entry [OF assms(1) 1]]) (auto split: if_splits)
  next
    case 2
    then show ?thesis using sleep_entry [OF assms(1) 2]
      by (simp add: to_resume_def sleep_frame_def CP0_CAUSE_SYSCALL_def)
  qed
qed

lemma entries_ok: "entries img SM s0 R s \<Longrightarrow> machine_ok img s0 \<Longrightarrow> machine_ok img s \<and> contexts s = R"
proof (induction rule: entries.induct)
  case (enter R s uart frame late f t)
  then show ?case using plain_entry_ok [of img s uart frame SM late] by (auto simp: returns_def halts_def)
qed simp

text \<open>C6: a process goes on exactly where it was interrupted, whatever runs in between: in every
  run of interrupts, from the timer, the serial line in both directions and the debugger's line, and
  of \<^verbatim>\<open>Sleep\<close> calls, from any consistent state, the context the kernel returns to is the one with which
  the process that now runs last entered the kernel (behind its system call instruction, if it
  slept), or its initial one.  Only a sleeping last process stops the kernel, with the bug
  check meant for that.  Other system calls and the carriage return that completes a debugger
  command are not in these runs.\<close>

theorem context_switch_transparent:
  assumes "machine_ok img s0" and "entries img SM s0 R s" and "plain_entry uart frame"
  shows "returns (HalHandleException img SM late uart frame) s (\<lambda>f t. machine_ok img t
     \<and> (R(KeCurrentProcess s \<mapsto> to_resume frame)) (KeCurrentProcess t) = Some (frContext f))
   \<or> (sleep_frame frame \<and> halts (HalHandleException img SM late uart frame) s no_process_left)"
proof -
  have s: "machine_ok img s" "contexts s = R" using entries_ok [OF assms(2,1)] by simp_all
  have "returns (HalHandleException img SM late uart frame) s (\<lambda>f t. machine_ok img t
     \<and> (R(KeCurrentProcess s \<mapsto> to_resume frame)) (KeCurrentProcess t) = Some (frContext f))"
    if "returns (HalHandleException img SM late uart frame) s (\<lambda>f t. machine_ok img t
     \<and> contexts t = (contexts s)(KeCurrentProcess s \<mapsto> to_resume frame)
     \<and> contexts t (KeCurrentProcess t) = Some (frContext f))"
    by (rule returns_mono [OF that]) (auto simp: s(2) split: if_splits)
  moreover have "\<not> halts (HalHandleException img SM late uart frame) s no_process_left" if "interrupt_frame uart frame"
    using interrupt_entry [OF s(1) that, of SM late] by (auto simp: returns_def halts_def)
  ultimately show ?thesis using plain_entry_ok [OF s(1) assms(3), of SM late] assms(3) unfolding plain_entry_def by blast
qed

text \<open>
  Process 3 waits for a character, with one reference of its own and one for the time of the
  wait; nothing waits for transmission and the debugger's line is empty.
\<close>

definition trap_demo :: kstate where
  "trap_demo = sched_demo\<lparr>mem := mem kd_empty_line,
     headers := [0x2FE0 \<mapsto> (demo_header 0 2 0)\<lparr>ObjAttributes := OBJ_PERMANENT\<rparr>],
     wnodes := [0x700 \<mapsto> \<lparr>wnProcess = 0x3000, wnBuffer = 0x800, wnBufferSize = 1, wnNext = 0\<rparr>],
     waitingQueue := Some \<lparr>wqFirst = 0x700, wqLast = 0x700\<rparr>,
     bufferQueue := Some \<lparr>bqFirst = 0, bqLast = 0\<rparr>\<rparr>"

lemma trap_demo_ok: "machine_ok kd_image trap_demo"
proof (rule machine_okI [where L = sched_demo_lists and Os = "\<lambda>_. []" and ns = "[]" and strs = "[]" and ws = "[0x700]" and line = "[]"])
  note demo = trap_demo_def sched_demo_def boot_state_def
  have "sched_good sched_demo sched_demo_lists"
    using sched_demo_inv sched_demo_mq sched_demo_quantum by (simp add: sched_good_def)
  then show "sched_good trap_demo sched_demo_lists"
    by (rule sched_good_same [rotated -1]) (simp_all add: trap_demo_def same_queues_def)
  have none: "slots (procs trap_demo) obj = {}" if "obj \<noteq> 0" for obj :: addr
    using that by (auto simp: slots_def demo demo_process_def split: if_splits)
  have only: "headers trap_demo x = Some h \<Longrightarrow> x = 0x2FE0 \<and> h = (demo_header 0 2 0)\<lparr>ObjAttributes := OBJ_PERMANENT\<rparr>" for x h
    by (simp add: trap_demo_def split: if_splits)
  have "ob_lists trap_demo (\<lambda>_. [])" by (simp add: ob_lists_def demo)
  moreover have "counts_ok (procs trap_demo) (headers trap_demo)"
    using none [of "0x3000"] by (auto simp: counts_ok_def handle_count_def demo_header_def BODY_OFFSET_def dest!: only)
  moreover have "header_ok trap_demo (\<lambda>_. []) x h" if "headers trap_demo x = Some h" for x h
    using only [OF that] by (simp add: header_ok_def permanent_def OBJ_PERMANENT_def demo_header_def BODY_OFFSET_def)
  ultimately show "ob_inv trap_demo (\<lambda>_. [])"
    unfolding ob_inv_def slots_live_def using none by blast
  have "kd_line kd_image trap_demo []"
    by (rule kd_line_cong [OF kd_empty_line_ok]) (simp_all add: demo kd_empty_line_def)
  moreover have "0x800 \<notin> span (0x300 :: addr) 160" "0x800 \<notin> span (0x400 :: addr) 8"
    using unat_in_span [of "0x800" "0x300" 160] unat_in_span [of "0x800" "0x400" 8] by auto
  then have "reader_ok kd_image trap_demo sched_demo_lists [] 0x700"
    by (simp add: reader_ok_def demo sched_demo_lists_def kd_image_def erase_text_def BODY_OFFSET_def demo_header_def)
  ultimately show "devices_ok kd_image trap_demo sched_demo_lists [] [] [0x700] []"
    by (simp add: devices_ok_def fifo_ok_def FIFO_SIZE_def tx_inv_def demo nextReader_def)
qed

text \<open>The timer, a character on each line and the transmitter, all in one interrupt.\<close>

definition busy_uart :: UART where
  "busy_uart = \<lparr>dr = True, rbr = 97, thre = True, dr2 = True, rbr2 = 104\<rparr>"

definition busy_frame :: "CONTEXT \<Rightarrow> EXCEPTION_FRAME" where
  "busy_frame x = \<lparr>frContext = x, frCause = or CP0_CAUSE_TIMER CP0_CAUSE_UART, frStatus = 0\<rparr>"

lemma busy_frame_plain: "interrupt_frame busy_uart (busy_frame x)"
  by (simp add: interrupt_frame_def exception_code_def no_command_def busy_uart_def busy_frame_def
      CP0_CAUSE_EXCEPTION_CODE_MASK_def CP0_CAUSE_TIMER_def CP0_CAUSE_UART_def)

theorem context_switch_transparent_witness:
  "\<forall>SM late. returns (HalHandleException kd_image SM late busy_uart (busy_frame zero_context)) trap_demo (\<lambda>f t. machine_ok kd_image t
     \<and> ((contexts trap_demo)(KeCurrentProcess trap_demo \<mapsto> to_resume (busy_frame zero_context))) (KeCurrentProcess t)
       = Some (frContext f))
   \<or> (sleep_frame (busy_frame zero_context)
       \<and> halts (HalHandleException kd_image SM late busy_uart (busy_frame zero_context)) trap_demo no_process_left)"
  by (intro allI context_switch_transparent [OF trap_demo_ok entries.start])
    (simp add: plain_entry_def busy_frame_plain)

text \<open>C7: an interrupt as the processor sees it, from any combination of the timer, the serial line (a
  character received, the transmitter ready) and the debugger's line (any character but the carriage
  return that completes a command): it always returns, the interrupted process's registers are saved
  in its PCB and nobody else's are touched, the registers that are loaded are those of the process that
  runs next, and in the frame only the serial line's cause bit is cleared, exactly when a character was
  received or the transmitter was ready.  Exactly for the timer the clock advances by 10 ms and the
  timer is set again.\<close>

theorem interrupt_correct:
  assumes "machine_ok img s" and "interrupt_frame uart frame"
  shows "returns (HalHandleException img SM late uart frame) s (\<lambda>f t. machine_ok img t
     \<and> contexts t = (contexts s)(KeCurrentProcess s \<mapsto> frContext frame)
     \<and> contexts t (KeCurrentProcess t) = Some (frContext f)
     \<and> f = frame\<lparr>frContext := frContext f, frCause := acknowledged uart (frCause frame)\<rparr>
     \<and> (KepTickCount t, timerTicks t) = (if and (frCause frame) CP0_CAUSE_TIMER \<noteq> 0
          then (KepTickCount s + 10, 670000) else (KepTickCount s, timerTicks s)))"
  using interrupt_entry [OF assms, of SM late] by (simp only: clock_def)

theorem interrupt_correct_witness:
  "\<forall>SM late. returns (HalHandleException kd_image SM late busy_uart (busy_frame zero_context)) trap_demo (\<lambda>f t.
     machine_ok kd_image t \<and> contexts t = (contexts trap_demo)(0x1000 \<mapsto> zero_context)
     \<and> contexts t (KeCurrentProcess t) = Some (frContext f)
     \<and> frCause f = and (or CP0_CAUSE_TIMER CP0_CAUSE_UART) (not 0x1000)
     \<and> KepTickCount t = 105 \<and> timerTicks t = 670000)"
proof (intro allI)
  fix SM late
  have c: "and (frCause (busy_frame zero_context)) CP0_CAUSE_TIMER \<noteq> 0" "and (frCause (busy_frame zero_context)) CP0_CAUSE_UART \<noteq> 0"
    by (simp_all add: busy_frame_def CP0_CAUSE_TIMER_def CP0_CAUSE_UART_def)
  then have a: "acknowledged busy_uart (frCause (busy_frame zero_context)) = and (or CP0_CAUSE_TIMER CP0_CAUSE_UART) (not 0x1000)"
    by (simp add: acknowledged_def busy_uart_def) (simp add: busy_frame_def)
  have d: "KeCurrentProcess trap_demo = 0x1000" "KepTickCount trap_demo = 95" "frContext (busy_frame zero_context) = zero_context"
    by (simp_all add: trap_demo_def sched_demo_def busy_frame_def)
  show "returns (HalHandleException kd_image SM late busy_uart (busy_frame zero_context)) trap_demo (\<lambda>f t.
     machine_ok kd_image t \<and> contexts t = (contexts trap_demo)(0x1000 \<mapsto> zero_context)
     \<and> contexts t (KeCurrentProcess t) = Some (frContext f)
     \<and> frCause f = and (or CP0_CAUSE_TIMER CP0_CAUSE_UART) (not 0x1000)
     \<and> KepTickCount t = 105 \<and> timerTicks t = 670000)"
  proof (rule returns_mono [OF interrupt_correct [OF trap_demo_ok busy_frame_plain, of SM late zero_context]], elim conjE, intro conjI)
    fix f t
    let ?F = "busy_frame zero_context"
    assume f: "f = ?F\<lparr>frContext := frContext f, frCause := acknowledged busy_uart (frCause ?F)\<rparr>"
      and k: "(KepTickCount t, timerTicks t) = (if and (frCause ?F) CP0_CAUSE_TIMER \<noteq> 0
          then (KepTickCount trap_demo + 10, 670000) else (KepTickCount trap_demo, timerTicks trap_demo))"
      and x: "contexts t = (contexts trap_demo)(KeCurrentProcess trap_demo \<mapsto> frContext ?F)"
    show "contexts t = (contexts trap_demo)(0x1000 \<mapsto> zero_context)" using x by (simp only: d)
    show "frCause f = and (or CP0_CAUSE_TIMER CP0_CAUSE_UART) (not 0x1000)" by (subst f) (simp add: a)
    show "KepTickCount t = 105" "timerTicks t = 670000" using k c(1) d(2) by simp_all
  qed
qed

section \<open>Exceptions\<close>

text \<open>Every exception but the system call stops the kernel, with the name of the exception.\<close>

lemma exception_stops:
  assumes "good s" and "exception_code frame \<noteq> 0" and "exception_code frame \<noteq> CP0_CAUSE_SYSCALL"
  shows "halts (HalHandleException img SM late uart frame) s
    (BugCheck (if unat (exception_code frame) < 14 then HalTrapCodeNames ! unat (exception_code frame)
       else ''Unknown exception.''))"
proof -
  obtain L where L: "sched_good s L" using assms(1) by (auto simp: good_iff)
  have n: "length HalTrapCodeNames = 14" by (simp add: HalTrapCodeNames_def)
  show ?thesis
    unfolding halts_def HalHandleException_def exception_code_def [symmetric] Let_def
    using assms(2,3) KeCaptureContext_run [OF L, of "frContext frame"]
    by (simp add: kthen_run kbind_run kprim_run handle_trap_def n)
qed

end
