(* ===== verification/Foo.thy ===== *)
theory Foo
  imports ObWait
begin

text \<open>
  The test program of the object manager, \<^verbatim>\<open>base/ob/test.c\<close>, a host program linked with
  \<^verbatim>\<open>ob.c\<close>: it defines an object type, creates objects of it, lists them and closes handles.
  What it prints is \<open>stdout\<close>; the global \<^verbatim>\<open>fooType\<close> is passed along.

  The program is linked with \<^verbatim>\<open>OB_STANDALONE\<close>, where \<^verbatim>\<open>ob.c\<close> makes \<^verbatim>\<open>MmAlloc\<close> and \<^verbatim>\<open>MmFree\<close> the host's
  \<^verbatim>\<open>malloc\<close> and \<^verbatim>\<open>free\<close>, and a failed \<^verbatim>\<open>ASSERT\<close> or \<^verbatim>\<open>KeBugCheck\<close> a line of output and \<^verbatim>\<open>exit(1)\<close>.  The host's
  heap is not modelled: the program runs here on the object manager of \<open>Ob\<close> with the allocator of \<open>Mm\<close>,
  which stands for a \<^verbatim>\<open>malloc\<close> that hands out ever higher addresses and a \<^verbatim>\<open>free\<close> after which nothing
  is handed out again; a failed assertion or a bug check is a halt of the model, which the theorems show
  not to happen.
\<close>

section \<open>Output of the host\<close>

definition print :: "byte list \<Rightarrow> unit kern" where
  "print xs = kmodify (\<lambda>s. s\<lparr>stdout := stdout s @ xs\<rparr>)"

text \<open>The characters of a string that \<^verbatim>\<open>printf\<close> prints for \<^verbatim>\<open>%s\<close>.\<close>

definition host_char_step :: "addr \<Rightarrow> (addr + unit) kern" where
  "host_char_step a = kbind (on_mem (rd a)) (\<lambda>c.
     if c = 0 then kreturn (Inr ()) else kthen (print [c]) (kreturn (Inl (a + 1))))"

definition print_string :: "addr \<Rightarrow> unit kern" where
  "print_string a = kloop host_char_step a"

definition CHECK_STATUS :: "nat \<Rightarrow> u32 \<Rightarrow> unit kern" where
  "CHECK_STATUS line X =
     kwhen (X \<noteq> STATUS_SUCCESS)
       (kthen (print (map of_char ''Function returned status '' @ signed_decimal (sint X)
          @ map of_char '', line '' @ decimal line @ [10]))
       (khalt (Exit 1)))"

section \<open>Objects of type foo\<close>

definition InitializeFoo :: "(u32 \<times> addr) kern" where
  "InitializeFoo = ObCreateObjectType 0x666F6F \<lparr>DumpMethod = DumpFooMethod, DeleteMethod = DeleteFooMethod\<rparr>"

definition CreateFoo :: "addr \<Rightarrow> u32 \<Rightarrow> (u32 \<times> u32) kern" where
  "CreateFoo fooType v =
     kbind (ObCreateObject fooType 0 4) (\<lambda>(status, foo).
     if status = STATUS_SUCCESS then
       kthen (kmodify (\<lambda>s. s\<lparr>foos := (foos s)(foo \<mapsto> v)\<rparr>))
       (kbind (ObOpenObjectByPointer foo OBJ_INHERIT fooType) (\<lambda>(status, Handle).
        kthen (ObDereferenceObject foo)
        (kreturn (status, Handle))))
     else kreturn (status, 0))"

definition GetFooValue :: "addr \<Rightarrow> u32 \<Rightarrow> u32 kern" where
  "GetFooValue fooType Handle =
     kbind (ObReferenceObjectByHandle Handle fooType) (\<lambda>(status, foo).
     if status = STATUS_SUCCESS then
       kbind (deref foos foo) (\<lambda>v.
       kthen (ObDereferenceObject foo)
       (kreturn v))
     else kreturn (- 1))"

text \<open>\<open>buffer\<close> is the address of the local array of 256 characters.\<close>

definition dump_foo_step :: "image \<Rightarrow> addr \<Rightarrow> addr \<Rightarrow> (addr + unit) kern" where
  "dump_foo_step img buffer currentFoo =
     (if currentFoo = 0 then kreturn (Inr ()) else
      kthen (ObDumpObject img currentFoo buffer 256)
      (kthen (print_string buffer)
      (kthen (print [10])
      (kbind (ObGetNextObjectOfType currentFoo) (\<lambda>currentFoo. kreturn (Inl currentFoo))))))"

definition DumpFooList :: "image \<Rightarrow> addr \<Rightarrow> addr \<Rightarrow> unit kern" where
  "DumpFooList img buffer fooType =
     kbind (ObGetFirstObjectOfType fooType) (\<lambda>currentFoo.
     kthen (print (map of_char ''*** LIST OF OBJECTS OF TYPE FOO ***'' @ [10]))
     (kloop (dump_foo_step img buffer) currentFoo))"

definition create_checked :: "addr \<Rightarrow> nat \<Rightarrow> u32 \<Rightarrow> u32 kern" where
  "create_checked fooType line v =
     kbind (CreateFoo fooType v) (\<lambda>(status, Handle). kthen (CHECK_STATUS line status) (kreturn Handle))"

text \<open>The main program after the initialisation.\<close>

definition test_body :: "image \<Rightarrow> addr \<Rightarrow> addr \<Rightarrow> unit kern" where
  "test_body img buffer fooType =
     kbind (create_checked fooType 159 42) (\<lambda>handle1.
     kbind (create_checked fooType 162 1985) (\<lambda>handle2.
     kbind (create_checked fooType 165 2009) (\<lambda>handle3.
     kbind (GetFooValue fooType handle1) (\<lambda>v.
     kthen (print (map of_char ''Foo has value: '' @ signed_decimal (sint v) @ [10, 10]))
     (kthen (DumpFooList img buffer fooType)
     (kthen (kbind (ObCloseHandle handle2) (\<lambda>_. kreturn ()))
     (kthen (DumpFooList img buffer fooType)
     (kthen (kbind (ObCloseHandle handle1) (\<lambda>_. kreturn ()))
     (kthen (DumpFooList img buffer fooType)
     (kbind (create_checked fooType 180 65536) (\<lambda>handle4.
      kthen (DumpFooList img buffer fooType)
      (kbind (kget KeCurrentProcess) ObKillProcess))))))))))))"

definition test_main :: "image \<Rightarrow> addr \<Rightarrow> unit kern" where
  "test_main img buffer =
     kbind (kget KeCurrentProcess) (\<lambda>cur.
     kbind (ObInitProcess 0 cur) (\<lambda>status.
     kthen (CHECK_STATUS 153 status)
     (kbind InitializeFoo (\<lambda>(status, fooType).
      kthen (CHECK_STATUS 156 status)
      (test_body img buffer fooType)))))"

end
