(* ===== verification/ObCreate.thy ===== *)
theory ObCreate
  imports ObOps
begin

text \<open>
  Creating objects and types, \<^verbatim>\<open>base/ob/ob.c\<close>: the result of \<^verbatim>\<open>ObCreateObject\<close> and
  \<^verbatim>\<open>ObCreateObjectType\<close>, and that the object manager's invariant is kept.
\<close>

section \<open>A new object\<close>

definition fresh_header :: "addr \<Rightarrow> u32 \<Rightarrow> addr \<Rightarrow> OBJECT_HEADER" where
  "fresh_header T attr nxt = \<lparr>Magic = OBJECT_MAGIC, HandleCount = 0, PointerCount = 1, ObjAttributes = attr,
     SignalState = 0, WaitQueue = 0, ObjType = T, NextObjectOfType = nxt\<rparr>"

lemma fresh_header_fields [simp]:
  "Magic (fresh_header T attr nxt) = OBJECT_MAGIC" "HandleCount (fresh_header T attr nxt) = 0"
  "PointerCount (fresh_header T attr nxt) = 1" "ObjAttributes (fresh_header T attr nxt) = attr"
  "ObjType (fresh_header T attr nxt) = T" "NextObjectOfType (fresh_header T attr nxt) = nxt"
  "SignalState (fresh_header T attr nxt) = 0" "WaitQueue (fresh_header T attr nxt) = 0"
  by (simp_all add: fresh_header_def)

definition created_object :: "kstate \<Rightarrow> addr \<Rightarrow> OBJECT_TYPE \<Rightarrow> u32 \<Rightarrow> u32 \<Rightarrow> kstate" where
  "created_object s T t attr n = s\<lparr>freeMemPointer := ALIGN_MEMORY (freeMemPointer s + (BODY_OFFSET + n)),
     headers := (headers s)(freeMemPointer s \<mapsto> fresh_header T attr (FirstObjectOfType t)),
     otypes := (otypes s)(T \<mapsto> t\<lparr>FirstObjectOfType := freeMemPointer s\<rparr>)\<rparr>"

lemma ObCreateObject_run:
  assumes "T \<noteq> 0" and "otypes s T = Some t" and "freeMemPointer s \<noteq> 0"
  shows "ObCreateObject T attr n s = Some (Return (STATUS_SUCCESS, freeMemPointer s + BODY_OFFSET)
    (created_object s T t attr n))"
  using assms
  by (simp add: ObCreateObject_def run created_object_def fresh_header_def)

text \<open>No slot refers to memory where there is no object.\<close>

lemma no_slots: "slots_live P H \<Longrightarrow> H x = None \<Longrightarrow> x + BODY_OFFSET \<noteq> 0 \<Longrightarrow> slots P (x + BODY_OFFSET) = {}"
  by (metis body_header(1) option.distinct(1) slots_live_def)

lemma ob_lists_fresh:
  assumes ok: "ob_lists s Os" and x: "headers s x = None"
  shows "ob_lists (s\<lparr>headers := (headers s)(x \<mapsto> h)\<rparr>) Os"
  unfolding ob_lists_def
proof (intro allI impI)
  fix T t
  assume T: "T \<noteq> 0 \<and> otypes (s\<lparr>headers := (headers s)(x \<mapsto> h)\<rparr>) T = Some t"
  have ch: "chain (nextObject s) (FirstObjectOfType t) (Os T)" and m: "\<forall>y \<in> set (Os T). object_ok s T y"
    using ob_listsD [OF ok, of T t] T by auto
  have "x \<notin> set (Os T)" using m x by (auto simp: object_ok_def)
  then show "chain (nextObject (s\<lparr>headers := (headers s)(x \<mapsto> h)\<rparr>)) (FirstObjectOfType t) (Os T)
      \<and> (\<forall>y \<in> set (Os T). object_ok (s\<lparr>headers := (headers s)(x \<mapsto> h)\<rparr>) T y)"
    using ch m by (auto simp: seg_upd_other object_ok_def)
qed

lemma deletable_created:
  assumes d: "deletable s Os y h" and T: "T \<noteq> 0" "otypes s T = Some t"
    and u: "otypes u = (otypes s)(T \<mapsto> t\<lparr>FirstObjectOfType := x\<rparr>)" "foos u = foos s"
  shows "deletable u (Os(T := x # Os T)) y h"
  using assms by (auto simp: deletable_def)

lemma ob_inv_created:
  assumes inv: "ob_inv s Os" and T: "T \<noteq> 0" "otypes s T = Some t"
    and x: "freeMemPointer s \<noteq> 0" "freeMemPointer s + BODY_OFFSET \<noteq> 0" "headers s (freeMemPointer s) = None"
    and del: "TypeDelete t = NoDeleteMethod \<or> (\<exists>v. foos s (freeMemPointer s + BODY_OFFSET) = Some v)"
  shows "ob_inv (created_object s T t attr n) (Os(T := freeMemPointer s # Os T))"
proof -
  let ?x = "freeMemPointer s" and ?s = "created_object s T t attr n"
  let ?h = "fresh_header T attr (FirstObjectOfType t)" and ?t = "t\<lparr>FirstObjectOfType := freeMemPointer s\<rparr>"
  let ?Os = "Os(T := ?x # Os T)" and ?r = "s\<lparr>headers := (headers s)(freeMemPointer s \<mapsto> ?h)\<rparr>"
  note D = ob_invD [OF inv]
  have H: "headers ?s = (headers s)(?x \<mapsto> ?h)" and Y: "otypes ?s = (otypes s)(T \<mapsto> ?t)"
    and P: "procs ?s = procs s" "foos ?s = foos s" by (simp_all add: created_object_def)
  have r: "ob_lists ?r Os" by (rule ob_lists_fresh [OF D(1) x(3)])
  have nx: "nextObject ?s = nextObject ?r" by (simp add: nextObject_def H fun_eq_iff)
  have lists: "ob_lists ?s ?Os"
  proof (rule ob_lists_change [OF r, of T t])
    show "T \<noteq> 0" "otypes ?r T = Some t" "otypes ?s = (otypes ?r)(T \<mapsto> ?t)" using T by (simp_all add: Y)
    show "headers ?s y = headers ?r y" for y by (simp add: H)
    show "chain (nextObject ?s) (FirstObjectOfType ?t) (?x # Os T)"
      using ob_listsD(1) [OF r, of T t] T x by (simp add: nx)
    show "object_ok ?s T y" if "y \<in> set (?x # Os T)" for y
      using that ob_listsD(2) [OF D(1) T, of y] by (auto simp: object_ok_def H)
  qed
  have hdr: "header_ok ?s ?Os y h" if y: "headers ?s y = Some h" for y h
  proof (cases "y = ?x")
    case True
    then have "h = ?h" using y by (simp add: H)
    then show ?thesis using True x T del by (auto simp: header_ok_def deletable_def Y P)
  next
    case False
    then have "header_ok s Os y h" using D(2) [of y h] y by (simp add: H)
    then show ?thesis using deletable_created [OF _ T Y P(2)] by (auto simp: header_ok_def)
  qed
  have "counts_ok (procs ?s) (headers ?s)" "slots_live (procs ?s) (headers ?s)"
    using D(3,4) no_slots [OF D(4) x(3,2)]
    by (auto simp: P H counts_ok_def slots_live_def handle_count_def)
  then show ?thesis using lists hdr by (simp add: ob_inv_def)
qed

text \<open>An object lies inside the address space.\<close>

lemma room_body: "unat (x :: addr) + 40 \<le> 2 ^ 32 \<Longrightarrow> x + BODY_OFFSET \<noteq> 0"
proof -
  assume "unat x + 40 \<le> 2 ^ 32"
  then have "unat (x + of_nat 32) = unat x + 32" by (intro unat_add_of_nat) simp
  then show ?thesis by (auto simp: BODY_OFFSET_def)
qed

section \<open>A reference among others\<close>

text \<open>A dereference that leaves other references.\<close>

lemma ObDereferenceObject_kept:
  assumes "x \<noteq> 0" and "x + BODY_OFFSET \<noteq> 0" and "headers s x = Some h" and "Magic h = OBJECT_MAGIC"
    and "HandleCount h < PointerCount h" and "PointerCount h \<noteq> 1"
  shows "ObDereferenceObject (x + BODY_OFFSET) s
    = Some (Return () (s\<lparr>headers := (headers s)(x \<mapsto> h\<lparr>PointerCount := PointerCount h - 1\<rparr>)\<rparr>))"
proof -
  have "0 < PointerCount h" using assms(5) by (simp add: word_gt_0) auto
  moreover have "PointerCount h - 1 \<noteq> 0" using assms(6) by (simp add: diff_eq_eq)
  ultimately show ?thesis
    using assms by (simp add: ObDereferenceObject_def ASSERT_OBJECT_def run Let_def)
qed

section \<open>A new type\<close>

definition created_type :: "kstate \<Rightarrow> u32 \<Rightarrow> OBJECT_TYPE_INITIALIZER \<Rightarrow> kstate" where
  "created_type s n init = s\<lparr>freeMemPointer := ALIGN_MEMORY (freeMemPointer s + 52),
     headers := (headers s)(freeMemPointer s \<mapsto> fresh_header 0 OBJ_PERMANENT (raw_u32 s (freeMemPointer s + 28))),
     otypes := (otypes s)(freeMemPointer s + BODY_OFFSET \<mapsto> \<lparr>TypeName = n, FirstObjectOfType = 0,
       NextTypeObject = ObTypeObjectListHead s, TypeDump = DumpMethod init, TypeDelete = DeleteMethod init\<rparr>),
     ObTypeObjectListHead := freeMemPointer s + BODY_OFFSET\<rparr>"

lemma ObCreateObjectType_run:
  assumes "n \<noteq> 0" and "freeMemPointer s \<noteq> 0"
  shows "ObCreateObjectType n init s = Some (Return (STATUS_SUCCESS, freeMemPointer s + BODY_OFFSET) (created_type s n init))"
proof -
  have "raw_u32 (s\<lparr>freeMemPointer := y\<rparr>) = raw_u32 s" for y by (simp add: raw_u32_def fun_eq_iff)
  then show ?thesis
    using assms by (simp add: ObCreateObjectType_def ObCreateObject_def run created_type_def fresh_header_def
        STATUS_SUCCESS_def BODY_OFFSET_def)
qed

lemma ob_inv_created_type:
  assumes inv: "ob_inv s Os" and x: "freeMemPointer s \<noteq> 0" "freeMemPointer s + BODY_OFFSET \<noteq> 0"
    "headers s (freeMemPointer s) = None" "otypes s (freeMemPointer s + BODY_OFFSET) = None"
  shows "ob_inv (created_type s n init) (Os(freeMemPointer s + BODY_OFFSET := []))"
proof -
  let ?x = "freeMemPointer s" and ?T = "freeMemPointer s + BODY_OFFSET" and ?s = "created_type s n init"
  let ?h = "fresh_header 0 OBJ_PERMANENT (raw_u32 s (freeMemPointer s + 28))"
  let ?r = "s\<lparr>headers := (headers s)(freeMemPointer s \<mapsto> ?h)\<rparr>"
  note D = ob_invD [OF inv]
  have H: "headers ?s = (headers s)(?x \<mapsto> ?h)" and P: "procs ?s = procs s" "foos ?s = foos s"
    and Y: "T \<noteq> ?T \<Longrightarrow> otypes ?s T = otypes s T" for T
    by (simp_all add: created_type_def)
  have r: "ob_lists ?r Os" by (rule ob_lists_fresh [OF D(1) x(3)])
  have nx: "nextObject ?s = nextObject ?r" by (simp add: nextObject_def H fun_eq_iff)
  have "ob_lists ?s (Os(?T := []))"
    unfolding ob_lists_def
  proof (intro allI impI)
    fix T t
    assume t: "T \<noteq> 0 \<and> otypes ?s T = Some t"
    show "chain (nextObject ?s) (FirstObjectOfType t) ((Os(?T := [])) T)
        \<and> (\<forall>y \<in> set ((Os(?T := [])) T). object_ok ?s T y)"
    proof (cases "T = ?T")
      case True
      then show ?thesis using t by (auto simp: created_type_def)
    next
      case False
      then have "T \<noteq> 0" "otypes ?r T = Some t" using t Y [OF False] by simp_all
      from ob_listsD [OF r this] show ?thesis using False by (simp add: nx object_ok_def H)
    qed
  qed
  moreover have "header_ok ?s (Os(?T := [])) y h" if y: "headers ?s y = Some h" for y h
  proof (cases "y = ?x")
    case True
    then have "h = ?h" using y by (simp add: H)
    then show ?thesis using True x by (simp add: header_ok_def permanent_def OBJ_PERMANENT_def)
  next
    case False
    then have h: "header_ok s Os y h" using D(2) [of y h] y by (simp add: H)
    have "deletable ?s (Os(?T := [])) y h" if "deletable s Os y h"
    proof -
      have "ObjType h \<noteq> ?T" using that x(4) by (auto simp: deletable_def)
      then show ?thesis using that Y by (simp add: deletable_def P)
    qed
    then show ?thesis using h by (auto simp: header_ok_def)
  qed
  moreover have "counts_ok (procs ?s) (headers ?s)" "slots_live (procs ?s) (headers ?s)"
    using D(3,4) no_slots [OF D(4) x(3,2)]
    by (auto simp: P H counts_ok_def slots_live_def handle_count_def)
  ultimately show ?thesis by (simp add: ob_inv_def)
qed

section \<open>A new process\<close>

lemma init_handles:
  assumes "p \<noteq> 0" and "procs s p = Some pr"
  shows "returns (kfor [0 ..< n] (init_handle 0 p)) s (\<lambda>_ u. \<exists>H. u = s\<lparr>procs := (procs s)(p \<mapsto> pr\<lparr>HandleTable := H\<rparr>)\<rparr>
     \<and> (\<forall>i < n. HtObject (H i) = 0))"
proof (rule returns_kfor_rule [where I = "\<lambda>ds u. \<exists>H. u = s\<lparr>procs := (procs s)(p \<mapsto> pr\<lparr>HandleTable := H\<rparr>)\<rparr>
     \<and> (\<forall>i \<in> set ds. HtObject (H i) = 0)"])
  show "\<exists>H. s = s\<lparr>procs := (procs s)(p \<mapsto> pr\<lparr>HandleTable := H\<rparr>)\<rparr> \<and> (\<forall>i \<in> set []. HtObject (H i) = 0)"
    by (rule exI [where x = "HandleTable pr"]) (simp add: fun_upd_idem assms(2))
next
  fix ds x es t
  assume "\<exists>H. t = s\<lparr>procs := (procs s)(p \<mapsto> pr\<lparr>HandleTable := H\<rparr>)\<rparr> \<and> (\<forall>i \<in> set ds. HtObject (H i) = 0)"
  then obtain H where q: "t = s\<lparr>procs := (procs s)(p \<mapsto> pr\<lparr>HandleTable := H\<rparr>)\<rparr>" "\<forall>i \<in> set ds. HtObject (H i) = 0" by blast
  show "returns (init_handle 0 p x) t (\<lambda>_ u. \<exists>H. u = s\<lparr>procs := (procs s)(p \<mapsto> pr\<lparr>HandleTable := H\<rparr>)\<rparr>
      \<and> (\<forall>i \<in> set (ds @ [x]). HtObject (H i) = 0))"
    using assms(1) q
    by (auto simp: init_handle_def kern intro!: exI [where x = "H(x := e)" for e])
qed auto

end
