(* ===== verification/FooDump.thy ===== *)
theory FooDump
  imports Foo ObCreate RtlSpec
begin

text \<open>
  What the test program prints, \<^verbatim>\<open>base/ob/test.c\<close>: the line of one object as
  \<^verbatim>\<open>ObDumpObject\<close> writes it into the buffer, the list of all objects, and the line of a
  deleted object.
\<close>

section \<open>The host's functions\<close>

lemma write_list_run:
  "0 \<notin> span a (length xs) \<Longrightarrow> write_list a xs M = Some (Return () (poke M a xs))"
  by (induction xs arbitrary: a M) (simp_all add: run wr_def)

lemma print_run: "print xs s = Some (Return () (s\<lparr>stdout := stdout s @ xs\<rparr>))"
  by (simp add: print_def run)

lemma print_string_run:
  "str_at (mem s) a xs \<Longrightarrow> print_string a s = Some (Return () (s\<lparr>stdout := stdout s @ xs\<rparr>))"
  unfolding returns_exact print_string_def
proof (induction xs arbitrary: a s)
  case Nil
  then show ?case by (subst returns_kloop) (simp add: host_char_step_def kern)
next
  case (Cons x xs)
  then have "returns (kloop host_char_step (a + 1)) (s\<lparr>stdout := stdout s @ [x]\<rparr>)
      (\<lambda>b u. b = () \<and> u = s\<lparr>stdout := stdout s @ x # xs\<rparr>)" using Cons.IH [of "s\<lparr>stdout := stdout s @ [x]\<rparr>"] by simp
  then show ?case using Cons.prems
    by (subst returns_kloop) (simp add: host_char_step_def print_def kern)
qed

section \<open>One object\<close>

definition dump_format :: "byte list" where
  "dump_format = [82, 101, 102, 115, 58, 32, 37, 100, 32, 72, 97, 110, 100, 108, 101, 115, 58, 32, 37, 100, 32]"

definition counts_text :: "byte list" where
  "counts_text = [82, 101, 102, 115, 58, 32, 49, 32, 72, 97, 110, 100, 108, 101, 115, 58, 32, 49, 32]"

lemma dump_texts: "dump_format = map of_char ''Refs: %d Handles: %d ''" "counts_text = map of_char ''Refs: 1 Handles: 1 ''"
  by code_simp+

lemma text_lengths [simp]: "length dump_format = 21" "length counts_text = 19" "0 \<notin> set counts_text"
  by (simp_all add: dump_format_def counts_text_def)

lemma expand_dump: "expand (\<lambda>_. []) (\<lambda>_. 1) 0 dump_format = counts_text"
  by (simp add: dump_format_def counts_text_def conversion_def signed_decimal_def decimal.simps)

lemma dump_format_ok: "format_ok (\<lambda>_. []) M B (\<lambda>_. 1) 0 dump_format"
  by (simp add: dump_format_def argument_ok_def)

definition can_dump :: "image \<Rightarrow> addr \<Rightarrow> kstate \<Rightarrow> bool" where
  "can_dump img buffer s \<longleftrightarrow> str_at (mem s) (literal img ''Refs: %d Handles: %d '') dump_format
     \<and> buffer \<noteq> 0 \<and> unat buffer + 256 \<le> 2 ^ 32
     \<and> span (literal img ''Refs: %d Handles: %d '') 22 \<inter> span buffer 256 = {}"

lemma can_dumpD:
  assumes "can_dump img buffer s"
  shows "str_at (mem s) (literal img ''Refs: %d Handles: %d '') dump_format" and "buffer \<noteq> 0"
    and "unat buffer + 256 \<le> 2 ^ 32" and "0 \<notin> span buffer 256"
    and "span (literal img ''Refs: %d Handles: %d '') (Suc (length dump_format)) \<inter> span buffer 256 = {}"
  using assms by (simp_all add: can_dump_def span_nonnull del: span.simps)

lemma format_counts:
  assumes d: "can_dump img buffer s"
  shows "RtlFormatString buffer 256 (literal img ''Refs: %d Handles: %d '') (\<lambda>_. 1) (mem s)
    = Some (Return 19 (poke (mem s) buffer (counts_text @ [0])))"
proof -
  have n: "unat (256 :: u32) = 256" by simp
  note D = can_dumpD [OF d]
  have "RtlFormatString buffer 256 (literal img ''Refs: %d Handles: %d '') (\<lambda>_. 1) (mem s)
    = Some (Return (of_nat (length counts_text)) (poke (mem s) buffer (take (unat (256 :: u32) - 1) counts_text @ [0])))"
    unfolding expand_dump [symmetric]
  proof (rule RtlFormatString_expand [OF D(1) dump_format_ok])
    show "0 \<notin> span buffer (unat (256 :: u32))" using D(4) unfolding n .
    show "span (literal img ''Refs: %d Handles: %d '') (Suc (length dump_format)) \<inter> span buffer (unat (256 :: u32)) = {}"
      using D(5) unfolding n .
  qed simp
  then show ?thesis by simp
qed

definition value_text :: "u32 \<Rightarrow> byte list" where
  "value_text v = map of_char ''FOO, value: '' @ signed_decimal (sint v)"

definition foo_text :: "u32 \<Rightarrow> byte list" where
  "foo_text v = counts_text @ value_text v"

lemma value_text_small: "length (value_text v) \<le> 23" and value_text_no_0: "0 \<notin> set (value_text v)"
proof -
  have r: "- (2 ^ 31) \<le> sint v" "sint v < 2 ^ 31"
    using sint_greater_eq [of v] sint_less [of v] by simp_all
  then have "nat \<bar>sint v\<bar> < 10 ^ 10" by simp
  then have "length (decimal (nat \<bar>sint v\<bar>)) \<le> 10" by (rule length_decimal) simp
  then show "length (value_text v) \<le> 23" by (auto simp: value_text_def signed_decimal_def abs_if split: if_splits)
  have "0 \<notin> set (decimal n)" for n using decimal_digits [of 0 n] by blast
  then show "0 \<notin> set (value_text v)" by (simp add: value_text_def signed_decimal_def)
qed

text \<open>The two texts meet in the buffer.\<close>

lemma poke_behind:
  assumes "str_at M a xs" and "0 \<notin> set ys" and room: "unat a + (length xs + Suc (length ys)) \<le> 2 ^ 32"
  shows "str_at (poke M (a + of_nat (length xs)) (ys @ [0])) a (xs @ ys)"
proof -
  let ?b = "a + of_nat (length xs)" and ?N = "poke M (a + of_nat (length xs)) (ys @ [0])"
  have b: "unat ?b = unat a + length xs" by (rule unat_add_of_nat) (use room in linarith)
  have nz: "a \<noteq> 0" using assms(1) by (cases xs) auto
  have "span a (length xs) \<inter> span ?b (length (ys @ [0 :: byte])) = {}"
    by (rule span_apart) (use b room in simp_all)
  then have "bytes_at ?N a xs" using assms(1) by (simp add: bytes_at_poke_other str_at_def bytes_at_append)
  moreover have "0 \<notin> span ?b (Suc (length ys))"
    by (rule span_nonnull) (use b room nz in \<open>auto simp: unat_eq_0\<close>)
  then have "str_at ?N ?b ys" by (rule str_at_poke) (use assms(2) room in simp_all)
  then have "bytes_at ?N ?b (ys @ [0])" by (simp add: str_at_def)
  ultimately show ?thesis using assms(1,2) by (simp add: str_at_def bytes_at_append)
qed

lemma can_dump_other:
  assumes d: "can_dump img buffer s" and M: "\<And>a. a \<notin> span buffer 256 \<Longrightarrow> M a = mem s a"
  shows "can_dump img buffer (s\<lparr>mem := M\<rparr>)"
proof -
  let ?l = "literal img ''Refs: %d Handles: %d ''"
  have "bytes_at M ?l (dump_format @ [0]) = bytes_at (mem s) ?l (dump_format @ [0])"
    by (rule bytes_at_cong) (use can_dumpD(5) [OF d] M in auto)
  then show ?thesis using d by (simp add: can_dump_def str_at_def)
qed

lemma dump_memory:
  assumes d: "can_dump img buffer s" and v: "foos s obj = Some v" and obj: "obj \<noteq> 0"
    and N: "N = poke (mem s) buffer (counts_text @ [0])" "str_at N buffer counts_text"
  shows "returns (DumpFoo obj (buffer + 19) 237) (s\<lparr>mem := N\<rparr>) (\<lambda>_ u. u = s\<lparr>mem := mem u\<rparr>
     \<and> str_at (mem u) buffer (foo_text v) \<and> can_dump img buffer u)"
proof -
  let ?ys = "value_text v @ [0]"
  let ?O = "poke N (buffer + of_nat 19) ?ys"
  note D = can_dumpD [OF d]
  have len: "length ?ys \<le> 24" using value_text_small [of v] by simp
  have sub: "span (buffer + of_nat 19) (length ?ys) \<subseteq> span buffer 256"
    by (rule span_shift) (use len in linarith)
  have n: "unat (237 :: u32) = 237" by simp
  have "write_list (buffer + of_nat 19) ?ys N = Some (Return () ?O)"
    by (rule write_list_run) (use sub D(4) in blast)
  then have w: "host_snprintf (buffer + 19) 237 (value_text v) N = Some (Return () ?O)"
    using len by (simp add: host_snprintf_def)
  have "str_at ?O buffer (counts_text @ value_text v)"
    using poke_behind [OF N(2) value_text_no_0, of v] D(3) value_text_small [of v] by simp
  moreover have "can_dump img buffer (s\<lparr>mem := ?O\<rparr>)"
  proof (rule can_dump_other [OF d])
    fix a assume a: "a \<notin> span buffer 256"
    have "span buffer (length (counts_text @ [0])) \<subseteq> span buffer 256" by (rule span_mono) simp
    then show "?O a = mem s a" using a sub by (subst poke_other, blast)+ (subst N(1), subst poke_other, blast, simp)
  qed
  ultimately show ?thesis
    using v obj w by (simp add: DumpFoo_def kern value_text_def foo_text_def returns_def [of "host_snprintf _ _ _"])
qed

lemma ObDumpObject_foo:
  assumes d: "can_dump img buffer s" and obj: "obj \<noteq> 0" "OBJECT_BODY_TO_HEADER obj \<noteq> 0"
    and h: "headers s (OBJECT_BODY_TO_HEADER obj) = Some h" "Magic h = OBJECT_MAGIC"
      "PointerCount h = 1" "HandleCount h = 1" "ObjType h = T"
    and T: "T \<noteq> 0" "otypes s T = Some t" "TypeDump t = DumpFooMethod" and v: "foos s obj = Some v"
  shows "returns (ObDumpObject img obj buffer 256) s (\<lambda>_ u. u = s\<lparr>mem := mem u\<rparr>
     \<and> str_at (mem u) buffer (foo_text v) \<and> can_dump img buffer u)"
proof -
  let ?N = "poke (mem s) buffer (counts_text @ [0])"
  have N: "str_at ?N buffer counts_text"
    by (rule str_at_poke) (use span_nonnull [of buffer 20] can_dumpD(2,3) [OF d] in \<open>simp_all del: span.simps\<close>)
  have l: "RtlStringLength buffer ?N = Some (Return 19 ?N)"
    using RtlStringLength_str [OF N] by (simp add: returns_exact)
  have b: "buffer \<noteq> 0" using can_dumpD(2) [OF d] .
  have "(\<lambda>i. if i = 0 then PointerCount h else HandleCount h) = (\<lambda>_ :: nat. 1)" using h by auto
  note e = format_counts [OF d, folded this]
  show ?thesis
    using obj h T b dump_memory [OF d v obj(1) refl N] e l
    by (simp add: ObDumpObject_def ASSERT_OBJECT_def kern call_dump_def returns_def [of "RtlFormatString _ _ _ _"]
        returns_def [of "RtlStringLength _"])
qed

section \<open>The list\<close>

definition foo_object :: "kstate \<Rightarrow> addr \<Rightarrow> u32 \<Rightarrow> addr \<Rightarrow> bool" where
  "foo_object s T v x \<longleftrightarrow> x \<noteq> 0 \<and> x + BODY_OFFSET \<noteq> 0 \<and> foos s (x + BODY_OFFSET) = Some v
     \<and> (\<exists>h. headers s x = Some h \<and> Magic h = OBJECT_MAGIC \<and> PointerCount h = 1 \<and> HandleCount h = 1
          \<and> ObjAttributes h = 0 \<and> ObjType h = T)"

lemma foo_object_cong [simp]:
  "foo_object (s\<lparr>mem := M\<rparr>) = foo_object s" "foo_object (s\<lparr>stdout := out\<rparr>) = foo_object s"
  by (simp_all add: foo_object_def fun_eq_iff)

definition foo_type :: "kstate \<Rightarrow> addr \<Rightarrow> bool" where
  "foo_type s T \<longleftrightarrow> T \<noteq> 0 \<and> OBJECT_BODY_TO_HEADER T \<noteq> 0
     \<and> (\<exists>h. headers s (OBJECT_BODY_TO_HEADER T) = Some h \<and> Magic h = OBJECT_MAGIC)
     \<and> (\<exists>t. otypes s T = Some t \<and> TypeDump t = DumpFooMethod \<and> TypeDelete t = DeleteFooMethod)"

lemma foo_type_cong [simp]:
  "foo_type (s\<lparr>mem := M\<rparr>) = foo_type s" "foo_type (s\<lparr>stdout := out\<rparr>) = foo_type s"
  by (simp_all add: foo_type_def fun_eq_iff)

lemma nextObject_cong [simp]: "nextObject (s\<lparr>mem := M\<rparr>) = nextObject s"
  by (simp add: nextObject_def fun_eq_iff)

lemma can_dump_stdout [simp]: "can_dump img buffer (s\<lparr>stdout := out\<rparr>) = can_dump img buffer s"
  by (simp add: can_dump_def)

definition body :: "addr \<Rightarrow> addr" where
  "body x = (if x = 0 then 0 else x + BODY_OFFSET)"

text \<open>One round prints one object and steps to the next.\<close>

lemma dump_foo_round:
  assumes d: "can_dump img buffer s" and T: "foo_type s T" and x: "foo_object s T v x" "nextObject s x = Some y"
  shows "returns (dump_foo_step img buffer (body x)) s (\<lambda>r u. \<exists>M. r = Inl (body y)
     \<and> u = s\<lparr>mem := M, stdout := stdout s @ foo_text v @ [10]\<rparr> \<and> can_dump img buffer u)"
proof -
  obtain h where h: "x \<noteq> 0" "x + BODY_OFFSET \<noteq> 0" "foos s (x + BODY_OFFSET) = Some v" "headers s x = Some h"
    "Magic h = OBJECT_MAGIC" "PointerCount h = 1" "HandleCount h = 1" "ObjType h = T" "NextObjectOfType h = y"
    using x by (auto simp: foo_object_def nextObject_Some)
  obtain t where t: "T \<noteq> 0" "otypes s T = Some t" "TypeDump t = DumpFooMethod" using T by (auto simp: foo_type_def)
  have b: "body x \<noteq> 0" "body x = x + BODY_OFFSET" using h by (simp_all add: body_def)
  have D: "returns (ObDumpObject img (x + BODY_OFFSET) buffer 256) s (\<lambda>_ u. u = s\<lparr>mem := mem u\<rparr>
     \<and> str_at (mem u) buffer (foo_text v) \<and> can_dump img buffer u)"
    by (rule ObDumpObject_foo [OF d]) (use h t in simp_all)
  show ?thesis
    unfolding dump_foo_step_def b(2) if_not_P [OF b(1) [unfolded b(2)]]
  proof (subst returns_kthen, rule returns_mono [OF D])
    fix a :: unit and u
    assume u: "u = s\<lparr>mem := mem u\<rparr> \<and> str_at (mem u) buffer (foo_text v) \<and> can_dump img buffer u"
    then obtain M where M: "u = s\<lparr>mem := M\<rparr>" by blast
    let ?t = "u\<lparr>stdout := stdout s @ foo_text v @ [10]\<rparr>"
    have p: "print_string buffer u = Some (Return () (u\<lparr>stdout := stdout s @ foo_text v\<rparr>))"
      using print_string_run [of u buffer "foo_text v"] u by (simp add: M)
    have n: "ObGetNextObjectOfType (x + BODY_OFFSET) ?t = Some (Return (body y) ?t)"
      using h by (simp add: ObGetNextObjectOfType_def ASSERT_OBJECT_def run M body_def)
    have "returns (kthen (print_string buffer) (kthen (print [10])
        (kbind (ObGetNextObjectOfType (x + BODY_OFFSET)) (\<lambda>c. kreturn (Inl c))))) u
        (\<lambda>r v. r = Inl (body y) \<and> v = ?t)"
      using n by (simp add: returns_exact [symmetric] kthen_run(1) kbind_run(1) p print_run kprim_run)
    then show "returns (kthen (print_string buffer) (kthen (print [10])
        (kbind (ObGetNextObjectOfType (x + BODY_OFFSET)) (\<lambda>c. kreturn (Inl c))))) u
        (\<lambda>r w. \<exists>M. r = Inl (body y) \<and> w = s\<lparr>mem := M, stdout := stdout s @ foo_text v @ [10]\<rparr>
          \<and> can_dump img buffer w)"
      by (rule returns_mono) (use u M in auto)
  qed
qed

lemma dump_list_loop:
  assumes "can_dump img buffer s" and "foo_type s T" and "chain (nextObject s) a xs"
    and "list_all2 (foo_object s T) vs xs"
  shows "returns (kloop (dump_foo_step img buffer) (body a)) s (\<lambda>_ u. \<exists>M.
     u = s\<lparr>mem := M, stdout := stdout s @ concat (map (\<lambda>v. foo_text v @ [10]) vs)\<rparr> \<and> can_dump img buffer u)"
  using assms
proof (induction vs arbitrary: s a xs)
  case Nil
  then have "a = 0" by simp
  moreover have "\<exists>M. s = s\<lparr>mem := M\<rparr>" by (rule exI [where x = "mem s"]) simp
  ultimately show ?case using Nil.prems(1)
    by (subst returns_kloop) (auto simp: dump_foo_step_def body_def kern)
next
  case (Cons v vs)
  then obtain x ys where xs: "xs = x # ys" "foo_object s T v x" "list_all2 (foo_object s T) vs ys"
    by (auto simp: list_all2_Cons1)
  then obtain y where y: "x = a" "nextObject s x = Some y" "chain (nextObject s) y ys" using Cons.prems(3) by auto
  show ?case
    unfolding y(1) [symmetric] returns_kloop [of _ "body x"]
  proof (rule returns_mono [OF dump_foo_round [OF Cons.prems(1,2) xs(2) y(2)]])
    fix r u
    assume "\<exists>M. r = Inl (body y) \<and> u = s\<lparr>mem := M, stdout := stdout s @ foo_text v @ [10]\<rparr> \<and> can_dump img buffer u"
    then obtain M where r: "r = Inl (body y)" and u: "u = s\<lparr>mem := M, stdout := stdout s @ foo_text v @ [10]\<rparr>"
      and c: "can_dump img buffer u" by blast
    have "returns (kloop (dump_foo_step img buffer) (body y)) u (\<lambda>_ w. \<exists>M.
       w = u\<lparr>mem := M, stdout := stdout u @ concat (map (\<lambda>v. foo_text v @ [10]) vs)\<rparr> \<and> can_dump img buffer w)"
      by (rule Cons.IH [OF c]) (use Cons.prems(2) y(3) xs(3) in \<open>simp_all add: u\<close>)
    then show "case r of Inl z \<Rightarrow> returns (kloop (dump_foo_step img buffer) z) u (\<lambda>_ u. \<exists>M.
         u = s\<lparr>mem := M, stdout := stdout s @ concat (map (\<lambda>v. foo_text v @ [10]) (v # vs))\<rparr> \<and> can_dump img buffer u)
      | Inr b \<Rightarrow> \<exists>M. u = s\<lparr>mem := M, stdout := stdout s @ concat (map (\<lambda>v. foo_text v @ [10]) (v # vs))\<rparr> \<and> can_dump img buffer u"
      by (auto simp: r u elim!: returns_mono)
  qed
qed

definition list_text :: "u32 list \<Rightarrow> byte list" where
  "list_text vs = map of_char ''*** LIST OF OBJECTS OF TYPE FOO ***'' @ [10] @ concat (map (\<lambda>v. foo_text v @ [10]) vs)"

lemma DumpFooList_prints:
  assumes "can_dump img buffer s" and "foo_type s T" and "ob_lists s Os"
    and "list_all2 (foo_object s T) vs (Os T)"
  shows "returns (DumpFooList img buffer T) s (\<lambda>_ u. \<exists>M.
     u = s\<lparr>mem := M, stdout := stdout s @ list_text vs\<rparr> \<and> can_dump img buffer u)"
proof -
  obtain t h where t: "T \<noteq> 0" "otypes s T = Some t" "OBJECT_BODY_TO_HEADER T \<noteq> 0"
    "headers s (OBJECT_BODY_TO_HEADER T) = Some h" "Magic h = OBJECT_MAGIC" using assms(2) by (auto simp: foo_type_def)
  let ?a = "FirstObjectOfType t" and ?s = "s\<lparr>stdout := stdout s @ map of_char ''*** LIST OF OBJECTS OF TYPE FOO ***'' @ [10]\<rparr>"
  have f: "ObGetFirstObjectOfType T s = Some (Return (body ?a) s)"
    using t by (simp add: ObGetFirstObjectOfType_def ASSERT_OBJECT_def run body_def)
  have "returns (kloop (dump_foo_step img buffer) (body ?a)) ?s (\<lambda>_ u. \<exists>M.
     u = ?s\<lparr>mem := M, stdout := stdout ?s @ concat (map (\<lambda>v. foo_text v @ [10]) vs)\<rparr> \<and> can_dump img buffer u)"
    by (rule dump_list_loop) (use assms ob_listsD(1) [OF assms(3) t(1,2)] in simp_all)
  then have "returns (kloop (dump_foo_step img buffer) (body ?a)) ?s (\<lambda>_ u. \<exists>M.
     u = s\<lparr>mem := M, stdout := stdout s @ list_text vs\<rparr> \<and> can_dump img buffer u)"
    by (rule returns_mono) (auto simp: list_text_def)
  moreover have "DumpFooList img buffer T s = kloop (dump_foo_step img buffer) (body ?a) ?s"
    by (simp add: DumpFooList_def kbind_run(1) f kthen_run(1) print_run)
  ultimately show ?thesis by (simp add: returns_def)
qed

end
