(* ===== verification/FooSpec.thy ===== *)
theory FooSpec
  imports FooDump
begin

text \<open>
  The test program of the object manager, \<^verbatim>\<open>base/ob/test.c\<close>, against an abstract store: the
  objects of its type are an association list of handles and values, newest first.
\<close>

section \<open>Deleting an object\<close>

definition deleted_text :: "u32 \<Rightarrow> byte list" where
  "deleted_text v = map of_char ''FOO object with value '' @ signed_decimal (sint v) @ map of_char '' getting deleted'' @ [10]"

lemma unlink_stdout:
  assumes ok: "ob_lists s Os" and h: "headers s x = Some h" "Magic h = OBJECT_MAGIC" "ObjType h = T"
    and T: "T \<noteq> 0" "otypes s T = Some t" and x: "x \<in> set (Os T)"
  shows "returns (ObpUnlinkObjectFromTypeList x) s (\<lambda>_ u. stdout u = stdout s)"
proof -
  note ch = ob_listsD(1) [OF ok T]
  have xnz: "x \<noteq> 0" using seg_nonnull [OF ch x] .
  show ?thesis
  proof (cases "FirstObjectOfType t = x")
    case True
    then show ?thesis using h T xnz by (simp add: ObpUnlinkObjectFromTypeList_def ASSERT_OBJECT_def kern)
  next
    case False
    then have "hd0 (Os T) \<noteq> x" using chain_hd0 [OF ch] by simp
    then obtain as b bs where "Os T = as @ b # x # bs" using ob_lists_split [OF x] by blast
    then have ch': "chain (nextObject s) (FirstObjectOfType t) (as @ b # x # bs)" using ch by simp
    have "returns (kloop (unlink_object_step x) (FirstObjectOfType t)) s (\<lambda>found u.
        returns (if found then kreturn ()
          else khalt (BugCheck ''ObpUnlinkObjectFromTypeList: object was not in the list'')) u
        (\<lambda>_ u. stdout u = stdout s))"
      by (rule returns_mono [OF unlink_loop [OF ch' h(1)]]) (simp add: kern linkObject_def)
    then show ?thesis
      using h T xnz False
      by (simp add: ObpUnlinkObjectFromTypeList_def ASSERT_OBJECT_def returns_kthen returns_kbind
          returns_deref returns_kassert)
  qed
qed

lemma dereference_foo:
  assumes lists: "ob_lists s Os" and T: "foo_type s T" and v: "foos s (x + BODY_OFFSET) = Some v"
    and x: "x \<noteq> 0" "x + BODY_OFFSET \<noteq> 0" "x \<in> set (Os T)"
    and h: "headers s x = Some h" "Magic h = OBJECT_MAGIC" "PointerCount h = 1" "HandleCount h = 0"
      "ObjAttributes h = 0" "ObjType h = T"
  shows "returns (ObDereferenceObject (x + BODY_OFFSET)) s (\<lambda>_ u. stdout u = stdout s @ deleted_text v)"
proof -
  let ?h = "h\<lparr>PointerCount := PointerCount h - 1\<rparr>"
  let ?s = "s\<lparr>headers := (headers s)(x \<mapsto> ?h)\<rparr>"
  obtain t where t: "T \<noteq> 0" "otypes s T = Some t" "TypeDelete t = DeleteFooMethod" using T by (auto simp: foo_type_def)
  have ok1: "ob_lists ?s Os" by (rule ob_lists_header [OF lists h(1)]) simp_all
  have U: "returns (ObpUnlinkObjectFromTypeList x) ?s (\<lambda>_ u. ob_frame ?s u \<and> stdout u = stdout s)"
    by (rule returns_mono [OF returns_conj [OF ObpUnlinkObjectFromTypeList_lists [OF ok1, of x ?h T t]
        unlink_stdout [OF ok1, of x ?h T t]]])
       (use x h t in \<open>auto\<close>)
  have "returns (ObpUnlinkObjectFromTypeList x) ?s (\<lambda>_ u. returns
       (kwhen (ObjType h \<noteq> 0) (kbind (getT (ObjType h)) (\<lambda>t.
          kwhen (TypeDelete t \<noteq> NoDeleteMethod) (call_delete (TypeDelete t) (x + BODY_OFFSET))))) u
       (\<lambda>_ u. stdout u = stdout s @ deleted_text v))"
  proof (rule returns_mono [OF U])
    fix a :: unit and u
    assume u: "ob_frame ?s u \<and> stdout u = stdout s"
    obtain t' where t': "otypes u T = Some t'" "TypeDelete t' = DeleteFooMethod"
      using ob_frame_type [of ?s u T t] u t by auto
    have "foos u (x + BODY_OFFSET) = Some v" using ob_frame_foos [of ?s u] u v by simp
    then show "returns (kwhen (ObjType h \<noteq> 0) (kbind (getT (ObjType h)) (\<lambda>t.
          kwhen (TypeDelete t \<noteq> NoDeleteMethod) (call_delete (TypeDelete t) (x + BODY_OFFSET))))) u
       (\<lambda>_ u. stdout u = stdout s @ deleted_text v)"
      using t' t(1) h(6) x(2) u by (simp add: kern call_delete_def deleted_text_def)
  qed
  then show ?thesis
    using x h
    by (simp add: ObDereferenceObject_def ASSERT_OBJECT_def returns_kthen returns_kbind returns_kassert
        returns_deref returns_store returns_kwhen returns_MmFree Let_def)
qed

section \<open>The store\<close>

definition foo_slot :: "kstate \<Rightarrow> addr \<Rightarrow> PROCESS \<Rightarrow> nat \<times> u32 \<Rightarrow> addr \<Rightarrow> bool" where
  "foo_slot s T pr = (\<lambda>(i, v) x. foo_object s T v x \<and> i < MAX_HANDLE_COUNT \<and> HtObject (HandleTable pr i) = x + BODY_OFFSET)"

definition foo_store :: "kstate \<Rightarrow> addr \<Rightarrow> (nat \<times> u32) list \<Rightarrow> bool" where
  "foo_store s T vs \<longleftrightarrow> foo_type s T \<and> KeCurrentProcess s \<noteq> 0 \<and> (\<exists>pr Os.
     procs s (KeCurrentProcess s) = Some pr \<and> ob_inv s Os \<and> list_all2 (foo_slot s T pr) vs (Os T)
     \<and> (\<forall>i < MAX_HANDLE_COUNT. HtObject (HandleTable pr i) \<noteq> 0 \<longrightarrow> i \<in> fst ` set vs))"

definition heap_room :: "kstate \<Rightarrow> nat \<Rightarrow> bool" where
  "heap_room s k \<longleftrightarrow> freeMemPointer s \<noteq> 0 \<and> unat (freeMemPointer s) + 40 * k < 2 ^ 32
     \<and> (\<forall>a. unat (freeMemPointer s) \<le> unat a \<longrightarrow> headers s a = None)"

text \<open>The least handle that is not in use.\<close>

definition next_handle :: "(nat \<times> u32) list \<Rightarrow> nat option" where
  "next_handle vs = find (\<lambda>i. i \<notin> fst ` set vs) [0 ..< MAX_HANDLE_COUNT]"

lemma foo_object_nonnull: "foo_object s T v x \<Longrightarrow> x \<noteq> 0 \<and> x + BODY_OFFSET \<noteq> 0"
  by (simp add: foo_object_def)

lemma slots_used:
  assumes "list_all2 (foo_slot s T pr) vs xs"
    and "\<forall>i < MAX_HANDLE_COUNT. HtObject (HandleTable pr i) \<noteq> 0 \<longrightarrow> i \<in> fst ` set vs" and "i < MAX_HANDLE_COUNT"
  shows "HtObject (HandleTable pr i) = 0 \<longleftrightarrow> i \<notin> fst ` set vs"
proof -
  have "HtObject (HandleTable pr j) \<noteq> 0" if j: "(j, v) \<in> set vs" for j v
  proof -
    obtain k where k: "k < length vs" "vs ! k = (j, v)" using j unfolding in_set_conv_nth by blast
    then show ?thesis
      using list_all2_nthD [OF assms(1) k(1)] foo_object_nonnull by (auto simp: foo_slot_def)
  qed
  then show ?thesis using assms(2,3) by force
qed

lemma free_slot_next:
  assumes "list_all2 (foo_slot s T pr) vs xs"
    and "\<forall>i < MAX_HANDLE_COUNT. HtObject (HandleTable pr i) \<noteq> 0 \<longrightarrow> i \<in> fst ` set vs"
  shows "free_slot pr = next_handle vs"
  unfolding free_slot_def next_handle_def
  by (rule find_cong) (use slots_used [OF assms] in auto)

lemma next_handle_Some: "next_handle vs = Some i \<Longrightarrow> i < MAX_HANDLE_COUNT \<and> i \<notin> fst ` set vs"
  by (auto simp: next_handle_def find_Some_iff)

text \<open>Changes elsewhere keep the entries of the store.\<close>

lemma foo_slots_keep:
  assumes "list_all2 (foo_slot s T pr) vs xs"
    and "\<And>i v x. (i, v) \<in> set vs \<Longrightarrow> x \<in> set xs \<Longrightarrow> foo_slot s T pr (i, v) x \<Longrightarrow> foo_slot t T qr (i, v) x"
  shows "list_all2 (foo_slot t T qr) vs xs"
  by (rule list.rel_mono_strong [OF assms(1)]) (use assms(2) in auto)

section \<open>Creating\<close>

lemma ob_inv_foos:
  assumes "ob_inv s Os"
  shows "ob_inv (s\<lparr>foos := (foos s)(a \<mapsto> v)\<rparr>) Os"
proof -
  let ?s = "s\<lparr>foos := (foos s)(a \<mapsto> v)\<rparr>"
  note D = ob_invD [OF assms]
  have "ob_lists ?s Os" using D(1) by (simp add: ob_lists_cong [of ?s s])
  moreover have "header_ok ?s Os x h" if "headers s x = Some h" for x h
    using D(2) [OF that] by (auto simp: header_ok_def deletable_def)
  ultimately show ?thesis using assms by (simp add: ob_inv_def)
qed

text \<open>The state in which a new object of type foo has its value but no handle yet.\<close>

definition foo_created :: "kstate \<Rightarrow> addr \<Rightarrow> u32 \<Rightarrow> kstate" where
  "foo_created s T v = (let x = freeMemPointer s in
     created_object (s\<lparr>foos := (foos s)(x + BODY_OFFSET \<mapsto> v)\<rparr>) T (the (otypes s T)) 0 4)"

lemma foo_created_fields [simp]:
  "procs (foo_created s T v) = procs s" "KeCurrentProcess (foo_created s T v) = KeCurrentProcess s"
  "stdout (foo_created s T v) = stdout s" "mem (foo_created s T v) = mem s"
  "foos (foo_created s T v) = (foos s)(freeMemPointer s + BODY_OFFSET \<mapsto> v)"
  "headers (foo_created s T v) = (headers s)(freeMemPointer s
     \<mapsto> fresh_header T 0 (FirstObjectOfType (the (otypes s T))))"
  "otypes (foo_created s T v) = (otypes s)(T \<mapsto> (the (otypes s T))\<lparr>FirstObjectOfType := freeMemPointer s\<rparr>)"
  "freeMemPointer (foo_created s T v) = ALIGN_MEMORY (freeMemPointer s + 36)"
  by (simp_all add: foo_created_def created_object_def Let_def BODY_OFFSET_def)

lemma heap_roomD:
  assumes "heap_room s (Suc k)"
  shows "freeMemPointer s \<noteq> 0" and "freeMemPointer s + BODY_OFFSET \<noteq> 0" and "headers s (freeMemPointer s) = None"
  using assms room_body [of "freeMemPointer s"] by (simp_all add: heap_room_def)

lemma foo_created_room:
  assumes r: "heap_room s (Suc k)"
  shows "heap_room (foo_created s T v) k"
proof -
  let ?x = "freeMemPointer s" and ?y = "ALIGN_MEMORY (freeMemPointer s + 36)"
  have "mm_room s 36" using r by (simp add: heap_room_def mm_room_def)
  note b = MmAlloc_room [OF this]
  have b: "unat ?x + 36 \<le> unat ?y" "unat ?y \<le> unat ?x + 39" using b by simp_all
  have "headers (foo_created s T v) a = None" if "unat ?y \<le> unat a" for a
    using b(1) that r by (auto simp: heap_room_def)
  then show ?thesis using r b by (auto simp: heap_room_def)
qed

lemma foo_created_inv:
  assumes inv: "ob_inv s Os" and T: "foo_type s T" and r: "heap_room s (Suc k)"
  shows "ob_inv (foo_created s T v) (Os(T := freeMemPointer s # Os T))" and "foo_type (foo_created s T v) T"
proof -
  let ?s = "s\<lparr>foos := (foos s)(freeMemPointer s + BODY_OFFSET \<mapsto> v)\<rparr>"
  obtain t where t: "T \<noteq> 0" "otypes s T = Some t" using T by (auto simp: foo_type_def)
  note R = heap_roomD [OF r]
  have "ob_inv (created_object ?s T t 0 4) (Os(T := freeMemPointer ?s # Os T))"
    by (rule ob_inv_created [OF ob_inv_foos [OF inv]]) (use t R in simp_all)
  then show "ob_inv (foo_created s T v) (Os(T := freeMemPointer s # Os T))"
    using t by (simp add: foo_created_def Let_def)
  show "foo_type (foo_created s T v) T" using T R(3) by (auto simp: foo_type_def)
qed

text \<open>The state after the new object was opened in slot \<open>i\<close>.\<close>

definition foo_opened :: "kstate \<Rightarrow> addr \<Rightarrow> u32 \<Rightarrow> PROCESS \<Rightarrow> nat \<Rightarrow> kstate" where
  "foo_opened s T v pr i = (let x = freeMemPointer s; t = foo_created s T v in
     t\<lparr>procs := (procs s)(KeCurrentProcess s \<mapsto> set_slot i \<lparr>HtAttributes = OBJ_INHERIT, HtObject = x + BODY_OFFSET\<rparr> pr),
       headers := (headers t)(x \<mapsto> (fresh_header T 0 (FirstObjectOfType (the (otypes s T))))\<lparr>HandleCount := 1\<rparr>)\<rparr>)"

lemma foo_opened_dereference:
  assumes R: "freeMemPointer s \<noteq> 0" "freeMemPointer s + BODY_OFFSET \<noteq> 0"
    and h: "h = fresh_header T 0 (FirstObjectOfType (the (otypes s T)))"
  shows "ObDereferenceObject (freeMemPointer s + BODY_OFFSET)
      (opened (foo_created s T v) (KeCurrentProcess s) pr i OBJ_INHERIT (freeMemPointer s + BODY_OFFSET) h)
    = Some (Return () (foo_opened s T v pr i))" (is "ObDereferenceObject ?b ?o = _")
proof -
  have "ObDereferenceObject ?b ?o = Some (Return () (?o\<lparr>headers := (headers ?o)(freeMemPointer s
      \<mapsto> (add_handle h)\<lparr>PointerCount := PointerCount (add_handle h) - 1\<rparr>)\<rparr>))"
    by (rule ObDereferenceObject_kept) (use R in \<open>simp_all add: opened_def add_handle_def h\<close>)
  then show ?thesis by (simp add: foo_opened_def opened_def add_handle_def fresh_header_def h Let_def)
qed

lemma CreateFoo_run:
  assumes T: "foo_type s T" and r: "heap_room s (Suc k)" and cur: "KeCurrentProcess s \<noteq> 0"
    "procs s (KeCurrentProcess s) = Some pr"
  shows "CreateFoo T v s = (case free_slot pr of
       None \<Rightarrow> kthen (ObDereferenceObject (freeMemPointer s + BODY_OFFSET)) (kreturn (STATUS_HANDLE_LIMIT_REACHED, 0))
         (foo_created s T v)
     | Some i \<Rightarrow> Some (Return (STATUS_SUCCESS, of_nat i) (foo_opened s T v pr i)))"
proof -
  obtain t where t: "T \<noteq> 0" "otypes s T = Some t" using T by (auto simp: foo_type_def)
  note R = heap_roomD [OF r]
  let ?x = "freeMemPointer s" and ?t = "foo_created s T v"
  let ?h = "fresh_header T 0 (FirstObjectOfType t)"
  have c: "ObCreateObject T 0 4 s = Some (Return (STATUS_SUCCESS, ?x + BODY_OFFSET) (created_object s T t 0 4))"
    by (rule ObCreateObject_run) (use t R in simp_all)
  have w: "(created_object s T t 0 4)\<lparr>foos := (foos (created_object s T t 0 4))(?x + BODY_OFFSET \<mapsto> v)\<rparr> = ?t"
    using t by (simp add: foo_created_def created_object_def Let_def)
  have o: "ObOpenObjectByPointer (?x + BODY_OFFSET) OBJ_INHERIT T ?t = Some
     (case free_slot pr of
        None \<Rightarrow> Return (STATUS_HANDLE_LIMIT_REACHED, 0) ?t
      | Some i \<Rightarrow> Return (STATUS_SUCCESS, of_nat i) (opened ?t (KeCurrentProcess s) pr i OBJ_INHERIT (?x + BODY_OFFSET) ?h))"
    using ObOpenObjectByPointer_result [of ?t pr "?x + BODY_OFFSET" ?h OBJ_INHERIT T] cur R t
    by (simp split: option.split)
  have e: "CreateFoo T v s = kbind (ObOpenObjectByPointer (?x + BODY_OFFSET) OBJ_INHERIT T)
      (\<lambda>(status, Handle). kthen (ObDereferenceObject (?x + BODY_OFFSET)) (kreturn (status, Handle))) ?t"
    by (simp add: CreateFoo_def kbind_run(1) c kthen_run(1) kprim_run w)
  show ?thesis
  proof (cases "free_slot pr")
    case None
    then show ?thesis using o by (simp add: e kbind_run(1))
  next
    case (Some i)
    then show ?thesis using o t foo_opened_dereference [OF R(1,2), of ?h T v pr i]
      by (simp add: e kbind_run(1) kthen_run(1) kprim_run)
  qed
qed

lemma foo_opened_inv:
  assumes inv: "ob_inv s Os" and T: "foo_type s T" and r: "heap_room s (Suc k)"
    and pr: "procs s (KeCurrentProcess s) = Some pr" and i: "i < MAX_HANDLE_COUNT" "HtObject (HandleTable pr i) = 0"
  shows "ob_inv (foo_opened s T v pr i) (Os(T := freeMemPointer s # Os T))"
proof -
  let ?x = "freeMemPointer s" and ?t = "foo_created s T v" and ?Os = "Os(T := freeMemPointer s # Os T)"
  let ?h = "fresh_header T 0 (FirstObjectOfType (the (otypes s T)))"
  let ?o = "opened ?t (KeCurrentProcess s) pr i OBJ_INHERIT (?x + BODY_OFFSET) ?h"
  note R = heap_roomD [OF r]
  have o: "ob_inv ?o ?Os"
    by (rule ob_inv_opened [OF foo_created_inv(1) [OF inv T r]]) (use R pr i in simp_all)
  have "headers ?o ?x = Some (add_handle ?h)" by (simp add: opened_def)
  from ObDereferenceObject_inv [OF o this] show ?thesis
    using foo_opened_dereference [OF R(1,2) refl, of T v pr i]
    by (simp add: returns_def abs_deref_def last_reference_def add_handle_def)
qed

lemma foo_opened_store:
  assumes st: "foo_store s T vs" and r: "heap_room s (Suc k)"
    and pr: "procs s (KeCurrentProcess s) = Some pr" and i: "free_slot pr = Some i"
  shows "foo_store (foo_opened s T v pr i) T ((i, v) # vs) \<and> heap_room (foo_opened s T v pr i) k"
proof -
  let ?x = "freeMemPointer s" and ?u = "foo_opened s T v pr i"
  let ?pr = "set_slot i \<lparr>HtAttributes = OBJ_INHERIT, HtObject = freeMemPointer s + BODY_OFFSET\<rparr> pr"
  obtain Os where T: "foo_type s T" and inv: "ob_inv s Os" and sl: "list_all2 (foo_slot s T pr) vs (Os T)"
    and used: "\<forall>i < MAX_HANDLE_COUNT. HtObject (HandleTable pr i) \<noteq> 0 \<longrightarrow> i \<in> fst ` set vs"
    and cur: "KeCurrentProcess s \<noteq> 0"
    using st pr by (auto simp: foo_store_def)
  note R = heap_roomD [OF r]
  have i': "i < MAX_HANDLE_COUNT" "HtObject (HandleTable pr i) = 0" "i \<notin> fst ` set vs"
    using free_slot_Some [OF i] next_handle_Some [of vs i] free_slot_next [OF sl used] i by auto
  have tu: "foo_type ?u T" using foo_created_inv(2) [OF inv T r, of v] R(3) T
    by (auto simp: foo_type_def foo_opened_def Let_def)
  have "list_all2 (foo_slot ?u T ?pr) vs (Os T)"
  proof (rule foo_slots_keep [OF sl])
    fix j w y
    assume "(j, w) \<in> set vs" "foo_slot s T pr (j, w) y"
    moreover from this have "j \<noteq> i" "y \<noteq> ?x" using i'(3) R(3) by (auto simp: foo_slot_def foo_object_def image_iff)
    ultimately show "foo_slot ?u T ?pr (j, w) y"
      by (auto simp: foo_slot_def foo_object_def foo_opened_def Let_def set_slot_def)
  qed
  moreover have "foo_slot ?u T ?pr (i, v) ?x"
    using R i'(1) by (simp add: foo_slot_def foo_object_def foo_opened_def Let_def set_slot_def)
  moreover have "\<forall>j < MAX_HANDLE_COUNT. HtObject (HandleTable ?pr j) \<noteq> 0 \<longrightarrow> j \<in> fst ` set ((i, v) # vs)"
    using used by (auto simp: set_slot_def)
  moreover have "procs ?u (KeCurrentProcess ?u) = Some ?pr" "KeCurrentProcess ?u \<noteq> 0"
    using cur by (simp_all add: foo_opened_def Let_def)
  ultimately have "foo_store ?u T ((i, v) # vs)"
    unfolding foo_store_def using tu foo_opened_inv [OF inv T r pr i'(1,2), of v]
    by (intro conjI exI [where x = ?pr] exI [where x = "Os(T := ?x # Os T)"]) simp_all
  moreover have "heap_room ?u k"
    using foo_created_room [OF r, of T v] by (auto simp: heap_room_def foo_opened_def Let_def split: if_splits)
  ultimately show ?thesis by simp
qed

section \<open>Closing\<close>

lemma ob_frame_memory: "ob_frame s t \<Longrightarrow> mem t = mem s"
proof -
  assume "ob_frame s t"
  then have t: "t = s\<lparr>headers := headers t, otypes := otypes t, stdout := stdout t\<rparr>" by (simp only: ob_frame_def)
  show "mem t = mem s" by (subst t) simp
qed

lemma foo_type_frame:
  assumes "ob_frame s t" and "foo_type s T"
    and "\<forall>y. links_header (headers t y) = links_header (((headers s)(x \<mapsto> h)) y)" and "Magic h = OBJECT_MAGIC"
  shows "foo_type t T"
proof -
  let ?y = "OBJECT_BODY_TO_HEADER T"
  obtain g ty where g: "T \<noteq> 0" "?y \<noteq> 0" "headers s ?y = Some g" "Magic g = OBJECT_MAGIC"
    "otypes s T = Some ty" "TypeDump ty = DumpFooMethod" "TypeDelete ty = DeleteFooMethod"
    using assms(2) by (auto simp: foo_type_def)
  have "((headers s)(x \<mapsto> h)) ?y = Some (if ?y = x then h else g)" using g by simp
  then have "links_header (headers t ?y) = links_header (Some (if ?y = x then h else g))" using assms(3) by metis
  from links_header_Some [OF this] have H: "\<exists>g'. headers t ?y = Some g' \<and> Magic g' = OBJECT_MAGIC"
    using g(4) assms(4) by (auto split: if_splits)
  have "map_option (\<lambda>y. y\<lparr>FirstObjectOfType := 0\<rparr>) (otypes t T) = Some (ty\<lparr>FirstObjectOfType := 0\<rparr>)"
    using assms(1) g by (simp add: ob_frame_def)
  then obtain tz where z: "otypes t T = Some tz" "tz\<lparr>FirstObjectOfType := 0\<rparr> = ty\<lparr>FirstObjectOfType := 0\<rparr>" by auto
  have "f (tz\<lparr>FirstObjectOfType := 0\<rparr>) = f (ty\<lparr>FirstObjectOfType := 0\<rparr>)" for f :: "OBJECT_TYPE \<Rightarrow> 'b"
    by (simp only: z(2))
  from this [of TypeDump] this [of TypeDelete] have "TypeDump tz = TypeDump ty" "TypeDelete tz = TypeDelete ty" by simp_all
  then show ?thesis using g H z(1) by (auto simp: foo_type_def)
qed

lemma foo_object_frame:
  assumes "foos t = foos s" and "foo_object s T v y" and "y \<noteq> x"
    and "\<forall>y. links_header (headers t y) = links_header (((headers s)(x \<mapsto> h)) y)"
  shows "foo_object t T v y"
proof -
  obtain g where g: "headers s y = Some g" "Magic g = OBJECT_MAGIC" "PointerCount g = 1" "HandleCount g = 1"
    "ObjAttributes g = 0" "ObjType g = T" "y \<noteq> 0" "y + BODY_OFFSET \<noteq> 0" "foos s (y + BODY_OFFSET) = Some v"
    using assms(2) by (auto simp: foo_object_def)
  have "links_header (headers t y) = links_header (Some g)" using assms(3,4) g by simp
  from links_header_Some [OF this] show ?thesis using g assms(1) by (auto simp: foo_object_def)
qed

lemma heap_room_frame:
  assumes "freeMemPointer t = freeMemPointer s" and "heap_room s k" and "headers s x \<noteq> None"
    and "\<forall>y. links_header (headers t y) = links_header (((headers s)(x \<mapsto> h)) y)"
  shows "heap_room t k"
proof -
  have "headers t a = None" if "headers s a = None" for a
  proof -
    have "links_header (headers t a) = links_header None" using that assms(3,4) by (metis fun_upd_other)
    then show ?thesis by (simp add: links_header_def)
  qed
  then show ?thesis using assms by (simp add: heap_room_def)
qed

lemma closing_stdout:
  assumes inv: "ob_inv s Os" and T: "foo_type s T" and x: "foo_object s T v x" "x \<in> set (Os T)"
    and cur: "KeCurrentProcess s \<noteq> 0" "procs s (KeCurrentProcess s) = Some pr"
    and i: "unat hnd < MAX_HANDLE_COUNT" "HtObject (HandleTable pr (unat hnd)) = x + BODY_OFFSET"
  shows "returns (ObCloseHandle hnd) s (\<lambda>_ u. stdout u = stdout s @ deleted_text v)"
proof -
  obtain h where h: "headers s x = Some h" "Magic h = OBJECT_MAGIC" "PointerCount h = 1" "HandleCount h = 1"
    "ObjAttributes h = 0" "ObjType h = T" "x \<noteq> 0" "x + BODY_OFFSET \<noteq> 0" "foos s (x + BODY_OFFSET) = Some v"
    using x(1) by (auto simp: foo_object_def)
  let ?h = "h\<lparr>HandleCount := 0\<rparr>"
  let ?s = "s\<lparr>headers := (headers s)(x \<mapsto> ?h)\<rparr>"
  have T': "foo_type ?s T" using T h by (auto simp: foo_type_def)
  have ok: "ob_lists ?s Os" by (rule ob_lists_header [OF ob_invD(1) [OF inv] h(1)]) simp_all
  have D: "returns (ObDereferenceObject (x + BODY_OFFSET)) ?s (\<lambda>_ u. stdout u = stdout s @ deleted_text v)"
    using dereference_foo [OF ok T', of x v ?h] h x(2) by simp
  have "deletable ?s Os x ?h" using T h x(2) by (auto simp: deletable_def foo_type_def)
  then have P: "returns (ObDereferenceObject (x + BODY_OFFSET)) ?s (\<lambda>_ u. ob_frame ?s u)"
    by (intro returns_mono [OF ObDereferenceObject_lists [OF ok, of x ?h]]) (use h in simp_all)
  have "returns (ObDereferenceObject (x + BODY_OFFSET)) ?s (\<lambda>_ u.
      returns (setP (KeCurrentProcess s) (\<lambda>p. p\<lparr>HandleTable :=
        (HandleTable p)(unat hnd := (HandleTable p (unat hnd))\<lparr>HtObject := 0\<rparr>)\<rparr>)) u
      (\<lambda>_ u. stdout u = stdout s @ deleted_text v))"
  proof (rule returns_mono [OF returns_conj [OF D P]])
    fix a :: unit and u
    assume u: "stdout u = stdout s @ deleted_text v \<and> ob_frame ?s u"
    then have "procs u (KeCurrentProcess s) = Some pr" using ob_frame_procs [of ?s u] cur by simp
    then show "returns (setP (KeCurrentProcess s) (\<lambda>p. p\<lparr>HandleTable :=
        (HandleTable p)(unat hnd := (HandleTable p (unat hnd))\<lparr>HtObject := 0\<rparr>)\<rparr>)) u
      (\<lambda>_ u. stdout u = stdout s @ deleted_text v)"
      using u cur by (simp add: returns_store)
  qed
  then show ?thesis
    using i h cur
    by (simp add: ObCloseHandle_def ASSERT_OBJECT_def returns_kthen returns_kbind returns_kget returns_kassert
        returns_deref returns_store returns_kreturn Let_def)
qed

text \<open>What is left of the store when a slot of the current process and its object are gone.\<close>

lemma foo_store_closed:
  assumes T: "foo_type s T" and cur: "KeCurrentProcess s \<noteq> 0" "procs s (KeCurrentProcess s) = Some pr"
    and l: "list_all2 (foo_slot s T pr) us as" "list_all2 (foo_slot s T pr) ws bs" and x: "x \<notin> set as" "x \<notin> set bs"
    and h: "headers s x = Some h" "Magic h = OBJECT_MAGIC" and hi: "HtObject (HandleTable pr i) = x + BODY_OFFSET"
    and used: "\<forall>j < MAX_HANDLE_COUNT. HtObject (HandleTable pr j) \<noteq> 0 \<longrightarrow> j \<in> fst ` set (us @ (i, v) # ws)"
    and u: "ob_inv u Os'" "Os' T = as @ bs" "procs u = (procs s)(KeCurrentProcess s \<mapsto> closed_slot i pr)"
    and fr: "ob_frame s (u\<lparr>procs := procs s\<rparr>)"
    and H: "\<forall>y. links_header (headers u y) = links_header (((headers s)(x \<mapsto> drop_handle h)) y)"
  shows "foo_store u T (us @ ws)"
proof -
  let ?u = "u\<lparr>procs := procs s\<rparr>" and ?pr = "closed_slot i pr"
  have H': "\<forall>y. links_header (headers ?u y) = links_header (((headers s)(x \<mapsto> drop_handle h)) y)" using H by simp
  have "foo_type ?u T" by (rule foo_type_frame [OF fr T H']) (simp add: drop_handle_def h)
  then have tu: "foo_type u T" by (simp add: foo_type_def)
  have fu: "foos u = foos s" "KeCurrentProcess u = KeCurrentProcess s"
    using ob_frame_foos [OF fr] ob_frame_current [OF fr] by simp_all
  have keep: "foo_slot u T ?pr (j, w) y" if "foo_slot s T pr (j, w) y" "y \<noteq> x" for j w y
  proof -
    have "foo_object u T w y"
      by (rule foo_object_frame [OF fu(1)]) (use that H in \<open>auto simp: foo_slot_def\<close>)
    moreover have "j \<noteq> i" using that hi by (auto simp: foo_slot_def)
    ultimately show ?thesis using that by (simp add: foo_slot_def closed_slot_def set_slot_def)
  qed
  have "list_all2 (foo_slot u T ?pr) us as"
    by (rule foo_slots_keep [OF l(1)]) (use keep x(1) in blast)
  moreover have "list_all2 (foo_slot u T ?pr) ws bs"
    by (rule foo_slots_keep [OF l(2)]) (use keep x(2) in blast)
  ultimately have "list_all2 (foo_slot u T ?pr) (us @ ws) (as @ bs)" by (rule list_all2_appendI)
  moreover have "\<forall>j < MAX_HANDLE_COUNT. HtObject (HandleTable ?pr j) \<noteq> 0 \<longrightarrow> j \<in> fst ` set (us @ ws)"
    using used by (auto simp: closed_slot_def set_slot_def)
  ultimately show ?thesis
    unfolding foo_store_def using u tu cur fu(2)
    by (intro conjI exI [where x = ?pr] exI [where x = "Os'"]) simp_all
qed

text \<open>Closing a handle takes its entry out of the store.\<close>

lemma ObCloseHandle_foo:
  assumes st: "foo_store s T (us @ (i, v) # ws)" and r: "heap_room s k"
  shows "returns (ObCloseHandle (of_nat i)) s (\<lambda>st u. st = STATUS_SUCCESS \<and> foo_store u T (us @ ws) \<and> heap_room u k
     \<and> stdout u = stdout s @ deleted_text v \<and> mem u = mem s \<and> KeCurrentProcess u = KeCurrentProcess s)"
proof -
  obtain pr Os where T: "foo_type s T" and inv: "ob_inv s Os" and cur: "KeCurrentProcess s \<noteq> 0"
    "procs s (KeCurrentProcess s) = Some pr" and sl: "list_all2 (foo_slot s T pr) (us @ (i, v) # ws) (Os T)"
    and used: "\<forall>j < MAX_HANDLE_COUNT. HtObject (HandleTable pr j) \<noteq> 0 \<longrightarrow> j \<in> fst ` set (us @ (i, v) # ws)"
    using st by (auto simp: foo_store_def)
  obtain as x bs where Os: "Os T = as @ x # bs" and l: "list_all2 (foo_slot s T pr) us as"
    "foo_slot s T pr (i, v) x" "list_all2 (foo_slot s T pr) ws bs"
    using sl by (auto simp: list_all2_append1 list_all2_Cons1)
  obtain t where "T \<noteq> 0" "otypes s T = Some t" using T by (auto simp: foo_type_def)
  then have "distinct (Os T)" using chain_distinct ob_listsD(1) [OF ob_invD(1) [OF inv]] by blast
  then have x: "x \<notin> set as" "x \<notin> set bs" "remove1 x (Os T) = as @ bs" by (simp_all add: Os remove1_append)
  obtain h where h: "headers s x = Some h" "Magic h = OBJECT_MAGIC" "PointerCount h = 1" "HandleCount h = 1"
    "ObjAttributes h = 0" "ObjType h = T" and fo: "foo_object s T v x" and hi: "i < MAX_HANDLE_COUNT"
    "HtObject (HandleTable pr i) = x + BODY_OFFSET" "x + BODY_OFFSET \<noteq> 0"
    using l(2) by (auto simp: foo_slot_def foo_object_def)
  have ui: "unat (of_nat i :: u32) = i" by (rule slot_index [OF hi(1)])
  have ab: "abs_deref Os x h = Os(T := as @ bs)"
    using h x(3) by (simp add: abs_deref_def last_reference_def permanent_def)
  note A = ObCloseHandle_inv [OF inv cur, where hnd = "of_nat i" and obj = "x + BODY_OFFSET" and h = h, unfolded ui body_header(1) ab]
  note B = closing_stdout [OF inv T fo _ cur, where hnd = "of_nat i", unfolded ui]
  show ?thesis
  proof (rule returns_mono [OF returns_conj [OF A B]])
    fix st u
    assume u: "(st = STATUS_SUCCESS \<and> ob_inv u (Os(T := as @ bs))
       \<and> procs u = (procs s)(KeCurrentProcess s \<mapsto> closed_slot i pr) \<and> ob_frame s (u\<lparr>procs := procs s\<rparr>)
       \<and> (\<forall>y. links_header (headers u y) = links_header (((headers s)(x \<mapsto> drop_handle h)) y)))
       \<and> stdout u = stdout s @ deleted_text v"
    show "st = STATUS_SUCCESS \<and> foo_store u T (us @ ws) \<and> heap_room u k
     \<and> stdout u = stdout s @ deleted_text v \<and> mem u = mem s \<and> KeCurrentProcess u = KeCurrentProcess s"
    proof (intro conjI)
      have fr: "ob_frame s (u\<lparr>procs := procs s\<rparr>)"
        and H: "\<forall>y. links_header (headers u y) = links_header (((headers s)(x \<mapsto> drop_handle h)) y)"
        using u by simp_all
      show "foo_store u T (us @ ws)"
        by (rule foo_store_closed [OF T cur l(1,3) x(1,2) h(1,2) hi(2) used _ _ _ fr H, where Os' = "Os(T := as @ bs)"])
           (use u in simp_all)
      show "heap_room u k" by (rule heap_room_frame [OF _ r]) (use ob_frame_free [OF fr] H h in auto)
      show "mem u = mem s" "KeCurrentProcess u = KeCurrentProcess s"
        using ob_frame_memory [OF fr] ob_frame_current [OF fr] by simp_all
    qed (use u in simp_all)
  qed (use h hi Os in simp_all)
qed

section \<open>Creating and reading\<close>

lemma CreateFoo_full:
  assumes st: "foo_store s T vs" and r: "heap_room s (Suc k)"
    and pr: "procs s (KeCurrentProcess s) = Some pr" and full: "free_slot pr = None"
  shows "returns (CreateFoo T v) s (\<lambda>(st, hnd) u. st = STATUS_HANDLE_LIMIT_REACHED \<and> foo_store u T vs
     \<and> heap_room u k \<and> stdout u = stdout s @ deleted_text v \<and> mem u = mem s)"
proof -
  let ?x = "freeMemPointer s" and ?t = "foo_created s T v"
  let ?h = "fresh_header T 0 (FirstObjectOfType (the (otypes s T)))"
  obtain Os where T: "foo_type s T" and inv: "ob_inv s Os" and cur: "KeCurrentProcess s \<noteq> 0"
    and sl: "list_all2 (foo_slot s T pr) vs (Os T)"
    and used: "\<forall>j < MAX_HANDLE_COUNT. HtObject (HandleTable pr j) \<noteq> 0 \<longrightarrow> j \<in> fst ` set vs"
    using st pr by (auto simp: foo_store_def)
  note R = heap_roomD [OF r] and C = foo_created_inv [OF inv T r, of v]
  have lists: "ob_lists ?t (Os(T := ?x # Os T))" using ob_invD(1) [OF C(1)] .
  have A: "returns (ObDereferenceObject (?x + BODY_OFFSET)) ?t (\<lambda>_ u. ob_inv u Os \<and> ob_frame ?t u
     \<and> (\<forall>y. links_header (headers u y) = links_header (((headers ?t)(?x \<mapsto> ?h\<lparr>PointerCount := 0\<rparr>)) y)))"
    by (rule returns_mono [OF ObDereferenceObject_inv [OF C(1), of ?x ?h]])
       (simp_all add: abs_deref_def last_reference_def permanent_def)
  have B: "returns (ObDereferenceObject (?x + BODY_OFFSET)) ?t (\<lambda>_ u. stdout u = stdout s @ deleted_text v)"
    using dereference_foo [OF lists C(2), of ?x v ?h] R by simp
  have "returns (ObDereferenceObject (?x + BODY_OFFSET)) ?t (\<lambda>_ u. foo_store u T vs
     \<and> heap_room u k \<and> stdout u = stdout s @ deleted_text v \<and> mem u = mem s)"
  proof (rule returns_mono [OF returns_conj [OF A B]])
    fix a :: unit and u
    assume u: "(ob_inv u Os \<and> ob_frame ?t u
        \<and> (\<forall>y. links_header (headers u y) = links_header (((headers ?t)(?x \<mapsto> ?h\<lparr>PointerCount := 0\<rparr>)) y)))
      \<and> stdout u = stdout s @ deleted_text v"
    then have fr: "ob_frame ?t u"
      and H: "\<forall>y. links_header (headers u y) = links_header (((headers ?t)(?x \<mapsto> ?h\<lparr>PointerCount := 0\<rparr>)) y)"
      by simp_all
    have tu: "foo_type u T" by (rule foo_type_frame [OF fr C(2) H]) simp
    have fu: "foos u = foos ?t" "procs u = procs s" "KeCurrentProcess u = KeCurrentProcess s"
      "freeMemPointer u = freeMemPointer ?t"
      using ob_frame_foos [OF fr] ob_frame_procs [OF fr] ob_frame_current [OF fr] ob_frame_free [OF fr] by simp_all
    have "list_all2 (foo_slot u T pr) vs (Os T)"
    proof (rule foo_slots_keep [OF sl])
      fix j w y
      assume j: "foo_slot s T pr (j, w) y"
      then have y: "y \<noteq> ?x" using R(3) by (auto simp: foo_slot_def foo_object_def)
      then have "foo_object ?t T w y" using j R(3) by (auto simp: foo_slot_def foo_object_def)
      then have "foo_object u T w y" by (rule foo_object_frame [OF fu(1) _ y H])
      then show "foo_slot u T pr (j, w) y" using j by (simp add: foo_slot_def)
    qed
    moreover have "heap_room u k" by (rule heap_room_frame [OF fu(4) foo_created_room [OF r] _ H]) simp
    ultimately show "foo_store u T vs \<and> heap_room u k \<and> stdout u = stdout s @ deleted_text v \<and> mem u = mem s"
      using u tu fu used pr cur ob_frame_memory [OF fr] by (auto simp: foo_store_def)
  qed
  then have "returns (kthen (ObDereferenceObject (?x + BODY_OFFSET)) (kreturn (STATUS_HANDLE_LIMIT_REACHED, 0))) ?t
     (\<lambda>(st, hnd) u. st = STATUS_HANDLE_LIMIT_REACHED \<and> foo_store u T vs
       \<and> heap_room u k \<and> stdout u = stdout s @ deleted_text v \<and> mem u = mem s)" by (simp add: kern)
  then show ?thesis using CreateFoo_run [OF T r cur pr, of v] full by (simp add: returns_def)
qed

lemma CreateFoo_store:
  assumes st: "foo_store s T vs" and r: "heap_room s (Suc k)"
  shows "returns (CreateFoo T v) s (\<lambda>(st, hnd) u. heap_room u k \<and> mem u = mem s \<and>
     (case next_handle vs of
        Some i \<Rightarrow> st = STATUS_SUCCESS \<and> hnd = of_nat i \<and> foo_store u T ((i, v) # vs) \<and> stdout u = stdout s
      | None \<Rightarrow> st = STATUS_HANDLE_LIMIT_REACHED \<and> foo_store u T vs \<and> stdout u = stdout s @ deleted_text v))"
proof -
  obtain pr Os where T: "foo_type s T" and cur: "KeCurrentProcess s \<noteq> 0" and pr: "procs s (KeCurrentProcess s) = Some pr"
    and sl: "list_all2 (foo_slot s T pr) vs (Os T)"
    and used: "\<forall>j < MAX_HANDLE_COUNT. HtObject (HandleTable pr j) \<noteq> 0 \<longrightarrow> j \<in> fst ` set vs"
    using st by (auto simp: foo_store_def)
  note n = free_slot_next [OF sl used]
  show ?thesis
  proof (cases "next_handle vs")
    case None
    then show ?thesis
      by (intro returns_mono [OF CreateFoo_full [OF st r pr, of v]]) (auto simp: n)
  next
    case (Some i)
    have "CreateFoo T v s = Some (Return (STATUS_SUCCESS, of_nat i) (foo_opened s T v pr i))"
      using CreateFoo_run [OF T r cur pr, of v] Some n by simp
    moreover have "stdout (foo_opened s T v pr i) = stdout s" "mem (foo_opened s T v pr i) = mem s"
      by (simp_all add: foo_opened_def Let_def)
    ultimately show ?thesis using foo_opened_store [OF st r pr, of i v] Some n by (simp add: returns_def)
  qed
qed

lemma GetFooValue_run:
  assumes st: "foo_store s T vs" and i: "(i, v) \<in> set vs"
  shows "GetFooValue T (of_nat i) s = Some (Return v s)"
proof -
  obtain pr Os where T: "foo_type s T" and cur: "KeCurrentProcess s \<noteq> 0" and pr: "procs s (KeCurrentProcess s) = Some pr"
    and sl: "list_all2 (foo_slot s T pr) vs (Os T)"
    using st by (auto simp: foo_store_def)
  obtain x where "foo_slot s T pr (i, v) x" using i sl by (metis in_set_conv_nth list_all2_nthD)
  then obtain h where h: "headers s x = Some h" "Magic h = OBJECT_MAGIC" "PointerCount h = 1" "HandleCount h = 1"
    "ObjAttributes h = 0" "ObjType h = T" "x \<noteq> 0" "x + BODY_OFFSET \<noteq> 0" "foos s (x + BODY_OFFSET) = Some v"
    and hi: "i < MAX_HANDLE_COUNT" "HtObject (HandleTable pr i) = x + BODY_OFFSET"
    by (auto simp: foo_slot_def foo_object_def)
  have ui: "unat (of_nat i :: u32) = i" by (rule slot_index [OF hi(1)])
  let ?r = "referenced s x h"
  have R: "ObReferenceObjectByHandle (of_nat i) T s = Some (Return (STATUS_SUCCESS, x + BODY_OFFSET) ?r)"
    using ObReferenceObjectByHandle_result [OF cur pr, of "of_nat i" h T] h hi by (simp add: ui)
  have "ObDereferenceObject (x + BODY_OFFSET) ?r = Some (Return () (?r\<lparr>headers := (headers ?r)(x
      \<mapsto> (h\<lparr>PointerCount := 2\<rparr>)\<lparr>PointerCount := 2 - 1\<rparr>)\<rparr>))"
    using ObDereferenceObject_kept [of x ?r "h\<lparr>PointerCount := 2\<rparr>"] h by (simp add: referenced_def)
  moreover have "h\<lparr>PointerCount := 1\<rparr> = h" using h(3) by simp
  ultimately have "ObDereferenceObject (x + BODY_OFFSET) ?r = Some (Return () s)"
    using h(1) by (simp add: referenced_def fun_upd_idem)
  moreover have "deref foos (x + BODY_OFFSET) ?r = Some (Return v ?r)"
    using h by (simp add: deref_run referenced_def)
  ultimately show ?thesis by (simp add: GetFooValue_def kbind_run(1) kthen_run(1) kprim_run R)
qed

end
