(* ===== verification/FooMain.thy ===== *)
theory FooMain
  imports FooSpec Demo
begin

text \<open>
  The main program of \<^verbatim>\<open>base/ob/test.c\<close>: everything it prints, from any state \<open>foo_start\<close> with a single
  process, no objects and room in the heap.  The heap is that of \<open>Mm\<close>, in place of the host's.
\<close>

section \<open>The operations on the store as rules\<close>

definition foo_state :: "image \<Rightarrow> addr \<Rightarrow> addr \<Rightarrow> nat \<Rightarrow> (nat \<times> u32) list \<Rightarrow> byte list \<Rightarrow> kstate \<Rightarrow> bool" where
  "foo_state img buffer T k vs out s \<longleftrightarrow>
     foo_store s T vs \<and> heap_room s k \<and> can_dump img buffer s \<and> stdout s = out"

lemma ob_inv_output [simp]:
  "ob_inv (s\<lparr>mem := M\<rparr>) Os = ob_inv s Os" "ob_inv (s\<lparr>stdout := xs\<rparr>) Os = ob_inv s Os"
  by (simp_all add: ob_inv_def ob_lists_def object_ok_def header_ok_def deletable_def)

lemma foo_store_output [simp]:
  "foo_store (s\<lparr>mem := M\<rparr>) T vs = foo_store s T vs" "foo_store (s\<lparr>stdout := xs\<rparr>) T vs = foo_store s T vs"
  "heap_room (s\<lparr>mem := M\<rparr>) k = heap_room s k" "heap_room (s\<lparr>stdout := xs\<rparr>) k = heap_room s k"
proof -
  have "foo_slot (s\<lparr>mem := M\<rparr>) T pr = foo_slot s T pr" "foo_slot (s\<lparr>stdout := xs\<rparr>) T pr = foo_slot s T pr" for pr
    by (simp_all add: foo_slot_def fun_eq_iff)
  then show "foo_store (s\<lparr>mem := M\<rparr>) T vs = foo_store s T vs" "foo_store (s\<lparr>stdout := xs\<rparr>) T vs = foo_store s T vs"
    by (simp_all add: foo_store_def)
qed (simp_all add: heap_room_def)

lemma can_dump_mem: "mem u = mem s \<Longrightarrow> can_dump img buffer u = can_dump img buffer s"
  by (simp add: can_dump_def)

lemma create_rule:
  assumes "foo_state img buffer T (Suc k) vs out s" and "next_handle vs = Some i"
    and "\<And>u. foo_state img buffer T k ((i, v) # vs) out u \<Longrightarrow> returns (f (of_nat i)) u Q"
  shows "returns (kbind (create_checked T line v) f) s Q"
proof -
  have st: "foo_store s T vs" "heap_room s (Suc k)" using assms(1) by (simp_all add: foo_state_def)
  have "returns (create_checked T line v) s (\<lambda>h u. h = of_nat i \<and> foo_state img buffer T k ((i, v) # vs) out u)"
    unfolding create_checked_def returns_kbind
  proof (rule returns_mono [OF CreateFoo_store [OF st, of v]])
    fix r u
    assume "(\<lambda>(st, hnd) u. heap_room u k \<and> mem u = mem s \<and>
     (case next_handle vs of
        Some i \<Rightarrow> st = STATUS_SUCCESS \<and> hnd = of_nat i \<and> foo_store u T ((i, v) # vs) \<and> stdout u = stdout s
      | None \<Rightarrow> st = STATUS_HANDLE_LIMIT_REACHED \<and> foo_store u T vs \<and> stdout u = stdout s @ deleted_text v)) r u"
    then show "returns (case r of (status, Handle) \<Rightarrow> kthen (CHECK_STATUS line status) (kreturn Handle)) u
        (\<lambda>h u. h = of_nat i \<and> foo_state img buffer T k ((i, v) # vs) out u)"
      using assms(1,2) can_dump_mem [of u s]
      by (cases r) (simp add: CHECK_STATUS_def kern foo_state_def)
  qed
  then show ?thesis unfolding returns_kbind by (rule returns_mono) (use assms(3) in blast)
qed

lemma get_rule:
  assumes "foo_state img buffer T k vs out s" and "(i, v) \<in> set vs" and "returns (f v) s Q"
  shows "returns (kbind (GetFooValue T (of_nat i)) f) s Q"
  using assms GetFooValue_run [of s T vs i v] by (simp add: foo_state_def returns_def kbind_run(1))

lemma print_rule:
  assumes "foo_state img buffer T k vs out s"
    and "\<And>u. foo_state img buffer T k vs (out @ xs) u \<Longrightarrow> returns m u Q"
  shows "returns (kthen (print xs) m) s Q"
proof -
  have "foo_state img buffer T k vs (out @ xs) (s\<lparr>stdout := stdout s @ xs\<rparr>)"
    using assms(1) by (simp add: foo_state_def)
  from assms(2) [OF this] show ?thesis by (simp add: returns_def kthen_run(1) print_run)
qed

lemma dump_rule:
  assumes "foo_state img buffer T k vs out s"
    and "\<And>u. foo_state img buffer T k vs (out @ list_text (map snd vs)) u \<Longrightarrow> returns m u Q"
  shows "returns (kthen (DumpFooList img buffer T) m) s Q"
  unfolding returns_kthen
proof -
  obtain pr Os where "foo_type s T" "ob_inv s Os" "list_all2 (foo_slot s T pr) vs (Os T)" "can_dump img buffer s"
    using assms(1) by (auto simp: foo_state_def foo_store_def)
  moreover from this have "list_all2 (foo_object s T) (map snd vs) (Os T)"
    by (auto simp: list_all2_map1 foo_slot_def case_prod_unfold elim: list_all2_mono)
  ultimately have "returns (DumpFooList img buffer T) s (\<lambda>_ u. \<exists>M.
     u = s\<lparr>mem := M, stdout := stdout s @ list_text (map snd vs)\<rparr> \<and> can_dump img buffer u)"
    by (intro DumpFooList_prints [where Os = Os]) (simp_all add: ob_inv_def)
  then show "returns (DumpFooList img buffer T) s (\<lambda>_ u. returns m u Q)"
    by (rule returns_mono) (use assms in \<open>auto simp: foo_state_def\<close>)
qed

lemma close_rule:
  assumes "foo_state img buffer T k (us @ (i, v) # ws) out s"
    and "\<And>u. foo_state img buffer T k (us @ ws) (out @ deleted_text v) u \<Longrightarrow> returns m u Q"
  shows "returns (kthen (kbind (ObCloseHandle (of_nat i)) (\<lambda>_. kreturn ())) m) s Q"
  unfolding returns_kthen returns_kbind returns_kreturn
proof (rule returns_mono [OF ObCloseHandle_foo])
  show "foo_store s T (us @ (i, v) # ws)" "heap_room s k" using assms(1) by (simp_all add: foo_state_def)
next
  fix st u
  assume "st = STATUS_SUCCESS \<and> foo_store u T (us @ ws) \<and> heap_room u k
     \<and> stdout u = stdout s @ deleted_text v \<and> mem u = mem s \<and> KeCurrentProcess u = KeCurrentProcess s"
  then show "returns m u Q" using assms can_dump_mem [of u s] by (simp add: foo_state_def)
qed

text \<open>Killing the process closes its handles, lowest first.\<close>

definition kill_text :: "nat \<Rightarrow> (nat \<times> u32) list \<Rightarrow> byte list" where
  "kill_text k vs = concat (map (\<lambda>i. case map_of vs i of None \<Rightarrow> [] | Some v \<Rightarrow> deleted_text v) [k ..< MAX_HANDLE_COUNT])"

lemma foo_store_slot:
  assumes "foo_store s T vs" and "procs s (KeCurrentProcess s) = Some pr" and "i < MAX_HANDLE_COUNT"
  shows "HtObject (HandleTable pr i) = 0 \<longleftrightarrow> i \<notin> fst ` set vs"
proof -
  obtain Os where "list_all2 (foo_slot s T pr) vs (Os T)"
    "\<forall>j < MAX_HANDLE_COUNT. HtObject (HandleTable pr j) \<noteq> 0 \<longrightarrow> j \<in> fst ` set vs"
    using assms(1,2) by (auto simp: foo_store_def)
  from slots_used [OF this assms(3)] show ?thesis .
qed

lemma foo_store_distinct:
  assumes "foo_store s T vs"
  shows "distinct (map fst vs)"
proof -
  obtain pr Os where T: "foo_type s T" and inv: "ob_inv s Os" and sl: "list_all2 (foo_slot s T pr) vs (Os T)"
    using assms by (auto simp: foo_store_def)
  obtain t where "T \<noteq> 0" "otypes s T = Some t" using T by (auto simp: foo_type_def)
  then have d: "distinct (Os T)" using chain_distinct ob_listsD(1) [OF ob_invD(1) [OF inv]] by blast
  have len: "length vs = length (Os T)" using sl by (rule list_all2_lengthD)
  have slot: "HtObject (HandleTable pr (fst (vs ! k))) = Os T ! k + BODY_OFFSET" if "k < length vs" for k
    using list_all2_nthD [OF sl that] by (simp add: foo_slot_def case_prod_unfold)
  have "fst (vs ! k) \<noteq> fst (vs ! l)" if "k < length vs" "l < length vs" "k \<noteq> l" for k l
    using slot [OF that(1)] slot [OF that(2)] d that len by (metis body_inject nth_eq_iff_index_eq)
  then show ?thesis by (simp add: distinct_conv_nth)
qed

lemma kill_text_step:
  assumes "n < MAX_HANDLE_COUNT"
  shows "n \<notin> fst ` set vs \<Longrightarrow> kill_text n vs = kill_text (Suc n) vs"
    and "distinct (map fst (us @ (n, v) # ws)) \<Longrightarrow>
      kill_text n (us @ (n, v) # ws) = deleted_text v @ kill_text (Suc n) (us @ ws)"
proof -
  have u: "[n ..< MAX_HANDLE_COUNT] = n # [Suc n ..< MAX_HANDLE_COUNT]" using assms by (rule upt_from)
  show "kill_text n vs = kill_text (Suc n) vs" if "n \<notin> fst ` set vs"
    using that map_of_eq_None_iff [of vs n] by (simp add: kill_text_def u)
  assume d: "distinct (map fst (us @ (n, v) # ws))"
  then have "map_of us n = None" by (simp add: map_of_eq_None_iff)
  then have n: "map_of (us @ (n, v) # ws) n = Some v" by (simp add: map_add_def)
  have "map_of (us @ (n, v) # ws) i = map_of (us @ ws) i" if "i \<noteq> n" for i
    using that by (simp add: map_add_def split: option.split)
  then have m: "map (\<lambda>i. case map_of (us @ (n, v) # ws) i of None \<Rightarrow> [] | Some v \<Rightarrow> deleted_text v) [Suc n ..< MAX_HANDLE_COUNT]
      = map (\<lambda>i. case map_of (us @ ws) i of None \<Rightarrow> [] | Some v \<Rightarrow> deleted_text v) [Suc n ..< MAX_HANDLE_COUNT]"
    by (intro map_cong) auto
  show "kill_text n (us @ (n, v) # ws) = deleted_text v @ kill_text (Suc n) (us @ ws)"
    unfolding kill_text_def u list.map concat.simps m n option.case ..
qed

lemma kill_slot:
  assumes st: "foo_state img buffer T k (us @ (n, v) # ws) out s"
  shows "returns (ObCloseHandle (of_nat n)) s (\<lambda>_ u. foo_state img buffer T k (us @ ws) (out @ deleted_text v) u
     \<and> KeCurrentProcess u = KeCurrentProcess s)"
proof -
  have f: "foo_store s T (us @ (n, v) # ws)" "heap_room s k" using st by (simp_all add: foo_state_def)
  show ?thesis
  proof (rule returns_mono [OF ObCloseHandle_foo [OF f]])
    fix r w
    assume "r = STATUS_SUCCESS \<and> foo_store w T (us @ ws) \<and> heap_room w k
       \<and> stdout w = stdout s @ deleted_text v \<and> mem w = mem s \<and> KeCurrentProcess w = KeCurrentProcess s"
    then show "foo_state img buffer T k (us @ ws) (out @ deleted_text v) w \<and> KeCurrentProcess w = KeCurrentProcess s"
      using st can_dump_mem [of w s] by (simp add: foo_state_def)
  qed
qed

lemma kill_slots_left:
  assumes "distinct (map fst (us @ (n, v) # ws))" and "\<forall>i \<in> fst ` set (us @ (n, v) # ws). n \<le> i"
  shows "\<forall>i \<in> fst ` set (us @ ws). Suc n \<le> i"
proof -
  have "n \<notin> fst ` set (us @ ws)" using assms(1) by auto
  moreover have "\<forall>i \<in> fst ` set (us @ ws). n \<le> i" using assms(2) by auto
  ultimately show ?thesis by (metis Suc_leI le_neq_implies_less)
qed

lemma kill_loop:
  assumes "foo_state img buffer T k vs out s" and "cur = KeCurrentProcess s" and "n \<le> MAX_HANDLE_COUNT"
    and "\<forall>i \<in> fst ` set vs. n \<le> i"
  shows "returns (kfor [n ..< MAX_HANDLE_COUNT] (\<lambda>i. kbind (getP cur) (\<lambda>p.
        kwhen (HtObject (HandleTable p i) \<noteq> 0) (kthen (ObCloseHandle (of_nat i)) (kreturn ()))))) s
     (\<lambda>_ u. foo_state img buffer T k [] (out @ kill_text n vs) u)"
  using assms
proof (induction "MAX_HANDLE_COUNT - n" arbitrary: n vs out s)
  case 0
  have "vs = []"
  proof (rule ccontr)
    assume "vs \<noteq> []"
    then obtain i v where iv: "(i, v) \<in> set vs" by (cases vs) auto
    obtain pr Os where "list_all2 (foo_slot s T pr) vs (Os T)" using 0 by (auto simp: foo_state_def foo_store_def)
    then have "i < MAX_HANDLE_COUNT" using iv by (metis (mono_tags, lifting) foo_slot_def in_set_conv_nth list_all2_nthD case_prod_conv)
    then show False using iv 0 by force
  qed
  then show ?case using 0 by (simp add: kern kill_text_def)
next
  case (Suc d)
  let ?body = "\<lambda>i. kbind (getP cur) (\<lambda>p.
        kwhen (HtObject (HandleTable p i) \<noteq> 0) (kthen (ObCloseHandle (of_nat i)) (kreturn ())))"
  have n: "n < MAX_HANDLE_COUNT" "d = MAX_HANDLE_COUNT - Suc n" using Suc.hyps(2) by simp_all
  then have u: "[n ..< MAX_HANDLE_COUNT] = n # [Suc n ..< MAX_HANDLE_COUNT]" by (intro upt_from)
  have st: "foo_store s T vs" "heap_room s k" using Suc.prems(1) by (simp_all add: foo_state_def)
  then obtain pr where pr: "cur \<noteq> 0" "procs s cur = Some pr" using Suc.prems(2) by (auto simp: foo_store_def)
  note slot = foo_store_slot [OF st(1), folded Suc.prems(2), OF pr(2) n(1)]
  show ?case
  proof (cases "n \<in> fst ` set vs")
    case False
    then have "?body n s = Some (Return () s)" using slot pr by (simp add: run)
    moreover have "\<forall>i \<in> fst ` set vs. Suc n \<le> i" using False Suc.prems(4) by (metis le_antisym not_less_eq_eq)
    ultimately show ?thesis
      using Suc.hyps(1) [OF n(2) Suc.prems(1,2)] n kill_text_step(1) [OF n(1) False]
      by (simp add: u returns_def kthen_run(1))
  next
    case True
    then obtain us v ws where vs: "vs = us @ (n, v) # ws" by (auto simp: in_set_conv_decomp)
    have d: "distinct (map fst vs)" by (rule foo_store_distinct [OF st(1)])
    have "returns (?body n) s (\<lambda>_ u. foo_state img buffer T k (us @ ws) (out @ deleted_text v) u \<and> cur = KeCurrentProcess u)"
      using kill_slot [OF Suc.prems(1) [unfolded vs]] slot True pr Suc.prems(2)
      by (simp add: kern) (erule returns_mono, simp)
    then show ?thesis
      unfolding u returns_kfor_Cons
    proof (rule returns_mono)
      fix a :: unit and w
      assume w: "foo_state img buffer T k (us @ ws) (out @ deleted_text v) w \<and> cur = KeCurrentProcess w"
      have "\<forall>i \<in> fst ` set (us @ ws). Suc n \<le> i"
        by (rule kill_slots_left) (use d Suc.prems(4) in \<open>simp_all only: vs\<close>)
      then have "returns (kfor [Suc n ..< MAX_HANDLE_COUNT] ?body) w
          (\<lambda>_ u. foo_state img buffer T k [] ((out @ deleted_text v) @ kill_text (Suc n) (us @ ws)) u)"
        using n by (intro Suc.hyps(1) [OF n(2) conjunct1 [OF w] conjunct2 [OF w]]) simp_all
      then show "returns (kfor [Suc n ..< MAX_HANDLE_COUNT] ?body) w
          (\<lambda>_ u. foo_state img buffer T k [] (out @ kill_text n vs) u)"
        using kill_text_step(2) [OF n(1)] d unfolding vs by simp
    qed
  qed
qed

section \<open>The start\<close>

text \<open>
  The first state: one process, whatever its handle table holds, no objects or types, 340 bytes of the
  allocator for one type and four objects, and a buffer and format string that do not overlap.
\<close>

definition foo_start :: "image \<Rightarrow> addr \<Rightarrow> kstate \<Rightarrow> bool" where
  "foo_start img buffer s \<longleftrightarrow> headers s = Map.empty \<and> otypes s = Map.empty \<and> KeCurrentProcess s \<noteq> 0
     \<and> (\<exists>pr. procs s = [KeCurrentProcess s \<mapsto> pr]) \<and> freeMemPointer s \<noteq> 0
     \<and> unat (freeMemPointer s) + 340 < 2 ^ 32 \<and> can_dump img buffer s"

lemma ObInitProcess_start:
  assumes "foo_start img buffer s"
  shows "returns (ObInitProcess 0 (KeCurrentProcess s)) s (\<lambda>st u. st = STATUS_SUCCESS \<and> foo_start img buffer u
     \<and> stdout u = stdout s \<and> KeCurrentProcess u = KeCurrentProcess s
     \<and> (\<forall>pr. procs u (KeCurrentProcess u) = Some pr \<longrightarrow> (\<forall>i < MAX_HANDLE_COUNT. HtObject (HandleTable pr i) = 0)))"
proof -
  obtain pr where pr: "KeCurrentProcess s \<noteq> 0" "procs s (KeCurrentProcess s) = Some pr" "procs s = [KeCurrentProcess s \<mapsto> pr]"
    using assms by (auto simp: foo_start_def)
  have "returns (kfor [0 ..< MAX_HANDLE_COUNT] (init_handle 0 (KeCurrentProcess s))) s (\<lambda>_ u. foo_start img buffer u
     \<and> stdout u = stdout s \<and> KeCurrentProcess u = KeCurrentProcess s
     \<and> (\<forall>pr. procs u (KeCurrentProcess u) = Some pr \<longrightarrow> (\<forall>i < MAX_HANDLE_COUNT. HtObject (HandleTable pr i) = 0)))"
    by (rule returns_mono [OF init_handles [OF pr(1,2)]]) (use assms pr in \<open>auto simp: foo_start_def can_dump_def\<close>)
  then show ?thesis using pr(1) by (simp add: ObInitProcess_def kern)
qed

lemma InitializeFoo_start:
  assumes s: "foo_start img buffer s"
    and z: "\<forall>pr. procs s (KeCurrentProcess s) = Some pr \<longrightarrow> (\<forall>i < MAX_HANDLE_COUNT. HtObject (HandleTable pr i) = 0)"
  shows "returns InitializeFoo s (\<lambda>(st, T) u. st = STATUS_SUCCESS \<and> foo_state img buffer T 7 [] (stdout s) u)"
proof -
  let ?x = "freeMemPointer s" and ?y = "ALIGN_MEMORY (freeMemPointer s + 52)"
  let ?T = "freeMemPointer s + BODY_OFFSET"
  let ?h = "fresh_header 0 OBJ_PERMANENT (raw_u32 s (freeMemPointer s + 28))"
  let ?t = "\<lparr>TypeName = 0x666F6F, FirstObjectOfType = 0, NextTypeObject = ObTypeObjectListHead s,
    TypeDump = DumpFooMethod, TypeDelete = DeleteFooMethod\<rparr>"
  let ?u = "s\<lparr>freeMemPointer := ?y, headers := [?x \<mapsto> ?h], otypes := [?T \<mapsto> ?t], ObTypeObjectListHead := ?T\<rparr>"
  obtain pr where S: "headers s = Map.empty" "otypes s = Map.empty" "KeCurrentProcess s \<noteq> 0"
    "procs s = [KeCurrentProcess s \<mapsto> pr]" "?x \<noteq> 0" "unat ?x + 340 < 2 ^ 32" "can_dump img buffer s"
    using s by (auto simp: foo_start_def)
  have b: "?T \<noteq> 0" by (rule room_body) (use S in simp)
  have raw: "raw_u32 (s\<lparr>freeMemPointer := ?y\<rparr>) = raw_u32 s" by (simp add: raw_u32_def fun_eq_iff)
  have run: "InitializeFoo s = Some (Return (STATUS_SUCCESS, ?T) ?u)"
    using S(1,2,5) b raw
    by (simp add: InitializeFoo_def ObCreateObjectType_def ObCreateObject_def run BODY_OFFSET_def fresh_header_def STATUS_SUCCESS_def)
  have zero: "HtObject (HandleTable pr i) = 0" if "i < MAX_HANDLE_COUNT" for i using z S(4) that by simp
  have slots: "slots (procs s) obj = {}" if "obj \<noteq> 0" for obj
    using that zero by (auto simp: slots_def S(4) split: if_splits)
  have "ob_inv ?u (\<lambda>_. [])"
    using S(5) b slots
    by (auto simp: ob_inv_def ob_lists_def header_ok_def permanent_def OBJ_PERMANENT_def counts_ok_def
        slots_live_def handle_count_def split: if_splits)
  moreover have "foo_type ?u ?T" using S(5) b by (simp add: foo_type_def)
  ultimately have st: "foo_store ?u ?T []" using S(3,4) zero by (auto simp: foo_store_def)
  have "mm_room s 52" using S(6) by (simp add: mm_room_def)
  from MmAlloc_room [OF this] have y: "unat ?x + 52 \<le> unat ?y" "unat ?y \<le> unat ?x + 55" by simp_all
  then have "heap_room ?u 7" using S(6) by (auto simp: heap_room_def)
  then show ?thesis using run st S(7) by (simp add: returns_def foo_state_def can_dump_def)
qed

section \<open>The whole program\<close>

definition got_text :: "u32 \<Rightarrow> byte list" where
  "got_text v = map of_char ''Foo has value: '' @ signed_decimal (sint v) @ [10, 10]"

definition test_output :: "byte list" where
  "test_output = got_text 42
     @ list_text [2009, 1985, 42] @ deleted_text 1985
     @ list_text [2009, 42] @ deleted_text 42
     @ list_text [2009]
     @ list_text [65536, 2009] @ deleted_text 65536 @ deleted_text 2009"


lemma next_handle_at:
  assumes "i < MAX_HANDLE_COUNT" and "i \<notin> fst ` set vs" and "\<forall>j < i. j \<in> fst ` set vs"
  shows "next_handle vs = Some i"
  unfolding next_handle_def find_Some_iff
  by (rule exI [where x = i]) (use assms in auto)

lemma kill_rule:
  assumes "foo_state img buffer T k vs out s"
  shows "returns (kbind (kget KeCurrentProcess) ObKillProcess) s
     (\<lambda>_ u. foo_state img buffer T k [] (out @ kill_text 0 vs) u)"
proof -
  have "KeCurrentProcess s \<noteq> 0" using assms by (simp add: foo_state_def foo_store_def)
  then show ?thesis
    using kill_loop [OF assms refl, of 0] by (simp add: ObKillProcess_def kern)
qed

lemma killed_last: "kill_text 0 [(0, 65536), (2, 2009)] = deleted_text 65536 @ deleted_text 2009"
proof -
  have m: "0 < MAX_HANDLE_COUNT" "Suc 0 < MAX_HANDLE_COUNT" "2 < MAX_HANDLE_COUNT" by (simp_all add: MAX_HANDLE_COUNT_def)
  have "kill_text 0 [(0, 65536), (2, 2009)] = deleted_text 65536 @ kill_text (Suc 0) [(2, 2009)]"
    using kill_text_step(2) [OF m(1), of "[]"] by simp
  also have "kill_text (Suc 0) [(2, 2009)] = kill_text 2 [(2, 2009)]"
    using kill_text_step(1) [OF m(2)] by (simp add: numeral_2_eq_2)
  also have "kill_text 2 [(2, 2009)] = deleted_text 2009 @ kill_text 3 []"
    using kill_text_step(2) [OF m(3), of "[]"] by simp
  also have "kill_text 3 [] = []" by (simp add: kill_text_def concat_eq_Nil_conv)
  finally show ?thesis by simp
qed

lemma body_output:
  assumes "foo_state img buffer T (Suc (Suc (Suc (Suc k)))) [] out s"
  shows "returns (test_body img buffer T) s
     (\<lambda>_ u. stdout u = out @ test_output)"
proof -
  have fresh: "next_handle vs = Some i"
    if "i < 3" "i \<notin> fst ` set vs" "\<forall>j < i. j \<in> fst ` set vs" for i vs
    by (rule next_handle_at) (use that in \<open>simp_all add: MAX_HANDLE_COUNT_def\<close>)
  show ?thesis
    unfolding test_body_def
    apply (rule create_rule [OF assms, where i = 0], rule fresh, simp, simp, simp)
    apply (erule create_rule [where i = 1], rule fresh, simp, simp, simp)
    apply (erule create_rule [where i = 2], rule fresh, simp, simp, simp add: less_2_cases_iff)
    apply (rule get_rule [where i = 0 and v = 42], assumption, simp)
    apply (fold got_text_def, erule print_rule)
    apply (erule dump_rule)
    apply (rule close_rule [where i = 1 and us = "[(2, 2009)]" and ws = "[(0, 42)]" and v = 1985], simp)
    apply (erule dump_rule)
    apply (rule close_rule [where i = 0 and us = "[(2, 2009)]" and ws = "[]" and v = 42], simp)
    apply (erule dump_rule)
    apply (rule create_rule [where i = 0 and vs = "[(2, 2009)]"], simp, rule fresh, simp, simp, simp)
    apply (erule dump_rule)
    apply (rule returns_mono, erule kill_rule)
    apply (simp add: foo_state_def killed_last test_output_def)
    done
qed

lemma check_ok: "returns (kthen (CHECK_STATUS line STATUS_SUCCESS) m) s Q = returns m s Q"
  by (simp add: CHECK_STATUS_def kern)

lemma test_main_prints:
  assumes "foo_start img buffer s"
  shows "returns (test_main img buffer) s (\<lambda>_ u. stdout u = stdout s @ test_output)"
  unfolding test_main_def returns_kbind returns_kget
proof (rule returns_mono [OF ObInitProcess_start [OF assms]])
  fix st u
  assume u: "st = STATUS_SUCCESS \<and> foo_start img buffer u \<and> stdout u = stdout s
    \<and> KeCurrentProcess u = KeCurrentProcess s
    \<and> (\<forall>pr. procs u (KeCurrentProcess u) = Some pr \<longrightarrow> (\<forall>i < MAX_HANDLE_COUNT. HtObject (HandleTable pr i) = 0))"
  then have "returns InitializeFoo u (\<lambda>(st, T) w. returns (kthen (CHECK_STATUS 156 st) (test_body img buffer T)) w
      (\<lambda>_ w. stdout w = stdout s @ test_output))"
    using body_output [of img buffer _ 3 "stdout s"]
    by (intro returns_mono [OF InitializeFoo_start [of img buffer]]) (auto simp: check_ok)
  then show "returns (kthen (CHECK_STATUS 153 st) (kbind InitializeFoo (\<lambda>(status, fooType).
      kthen (CHECK_STATUS 156 status) (test_body img buffer fooType)))) u (\<lambda>_ u. stdout u = stdout s @ test_output)"
    using u by (simp add: check_ok returns_kbind case_prod_unfold)
qed


text \<open>A state to start in.\<close>

definition foo_image :: image where
  "foo_image = \<lparr>literal = (\<lambda>_. 0x100), code_address = (\<lambda>_. 0), commandBuffer = 0, stack_buffer = 0,
     stack_info = \<lparr>piState = ready, piRunningProgram = 0, piPID = 0, piPriority = 0, piCPUTime = 0\<rparr>\<rparr>"

definition foo_demo :: kstate where
  "foo_demo = boot_state\<lparr>mem := poke (\<lambda>_. 0) 0x100 dump_format, KeCurrentProcess := 0x1000,
     procs := [0x1000 \<mapsto> demo_process 1 running 3], freeMemPointer := 0x8000\<rparr>"

lemma foo_demo_start: "foo_start foo_image 0x200 foo_demo"
proof -
  have "span (0x100 :: addr) 22 \<inter> span 0x200 256 = {}" by (rule span_apart) simp_all
  moreover have "str_at (mem foo_demo) 0x100 dump_format"
    by (simp add: foo_demo_def dump_format_def str_at_def)
  ultimately show ?thesis
    by (simp add: foo_start_def can_dump_def foo_image_def foo_demo_def boot_state_def del: span.simps) blast
qed

lemma foo_demo_handles:
  "\<forall>pr. procs foo_demo (KeCurrentProcess foo_demo) = Some pr \<longrightarrow> (\<forall>i < MAX_HANDLE_COUNT. HtObject (HandleTable pr i) = 0)"
  by (simp add: foo_demo_def demo_process_def)

text \<open>The output as lines.\<close>

definition line :: "string \<Rightarrow> byte list" where
  "line l = map of_char l @ [10]"

definition text_lines :: "string list \<Rightarrow> byte list" where
  "text_lines ls = concat (map line ls)"

definition number :: "u32 \<Rightarrow> string" where
  "number v = map (\<lambda>b. char_of (unat b)) (signed_decimal (sint v))"

lemma number_bytes: "map of_char (number v) = signed_decimal (sint v)"
proof -
  have "of_char (char_of (unat b) :: char) = b" for b :: byte
  proof -
    have "unat b < 256" using unsigned_less [of b, where ?'a = nat] by simp
    then show ?thesis by (subst of_nat_of_char [symmetric]) (simp add: of_char_of)
  qed
  then show ?thesis by (simp add: number_def comp_def)
qed

lemma texts_lines:
  "got_text v = text_lines [''Foo has value: '' @ number v, []]"
  "deleted_text v = text_lines [''FOO object with value '' @ number v @ '' getting deleted'']"
  "list_text vs = text_lines (''*** LIST OF OBJECTS OF TYPE FOO ***'' # map (\<lambda>v. ''Refs: 1 Handles: 1 FOO, value: '' @ number v) vs)"
proof -
  have "foo_text v @ [10] = line (''Refs: 1 Handles: 1 FOO, value: '' @ number v)" for v
    by (simp add: foo_text_def value_text_def line_def number_bytes counts_text_def)
  then show "list_text vs = text_lines (''*** LIST OF OBJECTS OF TYPE FOO ***'' #
      map (\<lambda>v. ''Refs: 1 Handles: 1 FOO, value: '' @ number v) vs)"
    by (simp add: list_text_def text_lines_def line_def comp_def)
qed (simp_all add: got_text_def deleted_text_def text_lines_def line_def number_bytes)

lemma text_lines_append: "text_lines ks @ text_lines ls = text_lines (ks @ ls)"
  by (simp add: text_lines_def)

lemma decimals:
  "signed_decimal (sint (42 :: u32)) = [52, 50]" "signed_decimal (sint (1985 :: u32)) = [49, 57, 56, 53]"
  "signed_decimal (sint (2009 :: u32)) = [50, 48, 48, 57]" "signed_decimal (sint (65536 :: u32)) = [54, 53, 53, 51, 54]"
  by (simp_all add: signed_decimal_def decimal.simps)

lemma numbers:
  "number 42 = ''42''" "number 1985 = ''1985''" "number 2009 = ''2009''" "number 65536 = ''65536''"
  unfolding number_def decimals by code_simp+

lemma test_output_lines:
  "test_output = text_lines
    [''Foo has value: 42'', [],
     ''*** LIST OF OBJECTS OF TYPE FOO ***'',
     ''Refs: 1 Handles: 1 FOO, value: 2009'',
     ''Refs: 1 Handles: 1 FOO, value: 1985'',
     ''Refs: 1 Handles: 1 FOO, value: 42'',
     ''FOO object with value 1985 getting deleted'',
     ''*** LIST OF OBJECTS OF TYPE FOO ***'',
     ''Refs: 1 Handles: 1 FOO, value: 2009'',
     ''Refs: 1 Handles: 1 FOO, value: 42'',
     ''FOO object with value 42 getting deleted'',
     ''*** LIST OF OBJECTS OF TYPE FOO ***'',
     ''Refs: 1 Handles: 1 FOO, value: 2009'',
     ''*** LIST OF OBJECTS OF TYPE FOO ***'',
     ''Refs: 1 Handles: 1 FOO, value: 65536'',
     ''Refs: 1 Handles: 1 FOO, value: 2009'',
     ''FOO object with value 65536 getting deleted'',
     ''FOO object with value 2009 getting deleted'']"
  unfolding test_output_def texts_lines text_lines_append by (simp add: numbers)

text \<open>C22: The test program runs to its end, and prints the value of its first object, the list of
  the objects after each change, newest first, and a line for each object deleted: at once when its
  handle is closed, and the last two when the process's handle table is closed.  This holds from any state
  with one process, without objects or types, whatever its handle table holds, and with 340 bytes left
  to the allocator.  The allocator is that of \<open>Mm\<close>: the host's \<^verbatim>\<open>malloc\<close> and \<^verbatim>\<open>free\<close>, with which the
  program is linked, are assumed to behave like it, handing out each block once.\<close>

theorem test_main_output:
  assumes "foo_start img buffer s"
  shows "returns (test_main img buffer) s (\<lambda>_ u. stdout u = stdout s @ text_lines
      [''Foo has value: 42'', [],
       ''*** LIST OF OBJECTS OF TYPE FOO ***'',
       ''Refs: 1 Handles: 1 FOO, value: 2009'',
       ''Refs: 1 Handles: 1 FOO, value: 1985'',
       ''Refs: 1 Handles: 1 FOO, value: 42'',
       ''FOO object with value 1985 getting deleted'',
       ''*** LIST OF OBJECTS OF TYPE FOO ***'',
       ''Refs: 1 Handles: 1 FOO, value: 2009'',
       ''Refs: 1 Handles: 1 FOO, value: 42'',
       ''FOO object with value 42 getting deleted'',
       ''*** LIST OF OBJECTS OF TYPE FOO ***'',
       ''Refs: 1 Handles: 1 FOO, value: 2009'',
       ''*** LIST OF OBJECTS OF TYPE FOO ***'',
       ''Refs: 1 Handles: 1 FOO, value: 65536'',
       ''Refs: 1 Handles: 1 FOO, value: 2009'',
       ''FOO object with value 65536 getting deleted'',
       ''FOO object with value 2009 getting deleted''])"
  using test_main_prints [OF assms] unfolding test_output_lines .

lemma test_main_output_witness:
  "returns (test_main foo_image 0x200) foo_demo (\<lambda>_ u. stdout u = test_output)"
proof -
  have "stdout foo_demo = []" by (simp add: foo_demo_def boot_state_def)
  then show ?thesis using test_main_output [OF foo_demo_start, folded test_output_lines] by simp
qed

end
