(* ===== verification/FooStore.thy ===== *)
theory FooStore
  imports FooMain "HOL-Library.AList"
begin

text \<open>
  The object manager as a store: sequences of the calls of \<^verbatim>\<open>base/ob/test.c\<close> behave as the
  operations of an association list of handles and values, errors included.
\<close>

section \<open>The calls and their specification\<close>

datatype foo_call = CreateCall u32 | GetCall u32 | CloseCall u32 | DumpCall

fun do_call :: "image \<Rightarrow> addr \<Rightarrow> addr \<Rightarrow> foo_call \<Rightarrow> (u32 \<times> u32) kern" where
  "do_call img buffer T (CreateCall v) = kbind (CreateFoo T v) (\<lambda>(status, h).
     kreturn (status, if status = STATUS_SUCCESS then h else 0))"
| "do_call img buffer T (GetCall h) = kbind (GetFooValue T h) (\<lambda>v. kreturn (STATUS_SUCCESS, v))"
| "do_call img buffer T (CloseCall h) = kbind (ObCloseHandle h) (\<lambda>status. kreturn (status, 0))"
| "do_call img buffer T DumpCall = kthen (DumpFooList img buffer T) (kreturn (STATUS_SUCCESS, 0))"

primrec do_calls :: "image \<Rightarrow> addr \<Rightarrow> addr \<Rightarrow> foo_call list \<Rightarrow> (u32 \<times> u32) list kern" where
  "do_calls img buffer T [] = kreturn []"
| "do_calls img buffer T (c # cs) = kbind (do_call img buffer T c) (\<lambda>r.
     kbind (do_calls img buffer T cs) (\<lambda>rs. kreturn (r # rs)))"

fun spec_call :: "foo_call \<Rightarrow> (nat \<times> u32) list \<Rightarrow> (u32 \<times> u32) \<times> (nat \<times> u32) list \<times> byte list" where
  "spec_call (CreateCall v) vs = (case next_handle vs of
       Some i \<Rightarrow> ((STATUS_SUCCESS, of_nat i), (i, v) # vs, [])
     | None \<Rightarrow> ((STATUS_HANDLE_LIMIT_REACHED, 0), vs, deleted_text v))"
| "spec_call (GetCall h) vs = (case map_of vs (unat h) of
       Some v \<Rightarrow> ((STATUS_SUCCESS, v), vs, [])
     | None \<Rightarrow> ((STATUS_SUCCESS, - 1), vs, []))"
| "spec_call (CloseCall h) vs = (case map_of vs (unat h) of
       Some v \<Rightarrow> ((STATUS_SUCCESS, 0), AList.delete (unat h) vs, deleted_text v)
     | None \<Rightarrow> ((STATUS_INVALID_HANDLE, 0), vs, []))"
| "spec_call DumpCall vs = ((STATUS_SUCCESS, 0), vs, list_text (map snd vs))"

primrec spec_calls :: "foo_call list \<Rightarrow> (nat \<times> u32) list \<Rightarrow> (u32 \<times> u32) list \<times> (nat \<times> u32) list \<times> byte list" where
  "spec_calls [] vs = ([], vs, [])"
| "spec_calls (c # cs) vs = (let (r, ws, xs) = spec_call c vs; (rs, us, ys) = spec_calls cs ws in (r # rs, us, xs @ ys))"

section \<open>Each call\<close>

text \<open>A handle that is not in the store.\<close>

lemma slot_free:
  assumes "foo_store s T vs" and "map_of vs (unat h) = None"
  obtains pr where "KeCurrentProcess s \<noteq> 0" and "procs s (KeCurrentProcess s) = Some pr"
    and "unat h < MAX_HANDLE_COUNT \<Longrightarrow> HtObject (HandleTable pr (unat h)) = 0"
proof -
  obtain pr where pr: "KeCurrentProcess s \<noteq> 0" "procs s (KeCurrentProcess s) = Some pr"
    using assms(1) by (auto simp: foo_store_def)
  have "HtObject (HandleTable pr (unat h)) = 0" if "unat h < MAX_HANDLE_COUNT"
    using foo_store_slot [OF assms(1) pr(2) that] assms(2) by (simp add: map_of_eq_None_iff)
  then show thesis by (rule that [OF pr])
qed

lemma free_handle_runs:
  assumes "foo_store s T vs" and "map_of vs (unat h) = None"
  shows "GetFooValue T h s = Some (Return (- 1) s)" and "ObCloseHandle h s = Some (Return STATUS_INVALID_HANDLE s)"
proof -
  obtain pr where pr: "KeCurrentProcess s \<noteq> 0" "procs s (KeCurrentProcess s) = Some pr"
    and z: "unat h < MAX_HANDLE_COUNT \<Longrightarrow> HtObject (HandleTable pr (unat h)) = 0"
    using slot_free [OF assms] by blast
  have ne: "STATUS_INVALID_HANDLE \<noteq> STATUS_SUCCESS" by (simp add: STATUS_INVALID_HANDLE_def STATUS_SUCCESS_def)
  show "GetFooValue T h s = Some (Return (- 1) s)"
    using pr z ne by (cases "unat h < MAX_HANDLE_COUNT") (simp_all add: GetFooValue_def ObReferenceObjectByHandle_def run)
  show "ObCloseHandle h s = Some (Return STATUS_INVALID_HANDLE s)"
    using pr z by (cases "unat h < MAX_HANDLE_COUNT") (simp_all add: ObCloseHandle_def run)
qed

lemma handle_word: "unat (h :: u32) = i \<Longrightarrow> h = of_nat i"
  by (auto simp: of_nat_unat)

lemma store_split:
  assumes "foo_store s T vs" and "map_of vs i = Some v"
  obtains us ws where "vs = us @ (i, v) # ws" and "AList.delete i vs = us @ ws"
proof -
  obtain us ws where vs: "vs = us @ (i, v) # ws" using map_of_SomeD [OF assms(2)] by (auto simp: in_set_conv_decomp)
  have "\<forall>x \<in> set us \<union> set ws. fst x \<noteq> i" using foo_store_distinct [OF assms(1)] by (auto simp: vs)
  then have "AList.delete i vs = us @ ws"
    by (force simp: vs AList.delete_eq intro!: arg_cong2 [where f = "(@)"] filter_True)
  then show thesis using that vs by blast
qed

lemma do_call_spec:
  assumes st: "foo_state img buffer T (Suc k) vs out s"
  shows "returns (do_call img buffer T c) s (\<lambda>r u. case spec_call c vs of (r', ws, xs) \<Rightarrow>
     r = r' \<and> foo_state img buffer T k ws (out @ xs) u)"
proof -
  have fs: "foo_store s T vs" "heap_room s (Suc k)" and sk: "foo_state img buffer T k vs out s"
    using st by (auto simp: foo_state_def heap_room_def)
  have ne: "STATUS_HANDLE_LIMIT_REACHED \<noteq> STATUS_SUCCESS"
    by (simp add: STATUS_HANDLE_LIMIT_REACHED_def STATUS_SUCCESS_def)
  show ?thesis
  proof (cases c)
    case (CreateCall v)
    show ?thesis
      unfolding CreateCall do_call.simps returns_kbind
    proof (rule returns_mono [OF CreateFoo_store [OF fs, of v]])
      fix r :: "u32 \<times> u32" and u
      assume u: "(\<lambda>(st, hnd) u. heap_room u k \<and> mem u = mem s \<and>
        (case next_handle vs of
           Some i \<Rightarrow> st = STATUS_SUCCESS \<and> hnd = of_nat i \<and> foo_store u T ((i, v) # vs) \<and> stdout u = stdout s
         | None \<Rightarrow> st = STATUS_HANDLE_LIMIT_REACHED \<and> foo_store u T vs \<and> stdout u = stdout s @ deleted_text v)) r u"
      then have "can_dump img buffer u" using st can_dump_mem [of u s] by (auto simp: foo_state_def)
      then show "returns (case r of (status, h) \<Rightarrow> kreturn (status, if status = STATUS_SUCCESS then h else 0)) u
        (\<lambda>r u. case spec_call (CreateCall v) vs of (r', ws, xs) \<Rightarrow> r = r' \<and> foo_state img buffer T k ws (out @ xs) u)"
        using u st ne by (cases r) (auto simp: kern foo_state_def split: option.splits)
    qed
  next
    case (GetCall h)
    then show ?thesis
      using sk free_handle_runs(1) [OF fs(1), of h] GetFooValue_run [OF fs(1), of "unat h"]
      by (cases "map_of vs (unat h)")
        (auto simp: returns_def kbind_run(1) kprim_run handle_word [OF refl, of h, symmetric] dest: map_of_SomeD)
  next
    case (CloseCall h)
    show ?thesis
    proof (cases "map_of vs (unat h)")
      case None
      then show ?thesis using sk free_handle_runs(2) [OF fs(1) None]
        by (simp add: CloseCall returns_def kbind_run(1) kprim_run)
    next
      case (Some v)
      then obtain us ws where vs: "vs = us @ (unat h, v) # ws" "AList.delete (unat h) vs = us @ ws"
        by (rule store_split [OF fs(1)])
      show ?thesis
        unfolding CloseCall do_call.simps returns_kbind
      proof (rule returns_mono [OF ObCloseHandle_foo [OF fs(1) [unfolded vs(1)] fs(2), folded handle_word [OF refl, of h]]])
        fix st u
        assume "st = STATUS_SUCCESS \<and> foo_store u T (us @ ws) \<and> heap_room u (Suc k)
          \<and> stdout u = stdout s @ deleted_text v \<and> mem u = mem s \<and> KeCurrentProcess u = KeCurrentProcess s"
        then show "returns (kreturn (st, 0)) u
          (\<lambda>r u. case spec_call (CloseCall h) vs of (r', ws, xs) \<Rightarrow> r = r' \<and> foo_state img buffer T k ws (out @ xs) u)"
          using Some vs(2) sk can_dump_mem [of u s] by (auto simp: kern foo_state_def heap_room_def)
      qed
    qed
  next
    case DumpCall
    show ?thesis unfolding DumpCall do_call.simps by (rule dump_rule [OF sk]) (simp add: kern)
  qed
qed

text \<open>C21: Sequences of the test program's calls (create an object and its handle, read through a handle, close a
  handle, list all objects) refine the operations of an association list: same statuses, handles and values, same
  output, and the same store afterwards, for invalid handles and a full handle table too, as long as the
  allocator, here that of \<open>Mm\<close> in place of the host's, has room for the objects.\<close>

theorem foo_calls_refine:
  assumes "foo_state img buffer T (length cs + k) vs out s"
  shows "returns (do_calls img buffer T cs) s (\<lambda>rs u. case spec_calls cs vs of (rs', ws, xs) \<Rightarrow>
     rs = rs' \<and> foo_state img buffer T k ws (out @ xs) u)"
  using assms
proof (induction cs arbitrary: vs out s)
  case Nil
  then show ?case by (simp add: kern)
next
  case (Cons c cs)
  obtain r ws xs where c: "spec_call c vs = (r, ws, xs)" by (cases "spec_call c vs")
  obtain rs us ys where cs: "spec_calls cs ws = (rs, us, ys)" by (cases "spec_calls cs ws")
  have "returns (do_call img buffer T c) s (\<lambda>r' u. r' = r \<and> foo_state img buffer T (length cs + k) ws (out @ xs) u)"
    using do_call_spec [of img buffer T "length cs + k" vs out s c] Cons.prems by (simp add: c)
  then show ?case
    unfolding do_calls.simps returns_kbind
  proof (rule returns_mono)
    fix r' u
    assume u: "r' = r \<and> foo_state img buffer T (length cs + k) ws (out @ xs) u"
    show "returns (do_calls img buffer T cs) u (\<lambda>a t. returns (kreturn (r' # a)) t (\<lambda>rs u. case spec_calls (c # cs) vs of
       (rs', ws, xs) \<Rightarrow> rs = rs' \<and> foo_state img buffer T k ws (out @ xs) u))"
      by (rule returns_mono [OF Cons.IH [OF conjunct2 [OF u]]]) (use u in \<open>simp add: c cs kern\<close>)
  qed
qed

lemma foo_calls_refine_witness:
  "returns (kbind InitializeFoo (\<lambda>(st, T). do_calls foo_image 0x200 T
     [CreateCall 7, CreateCall 8, GetCall 0, CloseCall 0, GetCall 0, CreateCall 9, DumpCall])) foo_demo
   (\<lambda>rs u. rs = [(STATUS_SUCCESS, 0), (STATUS_SUCCESS, 1), (STATUS_SUCCESS, 7), (STATUS_SUCCESS, 0),
     (STATUS_SUCCESS, - 1), (STATUS_SUCCESS, 0), (STATUS_SUCCESS, 0)]
     \<and> stdout u = deleted_text 7 @ list_text [9, 8])"
proof -
  let ?cs = "[CreateCall 7, CreateCall 8, GetCall 0, CloseCall 0, GetCall 0, CreateCall 9, DumpCall]"
  have n: "next_handle [] = Some 0" "next_handle [(0, 7)] = Some 1" "next_handle [(Suc 0, 8)] = Some 0"
    by (auto intro!: next_handle_at simp: MAX_HANDLE_COUNT_def)
  have spec: "spec_calls ?cs [] = ([(STATUS_SUCCESS, 0), (STATUS_SUCCESS, 1), (STATUS_SUCCESS, 7), (STATUS_SUCCESS, 0),
     (STATUS_SUCCESS, - 1), (STATUS_SUCCESS, 0), (STATUS_SUCCESS, 0)], [(0, 9), (1, 8)], deleted_text 7 @ list_text [9, 8])"
    by (simp add: n Let_def)
  show ?thesis
    unfolding returns_kbind
  proof (rule returns_mono [OF InitializeFoo_start [OF foo_demo_start foo_demo_handles]], clarify)
    fix st T u
    assume "foo_state foo_image 0x200 T 7 [] (stdout foo_demo) u"
    then have u: "foo_state foo_image 0x200 T (length ?cs + 0) [] [] u" by (simp add: foo_demo_def boot_state_def eval_nat_numeral)
    show "returns (do_calls foo_image 0x200 T ?cs) u
       (\<lambda>rs u. rs = [(STATUS_SUCCESS, 0), (STATUS_SUCCESS, 1), (STATUS_SUCCESS, 7), (STATUS_SUCCESS, 0),
         (STATUS_SUCCESS, - 1), (STATUS_SUCCESS, 0), (STATUS_SUCCESS, 0)]
         \<and> stdout u = deleted_text 7 @ list_text [9, 8])"
      by (rule returns_mono [OF foo_calls_refine [OF u], unfolded spec]) (simp add: foo_state_def)
  qed
qed

end
