(* ===== verification/Stubs.thy ===== *)
theory Stubs
  imports Trap PsDemo
begin

text \<open>
  System calls from the program's side: the stubs of \<^verbatim>\<open>base/api/mipsel32/api.S\<close>, which load a
  number into \<open>V0\<close> and trap, against the dispatcher \<^verbatim>\<open>base/ke/syscall.c\<close>.  The arguments are in
  \<open>A0\<close> to \<open>A3\<close>, and the result is in \<open>V0\<close> when the stub returns.
\<close>

section \<open>The stubs\<close>

definition api_stubs :: "(string \<times> u32) list" where
  "api_stubs =
     [(''Sleep'', 0), (''GetProcessId'', 1), (''KillMe'', 2), (''CreateProcess'', 3), (''GetProcessPriority'', 4),
      (''CreateFile'', 5), (''WriteFile'', 6), (''ReadFile'', 7), (''KillByPID'', 8), (''ChangePriority'', 9),
      (''SendMessage'', 10), (''ReceiveFirst'', 11), (''ReceiveType'', 13), (''GetMessageSize'', 14),
      (''CopyMessage'', 15), (''DeleteMessage'', 16), (''GetProcessInfo'', 17), (''SuperviseProc'', 18),
      (''Malloc'', 19), (''Free'', 20), (''GetUsedMemSum'', 22), (''WaitForSingleObject'', 23),
      (''CopyArgs'', 25), (''CloseHandle'', 26), (''GetPid'', 27)]"

text \<open>The cause register of a \<^verbatim>\<open>syscall\<close> instruction.\<close>

definition syscall_cause :: u32 where "syscall_cause = push_bit 2 8"

definition call_stub ::
  "image \<Rightarrow> (u32 \<Rightarrow> u32 \<Rightarrow> addr \<Rightarrow> u32 \<Rightarrow> unit kern) \<Rightarrow> bool \<Rightarrow> UART \<Rightarrow> u32
     \<Rightarrow> u32 \<Rightarrow> CONTEXT \<Rightarrow> EXCEPTION_FRAME kern" where
  "call_stub img SM late uart status number x =
     HalHandleException img SM late uart
       \<lparr>frContext = x\<lparr>V0 := number\<rparr>, frCause = syscall_cause, frStatus = status\<rparr>"

section \<open>What the kernel offers\<close>

text \<open>The services with a result, by the names under which programs call them.\<close>

definition services ::
  "image \<Rightarrow> (u32 \<Rightarrow> u32 \<Rightarrow> addr \<Rightarrow> u32 \<Rightarrow> unit kern) \<Rightarrow> CONTEXT \<Rightarrow> (string \<times> u32 kern) list" where
  "services img SM x =
     [(''GetProcessId'', current_field PID),
      (''CreateProcess'', PsCreateProcessByName img (A0 x) (A1 x) (A2 x) (A3 x)),
      (''GetProcessPriority'', current_field Priority),
      (''CreateFile'', IoCreateFile (A0 x)), (''WriteFile'', IoWriteFile (A0 x) (A1 x) (A2 x)),
      (''ReadFile'', IoReadFile (A0 x) (A1 x) (A2 x)), (''KillByPID'', PsKillByPID img SM (A0 x) (A1 x)),
      (''ChangePriority'', PsChangePriority (A0 x) (A1 x)),
      (''SendMessage'', MessSendMessage (A0 x) (A1 x) (A2 x) (A3 x)),
      (''ReceiveFirst'', MessReceiveFirst (A0 x)), (''ReceiveType'', MessReceiveType (A0 x) (A1 x)),
      (''GetMessageSize'', MessGetMessageSize (A0 x)), (''CopyMessage'', MessCopyMessage (A0 x) (A1 x) (A2 x)),
      (''DeleteMessage'', MessDeleteMessage (A0 x)),
      (''GetProcessInfo'', kbind (PsGetProcessesInfo img (A0 x) (A1 x)) (store_out (A2 x))),
      (''SuperviseProc'', PsSupervise img (A0 x) (A1 x)), (''CopyArgs'', PsCopyArgs (A0 x) (A1 x)),
      (''CloseHandle'', ObCloseHandle (A0 x)), (''GetPid'', kbind (PsGetPid (A0 x)) (store_out (A1 x)))]"

lemma dispatch_number:
  "KeSystemService img SM late 1 a b c d = set_result late (current_field PID)"
  "KeSystemService img SM late 3 a b c d = set_result late (PsCreateProcessByName img a b c d)"
  "KeSystemService img SM late 4 a b c d = set_result late (current_field Priority)"
  "KeSystemService img SM late 5 a b c d = set_result late (IoCreateFile a)"
  "KeSystemService img SM late 6 a b c d = set_result late (IoWriteFile a b c)"
  "KeSystemService img SM late 7 a b c d = set_result late (IoReadFile a b c)"
  "KeSystemService img SM late 8 a b c d = set_result late (PsKillByPID img SM a b)"
  "KeSystemService img SM late 9 a b c d = set_result late (PsChangePriority a b)"
  "KeSystemService img SM late 10 a b c d = set_result late (MessSendMessage a b c d)"
  "KeSystemService img SM late 11 a b c d = set_result late (MessReceiveFirst a)"
  "KeSystemService img SM late 13 a b c d = set_result late (MessReceiveType a b)"
  "KeSystemService img SM late 14 a b c d = set_result late (MessGetMessageSize a)"
  "KeSystemService img SM late 15 a b c d = set_result late (MessCopyMessage a b c)"
  "KeSystemService img SM late 16 a b c d = set_result late (MessDeleteMessage a)"
  "KeSystemService img SM late 17 a b c d = set_result late (kbind (PsGetProcessesInfo img a b) (store_out c))"
  "KeSystemService img SM late 18 a b c d = set_result late (PsSupervise img a b)"
  "KeSystemService img SM late 25 a b c d = set_result late (PsCopyArgs a b)"
  "KeSystemService img SM late 26 a b c d = set_result late (ObCloseHandle a)"
  "KeSystemService img SM late 27 a b c d = set_result late (kbind (PsGetPid a) (store_out b))"
  by (simp_all add: KeSystemService_def)

lemma dispatch:
  assumes "(name, f) \<in> set (services img SM x)"
  shows "\<exists>n. map_of api_stubs name = Some n
    \<and> KeSystemService img SM late n (A0 x) (A1 x) (A2 x) (A3 x) = set_result late f"
proof -
  have "list_all (\<lambda>(name, f). \<exists>n. map_of api_stubs name = Some n
    \<and> KeSystemService img SM late n (A0 x) (A1 x) (A2 x) (A3 x) = set_result late f) (services img SM x)"
    unfolding services_def list.pred_inject prod.case
    by (intro conjI; simp add: api_stubs_def dispatch_number)
  then show ?thesis using assms by (auto simp: list_all_iff)
qed

text \<open>
  The process whose saved \<open>V0\<close> receives the result of a service that leads from \<open>s\<close> to \<open>t\<close>: the
  process that called, or, when \<^verbatim>\<open>KeCurrentProcess\<close> is read late, the one that runs afterwards.
\<close>

definition result_owner :: "bool \<Rightarrow> kstate \<Rightarrow> kstate \<Rightarrow> addr" where
  "result_owner late s t = (if late then KeCurrentProcess t else KeCurrentProcess s)"

definition with_result :: "addr \<Rightarrow> u32 \<Rightarrow> kstate \<Rightarrow> kstate" where
  "with_result p r t = t\<lparr>procs := (procs t)(p := map_option (\<lambda>c. c\<lparr>Context := (Context c)\<lparr>V0 := r\<rparr>\<rparr>) (procs t p))\<rparr>"

lemma contexts_with_result:
  "contexts (with_result p r t) = (contexts t)(p := map_option (\<lambda>y. y\<lparr>V0 := r\<rparr>) (contexts t p))"
  by (simp add: fun_eq_iff contexts_def with_result_def option.map_comp comp_def)

lemma with_result_current [simp]: "KeCurrentProcess (with_result p r t) = KeCurrentProcess t"
  by (simp add: with_result_def)

lemma set_result_run:
  assumes "f s = Some (Return r t)" and "result_owner late s t \<noteq> 0" and "procs t (result_owner late s t) \<noteq> None"
  shows "set_result late f s = Some (Return () (with_result (result_owner late s t) r t))"
  using assms by (auto simp: set_result_def KeSetSyscallResult_def run result_owner_def with_result_def)

lemma syscall_code: "exception_code \<lparr>frContext = x, frCause = syscall_cause, frStatus = st\<rparr> = CP0_CAUSE_SYSCALL"
  by (simp add: exception_code_def syscall_cause_def CP0_CAUSE_SYSCALL_def CP0_CAUSE_EXCEPTION_CODE_MASK_def
      CP0_CAUSE_EXCEPTION_CODE_SHIFT_def)

lemma call_stub_run:
  assumes "good s" and "y = advanced (x\<lparr>V0 := n\<rparr>)"
  shows "call_stub img SM late uart st n x s
    = kbind (KeSystemService img SM late n (A0 x) (A1 x) (A2 x) (A3 x))
        (\<lambda>_. leave_kernel \<lparr>frContext = x\<lparr>V0 := n\<rparr>, frCause = syscall_cause, frStatus = st\<rparr> syscall_cause) (captured s y)"
proof -
  obtain L where L: "sched_good s L" using assms(1) by (auto simp: good_iff)
  show ?thesis
    unfolding call_stub_def
    using syscall_run [OF L syscall_code, of y "x\<lparr>V0 := n\<rparr>" st img SM late uart] assms(2) by (simp add: advanced_def)
qed

text \<open>C11: a system call gives the program the result of the kernel function of that name: the stub's
  number leads the dispatcher to it, it finds its arguments in the registers, and when it is done its
  result is stored in the saved \<open>V0\<close> of one process, nothing else changes, and the processor
  continues with the saved registers of the process that runs then.  As long as that is still the
  caller, with its context untouched, the caller continues behind its system call instruction with the
  result in \<open>V0\<close> and every other register as before.  When the function has put the caller to
  sleep or has woken a process that preempts it, the result goes to the caller's context
  if the dispatcher reads \<^verbatim>\<open>KeCurrentProcess\<close> before the call, and into \<open>V0\<close> of the other process,
  which loses its own value, if it reads it after the call.\<close>

theorem stub_returns_result:
  assumes "good s" and "(name, f) \<in> set (services img SM x)" and "map_of api_stubs name = Some n"
    and "y = x\<lparr>V0 := n, Pc := Pc x + 4\<rparr>" and "f (captured s y) = Some (Return r t)"
    and "p = result_owner late s t" and "p \<noteq> 0" and "contexts t p \<noteq> None"
    and "KeCurrentProcess t \<noteq> 0" and "contexts t (KeCurrentProcess t) = Some z"
  shows "call_stub img SM late uart st n x s = Some (Return
     \<lparr>frContext = (if KeCurrentProcess t = p then z\<lparr>V0 := r\<rparr> else z), frCause = syscall_cause, frStatus = st\<rparr>
     (with_result p r t))
   \<and> (KeCurrentProcess t = KeCurrentProcess s \<and> z = y \<longrightarrow> call_stub img SM late uart st n x s = Some (Return
     \<lparr>frContext = x\<lparr>Pc := Pc x + 4, V0 := r\<rparr>, frCause = syscall_cause, frStatus = st\<rparr>
     (with_result (KeCurrentProcess s) r t)))"
proof -
  have y: "y = advanced (x\<lparr>V0 := n\<rparr>)" using assms(4) by (simp add: advanced_def)
  have "KeSystemService img SM late n (A0 x) (A1 x) (A2 x) (A3 x) = set_result late f"
    using dispatch [OF assms(2), of late] assms(3) by auto
  moreover have o: "result_owner late (captured s y) t = p" by (simp add: assms(6) result_owner_def captured_same)
  have "set_result late f (captured s y) = Some (Return () (with_result p r t))"
    using set_result_run [of f "captured s y" r t late] assms(5,7,8) by (simp add: o contexts_def)
  moreover have "contexts (with_result p r t) (KeCurrentProcess t)
      = Some (if KeCurrentProcess t = p then z\<lparr>V0 := r\<rparr> else z)" using assms(10) by (auto simp: contexts_with_result)
  then have "KeRestoreContext (with_result p r t)
      = Some (Return (if KeCurrentProcess t = p then z\<lparr>V0 := r\<rparr> else z) (with_result p r t))"
    using assms(9) by (auto simp: KeRestoreContext_def contexts_def run)
  ultimately have run: "call_stub img SM late uart st n x s = Some (Return
     \<lparr>frContext = (if KeCurrentProcess t = p then z\<lparr>V0 := r\<rparr> else z), frCause = syscall_cause, frStatus = st\<rparr>
     (with_result p r t))"
    unfolding call_stub_run [OF assms(1) y]
    by (simp add: kbind_run leave_kernel_def run)
  then show ?thesis using assms(4,6) by (simp add: result_owner_def)
qed

text \<open>A program asks for its PID.\<close>

lemma stub_returns_result_witness:
  "\<forall>img SM late uart. call_stub img SM late uart 0 1 zero_context sched_demo = Some (Return
     \<lparr>frContext = zero_context\<lparr>Pc := 4, V0 := 1\<rparr>, frCause = syscall_cause, frStatus = 0\<rparr>
     (with_result 0x1000 1 (captured sched_demo (zero_context\<lparr>V0 := 1, Pc := 4\<rparr>))))"
proof (intro allI)
  fix img SM late uart
  let ?y = "zero_context\<lparr>V0 := 1, Pc := 4\<rparr>"
  have d: "procs sched_demo 0x1000 = Some (demo_process 1 running 3)" "KeCurrentProcess sched_demo = 0x1000"
    by (simp_all add: sched_demo_def)
  have "current_field PID (captured sched_demo ?y) = Some (Return 1 (captured sched_demo ?y))"
    using d by (simp add: current_field_def captured_def run demo_process_def)
  moreover have "contexts (captured sched_demo ?y) 0x1000 = Some ?y"
    using d by (simp add: contexts_def captured_def)
  moreover have "(''GetProcessId'', current_field PID) \<in> set (services img SM zero_context)"
    by (simp add: services_def)
  moreover have "result_owner late sched_demo (captured sched_demo ?y) = 0x1000"
    by (simp add: result_owner_def captured_same d)
  ultimately show "call_stub img SM late uart 0 1 zero_context sched_demo = Some (Return
     \<lparr>frContext = zero_context\<lparr>Pc := 4, V0 := 1\<rparr>, frCause = syscall_cause, frStatus = 0\<rparr>
     (with_result 0x1000 1 (captured sched_demo (zero_context\<lparr>V0 := 1, Pc := 4\<rparr>))))"
    using stub_returns_result [OF sched_demo_good, where name = "''GetProcessId''" and n = 1 and x = zero_context
        and y = ?y and r = 1 and st = 0 and z = ?y and late = late and t = "captured sched_demo ?y" and p = "0x1000"]
    by (simp add: api_stubs_def zero_context_def captured_same d)
qed

section \<open>Stubs without a service, and a service without a result\<close>

text \<open>C12: The stubs \<^verbatim>\<open>Malloc\<close>, \<^verbatim>\<open>Free\<close> and \<^verbatim>\<open>GetUsedMemSum\<close> are declared for programs but
  have no case in the dispatcher: any program that calls one of them stops the whole machine.  A wait
  for a handle that is not open comes back with the number of the service instead of the error.\<close>

theorem broken_stubs:
  assumes "good s" and "MAX_HANDLE_COUNT \<le> unat (A0 x)"
  shows "(\<forall>name \<in> {''Malloc'', ''Free'', ''GetUsedMemSum''}.
      halts (call_stub img SM late uart st (the (map_of api_stubs name)) x) s
        (BugCheck ''Bad syscall. I think I will just die now.''))
    \<and> call_stub img SM late uart st (the (map_of api_stubs ''WaitForSingleObject'')) x s = Some (Return
        \<lparr>frContext = x\<lparr>V0 := 23, Pc := Pc x + 4\<rparr>, frCause = syscall_cause, frStatus = st\<rparr>
        (captured s (x\<lparr>V0 := 23, Pc := Pc x + 4\<rparr>)))"
proof (intro conjI ballI)
  fix name
  assume "name \<in> {''Malloc'', ''Free'', ''GetUsedMemSum''}"
  then have n: "the (map_of api_stubs name) \<in> {19, 20, 22}" by (auto simp: api_stubs_def)
  have stop: "KeSystemService img SM late n a b c d = khalt (BugCheck ''Bad syscall. I think I will just die now.'')"
    if "n \<in> {19, 20, 22}" for n a b c d
    using that by (auto simp: KeSystemService_def)
  show "halts (call_stub img SM late uart st (the (map_of api_stubs name)) x) s
      (BugCheck ''Bad syscall. I think I will just die now.'')"
    unfolding halts_def call_stub_run [OF assms(1) refl] stop [OF n] by (simp add: kbind_run khalt_def)
next
  let ?y = "x\<lparr>V0 := 23, Pc := Pc x + 4\<rparr>"
  have n: "map_of api_stubs ''WaitForSingleObject'' = Some 23" by (simp add: api_stubs_def)
  have y: "?y = advanced (x\<lparr>V0 := 23\<rparr>)" by (simp add: advanced_def)
  obtain L c where cur: "KeCurrentProcess s \<noteq> 0" "procs s (KeCurrentProcess s) = Some c"
    using assms(1) current_exists by (force simp: good_iff)
  have "KeSystemService img SM late 23 (A0 x) (A1 x) (A2 x) (A3 x) (captured s ?y) = Some (Return () (captured s ?y))"
    using assms(2) by (simp add: KeSystemService_def ObWaitForSingleObject_def ObReferenceObjectByHandle_def run
        STATUS_INVALID_HANDLE_def STATUS_SUCCESS_def)
  moreover have "KeRestoreContext (captured s ?y) = Some (Return ?y (captured s ?y))"
    using cur by (simp add: KeRestoreContext_def captured_def run)
  ultimately show "call_stub img SM late uart st (the (map_of api_stubs ''WaitForSingleObject'')) x s = Some (Return
      \<lparr>frContext = ?y, frCause = syscall_cause, frStatus = st\<rparr> (captured s ?y))"
    unfolding n option.sel call_stub_run [OF assms(1) y] by (simp add: run leave_kernel_def)
qed

lemma broken_stubs_witness:
  "\<forall>img SM late uart. halts (call_stub img SM late uart 0 19 (zero_context\<lparr>A0 := 256\<rparr>)) sched_demo
      (BugCheck ''Bad syscall. I think I will just die now.'')
    \<and> (\<exists>t. call_stub img SM late uart 0 23 (zero_context\<lparr>A0 := 256\<rparr>) sched_demo = Some (Return
        \<lparr>frContext = zero_context\<lparr>V0 := 23, A0 := 256, Pc := 4\<rparr>, frCause = syscall_cause, frStatus = 0\<rparr> t))"
proof (intro allI)
  fix img SM late uart
  have n: "map_of api_stubs ''Malloc'' = Some 19" "map_of api_stubs ''WaitForSingleObject'' = Some 23"
    by (simp_all add: api_stubs_def)
  show "halts (call_stub img SM late uart 0 19 (zero_context\<lparr>A0 := 256\<rparr>)) sched_demo
      (BugCheck ''Bad syscall. I think I will just die now.'')
    \<and> (\<exists>t. call_stub img SM late uart 0 23 (zero_context\<lparr>A0 := 256\<rparr>) sched_demo = Some (Return
        \<lparr>frContext = zero_context\<lparr>V0 := 23, A0 := 256, Pc := 4\<rparr>, frCause = syscall_cause, frStatus = 0\<rparr> t))"
    using broken_stubs [OF sched_demo_good, of "zero_context\<lparr>A0 := 256\<rparr>" img SM late uart 0]
    by (simp add: n zero_context_def MAX_HANDLE_COUNT_def)
qed

end
