(* ===== verification/Boot.thy ===== *)
theory Boot
  imports Kernel KdLine ObCreate IoSpec SchedSpec RtlSpec
begin

text \<open>
  The start of the kernel, \<^verbatim>\<open>base/ke/init.c\<close> and \<^verbatim>\<open>base/hal/mipsel32/init.c\<close>: the display, and the
  services that are brought up one after the other.  They establish the invariants under which the
  other theories prove the kernel correct.
\<close>

section \<open>The display\<close>

text \<open>\<open>displayed xs s t\<close>: from \<open>s\<close> to \<open>t\<close> nothing happened but the output of \<open>xs\<close> on the serial line.\<close>

definition tty_often :: "kstate \<Rightarrow> bool" where
  "tty_often s \<longleftrightarrow> (\<forall>n. \<exists>m \<ge> n. ttyReady s m)"

definition displayed :: "byte list \<Rightarrow> kstate \<Rightarrow> kstate \<Rightarrow> bool" where
  "displayed xs s t \<longleftrightarrow> (\<exists>k. t = s\<lparr>serialOut := serialOut s @ xs, ttyReady := (\<lambda>n. ttyReady s (n + k))\<rparr>)"

lemma displayed_Nil [simp]: "displayed [] s s"
  by (auto simp: displayed_def intro: exI [of _ 0])

lemma displayed_trans: "displayed xs s t \<Longrightarrow> displayed ys t u \<Longrightarrow> displayed (xs @ ys) s u"
  by (auto simp: displayed_def add.assoc)

lemma displayed_often: "displayed xs s t \<Longrightarrow> tty_often s \<Longrightarrow> tty_often t"
  by (auto simp: displayed_def tty_often_def) (metis add_leE le_add_diff_inverse2 le_diff_conv2)

lemma displayed_mem: "displayed xs s t \<Longrightarrow> mem t = mem s"
  by (auto simp: displayed_def)

lemma tty_wait_displayed:
  assumes "tty_often s"
  shows "returns tty_wait s (\<lambda>_ t. displayed [] s t)"
proof -
  obtain m where "ttyReady s m" using assms by (auto simp: tty_often_def)
  then show ?thesis
    unfolding tty_wait_def
  proof (induction m arbitrary: s)
    case 0
    then show ?case
      by (subst returns_kloop) (auto simp: poll_tty_step_def kern displayed_def intro!: exI [of _ "Suc 0"])
  next
    case (Suc m)
    let ?t = "s\<lparr>ttyReady := (\<lambda>n. ttyReady s (Suc n))\<rparr>"
    have t: "displayed [] s ?t" by (auto simp: displayed_def intro!: exI [of _ "Suc 0"])
    have "returns (kloop poll_tty_step ()) ?t (\<lambda>_ u. displayed [] ?t u)"
      by (rule Suc.IH) (simp add: Suc.prems)
    then have "returns (kloop poll_tty_step ()) ?t (\<lambda>_ u. displayed [] s u)"
      by (rule returns_mono) (use displayed_trans [OF t] in force)
    then show ?case
      using t by (subst returns_kloop) (simp add: poll_tty_step_def kern)
  qed
qed

lemma wait_send:
  assumes "tty_often s"
  shows "returns (kthen tty_wait (tty_send c)) s (\<lambda>_ t. displayed [c] s t)"
  unfolding returns_kthen
proof (rule returns_mono [OF tty_wait_displayed [OF assms]])
  fix a :: unit and t
  assume "displayed [] s t"
  moreover have "displayed [c] t (t\<lparr>serialOut := serialOut t @ [c]\<rparr>)"
    by (auto simp: displayed_def intro!: exI [of _ 0])
  ultimately show "returns (tty_send c) t (\<lambda>_ u. displayed [c] s u)"
    using displayed_trans [of "[]" s t "[c]"] by (simp add: tty_send_def kern)
qed

text \<open>A string is sent character by character, with a carriage return behind each newline.\<close>

lemma HalDisplayString_displays:
  "str_at (mem s) a xs \<Longrightarrow> tty_often s \<Longrightarrow> returns (HalDisplayString a) s (\<lambda>_ t. displayed (crlf xs) s t)"
  unfolding HalDisplayString_def
proof (induction xs arbitrary: a s)
  case Nil
  then show ?case by (subst returns_kloop) (simp add: display_step_def kern)
next
  case (Cons c xs)
  have c: "a \<noteq> 0" "mem s a = c" "c \<noteq> 0" "str_at (mem s) (a + 1) xs" using Cons.prems(1) by simp_all
  have rest: "returns (kloop display_step (a + 1)) t (\<lambda>_ u. displayed (crlf (c # xs)) s u)"
    if t: "displayed (if c = 10 then [10, 13] else [c]) s t" for t
  proof -
    have "str_at (mem t) (a + 1) xs" using c(4) displayed_mem [OF t] by simp
    then show ?thesis
      by (intro returns_mono [OF Cons.IH [OF _ displayed_often [OF t Cons.prems(2)]]])
        (use displayed_trans [OF t] in force)+
  qed
  have "returns (kthen (kthen tty_wait (tty_send c)) (kwhen (c = 10) (kthen tty_wait (tty_send 13)))) s
      (\<lambda>_ t. displayed (if c = 10 then [10, 13] else [c]) s t)"
    unfolding returns_kthen [where m = "kthen _ _"]
  proof (rule returns_mono [OF wait_send [OF Cons.prems(2)]])
    fix b :: unit and t
    assume t: "displayed [c] s t"
    show "returns (kwhen (c = 10) (kthen tty_wait (tty_send 13))) t (\<lambda>_ u. displayed (if c = 10 then [10, 13] else [c]) s u)"
    proof (cases "c = 10")
      case True
      have "returns (kthen tty_wait (tty_send 13)) t (\<lambda>_ u. displayed ([10] @ [13]) s u)"
        by (rule returns_mono [OF wait_send [OF displayed_often [OF t Cons.prems(2)]]])
          (rule displayed_trans [OF t [unfolded True]])
      then show ?thesis using True by (simp add: kwhen_def)
    qed (use t in \<open>simp add: kern\<close>)
  qed
  then have "returns (kthen (kthen tty_wait (tty_send c)) (kwhen (c = 10) (kthen tty_wait (tty_send 13)))) s
      (\<lambda>_ t. returns (kloop display_step (a + 1)) t (\<lambda>_ u. displayed (crlf (c # xs)) s u))"
    by (rule returns_mono) (rule rest)
  then show ?case
    using c by (subst returns_kloop) (simp add: display_step_def returns_kthen returns_kbind returns_kreturn kern)
qed

section \<open>Memory and objects during the start\<close>

text \<open>Behind the first free address there is nothing yet, and \<open>n\<close> more bytes fit.\<close>

definition fresh_heap :: "kstate \<Rightarrow> nat \<Rightarrow> bool" where
  "fresh_heap s n \<longleftrightarrow> freeMemPointer s \<noteq> 0 \<and> unat (freeMemPointer s) + n < 2 ^ 32
     \<and> (\<forall>a. unat (freeMemPointer s) \<le> unat a \<longrightarrow> headers s a = None \<and> otypes s a = None)"

definition booting :: "kstate \<Rightarrow> (addr \<Rightarrow> addr list) \<Rightarrow> nat \<Rightarrow> bool" where
  "booting s Os n \<longleftrightarrow> ob_inv s Os \<and> fresh_heap s n \<and> tty_often s"

text \<open>What the creation of types and objects leaves alone.\<close>

definition boot_frame :: "kstate \<Rightarrow> kstate \<Rightarrow> bool" where
  "boot_frame s u \<longleftrightarrow> mem u = mem s \<and> procs u = procs s \<and> foos u = foos s \<and> mnodes u = mnodes s
     \<and> KepReadyQueues u = KepReadyQueues s \<and> KepBlockedList u = KepBlockedList s \<and> KepTimerList u = KepTimerList s
     \<and> bufferQueue u = bufferQueue s \<and> outputPointer u = outputPointer s \<and> fifo u = fifo s
     \<and> bnodes u = bnodes s \<and> processType u = processType s"

lemma ob_inv_cong:
  assumes "headers u = headers s" and "otypes u = otypes s" and "procs u = procs s" and "foos u = foos s"
  shows "ob_inv u Os = ob_inv s Os"
  using assms ob_lists_cong [of u s Os] by (simp add: ob_inv_def header_ok_def deletable_def)

lemma booting_cong:
  assumes "headers u = headers s" and "otypes u = otypes s" and "procs u = procs s" and "foos u = foos s"
    and "freeMemPointer u = freeMemPointer s" and "ttyReady u = ttyReady s"
  shows "booting u Os n = booting s Os n"
  using assms ob_inv_cong [of u s Os] by (simp add: booting_def fresh_heap_def tty_often_def)

lemma booting_less: "booting s Os n \<Longrightarrow> m \<le> n \<Longrightarrow> booting s Os m"
  by (simp add: booting_def fresh_heap_def)

lemma booting_displayed: "displayed xs s t \<Longrightarrow> booting s Os n \<Longrightarrow> booting t Os n \<and> boot_frame s t"
  using displayed_often [of xs s t] ob_inv_cong [of t s Os]
  by (auto simp: booting_def fresh_heap_def boot_frame_def displayed_def)

lemma fresh_heapD:
  assumes "fresh_heap s (40 + n)"
  shows "freeMemPointer s \<noteq> 0" and "freeMemPointer s + BODY_OFFSET \<noteq> 0"
    and "headers s (freeMemPointer s) = None" and "otypes s (freeMemPointer s + BODY_OFFSET) = None"
proof -
  have "unat (freeMemPointer s + of_nat 32) = unat (freeMemPointer s) + 32"
    using assms by (intro unat_add_of_nat) (simp add: fresh_heap_def)
  then show "otypes s (freeMemPointer s + BODY_OFFSET) = None"
    using assms by (simp add: fresh_heap_def BODY_OFFSET_def)
qed (use assms room_body [of "freeMemPointer s"] in \<open>simp_all add: fresh_heap_def\<close>)

lemma fresh_alloc:
  assumes h: "fresh_heap s (unat k + 3 + n)" and k: "32 < unat k"
    and u: "freeMemPointer u = ALIGN_MEMORY (freeMemPointer s + k)"
    and H: "\<And>a. headers s a = None \<Longrightarrow> a \<noteq> freeMemPointer s \<Longrightarrow> headers u a = None"
    and Y: "\<And>a. otypes s a = None \<Longrightarrow> a \<noteq> freeMemPointer s + BODY_OFFSET \<Longrightarrow> otypes u a = None"
  shows "fresh_heap u n"
proof -
  have "mm_room s k" using h by (simp add: mm_room_def fresh_heap_def)
  note b = MmAlloc_room(1,2) [OF this, folded u]
  have "unat (freeMemPointer s + of_nat 32) = unat (freeMemPointer s) + 32"
    using h k by (intro unat_add_of_nat) (simp add: fresh_heap_def)
  then have x: "unat (freeMemPointer s + BODY_OFFSET) < unat (freeMemPointer u)"
    using b k by (simp add: BODY_OFFSET_def)
  have "headers u a = None \<and> otypes u a = None" if "unat (freeMemPointer u) \<le> unat a" for a
  proof -
    have "headers s a = None" "otypes s a = None" using that h b k by (simp_all add: fresh_heap_def)
    moreover have "a \<noteq> freeMemPointer s" "a \<noteq> freeMemPointer s + BODY_OFFSET" using that x b k by auto
    ultimately show ?thesis using H Y by blast
  qed
  moreover have "freeMemPointer u \<noteq> 0" "unat (freeMemPointer u) + n < 2 ^ 32"
    using b h k by (auto simp: fresh_heap_def)
  ultimately show ?thesis by (simp add: fresh_heap_def)
qed

lemma alloc_booting:
  assumes "booting s Os (11 + n)"
  shows "booting (s\<lparr>freeMemPointer := ALIGN_MEMORY (freeMemPointer s + 8)\<rparr>) Os n" and "freeMemPointer s \<noteq> 0"
proof -
  have h: "fresh_heap s (11 + n)" using assms by (simp add: booting_def)
  then have "mm_room s 8" by (simp add: mm_room_def fresh_heap_def)
  note b = MmAlloc_room(1,2) [OF this]
  have "fresh_heap (s\<lparr>freeMemPointer := ALIGN_MEMORY (freeMemPointer s + 8)\<rparr>) n"
    using h b by (auto simp: fresh_heap_def)
  then show "booting (s\<lparr>freeMemPointer := ALIGN_MEMORY (freeMemPointer s + 8)\<rparr>) Os n"
    using assms by (simp add: booting_def tty_often_def ob_inv_cong [of "s\<lparr>freeMemPointer := _\<rparr>" s])
  show "freeMemPointer s \<noteq> 0" using h by (simp add: fresh_heap_def)
qed

lemma create_type:
  assumes "booting s Os (55 + n)" and "nm \<noteq> 0"
  shows "returns (ObCreateObjectType nm init) s (\<lambda>(st, T) u. st = STATUS_SUCCESS \<and> T \<noteq> 0 \<and> booting u (Os(T := [])) n
     \<and> boot_frame s u \<and> (\<exists>t. otypes u T = Some t \<and> TypeDelete t = DeleteMethod init))"
proof -
  let ?u = "created_type s nm init"
  have h: "fresh_heap s (unat (52 :: u32) + 3 + n)" using assms(1) by (simp add: booting_def)
  note D = fresh_heapD [of s "15 + n"]
  have x: "freeMemPointer s \<noteq> 0" "freeMemPointer s + BODY_OFFSET \<noteq> 0" "headers s (freeMemPointer s) = None"
    "otypes s (freeMemPointer s + BODY_OFFSET) = None" using D h by simp_all
  have "fresh_heap ?u n" by (rule fresh_alloc [OF h]) (simp_all add: created_type_def)
  moreover have "ob_inv ?u (Os(freeMemPointer s + BODY_OFFSET := []))"
    using assms(1) by (intro ob_inv_created_type x) (simp add: booting_def)
  ultimately have "booting ?u (Os(freeMemPointer s + BODY_OFFSET := [])) n"
    using assms(1) by (simp add: booting_def tty_often_def created_type_def)
  then show ?thesis
    unfolding returns_def ObCreateObjectType_run [OF assms(2) x(1)]
    using x by (simp add: boot_frame_def) (simp add: created_type_def)
qed

lemma create_object:
  assumes "booting s Os (35 + unat sz + n)" and "T \<noteq> 0" and "otypes s T = Some t" and "TypeDelete t = NoDeleteMethod"
    and sz: "8 \<le> unat sz" "unat sz < 2 ^ 31"
  shows "returns (ObCreateObject T attr sz) s (\<lambda>(st, obj) u. st = STATUS_SUCCESS \<and> obj \<noteq> 0
     \<and> booting u (Os(T := OBJECT_BODY_TO_HEADER obj # Os T)) n \<and> boot_frame s u
     \<and> (\<exists>t. otypes u T = Some t \<and> TypeDelete t = NoDeleteMethod))"
proof -
  let ?u = "created_object s T t attr sz"
  have k: "unat (BODY_OFFSET + sz) = 32 + unat sz"
    using sz by (simp add: BODY_OFFSET_def unat_word_ariths(1))
  have h: "fresh_heap s (unat (BODY_OFFSET + sz) + 3 + n)" using assms(1) by (simp add: booting_def k add.commute)
  have x: "freeMemPointer s \<noteq> 0" "freeMemPointer s + BODY_OFFSET \<noteq> 0" "headers s (freeMemPointer s) = None"
    using fresh_heapD [of s 0] h k sz by (simp_all add: fresh_heap_def)
  have "fresh_heap ?u n" by (rule fresh_alloc [OF h]) (use assms(3) sz k in \<open>auto simp: created_object_def\<close>)
  moreover have "ob_inv ?u (Os(T := freeMemPointer s # Os T))"
    using assms by (intro ob_inv_created x) (simp_all add: booting_def)
  ultimately have "booting ?u (Os(T := freeMemPointer s # Os T)) n"
    using assms(1) by (simp add: booting_def tty_often_def created_object_def)
  then show ?thesis
    unfolding returns_def ObCreateObject_run [OF assms(2,3) x(1)]
    using x assms(4) by (simp add: boot_frame_def) (simp add: created_object_def)
qed

text \<open>The same as rules for what follows.\<close>

definition boot_core :: "kstate \<Rightarrow> kstate \<Rightarrow> bool" where
  "boot_core s u \<longleftrightarrow> mem u = mem s \<and> procs u = procs s \<and> foos u = foos s \<and> mnodes u = mnodes s
     \<and> KepReadyQueues u = KepReadyQueues s \<and> KepBlockedList u = KepBlockedList s \<and> KepTimerList u = KepTimerList s
     \<and> bnodes u = bnodes s"

lemma boot_frame_core: "boot_frame s u \<Longrightarrow> boot_core s u"
  by (simp add: boot_frame_def boot_core_def)

lemma boot_core_trans: "boot_core s t \<Longrightarrow> boot_core t u \<Longrightarrow> boot_core s u"
  by (simp add: boot_core_def)

lemma booting_io [simp]:
  "booting (s\<lparr>fifo := x1\<rparr>) Os n = booting s Os n" "booting (s\<lparr>fileType := x2\<rparr>) Os n = booting s Os n"
  "booting (s\<lparr>serialFile := x3\<rparr>) Os n = booting s Os n" "booting (s\<lparr>lcdFile := x4\<rparr>) Os n = booting s Os n"
  "booting (s\<lparr>files := x5\<rparr>) Os n = booting s Os n" "booting (s\<lparr>waitingQueue := x6\<rparr>) Os n = booting s Os n"
  "booting (s\<lparr>bufferQueue := x7\<rparr>) Os n = booting s Os n" "booting (s\<lparr>processQueue := x8\<rparr>) Os n = booting s Os n"
  "booting (s\<lparr>outputPointer := x9, doneWriting := b\<rparr>) Os n = booting s Os n"
  "booting (s\<lparr>processType := x10\<rparr>) Os n = booting s Os n" "booting (s\<lparr>KeCurrentProcess := x11\<rparr>) Os n = booting s Os n"
  by (rule booting_cong; simp)+

lemma type_rule:
  assumes "booting s Os (55 + n)" and "nm \<noteq> 0"
    and "\<And>T t u. \<lbrakk>T \<noteq> 0; booting u (Os(T := [])) n; boot_frame s u; otypes u T = Some t; TypeDelete t = DeleteMethod init\<rbrakk>
      \<Longrightarrow> returns (f STATUS_SUCCESS T) u Q"
  shows "returns (kbind (ObCreateObjectType nm init) (\<lambda>(st, T). f st T)) s Q"
  unfolding returns_kbind by (rule returns_mono [OF create_type [OF assms(1,2)]]) (use assms(3) in auto)

lemma object_rule:
  assumes "booting s Os (35 + unat sz + n)" and "T \<noteq> 0" and "otypes s T = Some t" and "TypeDelete t = NoDeleteMethod"
    and "8 \<le> unat sz" and "unat sz < 2 ^ 31"
    and "\<And>obj t u. \<lbrakk>obj \<noteq> 0; booting u (Os(T := OBJECT_BODY_TO_HEADER obj # Os T)) n; boot_frame s u; otypes u T = Some t;
      TypeDelete t = NoDeleteMethod\<rbrakk> \<Longrightarrow> returns (f STATUS_SUCCESS obj) u Q"
  shows "returns (kbind (ObCreateObject T attr sz) (\<lambda>(st, obj). f st obj)) s Q"
  unfolding returns_kbind by (rule returns_mono [OF create_object [OF assms(1-6)]]) (use assms(7) in auto)

lemma display_rule:
  assumes "booting s Os n" and "str_at (mem s) a xs"
    and "\<And>u. \<lbrakk>booting u Os n; boot_frame s u; otypes u = otypes s\<rbrakk> \<Longrightarrow> returns m u Q"
  shows "returns (kthen (HalDisplayString a) m) s Q"
  unfolding returns_kthen
proof (rule returns_mono [OF HalDisplayString_displays [OF assms(2)]])
  show "tty_often s" using assms(1) by (simp add: booting_def)
next
  fix b :: unit and u
  assume u: "displayed (crlf xs) s u"
  then have "otypes u = otypes s" by (auto simp: displayed_def)
  then show "returns m u Q" using assms(3) booting_displayed [OF u assms(1)] by blast
qed

lemma same_rule: "returns m s Q \<Longrightarrow> returns (if x \<noteq> x then k else m) s Q"
  by simp

lemma when_same_rule: "returns (kthen m (kthen n k)) s Q \<Longrightarrow> returns (kthen (kwhen (x = x) (kthen m n)) k) s Q"
  by (simp add: kern)

lemma assert_rule: "b \<Longrightarrow> returns m s Q \<Longrightarrow> returns (kthen (kassert fl ln b) m) s Q"
  by (simp add: kern)

lemma modify_rule: "returns m (f s) Q \<Longrightarrow> returns (kthen (kmodify f) m) s Q"
  by (simp add: kern)

definition boot_texts :: "image \<Rightarrow> kstate \<Rightarrow> bool" where
  "boot_texts img s \<longleftrightarrow>
     (\<exists>xs. str_at (mem s) (literal img (''Create fileType done'' @ [NL])) xs)
   \<and> (\<exists>xs. str_at (mem s) (literal img (''Create serialFile done'' @ [NL])) xs)
   \<and> (\<exists>xs. str_at (mem s) (literal img (''Create lcdFile done'' @ [NL])) xs)"

lemma new_queues_boots:
  assumes "booting s Os (22 + n)"
  shows "returns new_queues s (\<lambda>_ u. booting u Os n \<and> boot_core s u \<and> fifo u = fifo s
     \<and> bufferQueue u = Some \<lparr>bqFirst = 0, bqLast = 0\<rparr> \<and> outputPointer u = 0)"
proof -
  note A = alloc_booting [of s Os "11 + n"]
  have a: "booting (s\<lparr>freeMemPointer := ALIGN_MEMORY (freeMemPointer s + 8)\<rparr>) Os (11 + n)" "freeMemPointer s \<noteq> 0"
    using A assms by simp_all
  let ?t = "s\<lparr>freeMemPointer := ALIGN_MEMORY (freeMemPointer s + 8), waitingQueue := Some \<lparr>wqFirst = 0, wqLast = 0\<rparr>\<rparr>"
  have "booting ?t Os (11 + n)" using a(1) by simp
  from alloc_booting [OF this] a(2) show ?thesis
    by (simp add: new_queues_def kern boot_core_def)
qed

section \<open>The services\<close>

lemma IoInitialize_boots:
  assumes "booting s Os (55 + (43 + (43 + (22 + n))))" and "boot_texts img s"
  shows "returns (IoInitialize img) s (\<lambda>st u. st = STATUS_SUCCESS \<and> (\<exists>Os. booting u Os n) \<and> boot_core s u
     \<and> fifo u = (fifo s)\<lparr>fifoLength := 0\<rparr> \<and> bufferQueue u = Some \<lparr>bqFirst = 0, bqLast = 0\<rparr> \<and> outputPointer u = 0)"
proof -
  obtain t1 t2 t3 where t: "str_at (mem s) (literal img (''Create fileType done'' @ [NL])) t1"
    "str_at (mem s) (literal img (''Create serialFile done'' @ [NL])) t2"
    "str_at (mem s) (literal img (''Create lcdFile done'' @ [NL])) t3"
    using assms(2) unfolding boot_texts_def by blast
  let ?G = "\<lambda>u. boot_core s u \<and> fifo u = (fifo s)\<lparr>fifoLength := 0\<rparr>"
  show ?thesis
    unfolding IoInitialize_def
    apply (rule modify_rule)
    apply (rule type_rule [where n = "43 + (43 + (22 + n))"], use assms in simp, simp)
    apply (rule modify_rule)
    apply (rule display_rule [where n = "43 + (43 + (22 + n))" and xs = t1], simp)
     apply (use t(1) in \<open>simp add: boot_frame_def\<close>)
    apply (rule same_rule)
    apply (rule object_rule [where n = "43 + (22 + n)"], simp, assumption, simp, simp, simp, simp)
    apply (rule modify_rule)
    apply (rule same_rule)
    apply (rule display_rule [where n = "43 + (22 + n)" and xs = t2], simp)
     apply (use t(2) in \<open>simp add: boot_frame_def\<close>)
    apply (rule modify_rule)
    apply (rule object_rule [where n = "22 + n"], simp, assumption, simp, simp, simp, simp)
    apply (rule modify_rule)
    apply (rule when_same_rule)
    apply (rule display_rule [where n = "22 + n" and xs = t3], simp)
     apply (use t(3) in \<open>simp add: boot_frame_def\<close>)
    apply (rule modify_rule)
    apply (simp only: returns_kthen)
    apply (rule returns_mono, rule new_queues_boots [where n = n], simp)
    apply (simp add: kern boot_core_def boot_frame_def)
    apply blast
    done
qed

text \<open>A process without open handles does not matter to the objects.\<close>

lemma booting_process:
  assumes b: "booting s Os n" and P: "procs s = Map.empty" and H: "\<forall>i < MAX_HANDLE_COUNT. HtObject (HandleTable pr i) = 0"
  shows "booting (s\<lparr>procs := [p \<mapsto> pr]\<rparr>) Os n"
proof -
  have inv: "ob_inv s Os" using b by (simp add: booting_def)
  note D = ob_invD [OF inv]
  let ?s = "s\<lparr>procs := [p \<mapsto> pr]\<rparr>"
  have no: "slots [p \<mapsto> pr] obj = {}" "slots (procs s) obj = {}" if "obj \<noteq> 0" for obj
    using H that by (auto simp: slots_def P split: if_splits)
  have "counts_ok [p \<mapsto> pr] (headers s)"
    unfolding counts_ok_def
  proof (intro allI impI)
    fix x h
    assume h: "headers s x = Some h"
    then have "x + BODY_OFFSET \<noteq> 0" using D(2) [OF h] by (simp add: header_ok_def)
    then show "unat (HandleCount h) = handle_count [p \<mapsto> pr] (x + BODY_OFFSET)"
      using D(3) h no [of "x + BODY_OFFSET"] by (simp add: counts_ok_def handle_count_def)
  qed
  moreover have "slots_live [p \<mapsto> pr] (headers s)" using no by (auto simp: slots_live_def)
  moreover have "ob_lists ?s Os" using D(1) ob_lists_cong [of ?s s Os] by simp
  ultimately have "ob_inv ?s Os" using D(2) by (simp add: ob_inv_def header_ok_def deletable_def)
  then show ?thesis using b by (simp add: booting_def fresh_heap_def tty_often_def)
qed

definition boot_rest :: "kstate \<Rightarrow> kstate \<Rightarrow> bool" where
  "boot_rest s u \<longleftrightarrow> mnodes u = mnodes s \<and> bnodes u = bnodes s
     \<and> KepReadyQueues u = KepReadyQueues s \<and> KepBlockedList u = KepBlockedList s \<and> KepTimerList u = KepTimerList s
     \<and> bufferQueue u = bufferQueue s \<and> outputPointer u = outputPointer s \<and> fifo u = fifo s"

definition idle_process :: "kstate \<Rightarrow> (addr \<Rightarrow> addr list) \<Rightarrow> bool" where
  "idle_process u Os \<longleftrightarrow> KeCurrentProcess u \<noteq> 0 \<and> Os (processType u) = [OBJECT_BODY_TO_HEADER (KeCurrentProcess u)]
     \<and> (\<exists>pr. procs u = [KeCurrentProcess u \<mapsto> pr] \<and> State pr = created \<and> Quantum pr = 1 \<and> Priority pr = 0
       \<and> PID pr = 0 \<and> NextPCB pr = 0)"

lemma PsInitialize_boots:
  assumes "booting s Os (55 + (2275 + n))" and "procs s = Map.empty"
  shows "returns (PsInitialize img) s (\<lambda>_ u. \<exists>Os. booting u Os n \<and> idle_process u Os \<and> boot_rest s u)"
proof -
  have process: "returns (kthen (zero_process_at p)
      (kthen (setP p (\<lambda>c. c\<lparr>Quantum := 1, RunningProgram := x\<rparr>))
      (kbind (ObInitProcess 0 p) (\<lambda>_. kthen (kmodify (\<lambda>s. s\<lparr>KeCurrentProcess := p\<rparr>)) (kassert m l (p \<noteq> 0)))))) t
    (\<lambda>_ u. \<exists>Os. booting u Os n \<and> idle_process u Os \<and> boot_rest s u)"
    if t: "p \<noteq> 0" "booting t Us n" "procs t = Map.empty" "Us (processType t) = [OBJECT_BODY_TO_HEADER p]" "boot_rest s t"
    for p t Us x m l
  proof -
    let ?z = "zero_process\<lparr>Quantum := 1, RunningProgram := x\<rparr>"
    have I: "returns (kfor [0 ..< MAX_HANDLE_COUNT] (init_handle 0 p)) (t\<lparr>procs := [p \<mapsto> ?z]\<rparr>)
        (\<lambda>_ u. \<exists>H. u = t\<lparr>procs := [p \<mapsto> ?z\<lparr>HandleTable := H\<rparr>]\<rparr> \<and> (\<forall>i < MAX_HANDLE_COUNT. HtObject (H i) = 0))"
      using init_handles [OF t(1), of "t\<lparr>procs := [p \<mapsto> ?z]\<rparr>" ?z MAX_HANDLE_COUNT] by simp
    have fin: "\<exists>Os. booting (v\<lparr>KeCurrentProcess := p\<rparr>) Os n \<and> idle_process (v\<lparr>KeCurrentProcess := p\<rparr>) Os
        \<and> boot_rest s (v\<lparr>KeCurrentProcess := p\<rparr>)"
      if v: "v = t\<lparr>procs := [p \<mapsto> ?z\<lparr>HandleTable := H\<rparr>]\<rparr>" and H: "\<forall>i < MAX_HANDLE_COUNT. HtObject (H i) = 0" for v H
    proof (intro exI conjI)
      show "booting (v\<lparr>KeCurrentProcess := p\<rparr>) Us n"
        unfolding booting_io v by (rule booting_process [OF t(2,3)]) (simp add: H)
      show "idle_process (v\<lparr>KeCurrentProcess := p\<rparr>) Us"
        using t(1,4) by (auto simp: v idle_process_def zero_process_def)
      show "boot_rest s (v\<lparr>KeCurrentProcess := p\<rparr>)" using t(5) by (simp add: v boot_rest_def)
    qed
    have "returns (kfor [0 ..< MAX_HANDLE_COUNT] (init_handle 0 p)) (t\<lparr>procs := [p \<mapsto> ?z]\<rparr>)
        (\<lambda>_ v. \<exists>Os. booting (v\<lparr>KeCurrentProcess := p\<rparr>) Os n \<and> idle_process (v\<lparr>KeCurrentProcess := p\<rparr>) Os
        \<and> boot_rest s (v\<lparr>KeCurrentProcess := p\<rparr>))"
      by (rule returns_mono [OF I]) (use fin in blast)
    then show ?thesis
      using t(1,3) by (simp add: zero_process_at_def ObInitProcess_def kern)
  qed
  show ?thesis
    unfolding PsInitialize_def returns_kthen [where m = "kbind _ _"]
    apply (rule type_rule [where n = "2275 + n"], use assms in simp, simp)
    apply (simp only: returns_kmodify returns_kbind [where m = "kget _"] returns_kget)
    apply (rule object_rule [where n = n], simp add: sizeof_PROCESS_def, simp, simp, simp, simp add: sizeof_PROCESS_def, simp add: sizeof_PROCESS_def)
    apply (rule assert_rule, assumption)
    apply (rule assert_rule, assumption)
    apply (rule process, assumption, assumption)
      apply (use assms(2) in \<open>simp_all add: boot_frame_def boot_rest_def\<close>)
    done
qed

text \<open>The memory before the kernel runs: globals that are zero, and an empty heap.\<close>

definition zeroed :: "kstate \<Rightarrow> bool" where
  "zeroed s \<longleftrightarrow> procs s = Map.empty \<and> headers s = Map.empty \<and> otypes s = Map.empty \<and> mnodes s = Map.empty
     \<and> bnodes s = Map.empty \<and> KepReadyQueues s = (\<lambda>_. \<lparr>First = 0, Last = 0\<rparr>) \<and> KepBlockedList s = 0 \<and> KepTimerList s = 0
     \<and> fifo s = \<lparr>fifoBuffer = replicate FIFO_SIZE 0, fifoLength = 0\<rparr>"

lemma zeroed_booting:
  assumes "zeroed s" and "freeMemPointer s \<noteq> 0" and "unat (freeMemPointer s) + n < 2 ^ 32" and "tty_often s"
  shows "booting s (\<lambda>_. []) n"
  using assms
  by (auto simp: booting_def zeroed_def fresh_heap_def ob_inv_def ob_lists_def counts_ok_def slots_live_def slots_def)

lemma no_queues:
  assumes "KepReadyQueues u = (\<lambda>_. \<lparr>First = 0, Last = 0\<rparr>)" and "KepBlockedList u = 0" and "KepTimerList u = 0"
  shows "sched_lists u (\<lambda>_. [])"
proof -
  have "chain (nextp (procs u)) (qhead (KepReadyQueues u) (KepBlockedList u) (KepTimerList u) q) []" for q
    using assms by (cases q) simp_all
  then show ?thesis by (simp add: sched_lists_def lists_ok_def by_wake_def)
qed

text \<open>The idle process is in state \<open>created\<close>; the first rescheduling makes it the running one.\<close>

lemma first_reschedule:
  assumes "idle_process u Os" and "sched_lists u (\<lambda>_. [])" and "mq_inv u"
  shows "returns KepReschedule u (\<lambda>_ v. good v \<and> KeCurrentProcess v = KeCurrentProcess u)"
proof -
  obtain pr where pr: "KeCurrentProcess u \<noteq> 0" "procs u (KeCurrentProcess u) = Some pr" "State pr = created"
    "Priority pr = 0" "NextPCB pr = 0"
    using assms(1) by (auto simp: idle_process_def)
  have "pick (\<lambda>_. []) 0 n = None" for n by (induction n) simp_all
  then have "abs_reschedule (\<lambda>_. []) (KeCurrentProcess u) (unat (Priority pr)) (State pr = blocked)
      = Some (KeCurrentProcess u, \<lambda>_. [])" using pr by (simp add: abs_reschedule_def)
  from KepReschedule_lists [OF assms(2) pr(1,2) _ _ this]
  have "returns KepReschedule u (\<lambda>_ v. sched_inv v (\<lambda>_. []) \<and> KeCurrentProcess v = KeCurrentProcess u \<and> sched_frame u v
      \<and> (\<exists>p. procs v (KeCurrentProcess u) = Some p \<and> Quantum p = 5))"
    using pr by (simp add: PROCESS_PRIORITY_LEVELS_def)
  then show ?thesis
    by (rule returns_mono) (use mq_inv_frame assms(3) in \<open>auto simp: good_def quantum_ok_def\<close>)
qed

lemma MessInitialize_boots:
  assumes "booting u Os 11" and "idle_process u Os" and "mnodes u = Map.empty"
  shows "returns MessInitialize u (\<lambda>_ v. ob_inv v Os \<and> idle_process v Os \<and> boot_rest u v \<and> mq_inv v)"
proof -
  have a: "booting (u\<lparr>freeMemPointer := ALIGN_MEMORY (freeMemPointer u + 8)\<rparr>) Os 0" "freeMemPointer u \<noteq> 0"
    using alloc_booting [of u Os 0] assms(1) by simp_all
  let ?v = "u\<lparr>freeMemPointer := ALIGN_MEMORY (freeMemPointer u + 8), processQueue := Some \<lparr>mqFirst = 0, mqLast = 0\<rparr>\<rparr>"
  have "booting ?v Os 0" using a(1) by simp
  then have "ob_inv ?v Os" by (simp add: booting_def)
  moreover have "idle_process ?v Os" "boot_rest u ?v" "mq_inv ?v"
    using assms(2,3) by (simp_all add: idle_process_def boot_rest_def mq_inv_def nodes_ordered_def queue_ends_def)
  ultimately show ?thesis using a(2) by (simp add: MessInitialize_def kern)
qed

text \<open>What holds when all services have been started.\<close>

abbreviation services_up :: "kstate \<Rightarrow> bool" where
  "services_up u \<equiv> \<exists>Os. ob_inv u Os \<and> idle_process u Os
     \<and> sched_lists u (\<lambda>_. []) \<and> quantum_ok u \<and> mq_inv u \<and> tx_inv u [] [] \<and> fifo_ok (fifo u)
     \<and> returns KepReschedule u (\<lambda>_ v. good v \<and> KeCurrentProcess v = KeCurrentProcess u)"

lemma MessInitialize_completes:
  assumes z: "zeroed s" and "booting v Os 11" "idle_process v Os" "boot_rest u v" "boot_core s u"
    "fifo u = (fifo s)\<lparr>fifoLength := 0\<rparr>" "bufferQueue u = Some \<lparr>bqFirst = 0, bqLast = 0\<rparr>" "outputPointer u = 0"
  shows "returns MessInitialize v (\<lambda>_ w. services_up w)"
proof (rule returns_mono [OF MessInitialize_boots [OF assms(2,3)]])
  show "mnodes v = Map.empty" using assms(4,5) z by (simp add: boot_rest_def boot_core_def zeroed_def)
  fix r w
  assume w: "ob_inv w Os \<and> idle_process w Os \<and> boot_rest v w \<and> mq_inv w"
  then have f: "KepReadyQueues w = (\<lambda>_. \<lparr>First = 0, Last = 0\<rparr>)" "KepBlockedList w = 0" "KepTimerList w = 0"
    "fifo w = fifo s" "bufferQueue w = Some \<lparr>bqFirst = 0, bqLast = 0\<rparr>" "outputPointer w = 0"
    using assms(4-8) z by (simp_all add: boot_rest_def boot_core_def zeroed_def)
  have "fifo_ok (fifo w)" using f(4) z by (simp add: zeroed_def fifo_ok_def FIFO_SIZE_def)
  moreover have "tx_inv w [] []" using f by (simp add: tx_inv_def)
  moreover have "quantum_ok w" using w by (auto simp: idle_process_def quantum_ok_def)
  moreover note no_queues [OF f(1-3)]
  ultimately show "services_up w" using w first_reschedule [of w Os] by blast
qed

text \<open>C10: the kernel starts consistent: from zeroed globals, bringing up memory, io, processes and
  messages returns, and then every invariant holds on which the other theorems rest: objects and
  handles, no process waits in any list, both message and output queues are empty.  The idle process
  runs; its state is still \<open>created\<close>, and a rescheduling right after the services, before \<^verbatim>\<open>KeInitialize\<close>
  creates its two processes, makes the scheduler's invariant complete.\<close>

theorem start_services_consistent:
  assumes "zeroed s" and "tty_often s" and "boot_texts img s"
    and "image_limit \<noteq> 0" and "unat image_limit + 2504 < 2 ^ 32"
  shows "returns (start_services img image_limit) s (\<lambda>_ u. \<exists>Os. ob_inv u Os \<and> idle_process u Os
     \<and> sched_lists u (\<lambda>_. []) \<and> quantum_ok u \<and> mq_inv u \<and> tx_inv u [] [] \<and> fifo_ok (fifo u)
     \<and> returns KepReschedule u (\<lambda>_ v. good v \<and> KeCurrentProcess v = KeCurrentProcess u))"
proof -
  let ?s = "s\<lparr>freeMemPointer := image_limit\<rparr>"
  have z: "zeroed ?s" and t: "boot_texts img ?s" using assms(1,3) by (simp_all add: zeroed_def boot_texts_def)
  have b: "booting ?s (\<lambda>_. []) (55 + (43 + (43 + (22 + (55 + (2275 + 11))))))"
    by (rule zeroed_booting [OF z]) (use assms in \<open>simp_all add: tty_often_def\<close>)
  have "returns (IoInitialize img) ?s (\<lambda>_ u. returns (PsInitialize img) u (\<lambda>_ v.
      KeCurrentProcess v \<noteq> 0 \<and> returns MessInitialize v (\<lambda>_ w. services_up w)))"
  proof (rule returns_mono [OF IoInitialize_boots [OF b t]], elim conjE exE)
    fix st u Os
    assume u: "booting u Os (55 + (2275 + 11))" "boot_core ?s u" "fifo u = (fifo ?s)\<lparr>fifoLength := 0\<rparr>"
      "bufferQueue u = Some \<lparr>bqFirst = 0, bqLast = 0\<rparr>" "outputPointer u = 0"
    have "procs u = Map.empty" using u(2) z by (simp add: boot_core_def zeroed_def)
    from PsInitialize_boots [OF u(1) this]
    show "returns (PsInitialize img) u (\<lambda>_ v. KeCurrentProcess v \<noteq> 0 \<and> returns MessInitialize v (\<lambda>_ w. services_up w))"
    proof (rule returns_mono, elim conjE exE)
      fix a :: unit and v Os
      assume v: "booting v Os 11" "idle_process v Os" "boot_rest u v"
      show "KeCurrentProcess v \<noteq> 0 \<and> returns MessInitialize v (\<lambda>_ w. services_up w)"
        using MessInitialize_completes [OF z v u(2-5)] v(2) by (simp add: idle_process_def)
    qed
  qed
  then show ?thesis
    by (simp add: start_services_def MmInitialize_def returns_kthen returns_kbind returns_kmodify returns_kget
        returns_kassert returns_kreturn)
qed

definition boot_image :: image where
  "boot_image = \<lparr>literal = (\<lambda>_. 0x400), code_address = (\<lambda>_. 0), commandBuffer = 0, stack_buffer = 0,
     stack_info = \<lparr>piState = ready, piRunningProgram = 0, piPID = 0, piPriority = 0, piCPUTime = 0\<rparr>\<rparr>"

lemma start_services_consistent_witness:
  "returns (start_services boot_image 0x8000) boot_state (\<lambda>_ u. \<exists>Os. ob_inv u Os \<and> idle_process u Os
     \<and> sched_lists u (\<lambda>_. []) \<and> quantum_ok u \<and> mq_inv u \<and> tx_inv u [] [] \<and> fifo_ok (fifo u)
     \<and> returns KepReschedule u (\<lambda>_ v. good v \<and> KeCurrentProcess v = KeCurrentProcess u))"
proof (rule start_services_consistent)
  have "str_at (mem boot_state) 0x400 []" by (simp add: boot_state_def str_at_def)
  then show "boot_texts boot_image boot_state" unfolding boot_texts_def boot_image_def image.simps by blast
qed (auto simp: zeroed_def boot_state_def tty_often_def)

section \<open>The serial controllers and the exception vector\<close>

text \<open>The register a bit field belongs to.\<close>

fun uart_reg :: "uart_field \<Rightarrow> NS16550 \<Rightarrow> byte" where
  "uart_reg IER_erbfi u = uIer u"
| "uart_reg IER_etbei u = uIer u"
| "uart_reg IER_elsi u = uIer u"
| "uart_reg IER_edssi u = uIer u"
| "uart_reg IIR_pending u = uIir u"
| "uart_reg IIR_id u = uIir u"
| "uart_reg FCR_fe u = uIir u"
| "uart_reg FCR_rfr u = uIir u"
| "uart_reg FCR_xfr u = uIir u"
| "uart_reg FCR_dms u = uIir u"
| "uart_reg LCR_wls u = uLcr u"
| "uart_reg LCR_stb u = uLcr u"
| "uart_reg LCR_pen u = uLcr u"
| "uart_reg LCR_eps u = uLcr u"
| "uart_reg MCR_dtr u = uMcr u"
| "uart_reg MCR_rts u = uMcr u"
| "uart_reg MCR_out1 u = uMcr u"
| "uart_reg MCR_out2 u = uMcr u"
| "uart_reg LSR_dr u = uLsr u"
| "uart_reg LSR_oe u = uLsr u"
| "uart_reg LSR_pe u = uLsr u"
| "uart_reg LSR_fe u = uLsr u"
| "uart_reg LSR_bi u = uLsr u"
| "uart_reg LSR_thre u = uLsr u"
| "uart_reg LSR_temt u = uLsr u"
| "uart_reg MSR_dcts u = uMsr u"
| "uart_reg MSR_ddsr u = uMsr u"
| "uart_reg MSR_teri u = uMsr u"
| "uart_reg MSR_ddcd u = uMsr u"
| "uart_reg MSR_cts u = uMsr u"
| "uart_reg MSR_dsr u = uMsr u"
| "uart_reg MSR_ri u = uMsr u"
| "uart_reg MSR_dcd u = uMsr u"

lemma field_small: "field_at f = (p, w) \<Longrightarrow> p + w \<le> 8"
  by (cases f) auto

lemma get_set_field: "get_field f (set_field f v r) = and v (mask (snd (field_at f)))"
proof -
  obtain p w where f: "field_at f = (p, w)" by (cases "field_at f")
  show ?thesis
    using field_small [OF f] unfolding get_field_def set_field_def f prod.case snd_conv
    by (intro bit_word_eqI) (auto simp: bit_simps)
qed

text \<open>Fields of one register do not overlap.\<close>

definition apart :: "uart_field \<Rightarrow> uart_field \<Rightarrow> bool" where
  "apart f g \<longleftrightarrow> fst (field_at f) + snd (field_at f) \<le> fst (field_at g) \<or> fst (field_at g) + snd (field_at g) \<le> fst (field_at f)"

lemma get_set_other: "apart f g \<Longrightarrow> get_field g (set_field f v r) = get_field g r"
proof -
  assume a: "apart f g"
  obtain p w q x where f: "field_at f = (p, w)" "field_at g = (q, x)" by (cases "field_at f", cases "field_at g")
  show ?thesis
    using a field_small [OF f(1)] field_small [OF f(2)] unfolding get_field_def set_field_def apart_def f prod.case fst_conv snd_conv
    by (intro bit_word_eqI) (auto simp: bit_simps)
qed

lemma program_uart_fields:
  "get_field f (uart_reg f (program_uart u)) =
     (if f = LCR_wls then 3 else if f = IER_erbfi \<or> f = MCR_out2 then 1 else get_field f (uart_reg f u))"
proof -
  have m: "and 3 (mask 2) = (3 :: byte)" "and 1 (mask 1) = (1 :: byte)" by (simp_all add: mask_eq_exp_minus_1)
  show ?thesis
    by (cases f) (simp_all add: program_uart_def get_set_field m get_set_other apart_def)
qed

text \<open>C13: starting the hardware layer sets both serial controllers to eight bits with receive
  interrupts, through the interrupt line of the board, and leaves every other bit field as it was; the exception
  handler is copied to the address to which the processor jumps; and the timer is set.\<close>

theorem HalInitialize_correct:
  assumes "n = unat (vector_end - vector)" and "0 \<notin> span 0xa0000180 n" and "0 \<notin> span vector n"
    and "span 0xa0000180 n \<inter> span vector n = {}"
  shows "returns (HalInitialize vector vector_end) s (\<lambda>_ t.
     (\<forall>f. \<forall>(old, new) \<in> {(ttyRegs s, ttyRegs t), (tty2Regs s, tty2Regs t)}. get_field f (uart_reg f new) =
        (if f = LCR_wls then 3 else if f = IER_erbfi \<or> f = MCR_out2 then 1 else get_field f (uart_reg f old)))
     \<and> (\<forall>i < n. mem t (0xa0000180 + of_nat i) = mem s (vector + of_nat i))
     \<and> (\<forall>a. a \<notin> span 0xa0000180 n \<longrightarrow> mem t a = mem s a)
     \<and> t = s\<lparr>mem := mem t, ttyRegs := ttyRegs t, tty2Regs := tty2Regs t, timerTicks := 670000\<rparr>)"
  using RtlCopyMemory_correct [of "0xa0000180" "vector_end - vector" vector "mem s"] assms
  by (auto simp: HalInitialize_def HalResetTimer_def kern program_uart_fields elim!: returns_mono)

lemma HalInitialize_correct_witness:
  "returns (HalInitialize 0x100 0x103) boot_state (\<lambda>_ t. get_field LCR_wls (uLcr (ttyRegs t)) = 3
     \<and> get_field IER_erbfi (uIer (tty2Regs t)) = 1 \<and> mem t 0xa0000181 = mem boot_state 0x101 \<and> timerTicks t = 670000)"
proof (rule returns_mono [OF HalInitialize_correct [OF refl]])
  show "0 \<notin> span 0xa0000180 (unat (0x103 - 0x100 :: addr))" "0 \<notin> span 0x100 (unat (0x103 - 0x100 :: addr))"
    "span 0xa0000180 (unat (0x103 - 0x100 :: addr)) \<inter> span 0x100 (unat (0x103 - 0x100 :: addr)) = {}"
    by (simp_all add: span_numeral)
next
  fix r t
  assume t: "(\<forall>f. \<forall>(old, new) \<in> {(ttyRegs boot_state, ttyRegs t), (tty2Regs boot_state, tty2Regs t)}. get_field f (uart_reg f new) =
        (if f = LCR_wls then 3 else if f = IER_erbfi \<or> f = MCR_out2 then 1 else get_field f (uart_reg f old)))
     \<and> (\<forall>i < unat (0x103 - 0x100 :: addr). mem t (0xa0000180 + of_nat i) = mem boot_state (0x100 + of_nat i))
     \<and> (\<forall>a. a \<notin> span 0xa0000180 (unat (0x103 - 0x100 :: addr)) \<longrightarrow> mem t a = mem boot_state a)
     \<and> t = boot_state\<lparr>mem := mem t, ttyRegs := ttyRegs t, tty2Regs := tty2Regs t, timerTicks := 670000\<rparr>"
  then have "timerTicks t = timerTicks (boot_state\<lparr>mem := mem t, ttyRegs := ttyRegs t, tty2Regs := tty2Regs t, timerTicks := 670000\<rparr>)"
    by metis
  then have ticks: "timerTicks t = 670000" by simp
  have "mem t (0xa0000180 + of_nat 1) = mem boot_state (0x100 + of_nat 1)"
    using conjunct1 [OF conjunct2 [OF t], THEN spec, of 1] by simp
  then show "get_field LCR_wls (uLcr (ttyRegs t)) = 3 \<and> get_field IER_erbfi (uIer (tty2Regs t)) = 1
      \<and> mem t 0xa0000181 = mem boot_state 0x101 \<and> timerTicks t = 670000"
    using conjunct1 [OF t, THEN spec, of LCR_wls] conjunct1 [OF t, THEN spec, of IER_erbfi] ticks by simp
qed

end
