(* ===== verification/ScrollerSpec.thy ===== *)
theory ScrollerSpec
  imports Programs ObCreate RtlMem Demo
begin

text \<open>
  The scrolling text, \<^verbatim>\<open>base/apps/scroller.c\<close>, down to the characters in the display: from the
  program through \<^verbatim>\<open>IoWriteFile\<close> and the object manager to \<^verbatim>\<open>IoWriteLcd\<close>.
\<close>

section \<open>Writing to the display\<close>

definition lcd_write :: "(nat \<Rightarrow> byte) \<Rightarrow> nat \<Rightarrow> (nat \<Rightarrow> byte) \<Rightarrow> nat \<Rightarrow> byte" where
  "lcd_write c n old i = (if i < 8 \<and> i < n then c i else old i)"

lemma lcd_write_0 [simp]: "lcd_write c 0 old = old"
  by (simp add: lcd_write_def fun_eq_iff)

lemma IoWriteLcd_writes:
  assumes a: "\<And>i. i < 8 \<Longrightarrow> i < unat n \<Longrightarrow> a + of_nat i \<noteq> 0"
  shows "returns (IoWriteLcd a n) s (\<lambda>_ t. t = s\<lparr>lcdMem := lcd_write (\<lambda>i. mem s (a + of_nat i)) (unat n) (lcdMem s)\<rparr>)"
  unfolding IoWriteLcd_def
proof (rule returns_kloop_rule [where I = "\<lambda>i t. unat i \<le> 8 \<and> unat i \<le> unat n
    \<and> t = s\<lparr>lcdMem := lcd_write (\<lambda>i. mem s (a + of_nat i)) (unat i) (lcdMem s)\<rparr>" and m = "\<lambda>i _. 8 - unat i"])
  show "unat (0 :: u32) \<le> 8 \<and> unat (0 :: u32) \<le> unat n
      \<and> s = s\<lparr>lcdMem := lcd_write (\<lambda>i. mem s (a + of_nat i)) (unat (0 :: u32)) (lcdMem s)\<rparr>"
    by simp
next
  fix i :: u32 and t
  assume i: "unat i \<le> 8 \<and> unat i \<le> unat n \<and> t = s\<lparr>lcdMem := lcd_write (\<lambda>i. mem s (a + of_nat i)) (unat i) (lcdMem s)\<rparr>"
  show "returns (lcd_step a n i) t (\<lambda>r u. case r of
        Inl j \<Rightarrow> (unat j \<le> 8 \<and> unat j \<le> unat n \<and> u = s\<lparr>lcdMem := lcd_write (\<lambda>i. mem s (a + of_nat i)) (unat j) (lcdMem s)\<rparr>)
          \<and> 8 - unat j < 8 - unat i
      | Inr v \<Rightarrow> u = s\<lparr>lcdMem := lcd_write (\<lambda>i. mem s (a + of_nat i)) (unat n) (lcdMem s)\<rparr>)"
  proof (cases "i < n \<and> i < 8")
    case True
    then have lt: "unat i < unat n" "unat i < 8" by (simp_all add: word_less_nat_alt)
    then have suc: "unat (i + 1) = Suc (unat i)" by (simp add: unat_word_ariths(1))
    have "a + i \<noteq> 0" using a [OF lt(2,1)] by simp
    then show ?thesis
      using True lt i suc by (simp add: lcd_step_def kern) (auto simp: lcd_write_def fun_eq_iff less_Suc_eq)
  next
    case False
    then have "unat i = 8 \<or> unat i = unat n" using i by (auto simp: word_less_nat_alt)
    then have "lcd_write c (unat i) old = lcd_write c (unat n) old" for c old
      using i by (auto simp: lcd_write_def fun_eq_iff)
    then show ?thesis
      using i unfolding lcd_step_def if_not_P [OF False] by (simp add: kern)
  qed
qed

lemma still_referenced:
  assumes "a \<le> b" and "b < 0xFFFFFFFF"
  shows "a < b + (1 :: u32)" and "0 < b \<Longrightarrow> b + 1 \<noteq> 1"
proof -
  have "unat b < 0xFFFFFFFF" using assms(2) by (simp add: word_less_nat_alt)
  then have "unat (b + 1) = Suc (unat b)" by (simp add: unat_word_ariths)
  then show "a < b + 1" using assms(1) by (simp add: word_less_nat_alt word_le_nat_alt)
qed auto

text \<open>A handle to the display.\<close>

definition lcd_open :: "kstate \<Rightarrow> u32 \<Rightarrow> bool" where
  "lcd_open s hnd \<longleftrightarrow> KeCurrentProcess s \<noteq> 0 \<and> unat hnd < MAX_HANDLE_COUNT \<and> (\<exists>pr x h f.
     procs s (KeCurrentProcess s) = Some pr \<and> HtObject (HandleTable pr (unat hnd)) = x + BODY_OFFSET \<and> x \<noteq> 0 \<and> x + BODY_OFFSET \<noteq> 0
     \<and> headers s x = Some h \<and> Magic h = OBJECT_MAGIC \<and> ObjType h = fileType s \<and> HandleCount h \<le> PointerCount h
     \<and> 0 < PointerCount h \<and> PointerCount h < 0xFFFFFFFF
     \<and> files s (x + BODY_OFFSET) = Some f \<and> fileWrite f = IoWriteLcdMethod)"

lemma lcd_open_frame [simp]:
  "lcd_open (s\<lparr>lcdMem := l\<rparr>) hnd = lcd_open s hnd" "lcd_open (s\<lparr>mem := M\<rparr>) hnd = lcd_open s hnd"
  by (simp_all add: lcd_open_def)

lemma IoWriteFile_lcd:
  assumes open_: "lcd_open s hnd" and a: "\<And>i. i < 8 \<Longrightarrow> i < unat n \<Longrightarrow> a + of_nat i \<noteq> 0"
  shows "IoWriteFile hnd a n s = Some (Return 0 (s\<lparr>lcdMem := lcd_write (\<lambda>i. mem s (a + of_nat i)) (unat n) (lcdMem s)\<rparr>))"
proof -
  obtain pr x h f where o: "KeCurrentProcess s \<noteq> 0" "unat hnd < MAX_HANDLE_COUNT"
    "procs s (KeCurrentProcess s) = Some pr" "HtObject (HandleTable pr (unat hnd)) = x + BODY_OFFSET" "x \<noteq> 0" "x + BODY_OFFSET \<noteq> 0"
    "headers s x = Some h" "Magic h = OBJECT_MAGIC" "ObjType h = fileType s" "HandleCount h \<le> PointerCount h"
    "0 < PointerCount h" "PointerCount h < 0xFFFFFFFF"
    "files s (x + BODY_OFFSET) = Some f" "fileWrite f = IoWriteLcdMethod"
    using open_ by (auto simp: lcd_open_def)
  let ?l = "lcd_write (\<lambda>i. mem s (a + of_nat i)) (unat n) (lcdMem s)"
  let ?r = "referenced s x h" and ?h = "h\<lparr>PointerCount := PointerCount h + 1\<rparr>"
  have R: "ObReferenceObjectByHandle hnd (fileType s) s = Some (Return (STATUS_SUCCESS, x + BODY_OFFSET) ?r)"
    using ObReferenceObjectByHandle_result [OF o(1,3), of hnd h "fileType s"] o by simp
  have "IoWriteLcd a n ?r = Some (Return () (?r\<lparr>lcdMem := ?l\<rparr>))"
    unfolding returns_exact using IoWriteLcd_writes [OF a, of n ?r] by (simp add: referenced_def)
  moreover have "ObDereferenceObject (x + BODY_OFFSET) (?r\<lparr>lcdMem := ?l\<rparr>) = Some (Return () (s\<lparr>lcdMem := ?l\<rparr>))"
  proof -
    have "HandleCount ?h < PointerCount ?h" "PointerCount ?h \<noteq> 1" "PointerCount ?h - 1 = PointerCount h"
      using o(10-12) by (simp_all add: still_referenced)
    then show ?thesis
      using ObDereferenceObject_kept [of x "?r\<lparr>lcdMem := ?l\<rparr>" ?h] o
      by (simp add: referenced_def fun_upd_idem)
  qed
  moreover have "deref files (x + BODY_OFFSET) ?r = Some (Return f ?r)"
    using o by (simp add: deref_run referenced_def)
  ultimately show ?thesis
    using o by (simp add: IoWriteFile_def kbind_run(1) kthen_run(1) kprim_run kassert_run(1) R call_io_method_def)
qed

text \<open>The display among the objects, and a process that can open it.\<close>

definition lcd_ready :: "kstate \<Rightarrow> bool" where
  "lcd_ready s \<longleftrightarrow> KeCurrentProcess s \<noteq> 0 \<and> (\<exists>pr i x h f. procs s (KeCurrentProcess s) = Some pr
     \<and> free_slot pr = Some i \<and> lcdFile s = x + BODY_OFFSET \<and> x \<noteq> 0 \<and> x + BODY_OFFSET \<noteq> 0
     \<and> headers s x = Some h \<and> Magic h = OBJECT_MAGIC \<and> ObjType h = fileType s \<and> HandleCount h \<le> PointerCount h
     \<and> PointerCount h < 0xFFFFFFFE \<and> files s (x + BODY_OFFSET) = Some f \<and> fileWrite f = IoWriteLcdMethod)"

lemma IoCreateFile_lcd:
  assumes "lcd_ready s"
  shows "returns (IoCreateFile 108) s (\<lambda>hnd t. lcd_open t hnd \<and> mem t = mem s \<and> lcdMem t = lcdMem s)"
proof -
  obtain pr i x h f where o: "KeCurrentProcess s \<noteq> 0" "procs s (KeCurrentProcess s) = Some pr" "free_slot pr = Some i"
    "lcdFile s = x + BODY_OFFSET" "x \<noteq> 0" "x + BODY_OFFSET \<noteq> 0"
    "headers s x = Some h" "Magic h = OBJECT_MAGIC" "ObjType h = fileType s" "HandleCount h \<le> PointerCount h"
    "PointerCount h < 0xFFFFFFFE" "files s (x + BODY_OFFSET) = Some f" "fileWrite f = IoWriteLcdMethod"
    using assms by (auto simp: lcd_ready_def)
  have i: "i < MAX_HANDLE_COUNT" using free_slot_Some [OF o(3)] by simp
  have u: "unat (PointerCount h) < 0xFFFFFFFE" using o(11) by (simp add: word_less_nat_alt)
  then have c: "PointerCount h \<noteq> - 1" by (auto simp: unsigned_minus_1_eq_mask mask_eq_exp_minus_1)
  have "unat (PointerCount h + 1) = Suc (unat (PointerCount h))" using u by (simp add: unat_word_ariths)
  then have c': "PointerCount h + 1 < 0xFFFFFFFF" "0 < PointerCount h + 1"
    using u by (simp_all add: word_less_nat_alt)
  have "HandleCount h + 1 \<le> PointerCount h + 1" by (rule count_plus [OF o(10) c])
  moreover have "lcd_open (opened s (KeCurrentProcess s) pr i 0 (lcdFile s) h) (of_nat i)"
    using calculation o(1,4-9,12,13) c' slot_index [OF i] i by (simp add: lcd_open_def opened_def set_slot_def add_handle_def)
  moreover have "IoCreateFile 108 s = Some (Return (of_nat i) (opened s (KeCurrentProcess s) pr i 0 (lcdFile s) h))"
    using ObOpenObjectByPointer_result [OF o(1,2), of "lcdFile s" h 0 "fileType s"] o
    by (simp add: IoCreateFile_def kbind_run(1) kprim_run)
  ultimately show ?thesis by (simp add: returns_def opened_def)
qed

section \<open>The text on the display\<close>

definition scroll_text :: "byte list" where
  "scroll_text = replicate 7 32 @ [76, 111, 111, 107, 32, 109, 111, 109, 33, 32, 73, 39, 109, 32,
     115, 99, 114, 111, 108, 108, 105, 110, 103, 33] @ replicate 7 32"

lemma scroll_text_length [simp]: "length scroll_text = 38"
  by (simp add: scroll_text_def)

lemma length_left: "k < 33 \<Longrightarrow> unat (38 - of_nat k :: u32) = 38 - k"
proof -
  assume "k < 33"
  then have "38 - of_nat k = (of_nat (38 - k) :: u32)" by (simp add: of_nat_diff)
  also have "unat \<dots> = 38 - k"
    by (simp only: unsigned_of_nat of_nat_id) (rule take_bit_nat_eq_self, simp)
  finally show ?thesis .
qed

lemma scroll_text_source:
  "scroll_text = map of_char (''       Look mom! I'' @ CHR 0x27 # ''m scrolling!       '')"
  by code_simp

text \<open>The first \<open>n\<close> calls of \<^verbatim>\<open>scrollText\<close>.\<close>

primrec scrolls :: "image \<Rightarrow> nat \<Rightarrow> scroller \<Rightarrow> scroller kern" where
  "scrolls img 0 sc = kreturn sc"
| "scrolls img (Suc n) sc = kbind (scrolls img n sc) (scrollText img)"

text \<open>What window \<open>k\<close> of the text shows: eight characters, blanks after the end.\<close>

definition shows_window :: "kstate \<Rightarrow> nat \<Rightarrow> bool" where
  "shows_window s k \<longleftrightarrow> (\<forall>i < 8. lcdMem s i = (scroll_text @ [32, 32]) ! (k + i))"

lemma blank_end: "37 \<le> j \<Longrightarrow> j < 40 \<Longrightarrow> (scroll_text @ [32, 32]) ! j = 32"
proof -
  assume "37 \<le> j" "j < 40"
  then have "j = 37 \<or> j = 38 \<or> j = 39" by linarith
  then show ?thesis by (auto simp: scroll_text_def nth_append)
qed

lemma next_window:
  assumes k: "k < 33" and prev: "k \<noteq> 0 \<longrightarrow> shows_window s (k - 1)" and c: "\<And>i. i < 38 - k \<Longrightarrow> c i = scroll_text ! (k + i)"
  shows "shows_window (s\<lparr>lcdMem := lcd_write c (38 - k) (lcdMem s)\<rparr>) k"
  unfolding shows_window_def
proof (intro allI impI)
  fix i :: nat
  assume i: "i < 8"
  show "lcdMem (s\<lparr>lcdMem := lcd_write c (38 - k) (lcdMem s)\<rparr>) i = (scroll_text @ [32, 32]) ! (k + i)"
  proof (cases "i < 38 - k")
    case True
    then have "k + i < 38" by simp
    then show ?thesis using True i c [OF True] by (simp add: lcd_write_def nth_append)
  next
    case False
    then have "lcdMem s i = 32" using i k prev blank_end [of "k - 1 + i"] by (simp add: shows_window_def)
    then show ?thesis using False i k blank_end [of "k + i"] by (simp add: lcd_write_def)
  qed
qed

text \<open>The state of the program before its call number \<open>n\<close>.\<close>

definition scrolling :: "image \<Rightarrow> nat \<Rightarrow> scroller \<Rightarrow> kstate \<Rightarrow> bool" where
  "scrolling img n sc s \<longleftrightarrow> lcd_open s (scHandle sc) \<and> str_at (mem s) (scroller_text img) scroll_text
     \<and> pek sc = scroller_text img + of_nat (n mod 33) \<and> scLength sc = of_nat (38 - n mod 33) \<and> moreLength sc = 38
     \<and> (n \<noteq> 0 \<longrightarrow> shows_window s ((n - 1) mod 33))"

lemma str_at_nth:
  "str_at M a xs \<Longrightarrow> i < length xs \<Longrightarrow> M (a + of_nat i) = xs ! i \<and> a + of_nat i \<noteq> 0"
proof (induction xs arbitrary: a i)
  case (Cons x xs)
  then show ?case
    using Cons.IH [of "a + 1" "i - 1"] by (cases i) (auto simp: add.assoc)
qed simp

lemma next_scroll: "Suc n mod 33 = (if n mod 33 = 32 then 0 else Suc (n mod 33))" for n :: nat
  by (simp add: mod_Suc)

lemma scrollText_scrolling:
  assumes "scrolling img n sc s"
  shows "returns (scrollText img sc) s (\<lambda>sc t. scrolling img (Suc n) sc t)"
proof -
  let ?T = "scroller_text img" and ?k = "n mod 33"
  have k: "?k < 33" by simp
  have sc: "lcd_open s (scHandle sc)" "str_at (mem s) ?T scroll_text" "pek sc = ?T + of_nat ?k"
    "scLength sc = of_nat (38 - ?k)" "moreLength sc = 38" "n \<noteq> 0 \<longrightarrow> shows_window s ((n - 1) mod 33)"
    using assms by (simp_all add: scrolling_def)
  have len: "unat (scLength sc) = 38 - ?k"
    using sc(4) k by (simp add: of_nat_diff length_left)
  have at: "mem s (pek sc + of_nat i) = scroll_text ! (?k + i)" "pek sc + of_nat i \<noteq> 0" if "i < 38 - ?k" for i
    using str_at_nth [OF sc(2), of "?k + i"] that sc(3) by (simp_all add: add.assoc)
  have prev: "?k \<noteq> 0 \<longrightarrow> shows_window s (?k - 1)" using sc(6) by (cases n) (auto simp: mod_Suc split: if_splits)
  let ?t = "s\<lparr>lcdMem := lcd_write (\<lambda>i. mem s (pek sc + of_nat i)) (38 - ?k) (lcdMem s)\<rparr>"
  have W: "IoWriteFile (scHandle sc) (pek sc) (scLength sc) s = Some (Return 0 ?t)"
    using IoWriteFile_lcd [OF sc(1), of "scLength sc" "pek sc"] at(2) len by simp
  have new: "shows_window ?t ?k" by (rule next_window [OF k prev]) (rule at(1))
  have five: "scLength sc - 1 = 5 \<longleftrightarrow> ?k = 32"
  proof -
    have "unat (scLength sc - 1) = 37 - ?k"
      using len k by (subst unat_minus_one) (auto simp: unat_eq_0)
    then show ?thesis using k by (simp add: word_unat_eq_iff) linarith
  qed
  have "scrollText img sc s = Some (Return (if ?k = 32 then sc\<lparr>pek := ?T, scLength := 38\<rparr>
      else sc\<lparr>pek := pek sc + 1, scLength := scLength sc - 1\<rparr>) ?t)"
    using five sc(5) by (simp add: scrollText_def kcall_def kbind_run(1) kthen_run(1) kprim_run W Let_def)
  then show ?thesis
    using new sc k by (simp add: returns_def scrolling_def next_scroll of_nat_diff add.assoc)
qed

lemma scrolls_scrolling:
  "scrolling img 0 sc s \<Longrightarrow> returns (scrolls img n sc) s (scrolling img n)"
proof (induction n)
  case (Suc n)
  then show ?case by (simp add: returns_kbind) (rule returns_mono [OF Suc.IH], simp, rule scrollText_scrolling)
qed (simp add: kern)

lemma scrollerInit_scrolling:
  assumes "CreateFile sys 108 = IoCreateFile 108" and "lcd_ready s" and "str_at (mem s) (scroller_text img) scroll_text"
  shows "returns (scrollerInit sys img) s (scrolling img 0)"
proof -
  have len: "returns (RtlStringLength (scroller_text img)) M (\<lambda>r N. r = 38 \<and> N = M)"
    if "M = mem s" for M
    using RtlStringLength_str [OF assms(3)] that by simp
  show ?thesis
    unfolding scrollerInit_def assms(1) returns_kbind returns_on_mem
    by (rule returns_mono [OF IoCreateFile_lcd [OF assms(2)]], elim conjE, rule returns_mono [OF len], assumption)
       (use assms(3) in \<open>simp add: kern scrolling_def\<close>)
qed

text \<open>C39: the scrolling text: when the program has opened the display and called \<^verbatim>\<open>scrollText\<close> \<open>n + 1\<close>
  times, the display shows the eight characters of the text from position \<open>n mod 33\<close> on, blank after its end, so the whole
  text goes by and starts over for ever; the pointer and the remaining length belong to the next position.\<close>

theorem scroller_correct:
  assumes "CreateFile sys 108 = IoCreateFile 108" and "lcd_ready s" and "str_at (mem s) (scroller_text img) scroll_text"
  shows "returns (kbind (scrollerInit sys img) (scrolls img (Suc n))) s (\<lambda>sc t.
      (\<forall>i < 8. lcdMem t i = (scroll_text @ [32, 32]) ! (n mod 33 + i))
    \<and> pek sc = scroller_text img + of_nat (Suc n mod 33) \<and> unat (scLength sc) = 38 - Suc n mod 33)"
  unfolding returns_kbind
  by (rule returns_mono [OF scrollerInit_scrolling [OF assms]], rule returns_mono [OF scrolls_scrolling], assumption)
     (auto simp: scrolling_def shows_window_def of_nat_diff length_left)

section \<open>An example\<close>

definition lcd_demo :: kstate where
  "lcd_demo = boot_state\<lparr>mem := poke (\<lambda>_. 0) 0x7000 (scroll_text @ [0]), KeCurrentProcess := 0x1000,
     procs := [0x1000 \<mapsto> demo_process 1 running 3], headers := [0x500 \<mapsto> demo_header 0 1 0],
     fileType := 0x100, lcdFile := 0x520, files := [0x520 \<mapsto> \<lparr>fileWrite = IoWriteLcdMethod, fileRead = NoIoMethod\<rparr>]\<rparr>"

definition scroller_image :: image where
  "scroller_image = \<lparr>literal = (\<lambda>_. 0x7000), code_address = (\<lambda>_. 0), commandBuffer = 0, stack_buffer = 0,
     stack_info = \<lparr>piState = ready, piRunningProgram = 0, piPID = 0, piPriority = 0, piCPUTime = 0\<rparr>\<rparr>"

text \<open>System calls that reach the kernel for files only.\<close>

definition file_calls :: system_calls where
  "file_calls = \<lparr>Sleep = (\<lambda>_. kreturn ()), GetProcessId = kreturn 0, GetPid = (\<lambda>_ _. kreturn 0),
     GetProcessPriority = kreturn 0, KillMe = kreturn (), CreateProcess = (\<lambda>_ _ _ _. kreturn 0), CreateFile = IoCreateFile,
     WriteFile = IoWriteFile, ReadFile = IoReadFile, KillByPID = (\<lambda>_ _. kreturn 0), SendMessage = (\<lambda>_ _ _ _. kreturn 0),
     ReceiveFirst = (\<lambda>_. kreturn 0), ReceiveType = (\<lambda>_ _. kreturn 0), GetMessageSize = (\<lambda>_. kreturn 0),
     CopyMessage = (\<lambda>_ _ _. kreturn 0), DeleteMessage = (\<lambda>_. kreturn 0), ChangePriority = (\<lambda>_ _. kreturn 0),
     GetProcessInfo = (\<lambda>_ _ _. kreturn 0), SuperviseProc = (\<lambda>_ _. kreturn 0), Malloc = (\<lambda>_. kreturn 0),
     Free = (\<lambda>_. kreturn 0), GetUsedMemSum = kreturn 0, WaitForSingleObject = (\<lambda>_. kreturn 0),
     CopyArgs = (\<lambda>_ _. kreturn 0), CloseHandle = (\<lambda>_. kreturn 0)\<rparr>"

lemma demo_free_slot: "free_slot (demo_process 1 running 3) = Some 0"
  by (simp add: free_slot_def MAX_HANDLE_COUNT_def upt_conv_Cons)

lemma lcd_demo_ready: "lcd_ready lcd_demo"
  unfolding lcd_ready_def
  by (intro conjI exI [of _ "demo_process 1 running 3"] exI [of _ "0::nat"] exI [of _ "0x500 :: addr"]
        exI [of _ "demo_header 0 1 0"] exI [of _ "\<lparr>fileWrite = IoWriteLcdMethod, fileRead = NoIoMethod\<rparr>"])
     (simp_all add: lcd_demo_def demo_free_slot demo_header_def BODY_OFFSET_def)

lemma lcd_demo_text: "str_at (mem lcd_demo) (scroller_text scroller_image) scroll_text"
proof -
  have "0 \<notin> span (0x7000 :: addr) (Suc 38)" by (rule span_nonnull) simp_all
  moreover have "0 \<notin> set scroll_text" by (simp add: scroll_text_def)
  ultimately show ?thesis
    using str_at_poke [of "0x7000" scroll_text "\<lambda>_. 0"]
    by (simp add: lcd_demo_def scroller_text_def scroller_image_def)
qed

lemma scroller_correct_witness:
  "returns (kbind (scrollerInit file_calls scroller_image) (scrolls scroller_image (Suc 7))) lcd_demo
     (\<lambda>sc t. map (lcdMem t) [0 ..< 8] = map of_char ''Look mom'')"
proof -
  have look: "map ((!) (scroll_text @ [32, 32])) [7 ..< 15] = map of_char ''Look mom''"
    by code_simp
  show ?thesis
    by (rule returns_mono [OF scroller_correct [of file_calls lcd_demo scroller_image 7, OF _ lcd_demo_ready lcd_demo_text]])
       (use look in \<open>auto simp: upt_conv_Cons file_calls_def\<close>)
qed

end
