(* ===== verification/Win32.thy ===== *)
theory Win32
  imports RtlMem
begin

text \<open>
  The simulator that runs the kernel as a Windows program: \<^verbatim>\<open>base/hal/win32\<close> and
  \<^verbatim>\<open>base/ke/win32\<close>.  Two threads stand for the timer and the keyboard; an interrupt stops the
  thread of the operating system and makes it run the handler on a stack of its own.

  Windows is a parameter: the record \<open>windows\<close> holds the functions of \<^verbatim>\<open>include/win32/minwin.h\<close>
  that the code calls, over a state \<open>'w\<close> about which nothing is assumed here.
\<close>

section \<open>The processor context of Windows\<close>

record FLOATING_SAVE_AREA =
  ControlWord :: u32
  StatusWord :: u32
  TagWord :: u32
  ErrorOffset :: u32
  ErrorSelector :: u32
  DataOffset :: u32
  DataSelector :: u32
  RegisterArea :: "byte list"
  Cr0NpxState :: u32

record WIN_CONTEXT =
  ContextFlags :: u32
  Dr0 :: u32
  Dr1 :: u32
  Dr2 :: u32
  Dr3 :: u32
  Dr6 :: u32
  Dr7 :: u32
  FloatSave :: FLOATING_SAVE_AREA
  SegGs :: u32
  SegFs :: u32
  SegEs :: u32
  SegDs :: u32
  Edi :: u32
  Esi :: u32
  Ebx :: u32
  Edx :: u32
  Ecx :: u32
  Eax :: u32
  Ebp :: u32
  Eip :: u32
  SegCs :: u32
  EFlags :: u32
  Esp :: u32
  SegSs :: u32
  ExtendedRegisters :: "byte list"

definition CONTEXT_i386 :: u32 where "CONTEXT_i386 = 0x00010000"
definition CONTEXT_CONTROL :: u32 where "CONTEXT_CONTROL = or CONTEXT_i386 1"
definition CONTEXT_INTEGER :: u32 where "CONTEXT_INTEGER = or CONTEXT_i386 2"
definition CONTEXT_SEGMENTS :: u32 where "CONTEXT_SEGMENTS = or CONTEXT_i386 4"
definition CONTEXT_FULL :: u32 where
  "CONTEXT_FULL = or CONTEXT_CONTROL (or CONTEXT_INTEGER CONTEXT_SEGMENTS)"

definition EXCEPTION_STACK_SIZE :: u32 where "EXCEPTION_STACK_SIZE = 16384"
definition INFINITE :: u32 where "INFINITE = 0xFFFFFFFF"
definition STD_INPUT_HANDLE :: u32 where "STD_INPUT_HANDLE = - 10"
definition STD_OUTPUT_HANDLE :: u32 where "STD_OUTPUT_HANDLE = - 11"
definition ENABLE_PROCESSED_INPUT :: u32 where "ENABLE_PROCESSED_INPUT = 1"
definition THREAD_PRIORITY_HIGHEST :: u32 where "THREAD_PRIORITY_HIGHEST = 2"
definition THREAD_ALL_ACCESS :: u32 where "THREAD_ALL_ACCESS = or 0x000F0000 (or 0x00100000 0x3FF)"

record WIN_FRAME =
  wfContext :: WIN_CONTEXT
  wfReason :: u32

section \<open>What the code calls\<close>

record 'w windows =
  memory_of :: "'w \<Rightarrow> memory"
  win_printf :: "string \<Rightarrow> int \<Rightarrow> ('w, unit) kmonad"
  WriteFile :: "u32 \<Rightarrow> addr \<Rightarrow> u32 \<Rightarrow> ('w, u32) kmonad"
  ReadFile_char :: "u32 \<Rightarrow> ('w, byte) kmonad"
  GetStdHandle :: "u32 \<Rightarrow> ('w, u32) kmonad"
  SetConsoleTextAttribute :: "u32 \<Rightarrow> 16 word \<Rightarrow> ('w, u32) kmonad"
  SetConsoleMode :: "u32 \<Rightarrow> u32 \<Rightarrow> ('w, u32) kmonad"
  VirtualAlloc :: "addr \<Rightarrow> u32 \<Rightarrow> u32 \<Rightarrow> u32 \<Rightarrow> ('w, addr) kmonad"
  CreateThread :: "addr \<Rightarrow> ('w, u32) kmonad"
  OpenThread :: "u32 \<Rightarrow> bool \<Rightarrow> u32 \<Rightarrow> ('w, u32) kmonad"
  GetCurrentThreadId :: "('w, u32) kmonad"
  ResumeThread :: "u32 \<Rightarrow> ('w, u32) kmonad"
  SuspendThread :: "u32 \<Rightarrow> ('w, u32) kmonad"
  SetThreadPriority :: "u32 \<Rightarrow> u32 \<Rightarrow> ('w, u32) kmonad"
  GetThreadContext :: "u32 \<Rightarrow> WIN_CONTEXT \<Rightarrow> ('w, WIN_CONTEXT) kmonad"
  SetThreadContext :: "u32 \<Rightarrow> WIN_CONTEXT \<Rightarrow> ('w, u32) kmonad"
  CreateMutex :: "bool \<Rightarrow> ('w, u32) kmonad"
  ReleaseMutex :: "u32 \<Rightarrow> ('w, u32) kmonad"
  CreateEvent :: "bool \<Rightarrow> bool \<Rightarrow> ('w, u32) kmonad"
  SetEvent :: "u32 \<Rightarrow> ('w, u32) kmonad"
  WaitForSingleObject :: "u32 \<Rightarrow> u32 \<Rightarrow> ('w, u32) kmonad"
  win_Sleep :: "u32 \<Rightarrow> ('w, unit) kmonad"

text \<open>
  The globals of the simulator, and Windows.  \<open>exceptionFrame\<close> is the structure on the stack of
  \<^verbatim>\<open>DoInterrupt\<close> whose address the handler gets; only one interrupt at a time is inside.
\<close>

record 'w simulator =
  world :: 'w
  hConsoleIn :: u32
  hConsoleOut :: u32
  CurrentConsoleAttribute :: "16 word"
  hInterruptMutex :: u32
  hOsThread :: u32
  hInterruptProcessedEvent :: u32
  exceptionStack :: addr
  interruptCounter :: u32
  exceptionFrame :: WIN_FRAME

type_synonym ('w, 'a) sim = "('w simulator, 'a) kmonad"

definition on_world :: "('w, 'a) kmonad \<Rightarrow> ('w, 'a) sim" where
  "on_world m = (\<lambda>s. case m (world s) of
       None \<Rightarrow> None
     | Some (Halt h) \<Rightarrow> Some (Halt h)
     | Some (Return a w) \<Rightarrow> Some (Return a (s\<lparr>world := w\<rparr>)))"

text \<open>A call whose result is not used, and a function that only reads memory.\<close>

definition win_call :: "('w, 'a) kmonad \<Rightarrow> ('w, unit) sim" where
  "win_call m = kbind (on_world m) (\<lambda>_. kreturn ())"

definition on_memory :: "'w windows \<Rightarrow> (memory, 'a) kmonad \<Rightarrow> ('w, 'a) sim" where
  "on_memory win m = (\<lambda>s. case m (memory_of win (world s)) of
       None \<Rightarrow> None
     | Some (Halt h) \<Rightarrow> Some (Halt h)
     | Some (Return a M) \<Rightarrow> Some (Return a s))"

section \<open>The display, \<^verbatim>\<open>display.c\<close>\<close>

definition HalDisplayString_win32 :: "'w windows \<Rightarrow> addr \<Rightarrow> ('w, unit) sim" where
  "HalDisplayString_win32 win string =
     kbind (kget hConsoleOut) (\<lambda>h.
     kbind (on_memory win (RtlStringLength string)) (\<lambda>n.
     win_call (WriteFile win h string n)))"

definition set_attribute :: "'w windows \<Rightarrow> 16 word \<Rightarrow> 16 word \<Rightarrow> ('w, unit) sim" where
  "set_attribute win keep bits =
     kthen (kmodify (\<lambda>s. s\<lparr>CurrentConsoleAttribute := and (CurrentConsoleAttribute s) keep\<rparr>))
     (kthen (kmodify (\<lambda>s. s\<lparr>CurrentConsoleAttribute := or (CurrentConsoleAttribute s) bits\<rparr>))
     (kbind (kget hConsoleOut) (\<lambda>h.
      kbind (kget CurrentConsoleAttribute) (\<lambda>a. win_call (SetConsoleTextAttribute win h a)))))"

definition HalSetForegroundColor_win32 :: "'w windows \<Rightarrow> byte \<Rightarrow> ('w, unit) sim" where
  "HalSetForegroundColor_win32 win color = set_attribute win 0xF0 (ucast color)"

definition HalSetBackgroundColor_win32 :: "'w windows \<Rightarrow> byte \<Rightarrow> ('w, unit) sim" where
  "HalSetBackgroundColor_win32 win color = set_attribute win 0x0F (push_bit 4 (ucast color))"

definition HalClearDisplay_win32 :: "('w, unit) sim" where
  "HalClearDisplay_win32 = kreturn ()"

section \<open>Interrupts, \<^verbatim>\<open>sandbox.c\<close>\<close>

text \<open>\<open>frame\<close> is the address of \<open>exceptionFrame\<close>, \<open>handler\<close> that of \<^verbatim>\<open>HalHandleException\<close>.\<close>

definition handler_context :: "addr \<Rightarrow> addr \<Rightarrow> addr \<Rightarrow> WIN_CONTEXT \<Rightarrow> WIN_CONTEXT" where
  "handler_context handler frame stack c =
     c\<lparr>Eip := handler, Ecx := frame, Esp := stack + EXCEPTION_STACK_SIZE - 32\<rparr>"

text \<open>From the context of the stopped thread to its restoration.\<close>

definition run_handler :: "'w windows \<Rightarrow> addr \<Rightarrow> addr \<Rightarrow> u32 \<Rightarrow> ('w, unit) sim" where
  "run_handler win handler frame reason =
     kbind (kget hOsThread) (\<lambda>os.
     kbind (kget (\<lambda>s. (wfContext (exceptionFrame s))\<lparr>ContextFlags := CONTEXT_FULL\<rparr>)) (\<lambda>request.
     kbind (on_world (GetThreadContext win os request)) (\<lambda>c.
     kthen (kmodify (\<lambda>s. s\<lparr>exceptionFrame := \<lparr>wfContext = c, wfReason = reason\<rparr>\<rparr>))
     (kbind (kget exceptionStack) (\<lambda>stack.
     kthen (win_call (SetThreadContext win os (handler_context handler frame stack c)))
     (kthen (win_call (ResumeThread win os))
     (kbind (kget hInterruptProcessedEvent) (\<lambda>event.
      kthen (win_call (WaitForSingleObject win event INFINITE))
      (kthen (win_call (SuspendThread win os))
      (kbind (kget (\<lambda>s. wfContext (exceptionFrame s))) (\<lambda>saved.
       win_call (SetThreadContext win os saved))))))))))))"

definition DoInterrupt :: "'w windows \<Rightarrow> addr \<Rightarrow> addr \<Rightarrow> u32 \<Rightarrow> ('w, unit) sim" where
  "DoInterrupt win handler frame reason =
     kbind (kget hInterruptMutex) (\<lambda>mutex.
     kbind (kget hOsThread) (\<lambda>os.
     kthen (win_call (WaitForSingleObject win mutex INFINITE))
     (kthen (win_call (SuspendThread win os))
     (kthen (run_handler win handler frame reason)
     (kthen (win_call (ResumeThread win os))
     (win_call (ReleaseMutex win mutex)))))))"

definition reader_step :: "'w windows \<Rightarrow> addr \<Rightarrow> addr \<Rightarrow> unit \<Rightarrow> ('w, unit + u32) sim" where
  "reader_step win handler frame _ =
     kbind (kget hConsoleIn) (\<lambda>h.
     kbind (on_world (ReadFile_char win h)) (\<lambda>buffer.
     kthen (on_world (win_printf win (''read: %c'' @ [CHR 0x0A]) (sint buffer)))
     (kthen (DoInterrupt win handler frame 1)
     (kreturn (Inl ())))))"

definition HalReaderThread :: "'w windows \<Rightarrow> addr \<Rightarrow> addr \<Rightarrow> ('w, u32) sim" where
  "HalReaderThread win handler frame = kloop (reader_step win handler frame) ()"

definition timer_step :: "'w windows \<Rightarrow> addr \<Rightarrow> addr \<Rightarrow> unit \<Rightarrow> ('w, unit + u32) sim" where
  "timer_step win handler frame _ =
     kthen (on_world (win_Sleep win 50))
     (kthen (DoInterrupt win handler frame 0)
     (kreturn (Inl ())))"

definition HalTimerThread :: "'w windows \<Rightarrow> addr \<Rightarrow> addr \<Rightarrow> ('w, u32) sim" where
  "HalTimerThread win handler frame = kloop (timer_step win handler frame) ()"

section \<open>Start and handler, \<^verbatim>\<open>init.c\<close>\<close>

definition HalGetFirstUsableMemoryAddress_win32 :: addr where
  "HalGetFirstUsableMemoryAddress_win32 = 0"

text \<open>The handler up to its endless loop, which ends only with the context of the thread.\<close>

definition HalHandleException_win32 :: "'w windows \<Rightarrow> ('w, unit) sim" where
  "HalHandleException_win32 win =
     kthen (kmodify (\<lambda>s. s\<lparr>interruptCounter := interruptCounter s + 1\<rparr>))
     (kbind (kget (\<lambda>s. sint (interruptCounter s))) (\<lambda>n.
      kthen (kwhen (n smod 100 = 0) (on_world (win_printf win (''%d'' @ [CHR 0x0A]) n)))
      (kbind (kget hInterruptProcessedEvent) (\<lambda>e. win_call (SetEvent win e)))))"

definition HalInitialize_win32 :: "'w windows \<Rightarrow> addr \<Rightarrow> addr \<Rightarrow> ('w, unit) sim" where
  "HalInitialize_win32 win timer_thread reader_thread =
     kbind (on_world (GetStdHandle win STD_INPUT_HANDLE)) (\<lambda>h.
     kthen (kmodify (\<lambda>s. s\<lparr>hConsoleIn := h\<rparr>))
     (kbind (on_world (GetStdHandle win STD_OUTPUT_HANDLE)) (\<lambda>h'.
     kthen (kmodify (\<lambda>s. s\<lparr>hConsoleOut := h'\<rparr>))
     (kthen (win_call (SetConsoleMode win h ENABLE_PROCESSED_INPUT))
     (kbind (on_world (VirtualAlloc win 0 EXCEPTION_STACK_SIZE 0x1000 0x04)) (\<lambda>stack.
     kthen (kmodify (\<lambda>s. s\<lparr>exceptionStack := stack\<rparr>))
     (kbind (on_world (GetCurrentThreadId win)) (\<lambda>self.
     kbind (on_world (OpenThread win THREAD_ALL_ACCESS False self)) (\<lambda>os.
     kthen (kmodify (\<lambda>s. s\<lparr>hOsThread := os\<rparr>))
     (kbind (on_world (CreateMutex win True)) (\<lambda>mutex.
     kthen (kmodify (\<lambda>s. s\<lparr>hInterruptMutex := mutex\<rparr>))
     (kbind (on_world (CreateEvent win False False)) (\<lambda>event.
     kthen (kmodify (\<lambda>s. s\<lparr>hInterruptProcessedEvent := event\<rparr>))
     (kbind (on_world (CreateThread win timer_thread)) (\<lambda>timer.
     kbind (on_world (CreateThread win reader_thread)) (\<lambda>reader.
     kthen (win_call (SetThreadPriority win timer THREAD_PRIORITY_HIGHEST))
     (win_call (SetThreadPriority win reader THREAD_PRIORITY_HIGHEST))))))))))))))))))"

section \<open>The interrupt flag, \<^verbatim>\<open>ke/win32/misc.c\<close>\<close>

definition KeDisableInterrupts_win32 :: "'w windows \<Rightarrow> ('w, bool) sim" where
  "KeDisableInterrupts_win32 win =
     kbind (kget hInterruptMutex) (\<lambda>mutex.
     kthen (win_call (WaitForSingleObject win mutex INFINITE)) (kreturn True))"

definition KeRestoreInterrupts_win32 :: "'w windows \<Rightarrow> bool \<Rightarrow> ('w, unit) sim" where
  "KeRestoreInterrupts_win32 win enable =
     kwhen enable (kbind (kget hInterruptMutex) (\<lambda>mutex. win_call (ReleaseMutex win mutex)))"

definition KeYieldProcessor_win32 :: "('w, unit) sim" where
  "KeYieldProcessor_win32 = kreturn ()"

end
