(* ===== verification/Win32Spec.thy ===== *)
theory Win32Spec
  imports Win32
begin

text \<open>
  Properties of the simulator: an interrupt does not show in the registers of the interrupted
  thread, and the colours of the console are what the two colour functions were given.
  \<open>thread_laws\<close> and \<open>console_law\<close> are what the code relies on of Windows.
\<close>

section \<open>Calls of Windows\<close>

lemma returns_on_world [kern]:
  "returns (on_world m) s Q = returns m (world s) (\<lambda>a w. Q a (s\<lparr>world := w\<rparr>))"
  by (auto simp: on_world_def returns_def split: option.splits outcome.splits)

lemma returns_win_call [kern]:
  "returns (win_call m) s Q = returns m (world s) (\<lambda>_ w. Q () (s\<lparr>world := w\<rparr>))"
  by (simp add: win_call_def kern)

section \<open>Interrupts\<close>

text \<open>The registers that \<open>CONTEXT_FULL\<close> selects.\<close>

definition full_part :: "WIN_CONTEXT \<Rightarrow> u32 list" where
  "full_part c = [SegGs c, SegFs c, SegEs c, SegDs c, Edi c, Esi c, Ebx c, Edx c, Ecx c, Eax c,
     Ebp c, Eip c, SegCs c, EFlags c, Esp c, SegSs c]"

text \<open>
  What happens to the thread of the operating system, in the order in which it happens: the
  interrupt mutex is taken, the thread is stopped with some registers and let go with some
  registers, the event that tells that an interrupt has been processed is consumed, and the mutex is given
  back while the thread is suspended so many times.
\<close>

datatype thread_event = Locked | Stopped WIN_CONTEXT | Resumed WIN_CONTEXT | Handled | Unlocked nat

text \<open>
  What the code relies on of Windows, for the mutex \<open>m\<close>, the thread \<open>h\<close> and the event \<open>e\<close>.
  \<open>regs\<close> are the registers of the thread and \<open>stops\<close> its suspend count.  The registers of a thread
  can be read and written only while it is suspended; nothing is known of the two calls on a
  thread that runs.  Nothing is known either of the registers of a running thread from one call to the
  next.  The wait for the event returns when the thread runs and was sent into the handler, which
  sets the event (\<open>HalHandleException_win32\<close>); a wait for the event of a thread that is
  stopped or was sent elsewhere might not return.  Everybody who gives the mutex back has let the
  thread run, which is what the property shows of \<^verbatim>\<open>DoInterrupt\<close>, too.
\<close>

definition thread_laws ::
  "'w windows \<Rightarrow> ('w \<Rightarrow> WIN_CONTEXT) \<Rightarrow> ('w \<Rightarrow> nat) \<Rightarrow> ('w \<Rightarrow> thread_event list)
     \<Rightarrow> u32 \<Rightarrow> u32 \<Rightarrow> u32 \<Rightarrow> addr \<Rightarrow> bool" where
  "thread_laws win regs stops trail m h e handler \<longleftrightarrow>
     (\<forall>w. returns (WaitForSingleObject win m INFINITE) w (\<lambda>_ v. stops v = 0 \<and> (\<exists>es. trail v = trail w @ es @ [Locked])))
   \<and> (\<forall>w. returns (SuspendThread win h) w (\<lambda>_ v. stops v = stops w + 1 \<and> (0 < stops w \<longrightarrow> regs v = regs w)
        \<and> trail v = trail w @ [Stopped (regs v)]))
   \<and> (\<forall>w c. 0 < stops w \<and> ContextFlags c = CONTEXT_FULL \<longrightarrow> returns (GetThreadContext win h c) w (\<lambda>d v.
        ContextFlags d = CONTEXT_FULL \<and> full_part d = full_part (regs w)
        \<and> regs v = regs w \<and> stops v = stops w \<and> trail v = trail w))
   \<and> (\<forall>w c. 0 < stops w \<and> ContextFlags c = CONTEXT_FULL \<longrightarrow> returns (SetThreadContext win h c) w (\<lambda>_ v.
        full_part (regs v) = full_part c \<and> stops v = stops w \<and> trail v = trail w))
   \<and> (\<forall>w. 0 < stops w \<longrightarrow> returns (ResumeThread win h) w (\<lambda>_ v. stops v = stops w - 1
        \<and> trail v = trail w @ [Resumed (regs w)]))
   \<and> (\<forall>w es c. stops w = 0 \<and> trail w = es @ [Resumed c] \<and> Eip c = handler \<longrightarrow>
        returns (WaitForSingleObject win e INFINITE) w (\<lambda>_ v. stops v = 0 \<and> trail v = trail w @ [Handled]))
   \<and> (\<forall>w. returns (ReleaseMutex win m) w (\<lambda>_ v. \<exists>es. trail v = trail w @ [Unlocked (stops w)] @ es))"

lemma thread_lawsD:
  assumes "thread_laws win regs stops trail m h e handler"
  shows "returns (WaitForSingleObject win m INFINITE) w (\<lambda>_ v. stops v = 0 \<and> (\<exists>es. trail v = trail w @ es @ [Locked]))"
    and "returns (SuspendThread win h) w (\<lambda>_ v. stops v = stops w + 1 \<and> (0 < stops w \<longrightarrow> regs v = regs w)
        \<and> trail v = trail w @ [Stopped (regs v)])"
    and "0 < stops w \<Longrightarrow> ContextFlags c = CONTEXT_FULL \<Longrightarrow> returns (GetThreadContext win h c) w (\<lambda>d v.
        ContextFlags d = CONTEXT_FULL \<and> full_part d = full_part (regs w)
        \<and> regs v = regs w \<and> stops v = stops w \<and> trail v = trail w)"
    and "0 < stops w \<Longrightarrow> ContextFlags c = CONTEXT_FULL \<Longrightarrow> returns (SetThreadContext win h c) w (\<lambda>_ v.
        full_part (regs v) = full_part c \<and> stops v = stops w \<and> trail v = trail w)"
    and "0 < stops w \<Longrightarrow> returns (ResumeThread win h) w (\<lambda>_ v. stops v = stops w - 1
        \<and> trail v = trail w @ [Resumed (regs w)])"
    and "stops w = 0 \<Longrightarrow> trail w = es @ [Resumed d] \<Longrightarrow> Eip d = handler \<Longrightarrow>
        returns (WaitForSingleObject win e INFINITE) w (\<lambda>_ v. stops v = 0 \<and> trail v = trail w @ [Handled])"
    and "returns (ReleaseMutex win m) w (\<lambda>_ v. \<exists>es. trail v = trail w @ [Unlocked (stops w)] @ es)"
  using assms unfolding thread_laws_def by blast+

lemma full_part_handler:
  "full_part d = full_part c \<Longrightarrow> full_part (handler_context handler frame stack d) = full_part (handler_context handler frame stack c)"
  by (simp add: full_part_def handler_context_def)

lemma handler_context_sel [simp]:
  "ContextFlags (handler_context handler frame stack c) = ContextFlags c" "Eip (handler_context handler frame stack c) = handler"
  by (simp_all add: handler_context_def)

lemma full_part_Eip: "full_part d = full_part c \<Longrightarrow> Eip d = Eip c"
  by (simp add: full_part_def)

lemma run_handler_trail:
  assumes laws: "thread_laws win regs stops trail m (hOsThread s) (hInterruptProcessedEvent s) handler"
    and stop: "stops (world s) = 1"
  shows "returns (run_handler win handler frame reason) s (\<lambda>_ t. \<exists>d x.
     trail (world t) = trail (world s) @ [Resumed d, Handled, Stopped x]
     \<and> full_part d = full_part (handler_context handler frame (exceptionStack s) (regs (world s)))
     \<and> full_part (regs (world t)) = full_part (regs (world s)) \<and> stops (world t) = 1
     \<and> wfReason (exceptionFrame t) = reason \<and> t = s\<lparr>world := world t, exceptionFrame := exceptionFrame t\<rparr>)"
proof -
  note L = thread_lawsD [OF laws]
  show ?thesis
    unfolding run_handler_def
    apply (simp add: kern)
    apply (rule returns_mono [OF L(3)], simp add: stop, simp, elim conjE)
    apply (rule returns_mono [OF L(4)], simp add: stop, simp, elim conjE)
    apply (rule returns_mono [OF L(5)], simp add: stop, elim conjE)
    apply (rule returns_mono [OF L(6)], simp add: stop, simp, simp add: full_part_Eip, elim conjE)
    apply (rule returns_mono [OF L(2)], elim conjE)
    apply (rule returns_mono [OF L(4)], simp, simp, elim conjE)
    apply (auto simp: stop dest: full_part_handler)
    done
qed

text \<open>C40: an interrupt of the simulator does not show in the interrupted thread.  Under the mutex the
  thread is stopped with some registers \<open>c\<close>, let go into the handler on the handler's stack with the
  frame as its argument, stopped again only after the handler has reported that it is done, and let go
  with the registers \<open>c\<close>: all control, integer and segment registers are those it was
  stopped with, whatever it and the handler did to them in between.  The mutex is given back
  when the thread runs, and the frame that the handler was given holds the reason.\<close>

theorem interrupt_transparent:
  assumes laws: "thread_laws win regs stops trail (hInterruptMutex s) (hOsThread s) (hInterruptProcessedEvent s) handler"
  shows "returns (DoInterrupt win handler frame reason) s (\<lambda>_ t. \<exists>es c d x r es'.
     trail (world t) = trail (world s) @ es
       @ [Locked, Stopped c, Resumed d, Handled, Stopped x, Resumed r, Unlocked 0] @ es'
     \<and> full_part d = full_part (handler_context handler frame (exceptionStack s) c)
     \<and> full_part r = full_part c
     \<and> wfReason (exceptionFrame t) = reason \<and> t = s\<lparr>world := world t, exceptionFrame := exceptionFrame t\<rparr>)"
proof -
  note L = thread_lawsD [OF laws]
  have run_trail: "\<exists>es c d x r.
      (\<exists>es'. trail w = trail (world s) @ es @ Locked # Stopped c # Resumed d # Handled # Stopped x # Resumed r # Unlocked 0 # es')
      \<and> full_part d = full_part (handler_context handler frame (exceptionStack s) c)
      \<and> full_part r = full_part c \<and> wfReason (exceptionFrame t) = reason
      \<and> t\<lparr>world := w\<rparr> = s\<lparr>world := w, exceptionFrame := exceptionFrame t\<rparr>"
    if "t = s\<lparr>world := world t, exceptionFrame := exceptionFrame t\<rparr>" "wfReason (exceptionFrame t) = reason"
      "trail w = trail (world s) @ es @ Locked # Stopped c # Resumed d # Handled # Stopped x # Resumed r # Unlocked 0 # es'"
      "full_part d = full_part (handler_context handler frame (exceptionStack s) c)" "full_part r = full_part c"
    for t w es c d x r es'
  proof -
    have "t\<lparr>world := w\<rparr> = s\<lparr>world := w, exceptionFrame := exceptionFrame t\<rparr>" by (subst that(1)) simp
    then show ?thesis using that(2-5) by blast
  qed
  show ?thesis
    unfolding DoInterrupt_def
    apply (simp add: kern)
    apply (rule returns_mono [OF L(1)], elim conjE exE)
    apply (rule returns_mono [OF L(2)], elim conjE)
    apply (rule returns_mono [OF run_handler_trail [where regs = regs and stops = stops and trail = trail
        and m = "hInterruptMutex s"]], simp add: laws, simp, elim conjE exE)
    apply (rule returns_mono [OF L(5)], simp, elim conjE)
    apply (rule returns_mono [OF L(7)], elim exE)
    subgoal for _ _ es _ ta _ t d x _ _ _ w es'
      by (rule run_trail [where es = es and es' = es' and c = "regs ta" and d = d and x = x and r = "regs (world t)"])
         simp_all
    done
qed

text \<open>A Windows with nothing but one thread: its registers are garbage when it is read while it
  runs, and the handler leaves 99 in a register.\<close>

definition zero_win_context :: WIN_CONTEXT where
  "zero_win_context = \<lparr>ContextFlags = CONTEXT_FULL, Dr0 = 0, Dr1 = 0, Dr2 = 0, Dr3 = 0, Dr6 = 0, Dr7 = 0,
     FloatSave = \<lparr>ControlWord = 0, StatusWord = 0, TagWord = 0, ErrorOffset = 0, ErrorSelector = 0,
       DataOffset = 0, DataSelector = 0, RegisterArea = replicate 80 0, Cr0NpxState = 0\<rparr>,
     SegGs = 0, SegFs = 0, SegEs = 0, SegDs = 0, Edi = 0, Esi = 0, Ebx = 0, Edx = 0, Ecx = 0, Eax = 0,
     Ebp = 0, Eip = 0x401000, SegCs = 0, EFlags = 0, Esp = 0, SegSs = 0, ExtendedRegisters = replicate 512 0\<rparr>"

record demo_world =
  dwRegs :: WIN_CONTEXT
  dwStops :: nat
  dwTrail :: "thread_event list"

definition demo_happens :: "(demo_world \<Rightarrow> demo_world) \<Rightarrow> (demo_world \<Rightarrow> thread_event) \<Rightarrow> (demo_world, u32) kmonad" where
  "demo_happens f ev = kthen (kmodify (\<lambda>w. (f w)\<lparr>dwTrail := dwTrail w @ [ev w]\<rparr>)) (kreturn 0)"

definition demo_wait :: "u32 \<Rightarrow> (demo_world, u32) kmonad" where
  "demo_wait h =
     (if h = 2 then demo_happens (dwStops_update (\<lambda>_. 0)) (\<lambda>_. Locked)
      else demo_happens (dwRegs_update (\<lambda>c. c\<lparr>Eax := 99\<rparr>)) (\<lambda>_. Handled))"

definition demo_windows :: "demo_world windows" where
  "demo_windows = \<lparr>memory_of = (\<lambda>_ _. 0), win_printf = (\<lambda>_ _. kreturn ()), WriteFile = (\<lambda>_ _ _. kreturn 1),
     ReadFile_char = (\<lambda>_. kreturn 0), GetStdHandle = (\<lambda>_. kreturn 1), SetConsoleTextAttribute = (\<lambda>_ _. kreturn 1),
     SetConsoleMode = (\<lambda>_ _. kreturn 1), VirtualAlloc = (\<lambda>_ _ _ _. kreturn 0x10000), CreateThread = (\<lambda>_. kreturn 5),
     OpenThread = (\<lambda>_ _ _. kreturn 7), GetCurrentThreadId = kreturn 7,
     ResumeThread = (\<lambda>_. demo_happens (dwStops_update (\<lambda>n. n - 1)) (\<lambda>w. Resumed (dwRegs w))),
     SuspendThread = (\<lambda>_. demo_happens (dwStops_update (\<lambda>n. n + 1)) (\<lambda>w. Stopped (dwRegs w))),
     SetThreadPriority = (\<lambda>_ _. kreturn 1),
     GetThreadContext = (\<lambda>h c. kget (\<lambda>w. if 0 < dwStops w then (dwRegs w)\<lparr>ContextFlags := ContextFlags c\<rparr> else c)),
     SetThreadContext = (\<lambda>h c. kthen (kmodify (\<lambda>w. if 0 < dwStops w then w\<lparr>dwRegs := c\<rparr> else w)) (kreturn 1)),
     CreateMutex = (\<lambda>_. kreturn 2), ReleaseMutex = (\<lambda>_. demo_happens id (\<lambda>w. Unlocked (dwStops w))),
     CreateEvent = (\<lambda>_ _. kreturn 3), SetEvent = (\<lambda>_. kreturn 1), WaitForSingleObject = (\<lambda>h _. demo_wait h),
     win_Sleep = (\<lambda>_. kreturn ())\<rparr>"

definition demo_simulator :: "demo_world simulator" where
  "demo_simulator = \<lparr>world = \<lparr>dwRegs = zero_win_context, dwStops = 0, dwTrail = []\<rparr>,
     hConsoleIn = 1, hConsoleOut = 1, CurrentConsoleAttribute = 7,
     hInterruptMutex = 2, hOsThread = 7, hInterruptProcessedEvent = 3, exceptionStack = 0x10000, interruptCounter = 0,
     exceptionFrame = \<lparr>wfContext = zero_win_context, wfReason = 0\<rparr>\<rparr>"

lemma demo_windows_laws: "thread_laws demo_windows dwRegs dwStops dwTrail 2 7 3 0x402000"
  by (simp add: thread_laws_def demo_windows_def demo_wait_def demo_happens_def kern full_part_def)

lemma interrupt_transparent_witness:
  "returns (DoInterrupt demo_windows 0x402000 0x9000 1) demo_simulator (\<lambda>_ t. \<exists>es c d x r es'.
     dwTrail (world t) = es @ [Locked, Stopped c, Resumed d, Handled, Stopped x, Resumed r, Unlocked 0] @ es'
     \<and> Eip d = 0x402000 \<and> full_part r = full_part c)"
proof -
  have s: "hInterruptMutex demo_simulator = 2" "hOsThread demo_simulator = 7" "hInterruptProcessedEvent demo_simulator = 3"
    "dwTrail (world demo_simulator) = []"
    by (simp_all add: demo_simulator_def)
  have "thread_laws demo_windows dwRegs dwStops dwTrail (hInterruptMutex demo_simulator) (hOsThread demo_simulator)
      (hInterruptProcessedEvent demo_simulator) 0x402000" unfolding s by (rule demo_windows_laws)
  from interrupt_transparent [OF this] show ?thesis
    by (rule returns_mono) (use s(4) in \<open>force dest: full_part_Eip\<close>)
qed

section \<open>Colours\<close>

lemma nibble_masks: "(0x0F :: 16 word) = mask 4" "(0xF0 :: 16 word) = push_bit 4 (mask 4)"
  by (simp_all add: mask_eq_exp_minus_1)

lemma nibble_bits: "f < 16 \<Longrightarrow> bit f n \<Longrightarrow> n < 4" for f :: byte
proof -
  assume f: "f < 16" "bit f n"
  have "unat f < 2 ^ 4" using f(1) by (simp add: word_less_nat_alt)
  then have "take_bit 4 (unat f) = unat f" by (simp add: take_bit_nat_eq_self)
  moreover have "bit (unat f) n" using f(2) by (simp add: bit_unsigned_iff bit_imp_le_length)
  ultimately show ?thesis by (metis bit_take_bit_iff)
qed

lemma set_nibbles:
   "f < 16 \<Longrightarrow> b < 16 \<Longrightarrow> or (and (or (and x 0xF0) (ucast f)) 0x0F) (push_bit 4 (ucast b)) = or (push_bit 4 (ucast b)) (ucast f :: 16 word)" for f b :: byte
  unfolding nibble_masks by (rule bit_word_eqI) (auto simp: bit_simps dest: nibble_bits)

lemma unat_nibbles:
   "f < 16 \<Longrightarrow> b < 16 \<Longrightarrow> unat (or (push_bit 4 (ucast b)) (ucast f :: 16 word)) = 16 * unat b + unat f" for f b :: byte
proof -
  assume f: "f < 16" "b < 16"
  have u: "unat f < 16" "unat b < 16" using f by (simp_all add: word_less_nat_alt)
  have "or (push_bit 4 (ucast b)) (ucast f :: 16 word) = push_bit 4 (ucast b) + ucast f"
    by (rule disjunctive_add [symmetric]) (auto simp: bit_simps dest: nibble_bits [OF f(1)])
  also have "\<dots> = of_nat (16 * unat b + unat f)"
    by (simp add: push_bit_eq_mult of_nat_unat mult.commute)
  also have "unat \<dots> = 16 * unat b + unat f"
  proof -
    have "16 * unat b + unat f < 2 ^ LENGTH(16)" using u by simp
    then show ?thesis by (simp only: unsigned_of_nat take_bit_nat_eq_self of_nat_id)
  qed
  finally show ?thesis .
qed

text \<open>After the foreground and then the background of the console are set, the attribute that
  Windows is given has the one in its low and the other in the next four bits, whatever it was before.\<close>

theorem console_colours:
  assumes "\<And>w h a. returns (SetConsoleTextAttribute win h a) w (\<lambda>_ _. True)" and "f < 16" and "b < 16"
  shows "returns (kthen (HalSetForegroundColor_win32 win f) (HalSetBackgroundColor_win32 win b)) s
    (\<lambda>_ t. unat (CurrentConsoleAttribute t) = 16 * unat b + unat f)"
  using assms(1) set_nibbles [OF assms(2,3)] unat_nibbles [OF assms(2,3)]
  by (simp add: HalSetForegroundColor_win32_def HalSetBackgroundColor_win32_def set_attribute_def kern)

lemma console_colours_witness:
  "returns (kthen (HalSetForegroundColor_win32 demo_windows 12) (HalSetBackgroundColor_win32 demo_windows 1)) demo_simulator
     (\<lambda>_ t. unat (CurrentConsoleAttribute t) = 16 * unat (1 :: byte) + unat (12 :: byte))"
  by (rule console_colours) (simp_all add: demo_windows_def kern)

end
