(* ===== verification/ScrollerHost.thy ===== *)
theory ScrollerHost
  imports Foo RtlMem
begin

text \<open>
  The scroller as a program of its own on the host, \<^verbatim>\<open>base/apps/scroller/scroller.c\<close>: it reads a line and
  prints it window by window.

  The addresses of its local arrays are given by \<open>led_arrays\<close>.  Its \<^verbatim>\<open>int\<close> variables are never negative and
  are natural numbers here.  \<^verbatim>\<open>gets\<close> stores the line that the user types, the argument \<open>line\<close>.
\<close>

record led_arrays =
  inputText :: addr
  beginText :: addr
  endText :: addr
  finalString :: addr
  ledBuffer :: addr

definition text_length_step :: "addr \<Rightarrow> nat \<Rightarrow> (memory, nat + nat) kmonad" where
  "text_length_step text n = kbind (rd (text + of_nat n)) (\<lambda>c. kreturn (if c \<noteq> 0 then Inl (n + 1) else Inr n))"

definition textLength :: "addr \<Rightarrow> (memory, nat) kmonad" where
  "textLength text = kloop (text_length_step text) 0"

definition copy_char :: "addr \<Rightarrow> addr \<Rightarrow> (memory, unit) kmonad" where
  "copy_char dest src = kbind (rd src) (\<lambda>c. wr dest c)"

definition printToLED :: "led_arrays \<Rightarrow> addr \<Rightarrow> nat \<Rightarrow> unit kern" where
  "printToLED ar text position =
     kthen (kfor [0 ..< 8] (\<lambda>index. on_mem (copy_char (ledBuffer ar + of_nat index) (text + of_nat (position + index)))))
     (kthen (print [10]) (print_string (ledBuffer ar)))"

definition host_gets :: "byte list \<Rightarrow> addr \<Rightarrow> unit kern" where
  "host_gets line a = kmodify (\<lambda>s. s\<lparr>mem := poke (mem s) a (line @ [0])\<rparr>)"

definition blank_step :: "led_arrays \<Rightarrow> nat \<Rightarrow> unit kern" where
  "blank_step ar i =
     kthen (on_mem (wr (beginText ar + of_nat i) 32)) (on_mem (wr (endText ar + of_nat i) 32))"

text \<open>The character that goes to position \<open>i\<close>: from the first blanks, the line, or the last blanks.\<close>

definition pad_source :: "led_arrays \<Rightarrow> nat \<Rightarrow> nat \<Rightarrow> addr" where
  "pad_source ar stringLength i =
     (if i < 7 then beginText ar + of_nat i
      else if 6 < i \<and> i < stringLength - 7 then inputText ar + of_nat (i - 7)
      else endText ar + of_nat (stringLength - i))"

definition pad_step :: "led_arrays \<Rightarrow> nat \<Rightarrow> nat \<Rightarrow> (nat + unit) kern" where
  "pad_step ar stringLength i =
     (if i < stringLength then
        kthen (on_mem (copy_char (finalString ar + of_nat i) (pad_source ar stringLength i)))
        (kreturn (Inl (i + 1)))
      else kreturn (Inr ()))"

definition prepare_text :: "led_arrays \<Rightarrow> byte list \<Rightarrow> unit kern" where
  "prepare_text ar line =
     kthen (host_gets line (inputText ar))
     (kbind (on_mem (textLength (inputText ar))) (\<lambda>n.
      let stringLength = 14 + n in
      kthen (kfor [0 ..< 8] (blank_step ar))
      (kthen (kfor [0 ..< stringLength + 1] (\<lambda>i. on_mem (wr (finalString ar + of_nat i) 0)))
      (kloop (pad_step ar stringLength) 0))))"

definition led_step :: "led_arrays \<Rightarrow> nat \<Rightarrow> (nat + unit) kern" where
  "led_step ar i =
     kthen (printToLED ar (finalString ar) i)
     (kbind (on_mem (rd (finalString ar + of_nat (i + 1 + 7)))) (\<lambda>c.
      kreturn (Inl (if c = 0 then 0 else i + 1))))"

definition scrollText_host :: "led_arrays \<Rightarrow> byte list \<Rightarrow> unit kern" where
  "scrollText_host ar line = kthen (prepare_text ar line) (kloop (led_step ar) 0)"

definition scroller_main :: "led_arrays \<Rightarrow> byte list \<Rightarrow> u32 kern" where
  "scroller_main ar line = kthen (scrollText_host ar line) (kreturn 0)"

end
