(* ===== verification/LedSpec.thy ===== *)
theory LedSpec
  imports ScrollerHost FooDump ScrollerSpec
begin

text \<open>
  What the scroller of the host prints.  The program writes and reads one byte past the end of four of its
  arrays; \<open>led_layout\<close> says that these bytes belong to nobody else.
\<close>

section \<open>Loops\<close>

lemma upt_split: "[0 ..< n] = ds @ x # es \<Longrightarrow> x = length ds \<and> length ds < n"
proof -
  assume u: "[0 ..< n] = ds @ x # es"
  have "length [0 ..< n] = length (ds @ x # es)" by (rule arg_cong [OF u])
  then have l: "length ds < n" by simp
  have "x = [0 ..< n] ! length ds" unfolding u by simp
  then show ?thesis using l by simp
qed

lemma span_Suc: "span a (Suc k) = insert (a + of_nat k) (span a k)"
  using span_add [of a k 1] by simp

lemma textLength_str: "str_at M a xs \<Longrightarrow> returns (textLength a) M (\<lambda>n N. n = length xs \<and> N = M)"
  unfolding textLength_def
proof (rule returns_kloop_rule [where I = "\<lambda>n N. n \<le> length xs \<and> N = M" and m = "\<lambda>n _. length xs - n"])
  fix n N
  assume xs: "str_at M a xs" and n: "n \<le> length xs \<and> N = M"
  have "str_at M (a + of_nat n) (drop n xs)" using str_at_drop [of M a "take n xs" "drop n xs"] xs n by simp
  moreover have "drop n xs = (if n = length xs then [] else xs ! n # drop (Suc n) xs)"
    using n by (simp add: Cons_nth_drop_Suc)
  ultimately show "returns (text_length_step a n) N (\<lambda>r N. case r of
      Inl m \<Rightarrow> (m \<le> length xs \<and> N = M) \<and> length xs - m < length xs - n | Inr m \<Rightarrow> m = length xs \<and> N = M)"
    using n by (auto simp: text_length_step_def kern split: if_splits)
qed simp

definition blanked :: "led_arrays \<Rightarrow> nat \<Rightarrow> memory \<Rightarrow> memory" where
  "blanked ar k M a = (if a \<in> span (beginText ar) k \<union> span (endText ar) k then 32 else M a)"

lemma blank_loop:
  assumes "0 \<notin> span (beginText ar) 8" and "0 \<notin> span (endText ar) 8"
  shows "returns (kfor [0 ..< 8] (blank_step ar)) s (\<lambda>_ t. t = s\<lparr>mem := blanked ar 8 (mem s)\<rparr>)"
proof (rule returns_kfor_rule [where I = "\<lambda>ds t. t = s\<lparr>mem := blanked ar (length ds) (mem s)\<rparr>"])
  fix ds x es t
  assume "[0 ..< 8] = ds @ x # es" and t: "t = s\<lparr>mem := blanked ar (length ds) (mem s)\<rparr>"
  then have x: "x = length ds" "length ds < 8" using upt_split by blast+
  have "beginText ar + of_nat x \<noteq> 0" "endText ar + of_nat x \<noteq> 0"
    using assms in_span [of x 8 "beginText ar"] in_span [of x 8 "endText ar"] x by metis+
  moreover have "blanked ar (Suc x) M = (blanked ar x M)(beginText ar + of_nat x := 32, endText ar + of_nat x := 32)" for M
    by (auto simp: blanked_def span_Suc fun_eq_iff simp del: span.simps)
  ultimately show "returns (blank_step ar x) t (\<lambda>_ u. u = s\<lparr>mem := blanked ar (length (ds @ [x])) (mem s)\<rparr>)"
    using t x by (simp add: blank_step_def kern)
qed (simp_all add: blanked_def [abs_def])

lemma clear_loop:
  assumes "0 \<notin> span f n"
  shows "returns (kfor [0 ..< n] (\<lambda>i. on_mem (wr (f + of_nat i) 0))) s (\<lambda>_ t. t = s\<lparr>mem := poke (mem s) f (replicate n 0)\<rparr>)"
proof (rule returns_kfor_rule [where I = "\<lambda>ds t. t = s\<lparr>mem := poke (mem s) f (replicate (length ds) 0)\<rparr>"])
  fix ds x es t
  assume "[0 ..< n] = ds @ x # es" and t: "t = s\<lparr>mem := poke (mem s) f (replicate (length ds) 0)\<rparr>"
  then have x: "x = length ds" "length ds < n" using upt_split by blast+
  have "f + of_nat x \<noteq> 0" using assms in_span [of x n f] x by metis
  moreover have "replicate (Suc x) 0 = replicate x (0 :: byte) @ [0]" by (simp add: replicate_append_same)
  ultimately show "returns (on_mem (wr (f + of_nat x) 0)) t
      (\<lambda>_ u. u = s\<lparr>mem := poke (mem s) f (replicate (length (ds @ [x])) 0)\<rparr>)"
    using t x by (simp add: kern poke_append del: replicate.simps)
qed (use upt_split in simp_all)

lemma copy_loop:
  assumes "\<And>i. i < length xs \<Longrightarrow> src i \<noteq> 0 \<and> src i \<notin> span dest (length xs) \<and> M (src i) = xs ! i"
    and "0 \<notin> span dest (length xs)" and "i < length xs"
  shows "returns (copy_char (dest + of_nat i) (src i)) (poke M dest (take i xs))
    (\<lambda>_ N. N = poke M dest (take (Suc i) xs))"
proof -
  have sub: "span dest i \<subseteq> span dest (length xs)" using assms(3) by (intro span_mono) simp
  have "poke M dest (take i xs) (src i) = xs ! i"
    using assms(1) [OF assms(3)] sub assms(3) by (subst poke_other) auto
  moreover have "dest + of_nat i \<noteq> 0" using assms(2) in_span [OF assms(3), of dest] by metis
  ultimately show ?thesis
    using assms(1) [OF assms(3)] assms(3) by (simp add: copy_char_def kern take_Suc_conv_app_nth poke_append)
qed

lemma pad_loop:
  assumes "\<And>i. i < length xs \<Longrightarrow> pad_source ar (length xs) i \<noteq> 0 \<and> pad_source ar (length xs) i \<notin> span (finalString ar) (length xs)
      \<and> mem s (pad_source ar (length xs) i) = xs ! i"
    and "0 \<notin> span (finalString ar) (length xs)"
  shows "returns (kloop (pad_step ar (length xs)) 0) s (\<lambda>_ t. t = s\<lparr>mem := poke (mem s) (finalString ar) xs\<rparr>)"
proof (rule returns_kloop_rule [where I = "\<lambda>i t. i \<le> length xs \<and> t = s\<lparr>mem := poke (mem s) (finalString ar) (take i xs)\<rparr>"
      and m = "\<lambda>i _. length xs - i"])
  fix i t
  assume i: "i \<le> length xs \<and> t = s\<lparr>mem := poke (mem s) (finalString ar) (take i xs)\<rparr>"
  show "returns (pad_step ar (length xs) i) t (\<lambda>r u. case r of
      Inl j \<Rightarrow> (j \<le> length xs \<and> u = s\<lparr>mem := poke (mem s) (finalString ar) (take j xs)\<rparr>) \<and> length xs - j < length xs - i
    | Inr v \<Rightarrow> u = s\<lparr>mem := poke (mem s) (finalString ar) xs\<rparr>)"
  proof (cases "i < length xs")
    case True
    then show ?thesis
      using i unfolding pad_step_def if_P [OF True] returns_kthen returns_on_mem returns_kreturn
      by simp (rule returns_mono [OF copy_loop [OF assms True]], auto)
  next
    case False
    then show ?thesis using i by (simp add: pad_step_def kern)
  qed
qed simp

section \<open>The padded line\<close>

definition led_layout :: "led_arrays \<Rightarrow> nat \<Rightarrow> bool" where
  "led_layout ar n \<longleftrightarrow> n < 2 ^ 31
     \<and> 0 \<notin> span (inputText ar) (n + 1) \<and> 0 \<notin> span (beginText ar) 8 \<and> 0 \<notin> span (endText ar) 8
     \<and> 0 \<notin> span (finalString ar) (n + 15) \<and> 0 \<notin> span (ledBuffer ar) 9
     \<and> span (inputText ar) (n + 1) \<inter> (span (beginText ar) 8 \<union> span (endText ar) 8 \<union> span (finalString ar) (n + 15)
          \<union> span (ledBuffer ar) 9) = {}
     \<and> (span (beginText ar) 8 \<union> span (endText ar) 8) \<inter> (span (finalString ar) (n + 15) \<union> span (ledBuffer ar) 9) = {}
     \<and> span (finalString ar) (n + 15) \<inter> span (ledBuffer ar) 9 = {}"

definition padded :: "byte list \<Rightarrow> byte list" where
  "padded line = replicate 7 32 @ line @ replicate 7 32"

lemma length_padded [simp]: "length (padded line) = length line + 14"
  by (simp add: padded_def)

lemma padded_nth:
  "i < length line + 14 \<Longrightarrow> padded line ! i = (if 7 \<le> i \<and> i < length line + 7 then line ! (i - 7) else 32)"
  by (auto simp: padded_def nth_append)

text \<open>
  The memory after the line is typed, the two blank texts are written and the padded string is
  cleared: the state in which the padding loop starts.
\<close>

definition typed_memory :: "led_arrays \<Rightarrow> byte list \<Rightarrow> memory \<Rightarrow> memory" where
  "typed_memory ar line M = poke M (inputText ar) (line @ [0])"

definition cleared_memory :: "led_arrays \<Rightarrow> byte list \<Rightarrow> memory \<Rightarrow> memory" where
  "cleared_memory ar line M = poke (blanked ar 8 (typed_memory ar line M)) (finalString ar)
     (replicate (length line + 15) 0)"

lemma cleared_memory_other:
  "a \<notin> span (finalString ar) (length line + 15) \<Longrightarrow> cleared_memory ar line M a = blanked ar 8 (typed_memory ar line M) a"
  by (simp add: cleared_memory_def poke_other)

lemma final_string_span: "span (finalString ar) (length line + 14) \<subseteq> span (finalString ar) (length line + 15)"
  by (rule span_mono) simp

lemma pad_source_padded:
  assumes lay: "led_layout ar (length line)" and line: "0 \<notin> set line" and i: "i < length (padded line)"
  defines "a \<equiv> pad_source ar (length (padded line)) i"
  shows "a \<noteq> 0 \<and> a \<notin> span (finalString ar) (length (padded line)) \<and> cleared_memory ar line M a = padded line ! i"
proof -
  let ?n = "length line" and ?in = "inputText ar" and ?f = "finalString ar"
  note l = lay [unfolded led_layout_def]
  have at1: "str_at (typed_memory ar line M) ?in line"
    unfolding typed_memory_def using l line by (intro str_at_poke) simp_all
  note sub = final_string_span [of ar line] and M3 = cleared_memory_other [of _ ar line M]
  consider "i < 7" | "7 \<le> i" "i < ?n + 7" | "?n + 7 \<le> i" by linarith
  then show ?thesis
  proof cases
    case 1
    then have a: "a = beginText ar + of_nat i" "beginText ar + of_nat i \<in> span (beginText ar) 8"
      using in_span [of i 8] by (simp_all add: a_def pad_source_def del: span.simps)
    then have "beginText ar + of_nat i \<notin> span ?f (?n + 15)" "beginText ar + of_nat i \<noteq> 0" using l by auto
    then show ?thesis using a 1 sub i M3 by (auto simp: blanked_def padded_nth simp del: span.simps)
  next
    case 2
    then have a: "a = ?in + of_nat (i - 7)" "?in + of_nat (i - 7) \<in> span ?in (?n + 1)"
      using in_span [of "i - 7" "?n + 1" ?in] by (simp_all add: a_def pad_source_def del: span.simps)
    then have o: "?in + of_nat (i - 7) \<notin> span ?f (?n + 15)" "?in + of_nat (i - 7) \<noteq> 0"
      "?in + of_nat (i - 7) \<notin> span (beginText ar) 8" "?in + of_nat (i - 7) \<notin> span (endText ar) 8" using l by auto
    have "typed_memory ar line M (?in + of_nat (i - 7)) = line ! (i - 7)" using str_at_nth [OF at1, of "i - 7"] 2 by simp
    then show ?thesis using a(1) o 2 sub i M3 by (auto simp: blanked_def padded_nth simp del: span.simps)
  next
    case 3
    then have a: "a = endText ar + of_nat (?n + 14 - i)" "endText ar + of_nat (?n + 14 - i) \<in> span (endText ar) 8"
      using i in_span [of "?n + 14 - i" 8 "endText ar"] by (simp_all add: a_def pad_source_def del: span.simps)
    then have "endText ar + of_nat (?n + 14 - i) \<notin> span ?f (?n + 15)" "endText ar + of_nat (?n + 14 - i) \<noteq> 0" using l by auto
    then show ?thesis using a 3 sub i M3 by (auto simp: blanked_def padded_nth simp del: span.simps)
  qed
qed

lemma padded_terminated:
  assumes lay: "led_layout ar (length line)" and line: "0 \<notin> set line"
  shows "str_at (poke (cleared_memory ar line M) (finalString ar) (padded line)) (finalString ar) (padded line)"
proof -
  let ?n = "length line" and ?f = "finalString ar" and ?T = "padded line"
  let ?M4 = "poke (cleared_memory ar line M) ?f ?T"
  note l = lay [unfolded led_layout_def]
  have "bytes_at (cleared_memory ar line M) ?f (replicate (?n + 15) 0)"
    unfolding cleared_memory_def using l by (intro bytes_at_poke) simp_all
  moreover have "replicate (?n + 15) (0 :: byte) = replicate (?n + 14) 0 @ [0]"
    by (simp add: replicate_append_same numeral_eq_Suc)
  ultimately have "bytes_at (cleared_memory ar line M) (?f + of_nat (?n + 14)) [0]"
    by (simp only: bytes_at_append length_replicate)
  moreover have "?f + of_nat (?n + 14) \<notin> span ?f (length ?T)"
    unfolding length_padded by (rule end_not_in_span) (use l in simp)
  ultimately have "?f + of_nat (?n + 14) \<noteq> 0 \<and> ?M4 (?f + of_nat (?n + 14)) = 0"
    by (simp add: poke_other del: of_nat_add)
  moreover have "bytes_at ?M4 ?f ?T" using l final_string_span [of ar line] by (intro bytes_at_poke) auto
  moreover have "0 \<notin> set ?T" using line by (simp add: padded_def)
  ultimately show ?thesis by (simp add: str_at_def bytes_at_append del: of_nat_add)
qed

lemma padded_keeps_guard:
  assumes lay: "led_layout ar (length line)"
  shows "poke (cleared_memory ar line M) (finalString ar) (padded line) (ledBuffer ar + 8) = M (ledBuffer ar + 8)"
proof -
  note l = lay [unfolded led_layout_def]
  have "ledBuffer ar + 8 \<in> span (ledBuffer ar) 9" using in_span [of 8 9 "ledBuffer ar"] by simp
  then have o: "ledBuffer ar + 8 \<notin> span (finalString ar) (length line + 15)"
    "ledBuffer ar + 8 \<notin> span (inputText ar) (length line + 1)"
    "ledBuffer ar + 8 \<notin> span (beginText ar) 8 \<union> span (endText ar) 8" using l by auto
  then have "ledBuffer ar + 8 \<notin> span (finalString ar) (length (padded line))"
    using final_string_span [of ar line] by auto
  then show ?thesis
    using o by (simp add: poke_other cleared_memory_other blanked_def typed_memory_def)
qed

lemma prepare_text_pads:
  assumes lay: "led_layout ar (length line)" and line: "0 \<notin> set line"
  shows "returns (prepare_text ar line) s (\<lambda>_ t. \<exists>M. t = s\<lparr>mem := M\<rparr> \<and> str_at M (finalString ar) (padded line)
     \<and> M (ledBuffer ar + 8) = mem s (ledBuffer ar + 8))"
proof -
  let ?n = "length line" and ?f = "finalString ar" and ?T = "padded line"
  let ?M1 = "typed_memory ar line (mem s)"
  let ?M2 = "blanked ar 8 ?M1" and ?M3 = "cleared_memory ar line (mem s)"
  note l = lay [unfolded led_layout_def]
  have n15: "14 + ?n + 1 = ?n + 15" and n14: "14 + ?n = length ?T" by simp_all
  have nz: "0 \<notin> span ?f (length ?T)" using l final_string_span [of ar line] by auto
  have "str_at ?M1 (inputText ar) line"
    unfolding typed_memory_def using l line by (intro str_at_poke) simp_all
  then have len: "returns (textLength (inputText ar)) (mem (s\<lparr>mem := ?M1\<rparr>)) (\<lambda>n N. n = ?n \<and> N = ?M1)"
    using textLength_str by simp
  have blank: "returns (kfor [0 ..< 8] (blank_step ar)) (s\<lparr>mem := ?M1\<rparr>) (\<lambda>_ t. t = s\<lparr>mem := ?M2\<rparr>)"
    using blank_loop [of ar "s\<lparr>mem := ?M1\<rparr>"] l by simp
  have clear: "returns (kfor [0 ..< 14 + ?n + 1] (\<lambda>i. on_mem (wr (?f + of_nat i) 0))) (s\<lparr>mem := ?M2\<rparr>)
      (\<lambda>_ t. t = s\<lparr>mem := ?M3\<rparr>)"
    unfolding n15 cleared_memory_def
    using clear_loop [of ?f "?n + 15" "s\<lparr>mem := ?M2\<rparr>"] l by (simp del: upt_Suc span.simps replicate.simps)
  have pad: "returns (kloop (pad_step ar (14 + ?n)) 0) (s\<lparr>mem := ?M3\<rparr>) (\<lambda>_ t. t = s\<lparr>mem := poke ?M3 ?f ?T\<rparr>)"
    unfolding n14 using pad_loop [of ?T ar "s\<lparr>mem := ?M3\<rparr>"] pad_source_padded [OF lay line] nz by simp
  have twice: "s\<lparr>mem := M, mem := N\<rparr> = s\<lparr>mem := N\<rparr>" for M N by simp
  have "returns (prepare_text ar line) s (\<lambda>_ t. t = s\<lparr>mem := poke ?M3 ?f ?T\<rparr>)"
    unfolding prepare_text_def host_gets_def returns_kthen returns_kbind returns_kmodify returns_on_mem Let_def
      typed_memory_def [symmetric]
    apply (rule returns_mono [OF len], elim conjE, simp only: twice)
    apply (rule returns_mono [OF blank], simp only:)
    apply (rule returns_mono [OF clear], simp only:)
    apply (rule pad)
    done
  then show ?thesis
    by (rule returns_mono) (use padded_terminated [OF lay line] padded_keeps_guard [OF lay] in blast)
qed

section \<open>Windows\<close>

definition window :: "byte list \<Rightarrow> nat \<Rightarrow> byte list" where
  "window line k = take 8 (drop k (padded line))"

definition led_ready :: "led_arrays \<Rightarrow> byte list \<Rightarrow> kstate \<Rightarrow> bool" where
  "led_ready ar line s \<longleftrightarrow> str_at (mem s) (finalString ar) (padded line) \<and> mem s (ledBuffer ar + 8) = 0"

lemma printToLED_window:
  assumes lay: "led_layout ar (length line)" and ready: "led_ready ar line s" and k: "k \<le> length line + 6"
  shows "returns (printToLED ar (finalString ar) k) s (\<lambda>_ t. led_ready ar line t \<and> stdout t = stdout s @ 10 # window line k)"
proof -
  let ?f = "finalString ar" and ?b = "ledBuffer ar" and ?w = "window line k" and ?T = "padded line"
  note l = lay [unfolded led_layout_def]
  have w: "length ?w = 8" using k by (simp add: window_def)
  have at: "str_at (mem s) ?f ?T" and z: "mem s (?b + 8) = 0" using ready by (simp_all add: led_ready_def)
  have b8: "span ?b 8 \<subseteq> span ?b 9" "?b + 8 \<in> span ?b 9" "?b + 8 \<notin> span ?b 8"
    using span_mono [of 8 9 ?b] in_span [of 8 9 ?b] end_not_in_span [of 8 ?b] by simp_all
  have src: "?f + of_nat (k + i) \<noteq> 0 \<and> ?f + of_nat (k + i) \<notin> span ?b (length ?w) \<and> mem s (?f + of_nat (k + i)) = ?w ! i"
    if i: "i < length ?w" for i
  proof -
    have m: "?f + of_nat (k + i) \<in> span ?f (length line + 15)" using i w k by (intro in_span) simp
    then have "?f + of_nat (k + i) \<notin> span ?b (length ?w)" "?f + of_nat (k + i) \<noteq> 0" using l b8(1) unfolding w by auto
    moreover have "mem s (?f + of_nat (k + i)) = ?T ! (k + i)" using str_at_nth [OF at, of "k + i"] i w k by simp
    ultimately show ?thesis using i w k by (simp add: window_def del: of_nat_add)
  qed
  have nz: "0 \<notin> span ?b (length ?w)" using l b8(1) unfolding w by blast
  let ?t = "s\<lparr>mem := poke (mem s) ?b ?w\<rparr>"
  have copy: "returns (kfor [0 ..< 8] (\<lambda>index. on_mem (copy_char (?b + of_nat index) (?f + of_nat (k + index))))) s (\<lambda>_ t. t = ?t)"
  proof (rule returns_kfor_rule [where I = "\<lambda>ds t. t = s\<lparr>mem := poke (mem s) ?b (take (length ds) ?w)\<rparr>"])
    fix ds x es t
    assume "[0 ..< 8] = ds @ x # es" and t: "t = s\<lparr>mem := poke (mem s) ?b (take (length ds) ?w)\<rparr>"
    then have x: "x = length ds" "x < length ?w" using upt_split w by metis+
    show "returns (on_mem (copy_char (?b + of_nat x) (?f + of_nat (k + x)))) t
        (\<lambda>_ u. u = s\<lparr>mem := poke (mem s) ?b (take (length (ds @ [x])) ?w)\<rparr>)"
      unfolding returns_on_mem t
      using returns_mono [OF copy_loop [of ?w "\<lambda>i. ?f + of_nat (k + i)" ?b "mem s" x, OF src nz x(2)]] x(1) by simp
  qed (simp_all add: w)
  have keep: "mem ?t (?b + 8) = 0" using z b8(3) by (simp add: poke_other w del: span.simps)
  have "bytes_at (mem ?t) ?b ?w" using nz by (simp add: bytes_at_poke w)
  moreover have "0 \<notin> set ?w" using at set_take_subset set_drop_subset unfolding window_def str_at_def by fast
  moreover have "?b + 8 \<noteq> 0" using l b8(2) by auto
  ultimately have buf: "str_at (mem ?t) ?b ?w" using keep by (simp add: str_at_def bytes_at_append w)
  have T: "Suc (length ?T) = length line + 15" by simp
  have apart: "span ?f (Suc (length ?T)) \<inter> span ?b (length ?w) = {}" unfolding T w using l b8(1) by blast
  have "str_at (mem ?t) ?f ?T"
    using at str_at_poke_other [OF apart, of "mem s"] by simp
  then have ready': "led_ready ar line (?t\<lparr>stdout := out\<rparr>)" for out using keep by (simp add: led_ready_def)
  have "print_string ?b (?t\<lparr>stdout := stdout s @ [10]\<rparr>) = Some (Return () (?t\<lparr>stdout := stdout s @ 10 # ?w\<rparr>))"
    using print_string_run [of "?t\<lparr>stdout := stdout s @ [10]\<rparr>" ?b ?w] buf by simp
  then show ?thesis
    unfolding printToLED_def returns_kthen
    by (intro returns_mono [OF copy]) (use ready' in \<open>simp add: returns_def print_run\<close>)
qed

lemma led_step_next:
  assumes lay: "led_layout ar (length line)" and ready: "led_ready ar line s" and k: "k < length line + 7"
  shows "returns (led_step ar k) s (\<lambda>r t. r = Inl (Suc k mod (length line + 7)) \<and> led_ready ar line t
     \<and> stdout t = stdout s @ 10 # window line k)"
proof -
  have "returns (rd (finalString ar + of_nat (k + 1 + 7))) (mem t) (\<lambda>c N. N = mem t \<and> (c = 0 \<longleftrightarrow> Suc k = length line + 7))"
    if t: "led_ready ar line t" for t
  proof (cases "Suc k = length line + 7")
    case True
    have "str_at (mem t) (finalString ar + of_nat (length (padded line))) []"
      by (rule str_at_drop) (use t in \<open>simp add: led_ready_def\<close>)
    moreover have "k + 1 + 7 = length (padded line)" using True by simp
    ultimately show ?thesis using True by (simp only: returns_rd str_at_Nil) simp
  next
    case False
    then have i: "k + 1 + 7 < length (padded line)" using k by simp
    have at: "str_at (mem t) (finalString ar) (padded line)" using t by (simp add: led_ready_def)
    have "padded line ! (k + 1 + 7) \<noteq> 0" using at nth_mem [OF i] unfolding str_at_def by metis
    then show ?thesis using str_at_nth [OF at i] False by (simp only: returns_rd) simp
  qed
  note rd = this
  show ?thesis
    unfolding led_step_def returns_kthen returns_kbind returns_on_mem returns_kreturn
    by (rule returns_mono [OF printToLED_window [OF lay ready]], use k in simp, elim conjE, rule returns_mono [OF rd])
      (use k in \<open>auto simp: mod_Suc\<close>)
qed

text \<open>The first \<open>n\<close> rounds of the endless loop.\<close>

primrec led_frames :: "led_arrays \<Rightarrow> nat \<Rightarrow> (nat + unit) kern" where
  "led_frames ar 0 = kreturn (Inl 0)"
| "led_frames ar (Suc n) = kbind (led_frames ar n) (\<lambda>r. case r of Inl i \<Rightarrow> led_step ar i | Inr v \<Rightarrow> kreturn (Inr v))"

lemma led_frames_print:
  assumes lay: "led_layout ar (length line)" and ready: "led_ready ar line s"
  shows "returns (led_frames ar n) s (\<lambda>r t. r = Inl (n mod (length line + 7)) \<and> led_ready ar line t
     \<and> stdout t = stdout s @ concat (map (\<lambda>k. 10 # window line (k mod (length line + 7))) [0 ..< n]))"
proof (induction n)
  case (Suc n)
  show ?case
    unfolding led_frames.simps returns_kbind
    by (rule returns_mono [OF Suc.IH], elim conjE)
       (simp, rule returns_mono [OF led_step_next [OF lay]], simp, simp, auto simp: mod_Suc_eq)
qed (use ready in \<open>simp add: kern\<close>)

text \<open>The scroller on the host: when the bytes behind its arrays belong to nobody else and the one
  behind the buffer is zero, the program pads the line with seven blanks on both sides and prints, for ever, every window of eight
  characters of it in turn, each on a line of its own.\<close>

theorem host_scroller_prints:
  assumes "led_layout ar (length line)" and "0 \<notin> set line" and "mem s (ledBuffer ar + 8) = 0"
  shows "returns (kthen (prepare_text ar line) (led_frames ar n)) s (\<lambda>_ t. stdout t = stdout s
     @ concat (map (\<lambda>k. 10 # take 8 (drop (k mod (length line + 7)) (replicate 7 32 @ line @ replicate 7 32))) [0 ..< n]))"
  unfolding returns_kthen
  by (rule returns_mono [OF prepare_text_pads [OF assms(1,2)]], elim exE conjE, rule returns_mono [OF led_frames_print [OF assms(1)]])
     (use assms(3) in \<open>auto simp: led_ready_def window_def padded_def\<close>)

definition led_demo :: led_arrays where
  "led_demo = \<lparr>inputText = 0x1000, beginText = 0x2000, endText = 0x3000, finalString = 0x4000, ledBuffer = 0x5000\<rparr>"

lemma host_scroller_prints_witness:
  "returns (kthen (prepare_text led_demo [72, 105]) (led_frames led_demo 2)) boot_state (\<lambda>_ t. stdout t = stdout boot_state
     @ [10, 32, 32, 32, 32, 32, 32, 32, 72, 10, 32, 32, 32, 32, 32, 32, 72, 105])"
proof -
  have "led_layout led_demo 2"
    unfolding led_layout_def led_demo_def led_arrays.simps Int_Un_distrib Int_Un_distrib2 Un_empty
    by (intro conjI; (rule span_nonnull | rule span_apart | simp); simp)
  then have lay: "led_layout led_demo (length [72 :: byte, 105])" by (simp add: eval_nat_numeral)
  have m: "mem boot_state (ledBuffer led_demo + 8) = 0" by (simp add: boot_state_def)
  have shown: "concat (map (\<lambda>k. (10 :: byte) # take 8 (drop (k mod (length [72 :: byte, 105] + 7)) (replicate 7 32 @ [72, 105] @ replicate 7 32))) [0 ..< 2])
      = [10 :: byte, 32, 32, 32, 32, 32, 32, 32, 72, 10, 32, 32, 32, 32, 32, 32, 72, 105]" by code_simp
  show ?thesis
    using host_scroller_prints [OF lay _ m, of 2] by (simp only: shown) simp
qed

end
