(* ===== verification/Spec2Isabelle.thy ===== *)
theory Spec2Isabelle
  imports SchedSpec ObSpec Kernel RtlSpec IoSpec PsSpec MessRecv ObWaitSpec KdSpec MmSpec DiningSpec
    PsArgs ShellSpec Programs Trap FooStore
    Stubs Boot ScrollerSpec Win32Spec LedSpec
begin

text \<open>
  ARCOS: a verification library of the kernel, and of the user programs, of a small operating
  system for MIPS32.  All source paths are relative to \<^verbatim>\<open>src/\<close>.

  \<^bold>\<open>The program.\<close>  A timer interrupt, a character on the serial line or a system call enters
  the kernel through \<^verbatim>\<open>HalHandleException\<close> (\<^verbatim>\<open>base/hal/mipsel32/init.c\<close>), which calls the
  scheduler, the serial driver, the debugger or \<^verbatim>\<open>KeSystemService\<close> (\<^verbatim>\<open>base/ke/syscall.c\<close>).
  System calls reach the process manager (\<^verbatim>\<open>ps\<close>), message passing (\<^verbatim>\<open>mess\<close>), input and output
  (\<^verbatim>\<open>io\<close>) and the object manager (\<^verbatim>\<open>ob\<close>).  Processes and files are objects: reference counted
  blocks of memory behind per-process handle tables.  The scheduler (\<^verbatim>\<open>ke/scheduler.c\<close>) keeps
  every process in exactly one of its lists: a ready queue per priority, the timer list, the
  list of the blocked, or none (the running one).  Messages and waiting for objects block and
  resume processes through it.  All memory comes from an allocator that never frees
  (\<^verbatim>\<open>mm/mm.c\<close>; \<^verbatim>\<open>mm/nondynmm.c\<close> is a copy of it).

  \<^bold>\<open>The model.\<close>  \<^theory_text>\<open>Prelude\<close> holds the monad of the kernel's functions, \<^verbatim>\<open>kmonad\<close>: state in, and
  out a result and a state (\<open>Return\<close>), a stop (\<open>Halt\<close>, with the bug check message or \<open>Fault\<close>
  for an access through an invalid pointer), or \<open>None\<close> for a call that does not return.
  \<open>returns m s Q\<close> says that \<open>m\<close> returns from \<open>s\<close>, and with what: every theorem about a function
  is of total correctness.  Loops are \<open>kloop\<close> (a \<^theory_text>\<open>partial_function\<close>, so no fuel is
  chosen anywhere); \<open>returns_while\<close> proves that they end with a measure.  Words are 32 and 8
  bits wide and wrap as in C.  The rules of the collections \<open>kern\<close> and \<open>run\<close> execute a function
  symbolically.  \<^theory_text>\<open>KState\<close> holds the structs of \<^verbatim>\<open>include/\<close> as records and all globals in
  one record \<open>kstate\<close>.  The heap is split by struct type (\<open>procs\<close>, \<open>headers\<close>, \<open>otypes\<close>,
  \<open>messages\<close>, ...), with bytes in \<open>mem\<close>; a block of memory becomes a struct where the code casts it.

  \<^bold>\<open>Theories and code.\<close>
  \<^item> \<^theory_text>\<open>Mm\<close>, \<^theory_text>\<open>MmSpec\<close>: \<^verbatim>\<open>base/mm/mm.c\<close>.  Aligned, disjoint blocks; locale \<open>bump_allocator\<close>.
  \<^item> \<^theory_text>\<open>Ob\<close>, \<^theory_text>\<open>ObWait\<close>: \<^verbatim>\<open>base/ob/ob.c\<close> and the object methods of \<^verbatim>\<open>base/ob/test.c\<close>.
    \<^theory_text>\<open>ObLists\<close> and \<^theory_text>\<open>ObCounts\<close> give the invariant \<open>ob_inv\<close> (handle counts are the numbers of
    open slots, reference counts cover them, every live object is in the list of its type),
    \<^theory_text>\<open>ObOps\<close> and \<^theory_text>\<open>ObCreate\<close> the result of each operation, \<^theory_text>\<open>ObSpec\<close> and \<^theory_text>\<open>ObWaitSpec\<close> the
    properties.
  \<^item> \<^theory_text>\<open>Foo\<close>: the test program \<^verbatim>\<open>base/ob/test.c\<close>, a client of the object manager on the host.
    \<^theory_text>\<open>FooDump\<close> has the text of one object and of the list, \<^theory_text>\<open>FooSpec\<close> an abstract store of
    handles and values that creating, reading and closing act on, \<^theory_text>\<open>FooMain\<close> everything the
    program prints, \<^theory_text>\<open>FooStore\<close> the refinement for every sequence of calls.  The program is linked with
    \<^verbatim>\<open>OB_STANDALONE\<close>; the model keeps the allocator of \<open>Mm\<close> where that has \<^verbatim>\<open>malloc\<close> and \<^verbatim>\<open>free\<close>, and a halt where
    it has \<^verbatim>\<open>printf\<close> and \<^verbatim>\<open>exit\<close> for a failed assertion.
  \<^item> \<^theory_text>\<open>MessQueue\<close>, \<^theory_text>\<open>Mess\<close>: \<^verbatim>\<open>base/mess/mess.c\<close>, the queue of waiting processes and the messages.
    \<^theory_text>\<open>MessSend\<close>, \<^theory_text>\<open>MessSpec\<close>, \<^theory_text>\<open>MessRecv\<close>: sending, receiving, deleting.
  \<^item> \<^theory_text>\<open>Scheduler\<close>: \<^verbatim>\<open>base/ke/scheduler.c\<close>.  \<^theory_text>\<open>SchedInv\<close> abstracts it to lists of processes
    (one per \<open>qid\<close>) with the invariant \<open>sched_inv\<close>; \<^theory_text>\<open>SchedOps\<close> to \<^theory_text>\<open>SchedTimer\<close> prove that
    each operation refines the list operation; \<^theory_text>\<open>SchedSpec\<close> has the properties, the step relation
    of scheduling events and the locale \<open>scheduler_service\<close> through which others use the scheduler.
  \<^item> \<^theory_text>\<open>PsLookup\<close>, \<^theory_text>\<open>Ps\<close>: \<^verbatim>\<open>base/ps/ps.c\<close>.  \<^theory_text>\<open>ProcList\<close> (locale \<open>process_search\<close>: the loops over
    the list of all processes), \<^theory_text>\<open>KernelInv\<close> (scheduler and object invariants together),
    \<^theory_text>\<open>PsChange\<close>, \<^theory_text>\<open>PsSpec\<close>, \<^theory_text>\<open>PsArgs\<close> (the way of the arguments from the waiter to a philosopher, stage by stage).
  \<^item> \<^theory_text>\<open>Io\<close>, \<^theory_text>\<open>IoSpec\<close>: \<^verbatim>\<open>base/io/io.c\<close>, \<^verbatim>\<open>base/io/getline.c\<close>.  The keyboard buffer and the queue
    of strings to send refine lists.
  \<^item> \<^theory_text>\<open>Rtl\<close>, \<^theory_text>\<open>RtlMem\<close>, \<^theory_text>\<open>RtlPrint\<close>, \<^theory_text>\<open>RtlFormat\<close>, \<^theory_text>\<open>RtlSpec\<close>: \<^verbatim>\<open>base/rtl/string.c\<close>,
    \<^verbatim>\<open>base/rtl/memory.c\<close>.  \<open>expand\<close> is the reference text of a format string.
  \<^item> \<^theory_text>\<open>Hal\<close>, \<^theory_text>\<open>KdIo\<close>, \<^theory_text>\<open>KdCommand\<close>, \<^theory_text>\<open>KdLine\<close>, \<^theory_text>\<open>KdSpec\<close>: display, bug check and kernel debugger
    (\<^verbatim>\<open>base/hal/mipsel32/display.c\<close>, \<^verbatim>\<open>base/ke/bugcheck.c\<close>, \<^verbatim>\<open>base/kd\<close>).  A serial controller
    is a stream of ready bits and the list of the characters it was given.
  \<^item> \<^theory_text>\<open>Kernel\<close>: system call dispatcher, exception handler, start-up.  \<^theory_text>\<open>Interrupts\<close> has the invariant
    \<open>machine_ok\<close> of the scheduler, the objects and all devices together (timer, serial line with the processes
    that wait for input, transmitter, debugger's line), and shows that every interrupt handler returns
    and keeps it, except for the carriage return that completes a debugger command.  \<^theory_text>\<open>Trap\<close> follows the
    saved registers of all processes through interrupts and \<^verbatim>\<open>Sleep\<close>: a switch is invisible to the process.
    That does not extend to all system calls, because \<^verbatim>\<open>KeSystemService\<close> can store the result of a call
    that blocks in the context of the process that runs next.
    \<^theory_text>\<open>Stubs\<close> has the system call stubs of \<^verbatim>\<open>base/api/mipsel32/api.S\<close>, what a program gets
    back from them, and where the result goes when the caller no longer runs.  \<^theory_text>\<open>Boot\<close>: the start-up establishes every invariant the other theories assume.
  \<^item> \<^theory_text>\<open>UserApi\<close>: \<^verbatim>\<open>include/api.h\<close>, the system call stubs as a record of parameters.
    \<^theory_text>\<open>Shell\<close>, \<^theory_text>\<open>ShellSpec\<close>: \<^verbatim>\<open>base/apps/shell.c\<close>, \<^verbatim>\<open>changeprio.c\<close>.  \<^theory_text>\<open>Programs\<close>: \<^verbatim>\<open>ring.c\<close>,
    \<^verbatim>\<open>taskmanager.c\<close>, \<^verbatim>\<open>kill.c\<close>, \<^verbatim>\<open>keepalive.c\<close>, \<^verbatim>\<open>drone.c\<close>, \<^verbatim>\<open>startwaiter.c\<close>, \<^verbatim>\<open>scroller.c\<close>;
    \<^theory_text>\<open>ScrollerSpec\<close> follows the scrolling text down to the display.  \<^theory_text>\<open>ScrollerHost\<close>, \<^theory_text>\<open>LedSpec\<close>: the
    scroller as a program of the host, \<^verbatim>\<open>base/apps/scroller/scroller.c\<close>.
    \<^theory_text>\<open>Dining\<close>: \<^verbatim>\<open>waiter.c\<close>, \<^verbatim>\<open>philosopher.c\<close>; \<^theory_text>\<open>DiningSystem\<close> runs them side by side as a step
    relation, an abstraction of the two loops made by reading them, and \<^theory_text>\<open>DiningSpec\<close> has mutual exclusion,
    freedom from deadlock within the 300 messages of the waiter's life, and what happens after them.
  \<^item> \<^theory_text>\<open>Win32\<close>, \<^theory_text>\<open>Win32Spec\<close>: the simulator that runs the kernel as a Windows program,
    \<^verbatim>\<open>base/hal/win32\<close> and \<^verbatim>\<open>base/ke/win32\<close>.  The functions of Windows are a record of parameters over
    a state of their own, with the laws of threads that the code relies on as hypotheses of the property:
    the context of a thread is read and written only while it is suspended.
  \<^item> \<^theory_text>\<open>Demo\<close>, \<^theory_text>\<open>PsDemo\<close>, \<^theory_text>\<open>MessDemo\<close>: concrete kernel states at which the witnesses apply the
    properties.

  \<^bold>\<open>Bounds.\<close>  Handle tables have \<open>MAX_HANDLE_COUNT\<close> slots, priorities \<open>PROCESS_PRIORITY_LEVELS\<close>
  queues, the keyboard buffer \<open>FIFO_SIZE\<close> bytes, the debugger's line 160, as in the code.
  Hypotheses of the form \<open>unat x + n < 2 ^ 32\<close> say that a buffer does not wrap around the end of
  the address space or that a counter has room.

  \<^bold>\<open>Not modelled.\<close>  The assembler sources \<^verbatim>\<open>exception.S\<close> and \<^verbatim>\<open>misc.S\<close>: saving and restoring
  registers, the interrupt bit; what the C code needs of them is a field of the state or
  a parameter.  Windows itself, under the simulator.  The interrupt controllers, which the code
  declares and never uses.  The declarations of variable arguments in \<^verbatim>\<open>include/vadefs.h\<close>,
  which belong to the compiler.
\<close>

end
